(* ===== verification/Prelude.thy ===== *)
theory Prelude
  imports Main "HOL-Library.Word" "HOL-Library.Char_ord" "HOL-Library.List_Lexorder"
    "HOL-Library.Multiset"
begin

text \<open>
  Shared vocabulary of the development: the failure values of the C++ program, the result type
  with its bind, the machine integer types, little-endian byte strings, and the generic lemmas
  on lists the components use.

  A failing C++ operation is a value \<open>Inl e\<close>.  Exceptions of the standard library keep their
  name; \<open>Assertion\<close> is a failed \<open>assert\<close>; \<open>Undefined\<close> is undefined behaviour (a dereferenced
  past-the-end iterator, a signed overflow, \<open>front()\<close> of an empty deque), and \<open>Bad_Index\<close> that of
  \<open>operator[]\<close> past the end of a vector, kept apart to state that it does not occur.  No function of the
  server catches an exception, so a failure ends the computation it occurs in.
\<close>

named_theorems result_simps \<open>evaluation rules of the result type\<close>
named_theorems codec_simps \<open>decoding of an encoded value in front of any rest\<close>

datatype error =
    Invalid_Argument
  | Out_Of_Range
  | Runtime_Error string
  | Bad_Optional_Access
  | Bad_Index
  | Assertion
  | Undefined

type_synonym 'a result = "error + 'a"

type_synonym int32 = "32 word"

type_synonym size_t = "64 word"

type_synonym 'a decoder = "string \<Rightarrow> ('a \<times> string) result"

abbreviation INT_MAX :: int where "INT_MAX \<equiv> 2147483647"

abbreviation INT_MIN :: int where "INT_MIN \<equiv> - 2147483648"

section \<open>Results\<close>

definition rbind :: "'a result \<Rightarrow> ('a \<Rightarrow> 'b result) \<Rightarrow> 'b result" where
  "rbind m f = (case m of Inl e \<Rightarrow> Inl e | Inr x \<Rightarrow> f x)"

lemma rbind_simps [simp, result_simps]:
  "rbind (Inl e) f = Inl e"
  "rbind (Inr x) f = f x"
  by (simp_all add: rbind_def)

lemma rbind_eq_Inr_iff [result_simps]:
  "rbind m f = Inr y \<longleftrightarrow> (\<exists>x. m = Inr x \<and> f x = Inr y)"
  by (simp add: rbind_def split: sum.splits)

lemma rbind_assoc: "rbind (rbind m f) g = rbind m (\<lambda>x. rbind (f x) g)"
  by (simp add: rbind_def split: sum.splits)

lemma rbind_cong [fundef_cong]:
  "m = m' \<Longrightarrow> (\<And>x. m' = Inr x \<Longrightarrow> f x = f' x) \<Longrightarrow> rbind m f = rbind m' f'"
  by (auto simp: rbind_def split: sum.splits)

text \<open>A loop that appends one piece of output per element and stops at the first failure.\<close>

fun concat_results :: "('a \<Rightarrow> string result) \<Rightarrow> 'a list \<Rightarrow> string result" where
  "concat_results f [] = Inr []"
| "concat_results f (x # xs) =
     rbind (f x) (\<lambda>s. rbind (concat_results f xs) (\<lambda>t. Inr (s @ t)))"

lemma concat_results_append:
  "concat_results f (xs @ ys) =
     rbind (concat_results f xs) (\<lambda>s. rbind (concat_results f ys) (\<lambda>t. Inr (s @ t)))"
  by (induction xs) (auto simp: rbind_def split: sum.splits)

lemma concat_results_cong [fundef_cong]:
  "xs = ys \<Longrightarrow> (\<And>x. x \<in> set ys \<Longrightarrow> f x = g x) \<Longrightarrow> concat_results f xs = concat_results g ys"
  by (induction xs arbitrary: ys) auto

section \<open>Signed arithmetic\<close>

text \<open>
  The C++ type \<open>int\<close> is a 32 bit word read through \<open>sint\<close>.  Signed overflow is undefined
  behaviour, so addition and negation are partial.
\<close>

definition fits_int :: "int \<Rightarrow> bool" where
  "fits_int i \<longleftrightarrow> INT_MIN \<le> i \<and> i \<le> INT_MAX"

definition int_add :: "int32 \<Rightarrow> int32 \<Rightarrow> int32 result" where
  "int_add a b = (if fits_int (sint a + sint b) then Inr (a + b) else Inl Undefined)"

definition int_neg :: "int32 \<Rightarrow> int32 result" where
  "int_neg a = (if fits_int (- sint a) then Inr (- a) else Inl Undefined)"

lemma fits_int_sint [simp]: "fits_int (sint (w :: int32))"
  using sint_range_size [of w] by (simp add: fits_int_def word_size)

lemma sint_of_int [simp]: "fits_int i \<Longrightarrow> sint (word_of_int i :: int32) = i"
  by (simp add: fits_int_def int_word_sint)

lemma int_add_sint: "int_add a b = Inr c \<Longrightarrow> sint c = sint a + sint b"
proof -
  assume "int_add a b = Inr c"
  then have fit: "fits_int (sint a + sint b)" and c: "c = a + b"
    by (auto simp: int_add_def split: if_splits)
  have "a + b = word_of_int (sint a + sint b)" by simp
  with fit c show ?thesis by (metis sint_of_int)
qed

lemma int_neg_sint: "int_neg a = Inr c \<Longrightarrow> sint c = - sint a"
proof -
  assume "int_neg a = Inr c"
  then have fit: "fits_int (- sint a)" and c: "c = - a"
    by (auto simp: int_neg_def split: if_splits)
  have "- a = word_of_int (- sint a)" by simp
  with fit c show ?thesis by (metis sint_of_int)
qed

section \<open>Little-endian byte strings\<close>

primrec le_bytes :: "nat \<Rightarrow> nat \<Rightarrow> string" where
  "le_bytes 0 x = []"
| "le_bytes (Suc n) x = char_of (x mod 256) # le_bytes n (x div 256)"

primrec of_le_bytes :: "string \<Rightarrow> nat" where
  "of_le_bytes [] = 0"
| "of_le_bytes (c # cs) = of_char c + 256 * of_le_bytes cs"

lemma length_le_bytes [simp]: "length (le_bytes n x) = n"
  by (induction n arbitrary: x) auto

lemma of_le_bytes_le_bytes [simp]: "of_le_bytes (le_bytes n x) = x mod 256 ^ n"
  by (induction n arbitrary: x) (simp_all add: mod_mult2_eq)

lemma of_le_bytes_less: "of_le_bytes cs < 256 ^ length cs"
proof (induction cs)
  case (Cons c cs)
  have "of_le_bytes (c # cs) < 256 * Suc (of_le_bytes cs)"
    using nat_of_char_less_256 [of c] by simp
  also have "\<dots> \<le> 256 * 256 ^ length cs"
    using Cons by (intro mult_le_mono2 Suc_leI)
  finally show ?case by simp
qed simp

section \<open>Options and lists\<close>

lemma option_eqI: "(\<And>w. a = Some w \<longleftrightarrow> b = Some w) \<Longrightarrow> a = b"
  by (cases a; cases b) auto

lemma filter_eq_singleton_distinct:
  "distinct (map f xs) \<Longrightarrow> x \<in> set xs \<Longrightarrow> filter (\<lambda>y. f y = f x) xs = [x]"
  by (induction xs) (auto simp: filter_empty_conv rev_image_eqI)

lemma length_filter_le_split:
  "length (filter P xs) + length (filter (\<lambda>x. \<not> P x) xs) = length xs"
  by (induction xs) auto

text \<open>
  On a list that is sorted with respect to a predicate (once the predicate fails it stays false),
  cutting at the first failure is filtering.
\<close>

definition cut_sorted :: "('a \<Rightarrow> bool) \<Rightarrow> 'a list \<Rightarrow> bool" where
  "cut_sorted P xs \<longleftrightarrow> sorted_wrt (\<lambda>x y. P y \<longrightarrow> P x) xs"

lemma cut_sorted_filter_Nil: "cut_sorted P (x # xs) \<Longrightarrow> \<not> P x \<Longrightarrow> filter P xs = []"
  by (auto simp: cut_sorted_def filter_empty_conv)

lemma takeWhile_cut_sorted: "cut_sorted P xs \<Longrightarrow> takeWhile P xs = filter P xs"
proof (induction xs)
  case (Cons x xs)
  then show ?case using cut_sorted_filter_Nil [of P x xs] by (auto simp: cut_sorted_def)
qed simp

lemma dropWhile_cut_sorted: "cut_sorted P xs \<Longrightarrow> dropWhile P xs = filter (\<lambda>x. \<not> P x) xs"
proof (induction xs)
  case (Cons x xs)
  then show ?case
    using cut_sorted_filter_Nil [of P x xs]
    by (auto simp: cut_sorted_def filter_empty_conv intro!: filter_True [symmetric])
qed simp

lemma take_dropWhile_cut_sorted:
  assumes "cut_sorted P xs" and "cut_sorted Q xs" and "\<And>x. P x \<Longrightarrow> Q x"
  shows "take (length (dropWhile P xs) - length (dropWhile Q xs)) (dropWhile P xs) =
         filter (\<lambda>x. \<not> P x \<and> Q x) xs"
proof -
  let ?ys = "dropWhile P xs"
  have ys: "?ys = filter (\<lambda>x. \<not> P x) xs" using assms(1) by (rule dropWhile_cut_sorted)
  have "cut_sorted Q ?ys"
    using assms(2) by (simp add: cut_sorted_def ys sorted_wrt_filter)
  then have tw: "takeWhile Q ?ys = filter Q ?ys" by (rule takeWhile_cut_sorted)
  have "dropWhile Q xs = dropWhile Q ?ys"
    using \<open>cut_sorted Q ?ys\<close> assms(3)
    by (simp only: dropWhile_cut_sorted [OF assms(2)] dropWhile_cut_sorted) (auto simp: ys intro: filter_cong)
  moreover have "take (length ?ys - length (dropWhile Q ?ys)) ?ys = takeWhile Q ?ys"
    by (metis append_eq_conv_conj diff_add_inverse2 length_append takeWhile_dropWhile_id)
  ultimately show ?thesis by (simp add: tw) (auto simp: ys intro: filter_cong)
qed

lemma filter_conj_length_le:
  "length (filter Q xs) \<le> length (filter P xs)" if "\<And>x. Q x \<Longrightarrow> P x"
  using that by (induction xs) (auto intro: le_SucI)

lemma distinct_map_eq: "distinct (map f xs) \<Longrightarrow> x \<in> set xs \<Longrightarrow> y \<in> set xs \<Longrightarrow> f x = f y \<Longrightarrow> x = y"
  by (simp add: distinct_map inj_on_def)

end
