(* ===== verification/LZ_Buffer.thy ===== *)
theory LZ_Buffer
  imports Prelude
begin

text \<open>
  Memory for the compression library (\<open>third/lzfse/src\<close>): a buffer is the list of its bytes, a
  pointer into it an index.  \<open>load_bytes\<close> and \<open>store_bytes\<close> fail with \<open>Undefined\<close> outside the
  buffer, so every model built from them shows by its result that no access was out of bounds.
  The theory holds the loads and stores of \<open>lzfse_internal.h\<close>, the copy loops of the coders with
  their block width, and what the copies leave in the buffer.
\<close>

section \<open>Loads and stores\<close>

definition load_bytes :: "nat \<Rightarrow> string \<Rightarrow> nat \<Rightarrow> string result" where
  "load_bytes n b i = (if i + n \<le> length b then Inr (take n (drop i b)) else Inl Undefined)"

definition store_bytes :: "string \<Rightarrow> nat \<Rightarrow> string \<Rightarrow> string result" where
  "store_bytes b i bs =
     (if i + length bs \<le> length b then Inr (take i b @ bs @ drop (i + length bs) b) else Inl Undefined)"

definition load1 :: "string \<Rightarrow> nat \<Rightarrow> nat result" where
  "load1 b i = rbind (load_bytes 1 b i) (\<lambda>bs. Inr (of_le_bytes bs))"

definition load2 :: "string \<Rightarrow> nat \<Rightarrow> nat result" where
  "load2 b i = rbind (load_bytes 2 b i) (\<lambda>bs. Inr (of_le_bytes bs))"

definition load4 :: "string \<Rightarrow> nat \<Rightarrow> nat result" where
  "load4 b i = rbind (load_bytes 4 b i) (\<lambda>bs. Inr (of_le_bytes bs))"

definition load8 :: "string \<Rightarrow> nat \<Rightarrow> nat result" where
  "load8 b i = rbind (load_bytes 8 b i) (\<lambda>bs. Inr (of_le_bytes bs))"

definition store1 :: "string \<Rightarrow> nat \<Rightarrow> nat \<Rightarrow> string result" where
  "store1 b i x = store_bytes b i (le_bytes 1 x)"

definition store2 :: "string \<Rightarrow> nat \<Rightarrow> nat \<Rightarrow> string result" where
  "store2 b i x = store_bytes b i (le_bytes 2 x)"

definition store4 :: "string \<Rightarrow> nat \<Rightarrow> nat \<Rightarrow> string result" where
  "store4 b i x = store_bytes b i (le_bytes 4 x)"

definition store8 :: "string \<Rightarrow> nat \<Rightarrow> nat \<Rightarrow> string result" where
  "store8 b i x = store_bytes b i (le_bytes 8 x)"

text \<open>The function \<open>extract\<close> on an unsigned container; its assertions hold for the constant arguments it is called with.\<close>

definition extract_bits :: "nat \<Rightarrow> nat \<Rightarrow> nat \<Rightarrow> nat" where
  "extract_bits container lsb width = (container div 2 ^ lsb) mod 2 ^ width"

section \<open>Copy loops\<close>

text \<open>
  \<open>for (i = 0; i < n; i += w) store(dst + i, load(src + i))\<close> with blocks of \<open>w\<close> bytes, for two
  buffers and, with the source \<open>D\<close> bytes before the destination, within one.
\<close>

function copy_blocks :: "nat \<Rightarrow> string \<Rightarrow> nat \<Rightarrow> string \<Rightarrow> nat \<Rightarrow> nat \<Rightarrow> string result" where
  "copy_blocks w src sp dst dp n =
     (if n = 0 \<or> w = 0 then Inr dst
      else rbind (load_bytes w src sp) (\<lambda>bs.
           rbind (store_bytes dst dp bs) (\<lambda>dst'.
           copy_blocks w src (sp + w) dst' (dp + w) (n - w))))"
  by pat_completeness auto
termination by (relation "measure (\<lambda>(w, src, sp, dst, dp, n). n)") auto

function copy_within :: "nat \<Rightarrow> string \<Rightarrow> nat \<Rightarrow> nat \<Rightarrow> nat \<Rightarrow> string result" where
  "copy_within w dst dp D n =
     (if n = 0 \<or> w = 0 then Inr dst
      else if dp < D then Inl Undefined
      else rbind (load_bytes w dst (dp - D)) (\<lambda>bs.
           rbind (store_bytes dst dp bs) (\<lambda>dst'.
           copy_within w dst' (dp + w) D (n - w))))"
  by pat_completeness auto
termination by (relation "measure (\<lambda>(w, dst, dp, D, n). n)") auto

declare copy_blocks.simps [simp del] copy_within.simps [simp del]

section \<open>Running out of destination\<close>

text \<open>A computation that writes the destination may find it full; it leaves it partially written.\<close>

datatype 'a out = OUT_FULL string | Out 'a

definition obind :: "'a out result \<Rightarrow> ('a \<Rightarrow> 'b out result) \<Rightarrow> 'b out result" where
  "obind m f = rbind m (\<lambda>r. case r of OUT_FULL d \<Rightarrow> Inr (OUT_FULL d) | Out x \<Rightarrow> f x)"

lemma obind_Inr: "obind (Inr r) f = (case r of OUT_FULL d \<Rightarrow> Inr (OUT_FULL d) | Out x \<Rightarrow> f x)"
  by (simp add: obind_def)

section \<open>What loads, stores and copies do\<close>

lemma load_bytes_in [simp]: "i + n \<le> length b \<Longrightarrow> load_bytes n b i = Inr (take n (drop i b))"
  by (simp add: load_bytes_def)

lemma store_bytes_in:
  "i + length bs \<le> length b \<Longrightarrow> store_bytes b i bs = Inr (take i b @ bs @ drop (i + length bs) b)"
  by (simp add: store_bytes_def)

lemma store_bytes_length: "store_bytes b i bs = Inr b' \<Longrightarrow> length b' = length b"
  by (auto simp: store_bytes_def split: if_splits)

lemma store_bytes_take:
  "store_bytes b i bs = Inr b' \<Longrightarrow> take (i + length bs) b' = take i b @ bs"
  by (auto simp: store_bytes_def split: if_splits)

lemma take_store_bytes_le:
  "store_bytes b i bs = Inr b' \<Longrightarrow> j \<le> i \<Longrightarrow> take j b' = take j b"
  by (auto simp: store_bytes_def min_def split: if_splits)

text \<open>\<open>appended b q bs b'\<close>: after writing \<open>bs\<close> at \<open>q\<close> the buffer agrees with the old one before \<open>q\<close>.\<close>

definition appended :: "string \<Rightarrow> nat \<Rightarrow> string \<Rightarrow> string \<Rightarrow> bool" where
  "appended b q bs b' \<longleftrightarrow> length b' = length b \<and> take (q + length bs) b' = take q b @ bs"

lemma appended_Nil [simp]: "appended b q [] b"
  by (simp add: appended_def)

lemma store_bytes_appended:
  "q + length bs \<le> length b \<Longrightarrow> \<exists>b'. store_bytes b q bs = Inr b' \<and> appended b q bs b'"
  by (simp add: store_bytes_def appended_def)

lemma appended_trans:
  assumes "appended b q xs b1" and "appended b1 (q + length xs) ys b2"
  shows "appended b q (xs @ ys) b2"
  using assms by (simp add: appended_def add.assoc)

lemma appended_prefix:
  assumes "appended b q xs b'" and "q \<le> length b" and "n \<le> length xs"
  shows "appended b q (take n xs) b'"
proof -
  have "take (q + n) b' = take (q + n) (take (q + length xs) b')" using assms(3) by simp
  also have "\<dots> = take q b @ take n xs" using assms by (simp add: appended_def min_def)
  finally show ?thesis using assms by (simp add: appended_def)
qed

lemma appended_take: "appended b q bs b' \<Longrightarrow> q \<le> length b \<Longrightarrow> j \<le> q \<Longrightarrow> take j b' = take j b"
proof -
  assume a: "appended b q bs b'" and "q \<le> length b" and "j \<le> q"
  then have "take j b' = take j (take (q + length bs) b')" by simp
  also have "\<dots> = take j (take q b @ bs)" using a by (simp add: appended_def)
  also have "\<dots> = take j b" using \<open>j \<le> q\<close> \<open>q \<le> length b\<close> by simp
  finally show ?thesis .
qed

lemma take_take_drop_append:
  "take w (drop sp s) @ take (n - w) (drop (sp + w) s) = take (max w n) (drop sp s)" if "w + sp \<le> length s"
proof (cases "w \<le> n")
  case True
  then have "take n (drop sp s) = take (w + (n - w)) (drop sp s)" by simp
  also have "\<dots> = take w (drop sp s) @ take (n - w) (drop w (drop sp s))" by (rule take_add)
  finally show ?thesis using True by (simp add: add.commute max_def)
qed (simp add: max_def)

text \<open>A block copy writes at least the wanted bytes and runs over by less than one block.\<close>

lemma copy_blocks_appended:
  assumes "0 < w" and "sp + n + (w - 1) \<le> length src" and "dp + n + (w - 1) \<le> length dst"
  shows "\<exists>dst'. copy_blocks w src sp dst dp n = Inr dst' \<and> appended dst dp (take n (drop sp src)) dst'"
  using assms
proof (induction n arbitrary: sp dst dp rule: less_induct)
  case (less n)
  show ?case
  proof (cases "n = 0")
    case True
    then show ?thesis by (simp add: copy_blocks.simps)
  next
    case False
    let ?bs = "take w (drop sp src)"
    have len: "length ?bs = w" using less.prems False by simp
    have "dp + length ?bs \<le> length dst" using less.prems False by simp
    from store_bytes_appended [OF this] obtain d1
      where d1: "store_bytes dst dp ?bs = Inr d1" "appended dst dp ?bs d1" by blast
    have l1: "length d1 = length dst" using d1(2) by (simp add: appended_def)
    have "\<exists>d2. copy_blocks w src (sp + w) d1 (dp + w) (n - w) = Inr d2 \<and>
               appended d1 (dp + w) (take (n - w) (drop (sp + w) src)) d2"
    proof (cases "n - w = 0")
      case True
      then show ?thesis by (simp add: copy_blocks.simps)
    next
      case n: False
      show ?thesis by (rule less.IH) (use less.prems False n l1 in auto)
    qed
    then obtain d2 where d2: "copy_blocks w src (sp + w) d1 (dp + w) (n - w) = Inr d2"
      "appended d1 (dp + length ?bs) (take (n - w) (drop (sp + w) src)) d2" using len by auto
    from appended_trans [OF d1(2) d2(2)] have "appended dst dp (take (max w n) (drop sp src)) d2"
      using less.prems False by (simp add: take_take_drop_append)
    then have "appended dst dp (take n (take (max w n) (drop sp src))) d2"
      by (rule appended_prefix) (use less.prems False in auto)
    then have "appended dst dp (take n (drop sp src)) d2" by (simp add: min_def max_def split: if_splits)
    moreover have "copy_blocks w src sp dst dp n = Inr d2"
      using less.prems False d1(1) d2(1) by (subst copy_blocks.simps) simp
    ultimately show ?thesis by blast
  qed
qed

lemmas copy_bytes_appended = copy_blocks_appended [of 1, simplified]

section \<open>Bytes at a position\<close>

definition bytes_at :: "string \<Rightarrow> nat \<Rightarrow> string \<Rightarrow> bool" where
  "bytes_at b i bs \<longleftrightarrow> i + length bs \<le> length b \<and> take (length bs) (drop i b) = bs"

lemma bytes_at_iff: "bytes_at b i bs \<longleftrightarrow> (\<exists>xs ys. b = xs @ bs @ ys \<and> length xs = i)"
proof
  assume a: "bytes_at b i bs"
  then have "b = take i b @ bs @ drop (length bs) (drop i b)"
    by (metis append_take_drop_id bytes_at_def)
  moreover have "length (take i b) = i" using a by (simp add: bytes_at_def)
  ultimately show "\<exists>xs ys. b = xs @ bs @ ys \<and> length xs = i" by blast
qed (auto simp: bytes_at_def)

lemma bytes_at_append: "bytes_at b i (xs @ ys) \<longleftrightarrow> bytes_at b i xs \<and> bytes_at b (i + length xs) ys"
proof
  assume "bytes_at b i (xs @ ys)"
  then obtain us vs where "b = us @ (xs @ ys) @ vs" "length us = i" by (auto simp: bytes_at_iff)
  then have "b = us @ xs @ (ys @ vs)" "b = (us @ xs) @ ys @ vs" "length (us @ xs) = i + length xs" by simp_all
  with \<open>length us = i\<close> show "bytes_at b i xs \<and> bytes_at b (i + length xs) ys" unfolding bytes_at_iff by blast
next
  assume "bytes_at b i xs \<and> bytes_at b (i + length xs) ys"
  then show "bytes_at b i (xs @ ys)"
    by (simp add: bytes_at_def take_add) (metis add.commute drop_drop)
qed

lemma bytes_at_load: "bytes_at b i bs \<Longrightarrow> n = length bs \<Longrightarrow> load_bytes n b i = Inr bs"
  by (simp add: bytes_at_def)

lemma bytes_at_load1: "bytes_at b i (char_of c # bs) \<Longrightarrow> c < 256 \<Longrightarrow> load1 b i = Inr c"
  using bytes_at_append [of b i "[char_of c]" bs] bytes_at_load [of b i "[char_of c]" 1]
  by (simp add: load1_def)

lemma bytes_at_load2: "bytes_at b i (le_bytes 2 x @ bs) \<Longrightarrow> x < 65536 \<Longrightarrow> load2 b i = Inr x"
  using bytes_at_load [of b i "le_bytes 2 x" 2] by (simp add: load2_def bytes_at_append)

lemma bytes_at_load4: "bytes_at b i (le_bytes 4 x @ bs) \<Longrightarrow> x < 4294967296 \<Longrightarrow> load4 b i = Inr x"
  using bytes_at_load [of b i "le_bytes 4 x" 4] by (simp add: load4_def bytes_at_append)

lemma bytes_at_Nil [simp]: "bytes_at b i [] \<longleftrightarrow> i \<le> length b"
  by (simp add: bytes_at_def)

section \<open>Matches\<close>

text \<open>\<open>match_at s p M D\<close>: the \<open>M\<close> bytes of \<open>s\<close> at \<open>p\<close> repeat those at distance \<open>D\<close> before them.\<close>

definition match_at :: "string \<Rightarrow> nat \<Rightarrow> nat \<Rightarrow> nat \<Rightarrow> bool" where
  "match_at s p M D \<longleftrightarrow> 0 < D \<and> D \<le> p \<and> p + M \<le> length s \<and> (\<forall>i < M. s ! (p + i) = s ! (p + i - D))"

lemma match_at_0 [simp]: "match_at s p 0 D \<longleftrightarrow> 0 < D \<and> D \<le> p \<and> p \<le> length s"
  by (auto simp: match_at_def)

lemma match_at_add: "match_at s p (M + N) D \<longleftrightarrow> match_at s p M D \<and> match_at s (p + M) N D"
proof
  assume a: "match_at s p (M + N) D"
  then have "s ! (p + M + i) = s ! (p + M + i - D)" if "i < N" for i
    using that by (auto simp: match_at_def add.assoc dest: spec [of _ "M + i"])
  with a show "match_at s p M D \<and> match_at s (p + M) N D" by (auto simp: match_at_def)
next
  assume a: "match_at s p M D \<and> match_at s (p + M) N D"
  have "s ! (p + i) = s ! (p + i - D)" if "i < M + N" for i
  proof (cases "i < M")
    case False
    with a that show ?thesis by (auto simp: match_at_def add.assoc dest!: spec [of _ "i - M"])
  qed (use a in \<open>auto simp: match_at_def\<close>)
  with a show "match_at s p (M + N) D" by (auto simp: match_at_def)
qed

lemma match_at_take:
  assumes "match_at s p M D" and "M \<le> D"
  shows "take M (drop (p - D) s) = take M (drop p s)"
  using assms by (intro nth_equalityI) (auto simp: match_at_def add.commute)

text \<open>
  Copying a match block by block, the block no wider than the distance, reproduces the text: the
  bytes a block reads have all been written.
\<close>

lemma copy_within_text:
  assumes "0 < w" and "w \<le> D" and "match_at s dp n D" and "take dp dst = take dp s"
    and "dp + n + (w - 1) \<le> length dst"
  shows "\<exists>dst'. copy_within w dst dp D n = Inr dst' \<and> length dst' = length dst \<and>
    take (dp + n) dst' = take (dp + n) s"
  using assms
proof (induction n arbitrary: dst dp rule: less_induct)
  case (less n)
  show ?case
  proof (cases "n = 0")
    case True
    then show ?thesis using less.prems by (simp add: copy_within.simps)
  next
    case False
    have D: "D \<le> dp" "dp + n \<le> length s" using less.prems by (auto simp: match_at_def)
    let ?bs = "take w (drop (dp - D) dst)"
    have "?bs = take w (drop (dp - D) (take dp dst))" using less.prems(1,2) D by (simp add: drop_take)
    also have "\<dots> = take w (drop (dp - D) (take dp s))" using less.prems(4) by simp
    also have "\<dots> = take w (drop (dp - D) s)" using less.prems(1,2) D by (simp add: drop_take)
    finally have bs: "?bs = take w (drop (dp - D) s)" .
    have len: "length ?bs = w" using less.prems False by simp
    have "dp + length ?bs \<le> length dst" using less.prems False by simp
    from store_bytes_appended [OF this] obtain d1
      where d1: "store_bytes dst dp ?bs = Inr d1" "appended dst dp ?bs d1" by blast
    have l1: "length d1 = length dst" using d1(2) by (simp add: appended_def)
    let ?m = "min w n"
    have "n = ?m + (n - w)" by simp
    with less.prems(3) have "match_at s dp ?m D" and rest: "match_at s (dp + ?m) (n - w) D"
      by (metis match_at_add)+
    then have "take ?m (drop (dp - D) s) = take ?m (drop dp s)" using less.prems by (intro match_at_take) auto
    then have "take ?m ?bs = take ?m (drop dp s)" by (simp add: bs min_def split: if_splits)
    moreover have "appended dst dp (take ?m ?bs) d1"
      by (rule appended_prefix [OF d1(2)]) (use less.prems len in auto)
    ultimately have t1: "take (dp + ?m) d1 = take (dp + ?m) s"
      using less.prems(4) D by (simp add: appended_def take_add)
    have "\<exists>d2. copy_within w d1 (dp + w) D (n - w) = Inr d2 \<and> length d2 = length d1 \<and>
               take (dp + ?m + (n - w)) d2 = take (dp + ?m + (n - w)) s"
    proof (cases "n - w = 0")
      case True
      then show ?thesis using t1 by (simp add: copy_within.simps)
    next
      case n: False
      then have m: "?m = w" by simp
      show ?thesis using less.IH [of "n - w" "dp + w" d1] less.prems n l1 t1 rest False unfolding m by auto
    qed
    then obtain d2 where d2: "copy_within w d1 (dp + w) D (n - w) = Inr d2" "length d2 = length d1"
      "take (dp + n) d2 = take (dp + n) s" by (auto simp: \<open>n = ?m + (n - w)\<close> [symmetric] add.assoc)
    moreover have "copy_within w dst dp D n = Inr d2"
      using less.prems False d1(1) d2(1) D by (subst copy_within.simps) simp
    ultimately show ?thesis using l1 by auto
  qed
qed

text \<open>In bounds whatever the buffer holds.\<close>

lemma copy_within_safe:
  assumes "D \<le> dp" and "w \<le> D \<or> w = 1" and "dp + n + (w - 1) \<le> length dst"
  shows "\<exists>dst'. copy_within w dst dp D n = Inr dst' \<and> length dst' = length dst"
  using assms
proof (induction n arbitrary: dst dp rule: less_induct)
  case (less n)
  show ?case
  proof (cases "n = 0 \<or> w = 0")
    case True
    then show ?thesis by (subst copy_within.simps) auto
  next
    case False
    let ?bs = "take w (drop (dp - D) dst)"
    have "dp + length ?bs \<le> length dst" using less.prems False by (auto simp: min_def)
    from store_bytes_appended [OF this] obtain d1
      where d1: "store_bytes dst dp ?bs = Inr d1" "length d1 = length dst" by (auto simp: appended_def)
    have "\<exists>d2. copy_within w d1 (dp + w) D (n - w) = Inr d2 \<and> length d2 = length d1"
    proof (cases "n - w = 0")
      case True
      then show ?thesis by (subst copy_within.simps) simp
    next
      case n: False
      show ?thesis by (rule less.IH) (use less.prems False n d1 in auto)
    qed
    moreover have "dp - D + w \<le> length dst" using less.prems False by auto
    ultimately show ?thesis using less.prems False d1 by (subst copy_within.simps) auto
  qed
qed

end
