(* ===== verification/FSE.thy ===== *)
theory FSE
  imports LZ_Buffer
begin

text \<open>
  Finite state entropy coding, \<open>lzfse_fse.h\<close> and \<open>lzfse_fse.c\<close>: the 64 bit output and input streams,
  the encoder and decoder tables built from a normalized frequency table, one encoding and one
  decoding step, and the normalization of occurrence counts.

  Unsigned machine words are natural numbers with the wrap-around written out, the signed fields of
  the tables are cut to their width by \<open>int16\<close>.  The assertions of the source are values
  \<open>Inl Assertion\<close>.
\<close>

unbundle bit_operations_syntax

definition int16 :: "int \<Rightarrow> int" where
  "int16 x = sint (word_of_int x :: 16 word)"

definition uint16 :: "int \<Rightarrow> nat" where
  "uint16 x = nat (x mod 2 ^ 16)"

text \<open>\<open>__builtin_clz\<close> of a positive 32 bit number.\<close>

fun bit_length :: "nat \<Rightarrow> nat" where
  "bit_length n = (if n = 0 then 0 else Suc (bit_length (n div 2)))"

declare bit_length.simps [simp del]

definition builtin_clz :: "nat \<Rightarrow> int" where
  "builtin_clz n = 32 - int (bit_length n)"

definition assert_that :: "bool \<Rightarrow> unit result" where
  "assert_that b = (if b then Inr () else Inl Assertion)"

section \<open>Bit streams\<close>

definition fse_mask_lsb :: "nat \<Rightarrow> nat \<Rightarrow> nat" where
  "fse_mask_lsb x nbits = x mod 2 ^ nbits"

record fse_stream =
  accum :: nat
  accum_nbits :: int

definition fse_out_init :: fse_stream where
  "fse_out_init = \<lparr>accum = 0, accum_nbits = 0\<rparr>"

text \<open>\<open>nbits & -8\<close>: the bits of the full bytes.\<close>

definition full_bytes :: "int \<Rightarrow> int" where
  "full_bytes nbits = nbits div 8 * 8"

definition fse_out_push :: "fse_stream \<Rightarrow> nat \<Rightarrow> nat \<Rightarrow> fse_stream result" where
  "fse_out_push s n b =
     (let acc = (accum s OR (b * 2 ^ nat (accum_nbits s))) mod 2 ^ 64; nb = accum_nbits s + int n in
      rbind (assert_that (0 \<le> nb \<and> nb \<le> 64)) (\<lambda>_.
      rbind (assert_that (nb = 64 \<or> acc div 2 ^ nat nb = 0)) (\<lambda>_.
      Inr \<lparr>accum = acc, accum_nbits = nb\<rparr>)))"

definition fse_out_flush :: "fse_stream \<Rightarrow> string \<Rightarrow> nat \<Rightarrow> (fse_stream \<times> string \<times> nat) result" where
  "fse_out_flush s buf p =
     (let nbits = full_bytes (accum_nbits s) in
      rbind (store8 buf p (accum s)) (\<lambda>buf'.
      let acc = accum s div 2 ^ nat nbits; nb = accum_nbits s - nbits in
      rbind (assert_that (0 \<le> nb \<and> nb \<le> 7)) (\<lambda>_.
      rbind (assert_that (nb = 64 \<or> acc div 2 ^ nat nb = 0)) (\<lambda>_.
      Inr (\<lparr>accum = acc, accum_nbits = nb\<rparr>, buf', p + nat (nbits div 8))))))"

definition fse_out_finish :: "fse_stream \<Rightarrow> string \<Rightarrow> nat \<Rightarrow> (fse_stream \<times> string \<times> nat) result" where
  "fse_out_finish s buf p =
     (let nbits = full_bytes (accum_nbits s + 7) in
      rbind (store8 buf p (accum s)) (\<lambda>buf'.
      let nb = accum_nbits s - nbits in
      rbind (assert_that (-7 \<le> nb \<and> nb \<le> 0)) (\<lambda>_.
      Inr (\<lparr>accum = 0, accum_nbits = nb\<rparr>, buf', p + nat (nbits div 8)))))"

text \<open>
  The input stream is read backwards from the position \<open>p\<close>; \<open>None\<close> is the return value \<open>-1\<close>.
\<close>

definition fse_in_init :: "int \<Rightarrow> string \<Rightarrow> nat \<Rightarrow> nat \<Rightarrow> (fse_stream \<times> nat) option result" where
  "fse_in_init n buf p buf_start =
     rbind (if n \<noteq> 0 then
              if p < buf_start + 8 then Inr None
              else rbind (load_bytes 8 buf (p - 8)) (\<lambda>bs. Inr (Some (of_le_bytes bs, n + 64, p - 8)))
            else if p < buf_start + 7 then Inr None
            else rbind (load_bytes 7 buf (p - 7)) (\<lambda>bs. Inr (Some (of_le_bytes bs, n + 56, p - 7)))) (\<lambda>r.
       Inr (case r of None \<Rightarrow> None
            | Some (acc, nb, p') \<Rightarrow>
                if (nb < 56 \<or> nb \<ge> 64) \<or> acc div 2 ^ nat nb \<noteq> 0 then None
                else Some (\<lparr>accum = acc, accum_nbits = nb\<rparr>, p')))"

definition fse_in_flush :: "fse_stream \<Rightarrow> string \<Rightarrow> nat \<Rightarrow> nat \<Rightarrow> (fse_stream \<times> nat) option result" where
  "fse_in_flush s buf p buf_start =
     (let nbits = full_bytes (63 - accum_nbits s) in
      if int p - nbits div 8 < int buf_start then Inr None
      else let p' = nat (int p - nbits div 8) in
        rbind (load8 buf p') (\<lambda>incoming.
        let acc = ((accum s * 2 ^ nat nbits) mod 2 ^ 64) OR fse_mask_lsb incoming (nat nbits); nb = accum_nbits s + nbits in
        rbind (assert_that (56 \<le> nb \<and> nb < 64)) (\<lambda>_.
        rbind (assert_that (acc div 2 ^ nat nb = 0)) (\<lambda>_.
        Inr (Some (\<lparr>accum = acc, accum_nbits = nb\<rparr>, p'))))))"

definition fse_in_pull :: "fse_stream \<Rightarrow> nat \<Rightarrow> (nat \<times> fse_stream) result" where
  "fse_in_pull s n =
     rbind (assert_that (int n \<le> accum_nbits s)) (\<lambda>_.
     let nb = accum_nbits s - int n in
     Inr (accum s div 2 ^ nat nb, \<lparr>accum = fse_mask_lsb (accum s) (nat nb), accum_nbits = nb\<rparr>))"

section \<open>Tables\<close>

record fse_encoder_entry =
  enc_s0 :: int
  enc_k :: int
  enc_delta0 :: int
  enc_delta1 :: "int option"

record fse_decoder_entry =
  dec_k :: nat
  dec_symbol :: nat
  dec_delta :: int

record fse_value_decoder_entry =
  val_total_bits :: nat
  val_value_bits :: nat
  val_delta :: int
  val_vbase :: int

text \<open>
  A symbol without occurrences has no entry.  A shift by a count outside of 0 to 31 has no value.  For
  a symbol that takes all states \<open>k\<close> is zero and the source computes \<open>nstates >> (k - 1)\<close>: this shift is
  undefined in C, and in the model the field \<open>delta1\<close> of such an entry has no value; to read it is the
  failure \<open>Undefined\<close>.
\<close>

definition shift_right :: "nat \<Rightarrow> int \<Rightarrow> nat option" where
  "shift_right x n = (if 0 \<le> n \<and> n < 32 then Some (x div 2 ^ nat n) else None)"

definition encoder_entry :: "nat \<Rightarrow> nat \<Rightarrow> nat \<Rightarrow> fse_encoder_entry option" where
  "encoder_entry nstates offset f =
     (let k = builtin_clz f - builtin_clz nstates in
      map_option (\<lambda>n.
        \<lparr>enc_s0 = int16 (int (f * 2 ^ nat k) - int nstates), enc_k = int16 k,
         enc_delta0 = int16 (int offset - int f + int n),
         enc_delta1 = map_option (\<lambda>n1. int16 (int offset - int f + int n1)) (shift_right nstates (k - 1))\<rparr>)
        (shift_right nstates k))"

fun encoder_entries :: "nat \<Rightarrow> nat \<Rightarrow> nat list \<Rightarrow> fse_encoder_entry option list" where
  "encoder_entries nstates offset [] = []"
| "encoder_entries nstates offset (f # fs) =
     (if f = 0 then None # encoder_entries nstates offset fs
      else encoder_entry nstates offset f # encoder_entries nstates (offset + f) fs)"

definition fse_init_encoder_table :: "nat \<Rightarrow> nat list \<Rightarrow> fse_encoder_entry option list" where
  "fse_init_encoder_table nstates freq = encoder_entries nstates 0 freq"

definition fse_check_freq :: "nat list \<Rightarrow> nat \<Rightarrow> bool" where
  "fse_check_freq freq nstates \<longleftrightarrow> \<not> sum_list freq > nstates"

text \<open>The number of bits and the state increment of the \<open>j\<close>-th state of a symbol of frequency \<open>f\<close>.\<close>

definition decoder_bits :: "nat \<Rightarrow> nat \<Rightarrow> nat \<Rightarrow> nat \<times> int" where
  "decoder_bits nstates f j =
     (let k = nat (builtin_clz f - builtin_clz nstates); j0 = 2 * nstates div 2 ^ k - f in
      if j < j0 then (k, int16 (int ((f + j) * 2 ^ k) - int nstates))
      else (k - 1, int16 (int ((j - j0) * 2 ^ (k - 1)))))"

fun decoder_entries :: "nat \<Rightarrow> nat \<Rightarrow> nat \<Rightarrow> nat list \<Rightarrow> fse_decoder_entry list option" where
  "decoder_entries nstates sum_of_freq i [] = Some []"
| "decoder_entries nstates sum_of_freq i (f # fs) =
     (if f = 0 then decoder_entries nstates sum_of_freq (Suc i) fs
      else if sum_of_freq + f > nstates then None
      else map_option (append (map (\<lambda>j. case decoder_bits nstates f j of (k, delta) \<Rightarrow>
               \<lparr>dec_k = k, dec_symbol = i mod 256, dec_delta = delta\<rparr>) [0..<f]))
             (decoder_entries nstates (sum_of_freq + f) (Suc i) fs))"

definition fse_init_decoder_table :: "nat \<Rightarrow> nat list \<Rightarrow> fse_decoder_entry list option result" where
  "fse_init_decoder_table nstates freq =
     rbind (assert_that (length freq \<le> 256)) (\<lambda>_.
     rbind (assert_that (fse_check_freq freq nstates)) (\<lambda>_.
     Inr (decoder_entries nstates 0 0 freq)))"

fun value_entries :: "nat \<Rightarrow> (nat \<times> nat \<times> int) list \<Rightarrow> fse_value_decoder_entry list" where
  "value_entries nstates [] = []"
| "value_entries nstates ((f, vbits, vbase) # fs) =
     map (\<lambda>j. case decoder_bits nstates f j of (k, delta) \<Rightarrow>
       \<lparr>val_total_bits = k + vbits, val_value_bits = vbits, val_delta = delta, val_vbase = vbase\<rparr>) [0..<f] @
     value_entries nstates fs"

definition fse_init_value_decoder_table ::
  "nat \<Rightarrow> nat list \<Rightarrow> nat list \<Rightarrow> int list \<Rightarrow> fse_value_decoder_entry list result" where
  "fse_init_value_decoder_table nstates freq symbol_vbits symbol_vbase =
     rbind (assert_that (length freq \<le> 256)) (\<lambda>_.
     rbind (assert_that (fse_check_freq freq nstates)) (\<lambda>_.
     Inr (value_entries nstates (zip freq (zip symbol_vbits symbol_vbase)))))"

section \<open>Coding steps\<close>

definition fse_encode :: "nat \<Rightarrow> fse_encoder_entry option list \<Rightarrow> fse_stream \<Rightarrow> nat \<Rightarrow> (nat \<times> fse_stream) result" where
  "fse_encode s encoder_table out symbol =
     (if symbol < length encoder_table then
        (case encoder_table ! symbol of None \<Rightarrow> Inl Undefined
         | Some e \<Rightarrow>
             let hi = (int s \<ge> enc_s0 e); nbits = nat (if hi then enc_k e else enc_k e - 1); b = fse_mask_lsb s nbits in
             (case (if hi then Some (enc_delta0 e) else enc_delta1 e) of None \<Rightarrow> Inl Undefined
              | Some delta \<Rightarrow>
                  rbind (fse_out_push out nbits b) (\<lambda>out'.
                  Inr ((uint16 delta + s div 2 ^ nbits) mod 2 ^ 16, out'))))
      else Inl Undefined)"

definition fse_decode :: "nat \<Rightarrow> fse_decoder_entry list \<Rightarrow> fse_stream \<Rightarrow> (nat \<times> nat \<times> fse_stream) result" where
  "fse_decode s decoder_table inp =
     (if s < length decoder_table then
        let e = decoder_table ! s in
        rbind (fse_in_pull inp (dec_k e)) (\<lambda>(b, inp').
        Inr (dec_symbol e, (uint16 (dec_delta e) + b mod 2 ^ 16) mod 2 ^ 16, inp'))
      else Inl Undefined)"

definition fse_value_decode :: "nat \<Rightarrow> fse_value_decoder_entry list \<Rightarrow> fse_stream \<Rightarrow> (int \<times> nat \<times> fse_stream) result" where
  "fse_value_decode s value_decoder_table inp =
     (if s < length value_decoder_table then
        let e = value_decoder_table ! s in
        rbind (fse_in_pull inp (val_total_bits e)) (\<lambda>(b, inp').
        let bits = b mod 2 ^ 32 in
        Inr (val_vbase e + int (fse_mask_lsb bits (val_value_bits e)),
             uint16 (val_delta e + int (bits div 2 ^ val_value_bits e)), inp'))
      else Inl Undefined)"

section \<open>Normalization\<close>

text \<open>One pass over the symbols at a given shift; the pass stops when nothing is left to remove.\<close>

fun adjust_pass :: "nat \<Rightarrow> nat \<Rightarrow> nat list \<Rightarrow> nat list \<times> nat" where
  "adjust_pass shift overrun [] = ([], overrun)"
| "adjust_pass shift overrun (f # fs) =
     (if f > 1 then
        let n = min ((f - 1) div 2 ^ shift) overrun; overrun' = overrun - n in
        if overrun' = 0 then ((f - n) # fs, 0)
        else case adjust_pass shift overrun' fs of (fs', r) \<Rightarrow> ((f - n) # fs', r)
      else case adjust_pass shift overrun fs of (fs', r) \<Rightarrow> (f # fs', r))"

text \<open>\<open>for (shift = 3; overrun != 0; shift--)\<close>; a negative shift is undefined.\<close>

fun fse_adjust_freqs :: "nat \<Rightarrow> nat list \<Rightarrow> nat \<Rightarrow> nat list result" where
  "fse_adjust_freqs 0 freq overrun = (if overrun = 0 then Inr freq else Inl Undefined)"
| "fse_adjust_freqs (Suc shift) freq overrun =
     (if overrun = 0 then Inr freq
      else case adjust_pass shift overrun freq of (freq', overrun') \<Rightarrow> fse_adjust_freqs shift freq' overrun')"

definition normalized :: "nat \<Rightarrow> nat \<Rightarrow> nat \<Rightarrow> nat" where
  "normalized shift highprec_step t =
     (let f = ((t * highprec_step) mod 2 ^ 32 div 2 ^ shift + 1) div 2 in if f = 0 \<and> t \<noteq> 0 then 1 else f)"

text \<open>The first symbol with the largest frequency, as the loop remembers it.\<close>

fun max_freq_from :: "nat \<Rightarrow> nat \<Rightarrow> nat \<Rightarrow> nat list \<Rightarrow> nat \<times> nat" where
  "max_freq_from i max_freq s [] = (max_freq, s)"
| "max_freq_from i max_freq s (f # fs) =
     (if f > max_freq then max_freq_from (Suc i) f i fs else max_freq_from (Suc i) max_freq s fs)"

definition fse_normalize_freq :: "nat \<Rightarrow> nat list \<Rightarrow> nat list result" where
  "fse_normalize_freq nstates t =
     (let s_count = sum_list t mod 2 ^ 32;
          highprec_step = (if s_count = 0 then 0 else 2 ^ 31 div s_count);
          shift = nat (builtin_clz nstates - 1);
          freq = map (normalized shift highprec_step) t;
          remaining = int nstates - int (sum_list freq);
          (max_freq, max_freq_sym) = max_freq_from 0 0 0 freq in
      if - remaining < int (max_freq div 4) then
        if max_freq_sym < length freq
        then Inr (freq[max_freq_sym := nat (int (freq ! max_freq_sym) + remaining)])
        else Inl Undefined
      else fse_adjust_freqs 4 freq (nat (- remaining)))"

end
