(* ===== verification/LZFSE_Tables.thy ===== *)
theory LZFSE_Tables
  imports FSE
begin

text \<open>
  The constants of \<open>lzfse_internal.h\<close> and \<open>lzfse_encode_tables.h\<close>: how a literal length, match length
  or distance is split into a symbol with a base value and extra bits.
\<close>

section \<open>Symbols of values\<close>

definition l_extra_bits :: "nat list" where
  "l_extra_bits = [0, 0, 0, 0, 0, 0, 0, 0, 0, 0, 0, 0, 0, 0, 0, 0, 2, 3, 5, 8]"

definition l_base_value :: "int list" where
  "l_base_value = [0, 1, 2, 3, 4, 5, 6, 7, 8, 9, 10, 11, 12, 13, 14, 15, 16, 20, 28, 60]"

definition m_extra_bits :: "nat list" where
  "m_extra_bits = [0, 0, 0, 0, 0, 0, 0, 0, 0, 0, 0, 0, 0, 0, 0, 0, 3, 5, 8, 11]"

definition m_base_value :: "int list" where
  "m_base_value = [0, 1, 2, 3, 4, 5, 6, 7, 8, 9, 10, 11, 12, 13, 14, 15, 16, 24, 56, 312]"

definition d_extra_bits :: "nat list" where
  "d_extra_bits =
     [0,  0,  0,  0,  1,  1,  1,  1,  2,  2,  2,  2,  3,  3,  3,  3,
      4,  4,  4,  4,  5,  5,  5,  5,  6,  6,  6,  6,  7,  7,  7,  7,
      8,  8,  8,  8,  9,  9,  9,  9,  10, 10, 10, 10, 11, 11, 11, 11,
      12, 12, 12, 12, 13, 13, 13, 13, 14, 14, 14, 14, 15, 15, 15, 15]"

definition d_base_value :: "int list" where
  "d_base_value =
     [0,      1,      2,      3,     4,     6,     8,     10,    12,    16,
      20,     24,     28,     36,    44,    52,    60,    76,    92,    108,
      124,    156,    188,    220,   252,   316,   380,   444,   508,   636,
      764,    892,    1020,   1276,  1532,  1788,  2044,  2556,  3068,  3580,
      4092,   5116,   6140,   7164,  8188,  10236, 12284, 14332, 16380, 20476,
      24572,  28668,  32764,  40956, 49148, 57340, 65532, 81916, 98300, 114684,
      131068, 163836, 196604, 229372]"

text \<open>The tables \<open>sym\<close>, with runs of equal entries written as such.\<close>

definition l_sym :: "nat list" where
  "l_sym = [0..<16] @ replicate 4 16 @ replicate 8 17 @ replicate 32 18 @ replicate 256 19"

definition m_sym :: "nat list" where
  "m_sym = [0..<16] @ replicate 8 16 @ replicate 32 17 @ replicate 256 18 @ replicate 2048 19"

definition d_sym :: "nat list" where
  "d_sym =
     [0, 1, 2, 3, 4, 4, 5, 5, 6, 6, 7, 7, 8, 8, 8, 8, 9, 9, 9, 9, 10, 10, 10, 10, 11, 11, 11, 11, 12, 12, 12, 12,
      12, 12, 12, 12, 13, 13, 13, 13, 13, 13, 13, 13, 14, 14, 14, 14, 14, 14, 14, 14, 15, 15, 15, 15, 15, 15, 15, 15, 16, 16, 16, 16,
      16, 17, 18, 19, 20, 20, 21, 21, 22, 22, 23, 23, 24, 24, 24, 24, 25, 25, 25, 25, 26, 26, 26, 26, 27, 27, 27, 27, 28, 28, 28, 28,
      28, 28, 28, 28, 29, 29, 29, 29, 29, 29, 29, 29, 30, 30, 30, 30, 30, 30, 30, 30, 31, 31, 31, 31, 31, 31, 31, 31, 32, 32, 32, 32,
      32, 33, 34, 35, 36, 36, 37, 37, 38, 38, 39, 39, 40, 40, 40, 40, 41, 41, 41, 41, 42, 42, 42, 42, 43, 43, 43, 43, 44, 44, 44, 44,
      44, 44, 44, 44, 45, 45, 45, 45, 45, 45, 45, 45, 46, 46, 46, 46, 46, 46, 46, 46, 47, 47, 47, 47, 47, 47, 47, 47, 48, 48, 48, 48,
      48, 49, 50, 51, 52, 52, 53, 53, 54, 54, 55, 55, 56, 56, 56, 56, 57, 57, 57, 57, 58, 58, 58, 58, 59, 59, 59, 59, 60, 60, 60, 60,
      60, 60, 60, 60, 61, 61, 61, 61, 61, 61, 61, 61, 62, 62, 62, 62, 62, 62, 62, 62, 63, 63, 63, 63, 63, 63, 63, 63, 0, 0, 0, 0]"

definition table_at :: "'a list \<Rightarrow> nat \<Rightarrow> 'a result" where
  "table_at t i = (if i < length t then Inr (t ! i) else Inl Undefined)"

definition l_base_from_value :: "nat \<Rightarrow> nat result" where
  "l_base_from_value v = table_at l_sym v"

definition m_base_from_value :: "nat \<Rightarrow> nat result" where
  "m_base_from_value v = table_at m_sym v"

definition d_base_from_value :: "nat \<Rightarrow> nat result" where
  "d_base_from_value v =
     (let index = (if v < 60 then v
                   else if v < 1020 then (v - 60) div 16 + 64
                   else if v < 16380 then (v - 1020) div 256 + 128
                   else if v < 262140 then (v - 16380) div 4096 + 192
                   else 0) in
      table_at d_sym (index mod 256))"

section \<open>Block headers\<close>

record lzfse_header_v1 =
  h1_magic :: nat
  h1_n_raw_bytes :: nat
  h1_n_payload_bytes :: nat
  h1_n_literals :: nat
  h1_n_matches :: nat
  h1_n_literal_payload_bytes :: nat
  h1_n_lmd_payload_bytes :: nat
  h1_literal_bits :: int
  h1_literal_state :: "nat list"
  h1_lmd_bits :: int
  h1_l_state :: nat
  h1_m_state :: nat
  h1_d_state :: nat
  h1_l_freq :: "nat list"
  h1_m_freq :: "nat list"
  h1_d_freq :: "nat list"
  h1_literal_freq :: "nat list"

definition LZFSE_NO_BLOCK_MAGIC :: nat where "LZFSE_NO_BLOCK_MAGIC = 0"

definition LZFSE_ENDOFSTREAM_BLOCK_MAGIC :: nat where "LZFSE_ENDOFSTREAM_BLOCK_MAGIC = 0x24787662"

definition LZFSE_UNCOMPRESSED_BLOCK_MAGIC :: nat where "LZFSE_UNCOMPRESSED_BLOCK_MAGIC = 0x2d787662"

definition LZFSE_COMPRESSEDV1_BLOCK_MAGIC :: nat where "LZFSE_COMPRESSEDV1_BLOCK_MAGIC = 0x31787662"

definition LZFSE_COMPRESSEDV2_BLOCK_MAGIC :: nat where "LZFSE_COMPRESSEDV2_BLOCK_MAGIC = 0x32787662"

definition LZFSE_COMPRESSEDLZVN_BLOCK_MAGIC :: nat where "LZFSE_COMPRESSEDLZVN_BLOCK_MAGIC = 0x6e787662"

lemmas magic_defs = LZFSE_NO_BLOCK_MAGIC_def LZFSE_ENDOFSTREAM_BLOCK_MAGIC_def LZFSE_UNCOMPRESSED_BLOCK_MAGIC_def
  LZFSE_COMPRESSEDV1_BLOCK_MAGIC_def LZFSE_COMPRESSEDV2_BLOCK_MAGIC_def LZFSE_COMPRESSEDLZVN_BLOCK_MAGIC_def

end
