(* ===== verification/LZVN_Decode.thy ===== *)
theory LZVN_Decode
  imports LZ_Buffer
begin

text \<open>
  The LZVN decoder, \<open>lzvn_decode_base.c\<close>: the jump table of the 256 opcodes, the shared tails
  \<open>copy_literal_and_match\<close>, \<open>copy_match\<close> and \<open>copy_literal\<close> with their wide and careful copies,
  and the dispatch loop.  The local variables \<open>src_ptr\<close>, \<open>src_len\<close>, \<open>dst_ptr\<close>, \<open>dst_len\<close> and \<open>D\<close>
  are arguments; the state object is a record with the two buffers in it.
\<close>

section \<open>State and opcodes\<close>

record lzvn_decoder_state =
  vd_src :: string
  vd_sp :: nat
  vd_src_end :: nat
  vd_dst :: string
  vd_dp :: nat
  vd_dst_begin :: nat
  vd_dst_end :: nat
  vd_L :: nat
  vd_M :: nat
  vd_D :: nat
  vd_d_prev :: nat
  vd_end_of_stream :: bool

datatype lzvn_opcode = Sml_d | Med_d | Lrg_d | Pre_d | Sml_m | Lrg_m | Sml_l | Lrg_l | Nop | Eos | Udef

definition opc_row :: "lzvn_opcode \<Rightarrow> lzvn_opcode list" where
  "opc_row o6 = [Sml_d, Sml_d, Sml_d, Sml_d, Sml_d, Sml_d, o6, Lrg_d]"

definition opc_tbl :: "lzvn_opcode list" where
  "opc_tbl =
     opc_row Eos @ opc_row Nop @ opc_row Nop @ concat (replicate 5 (opc_row Udef)) @
     concat (replicate 6 (opc_row Pre_d)) @ replicate 16 Udef @
     concat (replicate 4 (opc_row Pre_d)) @ replicate 32 Med_d @
     concat (replicate 2 (opc_row Pre_d)) @ replicate 16 Udef @
     Lrg_l # replicate 15 Sml_l @ Lrg_m # replicate 15 Sml_m"

text \<open>A tail either returns from \<open>lzvn_decode\<close> or goes on to the next opcode.\<close>

datatype lzvn_step =
    Return_with lzvn_decoder_state
  | Dispatch lzvn_decoder_state nat nat nat nat nat

definition update_good :: "lzvn_decoder_state \<Rightarrow> nat \<Rightarrow> nat \<Rightarrow> nat \<Rightarrow> lzvn_decoder_state" where
  "update_good st sp dp D = st\<lparr>vd_sp := sp, vd_dp := dp, vd_d_prev := D\<rparr>"

section \<open>The shared tails\<close>

definition copy_match :: "lzvn_decoder_state \<Rightarrow> nat \<Rightarrow> nat \<Rightarrow> nat \<Rightarrow> nat \<Rightarrow> nat \<Rightarrow> nat \<Rightarrow> lzvn_step result" where
  "copy_match st sp sl dp dl M D =
     (if M + 7 \<le> dl \<and> 8 \<le> D then
        rbind (copy_within 8 (vd_dst st) dp D M) (\<lambda>d. Inr (Dispatch (st\<lparr>vd_dst := d\<rparr>) sp sl (dp + M) (dl - M) D))
      else if M \<le> dl then
        rbind (copy_within 1 (vd_dst st) dp D M) (\<lambda>d. Inr (Dispatch (st\<lparr>vd_dst := d\<rparr>) sp sl (dp + M) (dl - M) D))
      else
        rbind (copy_within 1 (vd_dst st) dp D dl) (\<lambda>d.
          Inr (Return_with (st\<lparr>vd_dst := d, vd_sp := sp, vd_dp := dp + dl, vd_L := 0, vd_M := M - dl, vd_D := D\<rparr>))))"

definition literal_done :: "lzvn_decoder_state \<Rightarrow> nat \<Rightarrow> nat \<Rightarrow> nat \<Rightarrow> nat \<Rightarrow> nat \<Rightarrow> nat \<Rightarrow> lzvn_step result" where
  "literal_done st sp sl dp dl M D =
     (if D > dp - vd_dst_begin st \<or> D = 0 then Inr (Return_with st)
      else copy_match st sp sl dp dl M D)"

definition copy_literal_and_match ::
  "lzvn_decoder_state \<Rightarrow> nat \<Rightarrow> nat \<Rightarrow> nat \<Rightarrow> nat \<Rightarrow> nat \<Rightarrow> nat \<Rightarrow> nat \<Rightarrow> nat \<Rightarrow> lzvn_step result" where
  "copy_literal_and_match st sp0 sl0 dp dl L M D opc_len =
     (let sp = sp0 + opc_len; sl = sl0 - opc_len in
      if 4 \<le> dl \<and> 4 \<le> sl then
        rbind (load_bytes 4 (vd_src st) sp) (\<lambda>bs. rbind (store_bytes (vd_dst st) dp bs) (\<lambda>d.
          literal_done (st\<lparr>vd_dst := d\<rparr>) (sp + L) (sl - L) (dp + L) (dl - L) M D))
      else if L \<le> dl then
        rbind (copy_blocks 1 (vd_src st) sp (vd_dst st) dp L) (\<lambda>d.
          literal_done (st\<lparr>vd_dst := d\<rparr>) (sp + L) (sl - L) (dp + L) (dl - L) M D)
      else
        rbind (copy_blocks 1 (vd_src st) sp (vd_dst st) dp dl) (\<lambda>d.
          Inr (Return_with (st\<lparr>vd_dst := d, vd_sp := sp + dl, vd_dp := dp + dl, vd_L := L - dl, vd_M := M, vd_D := D\<rparr>))))"

definition copy_literal :: "lzvn_decoder_state \<Rightarrow> nat \<Rightarrow> nat \<Rightarrow> nat \<Rightarrow> nat \<Rightarrow> nat \<Rightarrow> nat \<Rightarrow> nat \<Rightarrow> lzvn_step result" where
  "copy_literal st sp0 sl0 dp dl L D opc_len =
     (if sl0 \<le> opc_len + L then Inr (Return_with st)
      else let sp = sp0 + opc_len; sl = sl0 - opc_len in
        if L + 7 \<le> dl \<and> L + 7 \<le> sl then
          rbind (copy_blocks 8 (vd_src st) sp (vd_dst st) dp L) (\<lambda>d.
            Inr (Dispatch (st\<lparr>vd_dst := d\<rparr>) (sp + L) (sl - L) (dp + L) (dl - L) D))
        else if L \<le> dl then
          rbind (copy_blocks 1 (vd_src st) sp (vd_dst st) dp L) (\<lambda>d.
            Inr (Dispatch (st\<lparr>vd_dst := d\<rparr>) (sp + L) (sl - L) (dp + L) (dl - L) D))
        else
          rbind (copy_blocks 1 (vd_src st) sp (vd_dst st) dp dl) (\<lambda>d.
            Inr (Return_with (st\<lparr>vd_dst := d, vd_sp := sp + dl, vd_dp := dp + dl, vd_L := L - dl, vd_M := 0, vd_D := D\<rparr>))))"

section \<open>One opcode\<close>

definition lzvn_execute :: "lzvn_decoder_state \<Rightarrow> nat \<Rightarrow> nat \<Rightarrow> nat \<Rightarrow> nat \<Rightarrow> nat \<Rightarrow> nat \<Rightarrow> lzvn_step result" where
  "lzvn_execute st0 sp sl dp dl D opc =
     (let src = vd_src st0; st = update_good st0 sp dp D in
      case opc_tbl ! opc of
        Sml_d \<Rightarrow>
          let L = extract_bits opc 6 2; M = extract_bits opc 3 3 + 3 in
          if sl \<le> 2 + L then Inr (Return_with st)
          else rbind (load1 src (sp + 1)) (\<lambda>b.
            copy_literal_and_match st sp sl dp dl L M (extract_bits opc 0 3 * 256 + b) 2)
      | Med_d \<Rightarrow>
          let L = extract_bits opc 3 2 in
          if sl \<le> 3 + L then Inr (Return_with st)
          else rbind (load2 src (sp + 1)) (\<lambda>opc23.
            copy_literal_and_match st sp sl dp dl L (extract_bits opc 0 3 * 4 + extract_bits opc23 0 2 + 3)
              (extract_bits opc23 2 14) 3)
      | Lrg_d \<Rightarrow>
          let L = extract_bits opc 6 2; M = extract_bits opc 3 3 + 3 in
          if sl \<le> 3 + L then Inr (Return_with st)
          else rbind (load2 src (sp + 1)) (\<lambda>d. copy_literal_and_match st sp sl dp dl L M d 3)
      | Pre_d \<Rightarrow>
          let L = extract_bits opc 6 2; M = extract_bits opc 3 3 + 3 in
          if sl \<le> 1 + L then Inr (Return_with st)
          else copy_literal_and_match st sp sl dp dl L M D 1
      | Sml_m \<Rightarrow>
          if sl \<le> 1 then Inr (Return_with st)
          else copy_match st (sp + 1) (sl - 1) dp dl (extract_bits opc 0 4) D
      | Lrg_m \<Rightarrow>
          if sl \<le> 2 then Inr (Return_with st)
          else rbind (load1 src (sp + 1)) (\<lambda>b. copy_match st (sp + 2) (sl - 2) dp dl (b + 16) D)
      | Sml_l \<Rightarrow> copy_literal st sp sl dp dl (extract_bits opc 0 4) D 1
      | Lrg_l \<Rightarrow>
          if sl \<le> 2 then Inr (Return_with st)
          else rbind (load1 src (sp + 1)) (\<lambda>b. copy_literal st sp sl dp dl (b + 16) D 2)
      | Nop \<Rightarrow>
          if sl \<le> 1 then Inr (Return_with st)
          else Inr (Dispatch st (sp + 1) (sl - 1) dp dl D)
      | Eos \<Rightarrow>
          if sl < 8 then Inr (Return_with st0)
          else Inr (Return_with (update_good (st0\<lparr>vd_end_of_stream := True\<rparr>) (sp + 8) dp D))
      | Udef \<Rightarrow> Inr (Return_with st0))"

text \<open>Every opcode that goes on has consumed a byte of the source.\<close>

lemma copy_match_src_len: "copy_match st sp sl dp dl M D = Inr (Dispatch st' sp' sl' dp' dl' D') \<Longrightarrow> sl' = sl"
  by (auto simp: copy_match_def rbind_eq_Inr_iff split: if_splits)

lemma literal_done_src_len: "literal_done st sp sl dp dl M D = Inr (Dispatch st' sp' sl' dp' dl' D') \<Longrightarrow> sl' = sl"
  by (auto simp: literal_done_def dest: copy_match_src_len split: if_splits)

lemma copy_literal_and_match_src_len:
  "copy_literal_and_match st sp sl dp dl L M D n = Inr (Dispatch st' sp' sl' dp' dl' D') \<Longrightarrow> sl' = sl - n - L"
  by (auto simp: copy_literal_and_match_def Let_def rbind_eq_Inr_iff dest!: literal_done_src_len split: if_splits)

lemma copy_literal_src_len:
  "copy_literal st sp sl dp dl L D n = Inr (Dispatch st' sp' sl' dp' dl' D') \<Longrightarrow> sl' = sl - n - L \<and> n < sl"
  by (auto simp: copy_literal_def Let_def rbind_eq_Inr_iff split: if_splits)

lemma lzvn_execute_src_len:
  "lzvn_execute st sp sl dp dl D opc = Inr (Dispatch st' sp' sl' dp' dl' D') \<Longrightarrow> sl' < sl"
  by (auto simp: lzvn_execute_def Let_def rbind_eq_Inr_iff
      dest!: copy_literal_and_match_src_len copy_literal_src_len copy_match_src_len
      split: lzvn_opcode.splits if_splits)

section \<open>The dispatch loop\<close>

function lzvn_dispatch :: "lzvn_decoder_state \<Rightarrow> nat \<Rightarrow> nat \<Rightarrow> nat \<Rightarrow> nat \<Rightarrow> nat \<Rightarrow> lzvn_decoder_state result" where
  "lzvn_dispatch st sp sl dp dl D =
     rbind (load1 (vd_src st) sp) (\<lambda>opc.
     rbind (lzvn_execute st sp sl dp dl D opc) (\<lambda>r.
       case r of Return_with st' \<Rightarrow> Inr st'
       | Dispatch st' sp' sl' dp' dl' D' \<Rightarrow> lzvn_dispatch st' sp' sl' dp' dl' D'))"
  by pat_completeness auto
termination
  by (relation "measure (\<lambda>(st, sp, sl, dp, dl, D). sl)") (auto dest: lzvn_execute_src_len)

declare lzvn_dispatch.simps [simp del]

definition lzvn_continue :: "lzvn_step \<Rightarrow> lzvn_decoder_state result" where
  "lzvn_continue r = (case r of Return_with st \<Rightarrow> Inr st
     | Dispatch st sp sl dp dl D \<Rightarrow> lzvn_dispatch st sp sl dp dl D)"

definition lzvn_decode :: "lzvn_decoder_state \<Rightarrow> lzvn_decoder_state result" where
  "lzvn_decode st =
     (let sl = vd_src_end st - vd_sp st; dl = vd_dst_end st - vd_dp st in
      if sl = 0 \<or> dl = 0 then Inr st
      else if vd_L st \<noteq> 0 \<or> vd_M st \<noteq> 0 then
        let L = vd_L st; M = vd_M st; D = vd_D st; st' = st\<lparr>vd_L := 0, vd_M := 0, vd_D := 0\<rparr> in
        rbind (if M = 0 then copy_literal st' (vd_sp st) sl (vd_dp st) dl L D 0
               else if L = 0 then copy_match st' (vd_sp st) sl (vd_dp st) dl M D
               else copy_literal_and_match st' (vd_sp st) sl (vd_dp st) dl L M D 0) lzvn_continue
      else lzvn_dispatch st (vd_sp st) sl (vd_dp st) dl (vd_d_prev st))"

section \<open>Decoding reproduces the text\<close>

text \<open>
  \<open>s\<close> is the whole text that the destination is to hold.  \<open>same_io\<close> keeps what the opcodes do not
  touch.  \<open>arrives\<close> says what a computation that is to bring the destination from where it is to
  \<open>dp'\<close> amounts to: it goes on with the next opcode there, or the destination ends before \<open>dp'\<close> and
  the decoder stops with the destination filled and source left over.
\<close>

definition same_io :: "lzvn_decoder_state \<Rightarrow> lzvn_decoder_state \<Rightarrow> bool" where
  "same_io st st' \<longleftrightarrow> vd_src st' = vd_src st \<and> length (vd_dst st') = length (vd_dst st) \<and>
     vd_dst_begin st' = vd_dst_begin st \<and> vd_src_end st' = vd_src_end st \<and> vd_dst_end st' = vd_dst_end st \<and>
     vd_end_of_stream st' = vd_end_of_stream st"

definition arrives :: "string \<Rightarrow> lzvn_decoder_state \<Rightarrow> nat \<Rightarrow> lzvn_decoder_state result \<Rightarrow> nat \<Rightarrow> nat \<Rightarrow> nat \<Rightarrow> nat \<Rightarrow> bool" where
  "arrives s st stop X sp' sl' dp' D' \<longleftrightarrow>
     (if dp' \<le> stop
      then \<exists>st'. same_io st st' \<and> take dp' (vd_dst st') = take dp' s \<and> X = lzvn_dispatch st' sp' sl' dp' (stop - dp') D'
      else \<exists>st'. X = Inr st' \<and> same_io st st' \<and> vd_dp st' = stop \<and> take stop (vd_dst st') = take stop s \<and>
             vd_sp st' < sp' + sl')"

lemma same_io_refl [simp]: "same_io st st"
  by (simp add: same_io_def)

lemma same_io_trans: "same_io a b \<Longrightarrow> same_io b c \<Longrightarrow> same_io a c"
  by (simp add: same_io_def)

lemma same_io_updates [simp]:
  "same_io st (st'\<lparr>vd_sp := a\<rparr>) = same_io st st'"
  "same_io st (st'\<lparr>vd_dp := a\<rparr>) = same_io st st'"
  "same_io st (st'\<lparr>vd_L := a\<rparr>) = same_io st st'"
  "same_io st (st'\<lparr>vd_M := a\<rparr>) = same_io st st'"
  "same_io st (st'\<lparr>vd_D := a\<rparr>) = same_io st st'"
  "same_io st (update_good st' a b c) = same_io st st'"
  "length d = length (vd_dst st') \<Longrightarrow> same_io st (st'\<lparr>vd_dst := d\<rparr>) = same_io st st'"
  by (simp_all add: same_io_def update_good_def)

lemma update_good_simps [simp]:
  "vd_src (update_good st a b c) = vd_src st"
  "vd_dst (update_good st a b c) = vd_dst st"
  "vd_dst_begin (update_good st a b c) = vd_dst_begin st"
  by (simp_all add: update_good_def)

lemma arrives_from: "arrives s st1 stop X sp' sl' dp' D' \<Longrightarrow> same_io st st1 \<Longrightarrow> arrives s st stop X sp' sl' dp' D'"
  by (auto simp: arrives_def intro: same_io_trans split: if_splits)

lemma match_at_le: "match_at s p M D \<Longrightarrow> N \<le> M \<Longrightarrow> match_at s p N D"
  by (simp add: match_at_def)

lemma copy_match_arrives:
  assumes "match_at s dp M D" and "take dp (vd_dst st) = take dp s" and "dp + dl \<le> length (vd_dst st)" and "0 < sl"
  shows "arrives s st (dp + dl) (rbind (copy_match st sp sl dp dl M D) lzvn_continue) sp sl (dp + M) D"
proof -
  have D: "0 < D" using assms(1) by (simp add: match_at_def)
  consider (wide) "M + 7 \<le> dl" "8 \<le> D" | (careful) "M \<le> dl" "\<not> (M + 7 \<le> dl \<and> 8 \<le> D)" | (short) "dl < M"
    by fastforce
  then show ?thesis
  proof cases
    case wide
    have "\<exists>d. copy_within 8 (vd_dst st) dp D M = Inr d \<and> length d = length (vd_dst st) \<and> take (dp + M) d = take (dp + M) s"
      by (rule copy_within_text) (use assms wide in auto)
    with wide show ?thesis by (force simp: copy_match_def arrives_def lzvn_continue_def)
  next
    case careful
    have "\<exists>d. copy_within 1 (vd_dst st) dp D M = Inr d \<and> length d = length (vd_dst st) \<and> take (dp + M) d = take (dp + M) s"
      by (rule copy_within_text) (use assms careful D in auto)
    with careful show ?thesis by (force simp: copy_match_def arrives_def lzvn_continue_def)
  next
    case short
    have "\<exists>d. copy_within 1 (vd_dst st) dp D dl = Inr d \<and> length d = length (vd_dst st) \<and> take (dp + dl) d = take (dp + dl) s"
      by (rule copy_within_text) (use assms short D in \<open>auto intro: match_at_le\<close>)
    with short assms(4) show ?thesis by (force simp: copy_match_def arrives_def lzvn_continue_def)
  qed
qed

text \<open>The literal bytes at \<open>sp\<close> of the source are those of the text at \<open>dp\<close>.\<close>

lemma appended_literal:
  assumes "appended dst dp (take n (drop sp src)) d" and "take n (drop sp src) = take n (drop dp s)"
    and "take dp dst = take dp s" and "dp + n \<le> length s" and "dp \<le> length dst"
  shows "take (dp + n) d = take (dp + n) s" and "length d = length dst"
proof -
  from assms(1) have "appended dst dp (take n (drop dp s)) d" by (simp only: assms(2))
  moreover have "length (take n (drop dp s)) = n" using assms(4) by simp
  ultimately show "take (dp + n) d = take (dp + n) s" and "length d = length dst"
    using assms(3) by (simp_all only: appended_def take_add)
qed

lemma take_prefix_eq: "take n xs = take n ys \<Longrightarrow> m \<le> n \<Longrightarrow> take m xs = take m ys"
  by (metis min.absorb1 take_take)

lemma copy_literal_and_match_arrives:
  assumes content: "match_at s (dp + L) M D" "take dp (vd_dst st) = take dp s"
    and bounds: "dp + dl \<le> length (vd_dst st)" "sp + sl \<le> length (vd_src st)" "n + L < sl" "L < 4"
    and lits: "take L (drop (sp + n) (vd_src st)) = take L (drop dp s)" and start: "vd_dst_begin st = 0"
  shows "arrives s st (dp + dl) (rbind (copy_literal_and_match st sp sl dp dl L M D n) lzvn_continue)
    (sp + n + L) (sl - n - L) (dp + L + M) D"
proof -
  have s: "dp + L \<le> length s" "0 < D" "D \<le> dp + L" using content(1) by (auto simp: match_at_def)
  have go: "arrives s st (dp + dl)
      (rbind (literal_done (st\<lparr>vd_dst := d\<rparr>) (sp + n + L) (sl - n - L) (dp + L) (dl - L) M D) lzvn_continue)
      (sp + n + L) (sl - n - L) (dp + L + M) D"
    if "appended (vd_dst st) dp (take L (drop (sp + n) (vd_src st))) d" "L \<le> dl" for d
  proof -
    have d: "take (dp + L) d = take (dp + L) s" "length d = length (vd_dst st)"
      using appended_literal [OF that(1) lits content(2) s(1)] bounds by auto
    have "arrives s (st\<lparr>vd_dst := d\<rparr>) (dp + L + (dl - L))
        (rbind (copy_match (st\<lparr>vd_dst := d\<rparr>) (sp + n + L) (sl - n - L) (dp + L) (dl - L) M D) lzvn_continue)
        (sp + n + L) (sl - n - L) (dp + L + M) D"
      by (rule copy_match_arrives) (use content d bounds that in auto)
    then show ?thesis using that s d start by (auto simp: literal_done_def intro: arrives_from)
  qed
  consider (wide) "4 \<le> dl" "4 \<le> sl - n" | (careful) "L \<le> dl" "\<not> (4 \<le> dl \<and> 4 \<le> sl - n)" | (short) "dl < L" "\<not> (4 \<le> dl \<and> 4 \<le> sl - n)"
    by fastforce
  then show ?thesis
  proof cases
    case wide
    let ?bs = "take 4 (drop (sp + n) (vd_src st))"
    obtain d where d: "store_bytes (vd_dst st) dp ?bs = Inr d" "appended (vd_dst st) dp ?bs d"
      using store_bytes_appended [of dp ?bs "vd_dst st"] wide bounds by auto
    have "appended (vd_dst st) dp (take L ?bs) d"
      by (rule appended_prefix [OF d(2)]) (use wide bounds in auto)
    then show ?thesis using go [of d] wide bounds d(1) by (simp add: copy_literal_and_match_def Let_def min_def)
  next
    case careful
    obtain d where "copy_blocks 1 (vd_src st) (sp + n) (vd_dst st) dp L = Inr d"
      "appended (vd_dst st) dp (take L (drop (sp + n) (vd_src st))) d"
      using copy_bytes_appended [of "sp + n" L "vd_src st" dp "vd_dst st"] careful bounds by auto
    then show ?thesis using go [of d] careful by (auto simp: copy_literal_and_match_def Let_def)
  next
    case short
    obtain d where d: "copy_blocks 1 (vd_src st) (sp + n) (vd_dst st) dp dl = Inr d"
      "appended (vd_dst st) dp (take dl (drop (sp + n) (vd_src st))) d"
      using copy_bytes_appended [of "sp + n" dl "vd_src st" dp "vd_dst st"] short bounds by auto
    have "take (dp + dl) d = take (dp + dl) s" "length d = length (vd_dst st)"
      using appended_literal [OF d(2) take_prefix_eq [OF lits] content(2)] short s bounds by auto
    with d(1) short bounds show ?thesis
      by (auto simp: copy_literal_and_match_def Let_def arrives_def lzvn_continue_def)
  qed
qed

lemma copy_literal_arrives:
  assumes content: "dp + L \<le> length s" "take dp (vd_dst st) = take dp s"
    and bounds: "dp + dl \<le> length (vd_dst st)" "sp + sl \<le> length (vd_src st)" "n + L < sl"
    and lits: "take L (drop (sp + n) (vd_src st)) = take L (drop dp s)"
  shows "arrives s st (dp + dl) (rbind (copy_literal st sp sl dp dl L D n) lzvn_continue)
    (sp + n + L) (sl - n - L) (dp + L) D"
proof -
  have go: "arrives s st (dp + dl)
      (lzvn_dispatch (st\<lparr>vd_dst := d\<rparr>) (sp + n + L) (sl - n - L) (dp + L) (dl - L) D)
      (sp + n + L) (sl - n - L) (dp + L) D"
    if "appended (vd_dst st) dp (take L (drop (sp + n) (vd_src st))) d" "L \<le> dl" for d
    using appended_literal [OF that(1) lits content(2) content(1)] bounds that(2)
    by (auto simp: arrives_def intro!: exI [of _ "st\<lparr>vd_dst := d\<rparr>"])
  consider (wide) "L + 7 \<le> dl" "L + 7 \<le> sl - n" | (careful) "L \<le> dl" "\<not> (L + 7 \<le> dl \<and> L + 7 \<le> sl - n)" | (short) "dl < L"
    by fastforce
  then show ?thesis
  proof cases
    case wide
    from wide(2) bounds(2) have "sp + n + L + 7 \<le> length (vd_src st)" by arith
    then obtain d where "copy_blocks 8 (vd_src st) (sp + n) (vd_dst st) dp L = Inr d"
      "appended (vd_dst st) dp (take L (drop (sp + n) (vd_src st))) d"
      using copy_blocks_appended [of 8 "sp + n" L "vd_src st" dp "vd_dst st"] wide bounds by auto
    then show ?thesis using go [of d] wide bounds by (simp add: copy_literal_def Let_def lzvn_continue_def)
  next
    case careful
    obtain d where "copy_blocks 1 (vd_src st) (sp + n) (vd_dst st) dp L = Inr d"
      "appended (vd_dst st) dp (take L (drop (sp + n) (vd_src st))) d"
      using copy_bytes_appended [of "sp + n" L "vd_src st" dp "vd_dst st"] careful bounds by auto
    then show ?thesis using go [of d] careful bounds by (auto simp: copy_literal_def Let_def lzvn_continue_def)
  next
    case short
    obtain d where d: "copy_blocks 1 (vd_src st) (sp + n) (vd_dst st) dp dl = Inr d"
      "appended (vd_dst st) dp (take dl (drop (sp + n) (vd_src st))) d"
      using copy_bytes_appended [of "sp + n" dl "vd_src st" dp "vd_dst st"] short bounds by auto
    have "take (dp + dl) d = take (dp + dl) s" "length d = length (vd_dst st)"
      using appended_literal [OF d(2) take_prefix_eq [OF lits] content(2)] short content bounds by auto
    with d(1) short bounds show ?thesis
      by (auto simp: copy_literal_def Let_def arrives_def lzvn_continue_def)
  qed
qed

section \<open>Byte sequences that carry the text forward\<close>

text \<open>
  \<open>decodes s dp D bytes dp' D'\<close>: wherever the bytes stand in the source, with a byte behind them,
  dispatching at them with \<open>dp\<close> bytes of the text written and \<open>D\<close> as the last distance carries the
  destination to \<open>dp'\<close> and the distance to \<open>D'\<close>.
\<close>

definition decodes :: "string \<Rightarrow> nat \<Rightarrow> nat \<Rightarrow> string \<Rightarrow> nat \<Rightarrow> nat \<Rightarrow> bool" where
  "decodes s dp D bytes dp' D' \<longleftrightarrow> dp \<le> dp' \<and> dp' \<le> length s \<and>
     (\<forall>st sp sl dl. vd_dst_begin st = 0 \<longrightarrow> take dp (vd_dst st) = take dp s \<longrightarrow> dp + dl \<le> length (vd_dst st) \<longrightarrow>
        sp + sl \<le> length (vd_src st) \<longrightarrow> length bytes < sl \<longrightarrow> bytes_at (vd_src st) sp bytes \<longrightarrow>
        arrives s st (dp + dl) (lzvn_dispatch st sp sl dp dl D) (sp + length bytes) (sl - length bytes) dp' D')"

lemma decodes_bounds: "decodes s dp D bytes dp' D' \<Longrightarrow> dp \<le> dp' \<and> dp' \<le> length s"
  by (simp add: decodes_def)

lemma decodesD:
  "decodes s dp D bytes dp' D' \<Longrightarrow> vd_dst_begin st = 0 \<Longrightarrow> take dp (vd_dst st) = take dp s \<Longrightarrow>
   dp + dl \<le> length (vd_dst st) \<Longrightarrow> sp + sl \<le> length (vd_src st) \<Longrightarrow> length bytes < sl \<Longrightarrow>
   bytes_at (vd_src st) sp bytes \<Longrightarrow>
   arrives s st (dp + dl) (lzvn_dispatch st sp sl dp dl D) (sp + length bytes) (sl - length bytes) dp' D'"
  by (simp add: decodes_def)

lemma decodes_Nil: "dp \<le> length s \<Longrightarrow> decodes s dp D [] dp D"
  by (auto simp: decodes_def arrives_def intro: exI same_io_refl)

lemma decodes_append:
  assumes xs: "decodes s dp D xs dp1 D1" and ys: "decodes s dp1 D1 ys dp2 D2"
  shows "decodes s dp D (xs @ ys) dp2 D2"
  unfolding decodes_def
proof (intro conjI allI impI)
  show "dp \<le> dp2" "dp2 \<le> length s" using decodes_bounds [OF xs] decodes_bounds [OF ys] by auto
  fix st :: lzvn_decoder_state and sp sl dl
  assume st: "vd_dst_begin st = 0" "take dp (vd_dst st) = take dp s" "dp + dl \<le> length (vd_dst st)"
    "sp + sl \<le> length (vd_src st)" "length (xs @ ys) < sl" "bytes_at (vd_src st) sp (xs @ ys)"
  have src: "bytes_at (vd_src st) sp xs" "bytes_at (vd_src st) (sp + length xs) ys"
    using st(6) by (auto simp: bytes_at_append)
  have one: "arrives s st (dp + dl) (lzvn_dispatch st sp sl dp dl D) (sp + length xs) (sl - length xs) dp1 D1"
    using xs st src(1) by (simp add: decodes_def)
  show "arrives s st (dp + dl) (lzvn_dispatch st sp sl dp dl D) (sp + length (xs @ ys)) (sl - length (xs @ ys)) dp2 D2"
  proof (cases "dp1 \<le> dp + dl")
    case True
    with one obtain st1 where st1: "same_io st st1" "take dp1 (vd_dst st1) = take dp1 s"
      "lzvn_dispatch st sp sl dp dl D = lzvn_dispatch st1 (sp + length xs) (sl - length xs) dp1 (dp + dl - dp1) D1"
      by (auto simp: arrives_def)
    have "arrives s st1 (dp1 + (dp + dl - dp1)) (lzvn_dispatch st1 (sp + length xs) (sl - length xs) dp1 (dp + dl - dp1) D1)
       (sp + length xs + length ys) (sl - length xs - length ys) dp2 D2"
      by (rule decodesD [OF ys]) (use st st1 src(2) True in \<open>auto simp: same_io_def\<close>)
    with True st1 show ?thesis by (auto simp: add.assoc intro: arrives_from)
  next
    case False
    with one st(5) decodes_bounds [OF ys] show ?thesis by (fastforce simp: arrives_def)
  qed
qed

text \<open>The first byte selects the opcode.\<close>

lemma dispatch_execute:
  "load1 (vd_src st) sp = Inr opc \<Longrightarrow>
   lzvn_dispatch st sp sl dp dl D = rbind (lzvn_execute st sp sl dp dl D opc) lzvn_continue"
proof -
  assume "load1 (vd_src st) sp = Inr opc"
  then show ?thesis
    by (subst lzvn_dispatch.simps) (simp add: lzvn_continue_def [abs_def])
qed


text \<open>The opcodes that carry a literal length and a match length in their first byte.\<close>

definition opc_fields_ok :: "nat \<Rightarrow> lzvn_opcode \<Rightarrow> nat \<Rightarrow> nat \<Rightarrow> nat \<Rightarrow> bool" where
  "opc_fields_ok opc k L x d \<longleftrightarrow> opc < 256 \<and> opc_tbl ! opc = k \<and> extract_bits opc 6 2 = L \<and>
     extract_bits opc 3 3 = x \<and> extract_bits opc 0 3 = d"

lemma opc_fields_table:
  "list_all (\<lambda>L. list_all (\<lambda>x. x + 2 * L \<le> 7 \<longrightarrow>
     list_all (\<lambda>d. opc_fields_ok (d + L * 64 + x * 8) Sml_d L x d) [0..<6] \<and>
     (0 < L \<longrightarrow> opc_fields_ok (L * 64 + x * 8 + 6) Pre_d L x 6) \<and>
     opc_fields_ok (L * 64 + x * 8 + 7) Lrg_d L x 7) [0..<8]) [0..<4]"
  unfolding opc_fields_ok_def extract_bits_def opc_tbl_def opc_row_def by code_simp

lemma opc_fields:
  assumes "L < 4" and "x + 2 * L \<le> 7"
  shows "d < 6 \<Longrightarrow> opc_fields_ok (d + L * 64 + x * 8) Sml_d L x d"
    and "0 < L \<Longrightarrow> opc_fields_ok (L * 64 + x * 8 + 6) Pre_d L x 6"
    and "opc_fields_ok (L * 64 + x * 8 + 7) Lrg_d L x 7"
  using opc_fields_table assms by (auto simp: list_all_iff)

lemma opc_tables_small:
  "list_all (\<lambda>L. list_all (\<lambda>y. opc_tbl ! (160 + y + L * 8) = Med_d \<and> extract_bits (160 + y + L * 8) 3 2 = L \<and>
      extract_bits (160 + y + L * 8) 0 3 = y) [0..<8]) [0..<4]"
  "list_all (\<lambda>n. opc_tbl ! (240 + n) = Sml_m \<and> extract_bits (240 + n) 0 4 = n \<and>
      opc_tbl ! (224 + n) = Sml_l \<and> extract_bits (224 + n) 0 4 = n) [1..<16]"
  "opc_tbl ! 240 = Lrg_m" "opc_tbl ! 224 = Lrg_l" "opc_tbl ! 6 = Eos"
  unfolding extract_bits_def opc_tbl_def opc_row_def by code_simp+

lemma opc_med: "L < 4 \<Longrightarrow> y < 8 \<Longrightarrow> opc_tbl ! (160 + y + L * 8) = Med_d \<and> extract_bits (160 + y + L * 8) 3 2 = L \<and>
    extract_bits (160 + y + L * 8) 0 3 = y"
  using opc_tables_small(1) by (auto simp: list_all_iff)

lemma opc_sml: "0 < n \<Longrightarrow> n < 16 \<Longrightarrow> opc_tbl ! (240 + n) = Sml_m \<and> extract_bits (240 + n) 0 4 = n \<and>
    opc_tbl ! (224 + n) = Sml_l \<and> extract_bits (224 + n) 0 4 = n"
  using opc_tables_small(2) by (auto simp: list_all_iff)

text \<open>
  An opcode followed by literals: \<open>exec\<close> is what its first bytes are decoded to.
\<close>

lemma decodes_literal_and_match:
  assumes mat: "match_at s (dp + L) M D" and "L < 4"
    and exec: "\<And>st sp sl dl. bytes_at (vd_src st) sp (ops @ take L (drop dp s)) \<Longrightarrow> sp + sl \<le> length (vd_src st) \<Longrightarrow>
       length ops + L < sl \<Longrightarrow> lzvn_dispatch st sp sl dp dl D0 =
         rbind (copy_literal_and_match (update_good st sp dp D0) sp sl dp dl L M D (length ops)) lzvn_continue"
  shows "decodes s dp D0 (ops @ take L (drop dp s)) (dp + L + M) D"
  unfolding decodes_def
proof (intro conjI allI impI)
  have len: "length (take L (drop dp s)) = L" using mat by (auto simp: match_at_def)
  show "dp \<le> dp + L + M" "dp + L + M \<le> length s" using mat by (auto simp: match_at_def)
  fix st :: lzvn_decoder_state and sp sl dl
  assume st: "vd_dst_begin st = 0" "take dp (vd_dst st) = take dp s" "dp + dl \<le> length (vd_dst st)"
    "sp + sl \<le> length (vd_src st)" "length (ops @ take L (drop dp s)) < sl" "bytes_at (vd_src st) sp (ops @ take L (drop dp s))"
  let ?st = "update_good st sp dp D0"
  have "bytes_at (vd_src st) (sp + length ops) (take L (drop dp s))" using st(6) by (simp add: bytes_at_append)
  then have lits: "take L (drop (sp + length ops) (vd_src ?st)) = take L (drop dp s)" using len by (simp add: bytes_at_def)
  have "arrives s ?st (dp + dl) (rbind (copy_literal_and_match ?st sp sl dp dl L M D (length ops)) lzvn_continue)
      (sp + length ops + L) (sl - length ops - L) (dp + L + M) D"
    by (rule copy_literal_and_match_arrives [OF mat _ _ _ _ assms(2) lits]) (use st len in auto)
  moreover have "length ops + L < sl" using st(5) len by simp
  ultimately show "arrives s st (dp + dl) (lzvn_dispatch st sp sl dp dl D0) (sp + length (ops @ take L (drop dp s)))
      (sl - length (ops @ take L (drop dp s))) (dp + L + M) D"
    using exec [OF st(6) st(4)] len by (auto simp: add.assoc intro: arrives_from)
qed

lemma decodes_sml_d:
  assumes "L < 4" and "x + 2 * L \<le> 7" and "D < 1536" and "match_at s (dp + L) (x + 3) D"
  shows "decodes s dp D0 ([char_of (D div 256 + L * 64 + x * 8), char_of (D mod 256)] @ take L (drop dp s)) (dp + L + (x + 3)) D"
proof (rule decodes_literal_and_match [OF assms(4,1)])
  fix st :: lzvn_decoder_state and sp sl dl
  let ?opc = "D div 256 + L * 64 + x * 8"
  assume at: "bytes_at (vd_src st) sp ([char_of ?opc, char_of (D mod 256)] @ take L (drop dp s))"
    and "length [char_of ?opc, char_of (D mod 256)] + L < sl"
  have "D div 256 < 6" using assms(3) by simp
  note f = opc_fields(1) [OF assms(1,2) this]
  have "load1 (vd_src st) sp = Inr ?opc" "load1 (vd_src st) (sp + 1) = Inr (D mod 256)"
    using at f bytes_at_append [of "vd_src st" sp "[char_of ?opc]" "char_of (D mod 256) # take L (drop dp s)"]
    by (auto simp: opc_fields_ok_def intro: bytes_at_load1)
  with f \<open>_ < sl\<close> show "lzvn_dispatch st sp sl dp dl D0 = rbind (copy_literal_and_match (update_good st sp dp D0) sp sl dp dl L (x + 3) D
        (length [char_of ?opc, char_of (D mod 256)])) lzvn_continue"
    by (simp add: dispatch_execute lzvn_execute_def opc_fields_ok_def Let_def numeral_2_eq_2 numeral_3_eq_3)
qed

lemma decodes_pre_d:
  assumes "L < 4" and "0 < L" and "x + 2 * L \<le> 7" and "match_at s (dp + L) (x + 3) D"
  shows "decodes s dp D ([char_of (L * 64 + x * 8 + 6)] @ take L (drop dp s)) (dp + L + (x + 3)) D"
proof (rule decodes_literal_and_match [OF assms(4,1)])
  fix st :: lzvn_decoder_state and sp sl dl
  let ?opc = "L * 64 + x * 8 + 6"
  assume at: "bytes_at (vd_src st) sp ([char_of ?opc] @ take L (drop dp s))" and "length [char_of ?opc] + L < sl"
  note f = opc_fields(2) [OF assms(1,3,2)]
  have "load1 (vd_src st) sp = Inr ?opc" using at f by (auto simp: opc_fields_ok_def intro: bytes_at_load1)
  with f \<open>_ < sl\<close> show "lzvn_dispatch st sp sl dp dl D = rbind (copy_literal_and_match (update_good st sp dp D) sp sl dp dl L (x + 3) D
        (length [char_of ?opc])) lzvn_continue"
    by (simp add: dispatch_execute lzvn_execute_def opc_fields_ok_def Let_def numeral_2_eq_2 numeral_3_eq_3)
qed

lemma decodes_lrg_d:
  assumes "L < 4" and "x + 2 * L \<le> 7" and "D < 65536" and "match_at s (dp + L) (x + 3) D"
  shows "decodes s dp D0 ((char_of (L * 64 + x * 8 + 7) # le_bytes 2 D) @ take L (drop dp s)) (dp + L + (x + 3)) D"
proof (rule decodes_literal_and_match [OF assms(4,1)])
  fix st :: lzvn_decoder_state and sp sl dl
  let ?opc = "L * 64 + x * 8 + 7"
  assume at: "bytes_at (vd_src st) sp ((char_of ?opc # le_bytes 2 D) @ take L (drop dp s))"
    and "length (char_of ?opc # le_bytes 2 D) + L < sl"
  note f = opc_fields(3) [OF assms(1,2)]
  have "load1 (vd_src st) sp = Inr ?opc" "load2 (vd_src st) (sp + 1) = Inr D"
    using at f assms(3) bytes_at_append [of "vd_src st" sp "[char_of ?opc]" "le_bytes 2 D @ take L (drop dp s)"]
    by (auto simp: opc_fields_ok_def intro: bytes_at_load1 bytes_at_load2)
  with f \<open>_ < sl\<close> show "lzvn_dispatch st sp sl dp dl D0 = rbind (copy_literal_and_match (update_good st sp dp D0) sp sl dp dl L (x + 3) D
        (length (char_of ?opc # le_bytes 2 D))) lzvn_continue"
    by (simp add: dispatch_execute lzvn_execute_def opc_fields_ok_def Let_def numeral_2_eq_2 numeral_3_eq_3)
qed

lemma decodes_med_d:
  assumes "L < 4" and "x < 32" and "D < 16384" and "match_at s (dp + L) (x + 3) D"
  shows "decodes s dp D0 ((char_of (160 + x div 4 + L * 8) # le_bytes 2 (D * 4 + x mod 4)) @ take L (drop dp s))
    (dp + L + (x + 3)) D"
proof (rule decodes_literal_and_match [OF assms(4,1)])
  fix st :: lzvn_decoder_state and sp sl dl
  let ?opc = "160 + x div 4 + L * 8" and ?w = "D * 4 + x mod 4"
  assume at: "bytes_at (vd_src st) sp ((char_of ?opc # le_bytes 2 ?w) @ take L (drop dp s))"
    and "length (char_of ?opc # le_bytes 2 ?w) + L < sl"
  have "x div 4 < 8" using assms(2) by simp
  note f = opc_med [OF assms(1) this]
  have w: "?w < 65536" "extract_bits ?w 0 2 = x mod 4" "extract_bits ?w 2 14 = D"
    using assms(3) mod_less_divisor [of 4 x] by (auto simp: extract_bits_def)
  have "load1 (vd_src st) sp = Inr ?opc" "load2 (vd_src st) (sp + 1) = Inr ?w"
    using at assms w(1) bytes_at_append [of "vd_src st" sp "[char_of ?opc]" "le_bytes 2 ?w @ take L (drop dp s)"]
    by (auto intro!: bytes_at_load1 bytes_at_load2)
  moreover have "x div 4 * 4 + x mod 4 = x" by simp
  ultimately show "lzvn_dispatch st sp sl dp dl D0 = rbind (copy_literal_and_match (update_good st sp dp D0) sp sl dp dl L (x + 3) D
        (length (char_of ?opc # le_bytes 2 ?w))) lzvn_continue"
    using f w \<open>_ < sl\<close> by (simp add: dispatch_execute lzvn_execute_def Let_def numeral_2_eq_2 numeral_3_eq_3)
qed

lemma decodes_match:
  assumes "match_at s dp M D"
    and exec: "\<And>st sp sl dl. bytes_at (vd_src st) sp ops \<Longrightarrow> sp + sl \<le> length (vd_src st) \<Longrightarrow> length ops < sl \<Longrightarrow>
       lzvn_dispatch st sp sl dp dl D =
         rbind (copy_match (update_good st sp dp D) (sp + length ops) (sl - length ops) dp dl M D) lzvn_continue"
  shows "decodes s dp D ops (dp + M) D"
  unfolding decodes_def
proof (intro conjI allI impI)
  show "dp \<le> dp + M" "dp + M \<le> length s" using assms(1) by (auto simp: match_at_def)
  fix st :: lzvn_decoder_state and sp sl dl
  assume st: "vd_dst_begin st = 0" "take dp (vd_dst st) = take dp s" "dp + dl \<le> length (vd_dst st)"
    "sp + sl \<le> length (vd_src st)" "length ops < sl" "bytes_at (vd_src st) sp ops"
  have "arrives s (update_good st sp dp D) (dp + dl)
      (rbind (copy_match (update_good st sp dp D) (sp + length ops) (sl - length ops) dp dl M D) lzvn_continue)
      (sp + length ops) (sl - length ops) (dp + M) D"
    by (rule copy_match_arrives [OF assms(1)]) (use st in auto)
  then show "arrives s st (dp + dl) (lzvn_dispatch st sp sl dp dl D) (sp + length ops) (sl - length ops) (dp + M) D"
    using exec [OF st(6,4,5)] by (auto intro: arrives_from)
qed

lemma decodes_sml_m:
  assumes "0 < M" and "M < 16" and "match_at s dp M D"
  shows "decodes s dp D [char_of (240 + M)] (dp + M) D"
proof (rule decodes_match [OF assms(3)])
  fix st :: lzvn_decoder_state and sp sl dl
  assume at: "bytes_at (vd_src st) sp [char_of (240 + M)]" and "length [char_of (240 + M)] < sl"
  have "load1 (vd_src st) sp = Inr (240 + M)" using at assms(2) by (auto intro: bytes_at_load1)
  with opc_sml [OF assms(1,2)] \<open>_ < sl\<close> show "lzvn_dispatch st sp sl dp dl D =
      rbind (copy_match (update_good st sp dp D) (sp + length [char_of (240 + M)]) (sl - length [char_of (240 + M)]) dp dl M D) lzvn_continue"
    by (simp add: dispatch_execute lzvn_execute_def Let_def)
qed

lemma decodes_lrg_m:
  assumes "16 \<le> M" and "M \<le> 271" and "match_at s dp M D"
  shows "decodes s dp D (le_bytes 2 (240 + (M - 16) * 256)) (dp + M) D"
proof (rule decodes_match [OF assms(3)])
  fix st :: lzvn_decoder_state and sp sl dl
  let ?ops = "le_bytes 2 (240 + (M - 16) * 256)"
  have ops: "?ops = [char_of (240 :: nat), char_of (M - 16)]" using assms(2) by (simp add: numeral_2_eq_2)
  assume at: "bytes_at (vd_src st) sp ?ops" and "length ?ops < sl"
  have "load1 (vd_src st) sp = Inr 240" "load1 (vd_src st) (sp + 1) = Inr (M - 16)"
    using at assms(2) bytes_at_append [of "vd_src st" sp "[char_of (240 :: nat)]" "[char_of (M - 16)]"] unfolding ops
    by (auto intro: bytes_at_load1)
  with opc_tables_small(3) \<open>_ < sl\<close> assms(1) show "lzvn_dispatch st sp sl dp dl D =
      rbind (copy_match (update_good st sp dp D) (sp + length ?ops) (sl - length ?ops) dp dl M D) lzvn_continue"
    by (simp add: dispatch_execute lzvn_execute_def Let_def)
qed

lemma decodes_literal:
  assumes "dp + L \<le> length s"
    and exec: "\<And>st sp sl dl. bytes_at (vd_src st) sp (ops @ take L (drop dp s)) \<Longrightarrow> sp + sl \<le> length (vd_src st) \<Longrightarrow>
       length ops + L < sl \<Longrightarrow> lzvn_dispatch st sp sl dp dl D =
         rbind (copy_literal (update_good st sp dp D) sp sl dp dl L D (length ops)) lzvn_continue"
  shows "decodes s dp D (ops @ take L (drop dp s)) (dp + L) D"
  unfolding decodes_def
proof (intro conjI allI impI)
  have len: "length (take L (drop dp s)) = L" using assms(1) by auto
  show "dp \<le> dp + L" "dp + L \<le> length s" using assms(1) by auto
  fix st :: lzvn_decoder_state and sp sl dl
  assume st: "vd_dst_begin st = 0" "take dp (vd_dst st) = take dp s" "dp + dl \<le> length (vd_dst st)"
    "sp + sl \<le> length (vd_src st)" "length (ops @ take L (drop dp s)) < sl" "bytes_at (vd_src st) sp (ops @ take L (drop dp s))"
  let ?st = "update_good st sp dp D"
  have "bytes_at (vd_src st) (sp + length ops) (take L (drop dp s))" using st(6) by (simp add: bytes_at_append)
  then have lits: "take L (drop (sp + length ops) (vd_src ?st)) = take L (drop dp s)" using len by (simp add: bytes_at_def)
  have "arrives s ?st (dp + dl) (rbind (copy_literal ?st sp sl dp dl L D (length ops)) lzvn_continue)
      (sp + length ops + L) (sl - length ops - L) (dp + L) D"
    by (rule copy_literal_arrives [OF assms(1) _ _ _ _ lits]) (use st len in auto)
  moreover have "length ops + L < sl" using st(5) len by simp
  ultimately show "arrives s st (dp + dl) (lzvn_dispatch st sp sl dp dl D) (sp + length (ops @ take L (drop dp s)))
      (sl - length (ops @ take L (drop dp s))) (dp + L) D"
    using exec [OF st(6) st(4)] len by (auto simp: add.assoc intro: arrives_from)
qed

lemma decodes_sml_l:
  assumes "0 < L" and "L < 16" and "dp + L \<le> length s"
  shows "decodes s dp D ([char_of (224 + L)] @ take L (drop dp s)) (dp + L) D"
proof (rule decodes_literal [OF assms(3)])
  fix st :: lzvn_decoder_state and sp sl dl
  assume at: "bytes_at (vd_src st) sp ([char_of (224 + L)] @ take L (drop dp s))"
  have "load1 (vd_src st) sp = Inr (224 + L)" using at assms(2) by (auto intro: bytes_at_load1)
  with opc_sml [OF assms(1,2)] show "lzvn_dispatch st sp sl dp dl D =
      rbind (copy_literal (update_good st sp dp D) sp sl dp dl L D (length [char_of (224 + L)])) lzvn_continue"
    by (simp add: dispatch_execute lzvn_execute_def Let_def)
qed

lemma decodes_lrg_l:
  assumes "16 \<le> L" and "L \<le> 271" and "dp + L \<le> length s"
  shows "decodes s dp D (le_bytes 2 (224 + (L - 16) * 256) @ take L (drop dp s)) (dp + L) D"
proof (rule decodes_literal [OF assms(3)])
  fix st :: lzvn_decoder_state and sp sl dl
  let ?ops = "le_bytes 2 (224 + (L - 16) * 256)"
  have ops: "?ops = [char_of (224 :: nat), char_of (L - 16)]" using assms(2) by (simp add: numeral_2_eq_2)
  assume at: "bytes_at (vd_src st) sp (?ops @ take L (drop dp s))" and "length ?ops + L < sl"
  have "load1 (vd_src st) sp = Inr 224" "load1 (vd_src st) (sp + 1) = Inr (L - 16)"
    using at assms(2) bytes_at_append [of "vd_src st" sp "[char_of (224 :: nat)]" "char_of (L - 16) # take L (drop dp s)"] unfolding ops
    by (auto intro: bytes_at_load1)
  with opc_tables_small(4) \<open>_ < sl\<close> assms(1) show "lzvn_dispatch st sp sl dp dl D =
      rbind (copy_literal (update_good st sp dp D) sp sl dp dl L D (length ?ops)) lzvn_continue"
    by (simp add: dispatch_execute lzvn_execute_def Let_def)
qed

section \<open>Decoding a whole stream\<close>

lemma dispatch_end_of_stream:
  assumes "bytes_at (vd_src st) sp (le_bytes 8 6)" and "8 \<le> sl"
  shows "lzvn_dispatch st sp sl dp dl D = Inr (update_good (st\<lparr>vd_end_of_stream := True\<rparr>) (sp + 8) dp D)"
proof -
  have "le_bytes 8 6 = [char_of (6 :: nat)] @ le_bytes 7 0" using le_bytes.simps(2) [of 7 6] by simp
  with assms(1) have "load1 (vd_src st) sp = Inr 6" by (auto intro: bytes_at_load1)
  with assms(2) opc_tables_small(5) show ?thesis
    by (simp add: dispatch_execute lzvn_execute_def lzvn_continue_def)
qed

text \<open>
  The decoder on a stream of bytes that carry the text from \<open>p\<close> to its end: it recovers the text,
  or as much of it as the destination takes; only in the first case does it see the end marker.
\<close>

lemma lzvn_decode_text:
  assumes dec: "decodes s p 0 bytes (length s) D"
    and st: "bytes_at (vd_src st) (vd_sp st) (bytes @ le_bytes 8 6)" "vd_src_end st = vd_sp st + length bytes + 8"
      "vd_L st = 0" "vd_M st = 0" "vd_d_prev st = 0" "vd_dst_begin st = 0" "\<not> vd_end_of_stream st"
      "vd_dp st = p" "take p (vd_dst st) = take p s" "p < vd_dst_end st" "vd_dst_end st \<le> length (vd_dst st)"
  shows "\<exists>st'. lzvn_decode st = Inr st' \<and> length (vd_dst st') = length (vd_dst st) \<and>
    vd_dp st' = min (vd_dst_end st) (length s) \<and>
    take (min (vd_dst_end st) (length s)) (vd_dst st') = take (min (vd_dst_end st) (length s)) s \<and>
    (if length s \<le> vd_dst_end st then vd_end_of_stream st' \<and> vd_sp st' = vd_src_end st
     else \<not> vd_end_of_stream st' \<and> vd_sp st' < vd_src_end st)"
proof -
  let ?sl = "length bytes + 8" and ?dl = "vd_dst_end st - p"
  have run: "lzvn_decode st = lzvn_dispatch st (vd_sp st) ?sl p ?dl 0" using st by (simp add: lzvn_decode_def Let_def)
  have at: "bytes_at (vd_src st) (vd_sp st) bytes" "bytes_at (vd_src st) (vd_sp st + length bytes) (le_bytes 8 6)"
    using st(1) by (simp_all add: bytes_at_append)
  have bound: "vd_sp st + ?sl \<le> length (vd_src st)" using at(2) by (simp add: bytes_at_def)
  have "arrives s st (p + ?dl) (lzvn_dispatch st (vd_sp st) ?sl p ?dl 0) (vd_sp st + length bytes) (?sl - length bytes) (length s) D"
    by (rule decodesD [OF dec]) (use st at bound in auto)
  then have arr: "arrives s st (vd_dst_end st) (lzvn_decode st) (vd_sp st + length bytes) 8 (length s) D"
    using st(10) by (simp add: run)
  show ?thesis
  proof (cases "length s \<le> vd_dst_end st")
    case True
    with arr obtain st1 where st1: "same_io st st1" "take (length s) (vd_dst st1) = s"
      "lzvn_decode st = lzvn_dispatch st1 (vd_sp st + length bytes) 8 (length s) (vd_dst_end st - length s) D"
      by (auto simp: arrives_def)
    have "bytes_at (vd_src st1) (vd_sp st + length bytes) (le_bytes 8 6)" using st1(1) at(2) by (simp add: same_io_def)
    from dispatch_end_of_stream [OF this, of 8] st1 True st(2) show ?thesis
      by (auto simp: same_io_def update_good_def min_def)
  next
    case False
    with arr st(2,7) show ?thesis by (auto simp: arrives_def same_io_def min_def)
  qed
qed

section \<open>No access out of bounds, whatever the source holds\<close>

definition lzvn_safe :: "lzvn_decoder_state \<Rightarrow> nat \<Rightarrow> nat \<Rightarrow> lzvn_decoder_state \<Rightarrow> bool" where
  "lzvn_safe st src_stop dst_stop st' \<longleftrightarrow> vd_src st' = vd_src st \<and> length (vd_dst st') = length (vd_dst st) \<and>
     vd_dst_begin st' = vd_dst_begin st \<and> vd_sp st' \<le> src_stop \<and> vd_dp st' \<le> dst_stop"

definition step_safe :: "lzvn_decoder_state \<Rightarrow> nat \<Rightarrow> nat \<Rightarrow> lzvn_step \<Rightarrow> bool" where
  "step_safe st src_stop dst_stop r \<longleftrightarrow>
     (case r of Return_with st' \<Rightarrow> lzvn_safe st src_stop dst_stop st'
      | Dispatch st' sp sl dp dl D \<Rightarrow> lzvn_safe st src_stop dst_stop st' \<and> sp + sl = src_stop \<and> 0 < sl \<and>
          dp + dl = dst_stop \<and> vd_dst_begin st + D \<le> dp)"

lemma copy_match_safe:
  assumes "lzvn_safe st0 (sp + sl) (dp + dl) st" and "0 < sl" and "vd_dst_begin st0 + D \<le> dp"
    and "dp + dl \<le> length (vd_dst st0)"
  shows "\<exists>r. copy_match st sp sl dp dl M D = Inr r \<and> step_safe st0 (sp + sl) (dp + dl) r"
proof -
  have len: "length (vd_dst st) = length (vd_dst st0)" using assms(1) by (simp add: lzvn_safe_def)
  consider (wide) "M + 7 \<le> dl" "8 \<le> D" | (careful) "M \<le> dl" "\<not> (M + 7 \<le> dl \<and> 8 \<le> D)" | (short) "dl < M"
    by fastforce
  then show ?thesis
  proof cases
    case wide
    obtain d where "copy_within 8 (vd_dst st) dp D M = Inr d" "length d = length (vd_dst st)"
      using copy_within_safe [of D dp 8 M "vd_dst st"] assms wide len by auto
    with wide assms show ?thesis by (auto simp: copy_match_def step_safe_def lzvn_safe_def)
  next
    case careful
    obtain d where "copy_within 1 (vd_dst st) dp D M = Inr d" "length d = length (vd_dst st)"
      using copy_within_safe [of D dp 1 M "vd_dst st"] assms careful len by auto
    with careful assms show ?thesis by (auto simp: copy_match_def step_safe_def lzvn_safe_def)
  next
    case short
    obtain d where "copy_within 1 (vd_dst st) dp D dl = Inr d" "length d = length (vd_dst st)"
      using copy_within_safe [of D dp 1 dl "vd_dst st"] assms short len by auto
    with short assms show ?thesis by (auto simp: copy_match_def step_safe_def lzvn_safe_def)
  qed
qed

lemma lzvn_safe_dst: "lzvn_safe st0 E F st \<Longrightarrow> length d = length (vd_dst st) \<Longrightarrow> lzvn_safe st0 E F (st\<lparr>vd_dst := d\<rparr>)"
  by (simp add: lzvn_safe_def)

lemma literal_done_safe:
  assumes "lzvn_safe st0 (sp + sl) (dp + dl) st" and "0 < sl" and "vd_dst_begin st0 \<le> dp"
    and "dp + dl \<le> length (vd_dst st0)"
  shows "\<exists>r. literal_done st sp sl dp dl M D = Inr r \<and> step_safe st0 (sp + sl) (dp + dl) r"
proof (cases "D > dp - vd_dst_begin st \<or> D = 0")
  case True
  with assms show ?thesis by (auto simp: literal_done_def step_safe_def)
next
  case False
  with assms have "vd_dst_begin st0 + D \<le> dp" by (auto simp: lzvn_safe_def)
  from copy_match_safe [OF assms(1,2) this assms(4)] False show ?thesis by (simp add: literal_done_def)
qed

lemma copy_literal_and_match_safe:
  assumes "lzvn_safe st0 (sp + sl) (dp + dl) st" and "n + L < sl" and "L < 4" and "vd_dst_begin st0 \<le> dp"
    and "dp + dl \<le> length (vd_dst st0)" and "sp + sl \<le> length (vd_src st0)"
  shows "\<exists>r. copy_literal_and_match st sp sl dp dl L M D n = Inr r \<and> step_safe st0 (sp + sl) (dp + dl) r"
proof -
  have len: "length (vd_dst st) = length (vd_dst st0)" "vd_src st = vd_src st0" using assms(1) by (simp_all add: lzvn_safe_def)
  have go: "\<exists>r. literal_done (st\<lparr>vd_dst := d\<rparr>) (sp + n + L) (sl - n - L) (dp + L) (dl - L) M D = Inr r \<and>
      step_safe st0 (sp + sl) (dp + dl) r" if "length d = length (vd_dst st)" "L \<le> dl" for d
    using literal_done_safe [of st0 "sp + n + L" "sl - n - L" "dp + L" "dl - L" "st\<lparr>vd_dst := d\<rparr>" M D] that assms len
    by (auto simp: lzvn_safe_def)
  consider (wide) "4 \<le> dl" "4 \<le> sl - n" | (careful) "L \<le> dl" "\<not> (4 \<le> dl \<and> 4 \<le> sl - n)" | (short) "dl < L" "\<not> (4 \<le> dl \<and> 4 \<le> sl - n)"
    by fastforce
  then show ?thesis
  proof cases
    case wide
    let ?bs = "take 4 (drop (sp + n) (vd_src st))"
    have "length ?bs = 4" "sp + n + 4 \<le> length (vd_src st)" using wide assms len by auto
    then obtain d where "store_bytes (vd_dst st) dp ?bs = Inr d" "length d = length (vd_dst st)"
      using store_bytes_appended [of dp ?bs "vd_dst st"] wide assms len by (auto simp: appended_def)
    then show ?thesis using go [of d] wide assms \<open>sp + n + 4 \<le> _\<close> by (auto simp: copy_literal_and_match_def Let_def)
  next
    case careful
    obtain d where "copy_blocks 1 (vd_src st) (sp + n) (vd_dst st) dp L = Inr d" "length d = length (vd_dst st)"
      using copy_bytes_appended [of "sp + n" L "vd_src st" dp "vd_dst st"] careful assms len by (auto simp: appended_def)
    then show ?thesis using go [of d] careful by (auto simp: copy_literal_and_match_def Let_def)
  next
    case short
    obtain d where "copy_blocks 1 (vd_src st) (sp + n) (vd_dst st) dp dl = Inr d" "length d = length (vd_dst st)"
      using copy_bytes_appended [of "sp + n" dl "vd_src st" dp "vd_dst st"] short assms len by (auto simp: appended_def)
    with short assms show ?thesis
      by (auto simp: copy_literal_and_match_def Let_def step_safe_def lzvn_safe_def)
  qed
qed

lemma copy_literal_safe:
  assumes "lzvn_safe st0 (sp + sl) (dp + dl) st" and "vd_dst_begin st0 + D \<le> dp"
    and "dp + dl \<le> length (vd_dst st0)" and "sp + sl \<le> length (vd_src st0)"
  shows "\<exists>r. copy_literal st sp sl dp dl L D n = Inr r \<and> step_safe st0 (sp + sl) (dp + dl) r"
proof -
  have len: "length (vd_dst st) = length (vd_dst st0)" "vd_src st = vd_src st0" using assms(1) by (simp_all add: lzvn_safe_def)
  consider (none) "sl \<le> n + L" | (wide) "n + L < sl" "L + 7 \<le> dl" "L + 7 \<le> sl - n"
    | (careful) "n + L < sl" "L \<le> dl" "\<not> (L + 7 \<le> dl \<and> L + 7 \<le> sl - n)" | (short) "n + L < sl" "dl < L"
    by fastforce
  then show ?thesis
  proof cases
    case none
    with assms show ?thesis by (auto simp: copy_literal_def step_safe_def)
  next
    case wide
    from wide(3) assms(4) have "sp + n + L + 7 \<le> length (vd_src st)" using len by arith
    then obtain d where "copy_blocks 8 (vd_src st) (sp + n) (vd_dst st) dp L = Inr d" "length d = length (vd_dst st)"
      using copy_blocks_appended [of 8 "sp + n" L "vd_src st" dp "vd_dst st"] wide assms len by (auto simp: appended_def)
    with wide assms show ?thesis by (auto simp: copy_literal_def Let_def step_safe_def lzvn_safe_def)
  next
    case careful
    obtain d where "copy_blocks 1 (vd_src st) (sp + n) (vd_dst st) dp L = Inr d" "length d = length (vd_dst st)"
      using copy_bytes_appended [of "sp + n" L "vd_src st" dp "vd_dst st"] careful assms len by (auto simp: appended_def)
    with careful assms show ?thesis by (auto simp: copy_literal_def Let_def step_safe_def lzvn_safe_def)
  next
    case short
    obtain d where "copy_blocks 1 (vd_src st) (sp + n) (vd_dst st) dp dl = Inr d" "length d = length (vd_dst st)"
      using copy_bytes_appended [of "sp + n" dl "vd_src st" dp "vd_dst st"] short assms len by (auto simp: appended_def)
    with short assms show ?thesis by (auto simp: copy_literal_def Let_def step_safe_def lzvn_safe_def)
  qed
qed

lemma load_in_bounds [simp]:
  "i < length b \<Longrightarrow> \<exists>c. load1 b i = Inr c"
  "i + 1 < length b \<Longrightarrow> \<exists>c. load2 b i = Inr c"
  by (simp_all add: load1_def load2_def)

lemma extract_less: "extract_bits c i n < 2 ^ n"
  by (simp add: extract_bits_def)

lemma lzvn_execute_safe:
  assumes st: "lzvn_safe st0 (sp + sl) (dp + dl) st" and "0 < sl" and D: "vd_dst_begin st0 + D \<le> dp"
    and F: "dp + dl \<le> length (vd_dst st0)" and E: "sp + sl \<le> length (vd_src st0)"
  shows "\<exists>r. lzvn_execute st sp sl dp dl D opc = Inr r \<and> step_safe st0 (sp + sl) (dp + dl) r"
proof -
  have src: "vd_src st = vd_src st0" using st by (simp add: lzvn_safe_def)
  let ?st = "update_good st sp dp D"
  have st': "lzvn_safe st0 (sp + sl) (dp + dl) ?st" using st by (simp add: lzvn_safe_def update_good_def)
  have L: "extract_bits opc i 2 < 4" for i using extract_less [of opc i 2] by simp
  have begin': "vd_dst_begin st0 \<le> dp" using D by simp
  note lm = copy_literal_and_match_safe [OF st' _ L begin' F E]
  have m: "\<exists>r. copy_match ?st (sp + n) (sl - n) dp dl M D = Inr r \<and> step_safe st0 (sp + sl) (dp + dl) r"
    if "n < sl" for n M
    using copy_match_safe [of st0 "sp + n" "sl - n" dp dl ?st D M] st' D F that by simp
  have b1: "\<exists>b. load1 (vd_src st) (Suc sp) = Inr b" if "1 < sl" using that E src by simp
  have b2: "\<exists>b. load2 (vd_src st) (Suc sp) = Inr b" if "2 < sl" using that E src by simp
  have ret: "step_safe st0 (sp + sl) (dp + dl) (Return_with ?st)" "step_safe st0 (sp + sl) (dp + dl) (Return_with st)"
    using st st' by (simp_all add: step_safe_def)
  show ?thesis
  proof (cases "opc_tbl ! opc")
    case Sml_d
    then show ?thesis using lm b1 ret by (fastforce simp: lzvn_execute_def Let_def)
  next
    case Med_d
    then show ?thesis using lm b2 ret by (fastforce simp: lzvn_execute_def Let_def)
  next
    case Lrg_d
    then show ?thesis using lm b2 ret by (fastforce simp: lzvn_execute_def Let_def)
  next
    case Pre_d
    then show ?thesis using lm ret by (fastforce simp: lzvn_execute_def Let_def)
  next
    case Sml_m
    then show ?thesis using m [of 1] ret by (fastforce simp: lzvn_execute_def Let_def)
  next
    case Lrg_m
    then show ?thesis using m [of 2] b1 ret by (fastforce simp: lzvn_execute_def Let_def)
  next
    case Sml_l
    then show ?thesis using copy_literal_safe [OF st' D F E] by (simp add: lzvn_execute_def Let_def)
  next
    case Lrg_l
    then show ?thesis using copy_literal_safe [OF st' D F E] b1 ret by (fastforce simp: lzvn_execute_def Let_def)
  next
    case Nop
    then show ?thesis using st' ret D by (auto simp: lzvn_execute_def Let_def step_safe_def)
  next
    case Eos
    then show ?thesis using st ret by (auto simp: lzvn_execute_def Let_def step_safe_def lzvn_safe_def update_good_def)
  next
    case Udef
    then show ?thesis using ret by (simp add: lzvn_execute_def)
  qed
qed

lemma lzvn_dispatch_safe:
  assumes "lzvn_safe st0 (sp + sl) (dp + dl) st" and "0 < sl" and "vd_dst_begin st0 + D \<le> dp"
    and "dp + dl \<le> length (vd_dst st0)" and "sp + sl \<le> length (vd_src st0)"
  shows "\<exists>st'. lzvn_dispatch st sp sl dp dl D = Inr st' \<and> lzvn_safe st0 (sp + sl) (dp + dl) st'"
  using assms
proof (induction sl arbitrary: st sp dp dl D rule: less_induct)
  case (less sl)
  have "sp < length (vd_src st)" using less.prems by (simp add: lzvn_safe_def)
  then obtain opc where opc: "load1 (vd_src st) sp = Inr opc" using load_in_bounds by blast
  obtain r where r: "lzvn_execute st sp sl dp dl D opc = Inr r" "step_safe st0 (sp + sl) (dp + dl) r"
    using lzvn_execute_safe [OF less.prems] by blast
  note run = dispatch_execute [OF opc, of sl dp dl D]
  show ?case
  proof (cases r)
    case (Return_with st')
    with r run show ?thesis by (simp add: lzvn_continue_def step_safe_def)
  next
    case (Dispatch st' sp' sl' dp' dl' D')
    then have "sl' < sl" using r(1) lzvn_execute_src_len by blast
    from less.IH [OF this, of sp' dp' dl' st' D'] r Dispatch run less.prems show ?thesis
      by (simp add: lzvn_continue_def step_safe_def)
  qed
qed

lemma lzvn_decode_safe:
  assumes "vd_sp st \<le> vd_src_end st" and "vd_src_end st \<le> length (vd_src st)" and "vd_L st = 0" and "vd_M st = 0"
    and "vd_dp st \<le> vd_dst_end st" and "vd_dst_end st \<le> length (vd_dst st)" and "vd_dst_begin st + vd_d_prev st \<le> vd_dp st"
  shows "\<exists>st'. lzvn_decode st = Inr st' \<and> lzvn_safe st (vd_src_end st) (vd_dst_end st) st'"
  using assms lzvn_dispatch_safe [of st "vd_sp st" "vd_src_end st - vd_sp st" "vd_dp st" "vd_dst_end st - vd_dp st" st "vd_d_prev st"]
  by (auto simp: lzvn_decode_def Let_def lzvn_safe_def)

text \<open>The decoder never moves its source pointer backwards.\<close>

definition step_from :: "nat \<Rightarrow> lzvn_step \<Rightarrow> bool" where
  "step_from b r \<longleftrightarrow> (case r of Return_with st \<Rightarrow> b \<le> vd_sp st | Dispatch st sp sl dp dl D \<Rightarrow> b \<le> vd_sp st \<and> b \<le> sp)"

lemma copy_match_from: "copy_match st sp sl dp dl M D = Inr r \<Longrightarrow> b \<le> vd_sp st \<Longrightarrow> b \<le> sp \<Longrightarrow> step_from b r"
  by (auto simp: copy_match_def rbind_eq_Inr_iff step_from_def split: if_splits)

lemma literal_done_from: "literal_done st sp sl dp dl M D = Inr r \<Longrightarrow> b \<le> vd_sp st \<Longrightarrow> b \<le> sp \<Longrightarrow> step_from b r"
  using copy_match_from by (fastforce simp: literal_done_def step_from_def split: if_splits)

lemma copy_literal_and_match_from:
  assumes "copy_literal_and_match st sp sl dp dl L M D n = Inr r" and "b \<le> vd_sp st" and "b \<le> sp"
  shows "step_from b r"
proof -
  have "step_from b r" if "literal_done (st\<lparr>vd_dst := d\<rparr>) (sp + n + L) (sl - n - L) (dp + L) (dl - L) M D = Inr r" for d
    by (rule literal_done_from [OF that]) (use assms in auto)
  then show ?thesis
    using assms by (auto simp: copy_literal_and_match_def Let_def rbind_eq_Inr_iff split: if_splits) (simp_all add: step_from_def)
qed

lemma copy_literal_from:
  "copy_literal st sp sl dp dl L D n = Inr r \<Longrightarrow> b \<le> vd_sp st \<Longrightarrow> b \<le> sp \<Longrightarrow> step_from b r"
  by (auto simp: copy_literal_def Let_def rbind_eq_Inr_iff step_from_def split: if_splits)

lemma lzvn_execute_from:
  assumes "lzvn_execute st sp sl dp dl D opc = Inr r" and "b \<le> vd_sp st" and "b \<le> sp"
  shows "step_from b r"
proof -
  let ?st = "update_good st sp dp D"
  have st: "b \<le> vd_sp ?st" using assms(3) by (simp add: update_good_def)
  note from_facts = copy_literal_and_match_from [OF _ st assms(3)] copy_literal_from [OF _ st assms(3)]
  have m: "step_from b r" if "copy_match ?st (sp + n) (sl - n) dp dl M D = Inr r" for n M
    using copy_match_from [OF that st] assms(3) by simp
  have ret: "step_from b (Return_with ?st)" "step_from b (Return_with st)"
    using st assms(2) by (simp_all add: step_from_def)
  show ?thesis
    using assms(1)
  proof (cases "opc_tbl ! opc")
    case Sml_m
    then show ?thesis using assms(1) m [of 1] ret by (auto simp: lzvn_execute_def Let_def split: if_splits)
  next
    case Lrg_m
    then show ?thesis using assms(1) m [of 2] ret by (auto simp: lzvn_execute_def Let_def rbind_eq_Inr_iff split: if_splits)
  next
    case Nop
    then show ?thesis
      using assms ret st by (auto simp: lzvn_execute_def Let_def step_from_def split: if_splits)
  next
    case Eos
    then show ?thesis
      using assms ret by (auto simp: lzvn_execute_def Let_def step_from_def update_good_def split: if_splits)
  qed (use assms(1) from_facts ret in \<open>auto simp: lzvn_execute_def Let_def rbind_eq_Inr_iff split: if_splits\<close>)
qed

lemma lzvn_dispatch_from:
  "lzvn_dispatch st sp sl dp dl D = Inr st' \<Longrightarrow> b \<le> vd_sp st \<Longrightarrow> b \<le> sp \<Longrightarrow> b \<le> vd_sp st'"
proof (induction sl arbitrary: st sp dp dl D rule: less_induct)
  case (less sl)
  obtain opc r where opc: "load1 (vd_src st) sp = Inr opc" and r: "lzvn_execute st sp sl dp dl D opc = Inr r"
    and run: "lzvn_continue r = Inr st'"
    using less.prems(1) by (auto simp: lzvn_dispatch.simps [of st] rbind_eq_Inr_iff lzvn_continue_def)
  have f: "step_from b r" by (rule lzvn_execute_from [OF r less.prems(2,3)])
  show ?case
  proof (cases r)
    case (Return_with st')
    with f run show ?thesis by (simp add: step_from_def lzvn_continue_def)
  next
    case (Dispatch st1 sp1 sl1 dp1 dl1 D1)
    then have "sl1 < sl" using r lzvn_execute_src_len by blast
    from less.IH [OF this] Dispatch f run show ?thesis by (simp add: step_from_def lzvn_continue_def)
  qed
qed

lemma lzvn_decode_from:
  "lzvn_decode st = Inr st' \<Longrightarrow> vd_L st = 0 \<Longrightarrow> vd_M st = 0 \<Longrightarrow> vd_sp st \<le> vd_sp st'"
  by (auto simp: lzvn_decode_def Let_def dest: lzvn_dispatch_from [where b = "vd_sp st"] split: if_splits)

end
