(* ===== verification/LZVN_Encode.thy ===== *)
theory LZVN_Encode
  imports LZVN_Decode
begin

text \<open>
  The LZVN encoder, \<open>lzvn_encode_base.c\<close>: the instruction emitters \<open>emit_literal\<close> and \<open>emit\<close>, the
  hash table of candidate positions, the match search with its forward and backward expansion, the
  choice between pending and incoming match, and the entry point \<open>lzvn_encode_buffer\<close>.

  Offsets (\<open>lzvn_offset\<close>) are integers, pointers into the destination indices of its buffer, four
  byte values 32 bit words.
\<close>

unbundle bit_operations_syntax

section \<open>Emitting instructions\<close>

definition lzvn_copy64 :: "string \<Rightarrow> nat \<Rightarrow> string \<Rightarrow> nat \<Rightarrow> nat \<Rightarrow> string result" where
  "lzvn_copy64 src p dst q nbytes = copy_blocks 8 src p dst q nbytes"

definition lzvn_copy8 :: "string \<Rightarrow> nat \<Rightarrow> string \<Rightarrow> nat \<Rightarrow> nat \<Rightarrow> string result" where
  "lzvn_copy8 src p dst q nbytes = copy_blocks 1 src p dst q nbytes"

text \<open>The loop \<open>while (L > 15)\<close> of both emitters, with the copy function that each uses.\<close>

function long_literals ::
  "(string \<Rightarrow> nat \<Rightarrow> string \<Rightarrow> nat \<Rightarrow> nat \<Rightarrow> string result) \<Rightarrow> string \<Rightarrow> nat \<Rightarrow> string \<Rightarrow> nat \<Rightarrow> nat \<Rightarrow> nat \<Rightarrow>
   (nat \<times> string \<times> nat \<times> nat) out result" where
  "long_literals copy src p dst q q1 L =
     (if L > 15 then
        let x = (if L < 271 then L else 271) in
        if q + x + 10 \<ge> q1 then Inr (OUT_FULL dst)
        else rbind (store2 dst q (0xE0 + (x - 16) * 256)) (\<lambda>d.
             rbind (copy src p d (q + 2) x) (\<lambda>d'.
             long_literals copy src (p + x) d' (q + 2 + x) q1 (L - x)))
      else Inr (Out (p, dst, q, L)))"
  by pat_completeness auto
termination by (relation "measure (\<lambda>(copy, src, p, dst, q, q1, L). L)") auto

declare long_literals.simps [simp del]

definition short_literal ::
  "(string \<Rightarrow> nat \<Rightarrow> string \<Rightarrow> nat \<Rightarrow> nat \<Rightarrow> string result) \<Rightarrow> string \<Rightarrow> nat \<Rightarrow> string \<Rightarrow> nat \<Rightarrow> nat \<Rightarrow> nat \<Rightarrow>
   (string \<times> nat) out result" where
  "short_literal copy src p dst q q1 L =
     (if q + L + 10 \<ge> q1 then Inr (OUT_FULL dst)
      else rbind (store1 dst q (0xE0 + L)) (\<lambda>d. rbind (copy src p d (q + 1) L) (\<lambda>d'. Inr (Out (d', q + 1 + L)))))"

text \<open>Both emitters return the next output position, \<open>q1\<close> when the output is full.\<close>

definition out_position :: "nat \<Rightarrow> (string \<times> nat) out result \<Rightarrow> (string \<times> nat) result" where
  "out_position q1 m = rbind m (\<lambda>r. Inr (case r of OUT_FULL d \<Rightarrow> (d, q1) | Out x \<Rightarrow> x))"

definition emit_literal :: "string \<Rightarrow> nat \<Rightarrow> string \<Rightarrow> nat \<Rightarrow> nat \<Rightarrow> nat \<Rightarrow> (string \<times> nat) result" where
  "emit_literal src p dst q q1 L =
     out_position q1 (obind (long_literals lzvn_copy8 src p dst q q1 L) (\<lambda>(p, d, q, L).
       if L > 0 then short_literal lzvn_copy8 src p d q q1 L else Inr (Out (d, q))))"

text \<open>The instruction with the distance; the result carries the rest of the match.\<close>

definition emit_distance ::
  "string \<Rightarrow> nat \<Rightarrow> string \<Rightarrow> nat \<Rightarrow> nat \<Rightarrow> nat \<Rightarrow> nat \<Rightarrow> nat \<Rightarrow> (string \<times> nat \<times> nat) result" where
  "emit_distance dst q literal L x M D D_prev =
     (if D = D_prev then
        rbind (store1 dst q (if L = 0 then 0xF0 + (x + 3) else L * 64 + x * 8 + 6)) (\<lambda>d.
        rbind (store_bytes d (q + 1) literal) (\<lambda>d. Inr (d, q + 1 + L, M)))
      else if D < 2048 - 2 * 256 then
        rbind (store1 dst q (D div 256 + L * 64 + x * 8)) (\<lambda>d.
        rbind (store1 d (q + 1) (D mod 256)) (\<lambda>d.
        rbind (store_bytes d (q + 2) literal) (\<lambda>d. Inr (d, q + 2 + L, M))))
      else if D \<ge> 2 ^ 14 \<or> M = 0 \<or> (x + 3) + M > 34 then
        rbind (store1 dst q (L * 64 + x * 8 + 7)) (\<lambda>d.
        rbind (store2 d (q + 1) D) (\<lambda>d.
        rbind (store_bytes d (q + 3) literal) (\<lambda>d. Inr (d, q + 3 + L, M))))
      else
        let x = x + M in
        rbind (store1 dst q (0xA0 + x div 4 + L * 8)) (\<lambda>d.
        rbind (store2 d (q + 1) (D * 4 + x mod 4)) (\<lambda>d.
        rbind (store_bytes d (q + 3) literal) (\<lambda>d. Inr (d, q + 3 + L, 0)))))"

text \<open>\<open>Issue remaining match\<close>\<close>

function long_matches :: "string \<Rightarrow> nat \<Rightarrow> nat \<Rightarrow> nat \<Rightarrow> (string \<times> nat) out result" where
  "long_matches dst q q1 M =
     (if M > 15 then
        if q + 2 \<ge> q1 then Inr (OUT_FULL dst)
        else let x = (if M < 271 then M else 271) in
             rbind (store2 dst q (0xF0 + (x - 16) * 256)) (\<lambda>d. long_matches d (q + 2) q1 (M - x))
      else if M > 0 then
        if q + 1 \<ge> q1 then Inr (OUT_FULL dst)
        else rbind (store1 dst q (0xF0 + M)) (\<lambda>d. Inr (Out (d, q + 1)))
      else Inr (Out (dst, q)))"
  by pat_completeness auto
termination by (relation "measure (\<lambda>(dst, q, q1, M). M)") auto

declare long_matches.simps [simp del]

definition emit :: "string \<Rightarrow> nat \<Rightarrow> string \<Rightarrow> nat \<Rightarrow> nat \<Rightarrow> nat \<Rightarrow> nat \<Rightarrow> nat \<Rightarrow> nat \<Rightarrow> (string \<times> nat) result" where
  "emit src p dst q q1 L M D D_prev =
     out_position q1 (obind (long_literals lzvn_copy64 src p dst q q1 L) (\<lambda>(p, d, q, L).
       obind (if L > 3 then obind (short_literal lzvn_copy64 src p d q q1 L) (\<lambda>(d, q'). Inr (Out (p + L, d, q', 0)))
              else Inr (Out (p, d, q, L))) (\<lambda>(p, d, q, L).
         let x = (if M \<le> 10 - 2 * L then M else 10 - 2 * L) in
         rbind (load_bytes 4 src p) (\<lambda>literal.
           if q + 8 \<ge> q1 then Inr (OUT_FULL d)
           else rbind (emit_distance d q literal L (x - 3) (M - x) D D_prev) (\<lambda>(d, q, M). long_matches d q q1 M)))))"

section \<open>Hash and matching\<close>

definition offset_to_s32 :: "int \<Rightarrow> int" where
  "offset_to_s32 x = sint (word_of_int x :: int32)"

definition offset_from_s32 :: "int \<Rightarrow> int" where
  "offset_from_s32 x = x"

definition load4_at :: "string \<Rightarrow> int \<Rightarrow> 32 word result" where
  "load4_at src i = (if i < 0 then Inl Undefined else rbind (load4 src (nat i)) (\<lambda>v. Inr (word_of_nat v)))"

definition hash3i :: "32 word \<Rightarrow> nat" where
  "hash3i i = unat (drop_bit 12 ((i AND 0xffffff) * (1 + push_bit 6 1 + push_bit 12 1)) AND 0x3fff)"

definition builtin_ctzl :: "32 word \<Rightarrow> nat" where
  "builtin_ctzl x = length (takeWhile (\<lambda>i. \<not> bit x i) [0..<32])"

definition trailing_zero_bytes :: "32 word \<Rightarrow> nat" where
  "trailing_zero_bytes x = (if x = 0 then 4 else builtin_ctzl x div 8)"

definition nmatch4 :: "string \<Rightarrow> int \<Rightarrow> int \<Rightarrow> nat result" where
  "nmatch4 src i j =
     rbind (load4_at src i) (\<lambda>vi. rbind (load4_at src j) (\<lambda>vj. Inr (trailing_zero_bytes (vi XOR vj))))"

record lzvn_match_info =
  m_begin :: int
  m_end :: int
  m_M :: int
  m_D :: int
  m_K :: int

definition NO_MATCH :: lzvn_match_info where
  "NO_MATCH = \<lparr>m_begin = 0, m_end = 0, m_M = 0, m_D = 0, m_K = 0\<rparr>"

text \<open>\<open>Expand forward\<close>: \<open>while (n == 4 && m_end + 4 < src_end)\<close>\<close>

function expand_forward :: "string \<Rightarrow> int \<Rightarrow> int \<Rightarrow> nat \<Rightarrow> int \<Rightarrow> int result" where
  "expand_forward src src_end D n e =
     (if n = 4 \<and> e + 4 < src_end then
        rbind (nmatch4 src e (e - D)) (\<lambda>n'. expand_forward src src_end D n' (e + int n'))
      else Inr e)"
  by pat_completeness auto
termination
  by (relation "measure (\<lambda>(src, src_end, D, n, e). 2 * nat (src_end - e) + (if n = 4 then 1 else 0))") auto

text \<open>\<open>Expand backwards over literal\<close>\<close>

definition byte_at :: "string \<Rightarrow> int \<Rightarrow> char result" where
  "byte_at src i = (if 0 \<le> i \<and> nat i < length src then Inr (src ! nat i) else Inl Undefined)"

function expand_backward :: "string \<Rightarrow> int \<Rightarrow> int \<Rightarrow> int \<Rightarrow> int \<Rightarrow> int result" where
  "expand_backward src src_begin l_begin m0 m =
     (if m0 > src_begin \<and> m > l_begin then
        rbind (byte_at src (m - 1)) (\<lambda>a. rbind (byte_at src (m0 - 1)) (\<lambda>b.
          if a = b then expand_backward src src_begin l_begin (m0 - 1) (m - 1) else Inr m))
      else Inr m)"
  by pat_completeness auto
termination
  by (relation "measure (\<lambda>(src, src_begin, l_begin, m0, m). nat (m - l_begin))") auto

declare expand_forward.simps [simp del] expand_backward.simps [simp del]

definition lzvn_find_matchN :: "string \<Rightarrow> int \<Rightarrow> int \<Rightarrow> int \<Rightarrow> int \<Rightarrow> int \<Rightarrow> nat \<Rightarrow> lzvn_match_info option result" where
  "lzvn_find_matchN src src_begin src_end l_begin m0 m n =
     (if n < 3 then Inr None
      else let D = m - m0 in
        if D \<le> 0 \<or> D > 0xffff then Inr None
        else rbind (expand_forward src src_end D n (m + int n)) (\<lambda>e.
             rbind (expand_backward src src_begin l_begin m0 m) (\<lambda>b.
             let M = e - b in
             Inr (Some \<lparr>m_begin = b, m_end = e, m_M = M, m_D = D, m_K = M - (if D < 0x600 then 2 else 3)\<rparr>))))"

definition lzvn_find_match :: "string \<Rightarrow> int \<Rightarrow> int \<Rightarrow> int \<Rightarrow> int \<Rightarrow> int \<Rightarrow> lzvn_match_info option result" where
  "lzvn_find_match src src_begin src_end l_begin m0 m =
     rbind (nmatch4 src m m0) (\<lambda>n. lzvn_find_matchN src src_begin src_end l_begin m0 m n)"

section \<open>The encoder state\<close>

record lzvn_encode_entry =
  ent_indices :: "int list"
  ent_values :: "32 word list"

record lzvn_encoder_state =
  ve_src :: string
  ve_src_begin :: int
  ve_src_end :: int
  ve_src_current :: int
  ve_src_current_end :: int
  ve_src_literal :: int
  ve_dst :: string
  ve_dp :: nat
  ve_dst_begin :: nat
  ve_dst_end :: nat
  ve_pending :: lzvn_match_info
  ve_d_prev :: int
  ve_table :: "nat \<Rightarrow> lzvn_encode_entry"

text \<open>The cast of an offset to \<open>size_t\<close>.\<close>

definition size_of_offset :: "int \<Rightarrow> nat" where
  "size_of_offset x = nat (x mod 2 ^ 64)"

text \<open>The emitters that update the state return the number of bytes written, zero when full.\<close>

definition lzvn_emit_match :: "lzvn_encoder_state \<Rightarrow> lzvn_match_info \<Rightarrow> (nat \<times> lzvn_encoder_state) result" where
  "lzvn_emit_match st m =
     rbind (emit (ve_src st) (size_of_offset (ve_src_literal st)) (ve_dst st) (ve_dp st) (ve_dst_end st)
              (size_of_offset (m_begin m - ve_src_literal st)) (size_of_offset (m_M m)) (size_of_offset (m_D m))
              (size_of_offset (ve_d_prev st))) (\<lambda>(d, q).
       if q \<ge> ve_dst_end st then Inr (0, st\<lparr>ve_dst := d\<rparr>)
       else Inr (q - ve_dp st, st\<lparr>ve_dst := d, ve_d_prev := m_D m, ve_dp := q, ve_src_literal := m_end m\<rparr>))"

definition lzvn_emit_literal :: "lzvn_encoder_state \<Rightarrow> int \<Rightarrow> (nat \<times> lzvn_encoder_state) result" where
  "lzvn_emit_literal st n =
     rbind (emit_literal (ve_src st) (size_of_offset (ve_src_literal st)) (ve_dst st) (ve_dp st) (ve_dst_end st)
              (size_of_offset n)) (\<lambda>(d, q).
       if q \<ge> ve_dst_end st then Inr (0, st\<lparr>ve_dst := d\<rparr>)
       else Inr (q - ve_dp st, st\<lparr>ve_dst := d, ve_dp := q, ve_src_literal := ve_src_literal st + n\<rparr>))"

definition lzvn_emit_end_of_stream :: "lzvn_encoder_state \<Rightarrow> (nat \<times> lzvn_encoder_state) result" where
  "lzvn_emit_end_of_stream st =
     (if ve_dst_end st < ve_dp st + 8 then Inr (0, st)
      else rbind (store8 (ve_dst st) (ve_dp st) 6) (\<lambda>d. Inr (8, st\<lparr>ve_dst := d, ve_dp := ve_dp st + 8\<rparr>)))"

definition lzvn_init_table :: "lzvn_encoder_state \<Rightarrow> lzvn_encoder_state result" where
  "lzvn_init_table st =
     (let index = (if - 0xffff < ve_src_begin st then ve_src_begin st else - 0xffff) in
      rbind (load4_at (ve_src st) index) (\<lambda>value.
        let e = \<lparr>ent_indices = replicate 4 (offset_to_s32 index), ent_values = replicate 4 value\<rparr> in
        Inr (st\<lparr>ve_table := (\<lambda>u. if u < 2 ^ 14 then e else ve_table st u)\<rparr>)))"

section \<open>The encoding loop\<close>

definition UPDATE :: "lzvn_match_info \<Rightarrow> lzvn_match_info \<Rightarrow> lzvn_match_info" where
  "UPDATE best candidate =
     (if m_K candidate > m_K best \<or> (m_K candidate = m_K best \<and> m_end candidate > m_end best + 1)
      then candidate else best)"

definition CHECK_CANDIDATE :: "lzvn_encoder_state \<Rightarrow> int \<Rightarrow> nat \<Rightarrow> lzvn_match_info \<Rightarrow> lzvn_match_info result" where
  "CHECK_CANDIDATE st ik nk incoming =
     rbind (lzvn_find_matchN (ve_src st) (ve_src_begin st) (ve_src_end st) (ve_src_literal st) ik (ve_src_current st) nk) (\<lambda>r.
       Inr (case r of None \<Rightarrow> incoming | Some m1 \<Rightarrow> UPDATE incoming m1))"

text \<open>The best candidate among the four table entries and the previous distance.\<close>

definition incoming_match :: "lzvn_encoder_state \<Rightarrow> lzvn_encode_entry \<Rightarrow> 32 word \<Rightarrow> lzvn_match_info result" where
  "incoming_match st e vi =
     (let check = (\<lambda>k. CHECK_CANDIDATE st (offset_from_s32 (ent_indices e ! k)) (trailing_zero_bytes (ent_values e ! k XOR vi))) in
      rbind (check 0 NO_MATCH) (\<lambda>i0. rbind (check 1 i0) (\<lambda>i1. rbind (check 2 i1) (\<lambda>i2. rbind (check 3 i2) (\<lambda>i3.
        if ve_d_prev st \<noteq> 0 then
          rbind (lzvn_find_match (ve_src st) (ve_src_begin st) (ve_src_end st) (ve_src_literal st)
                   (ve_src_current st - ve_d_prev st) (ve_src_current st)) (\<lambda>r.
            Inr (case r of None \<Rightarrow> i3 | Some m1 \<Rightarrow> UPDATE i3 (m1\<lparr>m_K := m_M m1 - 1\<rparr>)))
        else Inr i3)))))"

text \<open>
  One iteration: \<open>False\<close> when the destination is full and \<open>lzvn_encode\<close> returns.  \<open>emitting\<close> is the
  macro \<open>EMIT_MATCH\<close>/\<open>EMIT_LITERAL\<close> followed by the rest of the iteration.
\<close>

definition emitting ::
  "(nat \<times> lzvn_encoder_state) result \<Rightarrow> (lzvn_encoder_state \<Rightarrow> lzvn_encoder_state) \<Rightarrow> (bool \<times> lzvn_encoder_state) result" where
  "emitting m after = rbind m (\<lambda>(n, st). Inr (if n = 0 then (False, st) else (True, after st)))"

definition handle_incoming ::
  "lzvn_encoder_state \<Rightarrow> (lzvn_encoder_state \<Rightarrow> lzvn_encoder_state) \<Rightarrow> lzvn_match_info \<Rightarrow> (bool \<times> lzvn_encoder_state) result" where
  "handle_incoming st after_emit incoming =
     (let pending = ve_pending st in
      if m_M incoming = 0 then
        if ve_src_current st - ve_src_literal st \<ge> 400 then
          if m_M pending \<noteq> 0 then
            emitting (lzvn_emit_match st pending) (\<lambda>st'. after_emit (st'\<lparr>ve_pending := NO_MATCH\<rparr>))
          else emitting (lzvn_emit_literal st 271) after_emit
        else Inr (True, after_emit st)
      else if m_M pending = 0 then Inr (True, after_emit (st\<lparr>ve_pending := incoming\<rparr>))
      else if m_end pending \<le> m_begin incoming then
        emitting (lzvn_emit_match st pending) (\<lambda>st'. after_emit (st'\<lparr>ve_pending := incoming\<rparr>))
      else
        let best = (if m_K incoming > m_K pending then incoming else pending) in
        emitting (lzvn_emit_match (st\<lparr>ve_pending := best\<rparr>) best) (\<lambda>st'. after_emit (st'\<lparr>ve_pending := NO_MATCH\<rparr>)))"

definition updated_entry :: "int \<Rightarrow> 32 word \<Rightarrow> lzvn_encode_entry \<Rightarrow> lzvn_encode_entry" where
  "updated_entry i vi e =
     \<lparr>ent_indices = offset_to_s32 i # take 3 (ent_indices e), ent_values = vi # take 3 (ent_values e)\<rparr>"

definition set_entry :: "nat \<Rightarrow> lzvn_encode_entry \<Rightarrow> lzvn_encoder_state \<Rightarrow> lzvn_encoder_state" where
  "set_entry h e st = st\<lparr>ve_table := (ve_table st)(h := e)\<rparr>"

definition lzvn_encode_step :: "lzvn_encoder_state \<Rightarrow> (bool \<times> lzvn_encoder_state) result" where
  "lzvn_encode_step st =
     rbind (load4_at (ve_src st) (ve_src_current st)) (\<lambda>vi.
     let h = hash3i vi; e = ve_table st h;
         after_emit = set_entry h (updated_entry (ve_src_current st) vi e)
     in
     if ve_src_current st < ve_src_literal st then Inr (True, after_emit st)
     else rbind (incoming_match st e vi) (handle_incoming st after_emit))"

lemma lzvn_emit_current:
  "lzvn_emit_match st m = Inr (n, st') \<Longrightarrow> ve_src_current st' = ve_src_current st \<and> ve_src_current_end st' = ve_src_current_end st"
  "lzvn_emit_literal st k = Inr (n, st') \<Longrightarrow> ve_src_current st' = ve_src_current st \<and> ve_src_current_end st' = ve_src_current_end st"
  by (auto simp: lzvn_emit_match_def lzvn_emit_literal_def rbind_eq_Inr_iff split: if_splits)

definition same_position :: "lzvn_encoder_state \<Rightarrow> lzvn_encoder_state \<Rightarrow> bool" where
  "same_position st st' \<longleftrightarrow> ve_src_current st' = ve_src_current st \<and> ve_src_current_end st' = ve_src_current_end st"

lemma same_position_updates [simp]:
  "same_position st st"
  "same_position st (set_entry h e st') = same_position st st'"
  "same_position st (st'\<lparr>ve_pending := p\<rparr>) = same_position st st'"
  "same_position (st\<lparr>ve_pending := p\<rparr>) st' = same_position st st'"
  by (auto simp: same_position_def set_entry_def)

lemma lzvn_emit_position:
  "lzvn_emit_match st m = Inr (n, st') \<Longrightarrow> same_position st st'"
  "lzvn_emit_literal st k = Inr (n, st') \<Longrightarrow> same_position st st'"
  by (auto simp: same_position_def dest: lzvn_emit_current)

lemma emitting_position:
  "emitting (lzvn_emit_match st m) (\<lambda>st'. set_entry h e (st'\<lparr>ve_pending := p\<rparr>)) = Inr (b, st') \<Longrightarrow> same_position st st'"
  "emitting (lzvn_emit_literal st k) (set_entry h e) = Inr (b, st') \<Longrightarrow> same_position st st'"
  by (auto simp: emitting_def rbind_eq_Inr_iff dest!: lzvn_emit_position split: if_splits)

lemma handle_incoming_position:
  "handle_incoming st (set_entry h e) i = Inr (b, st') \<Longrightarrow> same_position st st'"
  unfolding handle_incoming_def Let_def
  by (auto split: if_splits dest: emitting_position)

lemma lzvn_encode_step_current:
  assumes "lzvn_encode_step st = Inr (b, st')"
  shows "ve_src_current st' = ve_src_current st \<and> ve_src_current_end st' = ve_src_current_end st"
proof -
  have "same_position st st'"
    using assms by (auto simp: lzvn_encode_step_def Let_def rbind_eq_Inr_iff dest: handle_incoming_position split: if_splits)
  then show ?thesis by (simp add: same_position_def)
qed

function lzvn_encode :: "lzvn_encoder_state \<Rightarrow> lzvn_encoder_state result" where
  "lzvn_encode st =
     (if ve_src_current st < ve_src_current_end st then
        rbind (lzvn_encode_step st) (\<lambda>(go, st').
          if go then lzvn_encode (st'\<lparr>ve_src_current := ve_src_current st' + 1\<rparr>) else Inr st')
      else Inr st)"
  by pat_completeness auto
termination
  by (relation "measure (\<lambda>st. nat (ve_src_current_end st - ve_src_current st))") (auto dest: lzvn_encode_step_current)

declare lzvn_encode.simps [simp del]

section \<open>Entry points\<close>

definition lzvn_encode_partial :: "string \<Rightarrow> nat \<Rightarrow> nat \<Rightarrow> string \<Rightarrow> nat \<Rightarrow> (nat \<times> nat \<times> string) result" where
  "lzvn_encode_partial dst dst_begin dst_size src src_size0 =
     (if dst_size < 8 then Inr (0, 0, dst)
      else let src_size = (if src_size0 > 0xffffffff then 0xffffffff else src_size0);
        st = \<lparr>ve_src = src, ve_src_begin = 0, ve_src_end = int src_size, ve_src_current = 0, ve_src_current_end = 0,
              ve_src_literal = 0, ve_dst = dst, ve_dp = dst_begin, ve_dst_begin = dst_begin,
              ve_dst_end = dst_begin + dst_size - 8, ve_pending = NO_MATCH, ve_d_prev = 0,
              ve_table = (\<lambda>u. \<lparr>ent_indices = [], ent_values = []\<rparr>)\<rparr> in
        rbind (if src_size \<ge> 8 then
                 rbind (lzvn_init_table (st\<lparr>ve_src_current_end := int src_size - 8\<rparr>)) lzvn_encode
               else Inr st) (\<lambda>st.
        rbind (lzvn_emit_literal st (ve_src_end st - ve_src_literal st)) (\<lambda>(_, st).
        rbind (lzvn_emit_end_of_stream (st\<lparr>ve_dst_end := dst_begin + dst_size\<rparr>)) (\<lambda>(_, st).
        Inr (ve_dp st - ve_dst_begin st, size_of_offset (ve_src_literal st), ve_dst st)))))"

definition lzvn_encode_buffer :: "string \<Rightarrow> nat \<Rightarrow> nat \<Rightarrow> string \<Rightarrow> nat \<Rightarrow> (nat \<times> string) result" where
  "lzvn_encode_buffer dst dst_begin dst_size src src_size =
     rbind (lzvn_encode_partial dst dst_begin dst_size src src_size) (\<lambda>(dst_used, src_used, d).
       Inr (if src_used \<noteq> src_size then (0, d) else (dst_used, d)))"

end
