(* ===== verification/LZFSE_Encode.thy ===== *)
theory LZFSE_Encode
  imports LZFSE_Tables LZVN_Encode
begin

text \<open>
  The LZFSE encoder, \<open>lzfse_encode_base.c\<close>: the compressed block header, the back end that turns the
  collected literals and L, M, D values into a block, the splitting of a match into L, M, D values,
  and the front end that searches matches through the history table.

  The arrays \<open>l_values\<close>, \<open>m_values\<close>, \<open>d_values\<close> and \<open>literals\<close> of the state are the lists of their used
  entries, so \<open>n_matches\<close> and \<open>n_literals\<close> are their lengths.
\<close>

unbundle bit_operations_syntax

section \<open>Block headers\<close>

definition setField :: "nat \<Rightarrow> nat \<Rightarrow> nat \<Rightarrow> nat result" where
  "setField v offset nbits =
     rbind (assert_that (offset + nbits < 64 \<and> nbits \<le> 32)) (\<lambda>_.
     rbind (assert_that (nbits = 32 \<or> v < 2 ^ nbits)) (\<lambda>_.
     Inr (v * 2 ^ offset mod 2 ^ 64)))"

text \<open>The bitwise or of several fields.\<close>

fun setFields :: "(nat \<times> nat \<times> nat) list \<Rightarrow> nat result" where
  "setFields [] = Inr 0"
| "setFields ((v, offset, nbits) # fs) =
     rbind (setField v offset nbits) (\<lambda>x. rbind (setFields fs) (\<lambda>y. Inr (x OR y)))"

text \<open>\<open>7 + bits\<close> converted to \<open>uint32_t\<close>.\<close>

definition bits_field :: "int \<Rightarrow> nat" where
  "bits_field bits = nat ((7 + bits) mod 2 ^ 32)"

definition lzfse_encode_v1_state :: "string \<Rightarrow> nat \<Rightarrow> lzfse_header_v1 \<Rightarrow> string result" where
  "lzfse_encode_v1_state buf p h =
     rbind (setFields [(h1_n_literals h, 0, 20), (h1_n_literal_payload_bytes h, 20, 20), (h1_n_matches h, 40, 20),
                       (bits_field (h1_literal_bits h), 60, 3)]) (\<lambda>v0.
     rbind (setFields [(h1_literal_state h ! 0, 0, 10), (h1_literal_state h ! 1, 10, 10), (h1_literal_state h ! 2, 20, 10),
                       (h1_literal_state h ! 3, 30, 10), (h1_n_lmd_payload_bytes h, 40, 20),
                       (bits_field (h1_lmd_bits h), 60, 3)]) (\<lambda>v1.
     rbind (setFields [(h1_l_state h, 32, 10), (h1_m_state h, 42, 10), (h1_d_state h, 52, 10)]) (\<lambda>v2.
     rbind (store4 buf p LZFSE_COMPRESSEDV2_BLOCK_MAGIC) (\<lambda>buf.
     rbind (store4 buf (p + 4) (h1_n_raw_bytes h)) (\<lambda>buf.
     rbind (store8 buf (p + 8) v0) (\<lambda>buf.
     rbind (store8 buf (p + 16) v1) (\<lambda>buf.
     rbind (load8 buf (p + 24)) (\<lambda>size. store8 buf (p + 24) (size OR v2)))))))))"

definition lzfse_encode_v1_freq_value :: "nat \<Rightarrow> nat \<times> nat" where
  "lzfse_encode_v1_freq_value value =
     (if value = 0 then (0, 2) else if value = 1 then (2, 2) else if value = 2 then (1, 3) else if value = 3 then (5, 3)
      else if value = 4 then (3, 5) else if value = 5 then (11, 5) else if value = 6 then (19, 5) else if value = 7 then (27, 5)
      else if value < 24 then (7 + (value - 8) * 16, 8)
      else ((value - 24) * 16 + 15, 14))"

text \<open>\<open>while (accum_nbits >= 8)\<close>: the full bytes of the accumulator.\<close>

function store_bytes_of :: "string \<Rightarrow> nat \<Rightarrow> nat \<Rightarrow> nat \<Rightarrow> (string \<times> nat \<times> nat \<times> nat) result" where
  "store_bytes_of buf p acc nb =
     (if nb \<ge> 8 then rbind (store1 buf p (acc mod 256)) (\<lambda>buf'. store_bytes_of buf' (p + 1) (acc div 256) (nb - 8))
      else Inr (buf, p, acc, nb))"
  by pat_completeness auto
termination by (relation "measure (\<lambda>(buf, p, acc, nb). nb)") auto

declare store_bytes_of.simps [simp del]

fun store_freqs :: "string \<Rightarrow> nat \<Rightarrow> nat \<Rightarrow> nat \<Rightarrow> nat list \<Rightarrow> (string \<times> nat \<times> nat \<times> nat) result" where
  "store_freqs buf p acc nb [] = Inr (buf, p, acc, nb)"
| "store_freqs buf p acc nb (f # fs) =
     (case lzfse_encode_v1_freq_value f of (bits, nbits) \<Rightarrow>
        rbind (assert_that (bits < 2 ^ nbits)) (\<lambda>_.
        rbind (store_bytes_of buf p ((acc OR (bits * 2 ^ nb)) mod 2 ^ 32) (nb + nbits)) (\<lambda>(buf', p', acc', nb').
        store_freqs buf' p' acc' nb' fs)))"

definition lzfse_encode_v1_freq_table :: "string \<Rightarrow> nat \<Rightarrow> lzfse_header_v1 \<Rightarrow> (nat \<times> string) result" where
  "lzfse_encode_v1_freq_table buf p h =
     rbind (store_freqs buf (p + 32) 0 0 (h1_l_freq h @ h1_m_freq h @ h1_d_freq h @ h1_literal_freq h)) (\<lambda>(buf, q, acc, nb).
     rbind (if nb > 0 then rbind (store1 buf q (acc mod 256)) (\<lambda>buf. Inr (buf, q + 1)) else Inr (buf, q)) (\<lambda>(buf, q).
     let header_size = q - p in
     rbind (setField header_size 0 32) (\<lambda>v2.
     rbind (store8 buf (p + 8) 0) (\<lambda>buf.
     rbind (store8 buf (p + 16) 0) (\<lambda>buf.
     rbind (store8 buf (p + 24) v2) (\<lambda>buf. Inr (header_size, buf)))))))"

section \<open>The encoder state\<close>

record lzfse_match =
  lm_pos :: int
  lm_ref :: int
  lm_length :: nat

definition LZFSE_NO_MATCH :: lzfse_match where
  "LZFSE_NO_MATCH = \<lparr>lm_pos = 0, lm_ref = 0, lm_length = 0\<rparr>"

record lzfse_history_set =
  hs_pos :: "int list"
  hs_value :: "32 word list"

text \<open>\<open>le_base\<close> is where \<open>src\<close> points within the source buffer.\<close>

record lzfse_encoder_state =
  le_src :: string
  le_base :: int
  le_src_end :: int
  le_src_literal :: int
  le_src_encode_i :: int
  le_src_encode_end :: int
  le_dst :: string
  le_dp :: nat
  le_dst_end :: nat
  le_pending :: lzfse_match
  le_l_values :: "nat list"
  le_m_values :: "nat list"
  le_d_values :: "nat list"
  le_literals :: string
  le_history :: "nat \<Rightarrow> lzfse_history_set"

section \<open>The back end\<close>

text \<open>\<open>Encode previous distance\<close> and its reversal.\<close>

fun encode_d_prev :: "nat \<Rightarrow> nat list \<Rightarrow> nat list" where
  "encode_d_prev d_prev [] = []"
| "encode_d_prev d_prev (d # ds) = (if d = d_prev then 0 # encode_d_prev d_prev ds else d # encode_d_prev d ds)"

fun revert_d_prev :: "nat \<Rightarrow> nat list \<Rightarrow> nat list" where
  "revert_d_prev d_prev [] = []"
| "revert_d_prev d_prev (d # ds) = (if d = 0 then d_prev # revert_d_prev d_prev ds else d # revert_d_prev d ds)"

text \<open>Occurrence tables: \<open>occ[base_from_value(v)]++\<close> for every value.\<close>

fun occurrences :: "(nat \<Rightarrow> nat result) \<Rightarrow> nat list \<Rightarrow> nat list \<Rightarrow> nat list result" where
  "occurrences base occ [] = Inr occ"
| "occurrences base occ (v # vs) =
     rbind (base v) (\<lambda>i. if i < length occ then occurrences base (occ[i := occ ! i + 1]) vs else Inl Undefined)"

definition byte_value :: "char \<Rightarrow> nat" where
  "byte_value c = of_char c"

text \<open>
  The four interleaved literal streams, encoded from the last group of four to the first; \<open>i\<close> is the
  number of groups left.
\<close>

fun encode_literals ::
  "fse_encoder_entry option list \<Rightarrow> string \<Rightarrow> nat \<Rightarrow> nat \<Rightarrow> nat \<times> nat \<times> nat \<times> nat \<Rightarrow> fse_stream \<Rightarrow> string \<Rightarrow> nat \<Rightarrow>
   ((nat \<times> nat \<times> nat \<times> nat) \<times> fse_stream \<times> string \<times> nat) out result" where
  "encode_literals t lits dst_end 0 states out buf p = Inr (Out (states, out, buf, p))"
| "encode_literals t lits dst_end (Suc i) states out buf p =
     (if p + 16 > dst_end then Inr (OUT_FULL buf)
      else case states of (state0, state1, state2, state3) \<Rightarrow>
        rbind (fse_encode state3 t out (byte_value (lits ! (4 * i + 3)))) (\<lambda>(state3, out).
        rbind (fse_encode state2 t out (byte_value (lits ! (4 * i + 2)))) (\<lambda>(state2, out).
        rbind (fse_encode state1 t out (byte_value (lits ! (4 * i + 1)))) (\<lambda>(state1, out).
        rbind (fse_encode state0 t out (byte_value (lits ! (4 * i)))) (\<lambda>(state0, out).
        rbind (fse_out_flush out buf p) (\<lambda>(out, buf, p).
        encode_literals t lits dst_end i (state0, state1, state2, state3) out buf p))))))"

text \<open>One value: its extra bits, then its symbol.\<close>

definition encode_value ::
  "(nat \<Rightarrow> nat result) \<Rightarrow> nat list \<Rightarrow> int list \<Rightarrow> fse_encoder_entry option list \<Rightarrow> nat \<Rightarrow> nat \<Rightarrow> fse_stream \<Rightarrow>
   (nat \<times> fse_stream) result" where
  "encode_value base extra_bits base_value t state v out =
     rbind (base v) (\<lambda>symbol.
     rbind (table_at extra_bits symbol) (\<lambda>nbits.
     rbind (table_at base_value symbol) (\<lambda>b.
     rbind (fse_out_push out nbits (nat (int v - b))) (\<lambda>out.
     fse_encode state t out symbol))))"

fun encode_lmds ::
  "fse_encoder_entry option list \<Rightarrow> fse_encoder_entry option list \<Rightarrow> fse_encoder_entry option list \<Rightarrow> nat \<Rightarrow>
   (nat \<times> nat \<times> nat) list \<Rightarrow> nat \<times> nat \<times> nat \<Rightarrow> fse_stream \<Rightarrow> string \<Rightarrow> nat \<Rightarrow>
   ((nat \<times> nat \<times> nat) \<times> fse_stream \<times> string \<times> nat) out result" where
  "encode_lmds lt mt dt dst_end [] states out buf p = Inr (Out (states, out, buf, p))"
| "encode_lmds lt mt dt dst_end ((l, m, d) # lmds) states out buf p =
     (if p + 16 > dst_end then Inr (OUT_FULL buf)
      else case states of (l_state, m_state, d_state) \<Rightarrow>
        rbind (encode_value d_base_from_value d_extra_bits d_base_value dt d_state d out) (\<lambda>(d_state, out).
        rbind (encode_value m_base_from_value m_extra_bits m_base_value mt m_state m out) (\<lambda>(m_state, out).
        rbind (encode_value l_base_from_value l_extra_bits l_base_value lt l_state l out) (\<lambda>(l_state, out).
        rbind (fse_out_flush out buf p) (\<lambda>(out, buf, p).
        encode_lmds lt mt dt dst_end lmds (l_state, m_state, d_state) out buf p)))))"

text \<open>The literals are padded with zero bytes to a multiple of four; the array has 40000 entries.\<close>

definition pad_literals :: "string \<Rightarrow> string" where
  "pad_literals lits = lits @ replicate ((4 - length lits mod 4) mod 4) (char_of (0 :: nat))"

definition encode_block :: "lzfse_encoder_state \<Rightarrow> string \<Rightarrow> nat list \<Rightarrow> (string \<times> nat) out result" where
  "encode_block s lits ds =
     (let ls = le_l_values s; ms = le_m_values s; p = le_dp s; e = le_dst_end s in
      rbind (occurrences l_base_from_value (replicate 20 0) ls) (\<lambda>l_occ.
      rbind (occurrences m_base_from_value (replicate 20 0) ms) (\<lambda>m_occ.
      rbind (occurrences d_base_from_value (replicate 64 0) ds) (\<lambda>d_occ.
      rbind (occurrences Inr (replicate 256 0) (map byte_value lits)) (\<lambda>literal_occ.
      if p + 752 > e then Inr (OUT_FULL (le_dst s))
      else
      rbind (fse_normalize_freq 64 l_occ) (\<lambda>l_freq.
      rbind (fse_normalize_freq 64 m_occ) (\<lambda>m_freq.
      rbind (fse_normalize_freq 256 d_occ) (\<lambda>d_freq.
      rbind (fse_normalize_freq 1024 literal_occ) (\<lambda>literal_freq.
      let h = \<lparr>h1_magic = LZFSE_COMPRESSEDV1_BLOCK_MAGIC, h1_n_raw_bytes = (sum_list ms + sum_list ls) mod 2 ^ 32,
               h1_n_payload_bytes = 0, h1_n_literals = length lits, h1_n_matches = length ls,
               h1_n_literal_payload_bytes = 0, h1_n_lmd_payload_bytes = 0, h1_literal_bits = 0,
               h1_literal_state = [0, 0, 0, 0], h1_lmd_bits = 0, h1_l_state = 0, h1_m_state = 0, h1_d_state = 0,
               h1_l_freq = l_freq, h1_m_freq = m_freq, h1_d_freq = d_freq, h1_literal_freq = literal_freq\<rparr> in
      rbind (lzfse_encode_v1_freq_table (le_dst s) p h) (\<lambda>(header_size, buf).
      let p1 = p + header_size in
      obind (encode_literals (fse_init_encoder_table 1024 literal_freq) lits e (length lits div 4) (0, 0, 0, 0) fse_out_init buf p1)
        (\<lambda>((state0, state1, state2, state3), out, buf, q).
      rbind (fse_out_finish out buf q) (\<lambda>(out, buf, p2).
      let h = h\<lparr>h1_literal_bits := accum_nbits out, h1_n_literal_payload_bytes := p2 - p1,
                h1_literal_state := [state0, state1, state2, state3]\<rparr> in
      if p2 + 8 > e then Inr (OUT_FULL buf)
      else
      rbind (store8 buf p2 0) (\<lambda>buf.
      obind (encode_lmds (fse_init_encoder_table 64 l_freq) (fse_init_encoder_table 64 m_freq)
               (fse_init_encoder_table 256 d_freq) e (rev (zip ls (zip ms ds))) (0, 0, 0) fse_out_init buf (p2 + 8))
        (\<lambda>((l_state, m_state, d_state), out, buf, q).
      rbind (fse_out_finish out buf q) (\<lambda>(out, buf, p3).
      let h = h\<lparr>h1_n_lmd_payload_bytes := p3 - p2, h1_lmd_bits := accum_nbits out, h1_l_state := l_state,
                h1_m_state := m_state, h1_d_state := d_state\<rparr> in
      rbind (lzfse_encode_v1_state buf p h) (\<lambda>buf. Inr (Out (buf, p3))))))))))))))))))"

text \<open>The result is the status, \<open>True\<close> for \<open>LZFSE_STATUS_OK\<close>, with the state.\<close>

definition lzfse_encode_matches :: "lzfse_encoder_state \<Rightarrow> (bool \<times> lzfse_encoder_state) result" where
  "lzfse_encode_matches s =
     (if le_literals s = [] \<and> le_l_values s = [] then Inr (True, s)
      else if length (pad_literals (le_literals s)) > 40000 then Inl Undefined
      else let ds = encode_d_prev 0 (le_d_values s) in
        rbind (encode_block s (pad_literals (le_literals s)) ds) (\<lambda>r.
        Inr (case r of
            OUT_FULL buf \<Rightarrow> (False, s\<lparr>le_dst := buf, le_d_values := revert_d_prev 0 ds\<rparr>)
          | Out (buf, p) \<Rightarrow> (True, s\<lparr>le_dst := buf, le_dp := p, le_literals := [], le_l_values := [], le_m_values := [], le_d_values := []\<rparr>))))"

text \<open>Pushing L, M, D values; \<open>None\<close> is \<open>LZFSE_STATUS_DST_FULL\<close> with the state not modified.\<close>

definition lzfse_push_lmd :: "lzfse_encoder_state \<Rightarrow> nat \<Rightarrow> nat \<Rightarrow> nat \<Rightarrow> lzfse_encoder_state option result" where
  "lzfse_push_lmd s L M D =
     (if length (le_l_values s) + 1 + 8 > 10000 then Inr None
      else if length (le_literals s) + L + 16 > 40000 then Inr None
      else if le_base s + le_src_literal s < 0 then Inl Undefined
      else let p = nat (le_base s + le_src_literal s) in
        rbind (if le_src_literal s + int L + 16 > le_src_end s then load_bytes L (le_src s) p
               else load_bytes (16 * max 1 ((L + 15) div 16)) (le_src s) p) (\<lambda>bs.
        Inr (Some (s\<lparr>le_l_values := le_l_values s @ [L], le_m_values := le_m_values s @ [M], le_d_values := le_d_values s @ [D],
                     le_literals := le_literals s @ take L bs, le_src_literal := le_src_literal s + int (L + M)\<rparr>))))"

function push_split_L :: "lzfse_encoder_state \<Rightarrow> nat \<Rightarrow> (lzfse_encoder_state \<times> nat) option result" where
  "push_split_L s L =
     (if L > 315 then
        rbind (lzfse_push_lmd s 315 0 1) (\<lambda>r. case r of None \<Rightarrow> Inr None | Some s' \<Rightarrow> push_split_L s' (L - 315))
      else Inr (Some (s, L)))"
  by pat_completeness auto
termination by (relation "measure snd") auto

function push_split_M :: "lzfse_encoder_state \<Rightarrow> nat \<Rightarrow> nat \<Rightarrow> nat \<Rightarrow> (lzfse_encoder_state \<times> nat \<times> nat) option result" where
  "push_split_M s L M D =
     (if M > 2359 then
        rbind (lzfse_push_lmd s L 2359 D) (\<lambda>r. case r of None \<Rightarrow> Inr None | Some s' \<Rightarrow> push_split_M s' 0 (M - 2359) D)
      else Inr (Some (s, L, M)))"
  by pat_completeness auto
termination by (relation "measure (\<lambda>(s, L, M, D). M)") auto

declare push_split_L.simps [simp del] push_split_M.simps [simp del]

definition uint32_of :: "int \<Rightarrow> nat" where
  "uint32_of x = nat (x mod 2 ^ 32)"

definition lzfse_push_match :: "lzfse_encoder_state \<Rightarrow> lzfse_match \<Rightarrow> lzfse_encoder_state option result" where
  "lzfse_push_match s m =
     (let D = uint32_of (lm_pos m - lm_ref m) in
      rbind (push_split_L s (uint32_of (lm_pos m - le_src_literal s))) (\<lambda>r. case r of None \<Rightarrow> Inr None | Some (s, L) \<Rightarrow>
      rbind (push_split_M s L (lm_length m) D) (\<lambda>r. case r of None \<Rightarrow> Inr None | Some (s, L, M) \<Rightarrow>
      if L > 0 \<or> M > 0 then lzfse_push_lmd s L M D else Inr (Some s))))"

definition lzfse_backend_match :: "lzfse_encoder_state \<Rightarrow> lzfse_match \<Rightarrow> (bool \<times> lzfse_encoder_state) result" where
  "lzfse_backend_match s m =
     rbind (lzfse_push_match s m) (\<lambda>r. case r of Some s' \<Rightarrow> Inr (True, s')
     | None \<Rightarrow> rbind (lzfse_encode_matches s) (\<lambda>(ok, s').
         if \<not> ok then Inr (False, s')
         else rbind (lzfse_push_match s' m) (\<lambda>r. Inr (case r of None \<Rightarrow> (False, s') | Some s'' \<Rightarrow> (True, s'')))))"

definition lzfse_backend_literals :: "lzfse_encoder_state \<Rightarrow> int \<Rightarrow> (bool \<times> lzfse_encoder_state) result" where
  "lzfse_backend_literals s L =
     (let pos = le_src_literal s + L in lzfse_backend_match s \<lparr>lm_pos = pos, lm_ref = pos - 1, lm_length = 0\<rparr>)"

definition lzfse_backend_end_of_stream :: "lzfse_encoder_state \<Rightarrow> (bool \<times> lzfse_encoder_state) result" where
  "lzfse_backend_end_of_stream s =
     rbind (lzfse_encode_matches s) (\<lambda>(ok, s).
     if \<not> ok then Inr (False, s)
     else if le_dp s + 4 > le_dst_end s then Inr (False, s)
     else rbind (store4 (le_dst s) (le_dp s) LZFSE_ENDOFSTREAM_BLOCK_MAGIC) (\<lambda>buf.
       Inr (True, s\<lparr>le_dst := buf, le_dp := le_dp s + 4\<rparr>)))"

section \<open>State management\<close>

definition lzfse_encode_init :: "lzfse_encoder_state \<Rightarrow> lzfse_encoder_state" where
  "lzfse_encode_init s =
     (let line = \<lparr>hs_pos = replicate 4 (- 4 * 262139), hs_value = replicate 4 0\<rparr> in
      s\<lparr>le_history := (\<lambda>i. if i < 2 ^ 14 then line else le_history s i), le_pending := LZFSE_NO_MATCH, le_src_literal := 0\<rparr>)"

definition lzfse_encode_translate :: "lzfse_encoder_state \<Rightarrow> int \<Rightarrow> lzfse_encoder_state result" where
  "lzfse_encode_translate s delta =
     rbind (assert_that (delta \<ge> 0)) (\<lambda>_.
     if delta = 0 then Inr s
     else Inr (s\<lparr>le_base := le_base s + delta, le_src_end := le_src_end s - delta,
       le_src_encode_i := le_src_encode_i s - delta, le_src_encode_end := le_src_encode_end s - delta,
       le_src_literal := le_src_literal s - delta,
       le_pending := (le_pending s)\<lparr>lm_pos := lm_pos (le_pending s) - delta, lm_ref := lm_ref (le_pending s) - delta\<rparr>,
       le_history := (\<lambda>i. (le_history s i)\<lparr>hs_pos := map (\<lambda>p. let q = p - delta in if q < - 4 * 262139 then - 4 * 262139 else q) (hs_pos (le_history s i))\<rparr>)\<rparr>))"

section \<open>The front end\<close>

definition hashX :: "32 word \<Rightarrow> nat" where
  "hashX x = unat (drop_bit 18 (x * 2654435761))"

definition load8_at :: "string \<Rightarrow> int \<Rightarrow> 64 word result" where
  "load8_at src i = (if i < 0 then Inl Undefined else rbind (load8 src (nat i)) (\<lambda>v. Inr (word_of_nat v)))"

definition builtin_ctzll :: "64 word \<Rightarrow> nat" where
  "builtin_ctzll x = length (takeWhile (\<lambda>i. \<not> bit x i) [0..<64])"

text \<open>\<open>while (length < maxLength)\<close>\<close>

function match_length :: "string \<Rightarrow> int \<Rightarrow> int \<Rightarrow> nat \<Rightarrow> nat \<Rightarrow> nat result" where
  "match_length src ref pos maxLength n =
     (if n < maxLength then
        rbind (load8_at src (ref + int n)) (\<lambda>a. rbind (load8_at src (pos + int n)) (\<lambda>b.
          let d = a XOR b in
          if d = 0 then match_length src ref pos maxLength (n + 8) else Inr (n + builtin_ctzll d div 8)))
      else Inr n)"
  by pat_completeness auto
termination by (relation "measure (\<lambda>(src, ref, pos, maxLength, n). maxLength - n)") auto

declare match_length.simps [simp del]

definition check_history :: "lzfse_encoder_state \<Rightarrow> int \<Rightarrow> 32 word \<Rightarrow> lzfse_history_set \<Rightarrow> nat \<Rightarrow> lzfse_match \<Rightarrow> lzfse_match result" where
  "check_history s pos x h k incoming =
     (if hs_value h ! k XOR x \<noteq> 0 then Inr incoming
      else let ref = hs_pos h ! k in
        if \<not> fits_int (ref + 262139) then Inl Undefined
        else if ref + 262139 < pos then Inr incoming
        else rbind (match_length (le_src s) (le_base s + ref) (le_base s + pos) (uint32_of (le_src_end s - pos - 8)) 4) (\<lambda>n.
          Inr (if n > lm_length incoming then incoming\<lparr>lm_length := n, lm_ref := ref\<rparr> else incoming)))"

function lzfse_expand_backward :: "lzfse_encoder_state \<Rightarrow> int \<Rightarrow> int \<Rightarrow> (int \<times> int) result" where
  "lzfse_expand_backward s pos ref =
     (if pos > le_src_literal s \<and> ref > 0 then
        rbind (byte_at (le_src s) (le_base s + ref - 1)) (\<lambda>a. rbind (byte_at (le_src s) (le_base s + pos - 1)) (\<lambda>b.
          if a = b then lzfse_expand_backward s (pos - 1) (ref - 1) else Inr (pos, ref)))
      else Inr (pos, ref))"
  by pat_completeness auto
termination by (relation "measure (\<lambda>(s, pos, ref). nat ref)") auto

declare lzfse_expand_backward.simps [simp del]

text \<open>The best match at \<open>pos\<close>, of length zero when there is none, limited and expanded backwards.\<close>

definition search_match :: "lzfse_encoder_state \<Rightarrow> int \<Rightarrow> 32 word \<Rightarrow> lzfse_history_set \<Rightarrow> lzfse_match result" where
  "search_match s pos x h =
     rbind (check_history s pos x h 0 \<lparr>lm_pos = pos, lm_ref = 0, lm_length = 0\<rparr>) (\<lambda>i.
     rbind (check_history s pos x h 1 i) (\<lambda>i. rbind (check_history s pos x h 2 i) (\<lambda>i. rbind (check_history s pos x h 3 i) (\<lambda>i.
     if lm_length i = 0 then Inr i
     else let i = (if lm_length i > 100 * 2359 then i\<lparr>lm_length := 100 * 2359\<rparr> else i) in
       rbind (lzfse_expand_backward s (lm_pos i) (lm_ref i)) (\<lambda>(p, r).
       Inr \<lparr>lm_pos = p, lm_ref = r, lm_length = (lm_length i + nat (pos - p)) mod 2 ^ 32\<rparr>)))))"

text \<open>A backend call: on failure the loop ends with \<open>ok = 0\<close>, otherwise the pending match is set.\<close>

definition backend ::
  "(bool \<times> lzfse_encoder_state) result \<Rightarrow> (lzfse_encoder_state \<Rightarrow> lzfse_encoder_state) \<Rightarrow> (bool \<times> lzfse_encoder_state) result" where
  "backend m f = rbind m (\<lambda>(ok, s). Inr (ok, if ok then f s else s))"

definition handle_match :: "lzfse_encoder_state \<Rightarrow> int \<Rightarrow> lzfse_match \<Rightarrow> (bool \<times> lzfse_encoder_state) result" where
  "handle_match s pos incoming =
     (let pending = le_pending s in
      if lm_length incoming = 0 then
        if pos - le_src_literal s > 8 * 315 then
          if lm_length pending > 0 then backend (lzfse_backend_match s pending) (\<lambda>s. s\<lparr>le_pending := LZFSE_NO_MATCH\<rparr>)
          else lzfse_backend_literals s 315
        else Inr (True, s)
      else if lm_length incoming \<ge> 40 then backend (lzfse_backend_match s incoming) (\<lambda>s. s\<lparr>le_pending := LZFSE_NO_MATCH\<rparr>)
      else if lm_length pending = 0 then Inr (True, s\<lparr>le_pending := incoming\<rparr>)
      else if lm_pos pending + int (lm_length pending) \<le> lm_pos incoming then
        backend (lzfse_backend_match s pending) (\<lambda>s. s\<lparr>le_pending := incoming\<rparr>)
      else if lm_length incoming > lm_length pending then
        backend (lzfse_backend_match s incoming) (\<lambda>s. s\<lparr>le_pending := LZFSE_NO_MATCH\<rparr>)
      else backend (lzfse_backend_match s pending) (\<lambda>s. s\<lparr>le_pending := LZFSE_NO_MATCH\<rparr>))"

definition lzfse_encode_step :: "lzfse_encoder_state \<Rightarrow> (bool \<times> lzfse_encoder_state) result" where
  "lzfse_encode_step s =
     (let pos = le_src_encode_i s in
      rbind (load4_at (le_src s) (le_base s + pos)) (\<lambda>x.
      let h = le_history s (hashX x);
          newH = \<lparr>hs_pos = offset_to_s32 pos # take 3 (hs_pos h), hs_value = x # take 3 (hs_value h)\<rparr> in
      rbind (if pos < le_src_literal s then Inr (True, s)
             else rbind (search_match s pos x h) (handle_match s pos)) (\<lambda>(ok, s).
      Inr (ok, if ok then s\<lparr>le_history := (le_history s)(hashX x := newH), le_src_encode_i := le_src_encode_i s + 1\<rparr> else s))))"

text \<open>
  The loop runs from \<open>src_encode_i\<close> to \<open>src_encode_end\<close>, one position per iteration; the first argument
  is the number of positions.
\<close>

fun encode_positions :: "nat \<Rightarrow> lzfse_encoder_state \<Rightarrow> (bool \<times> lzfse_encoder_state) result" where
  "encode_positions 0 s = Inr (True, s)"
| "encode_positions (Suc n) s =
     rbind (lzfse_encode_step s) (\<lambda>(ok, s). if ok then encode_positions n s else Inr (False, s))"

definition lzfse_encode_base :: "lzfse_encoder_state \<Rightarrow> (bool \<times> lzfse_encoder_state) result" where
  "lzfse_encode_base s =
     (let s = s\<lparr>le_src_encode_end := le_src_end s - 8\<rparr> in
      encode_positions (nat (le_src_encode_end s - le_src_encode_i s)) s)"

definition lzfse_encode_finish :: "lzfse_encoder_state \<Rightarrow> (bool \<times> lzfse_encoder_state) result" where
  "lzfse_encode_finish s =
     rbind (if lm_length (le_pending s) > 0
            then backend (lzfse_backend_match s (le_pending s)) (\<lambda>s. s\<lparr>le_pending := LZFSE_NO_MATCH\<rparr>)
            else Inr (True, s)) (\<lambda>(ok, s).
     if \<not> ok then Inr (False, s)
     else let L = le_src_end s - le_src_literal s in
       rbind (if L > 0 then lzfse_backend_literals s L else Inr (True, s)) (\<lambda>(ok, s).
       if \<not> ok then Inr (False, s) else lzfse_backend_end_of_stream s))"

end
