(* ===== verification/LZFSE_Decode.thy ===== *)
theory LZFSE_Decode
  imports LZFSE_Tables LZVN_Decode
begin

text \<open>
  The LZFSE decoder, \<open>lzfse_decode_base.c\<close>: reading block headers, the literals and the L, M, D values
  of a compressed block, and the loop over the blocks of a stream with its uncompressed, LZVN and
  LZFSE blocks.
\<close>

unbundle bit_operations_syntax

section \<open>Block headers\<close>

definition lzfse_freq_nbits_table :: "nat list" where
  "lzfse_freq_nbits_table =
     [2, 3, 2, 5, 2, 3, 2, 8, 2, 3, 2, 5, 2, 3, 2, 14,
      2, 3, 2, 5, 2, 3, 2, 8, 2, 3, 2, 5, 2, 3, 2, 14]"

text \<open>The entries \<open>-1\<close> of the source, which are not used, are zero.\<close>

definition lzfse_freq_value_table :: "nat list" where
  "lzfse_freq_value_table =
     [0, 2, 1, 4, 0, 3, 1, 0, 0, 2, 1, 5, 0, 3, 1, 0,
      0, 2, 1, 6, 0, 3, 1, 0, 0, 2, 1, 7, 0, 3, 1, 0]"

definition lzfse_decode_v1_freq_value :: "nat \<Rightarrow> nat \<times> nat" where
  "lzfse_decode_v1_freq_value bits =
     (let b = bits mod 32; n = lzfse_freq_nbits_table ! b in
      (if n = 8 then 8 + bits div 16 mod 16
       else if n = 14 then 24 + bits div 16 mod 1024
       else lzfse_freq_value_table ! b, n))"

definition get_field :: "nat \<Rightarrow> nat \<Rightarrow> nat \<Rightarrow> nat" where
  "get_field v offset nbits = v div 2 ^ offset mod 2 ^ nbits"

definition lzfse_decode_v2_header_size :: "string \<Rightarrow> nat \<Rightarrow> nat result" where
  "lzfse_decode_v2_header_size buf p = rbind (load8 buf (p + 24)) (\<lambda>v. Inr (get_field v 0 32))"

text \<open>\<open>while (src < src_end && accum_nbits + 8 <= 32)\<close>\<close>

function refill :: "string \<Rightarrow> nat \<Rightarrow> nat \<Rightarrow> nat \<Rightarrow> nat \<Rightarrow> (nat \<times> nat \<times> nat) result" where
  "refill buf src_end p acc nb =
     (if p < src_end \<and> nb + 8 \<le> 32 then
        rbind (load1 buf p) (\<lambda>b. refill buf src_end (p + 1) (acc OR (b * 2 ^ nb)) (nb + 8))
      else Inr (p, acc, nb))"
  by pat_completeness auto
termination by (relation "measure (\<lambda>(buf, src_end, p, acc, nb). src_end - p)") auto

declare refill.simps [simp del]

text \<open>The frequencies of the tables in their order; \<open>None\<close> is the return value \<open>-1\<close>.\<close>

fun decode_freqs :: "string \<Rightarrow> nat \<Rightarrow> nat \<Rightarrow> nat \<Rightarrow> nat \<Rightarrow> nat \<Rightarrow> (nat list \<times> nat \<times> nat) option result" where
  "decode_freqs buf src_end 0 p acc nb = Inr (Some ([], p, nb))"
| "decode_freqs buf src_end (Suc n) p acc nb =
     rbind (refill buf src_end p acc nb) (\<lambda>(p, acc, nb).
       case lzfse_decode_v1_freq_value acc of (value, nbits) \<Rightarrow>
         if nbits > nb then Inr None
         else rbind (decode_freqs buf src_end n p (acc div 2 ^ nbits) (nb - nbits)) (\<lambda>r.
           Inr (map_option (\<lambda>(fs, rest). (value # fs, rest)) r)))"

definition freq_tables :: "lzfse_header_v1 \<Rightarrow> nat list \<Rightarrow> lzfse_header_v1" where
  "freq_tables h fs =
     h\<lparr>h1_l_freq := take 20 fs, h1_m_freq := take 20 (drop 20 fs), h1_d_freq := take 64 (drop 40 fs),
       h1_literal_freq := take 256 (drop 104 fs)\<rparr>"

definition lzfse_decode_v1 :: "string \<Rightarrow> nat \<Rightarrow> lzfse_header_v1 option result" where
  "lzfse_decode_v1 buf p =
     rbind (load8 buf (p + 8)) (\<lambda>v0. rbind (load8 buf (p + 16)) (\<lambda>v1. rbind (load8 buf (p + 24)) (\<lambda>v2.
     rbind (load4 buf (p + 4)) (\<lambda>n_raw_bytes.
     let n_literal_payload_bytes = get_field v0 20 20; n_lmd_payload_bytes = get_field v1 40 20;
         h = \<lparr>h1_magic = LZFSE_COMPRESSEDV1_BLOCK_MAGIC, h1_n_raw_bytes = n_raw_bytes,
              h1_n_payload_bytes = n_literal_payload_bytes + n_lmd_payload_bytes,
              h1_n_literals = get_field v0 0 20, h1_n_matches = get_field v0 40 20,
              h1_n_literal_payload_bytes = n_literal_payload_bytes, h1_n_lmd_payload_bytes = n_lmd_payload_bytes,
              h1_literal_bits = int (get_field v0 60 3) - 7,
              h1_literal_state = [get_field v1 0 10, get_field v1 10 10, get_field v1 20 10, get_field v1 30 10],
              h1_lmd_bits = int (get_field v1 60 3) - 7,
              h1_l_state = get_field v2 32 10, h1_m_state = get_field v2 42 10, h1_d_state = get_field v2 52 10,
              h1_l_freq = replicate 20 0, h1_m_freq = replicate 20 0, h1_d_freq = replicate 64 0,
              h1_literal_freq = replicate 256 0\<rparr>;
         src_end = p + get_field v2 0 32 in
     if src_end = p + 32 then Inr (Some h)
     else rbind (decode_freqs buf src_end 360 (p + 32) 0 0) (\<lambda>r.
       Inr (case r of None \<Rightarrow> None
            | Some (fs, q, nb) \<Rightarrow> if nb \<ge> 8 \<or> q \<noteq> src_end then None else Some (freq_tables h fs)))))))"

text \<open>A version 1 header is the C structure itself: 772 bytes, the tables from byte 50 on.\<close>

fun load_uint16s :: "nat \<Rightarrow> string \<Rightarrow> nat \<Rightarrow> nat list result" where
  "load_uint16s 0 buf p = Inr []"
| "load_uint16s (Suc n) buf p = rbind (load2 buf p) (\<lambda>x. rbind (load_uint16s n buf (p + 2)) (\<lambda>xs. Inr (x # xs)))"

definition load_int32 :: "string \<Rightarrow> nat \<Rightarrow> int result" where
  "load_int32 buf p = rbind (load4 buf p) (\<lambda>x. Inr (sint (word_of_nat x :: 32 word)))"

definition load_header_v1 :: "string \<Rightarrow> nat \<Rightarrow> lzfse_header_v1 result" where
  "load_header_v1 buf p =
     rbind (load4 buf p) (\<lambda>magic. rbind (load4 buf (p + 4)) (\<lambda>n_raw_bytes. rbind (load4 buf (p + 8)) (\<lambda>n_payload_bytes.
     rbind (load4 buf (p + 12)) (\<lambda>n_literals. rbind (load4 buf (p + 16)) (\<lambda>n_matches.
     rbind (load4 buf (p + 20)) (\<lambda>n_literal_payload_bytes. rbind (load4 buf (p + 24)) (\<lambda>n_lmd_payload_bytes.
     rbind (load_int32 buf (p + 28)) (\<lambda>literal_bits. rbind (load_uint16s 4 buf (p + 32)) (\<lambda>literal_state.
     rbind (load_int32 buf (p + 40)) (\<lambda>lmd_bits. rbind (load2 buf (p + 44)) (\<lambda>l_state.
     rbind (load2 buf (p + 46)) (\<lambda>m_state. rbind (load2 buf (p + 48)) (\<lambda>d_state.
     rbind (load_uint16s 360 buf (p + 50)) (\<lambda>fs.
     Inr (freq_tables
       \<lparr>h1_magic = magic, h1_n_raw_bytes = n_raw_bytes, h1_n_payload_bytes = n_payload_bytes,
        h1_n_literals = n_literals, h1_n_matches = n_matches, h1_n_literal_payload_bytes = n_literal_payload_bytes,
        h1_n_lmd_payload_bytes = n_lmd_payload_bytes, h1_literal_bits = literal_bits, h1_literal_state = literal_state,
        h1_lmd_bits = lmd_bits, h1_l_state = l_state, h1_m_state = m_state, h1_d_state = d_state,
        h1_l_freq = [], h1_m_freq = [], h1_d_freq = [], h1_literal_freq = []\<rparr> fs)))))))))))))))"

definition lzfse_check_block_header_v1 :: "lzfse_header_v1 \<Rightarrow> bool" where
  "lzfse_check_block_header_v1 h \<longleftrightarrow>
     h1_magic h = LZFSE_COMPRESSEDV1_BLOCK_MAGIC \<and> h1_n_literals h \<le> 40000 \<and> h1_n_matches h \<le> 10000 \<and>
     h1_literal_state h ! 0 < 1024 \<and> h1_literal_state h ! 1 < 1024 \<and>
     h1_literal_state h ! 2 < 1024 \<and> h1_literal_state h ! 3 < 1024 \<and>
     h1_l_state h < 64 \<and> h1_m_state h < 64 \<and> h1_d_state h < 256 \<and>
     fse_check_freq (h1_l_freq h) 64 \<and> fse_check_freq (h1_m_freq h) 64 \<and>
     fse_check_freq (h1_d_freq h) 256 \<and> fse_check_freq (h1_literal_freq h) 1024"

section \<open>The decoder state\<close>

datatype lzfse_status = LZFSE_STATUS_OK | LZFSE_STATUS_SRC_EMPTY | LZFSE_STATUS_DST_FULL | LZFSE_STATUS_ERROR

text \<open>\<open>bs_current_literal\<close> is an index into \<open>bs_literals\<close>; the tables hold one entry per state.\<close>

record lzfse_block_state =
  bs_n_matches :: nat
  bs_n_lmd_payload_bytes :: nat
  bs_current_literal :: nat
  bs_l_value :: nat
  bs_m_value :: nat
  bs_d_value :: int
  bs_lmd_in_stream :: fse_stream
  bs_lmd_in_buf :: nat
  bs_l_state :: nat
  bs_m_state :: nat
  bs_d_state :: nat
  bs_l_decoder :: "fse_value_decoder_entry list"
  bs_m_decoder :: "fse_value_decoder_entry list"
  bs_d_decoder :: "fse_value_decoder_entry list"
  bs_literal_decoder :: "fse_decoder_entry list"
  bs_literals :: string

record lzvn_block_state =
  vb_n_raw_bytes :: nat
  vb_n_payload_bytes :: nat
  vb_d_prev :: nat

record lzfse_decoder_state =
  ld_src :: string
  ld_sp :: nat
  ld_src_begin :: nat
  ld_src_end :: nat
  ld_dst :: string
  ld_dp :: nat
  ld_dst_begin :: nat
  ld_dst_end :: nat
  ld_end_of_stream :: bool
  ld_block_magic :: nat
  ld_lzfse :: lzfse_block_state
  ld_lzvn :: lzvn_block_state
  ld_n_raw_bytes :: nat

section \<open>L, M, D values\<close>

text \<open>
  The registers of \<open>lzfse_decode_lmd\<close>.  \<open>remaining_bytes\<close> is not among them: it is
  \<open>dst_end - dst - 32\<close> whenever it is read.
\<close>

record lmd_regs =
  r_l_state :: nat
  r_m_state :: nat
  r_d_state :: nat
  r_in :: fse_stream
  r_src :: nat
  r_lit :: nat
  r_dst :: string
  r_dp :: nat
  r_symbols :: nat
  r_L :: nat
  r_M :: nat
  r_D :: int

datatype executed = Executed lmd_regs | Dst_Full lmd_regs | Bad_Match lmd_regs

definition do_while_copy :: "nat \<Rightarrow> nat" where
  "do_while_copy n = max 1 n"

definition fast_match :: "string \<Rightarrow> nat \<Rightarrow> nat \<Rightarrow> nat \<Rightarrow> string result" where
  "fast_match dst dp D M = (if D \<ge> 8 \<or> D \<ge> M then copy_within 8 dst dp D (do_while_copy M) else copy_within 1 dst dp D M)"

definition careful_match :: "nat \<Rightarrow> nat \<Rightarrow> lmd_regs \<Rightarrow> executed result" where
  "careful_match dst_end D r =
     (let remaining_bytes = dst_end - r_dp r; n = min (r_M r) remaining_bytes in
      rbind (copy_within 1 (r_dst r) (r_dp r) D n) (\<lambda>dst.
      let r' = r\<lparr>r_dst := dst, r_dp := r_dp r + n, r_M := r_M r - n\<rparr> in
      Inr (if r_M r \<le> remaining_bytes then Executed r' else Dst_Full r')))"

definition execute_match :: "lzfse_decoder_state \<Rightarrow> lmd_regs \<Rightarrow> executed result" where
  "execute_match s r =
     (let L = r_L r; M = r_M r; lits = bs_literals (ld_lzfse s); dst_end = ld_dst_end s in
      if nat (r_D r mod 2 ^ 32) > r_dp r + L - ld_dst_begin s then Inr (Bad_Match r)
      else if r_D r < 0 then Inl Undefined
      else let D = nat (r_D r) in
        if int (L + M) \<le> int dst_end - int (r_dp r) - 32 then
          rbind (copy_blocks 8 lits (r_lit r) (r_dst r) (r_dp r) (do_while_copy L)) (\<lambda>dst.
          rbind (fast_match dst (r_dp r + L) D M) (\<lambda>dst.
          Inr (Executed (r\<lparr>r_dst := dst, r_dp := r_dp r + L + M, r_lit := r_lit r + L\<rparr>))))
        else
          let remaining_bytes = dst_end - r_dp r; n = min L remaining_bytes in
          rbind (copy_blocks 1 lits (r_lit r) (r_dst r) (r_dp r) n) (\<lambda>dst.
          let r' = r\<lparr>r_dst := dst, r_dp := r_dp r + n, r_lit := r_lit r + n, r_L := L - n\<rparr> in
          if L \<le> remaining_bytes then careful_match dst_end D r' else Inr (Dst_Full r')))"

text \<open>The values of the next match; \<open>None\<close> is \<open>LZFSE_STATUS_ERROR\<close>.\<close>

definition decode_symbols :: "lzfse_decoder_state \<Rightarrow> lmd_regs \<Rightarrow> lmd_regs option result" where
  "decode_symbols s r =
     (let bs = ld_lzfse s in
      rbind (fse_in_flush (r_in r) (ld_src s) (r_src r) (ld_src_begin s)) (\<lambda>res. case res of None \<Rightarrow> Inr None | Some (inp, src) \<Rightarrow>
      rbind (fse_value_decode (r_l_state r) (bs_l_decoder bs) inp) (\<lambda>(L, l_state, inp).
      rbind (assert_that (l_state < 64)) (\<lambda>_.
      if int (r_lit r) + L \<ge> 40000 + 64 then Inr None
      else
      rbind (fse_value_decode (r_m_state r) (bs_m_decoder bs) inp) (\<lambda>(M, m_state, inp).
      rbind (assert_that (m_state < 64)) (\<lambda>_.
      rbind (fse_value_decode (r_d_state r) (bs_d_decoder bs) inp) (\<lambda>(new_d, d_state, inp).
      rbind (assert_that (d_state < 256)) (\<lambda>_.
      Inr (Some (r\<lparr>r_in := inp, r_src := src, r_l_state := l_state, r_m_state := m_state, r_d_state := d_state,
        r_L := nat L, r_M := nat M, r_D := (if new_d \<noteq> 0 then new_d else r_D r)\<rparr>))))))))))"

text \<open>The loop runs \<open>symbols\<close> times, its first argument.\<close>

fun lmd_loop :: "nat \<Rightarrow> lzfse_decoder_state \<Rightarrow> lmd_regs \<Rightarrow> (lzfse_status \<times> lmd_regs) result" where
  "lmd_loop 0 s r = Inr (LZFSE_STATUS_OK, r)"
| "lmd_loop (Suc symbols) s r =
     rbind (decode_symbols s r) (\<lambda>d. case d of None \<Rightarrow> Inr (LZFSE_STATUS_ERROR, r) | Some r \<Rightarrow>
     rbind (execute_match s (r\<lparr>r_symbols := symbols\<rparr>)) (\<lambda>e. case e of
       Bad_Match r \<Rightarrow> Inr (LZFSE_STATUS_ERROR, r)
     | Dst_Full r \<Rightarrow> Inr (LZFSE_STATUS_DST_FULL, r)
     | Executed r \<Rightarrow> lmd_loop symbols s r))"

definition lmd_registers :: "lzfse_decoder_state \<Rightarrow> lmd_regs" where
  "lmd_registers s =
     (let bs = ld_lzfse s in
      \<lparr>r_l_state = bs_l_state bs, r_m_state = bs_m_state bs, r_d_state = bs_d_state bs, r_in = bs_lmd_in_stream bs,
       r_src = ld_sp s + bs_lmd_in_buf bs, r_lit = bs_current_literal bs, r_dst = ld_dst s, r_dp = ld_dp s,
       r_symbols = bs_n_matches bs, r_L = bs_l_value bs, r_M = bs_m_value bs, r_D = bs_d_value bs\<rparr>)"

text \<open>The registers go back into the state when the destination is full, only \<open>dst\<close> at the end of the block.\<close>

definition store_registers :: "lzfse_decoder_state \<Rightarrow> lmd_regs \<Rightarrow> lzfse_decoder_state" where
  "store_registers s r =
     s\<lparr>ld_dst := r_dst r, ld_dp := r_dp r,
       ld_lzfse := (ld_lzfse s)\<lparr>bs_l_value := r_L r, bs_m_value := r_M r, bs_d_value := r_D r, bs_l_state := r_l_state r,
         bs_m_state := r_m_state r, bs_d_state := r_d_state r, bs_lmd_in_stream := r_in r, bs_n_matches := r_symbols r,
         bs_lmd_in_buf := nat ((int (r_src r) - int (ld_sp s)) mod 2 ^ 32), bs_current_literal := r_lit r\<rparr>\<rparr>"

definition finish_lmd :: "lzfse_decoder_state \<Rightarrow> lzfse_status \<Rightarrow> lmd_regs \<Rightarrow> lzfse_decoder_state" where
  "finish_lmd s status r =
     (if status = LZFSE_STATUS_OK then s\<lparr>ld_dst := r_dst r, ld_dp := r_dp r\<rparr>
      else if status = LZFSE_STATUS_DST_FULL then store_registers s r
      else s\<lparr>ld_dst := r_dst r\<rparr>)"

definition run_lmd :: "lzfse_decoder_state \<Rightarrow> lmd_regs \<Rightarrow> (lzfse_status \<times> lmd_regs) result" where
  "run_lmd s r =
     (if r_L r \<noteq> 0 \<or> r_M r \<noteq> 0
      then rbind (execute_match s r) (\<lambda>e. case e of
          Bad_Match r \<Rightarrow> Inr (LZFSE_STATUS_ERROR, r)
        | Dst_Full r \<Rightarrow> Inr (LZFSE_STATUS_DST_FULL, r)
        | Executed r \<Rightarrow> lmd_loop (r_symbols r) s r)
      else lmd_loop (r_symbols r) s r)"

definition lzfse_decode_lmd :: "lzfse_decoder_state \<Rightarrow> (lzfse_status \<times> lzfse_decoder_state) result" where
  "lzfse_decode_lmd s =
     (let r = lmd_registers s in
      rbind (assert_that (r_l_state r < 64)) (\<lambda>_. rbind (assert_that (r_m_state r < 64)) (\<lambda>_.
      rbind (assert_that (r_d_state r < 256)) (\<lambda>_.
      rbind (run_lmd s r) (\<lambda>(status, r). Inr (status, finish_lmd s status r))))))"

section \<open>Literals\<close>

definition literal_char :: "nat \<Rightarrow> char" where
  "literal_char n = char_of n"

text \<open>The literals are decoded in groups of four; the first argument is the number of groups.\<close>

fun decode_literals ::
  "nat \<Rightarrow> fse_decoder_entry list \<Rightarrow> string \<Rightarrow> nat \<Rightarrow> nat \<Rightarrow> nat \<times> nat \<times> nat \<times> nat \<Rightarrow> fse_stream \<Rightarrow> nat \<Rightarrow> string \<Rightarrow>
   string option result" where
  "decode_literals 0 t src buf_start i states inp p lits = Inr (Some lits)"
| "decode_literals (Suc n) t src buf_start i states inp p lits =
     (case states of (state0, state1, state2, state3) \<Rightarrow>
      rbind (fse_in_flush inp src p buf_start) (\<lambda>res. case res of None \<Rightarrow> Inr None | Some (inp, p) \<Rightarrow>
      rbind (fse_decode state0 t inp) (\<lambda>(c0, state0, inp).
      rbind (fse_decode state1 t inp) (\<lambda>(c1, state1, inp).
      rbind (fse_decode state2 t inp) (\<lambda>(c2, state2, inp).
      rbind (fse_decode state3 t inp) (\<lambda>(c3, state3, inp).
      rbind (store_bytes lits i (map literal_char [c0, c1, c2, c3])) (\<lambda>lits.
      decode_literals n t src buf_start (i + 4) (state0, state1, state2, state3) inp p lits)))))))"

section \<open>Blocks\<close>

datatype lzfse_step = Finished lzfse_status lzfse_decoder_state | Next lzfse_decoder_state

text \<open>Filling a table from its start; the rest of the array keeps what it held.\<close>

definition fill_table :: "'a list \<Rightarrow> 'a list \<Rightarrow> 'a list" where
  "fill_table old new = new @ drop (length new) old"

definition setup_tables :: "lzfse_block_state \<Rightarrow> lzfse_header_v1 \<Rightarrow> lzfse_block_state result" where
  "setup_tables bs h =
     rbind (fse_init_decoder_table 1024 (h1_literal_freq h)) (\<lambda>lit_t.
     rbind (fse_init_value_decoder_table 64 (h1_l_freq h) l_extra_bits l_base_value) (\<lambda>l_t.
     rbind (fse_init_value_decoder_table 64 (h1_m_freq h) m_extra_bits m_base_value) (\<lambda>m_t.
     rbind (fse_init_value_decoder_table 256 (h1_d_freq h) d_extra_bits d_base_value) (\<lambda>d_t.
     Inr (bs\<lparr>bs_n_lmd_payload_bytes := h1_n_lmd_payload_bytes h, bs_n_matches := h1_n_matches h,
       bs_literal_decoder := (case lit_t of None \<Rightarrow> bs_literal_decoder bs | Some t \<Rightarrow> fill_table (bs_literal_decoder bs) t),
       bs_l_decoder := fill_table (bs_l_decoder bs) l_t, bs_m_decoder := fill_table (bs_m_decoder bs) m_t,
       bs_d_decoder := fill_table (bs_d_decoder bs) d_t\<rparr>)))))"

text \<open>A compressed block behind its header: the literals and the start of the L, M, D stream.\<close>

definition setup_block :: "lzfse_decoder_state \<Rightarrow> nat \<Rightarrow> nat \<Rightarrow> lzfse_header_v1 \<Rightarrow> lzfse_step result" where
  "setup_block s magic header_size h =
     rbind (setup_tables (ld_lzfse s) h) (\<lambda>bs.
     let s = s\<lparr>ld_sp := ld_sp s + header_size + h1_n_literal_payload_bytes h, ld_lzfse := bs\<rparr>; sp = ld_sp s in
     rbind (fse_in_init (h1_literal_bits h) (ld_src s) sp (ld_src_begin s)) (\<lambda>res. case res of
       None \<Rightarrow> Inr (Finished LZFSE_STATUS_ERROR s) | Some (inp, p) \<Rightarrow>
     rbind (decode_literals ((h1_n_literals h + 3) div 4) (bs_literal_decoder bs) (ld_src s) (ld_src_begin s) 0
              (h1_literal_state h ! 0, h1_literal_state h ! 1, h1_literal_state h ! 2, h1_literal_state h ! 3)
              inp p (bs_literals bs)) (\<lambda>res. case res of
       None \<Rightarrow> Inr (Finished LZFSE_STATUS_ERROR s) | Some lits \<Rightarrow>
     rbind (fse_in_init (h1_lmd_bits h) (ld_src s) (sp + h1_n_lmd_payload_bytes h) sp) (\<lambda>res. case res of
       None \<Rightarrow> Inr (Finished LZFSE_STATUS_ERROR s) | Some (inp, q) \<Rightarrow>
     Inr (Next (s\<lparr>ld_block_magic := magic,
       ld_lzfse := bs\<lparr>bs_literals := lits, bs_current_literal := 0, bs_l_state := h1_l_state h, bs_m_state := h1_m_state h,
         bs_d_state := h1_d_state h, bs_lmd_in_buf := (q - sp) mod 2 ^ 32, bs_l_value := 0, bs_m_value := 0,
         bs_d_value := -1, bs_lmd_in_stream := inp\<rparr>\<rparr>))))))"

definition begin_compressed :: "lzfse_decoder_state \<Rightarrow> nat \<Rightarrow> nat \<Rightarrow> lzfse_header_v1 \<Rightarrow> lzfse_step result" where
  "begin_compressed s magic header_size h =
     (if ld_sp s + header_size + h1_n_literal_payload_bytes h + h1_n_lmd_payload_bytes h > ld_src_end s
      then Inr (Finished LZFSE_STATUS_SRC_EMPTY s)
      else if \<not> lzfse_check_block_header_v1 h then Inr (Finished LZFSE_STATUS_ERROR s)
      else setup_block s magic header_size h)"

definition begin_v2 :: "lzfse_decoder_state \<Rightarrow> lzfse_step result" where
  "begin_v2 s =
     (if ld_sp s + 32 > ld_src_end s then Inr (Finished LZFSE_STATUS_SRC_EMPTY s)
      else rbind (lzfse_decode_v2_header_size (ld_src s) (ld_sp s)) (\<lambda>header_size.
        if ld_sp s + header_size > ld_src_end s then Inr (Finished LZFSE_STATUS_SRC_EMPTY s)
        else rbind (lzfse_decode_v1 (ld_src s) (ld_sp s)) (\<lambda>r. case r of
            None \<Rightarrow> Inr (Finished LZFSE_STATUS_ERROR s)
          | Some h \<Rightarrow> begin_compressed s LZFSE_COMPRESSEDV2_BLOCK_MAGIC header_size h)))"

definition begin_v1 :: "lzfse_decoder_state \<Rightarrow> lzfse_step result" where
  "begin_v1 s =
     (if ld_sp s + 772 > ld_src_end s then Inr (Finished LZFSE_STATUS_SRC_EMPTY s)
      else rbind (load_header_v1 (ld_src s) (ld_sp s)) (\<lambda>h. begin_compressed s LZFSE_COMPRESSEDV1_BLOCK_MAGIC 772 h))"

definition begin_uncompressed :: "lzfse_decoder_state \<Rightarrow> lzfse_step result" where
  "begin_uncompressed s =
     (if ld_sp s + 8 > ld_src_end s then Inr (Finished LZFSE_STATUS_SRC_EMPTY s)
      else rbind (load4 (ld_src s) (ld_sp s + 4)) (\<lambda>n.
        Inr (Next (s\<lparr>ld_n_raw_bytes := n, ld_sp := ld_sp s + 8, ld_block_magic := LZFSE_UNCOMPRESSED_BLOCK_MAGIC\<rparr>))))"

definition begin_lzvn :: "lzfse_decoder_state \<Rightarrow> lzfse_step result" where
  "begin_lzvn s =
     (if ld_sp s + 12 > ld_src_end s then Inr (Finished LZFSE_STATUS_SRC_EMPTY s)
      else rbind (load4 (ld_src s) (ld_sp s + 4)) (\<lambda>n. rbind (load4 (ld_src s) (ld_sp s + 8)) (\<lambda>m.
        Inr (Next (s\<lparr>ld_lzvn := \<lparr>vb_n_raw_bytes = n, vb_n_payload_bytes = m, vb_d_prev = 0\<rparr>,
          ld_sp := ld_sp s + 12, ld_block_magic := LZFSE_COMPRESSEDLZVN_BLOCK_MAGIC\<rparr>)))))"

definition begin_block :: "lzfse_decoder_state \<Rightarrow> lzfse_step result" where
  "begin_block s =
     (if ld_sp s + 4 > ld_src_end s then Inr (Finished LZFSE_STATUS_SRC_EMPTY s)
      else rbind (load4 (ld_src s) (ld_sp s)) (\<lambda>magic.
        if magic = LZFSE_ENDOFSTREAM_BLOCK_MAGIC
        then Inr (Finished LZFSE_STATUS_OK (s\<lparr>ld_sp := ld_sp s + 4, ld_end_of_stream := True\<rparr>))
        else if magic = LZFSE_UNCOMPRESSED_BLOCK_MAGIC then begin_uncompressed s
        else if magic = LZFSE_COMPRESSEDLZVN_BLOCK_MAGIC then begin_lzvn s
        else if magic = LZFSE_COMPRESSEDV2_BLOCK_MAGIC then begin_v2 s
        else if magic = LZFSE_COMPRESSEDV1_BLOCK_MAGIC then begin_v1 s
        else Inr (Finished LZFSE_STATUS_ERROR s)))"

definition uncompressed_block :: "lzfse_decoder_state \<Rightarrow> lzfse_step result" where
  "uncompressed_block s =
     (if ld_n_raw_bytes s = 0 then Inr (Next (s\<lparr>ld_block_magic := 0\<rparr>))
      else if ld_src_end s \<le> ld_sp s then Inr (Finished LZFSE_STATUS_SRC_EMPTY s)
      else if ld_dst_end s \<le> ld_dp s then Inr (Finished LZFSE_STATUS_DST_FULL s)
      else let n = min (min (ld_n_raw_bytes s) (ld_src_end s - ld_sp s)) (ld_dst_end s - ld_dp s) in
        rbind (load_bytes n (ld_src s) (ld_sp s)) (\<lambda>bs. rbind (store_bytes (ld_dst s) (ld_dp s) bs) (\<lambda>dst.
        Inr (Next (s\<lparr>ld_dst := dst, ld_sp := ld_sp s + n, ld_dp := ld_dp s + n, ld_n_raw_bytes := ld_n_raw_bytes s - n\<rparr>)))))"

definition lzfse_block :: "lzfse_decoder_state \<Rightarrow> lzfse_step result" where
  "lzfse_block s =
     (if ld_src_end s \<le> ld_sp s \<or> bs_n_lmd_payload_bytes (ld_lzfse s) > ld_src_end s - ld_sp s
      then Inr (Finished LZFSE_STATUS_SRC_EMPTY s)
      else rbind (lzfse_decode_lmd s) (\<lambda>(status, s).
        Inr (if status \<noteq> LZFSE_STATUS_OK then Finished status s
             else Next (s\<lparr>ld_block_magic := LZFSE_NO_BLOCK_MAGIC, ld_sp := ld_sp s + bs_n_lmd_payload_bytes (ld_lzfse s)\<rparr>))))"

text \<open>
  \<open>src_used\<close> and \<open>dst_used\<close> are unsigned: a pointer that moved backwards is a large number and an error.
\<close>

definition lzvn_block :: "lzfse_decoder_state \<Rightarrow> lzfse_step result" where
  "lzvn_block s =
     (let bs = ld_lzvn s in
      if vb_n_payload_bytes bs > 0 \<and> ld_src_end s \<le> ld_sp s then Inr (Finished LZFSE_STATUS_SRC_EMPTY s)
      else rbind (lzvn_decode
        \<lparr>vd_src = ld_src s, vd_sp = ld_sp s, vd_src_end = min (ld_src_end s) (ld_sp s + vb_n_payload_bytes bs),
         vd_dst = ld_dst s, vd_dp = ld_dp s, vd_dst_begin = ld_dst_begin s,
         vd_dst_end = min (ld_dst_end s) (ld_dp s + vb_n_raw_bytes bs),
         vd_L = 0, vd_M = 0, vd_D = 0, vd_d_prev = vb_d_prev bs, vd_end_of_stream = False\<rparr>) (\<lambda>d.
      let src_used = vd_sp d - ld_sp s; dst_used = vd_dp d - ld_dp s in
      if vd_sp d < ld_sp s \<or> vd_dp d < ld_dp s \<or> src_used > vb_n_payload_bytes bs \<or> dst_used > vb_n_raw_bytes bs
      then Inr (Finished LZFSE_STATUS_ERROR (s\<lparr>ld_dst := vd_dst d\<rparr>))
      else let payload = vb_n_payload_bytes bs - src_used; raw = vb_n_raw_bytes bs - dst_used;
               s = s\<lparr>ld_dst := vd_dst d, ld_sp := vd_sp d, ld_dp := vd_dp d,
                     ld_lzvn := \<lparr>vb_n_raw_bytes = raw, vb_n_payload_bytes = payload, vb_d_prev = vd_d_prev d mod 2 ^ 32\<rparr>\<rparr> in
        Inr (if payload = 0 \<and> raw = 0 \<and> vd_end_of_stream d then Next (s\<lparr>ld_block_magic := 0\<rparr>)
             else if payload = 0 \<or> raw = 0 \<or> vd_end_of_stream d then Finished LZFSE_STATUS_ERROR s
             else Finished LZFSE_STATUS_DST_FULL s)))"

definition lzfse_decode_step :: "lzfse_decoder_state \<Rightarrow> lzfse_step result" where
  "lzfse_decode_step s =
     (if ld_block_magic s = LZFSE_NO_BLOCK_MAGIC then begin_block s
      else if ld_block_magic s = LZFSE_UNCOMPRESSED_BLOCK_MAGIC then uncompressed_block s
      else if ld_block_magic s = LZFSE_COMPRESSEDV1_BLOCK_MAGIC \<or> ld_block_magic s = LZFSE_COMPRESSEDV2_BLOCK_MAGIC
      then lzfse_block s
      else if ld_block_magic s = LZFSE_COMPRESSEDLZVN_BLOCK_MAGIC then lzvn_block s
      else Inr (Finished LZFSE_STATUS_ERROR s))"

text \<open>
  Every round of the loop either consumes source bytes or leaves a block, so the loop ends.
\<close>

lemma decode_v1_size:
  assumes "lzfse_decode_v1 buf p = Inr (Some h)" and "lzfse_decode_v2_header_size buf p = Inr n"
  shows "32 \<le> n"
proof (rule ccontr)
  assume "\<not> 32 \<le> n"
  moreover from this have "decode_freqs buf (p + n) (Suc 359) (p + 32) 0 0 = Inr None"
    unfolding decode_freqs.simps by (simp add: refill.simps lzfse_decode_v1_freq_value_def lzfse_freq_nbits_table_def)
  then have "decode_freqs buf (p + n) 360 (p + 32) 0 0 = Inr None" by simp
  ultimately show False
    using assms by (auto simp: lzfse_decode_v1_def lzfse_decode_v2_header_size_def rbind_eq_Inr_iff Let_def split: if_splits)
qed

definition decode_measure :: "lzfse_decoder_state \<Rightarrow> nat" where
  "decode_measure s = 2 * (ld_src_end s - ld_sp s) + (if ld_block_magic s = 0 then 0 else 1)"

lemma decode_lmd_frame:
  "lzfse_decode_lmd s = Inr (status, s') \<Longrightarrow>
     ld_sp s' = ld_sp s \<and> ld_src_end s' = ld_src_end s \<and> ld_src s' = ld_src s"
  by (auto simp: lzfse_decode_lmd_def rbind_eq_Inr_iff Let_def finish_lmd_def store_registers_def)

lemma begin_compressed_progress:
  "begin_compressed s magic n h = Inr (Next s') \<Longrightarrow> 0 < n \<Longrightarrow>
     ld_sp s < ld_sp s' \<and> ld_sp s' \<le> ld_src_end s \<and> ld_src_end s' = ld_src_end s"
  by (auto simp: begin_compressed_def setup_block_def rbind_eq_Inr_iff Let_def split: if_splits option.splits)

lemma begin_block_progress:
  assumes "begin_block s = Inr (Next s')"
  shows "ld_sp s < ld_sp s' \<and> ld_sp s' \<le> ld_src_end s \<and> ld_src_end s' = ld_src_end s"
proof -
  consider "begin_uncompressed s = Inr (Next s')" | "begin_lzvn s = Inr (Next s')"
    | "begin_v2 s = Inr (Next s')" | "begin_v1 s = Inr (Next s')"
    using assms by (auto simp: begin_block_def rbind_eq_Inr_iff split: if_splits)
  then show ?thesis
  proof cases
    case 1 then show ?thesis by (auto simp: begin_uncompressed_def rbind_eq_Inr_iff split: if_splits)
  next
    case 2 then show ?thesis by (auto simp: begin_lzvn_def rbind_eq_Inr_iff split: if_splits)
  next
    case 3
    then obtain n h where "lzfse_decode_v2_header_size (ld_src s) (ld_sp s) = Inr n"
      and "lzfse_decode_v1 (ld_src s) (ld_sp s) = Inr (Some h)"
      and "begin_compressed s LZFSE_COMPRESSEDV2_BLOCK_MAGIC n h = Inr (Next s')"
      by (auto simp: begin_v2_def rbind_eq_Inr_iff split: if_splits option.splits)
    then show ?thesis using decode_v1_size begin_compressed_progress by fastforce
  next
    case 4 then show ?thesis
      using begin_compressed_progress by (fastforce simp: begin_v1_def rbind_eq_Inr_iff split: if_splits)
  qed
qed

lemma uncompressed_progress:
  assumes "uncompressed_block s = Inr (Next s')"
  shows "(ld_sp s' = ld_sp s \<and> ld_block_magic s' = 0 \<or>
          ld_sp s < ld_sp s' \<and> ld_sp s' \<le> ld_src_end s \<and> ld_block_magic s' = ld_block_magic s) \<and>
         ld_src_end s' = ld_src_end s"
proof (cases "ld_n_raw_bytes s = 0")
  case True
  then show ?thesis using assms by (auto simp: uncompressed_block_def)
next
  case False
  define n where "n = min (min (ld_n_raw_bytes s) (ld_src_end s - ld_sp s)) (ld_dst_end s - ld_dp s)"
  have room: "ld_sp s < ld_src_end s" "ld_dp s < ld_dst_end s"
    using assms False by (auto simp: uncompressed_block_def split: if_splits)
  then have "0 < n" "n \<le> ld_src_end s - ld_sp s" using False by (auto simp: n_def)
  moreover have "ld_sp s' = ld_sp s + n" "ld_block_magic s' = ld_block_magic s" "ld_src_end s' = ld_src_end s"
    using assms False room by (auto simp: uncompressed_block_def n_def [symmetric] Let_def rbind_eq_Inr_iff)
  ultimately show ?thesis using room by auto
qed

lemma lzvn_block_progress:
  assumes "lzvn_block s = Inr (Next s')"
  shows "ld_sp s \<le> ld_sp s' \<and> ld_src_end s' = ld_src_end s \<and> ld_block_magic s' = 0"
  using assms unfolding lzvn_block_def Let_def
  by (auto simp: rbind_eq_Inr_iff simp del: diff_is_0_eq split: if_splits)

lemma lzfse_block_progress:
  assumes "lzfse_block s = Inr (Next s')"
  shows "ld_sp s \<le> ld_sp s' \<and> ld_src_end s' = ld_src_end s \<and> ld_block_magic s' = 0"
  using assms decode_lmd_frame unfolding lzfse_block_def
  by (fastforce simp: rbind_eq_Inr_iff LZFSE_NO_BLOCK_MAGIC_def split: if_splits)

lemma decode_step_progress:
  assumes "lzfse_decode_step s = Inr (Next s')"
  shows "decode_measure s' < decode_measure s"
proof -
  consider "ld_block_magic s = 0" and "begin_block s = Inr (Next s')"
    | "ld_block_magic s \<noteq> 0" and "uncompressed_block s = Inr (Next s')"
    | "ld_block_magic s \<noteq> 0" and "lzfse_block s = Inr (Next s')"
    | "ld_block_magic s \<noteq> 0" and "lzvn_block s = Inr (Next s')"
    using assms by (auto simp: lzfse_decode_step_def LZFSE_NO_BLOCK_MAGIC_def split: if_splits)
  then show ?thesis
  proof cases
    case 1 then show ?thesis using begin_block_progress [of s s'] by (auto simp: decode_measure_def)
  next
    case 2 then show ?thesis using uncompressed_progress [of s s'] by (auto simp: decode_measure_def)
  next
    case 3 then show ?thesis using lzfse_block_progress [of s s'] by (auto simp: decode_measure_def)
  next
    case 4 then show ?thesis using lzvn_block_progress [of s s'] by (auto simp: decode_measure_def)
  qed
qed

function lzfse_decode :: "lzfse_decoder_state \<Rightarrow> (lzfse_status \<times> lzfse_decoder_state) result" where
  "lzfse_decode s =
     rbind (lzfse_decode_step s) (\<lambda>r. case r of Finished status s' \<Rightarrow> Inr (status, s') | Next s' \<Rightarrow> lzfse_decode s')"
  by pat_completeness auto
termination by (relation "measure decode_measure") (auto simp: decode_step_progress)

declare lzfse_decode.simps [simp del]

end
