(* ===== verification/FSE_Coding.thy ===== *)
theory FSE_Coding
  imports FSE
begin

text \<open>
  The coding step: the decoder tables invert the encoder tables.  For a frequency table over
  \<open>N = 2 ^ q\<close> states a state \<open>s\<close> stands for \<open>x = s + N\<close>; encoding a symbol of frequency \<open>f\<close> shifts \<open>x\<close>
  down to lie between \<open>f\<close> and \<open>2 f\<close>, and decoding shifts it up again.
\<close>

section \<open>Shifts\<close>

lemma bit_length_bounds: "0 < n \<Longrightarrow> 0 < bit_length n \<and> 2 ^ (bit_length n - 1) \<le> n \<and> n < 2 ^ bit_length n"
proof (induction n rule: bit_length.induct)
  case (1 n)
  show ?case
  proof (cases "n div 2 = 0")
    case True
    then have "n = 1" using 1(2) by auto
    moreover have "bit_length 1 = 1" by (simp add: bit_length.simps)
    ultimately show ?thesis by simp
  next
    case False
    define b where "b = bit_length (n div 2)"
    from 1 False have b: "0 < b" "2 ^ (b - 1) \<le> n div 2" "n div 2 < 2 ^ b" by (auto simp: b_def)
    then obtain c where c: "b = Suc c" by (cases b) auto
    have "bit_length n = Suc b" using 1(2) by (simp add: bit_length.simps [of n] b_def)
    moreover have "2 ^ b \<le> n" "n < 2 ^ Suc b" using b c by auto
    ultimately show ?thesis by simp
  qed
qed

lemma bit_length_unique: "2 ^ b \<le> n \<Longrightarrow> n < 2 ^ Suc b \<Longrightarrow> bit_length n = Suc b"
proof -
  assume n: "2 ^ b \<le> n" "n < 2 ^ Suc b"
  then have "0 < n" by (metis less_le_trans zero_less_numeral zero_less_power)
  from bit_length_bounds [OF this] n have lt: "2 ^ (bit_length n - 1) < (2 :: nat) ^ Suc b" "(2 :: nat) ^ b < 2 ^ bit_length n" "0 < bit_length n"
    by linarith+
  have "bit_length n - 1 < Suc b" by (rule power_less_imp_less_exp [OF _ lt(1)]) simp
  moreover have "b < bit_length n" by (rule power_less_imp_less_exp [OF _ lt(2)]) simp
  ultimately have "bit_length n - 1 < Suc b" "b < bit_length n" .
  then show ?thesis by simp
qed

lemma bit_length_power [simp]: "bit_length (2 ^ q) = Suc q"
  by (rule bit_length_unique) simp_all

text \<open>The shift of a symbol of frequency \<open>f\<close>.\<close>

definition fse_shift :: "nat \<Rightarrow> nat \<Rightarrow> nat" where
  "fse_shift q f = Suc q - bit_length f"

lemma fse_shift:
  assumes "0 < f" and "f \<le> 2 ^ q"
  shows "builtin_clz f - builtin_clz (2 ^ q) = int (fse_shift q f)" and "fse_shift q f \<le> q"
    and "2 ^ q \<le> f * 2 ^ fse_shift q f" and "f * 2 ^ fse_shift q f < 2 * 2 ^ q"
proof -
  note b = bit_length_bounds [OF assms(1)]
  obtain c where c: "bit_length f = Suc c" using b by (cases "bit_length f") auto
  then have cf: "2 ^ c \<le> f" "f < 2 ^ Suc c" using b by auto
  have "(2 :: nat) ^ c \<le> 2 ^ q" using cf(1) assms(2) by (rule le_trans)
  then have cq: "c \<le> q" by (rule power_le_imp_le_exp [rotated]) simp
  then have k: "fse_shift q f = q - c" by (simp add: fse_shift_def c)
  show "builtin_clz f - builtin_clz (2 ^ q) = int (fse_shift q f)" using cq k c by (simp add: builtin_clz_def)
  show "fse_shift q f \<le> q" using k by simp
  have "2 ^ c * 2 ^ (q - c) = (2 :: nat) ^ q" using cq by (simp flip: power_add)
  moreover have "2 ^ c * 2 ^ (q - c) \<le> f * 2 ^ (q - c)" "f * 2 ^ (q - c) < 2 ^ Suc c * 2 ^ (q - c)" using cf by auto
  ultimately show "2 ^ q \<le> f * 2 ^ fse_shift q f" "f * 2 ^ fse_shift q f < 2 * 2 ^ q" using k by (simp_all add: mult.assoc)
qed

section \<open>One symbol\<close>

text \<open>The number of bits that encoding shifts out of state \<open>s\<close>, and which of the \<open>f\<close> states follows.\<close>

definition code_bits :: "nat \<Rightarrow> nat \<Rightarrow> nat \<Rightarrow> nat" where
  "code_bits q f s = (if f * 2 ^ fse_shift q f \<le> s + 2 ^ q then fse_shift q f else fse_shift q f - 1)"

definition code_index :: "nat \<Rightarrow> nat \<Rightarrow> nat \<Rightarrow> nat" where
  "code_index q f s = (s + 2 ^ q) div 2 ^ code_bits q f s - f"

lemma code_shift_positive:
  assumes "0 < f" and "f \<le> 2 ^ q" and "\<not> f * 2 ^ fse_shift q f \<le> s + 2 ^ q"
  shows "0 < fse_shift q f"
  using assms by (cases "fse_shift q f") auto

lemma code_range:
  assumes "0 < f" and "f \<le> 2 ^ q" and "s < 2 ^ q"
  shows "f \<le> (s + 2 ^ q) div 2 ^ code_bits q f s" and "(s + 2 ^ q) div 2 ^ code_bits q f s < 2 * f"
proof -
  let ?k = "fse_shift q f" and ?N = "2 ^ q :: nat"
  note k = fse_shift [OF assms(1,2)]
  have "f * 2 ^ code_bits q f s \<le> s + ?N \<and> s + ?N < 2 * f * 2 ^ code_bits q f s"
  proof (cases "f * 2 ^ ?k \<le> s + ?N")
    case True
    then show ?thesis using k(3) assms(3) by (simp add: code_bits_def)
  next
    case False
    then obtain c where "?k = Suc c" using code_shift_positive [OF assms(1,2)] by (cases ?k) auto
    then show ?thesis using False k(4) by (simp add: code_bits_def)
  qed
  then show "f \<le> (s + ?N) div 2 ^ code_bits q f s" "(s + ?N) div 2 ^ code_bits q f s < 2 * f"
    by (simp_all add: less_eq_div_iff_mult_less_eq div_less_iff_less_mult)
qed

lemma code_index_less: "0 < f \<Longrightarrow> f \<le> 2 ^ q \<Longrightarrow> s < 2 ^ q \<Longrightarrow> code_index q f s < f"
  using code_range [of f q s] by (simp add: code_index_def)

lemma code_bits_le: "0 < f \<Longrightarrow> f \<le> 2 ^ q \<Longrightarrow> code_bits q f s \<le> q"
  using fse_shift(2) [of f q] by (auto simp: code_bits_def)

lemma int16_id: "- 32768 \<le> x \<Longrightarrow> x < 32768 \<Longrightarrow> int16 x = x"
  unfolding int16_def by (simp add: sint_sbintrunc' signed_take_bit_int_eq_self)

lemma power_div_power: "k \<le> q \<Longrightarrow> (2 :: nat) ^ q div 2 ^ k = 2 ^ (q - k)"
  by (simp add: power_diff)

lemma div_add_power: "k \<le> q \<Longrightarrow> (s + 2 ^ q) div 2 ^ k = s div 2 ^ k + (2 :: nat) ^ (q - k)"
proof -
  assume "k \<le> q"
  then have "(2 :: nat) ^ q = 2 ^ (q - k) * 2 ^ k" by (simp flip: power_add)
  then show ?thesis by simp
qed

lemma mod_add_power: "k \<le> q \<Longrightarrow> (s + 2 ^ q) mod 2 ^ k = s mod (2 :: nat) ^ k"
proof -
  assume "k \<le> q"
  then have "(2 :: nat) ^ q = 2 ^ (q - k) * 2 ^ k" by (simp flip: power_add)
  then show ?thesis by simp
qed

lemma encoder_entry_step:
  assumes f: "0 < f" "f \<le> 2 ^ q" and s: "s < 2 ^ q" and q: "q \<le> 10" and off: "off \<le> 2 ^ q"
  shows "\<exists>e delta. encoder_entry (2 ^ q) off f = Some e \<and>
    nat (if int s \<ge> enc_s0 e then enc_k e else enc_k e - 1) = code_bits q f s \<and>
    (if int s \<ge> enc_s0 e then Some (enc_delta0 e) else enc_delta1 e) = Some delta \<and>
    (uint16 delta + s div 2 ^ code_bits q f s) mod 2 ^ 16 = off + code_index q f s"
proof -
  let ?k = "fse_shift q f" and ?N = "2 ^ q :: nat"
  let ?delta = "int off - int f + int (?N div 2 ^ code_bits q f s)"
  note k = fse_shift [OF f]
  have N: "?N \<le> 1024" using power_increasing [OF q, of "2 :: nat"] by simp
  have kk: "int16 (int ?k) = int ?k" using k(2) q by (intro int16_id) auto
  define e where "e = \<lparr>enc_s0 = int16 (int (f * 2 ^ ?k) - int ?N), enc_k = int ?k,
    enc_delta0 = int16 (int off - int f + int (?N div 2 ^ ?k)),
    enc_delta1 = map_option (\<lambda>n1. int16 (int off - int f + int n1)) (shift_right ?N (int ?k - 1))\<rparr>"
  have "shift_right ?N (int ?k) = Some (?N div 2 ^ ?k)" using k(2) q by (simp add: shift_right_def)
  then have e: "encoder_entry (2 ^ q) off f = Some e" "enc_s0 e = int16 (int (f * 2 ^ ?k) - int ?N)" "enc_k e = int ?k"
    "enc_delta0 e = int16 (int off - int f + int (?N div 2 ^ ?k))"
    "enc_delta1 e = map_option (\<lambda>n1. int16 (int off - int f + int n1)) (shift_right ?N (int ?k - 1))"
    by (simp_all add: encoder_entry_def k(1) Let_def kk e_def)
  have "int16 (int (f * 2 ^ ?k) - int ?N) = int (f * 2 ^ ?k) - int ?N" using k(3,4) N by (intro int16_id) linarith+
  then have hi: "int s \<ge> enc_s0 e \<longleftrightarrow> f * 2 ^ ?k \<le> s + ?N" unfolding e(2) by linarith
  have bits: "nat (if int s \<ge> enc_s0 e then enc_k e else enc_k e - 1) = code_bits q f s"
    unfolding hi by (auto simp: e(3) code_bits_def)
  have delta: "int16 (int off - int f + int (?N div 2 ^ j)) = int off - int f + int (?N div 2 ^ j)" for j
  proof -
    have "?N div 2 ^ j \<le> 1024" using N div_le_dividend le_trans by blast
    then show ?thesis using N off f by (intro int16_id) auto
  qed
  have d: "(if int s \<ge> enc_s0 e then Some (enc_delta0 e) else enc_delta1 e) = Some ?delta"
  proof (cases "f * 2 ^ ?k \<le> s + ?N")
    case True
    then show ?thesis unfolding hi by (simp add: e(4) code_bits_def delta)
  next
    case False
    then have "0 < ?k" by (rule code_shift_positive [OF f])
    then have "shift_right ?N (int ?k - 1) = Some (?N div 2 ^ (?k - 1))"
      using k(2) q by (simp add: shift_right_def nat_diff_distrib)
    then show ?thesis unfolding hi using False by (simp add: e(5) code_bits_def delta)
  qed
  have sum: "s div 2 ^ code_bits q f s + ?N div 2 ^ code_bits q f s = (s + ?N) div 2 ^ code_bits q f s"
    using code_bits_le [OF f, of s] by (simp add: div_add_power power_div_power)
  have r: "off + code_index q f s < 2 ^ 16" using code_index_less [OF f s] off N f by (simp add: code_index_def)
  have "int ((uint16 ?delta + s div 2 ^ code_bits q f s) mod 2 ^ 16) = (?delta + int (s div 2 ^ code_bits q f s)) mod 2 ^ 16"
    by (simp add: uint16_def zmod_int mod_add_left_eq)
  also have "?delta + int (s div 2 ^ code_bits q f s) = int (off + code_index q f s)"
    using sum code_range(1) [OF f s] by (simp add: code_index_def)
  also have "\<dots> mod 2 ^ 16 = int (off + code_index q f s)" using r by (simp del: of_nat_add)
  finally have "(uint16 ?delta + s div 2 ^ code_bits q f s) mod 2 ^ 16 = off + code_index q f s" by (simp only: of_nat_eq_iff)
  then show ?thesis using e(1) bits d by (intro exI [of _ e] exI [of _ ?delta]) simp
qed

lemma decoder_bits_step:
  assumes f: "0 < f" "f \<le> 2 ^ q" and s: "s < 2 ^ q" and q: "q \<le> 10"
  shows "decoder_bits (2 ^ q) f (code_index q f s) = (code_bits q f s, int s - int (s mod 2 ^ code_bits q f s))"
proof -
  let ?k = "fse_shift q f" and ?N = "2 ^ q :: nat" and ?b = "code_bits q f s"
  note k = fse_shift [OF f]
  have N: "?N \<le> 1024" using power_increasing [OF q, of "2 :: nat"] by simp
  have sN: "int16 (int s - int (s mod 2 ^ ?b)) = int s - int (s mod 2 ^ ?b)"
  proof -
    have "s mod 2 ^ ?b \<le> s" by simp
    then show ?thesis using N s by (intro int16_id) linarith+
  qed
  have fj: "f + code_index q f s = (s + ?N) div 2 ^ ?b" using code_range(1) [OF f s] by (simp add: code_index_def)
  have md: "(s + ?N) mod 2 ^ ?b = s mod 2 ^ ?b" using mod_add_power code_bits_le [OF f] by blast
  have dm: "(s + ?N) div 2 ^ ?b * 2 ^ ?b = s + ?N - s mod 2 ^ ?b" by (metis md minus_mod_eq_div_mult)
  have two: "2 * ?N div 2 ^ ?k = 2 ^ (Suc q - ?k)" using power_div_power [of ?k "Suc q"] k(2) by simp
  show ?thesis
  proof (cases "f * 2 ^ ?k \<le> s + ?N")
    case True
    then have b: "?b = ?k" by (simp add: code_bits_def)
    have "(s + ?N) div 2 ^ ?k < 2 * ?N div 2 ^ ?k"
      unfolding two using s k(2) by (simp add: div_less_iff_less_mult flip: power_add)
    then have "code_index q f s < 2 * ?N div 2 ^ ?k - f" unfolding fj [symmetric, unfolded b] by linarith
    moreover have "int ((f + code_index q f s) * 2 ^ ?k) - int ?N = int s - int (s mod 2 ^ ?b)"
    proof -
      have "s mod 2 ^ ?k \<le> s + ?N" by (meson le_add1 le_trans mod_less_eq_dividend)
      then have "int (s + ?N - s mod 2 ^ ?k) = int (s + ?N) - int (s mod 2 ^ ?k)" by (rule of_nat_diff)
      then show ?thesis using dm b by (simp add: fj del: of_nat_mult)
    qed
    ultimately show ?thesis using sN b by (simp add: decoder_bits_def k(1) Let_def)
  next
    case False
    then have b: "?b = ?k - 1" and kp: "0 < ?k" using code_shift_positive [OF f False] by (simp_all add: code_bits_def)
    then obtain c where c: "?k = Suc c" by (cases ?k) auto
    have j0: "2 * ?N div 2 ^ ?k = ?N div 2 ^ ?b" using b c by simp
    have "?N div 2 ^ ?b \<le> (s + ?N) div 2 ^ ?b" by (rule div_le_mono) simp
    then have nj: "\<not> code_index q f s < 2 * ?N div 2 ^ ?k - f" using fj j0 by linarith
    have "f \<le> 2 * ?N div 2 ^ ?k" using k(4) by (simp add: less_eq_div_iff_mult_less_eq)
    then have "code_index q f s - (2 * ?N div 2 ^ ?k - f) = (s + ?N) div 2 ^ ?b - ?N div 2 ^ ?b" using fj j0 by linarith
    also have "\<dots> = s div 2 ^ ?b" using code_bits_le [OF f, of s] by (simp add: div_add_power power_div_power)
    finally have "int ((code_index q f s - (2 * ?N div 2 ^ ?k - f)) * 2 ^ (?k - 1)) = int s - int (s mod 2 ^ ?b)"
      using b by (simp add: minus_mod_eq_div_mult [symmetric] of_nat_diff)
    then show ?thesis using nj sN b by (simp add: decoder_bits_def k(1) Let_def)
  qed
qed

section \<open>Tables\<close>

definition table_offset :: "nat list \<Rightarrow> nat \<Rightarrow> nat" where
  "table_offset freq i = sum_list (take i freq)"

lemma encoder_entries_nth:
  "i < length freq \<Longrightarrow> 0 < freq ! i \<Longrightarrow>
     encoder_entries nstates off freq ! i = encoder_entry nstates (off + table_offset freq i) (freq ! i)"
proof (induction freq arbitrary: i off)
  case (Cons f fs)
  then show ?case by (cases i) (auto simp: table_offset_def add.assoc)
qed simp

lemma length_encoder_entries [simp]: "length (encoder_entries nstates off freq) = length freq"
  by (induction freq arbitrary: off) auto

lemma table_offset_le: "i < length freq \<Longrightarrow> table_offset freq i + freq ! i \<le> sum_list freq"
proof -
  assume "i < length freq"
  then have "sum_list freq = sum_list (take i freq) + (freq ! i + sum_list (drop (Suc i) freq))"
    by (metis Cons_nth_drop_Suc append_take_drop_id sum_list.Cons sum_list_append)
  then show ?thesis by (simp add: table_offset_def)
qed

definition decoder_entry :: "nat \<Rightarrow> nat \<Rightarrow> nat \<Rightarrow> nat \<Rightarrow> fse_decoder_entry" where
  "decoder_entry nstates i f j = (case decoder_bits nstates f j of (k, delta) \<Rightarrow> \<lparr>dec_k = k, dec_symbol = i mod 256, dec_delta = delta\<rparr>)"

lemma decoder_entries_nth:
  assumes "sum_of_freq + sum_list freq \<le> nstates"
  shows "\<exists>t. decoder_entries nstates sum_of_freq i freq = Some t \<and> length t = sum_list freq \<and>
    (\<forall>n < length freq. \<forall>j < freq ! n. t ! (table_offset freq n + j) = decoder_entry nstates (i + n) (freq ! n) j)"
  using assms
proof (induction freq arbitrary: sum_of_freq i)
  case (Cons f fs)
  show ?case
  proof (cases "f = 0")
    case True
    then obtain t where t: "decoder_entries nstates sum_of_freq (Suc i) fs = Some t" "length t = sum_list fs"
      "\<forall>n < length fs. \<forall>j < fs ! n. t ! (table_offset fs n + j) = decoder_entry nstates (Suc i + n) (fs ! n) j"
      using Cons.IH [of sum_of_freq "Suc i"] Cons.prems by auto
    have "t ! (table_offset (f # fs) n + j) = decoder_entry nstates (i + n) ((f # fs) ! n) j"
      if "n < length (f # fs)" "j < (f # fs) ! n" for n j
      using that t(3) True by (cases n) (auto simp: table_offset_def)
    then show ?thesis using t True by auto
  next
    case False
    obtain t where t: "decoder_entries nstates (sum_of_freq + f) (Suc i) fs = Some t" "length t = sum_list fs"
      "\<forall>n < length fs. \<forall>j < fs ! n. t ! (table_offset fs n + j) = decoder_entry nstates (Suc i + n) (fs ! n) j"
      using Cons.IH [of "sum_of_freq + f" "Suc i"] Cons.prems by auto
    let ?t = "map (decoder_entry nstates i f) [0..<f] @ t"
    have "?t ! (table_offset (f # fs) n + j) = decoder_entry nstates (i + n) ((f # fs) ! n) j"
      if "n < length (f # fs)" "j < (f # fs) ! n" for n j
      using that t(3) by (cases n) (auto simp: table_offset_def nth_append add.assoc)
    moreover have "decoder_entries nstates sum_of_freq i (f # fs) = Some ?t"
      using t(1) False Cons.prems by (simp add: decoder_entry_def [abs_def])
    ultimately show ?thesis using t(2) by auto
  qed
qed (auto simp: table_offset_def)

definition value_entry :: "nat \<Rightarrow> nat \<Rightarrow> int \<Rightarrow> nat \<Rightarrow> nat \<Rightarrow> fse_value_decoder_entry" where
  "value_entry nstates vbits vbase f j = (case decoder_bits nstates f j of (k, delta) \<Rightarrow>
     \<lparr>val_total_bits = k + vbits, val_value_bits = vbits, val_delta = delta, val_vbase = vbase\<rparr>)"

lemma value_entries_nth:
  assumes "length vbits = length freq" and "length vbase = length freq"
  shows "length (value_entries nstates (zip freq (zip vbits vbase))) = sum_list freq \<and>
    (\<forall>n < length freq. \<forall>j < freq ! n.
       value_entries nstates (zip freq (zip vbits vbase)) ! (table_offset freq n + j) =
         value_entry nstates (vbits ! n) (vbase ! n) (freq ! n) j)"
  using assms
proof (induction freq arbitrary: vbits vbase)
  case (Cons f fs)
  obtain v vs w ws where vw: "vbits = v # vs" "vbase = w # ws" using Cons.prems by (cases vbits; cases vbase) auto
  let ?t = "value_entries nstates (zip fs (zip vs ws))"
  have IH: "length ?t = sum_list fs"
    "\<forall>n < length fs. \<forall>j < fs ! n. ?t ! (table_offset fs n + j) = value_entry nstates (vs ! n) (ws ! n) (fs ! n) j"
    using Cons.IH [of vs ws] Cons.prems vw by auto
  have eq: "value_entries nstates (zip (f # fs) (zip vbits vbase)) = map (value_entry nstates v w f) [0..<f] @ ?t"
    by (simp add: vw value_entry_def [abs_def])
  have "value_entries nstates (zip (f # fs) (zip vbits vbase)) ! (table_offset (f # fs) n + j) =
      value_entry nstates (vbits ! n) (vbase ! n) ((f # fs) ! n) j" if "n < length (f # fs)" "j < (f # fs) ! n" for n j
    unfolding eq using that IH(2) vw by (cases n) (auto simp: table_offset_def nth_append add.assoc)
  then show ?case using IH(1) eq by auto
qed simp

section \<open>Coding steps\<close>

text \<open>A normalized frequency table over \<open>2 ^ q\<close> states, and the state that encoding symbol \<open>i\<close> leads to.\<close>

definition freq_table :: "nat \<Rightarrow> nat list \<Rightarrow> bool" where
  "freq_table q freq \<longleftrightarrow> q \<le> 10 \<and> length freq \<le> 256 \<and> sum_list freq = 2 ^ q"

definition next_state :: "nat \<Rightarrow> nat list \<Rightarrow> nat \<Rightarrow> nat \<Rightarrow> nat" where
  "next_state q freq i s = table_offset freq i + code_index q (freq ! i) s"

lemma freq_le: "freq_table q freq \<Longrightarrow> i < length freq \<Longrightarrow> freq ! i \<le> 2 ^ q"
  using table_offset_le [of i freq] by (simp add: freq_table_def)

lemma next_state_less:
  assumes "freq_table q freq" and "i < length freq" and "0 < freq ! i" and "s < 2 ^ q"
  shows "next_state q freq i s < 2 ^ q"
  using code_index_less [OF assms(3) freq_le [OF assms(1,2)] assms(4)] table_offset_le [OF assms(2)] assms(1)
  by (simp add: next_state_def freq_table_def)

lemma fse_encode_step:
  assumes "freq_table q freq" and "i < length freq" and "0 < freq ! i" and "s < 2 ^ q"
  shows "fse_encode s (fse_init_encoder_table (2 ^ q) freq) out i =
    rbind (fse_out_push out (code_bits q (freq ! i) s) (s mod 2 ^ code_bits q (freq ! i) s))
      (\<lambda>out'. Inr (next_state q freq i s, out'))"
proof -
  have q: "q \<le> 10" "table_offset freq i \<le> 2 ^ q" using assms(1) table_offset_le [OF assms(2)] by (simp_all add: freq_table_def)
  obtain e delta where st: "encoder_entry (2 ^ q) (table_offset freq i) (freq ! i) = Some e"
    "nat (if int s \<ge> enc_s0 e then enc_k e else enc_k e - 1) = code_bits q (freq ! i) s"
    "(if int s \<ge> enc_s0 e then Some (enc_delta0 e) else enc_delta1 e) = Some delta"
    "(uint16 delta + s div 2 ^ code_bits q (freq ! i) s) mod 2 ^ 16 = table_offset freq i + code_index q (freq ! i) s"
    using encoder_entry_step [OF assms(3) freq_le [OF assms(1,2)] assms(4) q] by blast
  have e: "fse_init_encoder_table (2 ^ q) freq ! i = Some e" "i < length (fse_init_encoder_table (2 ^ q) freq)"
    using encoder_entries_nth [OF assms(2,3), of "2 ^ q" 0] assms(2) st(1) by (simp_all add: fse_init_encoder_table_def)
  show ?thesis unfolding fse_encode_def Let_def using e(2) st(4) by (simp add: e(1) st(2,3) fse_mask_lsb_def next_state_def)
qed

lemma uint16_add:
  assumes "b \<le> s" and "s < 2 ^ 16"
  shows "(uint16 (int s - int b) + b) mod 2 ^ 16 = s" and "uint16 (int s - int b + int b) = s"
  using assms by (auto simp: uint16_def nat_diff_distrib)

lemma fse_decode_step:
  assumes "freq_table q freq" and "i < length freq" and "0 < freq ! i" and "s < 2 ^ q"
    and "decoder_entries (2 ^ q) 0 0 freq = Some t"
    and "fse_in_pull inp (code_bits q (freq ! i) s) = Inr (s mod 2 ^ code_bits q (freq ! i) s, inp')"
  shows "fse_decode (next_state q freq i s) t inp = Inr (i, s, inp')"
proof -
  let ?f = "freq ! i" and ?b = "s mod 2 ^ code_bits q (freq ! i) s"
  note f = assms(3) freq_le [OF assms(1,2)]
  have q: "q \<le> 10" "length freq \<le> 256" "0 + sum_list freq \<le> 2 ^ q" using assms(1) by (simp_all add: freq_table_def)
  have t: "length t = 2 ^ q" "t ! next_state q freq i s = decoder_entry (2 ^ q) i ?f (code_index q ?f s)"
    using decoder_entries_nth [OF q(3), of 0] assms(1,2,5) code_index_less [OF f assms(4)]
    by (auto simp: next_state_def freq_table_def)
  have s16: "s < 2 ^ 16" using assms(4) power_increasing [OF q(1), of "2 :: nat"] by simp
  have b: "?b \<le> s" by simp
  have "?b mod 2 ^ 16 = ?b" by (rule mod_less, rule le_less_trans [OF b s16])
  then have "(uint16 (int s - int ?b) + ?b mod 2 ^ 16) mod 2 ^ 16 = s" using uint16_add(1) [OF b s16] by simp
  then show ?thesis
    unfolding fse_decode_def Let_def
    using t next_state_less [OF assms(1-4)] decoder_bits_step [OF f assms(4) q(1)] assms(2,6) q(2)
    by (simp add: decoder_entry_def)
qed

lemma fse_value_decode_step:
  assumes "freq_table q freq" and "i < length freq" and "0 < freq ! i" and "s < 2 ^ q"
    and "length vbits = length freq" and "length vbase = length freq"
    and "fse_in_pull inp (code_bits q (freq ! i) s + vbits ! i) = Inr (s mod 2 ^ code_bits q (freq ! i) s * 2 ^ (vbits ! i) + x, inp')"
    and "x < 2 ^ (vbits ! i)" and "vbits ! i \<le> 15"
  shows "fse_value_decode (next_state q freq i s) (value_entries (2 ^ q) (zip freq (zip vbits vbase))) inp =
    Inr (vbase ! i + int x, s, inp')"
proof -
  let ?f = "freq ! i" and ?c = "code_bits q (freq ! i) s" and ?v = "vbits ! i"
  let ?b = "s mod 2 ^ ?c * 2 ^ ?v + x" and ?t = "value_entries (2 ^ q) (zip freq (zip vbits vbase))"
  note f = assms(3) freq_le [OF assms(1,2)]
  have q: "q \<le> 10" using assms(1) by (simp add: freq_table_def)
  have t: "length ?t = 2 ^ q" "?t ! next_state q freq i s = value_entry (2 ^ q) ?v (vbase ! i) ?f (code_index q ?f s)"
    using value_entries_nth [OF assms(5,6), of "2 ^ q"] assms(1,2) code_index_less [OF f assms(4)]
    by (auto simp: next_state_def freq_table_def)
  have s: "s < 1024" using assms(4) power_increasing [OF q, of "2 :: nat"] by simp
  have "s mod 2 ^ ?c + 1 \<le> 1024" using s mod_less_eq_dividend [of s "2 ^ ?c"] by linarith
  have "?b < (s mod 2 ^ ?c + 1) * 2 ^ ?v" using assms(8) by simp
  also have "\<dots> \<le> 1024 * 2 ^ 15" using \<open>s mod 2 ^ ?c + 1 \<le> 1024\<close> power_increasing [OF assms(9), of "2 :: nat"] by (intro mult_mono) auto
  finally have b32: "?b mod 2 ^ 32 = ?b" by simp
  have parts: "?b mod 2 ^ ?v = x" "?b div 2 ^ ?v = s mod 2 ^ ?c" using assms(8) by auto
  have "uint16 (int s - int (s mod 2 ^ ?c) + int (s mod 2 ^ ?c)) = s" using uint16_add(2) [of "s mod 2 ^ ?c" s] s by simp
  then show ?thesis
    unfolding fse_value_decode_def Let_def
    using t next_state_less [OF assms(1-4)] decoder_bits_step [OF f assms(4) q] assms(7) b32 parts
    by (simp add: value_entry_def fse_mask_lsb_def)
qed

end
