(* ===== verification/LZVN_Emit.thy ===== *)
theory LZVN_Emit
  imports LZVN_Encode
begin

text \<open>
  What the emitters of the LZVN encoder write is decoded to what they were given: every emitter
  appends instructions that carry the decoder over the literal and the match it stands for, or
  reports that the destination is full and leaves what was written before untouched.
\<close>

section \<open>The emitters\<close>

definition emits :: "string \<Rightarrow> nat \<Rightarrow> nat \<Rightarrow> string \<Rightarrow> nat \<Rightarrow> string \<Rightarrow> nat \<Rightarrow> nat \<Rightarrow> nat \<Rightarrow> bool" where
  "emits s p D dst q dst' q' p' D' \<longleftrightarrow>
     (\<exists>bytes. appended dst q bytes dst' \<and> q' = q + length bytes \<and> decodes s p D bytes p' D')"

lemma emitsI: "appended dst q bytes dst' \<Longrightarrow> decodes s p D bytes p' D' \<Longrightarrow> q' = q + length bytes \<Longrightarrow> emits s p D dst q dst' q' p' D'"
  by (auto simp: emits_def)

lemma emits_refl: "p \<le> length s \<Longrightarrow> emits s p D dst q dst q p D"
  by (rule emitsI [OF appended_Nil decodes_Nil]) auto

lemma emits_trans:
  assumes "emits s p D dst q d1 q1 p1 D1" and "emits s p1 D1 d1 q1 d2 q2 p2 D2"
  shows "emits s p D dst q d2 q2 p2 D2"
proof -
  obtain xs where xs: "appended dst q xs d1" "q1 = q + length xs" "decodes s p D xs p1 D1"
    using assms(1) by (auto simp: emits_def)
  obtain ys where ys: "appended d1 q1 ys d2" "q2 = q1 + length ys" "decodes s p1 D1 ys p2 D2"
    using assms(2) by (auto simp: emits_def)
  show ?thesis
    by (rule emitsI [of dst q "xs @ ys"]) (use xs ys in \<open>auto intro: appended_trans decodes_append\<close>)
qed

lemma emits_keeps: "emits s p D dst q dst' q' p' D' \<Longrightarrow> q \<le> length dst \<Longrightarrow> appended dst q [] dst' \<and> length dst' = length dst \<and> q \<le> q'"
  by (auto simp: emits_def appended_def intro: appended_take [unfolded appended_def])

lemma appended_Nil_trans: "appended a q [] b \<Longrightarrow> appended b q' [] c \<Longrightarrow> q \<le> q' \<Longrightarrow> q' \<le> length a \<Longrightarrow> appended a q [] c"
  by (auto simp: appended_def min_def dest: arg_cong [of _ _ "take q"])

definition out_ok :: "string \<Rightarrow> nat \<Rightarrow> 'a out \<Rightarrow> ('a \<Rightarrow> bool) \<Rightarrow> bool" where
  "out_ok dst q r P = (case r of OUT_FULL d \<Rightarrow> appended dst q [] d | Out x \<Rightarrow> P x)"

lemma out_ok_simps [simp]: "out_ok dst q (OUT_FULL d) P = appended dst q [] d" "out_ok dst q (Out x) P = P x"
  by (simp_all add: out_ok_def)

lemma out_ok_mono: "out_ok dst q r P \<Longrightarrow> (\<And>x. P x \<Longrightarrow> Q x) \<Longrightarrow> out_ok dst q r Q"
  by (cases r) auto

lemma store1_appended: "q < length dst \<Longrightarrow> c < 256 \<Longrightarrow> \<exists>d. store1 dst q c = Inr d \<and> appended dst q [char_of c] d"
  using store_bytes_appended [of q "le_bytes 1 c" dst] by (simp add: store1_def)

lemma store2_appended: "q + 2 \<le> length dst \<Longrightarrow> \<exists>d. store2 dst q c = Inr d \<and> appended dst q (le_bytes 2 c) d"
  using store_bytes_appended [of q "le_bytes 2 c" dst] by (simp add: store2_def)

lemma long_literals_emits:
  assumes "0 < w" and "w \<le> 8" and "p + L + (w - 1) \<le> length src" and "q \<le> q1" and "q1 \<le> length dst"
  shows "\<exists>r. long_literals (copy_blocks w) src p dst q q1 L = Inr r \<and>
    out_ok dst q r (\<lambda>(p', d, q', L'). emits src p D dst q d q' p' D \<and> p' + L' = p + L \<and> L' \<le> 15 \<and> q' \<le> q1)"
  using assms(3-)
proof (induction L arbitrary: p dst q rule: less_induct)
  case (less L)
  consider (small) "L \<le> 15" | (full) "L > 15" "q + min L 271 + 10 \<ge> q1" | (room) "L > 15" "q + min L 271 + 10 < q1"
    by linarith
  then show ?case
  proof cases
    case small
    then show ?thesis using less.prems by (subst long_literals.simps) (auto intro: emits_refl)
  next
    case full
    then have "q1 \<le> q + (if L < 271 then L else 271) + 10" by (simp add: min_def split: if_splits)
    with full(1) show ?thesis by (subst long_literals.simps) (simp add: Let_def)
  next
    case room
    define x where "x = min L 271"
    have x: "16 \<le> x" "x \<le> 271" "x \<le> L" "(if L < 271 then L else 271) = x" using room by (auto simp: x_def)
    obtain d1 where d1: "store2 dst q (224 + (x - 16) * 256) = Inr d1" "appended dst q (le_bytes 2 (224 + (x - 16) * 256)) d1"
      using store2_appended [of q dst] room less.prems by (auto simp: x_def)
    have l1: "length d1 = length dst" using d1(2) by (simp add: appended_def)
    have "p + x + (w - 1) \<le> length src" "q + 2 + x + (w - 1) \<le> length d1"
      using room(2) x(3) less.prems assms(1,2) l1 by (auto simp: x_def)
    from copy_blocks_appended [OF assms(1) this] obtain d2
      where d2: "copy_blocks w src p d1 (q + 2) x = Inr d2" "appended d1 (q + 2) (take x (drop p src)) d2" by blast
    have px: "p + x \<le> length src" using less.prems x by linarith
    have one: "emits src p D dst q d2 (q + 2 + x) (p + x) D"
    proof (rule emitsI)
      show "appended dst q (le_bytes 2 (224 + (x - 16) * 256) @ take x (drop p src)) d2"
        using appended_trans [OF d1(2)] d2(2) by simp
      show "decodes src p D (le_bytes 2 (224 + (x - 16) * 256) @ take x (drop p src)) (p + x) D"
        by (rule decodes_lrg_l) (use x px in auto)
    qed (use px in auto)
    have l2: "length d2 = length dst" using d2(2) l1 by (simp add: appended_def)
    have "\<exists>r. long_literals (copy_blocks w) src (p + x) d2 (q + 2 + x) q1 (L - x) = Inr r \<and>
      out_ok d2 (q + 2 + x) r (\<lambda>(p', d, q', L'). emits src (p + x) D d2 (q + 2 + x) d q' p' D \<and> p' + L' = p + x + (L - x) \<and> L' \<le> 15 \<and> q' \<le> q1)"
      by (rule less.IH) (use x room less.prems l2 in \<open>auto simp: x_def\<close>)
    then obtain r where r: "long_literals (copy_blocks w) src (p + x) d2 (q + 2 + x) q1 (L - x) = Inr r"
      "out_ok d2 (q + 2 + x) r (\<lambda>(p', d, q', L'). emits src (p + x) D d2 (q + 2 + x) d q' p' D \<and> p' + L' = p + L \<and> L' \<le> 15 \<and> q' \<le> q1)"
      using x by auto
    have "long_literals (copy_blocks w) src p dst q q1 L = Inr r"
      using room x d1(1) d2(1) r(1) by (subst long_literals.simps) (simp add: Let_def x_def [symmetric])
    moreover have "out_ok dst q r (\<lambda>(p', d, q', L'). emits src p D dst q d q' p' D \<and> p' + L' = p + L \<and> L' \<le> 15 \<and> q' \<le> q1)"
    proof (cases r)
      case (OUT_FULL d)
      then show ?thesis
        using r(2) emits_keeps [OF one] less.prems room by (auto simp: x_def intro: appended_Nil_trans [of dst q d2 "q + 2 + x"])
    next
      case (Out t)
      then show ?thesis using r(2) by (auto intro: emits_trans [OF one])
    qed
    ultimately show ?thesis by blast
  qed
qed

lemma short_literal_emits:
  assumes "0 < w" and "w \<le> 8" and "0 < L" and "L \<le> 15" and "p + L + (w - 1) \<le> length src" and "q1 \<le> length dst"
  shows "\<exists>r. short_literal (copy_blocks w) src p dst q q1 L = Inr r \<and>
    out_ok dst q r (\<lambda>(d, q'). emits src p D dst q d q' (p + L) D \<and> q < q' \<and> q' \<le> q1)"
proof (cases "q + L + 10 \<ge> q1")
  case True
  then show ?thesis by (simp add: short_literal_def)
next
  case False
  obtain d1 where d1: "store1 dst q (224 + L) = Inr d1" "appended dst q [char_of (224 + L)] d1"
    using store1_appended [of q dst "224 + L"] False assms by auto
  have l1: "length d1 = length dst" using d1(2) by (simp add: appended_def)
  obtain d2 where d2: "copy_blocks w src p d1 (q + 1) L = Inr d2" "appended d1 (q + 1) (take L (drop p src)) d2"
    using copy_blocks_appended [of w p L src "q + 1" d1] False assms l1 by auto
  have pL: "p + L \<le> length src" using assms by linarith
  have "emits src p D dst q d2 (q + 1 + L) (p + L) D"
  proof (rule emitsI)
    show "appended dst q ([char_of (224 + L)] @ take L (drop p src)) d2" using appended_trans [OF d1(2)] d2(2) by simp
    show "decodes src p D ([char_of (224 + L)] @ take L (drop p src)) (p + L) D"
      by (rule decodes_sml_l) (use assms pL in auto)
  qed (use pL in auto)
  then show ?thesis using False d1(1) d2(1) by (auto simp: short_literal_def)
qed

text \<open>Four literal bytes are stored behind the opcode, the position advances by the \<open>L\<close> that count.\<close>

lemma store_literal:
  assumes "appended dst q ops d1" and "q + length ops + 4 \<le> length dst" and "L \<le> 4" and "p + 4 \<le> length src"
  shows "\<exists>d2. store_bytes d1 (q + length ops) (take 4 (drop p src)) = Inr d2 \<and> appended dst q (ops @ take L (drop p src)) d2"
proof -
  let ?lit = "take 4 (drop p src)"
  have len: "length ?lit = 4" using assms(4) by simp
  then obtain d2 where d2: "store_bytes d1 (q + length ops) ?lit = Inr d2" "appended d1 (q + length ops) ?lit d2"
    using store_bytes_appended [of "q + length ops" ?lit d1] assms by (auto simp: appended_def)
  have "appended dst q (take (length ops + L) (ops @ ?lit)) d2"
    by (rule appended_prefix [OF appended_trans [OF assms(1) d2(2)]]) (use assms len in auto)
  then show ?thesis using d2(1) assms(3) by (simp add: min_def)
qed

lemma emit_distance_emits:
  assumes "L < 4" and "x + 2 * L \<le> 7" and mat: "match_at src (p + L) (x + 3 + M) D" and "D < 65536"
    and p: "p + 4 \<le> length src" and q: "q + 8 \<le> length dst"
  shows "\<exists>d q' M'. emit_distance dst q (take 4 (drop p src)) L x M D D_prev = Inr (d, q', M') \<and> M' \<le> M \<and> q < q' \<and>
    emits src p D_prev dst q d q' (p + L + (x + 3) + (M - M')) D"
proof -
  have m: "match_at src (p + L) (x + 3) D" using mat by (simp add: match_at_add [of _ _ "x + 3"])
  have len: "length (take L (drop p src)) = L" using p assms(1) by simp
  have q1: "q < length dst" using q by simp
  consider (pre) "D = D_prev" "L \<noteq> 0" | (pre0) "D = D_prev" "L = 0" | (sml) "D \<noteq> D_prev" "D < 1536"
    | (lrg) "D \<noteq> D_prev" "1536 \<le> D" "D \<ge> 16384 \<or> M = 0 \<or> (x + 3) + M > 34"
    | (med) "D \<noteq> D_prev" "1536 \<le> D" "\<not> (D \<ge> 16384 \<or> M = 0 \<or> (x + 3) + M > 34)" by linarith
  then show ?thesis
  proof cases
    case pre
    have "L * 64 + x * 8 + 6 < 256" using assms(1,2) by linarith
    from store1_appended [OF q1 this] obtain d1
      where d1: "store1 dst q (L * 64 + x * 8 + 6) = Inr d1" "appended dst q [char_of (L * 64 + x * 8 + 6)] d1" by blast
    from store_literal [OF this(2) _ _ p, of L] assms q obtain d2
      where d2: "store_bytes d1 (q + 1) (take 4 (drop p src)) = Inr d2"
        "appended dst q ([char_of (L * 64 + x * 8 + 6)] @ take L (drop p src)) d2" by auto
    have "emits src p D dst q d2 (q + 1 + L) (p + L + (x + 3)) D"
      by (rule emitsI [OF d2(2)]) (use pre assms m len in \<open>auto intro!: decodes_pre_d simp del: append.simps\<close>)
    with pre d1(1) d2(1) show ?thesis by (auto simp: emit_distance_def)
  next
    case pre0
    obtain d1 where d1: "store1 dst q (240 + (x + 3)) = Inr d1" "appended dst q [char_of (240 + (x + 3))] d1"
      using store1_appended [of q dst "240 + (x + 3)"] q assms(2) by auto
    from store_literal [OF this(2) _ _ p, of 0] q obtain d2
      where d2: "store_bytes d1 (q + 1) (take 4 (drop p src)) = Inr d2" "appended dst q [char_of (240 + (x + 3))] d2" by auto
    have "emits src p D dst q d2 (q + 1) (p + (x + 3)) D"
      by (rule emitsI [OF d2(2) decodes_sml_m]) (use pre0 assms(2) m in auto)
    with pre0 d1(1) d2(1) show ?thesis by (auto simp: emit_distance_def)
  next
    case sml
    let ?c = "D div 256 + L * 64 + x * 8"
    have "?c < 256" using sml(2) assms(1,2) by linarith
    from store1_appended [OF q1 this] obtain d1 where d1: "store1 dst q ?c = Inr d1" "appended dst q [char_of ?c] d1" by blast
    obtain d2 where d2: "store1 d1 (q + 1) (D mod 256) = Inr d2" "appended d1 (q + 1) [char_of (D mod 256)] d2"
      using store1_appended [of "q + 1" d1 "D mod 256"] q d1(2) by (auto simp: appended_def)
    have a: "appended dst q [char_of ?c, char_of (D mod 256)] d2" using appended_trans [OF d1(2)] d2(2) by force
    from store_literal [OF this _ _ p, of L] assms(1) q obtain d3
      where d3: "store_bytes d2 (q + 2) (take 4 (drop p src)) = Inr d3"
        "appended dst q ([char_of ?c, char_of (D mod 256)] @ take L (drop p src)) d3" by (auto simp: numeral_2_eq_2)
    have "emits src p D_prev dst q d3 (q + 2 + L) (p + L + (x + 3)) D"
      by (rule emitsI [OF d3(2) decodes_sml_d [OF assms(1,2) sml(2) m]]) (use len in auto)
    with sml d1(1) d2(1) d3(1) show ?thesis by (auto simp: emit_distance_def)
  next
    case lrg
    let ?c = "L * 64 + x * 8 + 7"
    have "?c < 256" using assms(1,2) by linarith
    from store1_appended [OF q1 this] obtain d1 where d1: "store1 dst q ?c = Inr d1" "appended dst q [char_of ?c] d1" by blast
    obtain d2 where d2: "store2 d1 (q + 1) D = Inr d2" "appended d1 (q + 1) (le_bytes 2 D) d2"
      using store2_appended [of "q + 1" d1 D] q d1(2) by (auto simp: appended_def)
    have a: "appended dst q (char_of ?c # le_bytes 2 D) d2" using appended_trans [OF d1(2)] d2(2) by force
    from store_literal [OF this _ _ p, of L] assms(1) q obtain d3
      where d3: "store_bytes d2 (q + 3) (take 4 (drop p src)) = Inr d3"
        "appended dst q ((char_of ?c # le_bytes 2 D) @ take L (drop p src)) d3" by (auto simp: numeral_3_eq_3)
    have "emits src p D_prev dst q d3 (q + 3 + L) (p + L + (x + 3)) D"
      by (rule emitsI [OF d3(2) decodes_lrg_d [OF assms(1,2,4) m]]) (use len in auto)
    with lrg d1(1) d2(1) d3(1) show ?thesis by (auto simp: emit_distance_def)
  next
    case med
    let ?y = "x + M"
    let ?c = "160 + ?y div 4 + L * 8"
    have y: "?y < 32" "D < 16384" using med(3) by auto
    then have "?c < 256" using assms(1) by linarith
    from store1_appended [OF q1 this] obtain d1 where d1: "store1 dst q ?c = Inr d1" "appended dst q [char_of ?c] d1" by blast
    obtain d2 where d2: "store2 d1 (q + 1) (D * 4 + ?y mod 4) = Inr d2" "appended d1 (q + 1) (le_bytes 2 (D * 4 + ?y mod 4)) d2"
      using store2_appended [of "q + 1" d1] q d1(2) by (auto simp: appended_def)
    have a: "appended dst q (char_of ?c # le_bytes 2 (D * 4 + ?y mod 4)) d2" using appended_trans [OF d1(2)] d2(2) by force
    from store_literal [OF this _ _ p, of L] assms(1) q obtain d3
      where d3: "store_bytes d2 (q + 3) (take 4 (drop p src)) = Inr d3"
        "appended dst q ((char_of ?c # le_bytes 2 (D * 4 + ?y mod 4)) @ take L (drop p src)) d3" by (auto simp: numeral_3_eq_3)
    have eq: "?y + 3 = x + 3 + M" by simp
    have "match_at src (p + L) (?y + 3) D" unfolding eq by (rule mat)
    then have "emits src p D_prev dst q d3 (q + 3 + L) (p + L + (?y + 3)) D"
      by (rule emitsI [OF d3(2) decodes_med_d [OF assms(1) y]]) (use len in auto)
    with med d1(1) d2(1) d3(1) show ?thesis by (auto simp: emit_distance_def Let_def add_ac)
  qed
qed

lemma long_matches_emits:
  assumes "match_at s p M D" and "q \<le> q1" and "q1 \<le> length dst"
  shows "\<exists>r. long_matches dst q q1 M = Inr r \<and> out_ok dst q r (\<lambda>(d, q'). emits s p D dst q d q' (p + M) D)"
  using assms
proof (induction M arbitrary: p dst q rule: less_induct)
  case (less M)
  have pM: "p + M \<le> length s" using less.prems by (simp add: match_at_def)
  consider (none) "M = 0" | (full) "0 < M" "q + (if M > 15 then 2 else 1) \<ge> q1" | (sml) "0 < M" "M \<le> 15" "q + 1 < q1" | (lrg) "M > 15" "q + 2 < q1"
    by (force split: if_splits)
  then show ?case
  proof cases
    case none
    then show ?thesis using pM by (subst long_matches.simps) (auto intro: emits_refl)
  next
    case full
    then show ?thesis by (subst long_matches.simps) (auto split: if_splits)
  next
    case sml
    then obtain d where d: "store1 dst q (240 + M) = Inr d" "appended dst q [char_of (240 + M)] d"
      using store1_appended [of q dst "240 + M"] less.prems by auto
    have "emits s p D dst q d (q + 1) (p + M) D"
      by (rule emitsI [OF d(2) decodes_sml_m]) (use sml less.prems in auto)
    with sml d(1) show ?thesis by (subst long_matches.simps) simp
  next
    case lrg
    define x where "x = (if M < 271 then M else 271)"
    have x: "16 \<le> x" "x \<le> 271" "x \<le> M" "M = x + (M - x)" using lrg by (auto simp: x_def)
    obtain d where d: "store2 dst q (240 + (x - 16) * 256) = Inr d" "appended dst q (le_bytes 2 (240 + (x - 16) * 256)) d"
      using store2_appended [of q dst] lrg less.prems by auto
    have m: "match_at s p x D" "match_at s (p + x) (M - x) D" using less.prems(1) x(4) match_at_add [of s p x "M - x" D] by auto
    have one: "emits s p D dst q d (q + 2) (p + x) D"
      by (rule emitsI [OF d(2) decodes_lrg_m]) (use x m in auto)
    have "\<exists>r. long_matches d (q + 2) q1 (M - x) = Inr r \<and> out_ok d (q + 2) r (\<lambda>(d', q'). emits s (p + x) D d (q + 2) d' q' (p + x + (M - x)) D)"
      by (rule less.IH) (use m x lrg less.prems d(2) in \<open>auto simp: appended_def\<close>)
    then obtain r where r: "long_matches d (q + 2) q1 (M - x) = Inr r"
      "out_ok d (q + 2) r (\<lambda>(d', q'). emits s (p + x) D d (q + 2) d' q' (p + M) D)" using x by auto
    have "long_matches dst q q1 M = Inr r" using lrg d(1) r(1) by (subst long_matches.simps) (simp add: Let_def x_def)
    moreover have "out_ok dst q r (\<lambda>(d', q'). emits s p D dst q d' q' (p + M) D)"
    proof (cases r)
      case (OUT_FULL d')
      then show ?thesis
        using r(2) emits_keeps [OF one] less.prems lrg by (auto intro: appended_Nil_trans [of dst q d "q + 2"])
    next
      case (Out t)
      then show ?thesis using r(2) by (auto intro: emits_trans [OF one])
    qed
    ultimately show ?thesis by blast
  qed
qed

text \<open>The two emitters: full, or the instructions for the literal and the match.\<close>

definition emitted :: "string \<Rightarrow> nat \<Rightarrow> nat \<Rightarrow> string \<Rightarrow> nat \<Rightarrow> nat \<Rightarrow> nat \<Rightarrow> nat \<Rightarrow> string \<times> nat \<Rightarrow> bool" where
  "emitted s p D dst q q1 p' D' r \<longleftrightarrow> (case r of (d, q') \<Rightarrow> appended dst q [] d \<and>
     (q' = q1 \<or> emits s p D dst q d q' p' D'))"

lemma out_position_emitted:
  assumes "\<exists>r. m = Inr r \<and> out_ok dst q r (\<lambda>(d, q'). emits s p D dst q d q' p' D')" and "q \<le> length dst"
  shows "\<exists>r. out_position q1 m = Inr r \<and> emitted s p D dst q q1 p' D' r"
proof -
  obtain r where r: "m = Inr r" "out_ok dst q r (\<lambda>(d, q'). emits s p D dst q d q' p' D')" using assms(1) by blast
  then show ?thesis using emits_keeps assms(2) by (cases r) (fastforce simp: out_position_def emitted_def)+
qed

text \<open>Sequencing: a second emission that starts where the first one ended.\<close>

lemma obind_emits:
  assumes "emits s p D dst q d1 q1 p1 D1" and "q \<le> length dst" and "q1 \<le> length dst"
    and "\<exists>r. m = Inr r \<and> out_ok d1 q1 r (\<lambda>(d, q'). emits s p1 D1 d1 q1 d q' p' D')"
  shows "\<exists>r. m = Inr r \<and> out_ok dst q r (\<lambda>(d, q'). emits s p D dst q d q' p' D')"
proof -
  obtain r where r: "m = Inr r" "out_ok d1 q1 r (\<lambda>(d, q'). emits s p1 D1 d1 q1 d q' p' D')" using assms(4) by blast
  note k = emits_keeps [OF assms(1,2)]
  from r show ?thesis
    using k assms(3) by (cases r) (auto intro: emits_trans [OF assms(1)] appended_Nil_trans [of dst q d1 q1])
qed

lemma emit_literal_emitted:
  assumes "p + L \<le> length src" and "q \<le> q1" and "q1 \<le> length dst"
  shows "\<exists>r. emit_literal src p dst q q1 L = Inr r \<and> emitted src p D dst q q1 (p + L) D r"
  unfolding emit_literal_def
proof (rule out_position_emitted)
  have copy: "lzvn_copy8 = copy_blocks 1" by (intro ext) (simp add: lzvn_copy8_def)
  obtain r where r: "long_literals (copy_blocks 1) src p dst q q1 L = Inr r"
    "out_ok dst q r (\<lambda>(p', d, q', L'). emits src p D dst q d q' p' D \<and> p' + L' = p + L \<and> L' \<le> 15 \<and> q' \<le> q1)"
    using long_literals_emits [of 1 p L src q q1 dst D] assms by auto
  show "\<exists>r. obind (long_literals lzvn_copy8 src p dst q q1 L)
      (\<lambda>(p, d, q, L). if L > 0 then short_literal lzvn_copy8 src p d q q1 L else Inr (Out (d, q))) = Inr r \<and>
      out_ok dst q r (\<lambda>(d, q'). emits src p D dst q d q' (p + L) D)"
  proof (cases r)
    case (OUT_FULL d)
    then show ?thesis using r by (simp add: copy obind_Inr)
  next
    case (Out t)
    then obtain p' d q' L' where t: "t = (p', d, q', L')" by (cases t)
    with r Out have e: "emits src p D dst q d q' p' D" "p' + L' = p + L" "L' \<le> 15" "q' \<le> q1" by auto
    have "\<exists>r. (if L' > 0 then short_literal lzvn_copy8 src p' d q' q1 L' else Inr (Out (d, q'))) = Inr r \<and>
        out_ok d q' r (\<lambda>(d', q''). emits src p' D d q' d' q'' (p + L) D)"
    proof (cases "L' > 0")
      case True
      then show ?thesis
        using short_literal_emits [of 1 L' p' src q1 d q' D] emits_keeps [OF e(1)] e assms
        by (auto simp: copy elim!: out_ok_mono)
    next
      case False
      then show ?thesis using e assms by (auto intro: emits_refl)
    qed
    from obind_emits [OF e(1) _ _ this] e(4) assms show ?thesis using r(1) Out t by (simp add: copy obind_Inr)
  qed
qed (use assms in auto)

lemma emit_tail_emits:
  assumes "L < 4" and "3 \<le> M" and mat: "match_at src (p + L) M D" and "D < 65536" and "p + 4 \<le> length src"
    and "q \<le> q1" and "q1 \<le> length dst"
  shows "\<exists>r. (let x = (if M \<le> 10 - 2 * L then M else 10 - 2 * L) in
         rbind (load_bytes 4 src p) (\<lambda>literal.
           if q + 8 \<ge> q1 then Inr (OUT_FULL dst)
           else rbind (emit_distance dst q literal L (x - 3) (M - x) D D_prev) (\<lambda>(d, q, M). long_matches d q q1 M))) = Inr r \<and>
      out_ok dst q r (\<lambda>(d, q'). emits src p D_prev dst q d q' (p + L + M) D)"
proof (cases "q + 8 \<ge> q1")
  case True
  then show ?thesis using assms by (simp add: Let_def)
next
  case False
  define x where "x = (if M \<le> 10 - 2 * L then M else 10 - 2 * L)"
  have x: "3 \<le> x" "x \<le> M" "x - 3 + 2 * L \<le> 7" "x - 3 + 3 + (M - x) = M" "x - 3 + 3 = x" using assms(1,2) by (auto simp: x_def)
  have m: "match_at src (p + L) (x - 3 + 3 + (M - x)) D" using mat x(4) by simp
  obtain d q' M' where e: "emit_distance dst q (take 4 (drop p src)) L (x - 3) (M - x) D D_prev = Inr (d, q', M')" "M' \<le> M - x"
    "emits src p D_prev dst q d q' (p + L + x + (M - x - M')) D"
    using emit_distance_emits [OF assms(1) x(3) m assms(4,5), of q dst D_prev] False assms x(5) by auto
  have pos: "p + L + x + (M - x - M') = p + L + (M - M')" using e(2) x(2) by simp
  have "M = M - M' + M'" using e(2) by simp
  with mat have "match_at src (p + L + (M - M')) M' D" by (metis match_at_add)
  moreover have "length d = length dst" using emits_keeps [OF e(3)] assms by simp
  moreover have "q' \<le> q1"
    using e(1) False by (auto simp: emit_distance_def Let_def rbind_eq_Inr_iff assms(1) split: if_splits)
      (use assms(1) in simp_all)
  ultimately have "\<exists>r. long_matches d q' q1 M' = Inr r \<and>
      out_ok d q' r (\<lambda>(d', q''). emits src (p + L + (M - M')) D d q' d' q'' (p + L + (M - M') + M') D)"
    using assms by (intro long_matches_emits) auto
  moreover have "p + L + (M - M') + M' = p + L + M" using e(2) by simp
  ultimately have "\<exists>r. long_matches d q' q1 M' = Inr r \<and>
      out_ok d q' r (\<lambda>(d', q''). emits src (p + L + (M - M')) D d q' d' q'' (p + L + M) D)" by simp
  from obind_emits [OF e(3) [unfolded pos] _ _ this] assms \<open>q' \<le> q1\<close>
  have "\<exists>r. long_matches d q' q1 M' = Inr r \<and> out_ok dst q r (\<lambda>(d', q''). emits src p D_prev dst q d' q'' (p + L + M) D)" by simp
  then show ?thesis using False assms(5) e(1) by (simp add: Let_def x_def)
qed

lemma emit_emitted:
  assumes "3 \<le> M" and mat: "match_at src (p + L) M D" and "D < 65536" and "p + L + 8 \<le> length src"
    and "q \<le> q1" and "q1 \<le> length dst"
  shows "\<exists>r. emit src p dst q q1 L M D D_prev = Inr r \<and> emitted src p D_prev dst q q1 (p + L + M) D r"
  unfolding emit_def
proof (rule out_position_emitted)
  have copy: "lzvn_copy64 = copy_blocks 8" by (intro ext) (simp add: lzvn_copy64_def)
  let ?tail = "\<lambda>(p, d, q, L).
         let x = (if M \<le> 10 - 2 * L then M else 10 - 2 * L) in
         rbind (load_bytes 4 src p) (\<lambda>literal.
           if q + 8 \<ge> q1 then Inr (OUT_FULL d)
           else rbind (emit_distance d q literal L (x - 3) (M - x) D D_prev) (\<lambda>(d, q, M). long_matches d q q1 M))"
  let ?lit = "\<lambda>p d q L. if L > 3 then obind (short_literal lzvn_copy64 src p d q q1 L) (\<lambda>(d, q'). Inr (Out (p + L, d, q', 0)))
              else Inr (Out (p, d, q, L))"
  have tail: "\<exists>r. ?tail (p', d, q', L') = Inr r \<and> out_ok d q' r (\<lambda>(d', q''). emits src p' D_prev d q' d' q'' (p + L + M) D)"
    if "p' + L' = p + L" "L' < 4" "q' \<le> q1" "length d = length dst" for p' d q' L'
    using emit_tail_emits [of L' M src p' D q' q1 d D_prev] that assms by simp
  obtain r where r: "long_literals (copy_blocks 8) src p dst q q1 L = Inr r"
    "out_ok dst q r (\<lambda>(p', d, q', L'). emits src p D_prev dst q d q' p' D_prev \<and> p' + L' = p + L \<and> L' \<le> 15 \<and> q' \<le> q1)"
    using long_literals_emits [of 8 p L src q q1 dst D_prev] assms by auto
  show "\<exists>r. obind (long_literals lzvn_copy64 src p dst q q1 L) (\<lambda>(p, d, q, L). obind (?lit p d q L) ?tail) = Inr r \<and>
      out_ok dst q r (\<lambda>(d, q'). emits src p D_prev dst q d q' (p + L + M) D)"
  proof (cases r)
    case (OUT_FULL d)
    then show ?thesis using r by (simp add: copy obind_Inr)
  next
    case (Out t)
    then obtain p' d q' L' where t: "t = (p', d, q', L')" by (cases t)
    with r Out have e: "emits src p D_prev dst q d q' p' D_prev" "p' + L' = p + L" "L' \<le> 15" "q' \<le> q1" by auto
    have d: "length d = length dst" using emits_keeps [OF e(1)] assms by simp
    have "\<exists>r. obind (?lit p' d q' L') ?tail = Inr r \<and> out_ok d q' r (\<lambda>(d', q''). emits src p' D_prev d q' d' q'' (p + L + M) D)"
    proof (cases "L' > 3")
      case False
      then show ?thesis using tail [OF e(2) _ e(4) d] by (simp add: obind_Inr)
    next
      case True
      then obtain r1 where r1: "short_literal (copy_blocks 8) src p' d q' q1 L' = Inr r1"
        "out_ok d q' r1 (\<lambda>(d1, q2). emits src p' D_prev d q' d1 q2 (p' + L') D_prev \<and> q' < q2 \<and> q2 \<le> q1)"
        using short_literal_emits [of 8 L' p' src q1 d q' D_prev] e assms d by auto
      show ?thesis
      proof (cases r1)
        case (OUT_FULL d1)
        then show ?thesis using r1 True by (simp add: copy obind_Inr)
      next
        case (Out u)
        then obtain d1 q2 where u: "u = (d1, q2)" by (cases u)
        with r1 Out have e1: "emits src p' D_prev d q' d1 q2 (p' + L') D_prev" "q2 \<le> q1" by auto
        have "length d1 = length dst" using emits_keeps [OF e1(1)] e(4) assms d by simp
        from obind_emits [OF e1(1) _ _ tail [of "p' + L'" 0 q2 d1]] e e1(2) assms d this
        show ?thesis using r1(1) Out u True by (simp add: copy obind_Inr)
      qed
    qed
    from obind_emits [OF e(1) _ _ this] e(4) assms show ?thesis using r(1) Out t by (simp add: copy obind_Inr)
  qed
qed (use assms in auto)

end
