(* ===== verification/LZVN_Search.thy ===== *)
theory LZVN_Search
  imports LZVN_Emit
begin

text \<open>
  The match search of the LZVN encoder finds matches: equal low bytes of two 32 bit loads are equal
  bytes of the source, and expanding forward and backward keeps the match.
\<close>

unbundle bit_operations_syntax

section \<open>Comparing four bytes at once\<close>

lemma of_le_bytes_append: "of_le_bytes (xs @ ys) = of_le_bytes xs + 256 ^ length xs * of_le_bytes ys"
  by (induction xs) (simp_all add: algebra_simps)

lemma of_le_bytes_take: "of_le_bytes bs mod 256 ^ n = of_le_bytes (take n bs)" if "n \<le> length bs"
proof -
  have "of_le_bytes bs = of_le_bytes (take n bs) + 256 ^ n * of_le_bytes (drop n bs)"
    using of_le_bytes_append [of "take n bs" "drop n bs"] that by (simp add: min_def)
  moreover have "of_le_bytes (take n bs) < 256 ^ n" using of_le_bytes_less [of "take n bs"] that by (simp add: min.absorb2)
  ultimately show ?thesis by simp
qed

lemma le_bytes_of_le_bytes: "le_bytes (length bs) (of_le_bytes bs) = bs"
  by (induction bs) (simp_all add: nat_of_char_less_256)

lemma of_le_bytes_inject: "length xs = length ys \<Longrightarrow> of_le_bytes xs = of_le_bytes ys \<Longrightarrow> xs = ys"
  by (metis le_bytes_of_le_bytes)

lemma builtin_ctzl_bits: "i < builtin_ctzl x \<Longrightarrow> \<not> bit x i"
proof -
  assume "i < builtin_ctzl x"
  then have l: "i < length (takeWhile (\<lambda>i. \<not> bit x i) [0..<32])" by (simp add: builtin_ctzl_def)
  from takeWhile_nth [OF l] l have "takeWhile (\<lambda>i. \<not> bit x i) [0..<32] ! i = i"
    using length_takeWhile_le [of "\<lambda>i. \<not> bit x i" "[0..<32]"] by simp
  with nth_mem [OF l] set_takeWhileD show ?thesis by fastforce
qed

lemma trailing_zero_bytes_take_bit: "take_bit (8 * trailing_zero_bytes x) x = 0"
proof (cases "x = 0")
  case False
  have "\<not> bit x i" if "i < 8 * (builtin_ctzl x div 8)" for i
    by (rule builtin_ctzl_bits) (use that in linarith)
  with False show ?thesis
    by (intro bit_eqI) (auto simp: bit_take_bit_iff trailing_zero_bytes_def)
qed simp

lemma trailing_zero_bytes_le: "trailing_zero_bytes x \<le> 4"
proof -
  have "builtin_ctzl x \<le> 32"
    using length_takeWhile_le [of "\<lambda>i. \<not> bit x i" "[0..<32]"] by (simp add: builtin_ctzl_def)
  then have "builtin_ctzl x div 8 \<le> 32 div 8" by (rule div_le_mono)
  then show ?thesis by (simp add: trailing_zero_bytes_def)
qed

definition word_at :: "string \<Rightarrow> nat \<Rightarrow> 32 word" where
  "word_at src i = word_of_nat (of_le_bytes (take 4 (drop i src)))"

lemma load4_at_word: "0 \<le> i \<Longrightarrow> nat i + 4 \<le> length src \<Longrightarrow> load4_at src i = Inr (word_at src (nat i))"
  by (simp add: load4_at_def load4_def word_at_def)

lemma unat_word_at: "i + 4 \<le> length src \<Longrightarrow> unat (word_at src i) = of_le_bytes (take 4 (drop i src))"
proof -
  assume "i + 4 \<le> length src"
  then have "of_le_bytes (take 4 (drop i src)) < 2 ^ 32" using of_le_bytes_less [of "take 4 (drop i src)"] by simp
  then show ?thesis by (simp add: word_at_def unat_of_nat)
qed

lemma equal_low_bytes:
  assumes "i + 4 \<le> length src" and "j + 4 \<le> length src" and n: "n = trailing_zero_bytes (word_at src i XOR word_at src j)"
  shows "n \<le> 4" and "take n (drop i src) = take n (drop j src)"
proof -
  show le: "n \<le> 4" using n by (simp add: trailing_zero_bytes_le)
  have "take_bit (8 * n) (word_at src i XOR word_at src j) = 0" unfolding n by (rule trailing_zero_bytes_take_bit)
  then have "take_bit (8 * n) (word_at src i) = take_bit (8 * n) (word_at src j)"
    by (auto simp: bit_eq_iff bit_take_bit_iff bit_xor_iff)
  then have "unat (take_bit (8 * n) (word_at src i)) = unat (take_bit (8 * n) (word_at src j))" by simp
  then have "unat (word_at src i) mod 2 ^ (8 * n) = unat (word_at src j) mod 2 ^ (8 * n)"
    unfolding unsigned_take_bit_eq by (simp only: take_bit_eq_mod)
  then have "of_le_bytes (take 4 (drop i src)) mod 256 ^ n = of_le_bytes (take 4 (drop j src)) mod 256 ^ n"
    using assms by (simp add: unat_word_at power_mult)
  moreover have "of_le_bytes (take 4 (drop k src)) mod 256 ^ n = of_le_bytes (take n (drop k src))"
    if "k + 4 \<le> length src" for k
    using of_le_bytes_take [of n "take 4 (drop k src)"] that le by (simp add: min.absorb1)
  ultimately have "of_le_bytes (take n (drop i src)) = of_le_bytes (take n (drop j src))" using assms(1,2) by simp
  then show "take n (drop i src) = take n (drop j src)" using assms(1,2) le by (intro of_le_bytes_inject) auto
qed

lemma match_at_equal:
  assumes "take n (drop i src) = take n (drop j src)" and "j < i" and "i + n \<le> length src"
  shows "match_at src i n (i - j)"
proof -
  have "src ! (i + k) = src ! (j + k)" if "k < n" for k
    using arg_cong [OF assms(1), of "\<lambda>xs. xs ! k"] that assms(2,3) by simp
  then show ?thesis using assms(2,3) by (auto simp: match_at_def add.commute)
qed

lemma nmatch4_ok:
  assumes "0 \<le> j" and "j < i" and "nat i + 4 \<le> length src"
  shows "\<exists>n \<le> 4. nmatch4 src i j = Inr n \<and> match_at src (nat i) n (nat (i - j))"
proof -
  let ?n = "trailing_zero_bytes (word_at src (nat i) XOR word_at src (nat j))"
  have "?n \<le> 4" "take ?n (drop (nat i) src) = take ?n (drop (nat j) src)"
    using equal_low_bytes [of "nat i" src "nat j" ?n] assms by auto
  moreover have "nmatch4 src i j = Inr ?n" using assms by (simp add: nmatch4_def load4_at_word)
  moreover have "nat i - nat j = nat (i - j)" using assms by simp
  ultimately show ?thesis using assms match_at_equal [of ?n "nat i" src "nat j"] by auto
qed

section \<open>Expanding a match\<close>

lemma expand_forward_ok:
  assumes "match_at src m (nat e - m) (nat D)" and "int m \<le> e" and "e < int (length src)" and "0 < D"
  shows "\<exists>e'. expand_forward src (int (length src)) D n e = Inr e' \<and> e \<le> e' \<and> e' < int (length src) \<and>
    match_at src m (nat e' - m) (nat D)"
  using assms
proof (induction src "int (length src)" D n e rule: expand_forward.induct)
  case (1 src D n e)
  show ?case
  proof (cases "n = 4 \<and> e + 4 < int (length src)")
    case True
    have D: "D \<le> int m" using "1.prems" by (auto simp: match_at_def)
    obtain n' where n': "n' \<le> 4" "nmatch4 src e (e - D) = Inr n'" "match_at src (nat e) n' (nat (e - (e - D)))"
      using nmatch4_ok [of "e - D" e src] "1.prems" D True by fastforce
    have eq: "nat (e + int n') - m = (nat e - m) + n'" "m + (nat e - m) = nat e" using "1.prems" by auto
    have "match_at src m (nat (e + int n') - m) (nat D)" unfolding eq(1) match_at_add eq(2) using "1.prems"(1) n'(3) by simp
    then have "\<exists>e'. expand_forward src (int (length src)) D n' (e + int n') = Inr e' \<and> e + int n' \<le> e' \<and>
        e' < int (length src) \<and> match_at src m (nat e' - m) (nat D)"
      by (intro "1.hyps" [OF True n'(2)]) (use "1.prems" n' True in auto)
    then show ?thesis using True n'(2) by (subst expand_forward.simps) auto
  next
    case False
    then show ?thesis using "1.prems" by (subst expand_forward.simps) auto
  qed
qed

lemma match_at_extend_back:
  assumes "match_at src m M D" and "D < m" and "src ! (m - 1) = src ! (m - 1 - D)"
  shows "match_at src (m - 1) (Suc M) D"
proof -
  have "src ! (m - 1 + i) = src ! (m - 1 + i - D)" if "i < Suc M" for i
  proof (cases i)
    case (Suc k)
    with assms that show ?thesis by (auto simp: match_at_def)
  qed (use assms in auto)
  then show ?thesis using assms by (auto simp: match_at_def)
qed

lemma expand_backward_ok:
  assumes "match_at src (nat m) (e - nat m) (nat (m - m0))" and "0 \<le> m0" and "m0 < m" and "nat m \<le> e" and "0 \<le> l" and "l \<le> m"
  shows "\<exists>b. expand_backward src 0 l m0 m = Inr b \<and> l \<le> b \<and> b \<le> m \<and> match_at src (nat b) (e - nat b) (nat (m - m0))"
  using assms
proof (induction "nat (m - l)" arbitrary: m m0 rule: less_induct)
  case less
  have len: "nat m \<le> length src" "nat m0 < length src" using less.prems by (auto simp: match_at_def)
  show ?case
  proof (cases "m0 > 0 \<and> m > l \<and> src ! nat (m - 1) = src ! nat (m0 - 1)")
    case True
    have bytes: "byte_at src (m - 1) = Inr (src ! nat (m - 1))" "byte_at src (m0 - 1) = Inr (src ! nat (m0 - 1))"
      using True less.prems len by (auto simp: byte_at_def)
    have idx: "nat (m - 1) = nat m - 1" "nat (m0 - 1) = nat m - 1 - nat (m - m0)" using True less.prems by auto
    have "src ! (nat m - 1) = src ! (nat m - 1 - nat (m - m0))" using True unfolding idx by blast
    then have "match_at src (nat m - 1) (Suc (e - nat m)) (nat (m - m0))"
      using True less.prems by (intro match_at_extend_back) auto
    moreover have "Suc (e - nat m) = e - nat (m - 1)" using less.prems True by auto
    ultimately have "match_at src (nat (m - 1)) (e - nat (m - 1)) (nat (m - 1 - (m0 - 1)))" by (simp add: idx)
    then have "\<exists>b. expand_backward src 0 l (m0 - 1) (m - 1) = Inr b \<and> l \<le> b \<and> b \<le> m - 1 \<and>
        match_at src (nat b) (e - nat b) (nat (m - 1 - (m0 - 1)))"
      by (intro less.hyps) (use True less.prems in auto)
    then show ?thesis using True bytes by (subst expand_backward.simps) auto
  next
    case False
    moreover have "byte_at src (m - 1) = Inr (src ! nat (m - 1)) \<and> byte_at src (m0 - 1) = Inr (src ! nat (m0 - 1))"
      if "m0 > 0" using that less.prems len by (auto simp: byte_at_def)
    ultimately show ?thesis using less.prems by (subst expand_backward.simps) auto
  qed
qed

section \<open>The two search functions\<close>

text \<open>A match found for the position \<open>i\<close>, not reaching back over the literals before \<open>l\<close>.\<close>

definition match_ok :: "string \<Rightarrow> int \<Rightarrow> int \<Rightarrow> lzvn_match_info \<Rightarrow> bool" where
  "match_ok src l i m \<longleftrightarrow> l \<le> m_begin m \<and> m_begin m \<le> i \<and> m_end m = m_begin m + m_M m \<and> 3 \<le> m_M m \<and>
     m_end m < int (length src) \<and> 0 < m_D m \<and> m_D m \<le> 0xffff \<and>
     match_at src (nat (m_begin m)) (nat (m_M m)) (nat (m_D m))"

lemma lzvn_find_matchN_ok:
  assumes "n \<le> 4" and "0 \<le> m0" and "m0 \<le> i" and "0 \<le> l" and "l \<le> i" and "i + 8 \<le> int (length src)"
    and "take n (drop (nat i) src) = take n (drop (nat m0) src)"
  shows "\<exists>r. lzvn_find_matchN src 0 (int (length src)) l m0 i n = Inr r \<and> (\<forall>m. r = Some m \<longrightarrow> match_ok src l i m)"
proof (cases "n < 3 \<or> i - m0 \<le> 0 \<or> i - m0 > 0xffff")
  case True
  then show ?thesis by (auto simp: lzvn_find_matchN_def Let_def)
next
  case False
  then have D: "3 \<le> n" "0 < i - m0" "i - m0 \<le> 0xffff" by auto
  have "match_at src (nat i) n (nat i - nat m0)" using assms D by (intro match_at_equal) auto
  then have "match_at src (nat i) (nat (i + int n) - nat i) (nat (i - m0))" using assms by (simp add: nat_add_distrib nat_diff_distrib)
  from expand_forward_ok [OF this, of n] obtain e where
    e: "expand_forward src (int (length src)) (i - m0) n (i + int n) = Inr e" "i + int n \<le> e" "e < int (length src)"
      "match_at src (nat i) (nat e - nat i) (nat (i - m0))" using assms D by auto
  from expand_backward_ok [OF e(4), of l] obtain b where
    b: "expand_backward src 0 l m0 i = Inr b" "l \<le> b" "b \<le> i" "match_at src (nat b) (nat e - nat b) (nat (i - m0))"
    using assms D e by fastforce
  have "nat e - nat b = nat (e - b)" using b assms(4) by simp
  then show ?thesis using False e b D by (auto simp: lzvn_find_matchN_def Let_def match_ok_def)
qed

lemma lzvn_find_match_ok:
  assumes "0 \<le> m0" and "m0 < i" and "0 \<le> l" and "l \<le> i" and "i + 8 \<le> int (length src)"
  shows "\<exists>r. lzvn_find_match src 0 (int (length src)) l m0 i = Inr r \<and> (\<forall>m. r = Some m \<longrightarrow> match_ok src l i m)"
proof -
  let ?n = "trailing_zero_bytes (word_at src (nat i) XOR word_at src (nat m0))"
  have "nmatch4 src i m0 = Inr ?n" using assms by (simp add: nmatch4_def load4_at_word)
  moreover have "\<exists>r. lzvn_find_matchN src 0 (int (length src)) l m0 i ?n = Inr r \<and> (\<forall>m. r = Some m \<longrightarrow> match_ok src l i m)"
    using equal_low_bytes [of "nat i" src "nat m0" ?n] assms by (intro lzvn_find_matchN_ok) auto
  ultimately show ?thesis by (simp add: lzvn_find_match_def)
qed

end
