(* ===== verification/FSE_Stream.thy ===== *)
theory FSE_Stream
  imports FSE_Coding LZVN_Search
begin

text \<open>
  The bit streams are one stack of bits: what the output stream pushes the input stream pulls in
  reverse order, reading the bytes backwards.  A stack is a number \<open>V\<close> with the count \<open>c\<close> of its bits.
\<close>

unbundle bit_operations_syntax

type_synonym bit_stack = "nat \<times> nat"

definition push_bits :: "nat \<Rightarrow> nat \<Rightarrow> bit_stack \<Rightarrow> bit_stack" where
  "push_bits n v st = (case st of (V, c) \<Rightarrow> (V + v * 2 ^ c, c + n))"

definition stack_ok :: "bit_stack \<Rightarrow> bool" where
  "stack_ok st \<longleftrightarrow> fst st < 2 ^ snd st"

lemma add_shift_less: "V < 2 ^ c \<Longrightarrow> v < 2 ^ n \<Longrightarrow> V + v * 2 ^ c < (2 :: nat) ^ (c + n)"
proof -
  assume "V < 2 ^ c" "v < 2 ^ n"
  then have "V + v * 2 ^ c < 2 ^ c + v * 2 ^ c" by simp
  also have "\<dots> = (v + 1) * 2 ^ c" by simp
  also have "\<dots> \<le> 2 ^ n * 2 ^ c" using \<open>v < 2 ^ n\<close> by (intro mult_right_mono) auto
  finally show ?thesis by (simp add: power_add mult.commute)
qed

lemma stack_ok_push: "stack_ok st \<Longrightarrow> v < 2 ^ n \<Longrightarrow> stack_ok (push_bits n v st)"
  by (auto simp: stack_ok_def push_bits_def add_shift_less split: prod.splits)

lemma push_bits_0 [simp]: "push_bits 0 0 st = st"
  by (cases st) (simp add: push_bits_def)

lemma snd_push_bits [simp]: "snd (push_bits n v st) = snd st + n"
  by (cases st) (simp add: push_bits_def)

lemma or_shift: "a < 2 ^ n \<Longrightarrow> a OR (b * 2 ^ n) = a + b * (2 :: nat) ^ n"
proof -
  assume a: "a < 2 ^ n"
  have "a AND (b * 2 ^ n) = 0"
  proof (rule bit_eqI)
    fix m
    show "bit (a AND (b * 2 ^ n)) m \<longleftrightarrow> bit (0 :: nat) m"
    proof (cases "m < n")
      case True
      then have "\<not> bit (push_bit n b) m" by (simp add: bit_push_bit_iff)
      then show ?thesis by (simp add: bit_and_iff push_bit_eq_mult)
    next
      case False
      then have "(2 :: nat) ^ n \<le> 2 ^ m" by (intro power_increasing) simp_all
      then have "a div 2 ^ m = 0" using a by (intro div_less) linarith
      then have "\<not> bit a m" by (simp add: bit_iff_odd)
      then show ?thesis by (simp add: bit_and_iff)
    qed
  qed
  then show ?thesis by (rule disjunctive_add_eq_or [symmetric])
qed

section \<open>The output stream\<close>

text \<open>The stack of an output stream that started at position \<open>b\<close>: the bytes written and the accumulator.\<close>

definition out_stack :: "nat \<Rightarrow> bit_stack \<Rightarrow> fse_stream \<Rightarrow> string \<Rightarrow> nat \<Rightarrow> bool" where
  "out_stack b st out buf p \<longleftrightarrow> b \<le> p \<and> p \<le> length buf \<and> 0 \<le> accum_nbits out \<and>
     int (snd st) = 8 * int (p - b) + accum_nbits out \<and> accum out < 2 ^ nat (accum_nbits out) \<and>
     fst st = of_le_bytes (take (p - b) (drop b buf)) + accum out * 2 ^ (8 * (p - b))"

lemma out_stack_init: "b \<le> length buf \<Longrightarrow> out_stack b (0, 0) fse_out_init buf b"
  by (simp add: out_stack_def fse_out_init_def)

lemma snd_eq_nat: "int c = 8 * int d + n \<Longrightarrow> 0 \<le> n \<Longrightarrow> c = 8 * d + nat n"
  by linarith

lemma fse_out_push:
  assumes "out_stack b st out buf p" and "v < 2 ^ n" and "accum_nbits out + int n \<le> 64"
  shows "\<exists>out'. fse_out_push out n v = Inr out' \<and> out_stack b (push_bits n v st) out' buf p \<and>
    accum_nbits out' = accum_nbits out + int n"
proof -
  let ?nb = "nat (accum_nbits out)"
  have a: "accum out < 2 ^ ?nb" "0 \<le> accum_nbits out" using assms(1) by (simp_all add: out_stack_def)
  have less: "accum out + v * 2 ^ ?nb < 2 ^ (?nb + n)" by (rule add_shift_less [OF a(1) assms(2)])
  also have "(2 :: nat) ^ (?nb + n) \<le> 2 ^ 64" using assms(3) a(2) by (intro power_increasing) auto
  finally have acc: "(accum out OR (v * 2 ^ ?nb)) mod 2 ^ 64 = accum out + v * 2 ^ ?nb" by (simp add: or_shift [OF a(1)])
  have nb: "nat (accum_nbits out + int n) = ?nb + n" using a(2) by simp
  obtain V c where st: "st = (V, c)" by (cases st)
  have c: "c = 8 * (p - b) + ?nb" using assms(1) st by (auto simp: out_stack_def intro: snd_eq_nat)
  have "(accum out + v * 2 ^ ?nb) * 2 ^ (8 * (p - b)) = accum out * 2 ^ (8 * (p - b)) + v * 2 ^ c"
    by (simp add: c algebra_simps power_add)
  then have "out_stack b (push_bits n v st) \<lparr>accum = accum out + v * 2 ^ ?nb, accum_nbits = accum_nbits out + int n\<rparr> buf p"
    using assms(1) less nb st by (simp add: out_stack_def push_bits_def)
  moreover have "(accum out + v * 2 ^ ?nb) div 2 ^ (?nb + n) = 0" using less by (rule div_less)
  ultimately show ?thesis
    unfolding fse_out_push_def Let_def acc using assms(3) a(2) nb by (simp add: assert_that_def)
qed

lemma power_256: "(256 :: nat) ^ n = 2 ^ (8 * n)"
  by (simp add: power_mult)

text \<open>Moving the low \<open>n\<close> bytes of the accumulator to the buffer.\<close>

lemma store8_stack:
  assumes "b \<le> p" and "p + 8 \<le> length buf" and "n \<le> 8" and "acc < 2 ^ 64"
  shows "\<exists>buf'. store8 buf p acc = Inr buf' \<and> length buf' = length buf \<and> take p buf' = take p buf \<and>
    of_le_bytes (take (p + n - b) (drop b buf')) = of_le_bytes (take (p - b) (drop b buf)) + (acc mod 2 ^ (8 * n)) * 2 ^ (8 * (p - b))"
proof -
  let ?buf = "take p buf @ le_bytes 8 acc @ drop (p + 8) buf"
  have st: "store8 buf p acc = Inr ?buf" using assms(2) by (simp add: store8_def store_bytes_in)
  have tk: "take (p + n - b) (drop b ?buf) = take (p - b) (drop b buf) @ take n (le_bytes 8 acc)"
    using assms(1-3) by (simp add: drop_take)
  have "of_le_bytes (take n (le_bytes 8 acc)) = of_le_bytes (le_bytes 8 acc) mod 256 ^ n"
    using of_le_bytes_take [of n "le_bytes 8 acc"] assms(3) by simp
  also have "\<dots> = acc mod 2 ^ (8 * n)" using assms(4) by (simp add: power_256)
  finally have "of_le_bytes (take (p + n - b) (drop b ?buf)) =
      of_le_bytes (take (p - b) (drop b buf)) + (acc mod 2 ^ (8 * n)) * 2 ^ (8 * (p - b))"
    unfolding tk using assms(1,2) by (simp add: of_le_bytes_append power_256 mult.commute)
  moreover have "length ?buf = length buf" "take p ?buf = take p buf" using assms(2) by simp_all
  ultimately show ?thesis using st by blast
qed

lemma fse_out_flush:
  assumes "out_stack b st out buf p" and "p + 8 \<le> length buf" and "accum_nbits out \<le> 63"
  shows "\<exists>out' buf' p'. fse_out_flush out buf p = Inr (out', buf', p') \<and> out_stack b st out' buf' p' \<and>
    accum_nbits out' \<le> 7 \<and> length buf' = length buf \<and> take b buf' = take b buf \<and> int p' \<le> int p + accum_nbits out div 8"
proof -
  define nb where "nb = nat (accum_nbits out)"
  define n where "n = nb div 8"
  have o: "b \<le> p" "accum_nbits out = int nb" "accum out < 2 ^ nb" "snd st = 8 * (p - b) + nb"
    "fst st = of_le_bytes (take (p - b) (drop b buf)) + accum out * 2 ^ (8 * (p - b))"
    using assms(1) by (auto simp: out_stack_def nb_def)
  have n: "8 * n \<le> nb" "nb - 8 * n \<le> 7" "n \<le> 8" using assms(3) o(2) by (auto simp: n_def)
  have "accum out < 2 ^ 64" using o(2,3) assms(3) by (intro less_le_trans [OF o(3)] power_increasing) auto
  from store8_stack [OF o(1) assms(2) n(3) this] obtain buf' where buf': "store8 buf p (accum out) = Inr buf'"
    "length buf' = length buf" "take p buf' = take p buf"
    "of_le_bytes (take (p + n - b) (drop b buf')) = of_le_bytes (take (p - b) (drop b buf)) + (accum out mod 2 ^ (8 * n)) * 2 ^ (8 * (p - b))"
    by blast
  have nbits: "full_bytes (accum_nbits out) = int (8 * n)" by (simp add: full_bytes_def o(2) n_def zdiv_int)
  let ?out = "\<lparr>accum = accum out div 2 ^ (8 * n), accum_nbits = int nb - int (8 * n)\<rparr>"
  have small: "accum out div 2 ^ (8 * n) < 2 ^ (nb - 8 * n)"
    using o(3) n(1) by (simp add: div_less_iff_less_mult flip: power_add)
  have "fst st = of_le_bytes (take (p + n - b) (drop b buf')) + accum out div 2 ^ (8 * n) * 2 ^ (8 * (p + n - b))"
  proof -
    have "8 * (p + n - b) = 8 * n + 8 * (p - b)" using o(1) by simp
    then have "accum out div 2 ^ (8 * n) * 2 ^ (8 * (p + n - b)) = (accum out div 2 ^ (8 * n) * 2 ^ (8 * n)) * 2 ^ (8 * (p - b))"
      by (simp add: power_add)
    moreover have "accum out mod 2 ^ (8 * n) + accum out div 2 ^ (8 * n) * 2 ^ (8 * n) = accum out" by (rule mod_div_mult_eq)
    ultimately show ?thesis unfolding o(5) buf'(4) by (simp only: add.assoc distrib_right [symmetric])
  qed
  then have "out_stack b st ?out buf' (p + n)"
    using o(1,4) n buf'(2) assms(2) small by (simp add: out_stack_def nat_diff_distrib nat_mult_distrib)
  moreover have "take b buf' = take b buf" using buf'(3) o(1) by (metis min.absorb1 take_take)
  moreover have "fse_out_flush out buf p = Inr (?out, buf', p + n)"
    unfolding fse_out_flush_def Let_def nbits using buf'(1) n small o(2) by (simp add: assert_that_def nat_diff_distrib nat_mult_distrib)
  ultimately show ?thesis using buf'(2) n o(2) by (auto simp: n_def zdiv_int)
qed

lemma fse_out_finish:
  assumes "out_stack b st out buf p" and "p + 8 \<le> length buf" and "accum_nbits out \<le> 56"
  shows "\<exists>out' buf' p'. fse_out_finish out buf p = Inr (out', buf', p') \<and> b \<le> p' \<and> p' \<le> p + 8 \<and>
    int (snd st) = 8 * int (p' - b) + accum_nbits out' \<and> - 7 \<le> accum_nbits out' \<and> accum_nbits out' \<le> 0 \<and>
    fst st = of_le_bytes (take (p' - b) (drop b buf')) \<and> length buf' = length buf \<and> take b buf' = take b buf"
proof -
  define nb where "nb = nat (accum_nbits out)"
  define n where "n = (nb + 7) div 8"
  have o: "b \<le> p" "accum_nbits out = int nb" "accum out < 2 ^ nb" "snd st = 8 * (p - b) + nb"
    "fst st = of_le_bytes (take (p - b) (drop b buf)) + accum out * 2 ^ (8 * (p - b))"
    using assms(1) by (auto simp: out_stack_def nb_def)
  have n: "nb \<le> 8 * n" "8 * n - nb \<le> 7" "n \<le> 8" using assms(3) o(2) by (auto simp: n_def)
  have "accum out < 2 ^ 64" using o(2,3) assms(3) by (intro less_le_trans [OF o(3)] power_increasing) auto
  from store8_stack [OF o(1) assms(2) n(3) this] obtain buf' where buf': "store8 buf p (accum out) = Inr buf'"
    "length buf' = length buf" "take p buf' = take p buf"
    "of_le_bytes (take (p + n - b) (drop b buf')) = of_le_bytes (take (p - b) (drop b buf)) + (accum out mod 2 ^ (8 * n)) * 2 ^ (8 * (p - b))"
    by blast
  have "accum out < 2 ^ (8 * n)" using n(1) by (intro less_le_trans [OF o(3)] power_increasing) auto
  then have val: "fst st = of_le_bytes (take (p + n - b) (drop b buf'))" using o(5) buf'(4) by simp
  have nbits: "full_bytes (accum_nbits out + 7) = int (8 * n)" by (simp add: full_bytes_def o(2) n_def zdiv_int)
  have "take b buf' = take b buf" using buf'(3) o(1) by (metis min.absorb1 take_take)
  moreover have "fse_out_finish out buf p = Inr (\<lparr>accum = 0, accum_nbits = int nb - int (8 * n)\<rparr>, buf', p + n)"
    unfolding fse_out_finish_def Let_def nbits using buf'(1) n o(2) by (simp add: assert_that_def)
  ultimately show ?thesis using val buf'(2) n o(1,4) by auto
qed

section \<open>The input stream\<close>

text \<open>
  The stack of an input stream at position \<open>p\<close> reaches down to the start of the buffer: the accumulator
  holds its bits above \<open>8 p\<close>, the bytes before \<open>p\<close> the others.
\<close>

definition in_stack :: "bit_stack \<Rightarrow> fse_stream \<Rightarrow> string \<Rightarrow> nat \<Rightarrow> bool" where
  "in_stack st inp buf p \<longleftrightarrow> p \<le> length buf \<and> 0 \<le> accum_nbits inp \<and> int (snd st) = 8 * int p + accum_nbits inp \<and>
     fst st < 2 ^ snd st \<and> accum inp = fst st div 2 ^ (8 * p) \<and> fst st mod 2 ^ (8 * p) = of_le_bytes (take p buf)"

lemma split_value:
  assumes "p \<le> e" and "e \<le> length buf"
  shows "of_le_bytes (take e buf) div 2 ^ (8 * p) = of_le_bytes (take (e - p) (drop p buf))"
    and "of_le_bytes (take e buf) mod 2 ^ (8 * p) = of_le_bytes (take p buf)"
proof -
  have "take e buf = take p buf @ take (e - p) (drop p buf)" using assms(1) by (metis le_add_diff_inverse take_add)
  then have eq: "of_le_bytes (take e buf) = of_le_bytes (take p buf) + of_le_bytes (take (e - p) (drop p buf)) * 2 ^ (8 * p)"
    using assms by (simp add: of_le_bytes_append power_256 mult.commute)
  have less: "of_le_bytes (take p buf) < 2 ^ (8 * p)" using of_le_bytes_less [of "take p buf"] assms by (simp add: power_256)
  show "of_le_bytes (take e buf) div 2 ^ (8 * p) = of_le_bytes (take (e - p) (drop p buf))" unfolding eq using less by simp
  show "of_le_bytes (take e buf) mod 2 ^ (8 * p) = of_le_bytes (take p buf)" unfolding eq using less by simp
qed

lemma div_power_less: "S < 2 ^ (a + b) \<Longrightarrow> S div 2 ^ a < (2 :: nat) ^ b"
  by (simp add: div_less_iff_less_mult power_add mult.commute)

lemma fse_in_init:
  assumes "e \<le> length buf" and "buf_start + 8 \<le> e" and "int (snd st) = 8 * int e + n" and "- 7 \<le> n" and "n \<le> 0"
    and "fst st = of_le_bytes (take e buf)" and "stack_ok st"
  shows "\<exists>inp p. fse_in_init n buf e buf_start = Inr (Some (inp, p)) \<and> in_stack st inp buf p \<and> accum_nbits inp < 64 \<and>
    p + 7 \<le> e \<and> buf_start \<le> p"
proof -
  define k where "k = (if n \<noteq> 0 then 8 else 7 :: nat)"
  define p where "p = e - k"
  have k: "k \<le> e" "p + k = e" "7 \<le> k" "k \<le> 8" "e - p = k" using assms(2) by (auto simp: k_def p_def)
  let ?nb = "n + int (8 * k)"
  have nb: "56 \<le> ?nb" "?nb < 64" using assms(4,5) by (auto simp: k_def)
  have C: "snd st = 8 * p + nat ?nb" using assms(3) k nb by linarith
  have acc: "of_le_bytes (take k (drop p buf)) = fst st div 2 ^ (8 * p)"
    using split_value(1) [of p e buf] assms(1,6) k by simp
  have less: "fst st div 2 ^ (8 * p) < 2 ^ nat ?nb" using assms(7) C by (simp add: stack_ok_def div_power_less)
  have "in_stack st \<lparr>accum = fst st div 2 ^ (8 * p), accum_nbits = ?nb\<rparr> buf p"
    using split_value(2) [of p e buf] assms(1,6,7) k C nb by (simp add: in_stack_def stack_ok_def)
  moreover have "fse_in_init n buf e buf_start = Inr (Some (\<lparr>accum = fst st div 2 ^ (8 * p), accum_nbits = ?nb\<rparr>, p))"
    using assms(1,2) less nb k acc by (auto simp: fse_in_init_def k_def p_def split: if_splits)
  moreover have "p + 7 \<le> e" "buf_start \<le> p" using k assms(2) by (auto simp: p_def)
  ultimately show ?thesis using nb by (intro exI [of _ "\<lparr>accum = fst st div 2 ^ (8 * p), accum_nbits = ?nb\<rparr>"] exI [of _ p]) simp
qed

lemma fse_in_flush:
  assumes "in_stack st inp buf p" and "accum_nbits inp < 64" and "8 * buf_start + 63 \<le> snd st" and "p + 8 \<le> length buf"
  shows "\<exists>inp' p'. fse_in_flush inp buf p buf_start = Inr (Some (inp', p')) \<and> in_stack st inp' buf p' \<and>
    56 \<le> accum_nbits inp' \<and> accum_nbits inp' < 64 \<and> p' \<le> p"
proof -
  define nb where "nb = nat (accum_nbits inp)"
  define m where "m = (63 - nb) div 8"
  have i: "accum_nbits inp = int nb" "snd st = 8 * p + nb" "fst st < 2 ^ snd st" "accum inp = fst st div 2 ^ (8 * p)"
    "fst st mod 2 ^ (8 * p) = of_le_bytes (take p buf)" "p \<le> length buf"
    using assms(1) by (auto simp: in_stack_def nb_def)
  have nb: "nb < 64" using i(1) assms(2) by simp
  have m: "8 * m \<le> 63 - nb" "56 \<le> nb + 8 * m" "nb + 8 * m < 64" "m \<le> 8" using nb by (auto simp: m_def)
  have mp: "buf_start + m \<le> p" using assms(3) i(2) m by linarith
  have nbits: "full_bytes (63 - accum_nbits inp) = int (8 * m)"
    using nb by (simp add: full_bytes_def i(1) m_def zdiv_int of_nat_diff)
  define q where "q = p - m"
  have q: "q + m = p" "q \<le> p" "q + 8 \<le> length buf" using mp assms(4) by (auto simp: q_def)
  have ld: "load8 buf q = Inr (of_le_bytes (take 8 (drop q buf)))" using q by (simp add: load8_def)
  have low: "fse_mask_lsb (of_le_bytes (take 8 (drop q buf))) (8 * m) = of_le_bytes (take m (drop q buf))"
  proof -
    have "length (take 8 (drop q buf)) = 8" using q by simp
    then show ?thesis using of_le_bytes_take [of m "take 8 (drop q buf)"] m by (simp add: fse_mask_lsb_def power_256 min.absorb1)
  qed
  have R: "of_le_bytes (take p buf) div 2 ^ (8 * q) = of_le_bytes (take m (drop q buf))"
    "of_le_bytes (take p buf) mod 2 ^ (8 * q) = of_le_bytes (take q buf)"
    using split_value [of q p buf] q i(6) by auto
  have S: "fst st = accum inp * 2 ^ (8 * p) + of_le_bytes (take p buf)" unfolding i(4) i(5) [symmetric] by (rule div_mult_mod_eq [symmetric])
  have pw: "(2 :: nat) ^ (8 * p) = 2 ^ (8 * m) * 2 ^ (8 * q)" using q(1) by (simp flip: power_add)
  have div: "fst st div 2 ^ (8 * q) = accum inp * 2 ^ (8 * m) + of_le_bytes (take m (drop q buf))"
    unfolding S pw using R(1) by (simp add: mult.assoc [symmetric] div_mult_self3)
  have md: "fst st mod 2 ^ (8 * q) = of_le_bytes (take q buf)"
    unfolding S pw using R(2) by (simp add: mult.assoc [symmetric])
  have lowless: "of_le_bytes (take m (drop q buf)) < 2 ^ (8 * m)"
    using of_le_bytes_less [of "take m (drop q buf)"] q m by (simp add: power_256)
  have accless: "accum inp < 2 ^ nb" using i(2,3,4) by (simp add: div_power_less)
  have "accum inp * 2 ^ (8 * m) < 2 ^ nb * 2 ^ (8 * m)" using accless by simp
  also have "\<dots> \<le> 2 ^ 64" unfolding power_add [symmetric] using m by (intro power_increasing) simp_all
  finally have acc: "(accum inp * 2 ^ (8 * m)) mod 2 ^ 64 OR of_le_bytes (take m (drop q buf)) = fst st div 2 ^ (8 * q)"
    using or_shift [OF lowless, of "accum inp"] div by (simp add: or.commute add.commute)
  have C: "snd st = 8 * q + (nb + 8 * m)" using i(2) q(1) by simp
  then have bound: "fst st div 2 ^ (8 * q) < 2 ^ (nb + 8 * m)" using i(3) by (simp add: div_power_less)
  let ?inp = "\<lparr>accum = fst st div 2 ^ (8 * q), accum_nbits = int nb + int (8 * m)\<rparr>"
  have "in_stack st ?inp buf q" using C md q i(3) by (simp add: in_stack_def)
  moreover have "fse_in_flush inp buf p buf_start = Inr (Some (?inp, q))"
  proof -
    have "int p - int (8 * m) div 8 = int q" using q(1) by simp
    moreover have "nat (int nb + int (8 * m)) = nb + 8 * m" by simp
    moreover have "\<not> int q < int buf_start" using mp q(1) by linarith
    ultimately show ?thesis
      unfolding fse_in_flush_def Let_def nbits using ld low acc bound m i(1) by (simp add: assert_that_def nat_add_distrib nat_mult_distrib)
  qed
  ultimately show ?thesis using m q by (intro exI [of _ ?inp] exI [of _ q]) auto
qed

lemma div_mod_power: "(S mod 2 ^ (a + b)) div 2 ^ a = (S div 2 ^ a) mod (2 :: nat) ^ b"
  by (simp add: power_add mod_mult2_eq)

lemma fse_in_pull:
  assumes "in_stack st inp buf p" and "int n \<le> accum_nbits inp"
  shows "\<exists>inp'. fse_in_pull inp n = Inr (fst st div 2 ^ (snd st - n), inp') \<and>
    in_stack (fst st mod 2 ^ (snd st - n), snd st - n) inp' buf p \<and> accum_nbits inp' = accum_nbits inp - int n"
proof -
  define nb where "nb = nat (accum_nbits inp)"
  have i: "accum_nbits inp = int nb" "snd st = 8 * p + nb" "accum inp = fst st div 2 ^ (8 * p)"
    "fst st mod 2 ^ (8 * p) = of_le_bytes (take p buf)" "p \<le> length buf"
    using assms(1) by (auto simp: in_stack_def nb_def)
  have n: "n \<le> nb" using assms(2) i(1) by simp
  have C: "snd st - n = 8 * p + (nb - n)" using i(2) n by simp
  have top: "accum inp div 2 ^ (nb - n) = fst st div 2 ^ (snd st - n)"
    unfolding i(3) C by (simp add: power_add div_mult2_eq)
  have rest: "accum inp mod 2 ^ (nb - n) = (fst st mod 2 ^ (snd st - n)) div 2 ^ (8 * p)"
    unfolding i(3) C by (simp add: div_mod_power)
  have "fst st mod 2 ^ (snd st - n) mod 2 ^ (8 * p) = of_le_bytes (take p buf)"
    unfolding C i(4) [symmetric] by (rule mod_mod_cancel) (simp add: power_add)
  then have "in_stack (fst st mod 2 ^ (snd st - n), snd st - n) \<lparr>accum = accum inp mod 2 ^ (nb - n), accum_nbits = int (nb - n)\<rparr> buf p"
    using i(5) rest C by (simp add: in_stack_def)
  moreover have "fse_in_pull inp n =
      Inr (fst st div 2 ^ (snd st - n), \<lparr>accum = accum inp mod 2 ^ (nb - n), accum_nbits = int (nb - n)\<rparr>)"
    using n top by (simp add: fse_in_pull_def assert_that_def Let_def fse_mask_lsb_def i(1) of_nat_diff nat_diff_distrib)
  ultimately show ?thesis using n i(1) by (simp add: of_nat_diff)
qed

section \<open>Pulling what was pushed\<close>

text \<open>A stack above the bytes before position \<open>b\<close>, which may hold anything.\<close>

definition based :: "nat \<Rightarrow> nat \<Rightarrow> bit_stack \<Rightarrow> bit_stack" where
  "based J b st = (J + fst st * 2 ^ (8 * b), 8 * b + snd st)"

lemma based_pull:
  assumes "J < 2 ^ (8 * b)" and "stack_ok st" and "v < 2 ^ n"
  shows "fst (based J b (push_bits n v st)) div 2 ^ (snd (based J b (push_bits n v st)) - n) = v"
    and "fst (based J b (push_bits n v st)) mod 2 ^ (snd (based J b (push_bits n v st)) - n) = fst (based J b st)"
    and "snd (based J b (push_bits n v st)) - n = snd (based J b st)"
proof -
  obtain V c where st: "st = (V, c)" by (cases st)
  define X where "X = J + V * 2 ^ (8 * b)"
  define B where "B = 8 * b + c"
  have X: "X < 2 ^ B" unfolding X_def B_def using assms(1,2) st by (intro add_shift_less) (simp_all add: stack_ok_def)
  have f: "fst (based J b (push_bits n v st)) = X + v * 2 ^ B"
    by (simp add: based_def push_bits_def st X_def B_def algebra_simps power_add)
  have c: "snd (based J b (push_bits n v st)) - n = B" by (simp add: based_def st B_def)
  have "(X + v * 2 ^ B) div 2 ^ B = v" "(X + v * 2 ^ B) mod 2 ^ B = X" using X by simp_all
  then show "fst (based J b (push_bits n v st)) div 2 ^ (snd (based J b (push_bits n v st)) - n) = v"
    and "fst (based J b (push_bits n v st)) mod 2 ^ (snd (based J b (push_bits n v st)) - n) = fst (based J b st)"
    and "snd (based J b (push_bits n v st)) - n = snd (based J b st)"
    unfolding f c by (simp_all add: based_def st X_def B_def)
qed

lemma fse_in_pull_based:
  assumes "in_stack (based J b (push_bits n v st)) inp buf p" and "J < 2 ^ (8 * b)" and "stack_ok st" and "v < 2 ^ n"
    and "int n \<le> accum_nbits inp"
  shows "\<exists>inp'. fse_in_pull inp n = Inr (v, inp') \<and> in_stack (based J b st) inp' buf p \<and> accum_nbits inp' = accum_nbits inp - int n"
  using fse_in_pull [OF assms(1,5)] unfolding based_pull(1,2) [OF assms(2-4)] unfolding based_pull(3) [OF assms(2-4)] by simp

lemma push_bits_push_bits: "v < 2 ^ n \<Longrightarrow> push_bits m w (push_bits n v st) = push_bits (m + n) (w * 2 ^ n + v) st"
  by (cases st) (simp add: push_bits_def algebra_simps power_add)

end
