(* ===== verification/LZFSE_Streams.thy ===== *)
theory LZFSE_Streams
  imports LZFSE_Encode LZFSE_Decode FSE_Stream
begin

text \<open>
  The two payloads of a compressed block, the literals and the L, M, D values, as bit stacks: what the
  encoder pushes is computed from the end of the block to its start, so that the decoder finds the
  first symbol on top.
\<close>

section \<open>One symbol\<close>

definition code_symbol :: "nat \<Rightarrow> nat list \<Rightarrow> nat \<Rightarrow> nat \<Rightarrow> nat \<Rightarrow> nat \<times> bit_stack \<Rightarrow> nat \<times> bit_stack" where
  "code_symbol q freq n x i sst =
     (case sst of (s, st) \<Rightarrow>
        (next_state q freq i s, push_bits (code_bits q (freq ! i) s) (s mod 2 ^ code_bits q (freq ! i) s) (push_bits n x st)))"

text \<open>A symbol that the table can code.\<close>

definition codable :: "nat \<Rightarrow> nat list \<Rightarrow> nat \<Rightarrow> bool" where
  "codable q freq i \<longleftrightarrow> freq_table q freq \<and> i < length freq \<and> 0 < freq ! i"

definition coder_ok :: "nat \<Rightarrow> nat \<times> bit_stack \<Rightarrow> bool" where
  "coder_ok q sst \<longleftrightarrow> fst sst < 2 ^ q \<and> stack_ok (snd sst)"

lemma coder_ok_code:
  assumes "codable q freq i" and "coder_ok q sst" and "x < 2 ^ n"
  shows "coder_ok q (code_symbol q freq n x i sst)"
  using assms next_state_less [of q freq i "fst sst"]
  by (auto simp: codable_def coder_ok_def code_symbol_def split: prod.splits intro!: stack_ok_push)

lemma code_bits_codable: "codable q freq i \<Longrightarrow> code_bits q (freq ! i) s \<le> q"
  using code_bits_le freq_le by (simp add: codable_def)

lemma snd_code_symbol: "codable q freq i \<Longrightarrow> snd (snd (code_symbol q freq n x i sst)) \<le> snd (snd sst) + n + q"
  using code_bits_codable [of q freq i "fst sst"] by (cases sst) (simp add: code_symbol_def)

lemma fse_encode_symbol:
  assumes "codable q freq i" and "coder_ok q (s, st)" and "out_stack b (push_bits n x st) out buf p"
    and "accum_nbits out + int q \<le> 64"
  shows "\<exists>out'. fse_encode s (fse_init_encoder_table (2 ^ q) freq) out i = Inr (fst (code_symbol q freq n x i (s, st)), out') \<and>
    out_stack b (snd (code_symbol q freq n x i (s, st))) out' buf p \<and> accum_nbits out' \<le> accum_nbits out + int q"
proof -
  let ?n = "code_bits q (freq ! i) s"
  have n: "?n \<le> q" by (rule code_bits_codable [OF assms(1)])
  obtain out' where "fse_out_push out ?n (s mod 2 ^ ?n) = Inr out'"
    "out_stack b (push_bits ?n (s mod 2 ^ ?n) (push_bits n x st)) out' buf p" "accum_nbits out' = accum_nbits out + int ?n"
    using fse_out_push [OF assms(3), of "s mod 2 ^ ?n" ?n] assms(4) n by auto
  then show ?thesis
    using fse_encode_step [of q freq i s out] assms(1,2) n by (simp add: codable_def coder_ok_def code_symbol_def)
qed

lemma fse_decode_symbol:
  assumes "codable q freq i" and "coder_ok q (s, st)" and "decoder_entries (2 ^ q) 0 0 freq = Some t"
    and "in_stack (based J b (snd (code_symbol q freq 0 0 i (s, st)))) inp buf p" and "J < 2 ^ (8 * b)"
    and "int q \<le> accum_nbits inp"
  shows "\<exists>inp'. fse_decode (fst (code_symbol q freq 0 0 i (s, st))) t inp = Inr (i, s, inp') \<and>
    in_stack (based J b st) inp' buf p \<and> accum_nbits inp - int q \<le> accum_nbits inp' \<and> accum_nbits inp' \<le> accum_nbits inp"
proof -
  let ?n = "code_bits q (freq ! i) s"
  have n: "?n \<le> q" by (rule code_bits_codable [OF assms(1)])
  have st: "in_stack (based J b (push_bits ?n (s mod 2 ^ ?n) st)) inp buf p" using assms(4) by (simp add: code_symbol_def)
  obtain inp' where "fse_in_pull inp ?n = Inr (s mod 2 ^ ?n, inp')" "in_stack (based J b st) inp' buf p"
    "accum_nbits inp' = accum_nbits inp - int ?n"
    using fse_in_pull_based [OF st assms(5)] assms(2,6) n by (auto simp: coder_ok_def)
  then show ?thesis
    using fse_decode_step [of q freq i s t inp inp'] assms(1-3) n by (auto simp: codable_def coder_ok_def code_symbol_def)
qed

lemma fse_value_decode_symbol:
  assumes "codable q freq i" and "coder_ok q (s, st)"
    and "length vbits = length freq" and "length vbase = length freq" and "x < 2 ^ (vbits ! i)" and "vbits ! i \<le> 15"
    and "in_stack (based J b (snd (code_symbol q freq (vbits ! i) x i (s, st)))) inp buf p" and "J < 2 ^ (8 * b)"
    and "int (q + vbits ! i) \<le> accum_nbits inp"
  shows "\<exists>inp'. fse_value_decode (fst (code_symbol q freq (vbits ! i) x i (s, st)))
      (value_entries (2 ^ q) (zip freq (zip vbits vbase))) inp = Inr (vbase ! i + int x, s, inp') \<and>
    in_stack (based J b st) inp' buf p \<and> accum_nbits inp - int (q + vbits ! i) \<le> accum_nbits inp' \<and> accum_nbits inp' \<le> accum_nbits inp"
proof -
  let ?n = "code_bits q (freq ! i) s" and ?v = "vbits ! i"
  let ?w = "s mod 2 ^ ?n * 2 ^ ?v + x"
  have n: "?n \<le> q" by (rule code_bits_codable [OF assms(1)])
  have st: "in_stack (based J b (push_bits (?n + ?v) ?w st)) inp buf p"
    using assms(5,7) by (simp add: code_symbol_def push_bits_push_bits)
  have "x + s mod 2 ^ ?n * 2 ^ ?v < 2 ^ (?v + ?n)" by (rule add_shift_less [OF assms(5)]) simp
  then have w: "?w < 2 ^ (?n + ?v)" by (simp add: add.commute)
  obtain inp' where "fse_in_pull inp (?n + ?v) = Inr (?w, inp')" "in_stack (based J b st) inp' buf p"
    "accum_nbits inp' = accum_nbits inp - int (?n + ?v)"
    using fse_in_pull_based [OF st assms(8) _ w] assms(2,9) n by (auto simp: coder_ok_def)
  then show ?thesis
    using fse_value_decode_step [of q freq i s vbits vbase inp x inp'] assms(1-6) n
    by (auto simp: codable_def coder_ok_def code_symbol_def)
qed

section \<open>Literals\<close>

type_synonym literal_group = "nat \<times> nat \<times> nat \<times> nat"

definition code_group :: "nat list \<Rightarrow> literal_group \<Rightarrow> literal_group \<times> bit_stack \<Rightarrow> literal_group \<times> bit_stack" where
  "code_group freq g sst =
     (case g of (c0, c1, c2, c3) \<Rightarrow> case sst of ((s0, s1, s2, s3), st) \<Rightarrow>
        let (s3', st) = code_symbol 10 freq 0 0 c3 (s3, st); (s2', st) = code_symbol 10 freq 0 0 c2 (s2, st);
            (s1', st) = code_symbol 10 freq 0 0 c1 (s1, st); (s0', st) = code_symbol 10 freq 0 0 c0 (s0, st)
        in ((s0', s1', s2', s3'), st))"

fun code_groups :: "nat list \<Rightarrow> literal_group list \<Rightarrow> literal_group \<times> bit_stack" where
  "code_groups freq [] = ((0, 0, 0, 0), (0, 0))"
| "code_groups freq (g # gs) = code_group freq g (code_groups freq gs)"

definition group_codable :: "nat list \<Rightarrow> literal_group \<Rightarrow> bool" where
  "group_codable freq g \<longleftrightarrow> (case g of (c0, c1, c2, c3) \<Rightarrow>
     codable 10 freq c0 \<and> codable 10 freq c1 \<and> codable 10 freq c2 \<and> codable 10 freq c3)"

definition groups_ok :: "literal_group \<times> bit_stack \<Rightarrow> bool" where
  "groups_ok sst \<longleftrightarrow> (case sst of ((s0, s1, s2, s3), st) \<Rightarrow> s0 < 1024 \<and> s1 < 1024 \<and> s2 < 1024 \<and> s3 < 1024 \<and> stack_ok st)"

text \<open>The intermediate stacks of one group.\<close>

lemma code_group_steps:
  assumes "group_codable freq (c0, c1, c2, c3)" and "groups_ok ((s0, s1, s2, s3), st)"
  obtains st3 st2 st1 where
    "coder_ok 10 (s3, st)" "coder_ok 10 (s2, st3)" "coder_ok 10 (s1, st2)" "coder_ok 10 (s0, st1)"
    "st3 = snd (code_symbol 10 freq 0 0 c3 (s3, st))" "st2 = snd (code_symbol 10 freq 0 0 c2 (s2, st3))"
    "st1 = snd (code_symbol 10 freq 0 0 c1 (s1, st2))"
    "code_group freq (c0, c1, c2, c3) ((s0, s1, s2, s3), st) =
      ((fst (code_symbol 10 freq 0 0 c0 (s0, st1)), fst (code_symbol 10 freq 0 0 c1 (s1, st2)),
        fst (code_symbol 10 freq 0 0 c2 (s2, st3)), fst (code_symbol 10 freq 0 0 c3 (s3, st))),
       snd (code_symbol 10 freq 0 0 c0 (s0, st1)))"
proof -
  define st3 where "st3 = snd (code_symbol 10 freq 0 0 c3 (s3, st))"
  define st2 where "st2 = snd (code_symbol 10 freq 0 0 c2 (s2, st3))"
  define st1 where "st1 = snd (code_symbol 10 freq 0 0 c1 (s1, st2))"
  have c: "codable 10 freq c0" "codable 10 freq c1" "codable 10 freq c2" "codable 10 freq c3"
    using assms(1) by (auto simp: group_codable_def)
  have s: "s0 < 2 ^ 10" "s1 < 2 ^ 10" "s2 < 2 ^ 10" "coder_ok 10 (s3, st)" using assms(2) by (auto simp: groups_ok_def coder_ok_def)
  have 2: "coder_ok 10 (s2, st3)" using coder_ok_code [OF c(4) s(4), of 0 0] s by (simp add: coder_ok_def st3_def)
  have 1: "coder_ok 10 (s1, st2)" using coder_ok_code [OF c(3) 2, of 0 0] s by (simp add: coder_ok_def st2_def)
  have 0: "coder_ok 10 (s0, st1)" using coder_ok_code [OF c(2) 1, of 0 0] s by (simp add: coder_ok_def st1_def)
  show thesis
    by (rule that [OF s(4) 2 1 0 st3_def st2_def st1_def])
      (simp add: code_group_def case_prod_beta Let_def st1_def st2_def st3_def)
qed

lemma groups_ok_code:
  assumes "group_codable freq g" and "groups_ok sst"
  shows "groups_ok (code_group freq g sst)" and "snd (snd (code_group freq g sst)) \<le> snd (snd sst) + 40"
proof -
  obtain c0 c1 c2 c3 s0 s1 s2 s3 st where gs: "g = (c0, c1, c2, c3)" "sst = ((s0, s1, s2, s3), st)" by (metis prod_cases4 surj_pair)
  have c: "codable 10 freq c0" "codable 10 freq c1" "codable 10 freq c2" "codable 10 freq c3"
    using assms(1) gs by (auto simp: group_codable_def)
  obtain st3 st2 st1 where s:
    "coder_ok 10 (s3, st)" "coder_ok 10 (s2, st3)" "coder_ok 10 (s1, st2)" "coder_ok 10 (s0, st1)"
    "st3 = snd (code_symbol 10 freq 0 0 c3 (s3, st))" "st2 = snd (code_symbol 10 freq 0 0 c2 (s2, st3))"
    "st1 = snd (code_symbol 10 freq 0 0 c1 (s1, st2))"
    "code_group freq (c0, c1, c2, c3) ((s0, s1, s2, s3), st) =
      ((fst (code_symbol 10 freq 0 0 c0 (s0, st1)), fst (code_symbol 10 freq 0 0 c1 (s1, st2)),
        fst (code_symbol 10 freq 0 0 c2 (s2, st3)), fst (code_symbol 10 freq 0 0 c3 (s3, st))),
       snd (code_symbol 10 freq 0 0 c0 (s0, st1)))"
    by (rule code_group_steps [OF assms [unfolded gs]]) (rule that)
  note ok = coder_ok_code [OF c(4) s(1), of 0 0] coder_ok_code [OF c(3) s(2), of 0 0] coder_ok_code [OF c(2) s(3), of 0 0]
    coder_ok_code [OF c(1) s(4), of 0 0]
  then show "groups_ok (code_group freq g sst)" unfolding gs s(8) by (simp add: groups_ok_def coder_ok_def)
  have "snd st3 \<le> snd st + 10" "snd st2 \<le> snd st3 + 10" "snd st1 \<le> snd st2 + 10"
    "snd (snd (code_symbol 10 freq 0 0 c0 (s0, st1))) \<le> snd st1 + 10"
    unfolding s(5,6,7)
    using snd_code_symbol [OF c(4), of 0 0 "(s3, st)"] snd_code_symbol [OF c(3), of 0 0 "(s2, st3)"]
      snd_code_symbol [OF c(2), of 0 0 "(s1, st2)"] snd_code_symbol [OF c(1), of 0 0 "(s0, st1)"] s(5,6,7) by simp_all
  then show "snd (snd (code_group freq g sst)) \<le> snd (snd sst) + 40" unfolding gs s(8) by simp
qed

lemma code_groups_ok:
  "list_all (group_codable freq) gs \<Longrightarrow> groups_ok (code_groups freq gs) \<and> snd (snd (code_groups freq gs)) \<le> 40 * length gs"
proof (induction gs)
  case (Cons g gs)
  then show ?case using groups_ok_code [of freq g "code_groups freq gs"] by simp
qed (simp add: groups_ok_def stack_ok_def)

lemma encode_group:
  assumes "group_codable freq (c0, c1, c2, c3)" and "groups_ok ((s0, s1, s2, s3), st)"
    and "out_stack b st out buf p" and "accum_nbits out \<le> 7"
  defines "t \<equiv> fse_init_encoder_table 1024 freq" and "r \<equiv> code_group freq (c0, c1, c2, c3) ((s0, s1, s2, s3), st)"
  shows "\<exists>out'. (\<forall>k. rbind (fse_encode s3 t out c3) (\<lambda>(s3, out). rbind (fse_encode s2 t out c2) (\<lambda>(s2, out).
      rbind (fse_encode s1 t out c1) (\<lambda>(s1, out). rbind (fse_encode s0 t out c0) (\<lambda>(s0, out). k s0 s1 s2 s3 out)))) =
        (case fst r of (s0, s1, s2, s3) \<Rightarrow> k s0 s1 s2 s3 out')) \<and>
    out_stack b (snd r) out' buf p \<and> accum_nbits out' \<le> 47"
proof -
  have c: "codable 10 freq c0" "codable 10 freq c1" "codable 10 freq c2" "codable 10 freq c3"
    using assms(1) by (auto simp: group_codable_def)
  have t: "t = fse_init_encoder_table (2 ^ 10) freq" by (simp add: t_def)
  obtain st3 st2 st1 where s:
    "coder_ok 10 (s3, st)" "coder_ok 10 (s2, st3)" "coder_ok 10 (s1, st2)" "coder_ok 10 (s0, st1)"
    "st3 = snd (code_symbol 10 freq 0 0 c3 (s3, st))" "st2 = snd (code_symbol 10 freq 0 0 c2 (s2, st3))"
    "st1 = snd (code_symbol 10 freq 0 0 c1 (s1, st2))"
    "code_group freq (c0, c1, c2, c3) ((s0, s1, s2, s3), st) =
      ((fst (code_symbol 10 freq 0 0 c0 (s0, st1)), fst (code_symbol 10 freq 0 0 c1 (s1, st2)),
        fst (code_symbol 10 freq 0 0 c2 (s2, st3)), fst (code_symbol 10 freq 0 0 c3 (s3, st))),
       snd (code_symbol 10 freq 0 0 c0 (s0, st1)))"
    by (rule code_group_steps [OF assms(1,2)]) (rule that)
  obtain o3 where o3: "fse_encode s3 t out c3 = Inr (fst (code_symbol 10 freq 0 0 c3 (s3, st)), o3)"
    "out_stack b st3 o3 buf p" "accum_nbits o3 \<le> accum_nbits out + 10"
    using fse_encode_symbol [OF c(4) s(1), of b 0 0 out buf p] assms(3,4) s(5) t by auto
  obtain o2 where o2: "fse_encode s2 t o3 c2 = Inr (fst (code_symbol 10 freq 0 0 c2 (s2, st3)), o2)"
    "out_stack b st2 o2 buf p" "accum_nbits o2 \<le> accum_nbits o3 + 10"
    using fse_encode_symbol [OF c(3) s(2), of b 0 0 o3 buf p] o3 assms(4) s(6) t by auto
  obtain o1 where o1: "fse_encode s1 t o2 c1 = Inr (fst (code_symbol 10 freq 0 0 c1 (s1, st2)), o1)"
    "out_stack b st1 o1 buf p" "accum_nbits o1 \<le> accum_nbits o2 + 10"
    using fse_encode_symbol [OF c(2) s(3), of b 0 0 o2 buf p] o2 o3(3) assms(4) s(7) t by auto
  obtain o0 where o0: "fse_encode s0 t o1 c0 = Inr (fst (code_symbol 10 freq 0 0 c0 (s0, st1)), o0)"
    "out_stack b (snd (code_symbol 10 freq 0 0 c0 (s0, st1))) o0 buf p" "accum_nbits o0 \<le> accum_nbits o1 + 10"
    using fse_encode_symbol [OF c(1) s(4), of b 0 0 o1 buf p] o1 o2(3) o3(3) assms(4) t by auto
  show ?thesis unfolding r_def s(8) using o0 o1 o2 o3 assms(4) by (intro exI [of _ o0]) simp
qed

definition group_at :: "string \<Rightarrow> nat \<Rightarrow> literal_group" where
  "group_at lits i = (byte_value (lits ! (4 * i)), byte_value (lits ! (4 * i + 1)), byte_value (lits ! (4 * i + 2)), byte_value (lits ! (4 * i + 3)))"

lemma encode_literals_ok:
  assumes "list_all (group_codable freq) (map (group_at lits) [0..<n])" and "i \<le> n"
    and "code_groups freq (map (group_at lits) [i..<n]) = (states, st)"
    and "out_stack b st out buf p" and "accum_nbits out \<le> 7" and "p + 8 \<le> dst_end" and "dst_end \<le> length buf"
  shows "\<exists>r. encode_literals (fse_init_encoder_table 1024 freq) lits dst_end i states out buf p = Inr r \<and>
    (case r of OUT_FULL buf' \<Rightarrow> length buf' = length buf \<and> take b buf' = take b buf
     | Out (states', out', buf', p') \<Rightarrow> length buf' = length buf \<and> take b buf' = take b buf \<and> p' + 8 \<le> dst_end \<and> accum_nbits out' \<le> 7 \<and>
         (\<exists>st'. code_groups freq (map (group_at lits) [0..<n]) = (states', st') \<and> out_stack b st' out' buf' p'))"
  using assms(2-7)
proof (induction i arbitrary: states st out buf p)
  case (Suc i)
  obtain s0 s1 s2 s3 where states: "states = (s0, s1, s2, s3)" by (metis prod_cases4)
  have cod: "list_all (group_codable freq) (map (group_at lits) [Suc i..<n])" "group_codable freq (group_at lits i)"
    using assms(1) Suc.prems(1) by (auto simp: list_all_iff)
  have gok: "groups_ok ((s0, s1, s2, s3), st)" using code_groups_ok [OF cod(1)] Suc.prems(2) states by simp
  have next_code: "code_groups freq (map (group_at lits) [i..<n]) = code_group freq (group_at lits i) ((s0, s1, s2, s3), st)"
    using Suc.prems(1,2) states by (simp add: upt_conv_Cons)
  obtain states1 st1 where one: "code_group freq (group_at lits i) ((s0, s1, s2, s3), st) = (states1, st1)" by (rule prod.exhaust)
  obtain t0 t1 t2 t3 where states1: "states1 = (t0, t1, t2, t3)" by (metis prod_cases4)
  show ?case
  proof (cases "p + 16 > dst_end")
    case False
    obtain out1 where out1: "\<And>k. rbind (fse_encode s3 (fse_init_encoder_table 1024 freq) out (byte_value (lits ! (4 * i + 3)))) (\<lambda>(s3, out).
        rbind (fse_encode s2 (fse_init_encoder_table 1024 freq) out (byte_value (lits ! (4 * i + 2)))) (\<lambda>(s2, out).
        rbind (fse_encode s1 (fse_init_encoder_table 1024 freq) out (byte_value (lits ! (4 * i + 1)))) (\<lambda>(s1, out).
        rbind (fse_encode s0 (fse_init_encoder_table 1024 freq) out (byte_value (lits ! (4 * i)))) (\<lambda>(s0, out). k s0 s1 s2 s3 out)))) =
          (k t0 t1 t2 t3 out1 :: ((nat \<times> nat \<times> nat \<times> nat) \<times> fse_stream \<times> string \<times> nat) out result)"
      "out_stack b st1 out1 buf p" "accum_nbits out1 \<le> 47"
      using encode_group [OF cod(2) [unfolded group_at_def] gok Suc.prems(3,4)] one states1 by (auto simp: group_at_def)
    have "p + 8 \<le> length buf" "accum_nbits out1 \<le> 63" using False Suc.prems(6) out1(3) by auto
    from fse_out_flush [OF out1(2) this] obtain out2 buf2 p2 where f: "fse_out_flush out1 buf p = Inr (out2, buf2, p2)"
      "out_stack b st1 out2 buf2 p2" "accum_nbits out2 \<le> 7" "length buf2 = length buf" "take b buf2 = take b buf"
      "int p2 \<le> int p + accum_nbits out1 div 8" by blast
    have p2: "p2 + 8 \<le> dst_end" "dst_end \<le> length buf2" "i \<le> n" using f(4,6) out1(3) False Suc.prems(1,6) by auto
    have code1: "code_groups freq (map (group_at lits) [i..<n]) = (states1, st1)" using next_code one by simp
    show ?thesis using Suc.IH [OF p2(3) code1 f(2,3) p2(1,2), unfolded f(4,5)] False states states1 out1(1) f(1) by simp
  qed simp
qed simp

lemma decode_group:
  assumes "group_codable freq (c0, c1, c2, c3)" and "groups_ok ((s0, s1, s2, s3), st)"
    and "code_group freq (c0, c1, c2, c3) ((s0, s1, s2, s3), st) = ((t0, t1, t2, t3), st')"
    and "decoder_entries 1024 0 0 freq = Some t"
    and "in_stack (based J b st') inp buf p" and "J < 2 ^ (8 * b)" and "56 \<le> accum_nbits inp"
  shows "\<exists>inp'. (\<forall>k. rbind (fse_decode t0 t inp) (\<lambda>(c0, s0, inp). rbind (fse_decode t1 t inp) (\<lambda>(c1, s1, inp).
      rbind (fse_decode t2 t inp) (\<lambda>(c2, s2, inp). rbind (fse_decode t3 t inp) (\<lambda>(c3, s3, inp). k c0 c1 c2 c3 s0 s1 s2 s3 inp)))) =
        k c0 c1 c2 c3 s0 s1 s2 s3 inp') \<and>
    in_stack (based J b st) inp' buf p \<and> accum_nbits inp' \<le> accum_nbits inp"
proof -
  have c: "codable 10 freq c0" "codable 10 freq c1" "codable 10 freq c2" "codable 10 freq c3"
    using assms(1) by (auto simp: group_codable_def)
  have t: "decoder_entries (2 ^ 10) 0 0 freq = Some t" using assms(4) by simp
  obtain st3 st2 st1 where s:
    "coder_ok 10 (s3, st)" "coder_ok 10 (s2, st3)" "coder_ok 10 (s1, st2)" "coder_ok 10 (s0, st1)"
    "st3 = snd (code_symbol 10 freq 0 0 c3 (s3, st))" "st2 = snd (code_symbol 10 freq 0 0 c2 (s2, st3))"
    "st1 = snd (code_symbol 10 freq 0 0 c1 (s1, st2))"
    "code_group freq (c0, c1, c2, c3) ((s0, s1, s2, s3), st) =
      ((fst (code_symbol 10 freq 0 0 c0 (s0, st1)), fst (code_symbol 10 freq 0 0 c1 (s1, st2)),
        fst (code_symbol 10 freq 0 0 c2 (s2, st3)), fst (code_symbol 10 freq 0 0 c3 (s3, st))),
       snd (code_symbol 10 freq 0 0 c0 (s0, st1)))"
    by (rule code_group_steps [OF assms(1,2)]) (rule that)
  have u: "t0 = fst (code_symbol 10 freq 0 0 c0 (s0, st1))" "t1 = fst (code_symbol 10 freq 0 0 c1 (s1, st2))"
    "t2 = fst (code_symbol 10 freq 0 0 c2 (s2, st3))" "t3 = fst (code_symbol 10 freq 0 0 c3 (s3, st))"
    "st' = snd (code_symbol 10 freq 0 0 c0 (s0, st1))"
    using assms(3) unfolding s(8) by simp_all
  obtain i0 where i0: "fse_decode t0 t inp = Inr (c0, s0, i0)" "in_stack (based J b st1) i0 buf p"
    "accum_nbits inp - 10 \<le> accum_nbits i0" "accum_nbits i0 \<le> accum_nbits inp"
    using fse_decode_symbol [OF c(1) s(4) t, of J b inp buf p] assms(5-7) u by auto
  obtain i1 where i1: "fse_decode t1 t i0 = Inr (c1, s1, i1)" "in_stack (based J b st2) i1 buf p"
    "accum_nbits i0 - 10 \<le> accum_nbits i1" "accum_nbits i1 \<le> accum_nbits i0"
    using fse_decode_symbol [OF c(2) s(3) t, of J b i0 buf p] assms(6,7) u s(7) i0 by auto
  obtain i2 where i2: "fse_decode t2 t i1 = Inr (c2, s2, i2)" "in_stack (based J b st3) i2 buf p"
    "accum_nbits i1 - 10 \<le> accum_nbits i2" "accum_nbits i2 \<le> accum_nbits i1"
    using fse_decode_symbol [OF c(3) s(2) t, of J b i1 buf p] assms(6,7) u s(6) i0 i1 by auto
  obtain i3 where i3: "fse_decode t3 t i2 = Inr (c3, s3, i3)" "in_stack (based J b st) i3 buf p" "accum_nbits i3 \<le> accum_nbits i2"
    using fse_decode_symbol [OF c(4) s(1) t, of J b i2 buf p] assms(6,7) u s(5) i0 i1 i2 by auto
  show ?thesis using i0 i1 i2 i3 by (intro exI [of _ i3]) simp
qed

lemma drop_four: "drop (4 + n) (a # b # c # d # xs) = drop n xs" by (simp add: eval_nat_numeral)

definition group_chars :: "literal_group \<Rightarrow> string" where
  "group_chars g = (case g of (c0, c1, c2, c3) \<Rightarrow> map literal_char [c0, c1, c2, c3])"

lemma decode_literals_ok:
  assumes "list_all (group_codable freq) gs" and "code_groups freq gs = (states, st)" and "decoder_entries 1024 0 0 freq = Some t"
    and "in_stack (based J b st) inp src p" and "J < 2 ^ (8 * b)" and "accum_nbits inp < 64" and "8 * buf_start + 63 \<le> 8 * b"
    and "p + 8 \<le> length src" and "i + 4 * length gs \<le> length lits"
  shows "decode_literals (length gs) t src buf_start i states inp p lits =
    Inr (Some (take i lits @ concat (map group_chars gs) @ drop (i + 4 * length gs) lits))"
  using assms
proof (induction gs arbitrary: states st inp p i lits)
  case (Cons g gs)
  obtain c0 c1 c2 c3 where g: "g = (c0, c1, c2, c3)" by (metis prod_cases4)
  obtain s0 s1 s2 s3 st1 where rest: "code_groups freq gs = ((s0, s1, s2, s3), st1)" by (metis prod_cases4 surj_pair)
  obtain t0 t1 t2 t3 where states: "states = (t0, t1, t2, t3)" by (metis prod_cases4)
  have gok: "group_codable freq (c0, c1, c2, c3)" "groups_ok ((s0, s1, s2, s3), st1)"
    using Cons.prems(1) g code_groups_ok [of freq gs] rest by auto
  have code: "code_group freq (c0, c1, c2, c3) ((s0, s1, s2, s3), st1) = ((t0, t1, t2, t3), st)"
    using Cons.prems(2) rest g states by simp
  have "8 * buf_start + 63 \<le> snd (based J b st)" using Cons.prems(7) by (simp add: based_def)
  from fse_in_flush [OF Cons.prems(4,6) this Cons.prems(8)] obtain inp1 p1 where f:
    "fse_in_flush inp src p buf_start = Inr (Some (inp1, p1))" "in_stack (based J b st) inp1 src p1"
    "56 \<le> accum_nbits inp1" "accum_nbits inp1 < 64" "p1 \<le> p" by blast
  obtain inp2 where d: "\<And>k. rbind (fse_decode t0 t inp1) (\<lambda>(c0, s0, inp). rbind (fse_decode t1 t inp) (\<lambda>(c1, s1, inp).
      rbind (fse_decode t2 t inp) (\<lambda>(c2, s2, inp). rbind (fse_decode t3 t inp) (\<lambda>(c3, s3, inp). k c0 c1 c2 c3 s0 s1 s2 s3 inp)))) =
        (k c0 c1 c2 c3 s0 s1 s2 s3 inp2 :: string option result)"
    "in_stack (based J b st1) inp2 src p1" "accum_nbits inp2 \<le> accum_nbits inp1"
    using decode_group [OF gok code Cons.prems(3) f(2) Cons.prems(5) f(3)] by auto
  let ?lits = "take i lits @ map literal_char [c0, c1, c2, c3] @ drop (i + 4) lits"
  have st: "store_bytes lits i (map literal_char [c0, c1, c2, c3]) = Inr ?lits" using Cons.prems(9) by (simp add: store_bytes_def eval_nat_numeral)
  have "decode_literals (length gs) t src buf_start (i + 4) (s0, s1, s2, s3) inp2 p1 ?lits =
      Inr (Some (take (i + 4) ?lits @ concat (map group_chars gs) @ drop (i + 4 + 4 * length gs) ?lits))"
    by (rule Cons.IH [OF _ rest Cons.prems(3) d(2)]) (use Cons.prems d(3) f in auto)
  also have "take (i + 4) ?lits @ concat (map group_chars gs) @ drop (i + 4 + 4 * length gs) ?lits =
      take i lits @ concat (map group_chars (g # gs)) @ drop (i + 4 * length (g # gs)) lits"
    using Cons.prems(9) by (simp add: group_chars_def g drop_four add_ac)
  finally have rec: "decode_literals (length gs) t src buf_start (i + 4) (s0, s1, s2, s3) inp2 p1 ?lits =
      Inr (Some (take i lits @ concat (map group_chars (g # gs)) @ drop (i + 4 * length (g # gs)) lits))" .
  show ?case unfolding states list.size decode_literals.simps
    using f(1) d(1) st rec by simp
qed simp

end
