(* ===== verification/LZFSE_Values.thy ===== *)
theory LZFSE_Values
  imports LZFSE_Streams
begin

text \<open>
  The L, M, D values: every value within its limit has a symbol with a base value and extra bits, and
  coding the symbols of a list of triples backwards lets a decoder read the triples forwards.
\<close>

section \<open>Symbols of values\<close>

definition value_symbol :: "(nat \<Rightarrow> nat result) \<Rightarrow> nat list \<Rightarrow> int list \<Rightarrow> nat \<Rightarrow> nat \<Rightarrow> bool" where
  "value_symbol base extra bval v i \<longleftrightarrow>
     base v = Inr i \<and> i < length extra \<and> length bval = length extra \<and> bval ! i \<le> int v \<and> int v < bval ! i + 2 ^ (extra ! i)"

lemma l_extra_le: "i < 20 \<Longrightarrow> l_extra_bits ! i \<le> 8"
proof -
  have "list_all (\<lambda>b. b \<le> 8) l_extra_bits" by code_simp
  then show "i < 20 \<Longrightarrow> l_extra_bits ! i \<le> 8" by (simp add: list_all_length l_extra_bits_def)
qed

lemma m_extra_le: "i < 20 \<Longrightarrow> m_extra_bits ! i \<le> 11"
proof -
  have "list_all (\<lambda>b. b \<le> 11) m_extra_bits" by code_simp
  then show "i < 20 \<Longrightarrow> m_extra_bits ! i \<le> 11" by (simp add: list_all_length m_extra_bits_def)
qed

lemma d_extra_le: "i < 64 \<Longrightarrow> d_extra_bits ! i \<le> 15"
proof -
  have "list_all (\<lambda>b. b \<le> 15) d_extra_bits" by code_simp
  then show "i < 64 \<Longrightarrow> d_extra_bits ! i \<le> 15" by (simp add: list_all_length d_extra_bits_def)
qed

lemma extra_lengths: "length l_extra_bits = 20" "length m_extra_bits = 20" "length d_extra_bits = 64"
    "length l_base_value = 20" "length m_base_value = 20" "length d_base_value = 64"
  by code_simp+

lemma small_value_symbols:
  "list_all (\<lambda>v. l_base_value ! v = int v \<and> l_extra_bits ! v = 0 \<and> m_base_value ! v = int v \<and> m_extra_bits ! v = 0) [0..<16]"
  by code_simp

lemma l_value_symbol: "v \<le> 315 \<Longrightarrow> \<exists>i. value_symbol l_base_from_value l_extra_bits l_base_value v i"
proof -
  assume v: "v \<le> 315"
  have small: "l_base_value ! v = int v \<and> l_extra_bits ! v = 0" if "v < 16"
    using small_value_symbols that by (simp add: list_all_iff)
  consider "v < 16" | "16 \<le> v" "v < 20" | "20 \<le> v" "v < 28" | "28 \<le> v" "v < 60" | "60 \<le> v" by linarith
  then show ?thesis
    by cases (use v small in \<open>auto simp: value_symbol_def l_base_from_value_def table_at_def extra_lengths l_sym_def nth_append
        l_extra_bits_def l_base_value_def\<close>)
qed

lemma m_value_symbol: "v \<le> 2359 \<Longrightarrow> \<exists>i. value_symbol m_base_from_value m_extra_bits m_base_value v i"
proof -
  assume v: "v \<le> 2359"
  have small: "m_base_value ! v = int v \<and> m_extra_bits ! v = 0" if "v < 16"
    using small_value_symbols that by (simp add: list_all_iff)
  consider "v < 16" | "16 \<le> v" "v < 24" | "24 \<le> v" "v < 56" | "56 \<le> v" "v < 312" | "312 \<le> v" by linarith
  then show ?thesis
    by cases (use v small in \<open>auto simp: value_symbol_def m_base_from_value_def table_at_def extra_lengths m_sym_def nth_append
        m_extra_bits_def m_base_value_def\<close>)
qed

text \<open>An index of the distance table stands for a run of \<open>w\<close> distances from \<open>lo\<close>.\<close>

definition d_run_ok :: "nat \<Rightarrow> int \<Rightarrow> int \<Rightarrow> bool" where
  "d_run_ok i lo w \<longleftrightarrow> i < 64 \<and> d_base_value ! i \<le> lo \<and> lo + w \<le> d_base_value ! i + 2 ^ (d_extra_bits ! i)"

definition d_runs_ok :: "nat \<Rightarrow> int \<Rightarrow> int \<Rightarrow> bool" where
  "d_runs_ok k lo w \<longleftrightarrow> list_all (\<lambda>(i, j). d_run_ok i (lo + w * j) w) (zip (take 60 (drop k d_sym)) [0..59])"

lemma d_runs_all: "d_runs_ok 0 0 1" "d_runs_ok 64 60 16" "d_runs_ok 128 1020 256" "d_runs_ok 192 16380 4096"
  by code_simp+

lemma length_d_sym: "length d_sym = 256" by code_simp

lemma d_run_at:
  assumes "d_runs_ok k (int lo) (int w)" and "k + 60 \<le> 256" and "j < 60"
  shows "d_run_ok (d_sym ! (k + j)) (int (lo + w * j)) (int w)"
proof -
  have "(d_sym ! (k + j), int j) \<in> set (zip (take 60 (drop k d_sym)) [0..59])"
    using assms(2,3) by (force simp: in_set_zip length_d_sym intro: exI [of _ j])
  then show ?thesis using assms(1) by (force simp: d_runs_ok_def list_all_iff)
qed

lemma d_value_symbol_at:
  assumes "d_runs_ok k (int lo) (int w)" and "k + 60 \<le> 256" and "j < 60" and "lo + w * j \<le> v" and "v < lo + w * j + w"
    and "d_base_from_value v = table_at d_sym (k + j)"
  shows "\<exists>i. value_symbol d_base_from_value d_extra_bits d_base_value v i"
proof -
  have "d_run_ok (d_sym ! (k + j)) (int (lo + w * j)) (int w)" by (rule d_run_at) (use assms in auto)
  moreover have "int (lo + w * j) \<le> int v" "int v < int (lo + w * j) + int w" using assms(4,5) by linarith+
  ultimately show ?thesis using assms(2,3,6)
    by (intro exI [of _ "d_sym ! (k + j)"]) (auto simp: value_symbol_def table_at_def d_run_ok_def extra_lengths length_d_sym simp del: of_nat_add of_nat_mult)
qed

lemma div_run: "lo \<le> v \<Longrightarrow> v < lo + w * n \<Longrightarrow> 0 < w \<Longrightarrow> (v - lo) div w < n \<and> lo + w * ((v - lo) div w) \<le> v \<and> v < lo + w * ((v - lo) div w) + w"
  for lo v w n :: nat
proof -
  assume a: "lo \<le> v" "v < lo + w * n" "0 < w"
  have "(v - lo) div w < n" using a by (simp add: less_mult_imp_div_less mult.commute)
  moreover have "w * ((v - lo) div w) \<le> v - lo" "v - lo < w * ((v - lo) div w) + w"
    using a(3) by (simp_all add: dividend_less_times_div add.commute)
  ultimately show ?thesis using a(1) by linarith
qed

lemma d_value_symbol: "v < 262140 \<Longrightarrow> \<exists>i. value_symbol d_base_from_value d_extra_bits d_base_value v i"
proof -
  assume v: "v < 262140"
  consider "v < 60" | "60 \<le> v" "v < 1020" | "1020 \<le> v" "v < 16380" | "16380 \<le> v" by linarith
  then show ?thesis
  proof cases
    case 1
    show ?thesis by (rule d_value_symbol_at [of 0 0 1 v]) (use 1 d_runs_all(1) in \<open>auto simp: d_base_from_value_def\<close>)
  next
    case 2
    show ?thesis by (rule d_value_symbol_at [of 64 60 16 "(v - 60) div 16"])
        (use 2 d_runs_all(2) div_run [of 60 v 16 60] in \<open>auto simp: d_base_from_value_def add.commute\<close>)
  next
    case 3
    show ?thesis by (rule d_value_symbol_at [of 128 1020 256 "(v - 1020) div 256"])
        (use 3 d_runs_all(3) div_run [of 1020 v 256 60] in \<open>auto simp: d_base_from_value_def add.commute\<close>)
  next
    case 4
    show ?thesis by (rule d_value_symbol_at [of 192 16380 4096 "(v - 16380) div 4096"])
        (use 4 v d_runs_all(4) div_run [of 16380 v 4096 60] in \<open>auto simp: d_base_from_value_def add.commute\<close>)
  qed
qed

section \<open>One value\<close>

definition value_codable :: "nat \<Rightarrow> nat list \<Rightarrow> (nat \<Rightarrow> nat result) \<Rightarrow> nat list \<Rightarrow> int list \<Rightarrow> nat \<Rightarrow> bool" where
  "value_codable q freq base extra bval v \<longleftrightarrow>
     (\<exists>i. value_symbol base extra bval v i \<and> codable q freq i \<and> length freq = length extra \<and> extra ! i \<le> 15)"

definition code_value :: "nat \<Rightarrow> nat list \<Rightarrow> (nat \<Rightarrow> nat result) \<Rightarrow> nat list \<Rightarrow> int list \<Rightarrow> nat \<Rightarrow> nat \<times> bit_stack \<Rightarrow> nat \<times> bit_stack" where
  "code_value q freq base extra bval v sst =
     (let i = projr (base v) in code_symbol q freq (extra ! i) (nat (int v - bval ! i)) i sst)"

lemma value_codableE:
  assumes "value_codable q freq base extra bval v"
  obtains i x where "base v = Inr i" "i < length extra" "length bval = length extra" "length freq = length extra" "codable q freq i"
    "extra ! i \<le> 15" "bval ! i + int x = int v" "x < 2 ^ (extra ! i)"
    "code_value q freq base extra bval v = code_symbol q freq (extra ! i) x i"
proof -
  from assms obtain i where i: "value_symbol base extra bval v i" "codable q freq i" "length freq = length extra" "extra ! i \<le> 15"
    by (auto simp: value_codable_def)
  then have b: "bval ! i \<le> int v" "int v < bval ! i + 2 ^ (extra ! i)" by (auto simp: value_symbol_def)
  then have "nat (int v - bval ! i) < nat (2 ^ (extra ! i))" by linarith
  then have "nat (int v - bval ! i) < 2 ^ (extra ! i)" by (simp add: nat_power_eq)
  then show thesis using i b
    by (intro that [of i "nat (int v - bval ! i)"]) (auto simp: value_symbol_def code_value_def fun_eq_iff)
qed

lemma code_value_ok:
  assumes "value_codable q freq base extra bval v" and "coder_ok q sst"
  shows "coder_ok q (code_value q freq base extra bval v sst)"
    and "snd (snd (code_value q freq base extra bval v sst)) \<le> snd (snd sst) + 15 + q"
proof -
  obtain i x where "codable q freq i" "extra ! i \<le> 15" "x < 2 ^ (extra ! i)"
    "code_value q freq base extra bval v = code_symbol q freq (extra ! i) x i"
    by (rule value_codableE [OF assms(1)]) (rule that)
  then show "coder_ok q (code_value q freq base extra bval v sst)"
    "snd (snd (code_value q freq base extra bval v sst)) \<le> snd (snd sst) + 15 + q"
    using coder_ok_code [of q freq i sst x "extra ! i"] snd_code_symbol [of q freq i "extra ! i" x sst] assms(2) by auto
qed

lemma encode_value_ok:
  assumes "value_codable q freq base extra bval v" and "coder_ok q (s, st)" and "out_stack b st out buf p"
    and "\<And>i. i < length extra \<Longrightarrow> extra ! i \<le> n" and "accum_nbits out + int (n + q) \<le> 64"
  shows "\<exists>out'. encode_value base extra bval (fse_init_encoder_table (2 ^ q) freq) s v out =
      Inr (fst (code_value q freq base extra bval v (s, st)), out') \<and>
    out_stack b (snd (code_value q freq base extra bval v (s, st))) out' buf p \<and> accum_nbits out' \<le> accum_nbits out + int (n + q)"
proof -
  obtain i x where i: "base v = Inr i" "i < length extra" "length bval = length extra" "codable q freq i"
    "bval ! i + int x = int v" "x < 2 ^ (extra ! i)" "code_value q freq base extra bval v = code_symbol q freq (extra ! i) x i"
    by (rule value_codableE [OF assms(1)]) (rule that)
  have n: "extra ! i \<le> n" using assms(4) i(2) .
  obtain o1 where o1: "fse_out_push out (extra ! i) x = Inr o1" "out_stack b (push_bits (extra ! i) x st) o1 buf p"
    "accum_nbits o1 = accum_nbits out + int (extra ! i)"
    using fse_out_push [OF assms(3) i(6)] assms(5) n by auto
  have "nat (int v - bval ! i) = x" using i(5) by linarith
  then show ?thesis
    using fse_encode_symbol [OF i(4) assms(2) o1(2)] o1(1,3) i assms(5) n by (auto simp: encode_value_def table_at_def)
qed

lemma decode_value_ok:
  assumes "value_codable q freq base extra bval v" and "coder_ok q (s, st)"
    and "in_stack (based J b (snd (code_value q freq base extra bval v (s, st)))) inp buf p" and "J < 2 ^ (8 * b)"
    and "\<And>i. i < length extra \<Longrightarrow> extra ! i \<le> n" and "int (q + n) \<le> accum_nbits inp"
  shows "\<exists>inp'. fse_value_decode (fst (code_value q freq base extra bval v (s, st))) (value_entries (2 ^ q) (zip freq (zip extra bval))) inp =
      Inr (int v, s, inp') \<and>
    in_stack (based J b st) inp' buf p \<and> accum_nbits inp - int (q + n) \<le> accum_nbits inp' \<and> accum_nbits inp' \<le> accum_nbits inp"
proof -
  obtain i x where i: "i < length extra" "length bval = length extra" "length freq = length extra" "codable q freq i"
    "extra ! i \<le> 15" "bval ! i + int x = int v" "x < 2 ^ (extra ! i)" "code_value q freq base extra bval v = code_symbol q freq (extra ! i) x i"
    by (rule value_codableE [OF assms(1)]) (rule that)
  have n: "extra ! i \<le> n" using assms(5) i(1) .
  have "int (q + extra ! i) \<le> accum_nbits inp" using assms(6) n by linarith
  from fse_value_decode_symbol [OF i(4) assms(2) _ _ i(7,5) assms(3) [unfolded i(8)] assms(4) this, of bval] i n
  show ?thesis by auto
qed

section \<open>Triples\<close>

type_synonym lmd = "nat \<times> nat \<times> nat"

type_synonym lmd_freqs = "nat list \<times> nat list \<times> nat list"

abbreviation code_l :: "nat list \<Rightarrow> nat \<Rightarrow> nat \<times> bit_stack \<Rightarrow> nat \<times> bit_stack" where
  "code_l f \<equiv> code_value 6 f l_base_from_value l_extra_bits l_base_value"

abbreviation code_m :: "nat list \<Rightarrow> nat \<Rightarrow> nat \<times> bit_stack \<Rightarrow> nat \<times> bit_stack" where
  "code_m f \<equiv> code_value 6 f m_base_from_value m_extra_bits m_base_value"

abbreviation code_d :: "nat list \<Rightarrow> nat \<Rightarrow> nat \<times> bit_stack \<Rightarrow> nat \<times> bit_stack" where
  "code_d f \<equiv> code_value 8 f d_base_from_value d_extra_bits d_base_value"

definition code_lmd :: "lmd_freqs \<Rightarrow> lmd \<Rightarrow> lmd \<times> bit_stack \<Rightarrow> lmd \<times> bit_stack" where
  "code_lmd fs x sst =
     (case fs of (lf, mf, df) \<Rightarrow> case x of (l, m, d) \<Rightarrow> case sst of ((sl, sm, sd), st) \<Rightarrow>
        let (sd', st) = code_d df d (sd, st); (sm', st) = code_m mf m (sm, st); (sl', st) = code_l lf l (sl, st)
        in ((sl', sm', sd'), st))"

fun code_lmds :: "lmd_freqs \<Rightarrow> lmd list \<Rightarrow> lmd \<times> bit_stack" where
  "code_lmds fs [] = ((0, 0, 0), (0, 0))"
| "code_lmds fs (x # xs) = code_lmd fs x (code_lmds fs xs)"

definition lmd_codable :: "lmd_freqs \<Rightarrow> lmd \<Rightarrow> bool" where
  "lmd_codable fs x \<longleftrightarrow> (case fs of (lf, mf, df) \<Rightarrow> case x of (l, m, d) \<Rightarrow>
     value_codable 6 lf l_base_from_value l_extra_bits l_base_value l \<and>
     value_codable 6 mf m_base_from_value m_extra_bits m_base_value m \<and>
     value_codable 8 df d_base_from_value d_extra_bits d_base_value d)"

definition lmds_ok :: "lmd \<times> bit_stack \<Rightarrow> bool" where
  "lmds_ok sst \<longleftrightarrow> (case sst of ((sl, sm, sd), st) \<Rightarrow> sl < 64 \<and> sm < 64 \<and> sd < 256 \<and> stack_ok st)"

lemma code_lmd_steps:
  assumes "lmd_codable (lf, mf, df) (l, m, d)" and "lmds_ok ((sl, sm, sd), st)"
  obtains st2 st1 where "coder_ok 8 (sd, st)" "coder_ok 6 (sm, st2)" "coder_ok 6 (sl, st1)"
    "st2 = snd (code_d df d (sd, st))" "st1 = snd (code_m mf m (sm, st2))"
    "code_lmd (lf, mf, df) (l, m, d) ((sl, sm, sd), st) =
      ((fst (code_l lf l (sl, st1)), fst (code_m mf m (sm, st2)), fst (code_d df d (sd, st))), snd (code_l lf l (sl, st1)))"
proof -
  define st2 where "st2 = snd (code_d df d (sd, st))"
  define st1 where "st1 = snd (code_m mf m (sm, st2))"
  note c = assms(1) [unfolded lmd_codable_def, simplified]
  have s: "sl < 2 ^ 6" "sm < 2 ^ 6" "coder_ok 8 (sd, st)" using assms(2) by (auto simp: lmds_ok_def coder_ok_def)
  have 2: "coder_ok 6 (sm, st2)" using code_value_ok(1) [of 8 df d_base_from_value d_extra_bits d_base_value d "(sd, st)"] c s
    by (simp add: coder_ok_def st2_def)
  have 1: "coder_ok 6 (sl, st1)" using code_value_ok(1) [of 6 mf m_base_from_value m_extra_bits m_base_value m "(sm, st2)"] c s 2
    by (simp add: coder_ok_def st1_def)
  show thesis
    by (rule that [OF s(3) 2 1 st2_def st1_def]) (simp add: code_lmd_def case_prod_beta Let_def st1_def st2_def)
qed

lemma lmds_ok_code:
  assumes "lmd_codable fs x" and "lmds_ok sst"
  shows "lmds_ok (code_lmd fs x sst)" and "snd (snd (code_lmd fs x sst)) \<le> snd (snd sst) + 65"
proof -
  obtain lf mf df l m d sl sm sd st where e: "fs = (lf, mf, df)" "x = (l, m, d)" "sst = ((sl, sm, sd), st)"
    by (metis prod_cases3 surj_pair)
  obtain st2 st1 where s: "coder_ok 8 (sd, st)" "coder_ok 6 (sm, st2)" "coder_ok 6 (sl, st1)"
    "st2 = snd (code_d df d (sd, st))" "st1 = snd (code_m mf m (sm, st2))"
    "code_lmd (lf, mf, df) (l, m, d) ((sl, sm, sd), st) =
      ((fst (code_l lf l (sl, st1)), fst (code_m mf m (sm, st2)), fst (code_d df d (sd, st))), snd (code_l lf l (sl, st1)))"
    by (rule code_lmd_steps [OF assms [unfolded e]]) (rule that)
  note c = assms(1) [unfolded e lmd_codable_def, simplified]
  have "coder_ok 8 (code_d df d (sd, st))" "coder_ok 6 (code_m mf m (sm, st2))" "coder_ok 6 (code_l lf l (sl, st1))"
    using code_value_ok(1) c s(1-3) by blast+
  then show "lmds_ok (code_lmd fs x sst)" unfolding e s(6) by (simp add: lmds_ok_def coder_ok_def)
  have "snd (snd (code_d df d (sd, st))) \<le> snd st + 15 + 8" "snd (snd (code_m mf m (sm, st2))) \<le> snd st2 + 15 + 6"
    "snd (snd (code_l lf l (sl, st1))) \<le> snd st1 + 15 + 6"
    using code_value_ok(2) c s(1-3) by fastforce+
  then show "snd (snd (code_lmd fs x sst)) \<le> snd (snd sst) + 65" unfolding e s(6) s(5) unfolding s(4) by simp
qed

lemma code_lmds_ok: "list_all (lmd_codable fs) xs \<Longrightarrow> lmds_ok (code_lmds fs xs) \<and> snd (snd (code_lmds fs xs)) \<le> 65 * length xs"
proof (induction xs)
  case (Cons x xs)
  then show ?case using lmds_ok_code [of fs x "code_lmds fs xs"] by auto
qed (simp add: lmds_ok_def stack_ok_def)

lemma encode_lmd:
  assumes "lmd_codable (lf, mf, df) (l, m, d)" and "lmds_ok ((sl, sm, sd), st)" and "out_stack b st out buf p" and "accum_nbits out \<le> 7"
    and "code_lmd (lf, mf, df) (l, m, d) ((sl, sm, sd), st) = ((tl', tm, td), st')"
  shows "\<exists>o2 o1 o0. encode_value d_base_from_value d_extra_bits d_base_value (fse_init_encoder_table 256 df) sd d out = Inr (td, o2) \<and>
    encode_value m_base_from_value m_extra_bits m_base_value (fse_init_encoder_table 64 mf) sm m o2 = Inr (tm, o1) \<and>
    encode_value l_base_from_value l_extra_bits l_base_value (fse_init_encoder_table 64 lf) sl l o1 = Inr (tl', o0) \<and>
    out_stack b st' o0 buf p \<and> accum_nbits o0 \<le> 61"
proof -
  obtain st2 st1 where s: "coder_ok 8 (sd, st)" "coder_ok 6 (sm, st2)" "coder_ok 6 (sl, st1)"
    "st2 = snd (code_d df d (sd, st))" "st1 = snd (code_m mf m (sm, st2))"
    "code_lmd (lf, mf, df) (l, m, d) ((sl, sm, sd), st) =
      ((fst (code_l lf l (sl, st1)), fst (code_m mf m (sm, st2)), fst (code_d df d (sd, st))), snd (code_l lf l (sl, st1)))"
    by (rule code_lmd_steps [OF assms(1,2)]) (rule that)
  note c = assms(1) [unfolded lmd_codable_def, simplified]
  have t: "tl' = fst (code_l lf l (sl, st1))" "tm = fst (code_m mf m (sm, st2))" "td = fst (code_d df d (sd, st))" "st' = snd (code_l lf l (sl, st1))"
    using assms(5) unfolding s(6) by simp_all
  obtain o2 where o2: "encode_value d_base_from_value d_extra_bits d_base_value (fse_init_encoder_table 256 df) sd d out = Inr (td, o2)"
    "out_stack b st2 o2 buf p" "accum_nbits o2 \<le> accum_nbits out + 23"
    using encode_value_ok [of 8 df d_base_from_value d_extra_bits d_base_value d sd st b out buf p 15] c s(1,4) t assms(3,4) d_extra_le
    by (auto simp: extra_lengths)
  obtain o1 where o1: "encode_value m_base_from_value m_extra_bits m_base_value (fse_init_encoder_table 64 mf) sm m o2 = Inr (tm, o1)"
    "out_stack b st1 o1 buf p" "accum_nbits o1 \<le> accum_nbits o2 + 17"
    using encode_value_ok [of 6 mf m_base_from_value m_extra_bits m_base_value m sm st2 b o2 buf p 11] c s(2,5) t o2(2,3) assms(4) m_extra_le
    by (auto simp: extra_lengths)
  obtain o0 where o0: "encode_value l_base_from_value l_extra_bits l_base_value (fse_init_encoder_table 64 lf) sl l o1 = Inr (tl', o0)"
    "out_stack b st' o0 buf p" "accum_nbits o0 \<le> accum_nbits o1 + 14"
    using encode_value_ok [of 6 lf l_base_from_value l_extra_bits l_base_value l sl st1 b o1 buf p 8] c s(3) t o1(2,3) o2(3) assms(4) l_extra_le
    by (auto simp: extra_lengths)
  have "accum_nbits o0 \<le> 61" using o0(3) o1(3) o2(3) assms(4) by linarith
  then show ?thesis using o0(1,2) o1(1) o2(1) by blast
qed

lemma encode_lmds_ok:
  assumes "list_all (lmd_codable (lf, mf, df)) zs" and "list_all (lmd_codable (lf, mf, df)) ys"
    and "code_lmds (lf, mf, df) ys = (states, st)"
    and "out_stack b st out buf p" and "accum_nbits out \<le> 7" and "p + 8 \<le> dst_end" and "dst_end \<le> length buf"
  shows "\<exists>r. encode_lmds (fse_init_encoder_table 64 lf) (fse_init_encoder_table 64 mf) (fse_init_encoder_table 256 df) dst_end zs states out buf p = Inr r \<and>
    (case r of OUT_FULL buf' \<Rightarrow> length buf' = length buf \<and> take b buf' = take b buf
     | Out (states', out', buf', p') \<Rightarrow> length buf' = length buf \<and> take b buf' = take b buf \<and> p' + 8 \<le> dst_end \<and> accum_nbits out' \<le> 7 \<and>
         (\<exists>st'. code_lmds (lf, mf, df) (rev zs @ ys) = (states', st') \<and> out_stack b st' out' buf' p'))"
  using assms
proof (induction zs arbitrary: ys states st out buf p)
  case (Cons z zs)
  obtain l m d where z: "z = (l, m, d)" by (metis prod_cases3)
  obtain sl sm sd where states: "states = (sl, sm, sd)" by (metis prod_cases3)
  have gok: "lmds_ok ((sl, sm, sd), st)" using code_lmds_ok [OF Cons.prems(2)] Cons.prems(3) states by simp
  have cod: "lmd_codable (lf, mf, df) (l, m, d)" "list_all (lmd_codable (lf, mf, df)) zs" "list_all (lmd_codable (lf, mf, df)) (z # ys)"
    using Cons.prems(1,2) z by auto
  obtain states1 st1 where one: "code_lmd (lf, mf, df) (l, m, d) ((sl, sm, sd), st) = (states1, st1)" by (rule prod.exhaust)
  obtain tl' tm td where states1: "states1 = (tl', tm, td)" by (metis prod_cases3)
  have code1: "code_lmds (lf, mf, df) (z # ys) = (states1, st1)" using Cons.prems(3) one z states by simp
  show ?case
  proof (cases "p + 16 > dst_end")
    case True
    then show ?thesis using z by simp
  next
    case False
    from encode_lmd [OF cod(1) gok Cons.prems(4,5) one [unfolded states1]] obtain o2 o1 out1 where e:
      "encode_value d_base_from_value d_extra_bits d_base_value (fse_init_encoder_table 256 df) sd d out = Inr (td, o2)"
      "encode_value m_base_from_value m_extra_bits m_base_value (fse_init_encoder_table 64 mf) sm m o2 = Inr (tm, o1)"
      "encode_value l_base_from_value l_extra_bits l_base_value (fse_init_encoder_table 64 lf) sl l o1 = Inr (tl', out1)"
      "out_stack b st1 out1 buf p" "accum_nbits out1 \<le> 61" by blast
    have "p + 8 \<le> length buf" "accum_nbits out1 \<le> 63" using False Cons.prems(7) e(5) by auto
    from fse_out_flush [OF e(4) this] obtain out2 buf2 p2 where f: "fse_out_flush out1 buf p = Inr (out2, buf2, p2)"
      "out_stack b st1 out2 buf2 p2" "accum_nbits out2 \<le> 7" "length buf2 = length buf" "take b buf2 = take b buf"
      "int p2 \<le> int p + accum_nbits out1 div 8" by blast
    have p2: "p2 + 8 \<le> dst_end" "dst_end \<le> length buf2" using f(4,6) e(5) False Cons.prems(7) by auto
    have rev_eq: "rev (z # zs) @ ys = rev zs @ z # ys" by simp
    show ?thesis unfolding rev_eq
      using Cons.IH [OF cod(2,3) code1 f(2,3) p2, unfolded f(4,5)] False e(1-3) f(1) by (simp add: z states states1)
  qed
qed simp

lemma decode_symbols_ok:
  assumes "list_all (lmd_codable (lf, mf, df)) ((l, m, d) # xs)"
    and "code_lmds (lf, mf, df) ((l, m, d) # xs) = ((r_l_state r, r_m_state r, r_d_state r), st)"
    and "bs_l_decoder (ld_lzfse s) = value_entries 64 (zip lf (zip l_extra_bits l_base_value))"
    and "bs_m_decoder (ld_lzfse s) = value_entries 64 (zip mf (zip m_extra_bits m_base_value))"
    and "bs_d_decoder (ld_lzfse s) = value_entries 256 (zip df (zip d_extra_bits d_base_value))"
    and "in_stack (based J b st) (r_in r) (ld_src s) (r_src r)" and "J < 2 ^ (8 * b)" and "accum_nbits (r_in r) < 64"
    and "8 * ld_src_begin s + 63 \<le> 8 * b" and "r_src r + 8 \<le> length (ld_src s)" and "r_lit r + l < 40064"
  shows "\<exists>inp p states st'. code_lmds (lf, mf, df) xs = (states, st') \<and> in_stack (based J b st') inp (ld_src s) p \<and>
    accum_nbits inp < 64 \<and> p + 8 \<le> length (ld_src s) \<and>
    decode_symbols s r = Inr (Some (r\<lparr>r_in := inp, r_src := p, r_l_state := fst states, r_m_state := fst (snd states),
      r_d_state := snd (snd states), r_L := l, r_M := m, r_D := (if d \<noteq> 0 then int d else r_D r)\<rparr>))"
proof -
  obtain sl sm sd st3 where rest: "code_lmds (lf, mf, df) xs = ((sl, sm, sd), st3)" by (metis prod_cases3 surj_pair)
  have gok: "lmd_codable (lf, mf, df) (l, m, d)" "lmds_ok ((sl, sm, sd), st3)"
    using assms(1) code_lmds_ok [of "(lf, mf, df)" xs] rest by auto
  obtain st2 st1 where k: "coder_ok 8 (sd, st3)" "coder_ok 6 (sm, st2)" "coder_ok 6 (sl, st1)"
    "st2 = snd (code_d df d (sd, st3))" "st1 = snd (code_m mf m (sm, st2))"
    "code_lmd (lf, mf, df) (l, m, d) ((sl, sm, sd), st3) =
      ((fst (code_l lf l (sl, st1)), fst (code_m mf m (sm, st2)), fst (code_d df d (sd, st3))), snd (code_l lf l (sl, st1)))"
    by (rule code_lmd_steps [OF gok]) (rule that)
  have u: "r_l_state r = fst (code_l lf l (sl, st1))" "r_m_state r = fst (code_m mf m (sm, st2))" "r_d_state r = fst (code_d df d (sd, st3))"
    "st = snd (code_l lf l (sl, st1))"
    using assms(2) rest k(6) by simp_all
  note c = gok(1) [unfolded lmd_codable_def, simplified]
  have "8 * ld_src_begin s + 63 \<le> snd (based J b st)" using assms(9) by (simp add: based_def)
  from fse_in_flush [OF assms(6,8) this assms(10)] obtain i0 p where f:
    "fse_in_flush (r_in r) (ld_src s) (r_src r) (ld_src_begin s) = Inr (Some (i0, p))" "in_stack (based J b st) i0 (ld_src s) p"
    "56 \<le> accum_nbits i0" "accum_nbits i0 < 64" "p \<le> r_src r" by blast
  obtain i1 where i1: "fse_value_decode (r_l_state r) (bs_l_decoder (ld_lzfse s)) i0 = Inr (int l, sl, i1)"
    "in_stack (based J b st1) i1 (ld_src s) p" "accum_nbits i0 - 14 \<le> accum_nbits i1" "accum_nbits i1 \<le> accum_nbits i0"
    using decode_value_ok [of 6 lf l_base_from_value l_extra_bits l_base_value l sl st1 J b i0 "ld_src s" p 8] c k(3) u f(2,3) assms(3,7) l_extra_le
    by (auto simp: extra_lengths)
  obtain i2 where i2: "fse_value_decode (r_m_state r) (bs_m_decoder (ld_lzfse s)) i1 = Inr (int m, sm, i2)"
    "in_stack (based J b st2) i2 (ld_src s) p" "accum_nbits i1 - 17 \<le> accum_nbits i2" "accum_nbits i2 \<le> accum_nbits i1"
    using decode_value_ok [of 6 mf m_base_from_value m_extra_bits m_base_value m sm st2 J b i1 "ld_src s" p 11] c k(2,5) u i1 f(3) assms(4,7) m_extra_le
    by (auto simp: extra_lengths)
  obtain i3 where i3: "fse_value_decode (r_d_state r) (bs_d_decoder (ld_lzfse s)) i2 = Inr (int d, sd, i3)"
    "in_stack (based J b st3) i3 (ld_src s) p" "accum_nbits i3 \<le> accum_nbits i2"
    using decode_value_ok [of 8 df d_base_from_value d_extra_bits d_base_value d sd st3 J b i2 "ld_src s" p 15] c k(1,4) u i1 i2 f(3) assms(5,7) d_extra_le
    by (auto simp: extra_lengths)
  have ok: "sl < 64" "sm < 64" "sd < 256" using gok(2) by (auto simp: lmds_ok_def)
  have "\<not> int (r_lit r) + int l \<ge> 40000 + 64" using assms(11) by linarith
  then have "decode_symbols s r = Inr (Some (r\<lparr>r_in := i3, r_src := p, r_l_state := sl, r_m_state := sm,
      r_d_state := sd, r_L := l, r_M := m, r_D := (if d \<noteq> 0 then int d else r_D r)\<rparr>))"
    using f(1) i1(1) i2(1) i3(1) ok by (simp add: decode_symbols_def Let_def assert_that_def)
  then show ?thesis using i3(2,3) i2(4) i1(4) f(4,5) assms(10) rest
    by (intro exI [of _ i3] exI [of _ p] exI [of _ "(sl, sm, sd)"] exI [of _ st3]) auto
qed

end
