(* ===== verification/LZFSE_Header.thy ===== *)
theory LZFSE_Header
  imports LZFSE_Values
begin

text \<open>
  The header of a compressed block: its packed fields and its frequency tables, written by
  \<open>lzfse_encode_v1_state\<close> and \<open>lzfse_encode_v1_freq_table\<close>, are what \<open>lzfse_decode_v1\<close> reads.
\<close>

unbundle bit_operations_syntax

section \<open>Packed fields\<close>

fun pack :: "(nat \<times> nat \<times> nat) list \<Rightarrow> nat" where
  "pack [] = 0"
| "pack ((v, off, n) # fs) = v + 2 ^ n * pack fs"

fun packed :: "nat \<Rightarrow> (nat \<times> nat \<times> nat) list \<Rightarrow> bool" where
  "packed p [] = True"
| "packed p ((v, off, n) # fs) \<longleftrightarrow> off = p \<and> v < 2 ^ n \<and> p + n < 64 \<and> n \<le> 32 \<and> packed (p + n) fs"

lemma setFields_pack: "packed p fs \<Longrightarrow> setFields fs = Inr (2 ^ p * pack fs)"
proof (induction p fs rule: packed.induct)
  case (2 p v off n fs)
  have v: "v < 2 ^ n" "p + n < 64" using "2.prems" by auto
  have "v * 2 ^ p < 2 ^ (p + n)" using v(1) by (simp add: power_add mult.commute)
  moreover have "(2 :: nat) ^ (p + n) \<le> 2 ^ 64" using v(2) by (intro power_increasing) auto
  ultimately have m: "v * 2 ^ p mod 2 ^ 64 = v * 2 ^ p" "v * 2 ^ p < 2 ^ (p + n)" by auto
  have "v * 2 ^ p OR pack fs * 2 ^ (p + n) = v * 2 ^ p + pack fs * 2 ^ (p + n)" by (rule or_shift [OF m(2)])
  then show ?case using 2 m(1) by (simp add: setField_def assert_that_def algebra_simps power_add)
qed simp

lemma get_field_head: "v < 2 ^ n \<Longrightarrow> get_field (pack ((v, off, n) # fs)) 0 n = v"
  by (simp add: get_field_def)

lemma get_field_tail: "v < 2 ^ n \<Longrightarrow> n \<le> k \<Longrightarrow> get_field (pack ((v, off, n) # fs)) k m = get_field (pack fs) (k - n) m"
proof -
  assume "v < 2 ^ n" "n \<le> k"
  then have "(v + 2 ^ n * pack fs) div 2 ^ n = pack fs" "k = n + (k - n)" by simp_all
  then have "(v + 2 ^ n * pack fs) div 2 ^ k = pack fs div 2 ^ (k - n)" by (metis div_mult2_eq power_add)
  then show ?thesis by (simp add: get_field_def)
qed

lemma packed_less: "packed p fs \<Longrightarrow> fs \<noteq> [] \<Longrightarrow> 2 ^ p * pack fs < 2 ^ 63 * 2"
proof (induction p fs rule: packed.induct)
  case (2 p v off n fs)
  have v: "v < 2 ^ n" "p + n < 64" using "2.prems" by auto
  show ?case
  proof (cases "fs = []")
    case True
    have "2 ^ p * v < 2 ^ (p + n)" using v(1) by (simp add: power_add)
    also have "(2 :: nat) ^ (p + n) \<le> 2 ^ 63" using v(2) by (intro power_increasing) auto
    finally show ?thesis using True by simp
  next
    case False
    then have less: "2 ^ (p + n) * pack fs < 2 ^ 64" using 2 by simp
    have dvd: "2 ^ (64 - (p + n)) * 2 ^ (p + n) = (2 :: nat) ^ 64" using v(2) by (simp flip: power_add)
    then have "pack fs < 2 ^ (64 - (p + n))" using less by (metis mult.commute nat_mult_less_cancel_disj)
    then have "pack fs + 1 \<le> 2 ^ (64 - (p + n))" by simp
    then have "(pack fs + 1) * 2 ^ (p + n) \<le> 2 ^ 64" using dvd by (metis mult_le_mono1)
    moreover have "2 ^ p * v < 2 ^ (p + n)" using v(1) by (simp add: power_add)
    moreover have "2 ^ p * pack ((v, off, n) # fs) = 2 ^ p * v + pack fs * 2 ^ (p + n)" by (simp add: algebra_simps power_add)
    ultimately show ?thesis by simp
  qed
qed simp

section \<open>Codes of frequencies\<close>

lemma freq_value_less: "f \<le> 1047 \<Longrightarrow> lzfse_encode_v1_freq_value f = (bits, n) \<Longrightarrow> bits < 2 ^ n \<and> 2 \<le> n \<and> n \<le> 14"
  by (auto simp: lzfse_encode_v1_freq_value_def split: if_splits)

lemma low_bits_32: "bits < 2 ^ n \<Longrightarrow> n \<le> 5 \<Longrightarrow> (bits + c * 2 ^ n) mod 32 = bits + 2 ^ n * (c mod 2 ^ (5 - n))" for bits c :: nat
proof -
  assume a: "bits < 2 ^ n" "n \<le> 5"
  have "(32 :: nat) = 2 ^ n * 2 ^ (5 - n)" using a(2) by (simp flip: power_add)
  then have "(bits + c * 2 ^ n) mod 32 = 2 ^ n * ((bits + c * 2 ^ n) div 2 ^ n mod 2 ^ (5 - n)) + (bits + c * 2 ^ n) mod 2 ^ n"
    by (simp only: mod_mult2_eq)
  then show ?thesis using a(1) by simp
qed

text \<open>The table entries that a short code selects, whatever follows it.\<close>

definition short_code_ok :: "nat \<Rightarrow> bool" where
  "short_code_ok f \<longleftrightarrow> (case lzfse_encode_v1_freq_value f of (bits, n) \<Rightarrow> n \<le> 5 \<and>
     list_all (\<lambda>k. lzfse_freq_nbits_table ! (bits + 2 ^ n * k) = n \<and> lzfse_freq_value_table ! (bits + 2 ^ n * k) = f) [0..<2 ^ (5 - n)])"

lemma short_codes: "list_all short_code_ok [0..<8]"
  by code_simp

lemma freq_value_roundtrip:
  assumes "f \<le> 1047" and "lzfse_encode_v1_freq_value f = (bits, n)"
  shows "lzfse_decode_v1_freq_value (bits + c * 2 ^ n) = (f, n)"
proof -
  define b where "b = (bits + c * 2 ^ n) mod 32"
  have dec: "lzfse_decode_v1_freq_value (bits + c * 2 ^ n) =
      (if lzfse_freq_nbits_table ! b = 8 then 8 + (bits + c * 2 ^ n) div 16 mod 16
       else if lzfse_freq_nbits_table ! b = 14 then 24 + (bits + c * 2 ^ n) div 16 mod 1024
       else lzfse_freq_value_table ! b, lzfse_freq_nbits_table ! b)"
    by (simp add: lzfse_decode_v1_freq_value_def b_def Let_def)
  consider "f < 8" | "8 \<le> f" "f < 24" | "24 \<le> f" by linarith
  then show ?thesis
  proof cases
    case 1
    then have "short_code_ok f" using short_codes by (simp add: list_all_iff)
    moreover have "bits < 2 ^ n" using freq_value_less [OF assms] by simp
    moreover have "c mod 2 ^ (5 - n) \<in> set [0..<2 ^ (5 - n)]" by simp
    ultimately have "n \<le> 5" "lzfse_freq_nbits_table ! b = n" "lzfse_freq_value_table ! b = f"
      using assms(2) by (auto simp: short_code_ok_def b_def low_bits_32 list_all_iff)
    then show ?thesis using dec by simp
  next
    case 2
    define g where "g = f - 8"
    have g: "f = 8 + g" "g < 16" "bits = 7 + g * 16" "n = 8" using 2 assms(2) by (auto simp: g_def lzfse_encode_v1_freq_value_def)
    have e: "bits + c * 2 ^ n = 7 + (g + c * 16) * 2 ^ 4" by (simp add: g)
    have "b = 7 + 16 * ((g + c * 16) mod 2)" unfolding b_def e by (subst low_bits_32) auto
    then have "lzfse_freq_nbits_table ! b = 8" by (cases "even (g + c * 16)") (auto simp: lzfse_freq_nbits_table_def mod_2_eq_odd)
    moreover have "(7 + (g + c * 16) * 16) div 16 = g + c * 16" by simp
    ultimately show ?thesis using dec g unfolding e by simp
  next
    case 3
    define g where "g = f - 24"
    have g: "f = 24 + g" "g < 1024" "bits = g * 16 + 15" "n = 14" using 3 assms by (auto simp: g_def lzfse_encode_v1_freq_value_def)
    have e: "bits + c * 2 ^ n = 15 + (g + c * 1024) * 2 ^ 4" by (simp add: g)
    have "b = 15 + 16 * ((g + c * 1024) mod 2)" unfolding b_def e by (subst low_bits_32) auto
    then have "lzfse_freq_nbits_table ! b = 14" by (cases "even (g + c * 1024)") (auto simp: lzfse_freq_nbits_table_def mod_2_eq_odd)
    moreover have "(15 + (g + c * 1024) * 16) div 16 = g + c * 1024" by simp
    ultimately show ?thesis using dec g unfolding e by simp
  qed
qed

section \<open>Overwritten bytes\<close>

definition patched :: "string \<Rightarrow> nat \<Rightarrow> string \<Rightarrow> string \<Rightarrow> bool" where
  "patched b p bs b' \<longleftrightarrow> p + length bs \<le> length b \<and> b' = take p b @ bs @ drop (p + length bs) b"

lemma store_bytes_patched: "p + length bs \<le> length b \<Longrightarrow> \<exists>b'. store_bytes b p bs = Inr b' \<and> patched b p bs b'"
  by (simp add: store_bytes_def patched_def)

lemma patched_trans: "patched b p xs b1 \<Longrightarrow> patched b1 (p + length xs) ys b2 \<Longrightarrow> patched b p (xs @ ys) b2"
  by (auto simp: patched_def add_ac)

lemma patched_Nil: "p \<le> length b \<Longrightarrow> patched b p [] b"
  by (simp add: patched_def)

lemma patched_length: "patched b p bs b' \<Longrightarrow> length b' = length b"
  by (auto simp: patched_def)

lemma patched_take: "patched b p bs b' \<Longrightarrow> j \<le> p \<Longrightarrow> take j b' = take j b"
  by (auto simp: patched_def min_def)

lemma patched_drop: "patched b p bs b' \<Longrightarrow> p + length bs \<le> j \<Longrightarrow> drop j b' = drop j b"
  by (auto simp: patched_def)

lemma patched_bytes_at: "patched b p bs b' \<Longrightarrow> bytes_at b' p bs"
  by (auto simp: patched_def bytes_at_iff)

lemma patched_bytes_after: "patched b p bs b' \<Longrightarrow> bytes_at b i xs \<Longrightarrow> p + length bs \<le> i \<Longrightarrow> bytes_at b' i xs"
  by (simp add: bytes_at_def patched_drop patched_length)

section \<open>The stream of frequencies\<close>

fun freq_bits :: "nat list \<Rightarrow> nat \<times> nat" where
  "freq_bits [] = (0, 0)"
| "freq_bits (f # fs) = (case lzfse_encode_v1_freq_value f of (v, n) \<Rightarrow> case freq_bits fs of (w, m) \<Rightarrow> (v + w * 2 ^ n, n + m))"

lemma freq_bits_less:
  "list_all (\<lambda>f. f \<le> 1047) fs \<Longrightarrow>
   fst (freq_bits fs) < 2 ^ snd (freq_bits fs) \<and> 2 * length fs \<le> snd (freq_bits fs) \<and> snd (freq_bits fs) \<le> 14 * length fs"
proof (induction fs)
  case (Cons f fs)
  obtain v n where f: "lzfse_encode_v1_freq_value f = (v, n)" by fastforce
  obtain w m where r: "freq_bits fs = (w, m)" by fastforce
  have v: "v < 2 ^ n" "2 \<le> n" "n \<le> 14" using freq_value_less [OF _ f] Cons.prems by auto
  have w: "w < 2 ^ m" "2 * length fs \<le> m" "m \<le> 14 * length fs" using Cons r by auto
  show ?case using add_shift_less [OF v(1) w(1)] v w by (simp add: f r)
qed simp

lemma le_bytes_add: "le_bytes (a + b) x = le_bytes a x @ le_bytes b (x div 256 ^ a)"
  by (induction a arbitrary: x) (auto simp: div_mult2_eq)

lemma le_bytes_mod: "le_bytes a (x mod 256 ^ a) = le_bytes a x"
  by (metis le_bytes_of_le_bytes length_le_bytes of_le_bytes_le_bytes)

lemma store_bytes_of_ok:
  "p + nb div 8 \<le> length buf \<Longrightarrow>
   \<exists>buf'. store_bytes_of buf p acc nb = Inr (buf', p + nb div 8, acc div 256 ^ (nb div 8), nb mod 8) \<and> patched buf p (le_bytes (nb div 8) acc) buf'"
proof (induction "nb div 8" arbitrary: buf p acc nb)
  case 0
  then show ?case by (simp add: store_bytes_of.simps patched_Nil div_eq_0_iff)
next
  case (Suc k)
  then have k: "nb \<ge> 8" "k = (nb - 8) div 8" "nb div 8 = Suc k" by linarith+
  obtain b1 where b1: "store1 buf p (acc mod 256) = Inr b1" "patched buf p (le_bytes 1 (acc mod 256)) b1"
    using store_bytes_patched [of p "le_bytes 1 (acc mod 256)" buf] Suc.prems k(3) by (auto simp: store1_def)
  have "p + 1 + (nb - 8) div 8 \<le> length b1" using Suc.prems k patched_length [OF b1(2)] by linarith
  from Suc.hyps(1) [OF k(2) this, of "acc div 256"] obtain b2 where b2:
    "store_bytes_of b1 (p + 1) (acc div 256) (nb - 8) = Inr (b2, p + 1 + (nb - 8) div 8, acc div 256 div 256 ^ ((nb - 8) div 8), (nb - 8) mod 8)"
    "patched b1 (p + 1) (le_bytes ((nb - 8) div 8) (acc div 256)) b2" by blast
  have "(nb - 8) mod 8 = nb mod 8" using k(1) by (simp add: le_mod_geq)
  moreover have "patched buf p (le_bytes (nb div 8) acc) b2"
    using patched_trans [OF b1(2), of "le_bytes ((nb - 8) div 8) (acc div 256)" b2] b2(2) unfolding k(3) k(2) [symmetric] by simp
  moreover have "store_bytes_of buf p acc nb = store_bytes_of b1 (p + 1) (acc div 256) (nb - 8)"
    using k(1) b1(1) by (subst store_bytes_of.simps) simp
  ultimately show ?case using b2(1) unfolding k(3) k(2) [symmetric] by (simp add: div_mult2_eq)
qed

lemma store_freqs_ok:
  assumes "list_all (\<lambda>f. f \<le> 1047) fs" and "nb < 8" and "acc < 2 ^ nb" and "p + (nb + snd (freq_bits fs)) div 8 \<le> length buf"
  defines "T \<equiv> acc + fst (freq_bits fs) * 2 ^ nb" and "m \<equiv> nb + snd (freq_bits fs)"
  shows "\<exists>buf'. store_freqs buf p acc nb fs = Inr (buf', p + m div 8, T div 256 ^ (m div 8), m mod 8) \<and>
    patched buf p (le_bytes (m div 8) T) buf'"
  using assms(1-4) unfolding T_def m_def
proof (induction fs arbitrary: buf p acc nb)
  case Nil
  then show ?case by (simp add: patched_Nil)
next
  case (Cons f fs)
  obtain v n where f: "lzfse_encode_v1_freq_value f = (v, n)" by fastforce
  obtain W l where r: "freq_bits fs = (W, l)" by fastforce
  have v: "v < 2 ^ n" "2 \<le> n" "n \<le> 14" using freq_value_less [OF _ f] Cons.prems(1) by auto
  define acc1 nb1 where "acc1 = acc + v * 2 ^ nb" and "nb1 = nb + n"
  have acc1: "acc1 < 2 ^ nb1" unfolding acc1_def nb1_def by (rule add_shift_less [OF Cons.prems(3) v(1)])
  have "(2 :: nat) ^ nb1 \<le> 2 ^ 32" using Cons.prems(2) v(3) by (intro power_increasing) (auto simp: nb1_def)
  then have or1: "(acc OR (v * 2 ^ nb)) mod 2 ^ 32 = acc1" using acc1 or_shift [OF Cons.prems(3), of v] by (simp add: acc1_def)
  define k where "k = nb1 div 8"
  define acc2 nb2 where "acc2 = acc1 div 256 ^ k" and "nb2 = nb1 mod 8"
  have nb1: "nb1 = 8 * k + nb2" by (simp add: k_def nb2_def)
  have acc2: "acc2 < 2 ^ nb2" using acc1 by (simp add: acc2_def nb1 power_256 power_add div_less_iff_less_mult mult.commute)
  have tot: "(nb + snd (freq_bits (f # fs))) = 8 * k + (nb2 + l)" using nb1 by (simp add: f r nb1_def)
  then have div1: "(nb + snd (freq_bits (f # fs))) div 8 = k + (nb2 + l) div 8" "(nb + snd (freq_bits (f # fs))) mod 8 = (nb2 + l) mod 8"
    by simp_all
  have room: "p + k \<le> length buf" "p + k + (nb2 + l) div 8 \<le> length buf" using Cons.prems(4) unfolding div1 by linarith+
  obtain b1 where b1: "store_bytes_of buf p acc1 nb1 = Inr (b1, p + k, acc2, nb2)" "patched buf p (le_bytes k acc1) b1"
    using store_bytes_of_ok [of p nb1 buf acc1] room(1) by (auto simp: k_def acc2_def nb2_def)
  define T2 where "T2 = acc2 + W * 2 ^ nb2"
  have "p + k + (nb2 + l) div 8 \<le> length b1" using room(2) patched_length [OF b1(2)] by simp
  with Cons.IH [of nb2 acc2 "p + k" b1] Cons.prems(1) acc2 obtain b2 where b2:
    "store_freqs b1 (p + k) acc2 nb2 fs = Inr (b2, p + k + (nb2 + l) div 8, T2 div 256 ^ ((nb2 + l) div 8), (nb2 + l) mod 8)"
    "patched b1 (p + k) (le_bytes ((nb2 + l) div 8) T2) b2" by (auto simp: r T2_def nb2_def)
  define T where "T = acc + fst (freq_bits (f # fs)) * 2 ^ nb"
  have T: "T = acc1 + W * 2 ^ nb2 * 256 ^ k" unfolding T_def acc1_def power_256
    using arg_cong [OF nb1, of "\<lambda>x. (2 :: nat) ^ x"] by (simp add: f r nb1_def power_add algebra_simps)
  have T2: "T div 256 ^ k = T2" unfolding T T2_def acc2_def by (simp add: div_mult_self3)
  have lb: "le_bytes k T = le_bytes k acc1" by (subst (1 2) le_bytes_mod [symmetric]) (simp add: T)
  have "le_bytes (k + (nb2 + l) div 8) T = le_bytes k acc1 @ le_bytes ((nb2 + l) div 8) T2" by (simp add: le_bytes_add T2 lb)
  then have "patched buf p (le_bytes (k + (nb2 + l) div 8) T) b2"
    using patched_trans [OF b1(2), of "le_bytes ((nb2 + l) div 8) T2" b2] b2(2) by simp
  moreover have "T2 div 256 ^ ((nb2 + l) div 8) = T div 256 ^ (k + (nb2 + l) div 8)" by (simp add: power_add div_mult2_eq T2)
  ultimately show ?case unfolding div1 T_def [symmetric]
    using b2(1) b1(1) or1 v(1) by (simp add: f assert_that_def nb1_def add_ac)
qed

text \<open>What the decoder still has to read: its accumulator and the bytes before the end of the header.\<close>

definition bits_left :: "string \<Rightarrow> nat \<Rightarrow> nat \<Rightarrow> nat \<Rightarrow> nat \<Rightarrow> nat \<Rightarrow> nat \<Rightarrow> bool" where
  "bits_left buf src_end p acc nb W m \<longleftrightarrow>
     p \<le> src_end \<and> src_end \<le> length buf \<and> acc < 2 ^ nb \<and> nb \<le> 32 \<and>
     acc + of_le_bytes (take (src_end - p) (drop p buf)) * 2 ^ nb = W \<and> nb + 8 * (src_end - p) = m"

lemma refill_ok:
  assumes "bits_left buf src_end p acc nb W m"
  shows "\<exists>p' acc' nb'. refill buf src_end p acc nb = Inr (p', acc', nb') \<and> bits_left buf src_end p' acc' nb' W m \<and>
    (p' = src_end \<or> 25 \<le> nb')"
  using assms
proof (induction "src_end - p" arbitrary: p acc nb)
  case 0
  then have "p = src_end" by (simp add: bits_left_def)
  then show ?case using 0(2) by (simp add: refill.simps)
next
  case (Suc n)
  show ?case
  proof (cases "nb + 8 \<le> 32")
    case True
    have p: "p < src_end" "src_end \<le> length buf" "n = src_end - (p + 1)" using Suc by (auto simp: bits_left_def)
    have c: "load1 buf p = Inr (of_char (buf ! p))" using p by (simp add: load1_def Cons_nth_drop_Suc [of p buf, symmetric])
    have rest: "take (src_end - p) (drop p buf) = buf ! p # take (src_end - (p + 1)) (drop (p + 1) buf)"
    proof -
      have d: "drop p buf = buf ! p # drop (p + 1) buf" using p(1,2) by (simp add: Cons_nth_drop_Suc)
      have e: "src_end - p = Suc (src_end - (p + 1))" using p(1) by simp
      show ?thesis unfolding d e by (simp only: take_Suc_Cons)
    qed
    have a: "acc < 2 ^ nb" using Suc.prems by (simp add: bits_left_def)
    have or: "acc OR (of_char (buf ! p) * 2 ^ nb) = acc + of_char (buf ! p) * 2 ^ nb" by (rule or_shift [OF a])
    have "acc + of_char (buf ! p) * 2 ^ nb < 2 ^ (nb + 8)" using a by (rule add_shift_less) (simp add: nat_of_char_less_256)
    then have "bits_left buf src_end (p + 1) (acc + of_char (buf ! p) * 2 ^ nb) (nb + 8) W m"
      using Suc.prems True p unfolding bits_left_def rest by (auto simp: power_add algebra_simps)
    from Suc.hyps(1) [OF p(3) this] show ?thesis using p(1) True c or by (subst refill.simps) simp
  next
    case False
    then show ?thesis using Suc.prems by (auto simp: refill.simps)
  qed
qed

lemma decode_freqs_ok:
  assumes "list_all (\<lambda>f. f \<le> 1047) fs" and "bits_left buf src_end p acc nb (fst (freq_bits fs)) (snd (freq_bits fs) + pad)" and "pad < 8"
  shows "decode_freqs buf src_end (length fs) p acc nb = Inr (Some (fs, src_end, pad))"
  using assms(1,2)
proof (induction fs arbitrary: p acc nb)
  case Nil
  then show ?case using assms(3) by (auto simp: bits_left_def)
next
  case (Cons f fs)
  obtain v n where f: "lzfse_encode_v1_freq_value f = (v, n)" by fastforce
  obtain W l where r: "freq_bits fs = (W, l)" by fastforce
  have v: "v < 2 ^ n" "2 \<le> n" "n \<le> 14" using freq_value_less [OF _ f] Cons.prems(1) by auto
  from refill_ok [OF Cons.prems(2)] obtain p1 acc1 nb1 where re: "refill buf src_end p acc nb = Inr (p1, acc1, nb1)"
    "bits_left buf src_end p1 acc1 nb1 (v + W * 2 ^ n) (n + l + pad)" "p1 = src_end \<or> 25 \<le> nb1" by (auto simp: f r)
  have n: "n \<le> nb1" using re(2,3) v(3) by (auto simp: bits_left_def)
  define B where "B = of_le_bytes (take (src_end - p1) (drop p1 buf))"
  have nb1: "(2 :: nat) ^ nb1 = 2 ^ (nb1 - n) * 2 ^ n" using n by (simp flip: power_add)
  have eq: "acc1 + B * 2 ^ (nb1 - n) * 2 ^ n = v + W * 2 ^ n" using re(2) nb1 by (simp add: bits_left_def B_def)
  then have "(acc1 + B * 2 ^ (nb1 - n) * 2 ^ n) mod 2 ^ n = (v + W * 2 ^ n) mod 2 ^ n"
    "(acc1 + B * 2 ^ (nb1 - n) * 2 ^ n) div 2 ^ n = (v + W * 2 ^ n) div 2 ^ n" by simp_all
  then have low: "acc1 mod 2 ^ n = v" and high: "acc1 div 2 ^ n + B * 2 ^ (nb1 - n) = W" using v(1) by simp_all
  have acc1: "v + acc1 div 2 ^ n * 2 ^ n = acc1" using low by (metis add.commute div_mult_mod_eq)
  have dec: "lzfse_decode_v1_freq_value acc1 = (f, n)"
    using freq_value_roundtrip [OF _ f, of "acc1 div 2 ^ n", unfolded acc1] Cons.prems(1) by simp
  have "acc1 div 2 ^ n < 2 ^ (nb1 - n)" using re(2) nb1 by (simp add: bits_left_def div_less_iff_less_mult)
  then have "bits_left buf src_end p1 (acc1 div 2 ^ n) (nb1 - n) W (l + pad)"
    using re(2) n high by (auto simp: bits_left_def B_def)
  then have "decode_freqs buf src_end (length fs) p1 (acc1 div 2 ^ n) (nb1 - n) = Inr (Some (fs, src_end, pad))"
    using Cons.IH Cons.prems(1) r by simp
  then show ?case using re(1) dec n by simp
qed

section \<open>Writing a header\<close>

definition all_freqs :: "lzfse_header_v1 \<Rightarrow> nat list" where
  "all_freqs h = h1_l_freq h @ h1_m_freq h @ h1_d_freq h @ h1_literal_freq h"

definition freqs_ok :: "lzfse_header_v1 \<Rightarrow> bool" where
  "freqs_ok h \<longleftrightarrow> length (h1_l_freq h) = 20 \<and> length (h1_m_freq h) = 20 \<and> length (h1_d_freq h) = 64 \<and>
     length (h1_literal_freq h) = 256 \<and> list_all (\<lambda>f. f \<le> 1047) (all_freqs h)"

text \<open>The number of bytes of the frequency tables.\<close>

definition freq_size :: "lzfse_header_v1 \<Rightarrow> nat" where
  "freq_size h = (snd (freq_bits (all_freqs h)) + 7) div 8"

lemma freq_size_bounds: "freqs_ok h \<Longrightarrow> 90 \<le> freq_size h \<and> freq_size h \<le> 630"
  using freq_bits_less [of "all_freqs h"] by (auto simp: freqs_ok_def freq_size_def all_freqs_def)

lemma freq_bits_bytes:
  assumes "freqs_ok h"
  shows "fst (freq_bits (all_freqs h)) < 256 ^ freq_size h"
proof -
  have "fst (freq_bits (all_freqs h)) < 2 ^ snd (freq_bits (all_freqs h))" using freq_bits_less assms by (auto simp: freqs_ok_def)
  also have "(2 :: nat) ^ snd (freq_bits (all_freqs h)) \<le> 2 ^ (8 * freq_size h)"
    unfolding freq_size_def by (intro power_increasing) linarith+
  finally show ?thesis by (simp add: power_256)
qed

lemma store1_patched: "p + 1 \<le> length b \<Longrightarrow> \<exists>b'. store1 b p x = Inr b' \<and> patched b p (le_bytes 1 x) b'"
  using store_bytes_patched [of p "le_bytes 1 x" b] by (simp add: store1_def)

lemma store4_patched: "p + 4 \<le> length b \<Longrightarrow> \<exists>b'. store4 b p x = Inr b' \<and> patched b p (le_bytes 4 x) b'"
  using store_bytes_patched [of p "le_bytes 4 x" b] by (simp add: store4_def)

lemma store8_patched: "p + 8 \<le> length b \<Longrightarrow> \<exists>b'. store8 b p x = Inr b' \<and> patched b p (le_bytes 8 x) b'"
  using store_bytes_patched [of p "le_bytes 8 x" b] by (simp add: store8_def)

text \<open>The tables with their last, partial byte.\<close>

lemma store_freq_table:
  assumes "freqs_ok h" and "p + 631 \<le> length buf"
  shows "\<exists>buf'. rbind (store_freqs buf p 0 0 (all_freqs h)) (\<lambda>(buf, q, acc, nb).
      if nb > 0 then rbind (store1 buf q (acc mod 256)) (\<lambda>buf. Inr (buf, q + 1)) else Inr (buf, q)) = Inr (buf', p + freq_size h) \<and>
    patched buf p (le_bytes (freq_size h) (fst (freq_bits (all_freqs h)))) buf'"
proof -
  define W m where "W = fst (freq_bits (all_freqs h))" and "m = snd (freq_bits (all_freqs h))"
  have fs: "list_all (\<lambda>f. f \<le> 1047) (all_freqs h)" using assms(1) by (simp add: freqs_ok_def)
  have k: "freq_size h \<le> 630" "m div 8 \<le> freq_size h" using freq_size_bounds [OF assms(1)] by (auto simp: freq_size_def m_def intro: div_le_mono)
  then have "p + (0 + snd (freq_bits (all_freqs h))) div 8 \<le> length buf" using assms(2) by (simp add: m_def)
  with store_freqs_ok [OF fs, of 0 0 p buf] obtain b1 where b1:
    "store_freqs buf p 0 0 (all_freqs h) = Inr (b1, p + m div 8, W div 256 ^ (m div 8), m mod 8)" "patched buf p (le_bytes (m div 8) W) b1"
    by (auto simp: W_def m_def)
  show ?thesis
  proof (cases "m mod 8 = 0")
    case True
    then have "freq_size h = m div 8" unfolding freq_size_def m_def by presburger
    then show ?thesis using b1 True by (simp add: W_def)
  next
    case False
    have sz: "freq_size h = m div 8 + 1" using False unfolding freq_size_def m_def by presburger
    have "p + m div 8 + 1 \<le> length b1" using k assms(2) patched_length [OF b1(2)] by simp
    from store1_patched [OF this, of "W div 256 ^ (m div 8) mod 256"] obtain b2 where b2:
      "store1 b1 (p + m div 8) (W div 256 ^ (m div 8) mod 256) = Inr b2"
      "patched b1 (p + m div 8) (le_bytes 1 (W div 256 ^ (m div 8) mod 256)) b2" by blast
    have "le_bytes (m div 8 + 1) W = le_bytes (m div 8) W @ le_bytes 1 (W div 256 ^ (m div 8) mod 256)" by (simp only: le_bytes_add) simp
    then have "patched buf p (le_bytes (m div 8 + 1) W) b2" using patched_trans [OF b1(2), of _ b2] b2(2) by simp
    then show ?thesis using b1(1) b2(1) False by (simp add: sz W_def)
  qed
qed

lemma encode_v1_freq_table_ok:
  assumes "freqs_ok h" and "p + 752 \<le> length buf"
  shows "\<exists>buf'. lzfse_encode_v1_freq_table buf p h = Inr (32 + freq_size h, buf') \<and> length buf' = length buf \<and> take p buf' = take p buf \<and>
    bytes_at buf' (p + 24) (le_bytes 8 (32 + freq_size h)) \<and>
    bytes_at buf' (p + 32) (le_bytes (freq_size h) (fst (freq_bits (all_freqs h))))"
proof -
  let ?W = "fst (freq_bits (all_freqs h))"
  have "p + 32 + 631 \<le> length buf" using assms(2) by simp
  from store_freq_table [OF assms(1) this] obtain b0 where b0:
    "rbind (store_freqs buf (p + 32) 0 0 (all_freqs h)) (\<lambda>(buf, q, acc, nb).
      if nb > 0 then rbind (store1 buf q (acc mod 256)) (\<lambda>buf. Inr (buf, q + 1)) else Inr (buf, q)) = Inr (b0, p + 32 + freq_size h)"
    "patched buf (p + 32) (le_bytes (freq_size h) ?W) b0" by blast
  obtain b q acc nb where sf: "store_freqs buf (p + 32) 0 0 (all_freqs h) = Inr (b, q, acc, nb)"
      "(if nb > 0 then rbind (store1 b q (acc mod 256)) (\<lambda>buf. Inr (buf, q + 1)) else Inr (b, q)) = Inr (b0, p + 32 + freq_size h)"
  proof -
    from b0(1) obtain x where x: "store_freqs buf (p + 32) 0 0 (all_freqs h) = Inr x" by (auto simp only: rbind_eq_Inr_iff)
    obtain b q acc nb where "x = (b, q, acc, nb)" by (rule prod_cases4)
    with x b0(1) show thesis by (intro that [of b q acc nb]) simp_all
  qed
  note l0 = patched_length [OF b0(2)]
  obtain b1 where b1: "store8 b0 (p + 8) 0 = Inr b1" "patched b0 (p + 8) (le_bytes 8 0) b1"
    using store8_patched [of "p + 8" b0 0] assms(2) l0 by auto
  note l1 = patched_length [OF b1(2)]
  obtain b2 where b2: "store8 b1 (p + 16) 0 = Inr b2" "patched b1 (p + 16) (le_bytes 8 0) b2"
    using store8_patched [of "p + 16" b1 0] assms(2) l0 l1 by auto
  note l2 = patched_length [OF b2(2)]
  obtain b3 where b3: "store8 b2 (p + 24) (32 + freq_size h) = Inr b3" "patched b2 (p + 24) (le_bytes 8 (32 + freq_size h)) b3"
    using store8_patched [of "p + 24" b2 "32 + freq_size h"] assms(2) l0 l1 l2 by auto
  have "take p b3 = take p buf"
    using patched_take [OF b3(2), of p] patched_take [OF b2(2), of p] patched_take [OF b1(2), of p] patched_take [OF b0(2), of p] by simp
  moreover have "bytes_at b3 (p + 32) (le_bytes (freq_size h) ?W)"
    using patched_bytes_after [OF b3(2)] patched_bytes_after [OF b2(2)] patched_bytes_after [OF b1(2)] patched_bytes_at [OF b0(2)] by simp
  moreover have "setField (32 + freq_size h) 0 32 = Inr (32 + freq_size h)"
    using freq_size_bounds [OF assms(1)] by (simp add: setField_def assert_that_def)
  moreover have "lzfse_encode_v1_freq_table buf p h = Inr (32 + freq_size h, b3)"
    unfolding lzfse_encode_v1_freq_table_def all_freqs_def [symmetric] sf(1) rbind_simps prod.case sf(2)
    using b1(1) b2(1) b3(1) calculation(3) by (simp add: Let_def add.assoc)
  ultimately show ?thesis using l0 l1 l2 patched_length [OF b3(2)] patched_bytes_at [OF b3(2)] by auto
qed

section \<open>The fields of a header\<close>

definition header_fields :: "lzfse_header_v1 \<Rightarrow> bool" where
  "header_fields h \<longleftrightarrow> h1_magic h = LZFSE_COMPRESSEDV1_BLOCK_MAGIC \<and> h1_n_raw_bytes h < 2 ^ 32 \<and>
     h1_n_literals h < 2 ^ 20 \<and> h1_n_matches h < 2 ^ 20 \<and> h1_n_literal_payload_bytes h < 2 ^ 20 \<and> h1_n_lmd_payload_bytes h < 2 ^ 20 \<and>
     - 7 \<le> h1_literal_bits h \<and> h1_literal_bits h \<le> 0 \<and> - 7 \<le> h1_lmd_bits h \<and> h1_lmd_bits h \<le> 0 \<and>
     (\<exists>s0 s1 s2 s3. h1_literal_state h = [s0, s1, s2, s3] \<and> s0 < 1024 \<and> s1 < 1024 \<and> s2 < 1024 \<and> s3 < 1024) \<and>
     h1_l_state h < 64 \<and> h1_m_state h < 64 \<and> h1_d_state h < 256"

definition fields0 :: "lzfse_header_v1 \<Rightarrow> (nat \<times> nat \<times> nat) list" where
  "fields0 h = [(h1_n_literals h, 0, 20), (h1_n_literal_payload_bytes h, 20, 20), (h1_n_matches h, 40, 20),
     (bits_field (h1_literal_bits h), 60, 3)]"

definition fields1 :: "lzfse_header_v1 \<Rightarrow> (nat \<times> nat \<times> nat) list" where
  "fields1 h = [(h1_literal_state h ! 0, 0, 10), (h1_literal_state h ! 1, 10, 10), (h1_literal_state h ! 2, 20, 10),
     (h1_literal_state h ! 3, 30, 10), (h1_n_lmd_payload_bytes h, 40, 20), (bits_field (h1_lmd_bits h), 60, 3)]"

definition fields2 :: "lzfse_header_v1 \<Rightarrow> (nat \<times> nat \<times> nat) list" where
  "fields2 h = [(h1_l_state h, 32, 10), (h1_m_state h, 42, 10), (h1_d_state h, 52, 10)]"

definition header_words :: "lzfse_header_v1 \<Rightarrow> nat \<Rightarrow> string" where
  "header_words h n = le_bytes 4 LZFSE_COMPRESSEDV2_BLOCK_MAGIC @ le_bytes 4 (h1_n_raw_bytes h) @ le_bytes 8 (pack (fields0 h)) @
     le_bytes 8 (pack (fields1 h)) @ le_bytes 8 (n + 2 ^ 32 * pack (fields2 h))"

lemma bits_field_ok: "- 7 \<le> n \<Longrightarrow> n \<le> 0 \<Longrightarrow> bits_field n < 8 \<and> int (bits_field n) - 7 = n"
  by (auto simp: bits_field_def)

lemma fields_packed:
  assumes "header_fields h"
  shows "packed 0 (fields0 h)" and "packed 0 (fields1 h)" and "packed 32 (fields2 h)"
  using assms bits_field_ok [of "h1_literal_bits h"] bits_field_ok [of "h1_lmd_bits h"]
  by (auto simp: header_fields_def fields0_def fields1_def fields2_def)

lemma bytes_at_load8: "bytes_at b i (le_bytes 8 x) \<Longrightarrow> x < 2 ^ 64 \<Longrightarrow> load8 b i = Inr x"
  using bytes_at_load [of b i "le_bytes 8 x" 8] by (simp add: load8_def)

lemma encode_v1_state_ok:
  assumes "header_fields h" and "bytes_at buf (p + 24) (le_bytes 8 n)" and "n < 2 ^ 32"
  shows "\<exists>buf'. lzfse_encode_v1_state buf p h = Inr buf' \<and> patched buf p (header_words h n) buf'"
proof -
  have len: "p + 32 \<le> length buf" using assms(2) by (simp add: bytes_at_def)
  note sf = setFields_pack [OF fields_packed(1) [OF assms(1)], unfolded fields0_def]
    setFields_pack [OF fields_packed(2) [OF assms(1)], unfolded fields1_def]
    setFields_pack [OF fields_packed(3) [OF assms(1)], unfolded fields2_def]
  obtain b1 where b1: "store4 buf p LZFSE_COMPRESSEDV2_BLOCK_MAGIC = Inr b1" "patched buf p (le_bytes 4 LZFSE_COMPRESSEDV2_BLOCK_MAGIC) b1"
    using store4_patched [of p buf] len by auto
  obtain b2 where b2: "store4 b1 (p + 4) (h1_n_raw_bytes h) = Inr b2" "patched b1 (p + 4) (le_bytes 4 (h1_n_raw_bytes h)) b2"
    using store4_patched [of "p + 4" b1] len patched_length [OF b1(2)] by auto
  obtain b3 where b3: "store8 b2 (p + 8) (pack (fields0 h)) = Inr b3" "patched b2 (p + 8) (le_bytes 8 (pack (fields0 h))) b3"
    using store8_patched [of "p + 8" b2] len patched_length [OF b1(2)] patched_length [OF b2(2)] by auto
  obtain b4 where b4: "store8 b3 (p + 16) (pack (fields1 h)) = Inr b4" "patched b3 (p + 16) (le_bytes 8 (pack (fields1 h))) b4"
    using store8_patched [of "p + 16" b3] len patched_length [OF b1(2)] patched_length [OF b2(2)] patched_length [OF b3(2)] by auto
  note l4 = patched_length [OF b1(2)] patched_length [OF b2(2)] patched_length [OF b3(2)] patched_length [OF b4(2)]
  have "bytes_at b4 (p + 24) (le_bytes 8 n)"
    using patched_bytes_after [OF b4(2)] patched_bytes_after [OF b3(2)] patched_bytes_after [OF b2(2)] patched_bytes_after [OF b1(2)] assms(2) by simp
  then have ld: "load8 b4 (p + 24) = Inr n" using assms(3) by (intro bytes_at_load8) auto
  have or: "n OR (2 ^ 32 * pack (fields2 h)) = n + 2 ^ 32 * pack (fields2 h)" using or_shift [OF assms(3)] by (simp add: mult.commute)
  obtain b5 where b5: "store8 b4 (p + 24) (n + 2 ^ 32 * pack (fields2 h)) = Inr b5"
    "patched b4 (p + 24) (le_bytes 8 (n + 2 ^ 32 * pack (fields2 h))) b5"
    using store8_patched [of "p + 24" b4] len l4 by auto
  have "patched buf p (le_bytes 4 LZFSE_COMPRESSEDV2_BLOCK_MAGIC @ le_bytes 4 (h1_n_raw_bytes h)) b2"
    using patched_trans [OF b1(2)] b2(2) by simp
  then have "patched buf p ((le_bytes 4 LZFSE_COMPRESSEDV2_BLOCK_MAGIC @ le_bytes 4 (h1_n_raw_bytes h)) @ le_bytes 8 (pack (fields0 h))) b3"
    by (rule patched_trans) (use b3(2) in simp)
  then have "patched buf p (((le_bytes 4 LZFSE_COMPRESSEDV2_BLOCK_MAGIC @ le_bytes 4 (h1_n_raw_bytes h)) @ le_bytes 8 (pack (fields0 h))) @
      le_bytes 8 (pack (fields1 h))) b4"
    by (rule patched_trans) (use b4(2) in simp)
  then have "patched buf p ((((le_bytes 4 LZFSE_COMPRESSEDV2_BLOCK_MAGIC @ le_bytes 4 (h1_n_raw_bytes h)) @ le_bytes 8 (pack (fields0 h))) @
      le_bytes 8 (pack (fields1 h))) @ le_bytes 8 (n + 2 ^ 32 * pack (fields2 h))) b5"
    by (rule patched_trans) (use b5(2) in simp)
  then have "patched buf p (header_words h n) b5" unfolding header_words_def by (simp only: append_assoc)
  moreover have "lzfse_encode_v1_state buf p h = Inr b5"
    unfolding lzfse_encode_v1_state_def sf rbind_simps using b1(1) b2(1) b3(1) b4(1) ld b5(1)
    by (simp add: fields0_def fields1_def fields2_def or [unfolded fields2_def, simplified])
  ultimately show ?thesis by blast
qed

section \<open>Reading a header\<close>

lemma get_fields0:
  assumes "header_fields h"
  shows "get_field (pack (fields0 h)) 0 20 = h1_n_literals h" "get_field (pack (fields0 h)) 20 20 = h1_n_literal_payload_bytes h"
    "get_field (pack (fields0 h)) 40 20 = h1_n_matches h" "get_field (pack (fields0 h)) 60 3 = bits_field (h1_literal_bits h)"
  using fields_packed(1) [OF assms] by (simp_all add: fields0_def get_field_head get_field_tail del: pack.simps)

lemma get_fields1:
  assumes "header_fields h"
  shows "get_field (pack (fields1 h)) 0 10 = h1_literal_state h ! 0" "get_field (pack (fields1 h)) 10 10 = h1_literal_state h ! 1"
    "get_field (pack (fields1 h)) 20 10 = h1_literal_state h ! 2" "get_field (pack (fields1 h)) 30 10 = h1_literal_state h ! 3"
    "get_field (pack (fields1 h)) 40 20 = h1_n_lmd_payload_bytes h" "get_field (pack (fields1 h)) 60 3 = bits_field (h1_lmd_bits h)"
  using fields_packed(2) [OF assms] by (simp_all add: fields1_def get_field_head get_field_tail del: pack.simps)

lemma get_fields2:
  assumes "header_fields h" and "n < 2 ^ 32"
  defines "v \<equiv> n + 2 ^ 32 * pack (fields2 h)"
  shows "get_field v 0 32 = n" "get_field v 32 10 = h1_l_state h" "get_field v 42 10 = h1_m_state h" "get_field v 52 10 = h1_d_state h"
proof -
  have v: "v = pack ((n, 0, 32) # fields2 h)" by (simp add: v_def)
  show "get_field v 0 32 = n" "get_field v 32 10 = h1_l_state h" "get_field v 42 10 = h1_m_state h" "get_field v 52 10 = h1_d_state h"
    using fields_packed(3) [OF assms(1)] assms(2) unfolding v by (simp_all add: fields2_def get_field_head get_field_tail del: pack.simps)
qed

definition decoded_header :: "lzfse_header_v1 \<Rightarrow> lzfse_header_v1" where
  "decoded_header h = h\<lparr>h1_n_payload_bytes := h1_n_literal_payload_bytes h + h1_n_lmd_payload_bytes h\<rparr>"

definition header_bytes :: "lzfse_header_v1 \<Rightarrow> string" where
  "header_bytes h = header_words h (32 + freq_size h) @ le_bytes (freq_size h) (fst (freq_bits (all_freqs h)))"

lemma length_header_bytes: "length (header_bytes h) = 32 + freq_size h"
  by (simp add: header_bytes_def header_words_def)

lemma header_loads:
  assumes "header_fields h" and "freqs_ok h" and "bytes_at src p (header_bytes h)"
  shows "load4 src p = Inr LZFSE_COMPRESSEDV2_BLOCK_MAGIC" "load4 src (p + 4) = Inr (h1_n_raw_bytes h)"
    "load8 src (p + 8) = Inr (pack (fields0 h))" "load8 src (p + 16) = Inr (pack (fields1 h))"
    "load8 src (p + 24) = Inr ((32 + freq_size h) + 2 ^ 32 * pack (fields2 h))"
    "bytes_at src (p + 32) (le_bytes (freq_size h) (fst (freq_bits (all_freqs h))))"
proof -
  have b: "bytes_at src p (le_bytes 4 LZFSE_COMPRESSEDV2_BLOCK_MAGIC)" "bytes_at src (p + 4) (le_bytes 4 (h1_n_raw_bytes h))"
    "bytes_at src (p + 8) (le_bytes 8 (pack (fields0 h)))" "bytes_at src (p + 16) (le_bytes 8 (pack (fields1 h)))"
    "bytes_at src (p + 24) (le_bytes 8 ((32 + freq_size h) + 2 ^ 32 * pack (fields2 h)))"
    "bytes_at src (p + 32) (le_bytes (freq_size h) (fst (freq_bits (all_freqs h))))"
    using assms(3) unfolding header_bytes_def header_words_def bytes_at_append by (simp_all add: add.assoc)
  have n: "32 + freq_size h < 2 ^ 32" using freq_size_bounds [OF assms(2)] by simp
  have p2: "packed 0 ((32 + freq_size h, 0, 32) # fields2 h)" using fields_packed(3) [OF assms(1)] n by simp
  have less: "pack (fields0 h) < 2 ^ 64" "pack (fields1 h) < 2 ^ 64" "(32 + freq_size h) + 2 ^ 32 * pack (fields2 h) < 2 ^ 64"
    using packed_less [OF fields_packed(1) [OF assms(1)]] packed_less [OF fields_packed(2) [OF assms(1)]] packed_less [OF p2]
    by (simp_all add: fields0_def fields1_def)
  show "load4 src p = Inr LZFSE_COMPRESSEDV2_BLOCK_MAGIC" using bytes_at_load4 [of src p LZFSE_COMPRESSEDV2_BLOCK_MAGIC "[]"] b(1) by (simp add: magic_defs)
  show "load4 src (p + 4) = Inr (h1_n_raw_bytes h)"
    using bytes_at_load4 [of src "p + 4" "h1_n_raw_bytes h" "[]"] b(2) assms(1) by (simp add: header_fields_def)
  show "load8 src (p + 8) = Inr (pack (fields0 h))" "load8 src (p + 16) = Inr (pack (fields1 h))"
    "load8 src (p + 24) = Inr ((32 + freq_size h) + 2 ^ 32 * pack (fields2 h))"
    by (rule bytes_at_load8; fact b less)+
  show "bytes_at src (p + 32) (le_bytes (freq_size h) (fst (freq_bits (all_freqs h))))" by (fact b)
qed

lemma decode_header_freqs:
  assumes "freqs_ok h" and "bytes_at src p (le_bytes (freq_size h) (fst (freq_bits (all_freqs h))))"
  shows "\<exists>nb. decode_freqs src (p + freq_size h) 360 p 0 0 = Inr (Some (all_freqs h, p + freq_size h, nb)) \<and> nb < 8"
proof -
  define pad where "pad = 8 * freq_size h - snd (freq_bits (all_freqs h))"
  have sz: "8 * freq_size h = snd (freq_bits (all_freqs h)) + pad" "pad < 8" unfolding pad_def freq_size_def by presburger+
  have "fst (freq_bits (all_freqs h)) mod 256 ^ freq_size h = fst (freq_bits (all_freqs h))" using freq_bits_bytes [OF assms(1)] by simp
  then have "bits_left src (p + freq_size h) p 0 0 (fst (freq_bits (all_freqs h))) (snd (freq_bits (all_freqs h)) + pad)"
    using assms(2) sz(1) by (simp add: bits_left_def bytes_at_def)
  moreover have "length (all_freqs h) = 360" "list_all (\<lambda>f. f \<le> 1047) (all_freqs h)" using assms(1) by (auto simp: freqs_ok_def all_freqs_def)
  ultimately show ?thesis using decode_freqs_ok [of "all_freqs h"] sz(2) by auto
qed

lemma decode_header:
  assumes "header_fields h" and "freqs_ok h" and "bytes_at src p (header_bytes h)"
  shows "lzfse_decode_v2_header_size src p = Inr (32 + freq_size h)" and "lzfse_decode_v1 src p = Inr (Some (decoded_header h))"
proof -
  note ld = header_loads [OF assms]
  have n: "32 + freq_size h < 2 ^ 32" "32 + freq_size h \<noteq> 32" using freq_size_bounds [OF assms(2)] by simp_all
  note g = get_fields0 [OF assms(1)] get_fields1 [OF assms(1)] get_fields2 [OF assms(1) n(1)]
  show "lzfse_decode_v2_header_size src p = Inr (32 + freq_size h)"
    unfolding lzfse_decode_v2_header_size_def ld rbind_simps g by simp
  obtain nb where fr: "decode_freqs src (p + 32 + freq_size h) 360 (p + 32) 0 0 = Inr (Some (all_freqs h, p + 32 + freq_size h, nb))" "nb < 8"
    using decode_header_freqs [OF assms(2) ld(6)] by auto
  have bits: "int (bits_field (h1_literal_bits h)) - 7 = h1_literal_bits h" "int (bits_field (h1_lmd_bits h)) - 7 = h1_lmd_bits h"
    using assms(1) bits_field_ok by (auto simp: header_fields_def)
  have st: "[h1_literal_state h ! 0, h1_literal_state h ! 1, h1_literal_state h ! 2, h1_literal_state h ! 3] = h1_literal_state h"
    using assms(1) by (auto simp: header_fields_def)
  have tabs: "take 20 (all_freqs h) = h1_l_freq h" "take 20 (drop 20 (all_freqs h)) = h1_m_freq h" "take 64 (drop 40 (all_freqs h)) = h1_d_freq h"
    "take 256 (drop 104 (all_freqs h)) = h1_literal_freq h"
    using assms(2) by (auto simp: freqs_ok_def all_freqs_def)
  have ne: "p + (32 + freq_size h) \<noteq> p + 32" using n(2) by simp
  show "lzfse_decode_v1 src p = Inr (Some (decoded_header h))"
    unfolding lzfse_decode_v1_def ld rbind_simps Let_def g bits st if_not_P [OF ne] add.assoc [symmetric] fr(1)
    using fr(2) assms(1) n(2) by (simp add: freq_tables_def tabs decoded_header_def header_fields_def)
qed

end
