(* ===== verification/FSE_Normalize.thy ===== *)
theory FSE_Normalize
  imports FSE_Coding
begin

text \<open>
  Normalization gives a frequency table: the frequencies sum to the number of states, and every
  symbol that occurs keeps at least one state, if there are no more such symbols than states.
\<close>

definition used :: "nat list \<Rightarrow> nat" where
  "used xs = length (filter (\<lambda>x. 0 < x) xs)"

lemma used_simps [simp]: "used [] = 0" "used (x # xs) = (if 0 < x then Suc (used xs) else used xs)"
  by (simp_all add: used_def)

lemma used_le: "used xs \<le> length xs" "used xs \<le> sum_list xs"
  by (induction xs) auto

text \<open>Positions that are positive in \<open>xs\<close> are positive in \<open>ys\<close> and conversely.\<close>

definition same_used :: "nat list \<Rightarrow> nat list \<Rightarrow> bool" where
  "same_used xs ys \<longleftrightarrow> list_all2 (\<lambda>x y. 0 < x \<longleftrightarrow> 0 < y) xs ys"

lemma same_used_simps [simp]: "same_used xs xs" "same_used (x # xs) (y # ys) \<longleftrightarrow> (0 < x \<longleftrightarrow> 0 < y) \<and> same_used xs ys"
  by (simp_all add: same_used_def list_all2_refl)

lemma same_used_trans: "same_used xs ys \<Longrightarrow> same_used ys zs \<Longrightarrow> same_used xs zs"
  by (auto simp: same_used_def list_all2_conv_all_nth)

lemma same_used_used: "same_used xs ys \<Longrightarrow> used xs = used ys"
  unfolding same_used_def by (induction rule: list_all2_induct) auto

lemma same_used_length: "same_used xs ys \<Longrightarrow> length xs = length ys"
  by (simp add: same_used_def list_all2_lengthD)

lemma same_used_nth: "same_used xs ys \<Longrightarrow> i < length xs \<Longrightarrow> 0 < xs ! i \<longleftrightarrow> 0 < ys ! i"
  by (auto simp: same_used_def list_all2_conv_all_nth)

lemma adjust_pass:
  "adjust_pass shift overrun fs = (fs', r) \<Longrightarrow>
     same_used fs fs' \<and> r \<le> overrun \<and> sum_list fs' + (overrun - r) = sum_list fs \<and>
     (shift = 0 \<longrightarrow> r = 0 \<or> sum_list fs' = used fs')"
proof (induction fs arbitrary: overrun fs' r)
  case (Cons f fs)
  show ?case
  proof (cases "f > 1")
    case True
    define n where "n = min ((f - 1) div 2 ^ shift) overrun"
    have n: "n \<le> overrun" "n < f" using True by (auto simp: n_def min_less_iff_disj intro: le_less_trans [OF div_le_dividend])
    have step: "adjust_pass shift overrun (f # fs) =
        (if overrun - n = 0 then ((f - n) # fs, 0) else case adjust_pass shift (overrun - n) fs of (gs, r) \<Rightarrow> ((f - n) # gs, r))"
      using True unfolding n_def adjust_pass.simps Let_def by (simp only: if_True)
    show ?thesis
    proof (cases "overrun - n = 0")
      case stop: True
      then have "fs' = (f - n) # fs" "r = 0" using Cons.prems unfolding step by simp_all
      then show ?thesis using n stop True by simp
    next
      case False
      obtain gs where gs: "adjust_pass shift (overrun - n) fs = (gs, r)" "fs' = (f - n) # gs"
        using Cons.prems False unfolding step by (auto split: prod.splits)
      have one: "f - n = 1" if "shift = 0" using that False True by (simp add: n_def min_def split: if_splits)
      note IH = Cons.IH [OF gs(1)]
      have "sum_list fs' + (overrun - r) = sum_list (f # fs)" using IH gs(2) n by (simp only: sum_list.Cons) linarith
      moreover have "shift = 0 \<longrightarrow> r = 0 \<or> sum_list fs' = used fs'" using IH gs(2) one by simp
      moreover have "r \<le> overrun" using IH by linarith
      ultimately show ?thesis using IH gs(2) n by simp
    qed
  next
    case False
    obtain gs where gs: "adjust_pass shift overrun fs = (gs, r)" "fs' = f # gs"
      using Cons.prems False by (auto split: prod.splits)
    have "f = 0 \<or> f = 1" using False by auto
    then show ?thesis using Cons.IH [OF gs(1)] gs(2) by auto
  qed
qed auto

lemma fse_adjust_freqs:
  "overrun + used fs \<le> sum_list fs \<Longrightarrow> n \<noteq> 0 \<or> overrun = 0 \<Longrightarrow>
     \<exists>fs'. fse_adjust_freqs n fs overrun = Inr fs' \<and> same_used fs fs' \<and> sum_list fs' + overrun = sum_list fs"
proof (induction n arbitrary: fs overrun)
  case (Suc shift)
  show ?case
  proof (cases "overrun = 0")
    case False
    obtain gs r where gs: "adjust_pass shift overrun fs = (gs, r)" by (cases "adjust_pass shift overrun fs")
    note a = adjust_pass [OF this]
    have le: "r + used gs \<le> sum_list gs" using a Suc.prems(1) same_used_used [of fs gs] by linarith
    moreover have "shift \<noteq> 0 \<or> r = 0" using a le by auto
    ultimately obtain hs where hs: "fse_adjust_freqs shift gs r = Inr hs" "same_used gs hs" "sum_list hs + r = sum_list gs"
      using Suc.IH by blast
    moreover have "sum_list hs + overrun = sum_list fs" using hs(3) a by linarith
    ultimately show ?thesis using gs a False same_used_trans [of fs gs hs] by simp
  qed auto
qed auto

lemma max_freq_from:
  assumes "max_freq_from i m s xs = (m', s')" and "xs = drop i zs" and "s < length zs" and "m = 0 \<or> zs ! s = m"
    and "\<forall>k < min i (length zs). zs ! k \<le> m"
  shows "s' < length zs \<and> (m' = 0 \<or> zs ! s' = m') \<and> (\<forall>k < length zs. zs ! k \<le> m')"
  using assms
proof (induction xs arbitrary: i m s)
  case (Cons f fs)
  have ne: "i < length zs" using Cons.prems(2) by (cases "i < length zs") auto
  then have "f # fs = zs ! i # drop (Suc i) zs" using Cons.prems(2) by (simp add: Cons_nth_drop_Suc)
  with ne have i: "i < length zs" "zs ! i = f" "fs = drop (Suc i) zs" by auto
  show ?case
  proof (cases "f > m")
    case True
    then have "\<forall>k < min (Suc i) (length zs). zs ! k \<le> f"
      using Cons.prems(5) i by (fastforce simp: less_Suc_eq)
    with Cons.IH [of "Suc i" f i] Cons.prems(1) True i show ?thesis by simp
  next
    case False
    then have "\<forall>k < min (Suc i) (length zs). zs ! k \<le> m"
      using Cons.prems(5) i by (auto simp: less_Suc_eq)
    with Cons.IH [of "Suc i" m s] Cons.prems(1,3,4) False i show ?thesis by simp
  qed
qed auto

lemma normalized_used: "same_used xs (map (normalized shift hp) xs)"
  by (induction xs) (auto simp: normalized_def Let_def same_used_def intro: Nat.gr0I)

lemma sum_list_update:
  "i < length xs \<Longrightarrow> sum_list (xs[i := v]) + xs ! i = sum_list xs + (v :: nat)"
  by (induction xs arbitrary: i) (auto split: nat.splits)

lemma fse_normalize_freq:
  assumes "t \<noteq> []" and "used t \<le> nstates" and "0 < nstates"
  shows "\<exists>freq. fse_normalize_freq nstates t = Inr freq \<and> length freq = length t \<and> sum_list freq = nstates \<and>
    (\<forall>i < length t. 0 < t ! i \<longrightarrow> 0 < freq ! i)"
proof -
  define s_count where "s_count = sum_list t mod 2 ^ 32"
  define hp where "hp = (if s_count = 0 then 0 else 2 ^ 31 div s_count :: nat)"
  define fs where "fs = map (normalized (nat (builtin_clz nstates - 1)) hp) t"
  define rem where "rem = int nstates - int (sum_list fs)"
  obtain m j where mj: "max_freq_from 0 0 0 fs = (m, j)" by (cases "max_freq_from 0 0 0 fs")
  have u: "same_used t fs" unfolding fs_def by (rule normalized_used)
  then have len: "length fs = length t" by (simp add: same_used_length)
  have j: "j < length fs" "\<forall>x\<in>set fs. x \<le> m" "fs ! j = m"
  proof -
    have "j < length fs \<and> (m = 0 \<or> fs ! j = m) \<and> (\<forall>k < length fs. fs ! k \<le> m)"
      using max_freq_from [OF mj, of fs] assms(1) len by simp
    then show "j < length fs" "\<forall>x\<in>set fs. x \<le> m" "fs ! j = m" by (auto simp: all_set_conv_all_nth)
  qed
  have eq: "fse_normalize_freq nstates t =
      (if - rem < int (m div 4) then Inr (fs[j := nat (int (fs ! j) + rem)]) else fse_adjust_freqs 4 fs (nat (- rem)))"
    unfolding fse_normalize_freq_def Let_def s_count_def [symmetric] hp_def [symmetric] fs_def [symmetric] rem_def [symmetric] mj
    using j(1) by simp
  have keep: "\<forall>i < length t. 0 < t ! i \<longrightarrow> 0 < freq ! i" if "same_used fs freq" for freq
    using same_used_trans [OF u that] same_used_nth by blast
  show ?thesis
  proof (cases "- rem < int (m div 4)")
    case True
    let ?v = "nat (int m + rem)"
    have "0 < ?v"
    proof (cases "m = 0")
      case True
      then have "sum_list fs = 0" using j(2) by (simp add: sum_list_eq_0_iff)
      then show ?thesis using \<open>m = 0\<close> assms(3) unfolding rem_def by linarith
    next
      case False
      then show ?thesis using True by linarith
    qed
    have "sum_list (fs[j := ?v]) + m = sum_list fs + ?v" using sum_list_update [OF j(1), of ?v] j(3) by simp
    then have "sum_list (fs[j := ?v]) = nstates" using \<open>0 < ?v\<close> by (simp add: rem_def)
    moreover have "0 < fs[j := ?v] ! i" if "i < length t" "0 < t ! i" for i
      using same_used_nth [OF u that(1)] that \<open>0 < ?v\<close> len by (cases "i = j") auto
    ultimately show ?thesis using eq True j(3) len by simp
  next
    case False
    then have "nat (- rem) + used fs \<le> sum_list fs" using same_used_used [OF u] assms(2) by (simp add: rem_def)
    then obtain gs where "fse_adjust_freqs 4 fs (nat (- rem)) = Inr gs" "same_used fs gs" "sum_list gs + nat (- rem) = sum_list fs"
      using fse_adjust_freqs [of "nat (- rem)" fs 4] by auto
    moreover have "sum_list gs = nstates" using calculation False by (simp add: rem_def)
    ultimately show ?thesis using eq False keep same_used_length len by fastforce
  qed
qed

end
