(* ===== verification/LZFSE_Block.thy ===== *)
theory LZFSE_Block
  imports LZFSE_Header FSE_Normalize
begin

text \<open>
  The back end of the encoder: from literals and L, M, D values \<open>encode_block\<close> writes a header, the
  literal payload and the L, M, D payload, or reports a full destination; it never fails.
\<close>

section \<open>Frequencies\<close>

lemma occurrences_ok:
  assumes "list_all (\<lambda>v. \<exists>i. base v = Inr i \<and> i < length occ) vs"
  shows "\<exists>occ'. occurrences base occ vs = Inr occ' \<and> length occ' = length occ \<and> (\<forall>i<length occ. occ ! i \<le> occ' ! i) \<and>
    list_all (\<lambda>v. 0 < occ' ! projr (base v)) vs"
  using assms
proof (induction vs arbitrary: occ)
  case (Cons v vs)
  then obtain i where i: "base v = Inr i" "i < length occ" by auto
  let ?occ = "occ[i := occ ! i + 1]"
  from Cons.IH [of ?occ] Cons.prems obtain occ' where o: "occurrences base ?occ vs = Inr occ'" "length occ' = length occ"
    "\<forall>j<length occ. ?occ ! j \<le> occ' ! j" "list_all (\<lambda>v. 0 < occ' ! projr (base v)) vs" by auto
  have "\<forall>j<length occ. occ ! j \<le> occ' ! j"
  proof (intro allI impI)
    fix j assume "j < length occ"
    then show "occ ! j \<le> occ' ! j" using o(3) by (cases "j = i") (auto dest!: spec [of _ j])
  qed
  moreover have "0 < occ' ! i" using o(3) i(2) by (auto dest!: spec [of _ i])
  ultimately show ?case using i o by simp
qed simp

text \<open>A table of occurrences and its normalized frequencies.\<close>

lemma normalized_occurrences:
  assumes "list_all (\<lambda>v. \<exists>i. base v = Inr i \<and> i < n) vs" and "0 < n" and "n \<le> 256" and "n \<le> 2 ^ q" and "q \<le> 10"
  shows "\<exists>occ freq. occurrences base (replicate n 0) vs = Inr occ \<and> fse_normalize_freq (2 ^ q) occ = Inr freq \<and> length freq = n \<and>
    freq_table q freq \<and> list_all (\<lambda>f. f \<le> 1047) freq \<and> list_all (\<lambda>v. codable q freq (projr (base v))) vs"
proof -
  from occurrences_ok [of base "replicate n 0" vs] assms(1) obtain occ where occ: "occurrences base (replicate n 0) vs = Inr occ"
    "length occ = n" "list_all (\<lambda>v. 0 < occ ! projr (base v)) vs" by auto
  have "used occ \<le> 2 ^ q" "occ \<noteq> []" using used_le(1) [of occ] occ(2) assms(2,4) by auto
  from fse_normalize_freq [OF this(2,1)] obtain freq where freq: "fse_normalize_freq (2 ^ q) occ = Inr freq" "length freq = n"
    "sum_list freq = 2 ^ q" "\<forall>i<n. 0 < occ ! i \<longrightarrow> 0 < freq ! i" using occ(2) by auto
  have ft: "freq_table q freq" using freq assms(3,5) by (simp add: freq_table_def)
  have "(2 :: nat) ^ q \<le> 2 ^ 10" using assms(5) by (intro power_increasing) auto
  moreover have "\<And>i. i < length freq \<Longrightarrow> freq ! i \<le> 2 ^ q" by (rule freq_le [OF ft])
  ultimately have "list_all (\<lambda>f. f \<le> 1047) freq" by (force simp: list_all_length)
  moreover have "list_all (\<lambda>v. codable q freq (projr (base v))) vs" using occ(3) assms(1) freq ft by (force simp: list_all_iff codable_def)
  ultimately show ?thesis using occ(1) freq(1,2) ft by blast
qed

lemma normalized_values:
  assumes "list_all (\<lambda>v. \<exists>i. value_symbol base extra bval v i) vs" and "length extra = n" and "\<And>i. i < n \<Longrightarrow> extra ! i \<le> 15"
    and "0 < n" and "n \<le> 256" and "n \<le> 2 ^ q" and "q \<le> 10"
  shows "\<exists>occ freq. occurrences base (replicate n 0) vs = Inr occ \<and> fse_normalize_freq (2 ^ q) occ = Inr freq \<and> length freq = n \<and>
    freq_table q freq \<and> list_all (\<lambda>f. f \<le> 1047) freq \<and> list_all (value_codable q freq base extra bval) vs"
proof -
  have "list_all (\<lambda>v. \<exists>i. base v = Inr i \<and> i < n) vs" using assms(1,2) by (auto simp: list_all_iff value_symbol_def)
  from normalized_occurrences [OF this assms(4-7)] obtain occ freq where o: "occurrences base (replicate n 0) vs = Inr occ"
    "fse_normalize_freq (2 ^ q) occ = Inr freq" "length freq = n" "freq_table q freq" "list_all (\<lambda>f. f \<le> 1047) freq"
    "list_all (\<lambda>v. codable q freq (projr (base v))) vs" by blast
  have "list_all (value_codable q freq base extra bval) vs"
    unfolding list_all_iff
  proof
    fix v assume v: "v \<in> set vs"
    then obtain i where i: "value_symbol base extra bval v i" using assms(1) by (auto simp: list_all_iff)
    then have "codable q freq i" "extra ! i \<le> 15" using o(6) v assms(2,3) by (auto simp: list_all_iff value_symbol_def)
    then show "value_codable q freq base extra bval v" using i o(3) assms(2) by (auto simp: value_codable_def)
  qed
  then show ?thesis using o by blast
qed

section \<open>Blocks\<close>

definition literal_groups :: "string \<Rightarrow> literal_group list" where
  "literal_groups lits = map (group_at lits) [0..<length lits div 4]"

definition block_lmds :: "nat list \<Rightarrow> nat list \<Rightarrow> nat list \<Rightarrow> lmd list" where
  "block_lmds ls ms ds = zip ls (zip ms ds)"

text \<open>A header with the frequency tables for the literals and triples of a block.\<close>

definition tables_for :: "lzfse_header_v1 \<Rightarrow> string \<Rightarrow> lmd list \<Rightarrow> bool" where
  "tables_for h lits lmds \<longleftrightarrow> freqs_ok h \<and> freq_table 10 (h1_literal_freq h) \<and> freq_table 6 (h1_l_freq h) \<and> freq_table 6 (h1_m_freq h) \<and>
     freq_table 8 (h1_d_freq h) \<and> list_all (group_codable (h1_literal_freq h)) (literal_groups lits) \<and>
     list_all (lmd_codable (h1_l_freq h, h1_m_freq h, h1_d_freq h)) lmds"

text \<open>A payload: the bytes hold the stack of bits with the given number of bits in the last byte.\<close>

definition payload :: "bit_stack \<Rightarrow> int \<Rightarrow> string \<Rightarrow> bool" where
  "payload st n bs \<longleftrightarrow> fst st = of_le_bytes bs \<and> int (snd st) = 8 * int (length bs) + n"

definition block_of :: "lzfse_header_v1 \<Rightarrow> string \<Rightarrow> lmd list \<Rightarrow> string \<Rightarrow> bool" where
  "block_of h lits lmds blk \<longleftrightarrow>
     header_fields h \<and> tables_for h lits lmds \<and> h1_n_literals h = length lits \<and> h1_n_matches h = length lmds \<and>
     (\<exists>A B s0 s1 s2 s3 st st'. blk = header_bytes h @ A @ le_bytes 8 0 @ B \<and>
        h1_n_literal_payload_bytes h = length A \<and> h1_n_lmd_payload_bytes h = 8 + length B \<and>
        code_groups (h1_literal_freq h) (literal_groups lits) = ((s0, s1, s2, s3), st) \<and> h1_literal_state h = [s0, s1, s2, s3] \<and>
        payload st (h1_literal_bits h) A \<and>
        code_lmds (h1_l_freq h, h1_m_freq h, h1_d_freq h) lmds = ((h1_l_state h, h1_m_state h, h1_d_state h), st') \<and>
        payload st' (h1_lmd_bits h) B)"

lemma bytes_at_take: "bytes_at b i xs \<Longrightarrow> take j b' = take j b \<Longrightarrow> length b' = length b \<Longrightarrow> i + length xs \<le> j \<Longrightarrow> bytes_at b' i xs"
proof -
  assume a: "bytes_at b i xs" "take j b' = take j b" "length b' = length b" "i + length xs \<le> j"
  have "take (length xs) (drop i b') = drop i (take (i + length xs) (take j b'))" using a(4) by (simp add: drop_take)
  also have "\<dots> = drop i (take (i + length xs) (take j b))" by (simp only: a(2))
  also have "\<dots> = take (length xs) (drop i b)" using a(4) by (simp add: drop_take)
  finally show ?thesis using a by (simp add: bytes_at_def)
qed

lemma bytes_at_self: "i + n \<le> length b \<Longrightarrow> bytes_at b i (take n (drop i b))"
  by (simp add: bytes_at_def)

section \<open>Payloads\<close>

lemma literal_payload:
  assumes "list_all (group_codable freq) (literal_groups lits)" and "p + 8 \<le> e" and "e \<le> length buf"
  shows "\<exists>r. obind (encode_literals (fse_init_encoder_table 1024 freq) lits e (length lits div 4) (0, 0, 0, 0) fse_out_init buf p)
      (\<lambda>(states, out, buf, q). rbind (fse_out_finish out buf q) (\<lambda>r. Inr (Out (states, r)))) = Inr r \<and>
    (case r of OUT_FULL buf' \<Rightarrow> length buf' = length buf \<and> take p buf' = take p buf
     | Out (states, out, buf', q) \<Rightarrow> length buf' = length buf \<and> take p buf' = take p buf \<and> p \<le> q \<and> q \<le> e \<and>
        - 7 \<le> accum_nbits out \<and> accum_nbits out \<le> 0 \<and>
        (\<exists>st A. code_groups freq (literal_groups lits) = (states, st) \<and> payload st (accum_nbits out) A \<and> bytes_at buf' p A \<and> q = p + length A))"
proof -
  define n where "n = length lits div 4"
  have g: "literal_groups lits = map (group_at lits) [0..<n]" by (simp add: literal_groups_def n_def)
  have "code_groups freq (map (group_at lits) [n..<n]) = ((0, 0, 0, 0), (0, 0))" by simp
  from encode_literals_ok [OF assms(1) [unfolded g] order_refl this out_stack_init _ assms(2,3)] assms(2,3)
  obtain r where r: "encode_literals (fse_init_encoder_table 1024 freq) lits e n (0, 0, 0, 0) fse_out_init buf p = Inr r"
    "case r of OUT_FULL buf' \<Rightarrow> length buf' = length buf \<and> take p buf' = take p buf
     | Out (states', out', buf', p') \<Rightarrow> length buf' = length buf \<and> take p buf' = take p buf \<and> p' + 8 \<le> e \<and> accum_nbits out' \<le> 7 \<and>
         (\<exists>st'. code_groups freq (map (group_at lits) [0..<n]) = (states', st') \<and> out_stack p st' out' buf' p')"
    by (auto simp: fse_out_init_def)
  show ?thesis
  proof (cases r)
    case (OUT_FULL buf')
    then show ?thesis using r by (simp add: obind_Inr n_def)
  next
    case (Out x)
    obtain states out1 b1 q1 where x: "x = (states, out1, b1, q1)" by (rule prod_cases4)
    with r Out obtain st where st: "length b1 = length buf" "take p b1 = take p buf" "q1 + 8 \<le> e" "accum_nbits out1 \<le> 7"
      "code_groups freq (literal_groups lits) = (states, st)" "out_stack p st out1 b1 q1" by (auto simp: g)
    have "q1 + 8 \<le> length b1" "accum_nbits out1 \<le> 56" using st assms(3) by auto
    from fse_out_finish [OF st(6) this] obtain out2 b2 q2 where f: "fse_out_finish out1 b1 q1 = Inr (out2, b2, q2)" "p \<le> q2" "q2 \<le> q1 + 8"
      "int (snd st) = 8 * int (q2 - p) + accum_nbits out2" "- 7 \<le> accum_nbits out2" "accum_nbits out2 \<le> 0"
      "fst st = of_le_bytes (take (q2 - p) (drop p b2))" "length b2 = length b1" "take p b2 = take p b1" by blast
    define A where "A = take (q2 - p) (drop p b2)"
    have A: "length A = q2 - p" "bytes_at b2 p A" using f st assms(3) by (auto simp: A_def intro!: bytes_at_self)
    have "payload st (accum_nbits out2) A" using f A by (simp add: payload_def A_def)
    then show ?thesis using r(1) Out x f st A
      by (intro exI [of _ "Out (states, out2, b2, q2)"]) (auto simp: obind_Inr n_def)
  qed
qed

lemma lmd_payload:
  assumes "list_all (lmd_codable (lf, mf, df)) lmds" and "lmds \<noteq> []" and "p \<le> e" and "e \<le> length buf"
  shows "\<exists>r. obind (encode_lmds (fse_init_encoder_table 64 lf) (fse_init_encoder_table 64 mf) (fse_init_encoder_table 256 df) e (rev lmds) (0, 0, 0)
        fse_out_init buf p) (\<lambda>(states, out, buf, q). rbind (fse_out_finish out buf q) (\<lambda>r. Inr (Out (states, r)))) = Inr r \<and>
    (case r of OUT_FULL buf' \<Rightarrow> length buf' = length buf \<and> take p buf' = take p buf
     | Out (states, out, buf', q) \<Rightarrow> length buf' = length buf \<and> take p buf' = take p buf \<and> p \<le> q \<and> q \<le> e \<and>
        - 7 \<le> accum_nbits out \<and> accum_nbits out \<le> 0 \<and>
        (\<exists>st B. code_lmds (lf, mf, df) lmds = (states, st) \<and> payload st (accum_nbits out) B \<and> bytes_at buf' p B \<and> q = p + length B))"
proof (cases "p + 8 \<le> e")
  case False
  obtain z zs where z: "rev lmds = z # zs" using assms(2) by (cases "rev lmds") auto
  then show ?thesis using False by (cases z) (auto simp: obind_Inr)
next
  case True
  have nil: "code_lmds (lf, mf, df) [] = ((0, 0, 0), (0, 0))" by simp
  have "p \<le> length buf" "accum_nbits fse_out_init \<le> 7" "list_all (lmd_codable (lf, mf, df)) (rev lmds)" "list_all (lmd_codable (lf, mf, df)) []"
    using assms by (auto simp: fse_out_init_def)
  from encode_lmds_ok [OF this(3,4) nil out_stack_init [OF this(1)] this(2) True assms(4)] obtain r where r:
    "encode_lmds (fse_init_encoder_table 64 lf) (fse_init_encoder_table 64 mf) (fse_init_encoder_table 256 df) e (rev lmds) (0, 0, 0) fse_out_init buf p = Inr r"
    "case r of OUT_FULL buf' \<Rightarrow> length buf' = length buf \<and> take p buf' = take p buf
     | Out (states', out', buf', p') \<Rightarrow> length buf' = length buf \<and> take p buf' = take p buf \<and> p' + 8 \<le> e \<and> accum_nbits out' \<le> 7 \<and>
         (\<exists>st'. code_lmds (lf, mf, df) (rev (rev lmds) @ []) = (states', st') \<and> out_stack p st' out' buf' p')"
    by blast
  show ?thesis
  proof (cases r)
    case (OUT_FULL buf')
    then show ?thesis using r by (simp add: obind_Inr)
  next
    case (Out x)
    obtain states out1 b1 q1 where x: "x = (states, out1, b1, q1)" by (rule prod_cases4)
    with r Out obtain st where st: "length b1 = length buf" "take p b1 = take p buf" "q1 + 8 \<le> e" "accum_nbits out1 \<le> 7"
      "code_lmds (lf, mf, df) lmds = (states, st)" "out_stack p st out1 b1 q1" by auto
    have "q1 + 8 \<le> length b1" "accum_nbits out1 \<le> 56" using st assms(4) by auto
    from fse_out_finish [OF st(6) this] obtain out2 b2 q2 where f: "fse_out_finish out1 b1 q1 = Inr (out2, b2, q2)" "p \<le> q2" "q2 \<le> q1 + 8"
      "int (snd st) = 8 * int (q2 - p) + accum_nbits out2" "- 7 \<le> accum_nbits out2" "accum_nbits out2 \<le> 0"
      "fst st = of_le_bytes (take (q2 - p) (drop p b2))" "length b2 = length b1" "take p b2 = take p b1" by blast
    define B where "B = take (q2 - p) (drop p b2)"
    have B: "length B = q2 - p" "bytes_at b2 p B" using f st assms(4) by (auto simp: B_def intro!: bytes_at_self)
    have "payload st (accum_nbits out2) B" using f B by (simp add: payload_def B_def)
    then show ?thesis using r(1) Out x f st B
      by (intro exI [of _ "Out (states, out2, b2, q2)"]) (auto simp: obind_Inr)
  qed
qed

section \<open>Writing a block\<close>

definition block_values :: "nat list \<Rightarrow> nat list \<Rightarrow> nat list \<Rightarrow> bool" where
  "block_values ls ms ds \<longleftrightarrow> length ms = length ls \<and> length ds = length ls \<and> ls \<noteq> [] \<and> length ls \<le> 10000 \<and>
     list_all (\<lambda>l. l \<le> 315) ls \<and> list_all (\<lambda>m. m \<le> 2359) ms \<and> list_all (\<lambda>d. d < 262140) ds"

text \<open>The frequency tables of a block.\<close>

lemma block_frequencies:
  assumes "block_values ls ms ds" and "length lits mod 4 = 0"
  obtains l_occ m_occ d_occ literal_occ lf mf df litf where
    "occurrences l_base_from_value (replicate 20 0) ls = Inr l_occ" "fse_normalize_freq 64 l_occ = Inr lf"
    "occurrences m_base_from_value (replicate 20 0) ms = Inr m_occ" "fse_normalize_freq 64 m_occ = Inr mf"
    "occurrences d_base_from_value (replicate 64 0) ds = Inr d_occ" "fse_normalize_freq 256 d_occ = Inr df"
    "occurrences Inr (replicate 256 0) (map byte_value lits) = Inr literal_occ" "fse_normalize_freq 1024 literal_occ = Inr litf"
    "\<And>h. h1_l_freq h = lf \<Longrightarrow> h1_m_freq h = mf \<Longrightarrow> h1_d_freq h = df \<Longrightarrow> h1_literal_freq h = litf \<Longrightarrow> tables_for h lits (block_lmds ls ms ds)"
proof -
  have v: "length ms = length ls" "length ds = length ls" "list_all (\<lambda>l. l \<le> 315) ls" "list_all (\<lambda>m. m \<le> 2359) ms" "list_all (\<lambda>d. d < 262140) ds"
    using assms(1) by (auto simp: block_values_def)
  have "list_all (\<lambda>v. \<exists>i. value_symbol l_base_from_value l_extra_bits l_base_value v i) ls" using v(3) l_value_symbol by (auto simp: list_all_iff)
  from normalized_values [OF this, of 20 6] l_extra_le obtain l_occ lf where
    l: "occurrences l_base_from_value (replicate 20 0) ls = Inr l_occ" "fse_normalize_freq 64 l_occ = Inr lf" "length lf = 20" "freq_table 6 lf"
      "list_all (\<lambda>f. f \<le> 1047) lf" "list_all (value_codable 6 lf l_base_from_value l_extra_bits l_base_value) ls"
    by (force simp: extra_lengths)
  have "list_all (\<lambda>v. \<exists>i. value_symbol m_base_from_value m_extra_bits m_base_value v i) ms" using v(4) m_value_symbol by (auto simp: list_all_iff)
  from normalized_values [OF this, of 20 6] m_extra_le obtain m_occ mf where
    m: "occurrences m_base_from_value (replicate 20 0) ms = Inr m_occ" "fse_normalize_freq 64 m_occ = Inr mf" "length mf = 20" "freq_table 6 mf"
      "list_all (\<lambda>f. f \<le> 1047) mf" "list_all (value_codable 6 mf m_base_from_value m_extra_bits m_base_value) ms"
    by (force simp: extra_lengths)
  have "list_all (\<lambda>v. \<exists>i. value_symbol d_base_from_value d_extra_bits d_base_value v i) ds" using v(5) d_value_symbol by (auto simp: list_all_iff)
  from normalized_values [OF this, of 64 8] d_extra_le obtain d_occ df where
    d: "occurrences d_base_from_value (replicate 64 0) ds = Inr d_occ" "fse_normalize_freq 256 d_occ = Inr df" "length df = 64" "freq_table 8 df"
      "list_all (\<lambda>f. f \<le> 1047) df" "list_all (value_codable 8 df d_base_from_value d_extra_bits d_base_value) ds"
    by (force simp: extra_lengths)
  have "list_all (\<lambda>v. \<exists>i. Inr v = (Inr i :: nat result) \<and> i < 256) (map byte_value lits)" by (auto simp: list_all_iff byte_value_def nat_of_char_less_256)
  from normalized_occurrences [OF this, of 10] obtain literal_occ litf where
    c: "occurrences Inr (replicate 256 0) (map byte_value lits) = Inr literal_occ" "fse_normalize_freq 1024 literal_occ = Inr litf" "length litf = 256"
      "freq_table 10 litf" "list_all (\<lambda>f. f \<le> 1047) litf" "list_all (\<lambda>v. codable 10 litf v) (map byte_value lits)" by auto
  have byte: "codable 10 litf (byte_value (lits ! j))" if "j < length lits" for j using c(6) that by (simp add: list_all_length)
  have gr: "group_codable litf (group_at lits i)" if "i < length lits div 4" for i
  proof -
    have "4 * i + 3 < length lits" using that by linarith
    then show ?thesis using byte by (simp add: group_codable_def group_at_def)
  qed
  have zs: "list_all (lmd_codable (lf, mf, df)) (block_lmds ls ms ds)"
    using l(6) m(6) d(6) v(1,2) by (auto simp: block_lmds_def list_all_length lmd_codable_def)
  show thesis
    by (rule that [OF l(1,2) m(1,2) d(1,2) c(1,2)])
      (use l m d c zs gr in \<open>auto simp: tables_for_def freqs_ok_def all_freqs_def literal_groups_def list_all_iff\<close>)
qed

lemma out_result_cases:
  obtains (Inl) e where "m = Inl e" | (Full) b where "m = Inr (OUT_FULL b)" | (Out) x where "m = Inr (Out x)"
  by (metis out.exhaust sum.exhaust)

lemma obind_finish_cases:
  "obind m (\<lambda>(states, out, buf, q). rbind (fse_out_finish out buf q) (\<lambda>r. Inr (Out (states, r)))) = Inr (OUT_FULL b) \<longleftrightarrow> m = Inr (OUT_FULL b)"
  "obind m (\<lambda>(states, out, buf, q). rbind (fse_out_finish out buf q) (\<lambda>r. Inr (Out (states, r)))) = Inr (Out (states, r)) \<longleftrightarrow>
     (\<exists>out1 b1 q1. m = Inr (Out (states, out1, b1, q1)) \<and> fse_out_finish out1 b1 q1 = Inr r)"
  by (cases m rule: out_result_cases; auto simp: obind_def rbind_eq_Inr_iff)+

text \<open>The size of a payload from the number of its bits.\<close>

lemma payload_size: "payload st n A \<Longrightarrow> snd st \<le> k \<Longrightarrow> - 7 \<le> n \<Longrightarrow> 8 * length A \<le> k + 7"
  by (simp add: payload_def)

text \<open>What a call of \<open>encode_block\<close> leaves: a full destination, or a block behind the old end.\<close>

definition block_written :: "string \<Rightarrow> nat \<Rightarrow> nat \<Rightarrow> string \<Rightarrow> lmd list \<Rightarrow> (string \<times> nat) out \<Rightarrow> bool" where
  "block_written dst p e lits lmds r \<longleftrightarrow>
     (case r of OUT_FULL buf \<Rightarrow> length buf = length dst \<and> take p buf = take p dst
      | Out (buf, q) \<Rightarrow> length buf = length dst \<and> take p buf = take p dst \<and> q \<le> e \<and>
          (\<exists>h blk. block_of h lits lmds blk \<and> h1_n_raw_bytes h = sum_list (map (\<lambda>(l, m, d). l + m) lmds) mod 2 ^ 32 \<and>
             bytes_at buf p blk \<and> q = p + length blk))"

lemma block_written_cong: "length b = length b' \<Longrightarrow> take p b = take p b' \<Longrightarrow> block_written b p e lits lmds = block_written b' p e lits lmds"
  unfolding block_written_def by (simp only:)

text \<open>The header over finished payloads.\<close>

lemma write_state:
  assumes t0: "tables_for h0 lits lmds" and h0: "h1_magic h0 = LZFSE_COMPRESSEDV1_BLOCK_MAGIC" "h1_n_literals h0 = length lits"
      "h1_n_matches h0 = length lmds" "h1_n_raw_bytes h0 < 2 ^ 32"
    and n: "length lmds \<le> 10000" "length lits \<le> 40000" and k: "k = 32 + freq_size h0"
    and b: "bytes_at b (p + 24) (le_bytes 8 k)" "bytes_at b (p + 32) (le_bytes (freq_size h0) (fst (freq_bits (all_freqs h0))))"
      "bytes_at b (p + k) A" "bytes_at b (p + k + length A) (le_bytes 8 0)" "bytes_at b (p + k + length A + 8) B"
    and lits: "code_groups (h1_literal_freq h0) (literal_groups lits) = ((s0, s1, s2, s3), st)" "payload st n1 A" "- 7 \<le> n1" "n1 \<le> 0"
    and lmds: "code_lmds (h1_l_freq h0, h1_m_freq h0, h1_d_freq h0) lmds = ((sl, sm, sd), st')" "payload st' n2 B" "- 7 \<le> n2" "n2 \<le> 0"
  defines "h \<equiv> h0\<lparr>h1_literal_bits := n1, h1_n_literal_payload_bytes := length A, h1_literal_state := [s0, s1, s2, s3],
      h1_n_lmd_payload_bytes := 8 + length B, h1_lmd_bits := n2, h1_l_state := sl, h1_m_state := sm, h1_d_state := sd\<rparr>"
  shows "\<exists>b'. lzfse_encode_v1_state b p h = Inr b' \<and> length b' = length b \<and> take p b' = take p b \<and>
    block_of h lits lmds (header_bytes h @ A @ le_bytes 8 0 @ B) \<and> bytes_at b' p (header_bytes h @ A @ le_bytes 8 0 @ B)"
proof -
  have cod: "freqs_ok h0" "list_all (group_codable (h1_literal_freq h0)) (literal_groups lits)"
    "list_all (lmd_codable (h1_l_freq h0, h1_m_freq h0, h1_d_freq h0)) lmds" using t0 by (simp_all add: tables_for_def)
  have fs: "freq_size h = freq_size h0" "all_freqs h = all_freqs h0" by (simp_all add: freq_size_def all_freqs_def h_def)
  have len: "length (literal_groups lits) \<le> 10000" using n(2) by (simp add: literal_groups_def)
  have ok: "groups_ok ((s0, s1, s2, s3), st)" "snd st \<le> 400000" "lmds_ok ((sl, sm, sd), st')" "snd st' \<le> 650000"
    using code_groups_ok [OF cod(2)] code_lmds_ok [OF cod(3)] len n(1) lits(1) lmds(1) by auto
  have size: "length A < 2 ^ 20" "8 + length B < 2 ^ 20"
    using payload_size [OF lits(2) ok(2) lits(3)] payload_size [OF lmds(2) ok(4) lmds(3)] by simp_all
  have hf: "header_fields h" using h0 n ok size lits(3,4) lmds(3,4) by (auto simp: header_fields_def h_def groups_ok_def lmds_ok_def)
  have tf: "tables_for h lits lmds" using t0 by (simp add: tables_for_def freqs_ok_def all_freqs_def h_def)
  have "k < 2 ^ 32" using freq_size_bounds [OF cod(1)] by (simp add: k)
  from encode_v1_state_ok [OF hf b(1) this] obtain b' where b': "lzfse_encode_v1_state b p h = Inr b'" "patched b p (header_words h k) b'" by blast
  have w: "length (header_words h k) = 32" by (simp add: header_words_def)
  have after: "bytes_at b' i xs" if "bytes_at b i xs" "p + 32 \<le> i" for i xs using patched_bytes_after [OF b'(2) that(1)] that(2) w by simp
  have "bytes_at b' p (header_bytes h @ A @ le_bytes 8 0 @ B)"
    unfolding header_bytes_def bytes_at_append fs k [symmetric]
    using patched_bytes_at [OF b'(2)] after [OF b(2)] after [OF b(3)] after [OF b(4)] after [OF b(5)] w k by (simp add: add.assoc)
  moreover have "block_of h lits lmds (header_bytes h @ A @ le_bytes 8 0 @ B)"
    unfolding block_of_def using hf tf h0 lits(1,2) lmds(1,2) by (auto simp: h_def)
  ultimately show ?thesis using b' patched_length [OF b'(2)] patched_take [OF b'(2)] by auto
qed

lemma write_lmd_payload:
  assumes t0: "tables_for h0 lits lmds" and h0: "h1_magic h0 = LZFSE_COMPRESSEDV1_BLOCK_MAGIC" "h1_n_literals h0 = length lits"
      "h1_n_matches h0 = length lmds" "h1_n_raw_bytes h0 = sum_list (map (\<lambda>(l, m, d). l + m) lmds) mod 2 ^ 32"
    and n: "lmds \<noteq> []" "length lmds \<le> 10000" "length lits \<le> 40000" and k: "k = 32 + freq_size h0"
    and b2: "bytes_at b2 (p + 24) (le_bytes 8 k)" "bytes_at b2 (p + 32) (le_bytes (freq_size h0) (fst (freq_bits (all_freqs h0))))"
      "bytes_at b2 (p + k) A" and p2: "p2 = p + k + length A" and room: "p2 + 8 \<le> e" "e \<le> length b2"
    and lits: "code_groups (h1_literal_freq h0) (literal_groups lits) = ((s0, s1, s2, s3), st)" "payload st n1 A" "- 7 \<le> n1" "n1 \<le> 0"
  defines "h \<equiv> h0\<lparr>h1_literal_bits := n1, h1_n_literal_payload_bytes := length A, h1_literal_state := [s0, s1, s2, s3]\<rparr>"
  shows "\<exists>r. rbind (store8 b2 p2 0) (\<lambda>buf.
      obind (encode_lmds (fse_init_encoder_table 64 (h1_l_freq h0)) (fse_init_encoder_table 64 (h1_m_freq h0))
               (fse_init_encoder_table 256 (h1_d_freq h0)) e (rev lmds) (0, 0, 0) fse_out_init buf (p2 + 8))
        (\<lambda>((l_state, m_state, d_state), out, buf, q).
      rbind (fse_out_finish out buf q) (\<lambda>(out, buf, p3).
      let h = h\<lparr>h1_n_lmd_payload_bytes := p3 - p2, h1_lmd_bits := accum_nbits out, h1_l_state := l_state,
                h1_m_state := m_state, h1_d_state := d_state\<rparr> in
      rbind (lzfse_encode_v1_state buf p h) (\<lambda>buf. Inr (Out (buf, p3)))))) = Inr r \<and> block_written b2 p e lits lmds r"
    (is "\<exists>r. rbind _ (\<lambda>buf. obind (?enc buf) ?f) = Inr r \<and> _")
proof -
  let ?fs = "(h1_l_freq h0, h1_m_freq h0, h1_d_freq h0)"
  have cod: "list_all (lmd_codable ?fs) lmds" using t0 by (simp add: tables_for_def)
  obtain b3 where b3: "store8 b2 p2 0 = Inr b3" "patched b2 p2 (le_bytes 8 0) b3"
    using store8_patched [of p2 b2 0] room by auto
  note len3 = patched_length [OF b3(2)] and take3 = patched_take [OF b3(2) order_refl]
  have "e \<le> length b3" using room(2) len3 by simp
  from lmd_payload [OF cod n(1) room(1) this] obtain r where r:
    "obind (?enc b3) (\<lambda>(states, out, buf, q). rbind (fse_out_finish out buf q) (\<lambda>r. Inr (Out (states, r)))) = Inr r"
    "case r of OUT_FULL buf' \<Rightarrow> length buf' = length b3 \<and> take (p2 + 8) buf' = take (p2 + 8) b3
     | Out (states, out, buf', q) \<Rightarrow> length buf' = length b3 \<and> take (p2 + 8) buf' = take (p2 + 8) b3 \<and> p2 + 8 \<le> q \<and> q \<le> e \<and>
        - 7 \<le> accum_nbits out \<and> accum_nbits out \<le> 0 \<and>
        (\<exists>st B. code_lmds ?fs lmds = (states, st) \<and> payload st (accum_nbits out) B \<and> bytes_at buf' (p2 + 8) B \<and> q = p2 + 8 + length B)"
    by blast
  have keep: "take p b' = take p b2" if "take (p2 + 8) b' = take (p2 + 8) b3" for b'
    using arg_cong [OF that, of "take p"] arg_cong [OF take3, of "take p"] p2 by (simp add: min_def)
  show ?thesis
  proof (cases r)
    case (OUT_FULL b4)
    then show ?thesis using r b3(1) len3 keep [of b4] by (auto simp: obind_finish_cases obind_Inr block_written_def)
  next
    case (Out y)
    obtain sl sm sd out4 b4 p3 where y: "y = ((sl, sm, sd), out4, b4, p3)" by (metis prod_cases3 prod_cases4)
    obtain out3 bc qc where m1: "?enc b3 = Inr (Out ((sl, sm, sd), out3, bc, qc))" "fse_out_finish out3 bc qc = Inr (out4, b4, p3)"
      using r(1) unfolding Out y obind_finish_cases by blast
    obtain st' B where m2: "length b4 = length b3" "take (p2 + 8) b4 = take (p2 + 8) b3" "p3 \<le> e" "- 7 \<le> accum_nbits out4" "accum_nbits out4 \<le> 0"
      "code_lmds ?fs lmds = ((sl, sm, sd), st')" "payload st' (accum_nbits out4) B" "bytes_at b4 (p2 + 8) B" "p3 = p2 + 8 + length B"
      using r(2) unfolding Out y by auto
    have pres: "bytes_at b4 i xs" if "bytes_at b2 i xs" "i + length xs \<le> p2" for i xs
      by (rule bytes_at_take [OF bytes_at_take [OF that(1) take3 len3 that(2)] m2(2,1)]) (use that(2) in simp)
    have Z: "bytes_at b4 (p + k + length A) (le_bytes 8 0)"
      by (rule bytes_at_take [OF _ m2(2,1)]) (use patched_bytes_at [OF b3(2)] p2 in auto)
    have B: "bytes_at b4 (p + k + length A + 8) B" and raw: "h1_n_raw_bytes h0 < 2 ^ 32" using m2(8) p2 h0(4) by simp_all
    have pre: "bytes_at b4 (p + 24) (le_bytes 8 k)" "bytes_at b4 (p + 32) (le_bytes (freq_size h0) (fst (freq_bits (all_freqs h0))))"
        "bytes_at b4 (p + k) A"
      by (rule pres [OF b2(1)] pres [OF b2(2)] pres [OF b2(3)]; use p2 k in simp)+
    define h' where "h' = h\<lparr>h1_n_lmd_payload_bytes := 8 + length B, h1_lmd_bits := accum_nbits out4, h1_l_state := sl,
          h1_m_state := sm, h1_d_state := sd\<rparr>"
    from write_state [OF t0 h0(1-3) raw n(2,3) k pre Z B lits m2(6,7,4,5)]
    obtain b5 where b5: "lzfse_encode_v1_state b4 p h' = Inr b5" "length b5 = length b4" "take p b5 = take p b4"
      "block_of h' lits lmds (header_bytes h' @ A @ le_bytes 8 0 @ B)" "bytes_at b5 p (header_bytes h' @ A @ le_bytes 8 0 @ B)" by (auto simp: h'_def h_def)
    have "p3 - p2 = 8 + length B" using m2(9) by simp
    then have "rbind (store8 b2 p2 0) (\<lambda>buf. obind (?enc buf) ?f) = Inr (Out (b5, p3))"
      using b3(1) m1 b5(1) by (simp add: obind_Inr h'_def)
    moreover have "p3 = p + length (header_bytes h' @ A @ le_bytes 8 0 @ B)"
      using p2 m2(9) k by (simp add: length_header_bytes freq_size_def all_freqs_def h'_def h_def)
    moreover have "h1_n_raw_bytes h' = sum_list (map (\<lambda>(l, m, d). l + m) lmds) mod 2 ^ 32" using h0(4) by (simp add: h'_def h_def)
    moreover from this have "block_written b2 p e lits lmds (Out (b5, p3))"
      unfolding block_written_def out.case prod.case using calculation(2) b5(2-5) m2(1,3) len3 keep [OF m2(2)]
      by (intro conjI exI [of _ h'] exI [of _ "header_bytes h' @ A @ le_bytes 8 0 @ B"]) simp_all
    ultimately show ?thesis by blast
  qed
qed

lemma write_payloads:
  assumes t0: "tables_for h0 lits lmds" and h0: "h1_magic h0 = LZFSE_COMPRESSEDV1_BLOCK_MAGIC" "h1_n_literals h0 = length lits"
      "h1_n_matches h0 = length lmds" "h1_n_raw_bytes h0 = sum_list (map (\<lambda>(l, m, d). l + m) lmds) mod 2 ^ 32"
    and n: "lmds \<noteq> []" "length lmds \<le> 10000" "length lits \<le> 40000" and k: "k = 32 + freq_size h0"
    and b1: "bytes_at b1 (p + 24) (le_bytes 8 k)" "bytes_at b1 (p + 32) (le_bytes (freq_size h0) (fst (freq_bits (all_freqs h0))))"
    and room: "p + 752 \<le> e" "e \<le> length b1"
  shows "\<exists>r. obind (encode_literals (fse_init_encoder_table 1024 (h1_literal_freq h0)) lits e (length lits div 4) (0, 0, 0, 0) fse_out_init b1 (p + k))
        (\<lambda>((state0, state1, state2, state3), out, buf, q).
      rbind (fse_out_finish out buf q) (\<lambda>(out, buf, p2).
      let h = h0\<lparr>h1_literal_bits := accum_nbits out, h1_n_literal_payload_bytes := p2 - (p + k),
                h1_literal_state := [state0, state1, state2, state3]\<rparr> in
      if p2 + 8 > e then Inr (OUT_FULL buf)
      else
      rbind (store8 buf p2 0) (\<lambda>buf.
      obind (encode_lmds (fse_init_encoder_table 64 (h1_l_freq h0)) (fse_init_encoder_table 64 (h1_m_freq h0))
               (fse_init_encoder_table 256 (h1_d_freq h0)) e (rev lmds) (0, 0, 0) fse_out_init buf (p2 + 8))
        (\<lambda>((l_state, m_state, d_state), out, buf, q).
      rbind (fse_out_finish out buf q) (\<lambda>(out, buf, p3).
      let h = h\<lparr>h1_n_lmd_payload_bytes := p3 - p2, h1_lmd_bits := accum_nbits out, h1_l_state := l_state,
                h1_m_state := m_state, h1_d_state := d_state\<rparr> in
      rbind (lzfse_encode_v1_state buf p h) (\<lambda>buf. Inr (Out (buf, p3)))))))) = Inr r \<and> block_written b1 p e lits lmds r"
    (is "\<exists>r. obind ?lits ?f = Inr r \<and> _")
proof -
  let ?litf = "h1_literal_freq h0" and ?fs = "(h1_l_freq h0, h1_m_freq h0, h1_d_freq h0)"
  have cod: "freqs_ok h0" "list_all (group_codable ?litf) (literal_groups lits)" "list_all (lmd_codable ?fs) lmds"
    using t0 by (simp_all add: tables_for_def)
  have kb: "32 \<le> k" "k \<le> 662" using freq_size_bounds [OF cod(1)] by (auto simp: k)
  have "p + k + 8 \<le> e" using kb room by simp
  from literal_payload [OF cod(2) this room(2)] obtain r where r:
    "obind ?lits (\<lambda>(states, out, buf, q). rbind (fse_out_finish out buf q) (\<lambda>r. Inr (Out (states, r)))) = Inr r"
    "case r of OUT_FULL buf' \<Rightarrow> length buf' = length b1 \<and> take (p + k) buf' = take (p + k) b1
     | Out (states, out, buf', q) \<Rightarrow> length buf' = length b1 \<and> take (p + k) buf' = take (p + k) b1 \<and> p + k \<le> q \<and> q \<le> e \<and>
        - 7 \<le> accum_nbits out \<and> accum_nbits out \<le> 0 \<and>
        (\<exists>st A. code_groups ?litf (literal_groups lits) = (states, st) \<and> payload st (accum_nbits out) A \<and> bytes_at buf' (p + k) A \<and> q = p + k + length A)"
    by blast
  have keep: "take p b' = take p b1" if "take j b' = take j b1" "p \<le> j" for b' j
    using arg_cong [OF that(1), of "take p"] that(2) by (simp add: min_def)
  show ?thesis
  proof (cases r)
    case (OUT_FULL b2)
    then show ?thesis using r keep [of "p + k" b2] by (auto simp: obind_finish_cases obind_Inr block_written_def)
  next
    case (Out x)
    obtain s0 s1 s2 s3 out2 b2 p2 where x: "x = ((s0, s1, s2, s3), out2, b2, p2)" by (metis prod_cases4)
    obtain out1 bb qq where l1: "?lits = Inr (Out ((s0, s1, s2, s3), out1, bb, qq))" "fse_out_finish out1 bb qq = Inr (out2, b2, p2)"
      using r(1) unfolding Out x obind_finish_cases by blast
    obtain st A where l2: "length b2 = length b1" "take (p + k) b2 = take (p + k) b1" "p + k \<le> p2" "p2 \<le> e" "- 7 \<le> accum_nbits out2" "accum_nbits out2 \<le> 0"
      "code_groups ?litf (literal_groups lits) = ((s0, s1, s2, s3), st)" "payload st (accum_nbits out2) A" "bytes_at b2 (p + k) A" "p2 = p + k + length A"
      using r(2) unfolding Out x by auto
    show ?thesis
    proof (cases "p2 + 8 > e")
      case True
      then show ?thesis using l1 l2(1) keep [OF l2(2)] by (simp add: obind_Inr block_written_def)
    next
      case False
      have pres: "bytes_at b2 (p + 24) (le_bytes 8 k)" "bytes_at b2 (p + 32) (le_bytes (freq_size h0) (fst (freq_bits (all_freqs h0))))"
        by (rule bytes_at_take [OF b1(1) l2(2,1)] bytes_at_take [OF b1(2) l2(2,1)]; use k in simp)+
      have room2: "p2 + 8 \<le> e" "e \<le> length b2" and sz: "p2 - (p + k) = length A" using False room(2) l2(1,10) by simp_all
      have fin: "block_written b1 p e lits lmds r" if "block_written b2 p e lits lmds r" for r
        using that unfolding block_written_cong [OF l2(1) keep [OF l2(2) le_add1]] by simp
      show ?thesis
        using write_lmd_payload [OF t0 h0 n k pres l2(9,10) room2 l2(7,8,5,6)] fin l1 False
        by (auto simp: obind_Inr sz)
    qed
  qed
qed

lemma sum_zip_values:
  "length ms = length ls \<Longrightarrow> length ds = length ls \<Longrightarrow>
   sum_list (map (\<lambda>(l, m, d). l + m) (zip ls (zip ms ds))) = sum_list ms + (sum_list ls :: nat)"
proof (induction ls arbitrary: ms ds)
  case (Cons l ls)
  then show ?case by (cases ms; cases ds) auto
qed simp

lemma encode_block_ok:
  assumes "block_values (le_l_values s) (le_m_values s) ds" and "length lits mod 4 = 0" and "length lits \<le> 40000"
    and "le_dp s \<le> le_dst_end s" and "le_dst_end s \<le> length (le_dst s)"
  shows "\<exists>r. encode_block s lits ds = Inr r \<and>
    block_written (le_dst s) (le_dp s) (le_dst_end s) lits (block_lmds (le_l_values s) (le_m_values s) ds) r"
proof -
  define ls ms p e where "ls = le_l_values s" and "ms = le_m_values s" and "p = le_dp s" and "e = le_dst_end s"
  define lmds where "lmds = block_lmds ls ms ds"
  have bv: "block_values ls ms ds" using assms(1) by (simp add: ls_def ms_def)
  have e: "e \<le> length (le_dst s)" using assms by (simp add: e_def)
  obtain l_occ m_occ d_occ literal_occ lf mf df litf where fr:
    "occurrences l_base_from_value (replicate 20 0) ls = Inr l_occ" "fse_normalize_freq 64 l_occ = Inr lf"
    "occurrences m_base_from_value (replicate 20 0) ms = Inr m_occ" "fse_normalize_freq 64 m_occ = Inr mf"
    "occurrences d_base_from_value (replicate 64 0) ds = Inr d_occ" "fse_normalize_freq 256 d_occ = Inr df"
    "occurrences Inr (replicate 256 0) (map byte_value lits) = Inr literal_occ" "fse_normalize_freq 1024 literal_occ = Inr litf"
    "\<And>h. h1_l_freq h = lf \<Longrightarrow> h1_m_freq h = mf \<Longrightarrow> h1_d_freq h = df \<Longrightarrow> h1_literal_freq h = litf \<Longrightarrow> tables_for h lits lmds"
    by (rule block_frequencies [OF bv assms(2), folded lmds_def]) (rule that)
  show ?thesis
  proof (cases "p + 752 > e")
    case True
    then show ?thesis
      using fr(1-8) unfolding encode_block_def Let_def ls_def ms_def p_def e_def by (simp add: block_written_def)
  next
    case room: False
    define h0 where "h0 = \<lparr>h1_magic = LZFSE_COMPRESSEDV1_BLOCK_MAGIC, h1_n_raw_bytes = (sum_list ms + sum_list ls) mod 2 ^ 32,
               h1_n_payload_bytes = 0, h1_n_literals = length lits, h1_n_matches = length ls,
               h1_n_literal_payload_bytes = 0, h1_n_lmd_payload_bytes = 0, h1_literal_bits = 0,
               h1_literal_state = [0, 0, 0, 0], h1_lmd_bits = 0, h1_l_state = 0, h1_m_state = 0, h1_d_state = 0,
               h1_l_freq = lf, h1_m_freq = mf, h1_d_freq = df, h1_literal_freq = litf\<rparr>"
    have t0: "tables_for h0 lits lmds" by (rule fr(9)) (simp_all add: h0_def)
    then have f0: "freqs_ok h0" by (simp add: tables_for_def)
    define k where "k = 32 + freq_size h0"
    have k: "32 \<le> k" "k \<le> 662" using freq_size_bounds [OF f0] by (auto simp: k_def)
    have "p + 752 \<le> length (le_dst s)" using room e by simp
    from encode_v1_freq_table_ok [OF f0 this] obtain b1 where b1: "lzfse_encode_v1_freq_table (le_dst s) p h0 = Inr (k, b1)"
      "length b1 = length (le_dst s)" "take p b1 = take p (le_dst s)" "bytes_at b1 (p + 24) (le_bytes 8 k)"
      "bytes_at b1 (p + 32) (le_bytes (freq_size h0) (fst (freq_bits (all_freqs h0))))" by (auto simp: k_def)
    have start: "encode_block s lits ds =
      obind (encode_literals (fse_init_encoder_table 1024 litf) lits e (length lits div 4) (0, 0, 0, 0) fse_out_init b1 (p + k))
        (\<lambda>((state0, state1, state2, state3), out, buf, q).
      rbind (fse_out_finish out buf q) (\<lambda>(out, buf, p2).
      let h = h0\<lparr>h1_literal_bits := accum_nbits out, h1_n_literal_payload_bytes := p2 - (p + k),
                h1_literal_state := [state0, state1, state2, state3]\<rparr> in
      if p2 + 8 > e then Inr (OUT_FULL buf)
      else
      rbind (store8 buf p2 0) (\<lambda>buf.
      obind (encode_lmds (fse_init_encoder_table 64 lf) (fse_init_encoder_table 64 mf)
               (fse_init_encoder_table 256 df) e (rev lmds) (0, 0, 0) fse_out_init buf (p2 + 8))
        (\<lambda>((l_state, m_state, d_state), out, buf, q).
      rbind (fse_out_finish out buf q) (\<lambda>(out, buf, p3).
      let h = h\<lparr>h1_n_lmd_payload_bytes := p3 - p2, h1_lmd_bits := accum_nbits out, h1_l_state := l_state,
                h1_m_state := m_state, h1_d_state := d_state\<rparr> in
      rbind (lzfse_encode_v1_state buf p h) (\<lambda>buf. Inr (Out (buf, p3))))))))"
      unfolding encode_block_def Let_def ls_def [symmetric] ms_def [symmetric] p_def [symmetric] e_def [symmetric]
        fr(1-8) rbind_simps if_not_P [OF room] h0_def [symmetric] b1(1) prod.case lmds_def block_lmds_def ..
    have n: "lmds \<noteq> []" "length lmds = length ls" "length lmds \<le> 10000" "sum_list (map (\<lambda>(l, m, d). l + m) lmds) = sum_list ms + sum_list ls"
      using bv by (auto simp: block_values_def lmds_def block_lmds_def sum_zip_values)
    have h0: "h1_literal_freq h0 = litf" "h1_l_freq h0 = lf" "h1_m_freq h0 = mf" "h1_d_freq h0 = df" "h1_magic h0 = LZFSE_COMPRESSEDV1_BLOCK_MAGIC"
      "h1_n_literals h0 = length lits" "h1_n_matches h0 = length lmds"
      "h1_n_raw_bytes h0 = sum_list (map (\<lambda>(l, m, d). l + m) lmds) mod 2 ^ 32"
      unfolding n(4) by (simp_all add: h0_def n(2))
    have "\<exists>r. encode_block s lits ds = Inr r \<and> block_written b1 p e lits lmds r"
      unfolding start h0(1-4) [symmetric]
      by (rule write_payloads [OF t0 h0(5-8) n(1,3) assms(3) k_def b1(4,5)]) (use room e b1(2) in simp_all)
    then show ?thesis unfolding p_def [symmetric] e_def [symmetric] ls_def [symmetric] ms_def [symmetric] lmds_def [symmetric]
      unfolding block_written_cong [OF b1(2,3)] .
  qed
qed

end
