(* ===== verification/LZVN_Roundtrip.thy ===== *)
theory LZVN_Roundtrip
  imports LZVN_Search
begin

text \<open>
  The encoding loop of LZVN keeps its invariant, and a buffer that \<open>lzvn_encode_buffer\<close> reports as
  encoded is a stream that carries the decoder over the whole source.
\<close>

unbundle bit_operations_syntax

section \<open>The invariant\<close>

text \<open>
  \<open>written\<close>: the destination, from \<open>b\<close> on, holds instructions for the source up to \<open>src_literal\<close>.
\<close>

definition written :: "string \<Rightarrow> nat \<Rightarrow> nat \<Rightarrow> string \<Rightarrow> lzvn_encoder_state \<Rightarrow> bool" where
  "written src b e dst0 st \<longleftrightarrow> ve_src st = src \<and> ve_src_begin st = 0 \<and> ve_src_end st = int (length src) \<and>
     ve_dst_begin st = b \<and> ve_dst_end st = e \<and> ve_dp st \<le> e \<and> length (ve_dst st) = length dst0 \<and>
     0 \<le> ve_src_literal st \<and> ve_src_literal st \<le> int (length src) \<and>
     0 \<le> ve_d_prev st \<and> ve_d_prev st \<le> ve_src_current st \<and>
     emits src 0 0 dst0 b (ve_dst st) (ve_dp st) (nat (ve_src_literal st)) (nat (ve_d_prev st))"

definition pending_ok :: "lzvn_encoder_state \<Rightarrow> bool" where
  "pending_ok st \<longleftrightarrow> m_M (ve_pending st) = 0 \<or>
     match_ok (ve_src st) (ve_src_literal st) (ve_src_current st) (ve_pending st)"

definition entry_ok :: "string \<Rightarrow> int \<Rightarrow> lzvn_encode_entry \<Rightarrow> bool" where
  "entry_ok src i e \<longleftrightarrow> length (ent_indices e) = 4 \<and> length (ent_values e) = 4 \<and>
     (\<forall>k < 4. 0 \<le> ent_indices e ! k \<and> ent_indices e ! k \<le> i \<and> nat (ent_indices e ! k) + 4 \<le> length src \<and>
        ent_values e ! k = word_at src (nat (ent_indices e ! k)))"

definition table_ok :: "lzvn_encoder_state \<Rightarrow> bool" where
  "table_ok st \<longleftrightarrow> (\<forall>h < 2 ^ 14. entry_ok (ve_src st) (ve_src_current st) (ve_table st h))"

lemma size_of_offset_eq: "0 \<le> x \<Longrightarrow> x < 2 ^ 64 \<Longrightarrow> size_of_offset x = nat x"
  by (simp add: size_of_offset_def)

lemma hash3i_less: "hash3i i < 2 ^ 14"
proof -
  have "hash3i i \<le> unat (0x3fff :: 32 word)"
    unfolding hash3i_def word_le_nat_alt [symmetric] by (rule word_and_le1)
  then show ?thesis by simp
qed

section \<open>Emitting keeps the invariant\<close>

lemma emits_full: "emits s p D dst0 b dst q p' D' \<Longrightarrow> appended dst q [] d \<Longrightarrow> q \<le> length dst \<Longrightarrow> emits s p D dst0 b d q p' D'"
  by (auto simp: emits_def appended_def)

lemma lzvn_emit_match_written:
  assumes w: "written src b e dst0 st" and m: "match_ok src (ve_src_literal st) (ve_src_current st) m"
    and i: "ve_src_current st + 8 \<le> int (length src)" and len: "length src < 2 ^ 31" and e: "e \<le> length dst0"
  shows "\<exists>n st'. lzvn_emit_match st m = Inr (n, st') \<and> written src b e dst0 st' \<and> ve_pending st' = ve_pending st \<and>
    ve_src_current st' = ve_src_current st \<and> ve_table st' = ve_table st \<and> (0 < n \<longrightarrow> ve_src_literal st' = m_end m)"
proof -
  let ?p = "nat (ve_src_literal st)" and ?L = "nat (m_begin m - ve_src_literal st)"
  have pL: "?p + ?L = nat (m_begin m)" "?p + ?L + nat (m_M m) = nat (m_end m)"
    using w m by (auto simp: written_def match_ok_def)
  have sizes: "size_of_offset (ve_src_literal st) = ?p" "size_of_offset (m_begin m - ve_src_literal st) = ?L"
    "size_of_offset (m_M m) = nat (m_M m)" "size_of_offset (m_D m) = nat (m_D m)" "size_of_offset (ve_d_prev st) = nat (ve_d_prev st)"
    using w m i len by (auto simp: written_def match_ok_def intro!: size_of_offset_eq)
  have "\<exists>r. emit src ?p (ve_dst st) (ve_dp st) e ?L (nat (m_M m)) (nat (m_D m)) (nat (ve_d_prev st)) = Inr r \<and>
      emitted src ?p (nat (ve_d_prev st)) (ve_dst st) (ve_dp st) e (?p + ?L + nat (m_M m)) (nat (m_D m)) r"
    by (rule emit_emitted) (use w m i e pL in \<open>auto simp: written_def match_ok_def\<close>)
  then obtain d q where r: "emit src ?p (ve_dst st) (ve_dp st) e ?L (nat (m_M m)) (nat (m_D m)) (nat (ve_d_prev st)) = Inr (d, q)"
    "appended (ve_dst st) (ve_dp st) [] d" "q = e \<or> emits src ?p (nat (ve_d_prev st)) (ve_dst st) (ve_dp st) d q (nat (m_end m)) (nat (m_D m))"
    by (auto simp: emitted_def pL(2))
  have em: "emits src 0 0 dst0 b (ve_dst st) (ve_dp st) ?p (nat (ve_d_prev st))" using w by (simp add: written_def)
  show ?thesis
  proof (cases "q \<ge> e")
    case True
    have "emits src 0 0 dst0 b d (ve_dp st) ?p (nat (ve_d_prev st))"
      by (rule emits_full [OF em r(2)]) (use w e in \<open>auto simp: written_def\<close>)
    with True r w sizes show ?thesis by (auto simp: lzvn_emit_match_def written_def appended_def)
  next
    case False
    with r(3) have "emits src 0 0 dst0 b d q (nat (m_end m)) (nat (m_D m))" by (auto intro: emits_trans [OF em])
    with False r w m sizes show ?thesis
      by (auto simp: lzvn_emit_match_def written_def appended_def match_ok_def match_at_def)
  qed
qed

lemma lzvn_emit_literal_written:
  assumes w: "written src b e dst0 st" and n: "0 \<le> n" "ve_src_literal st + n \<le> int (length src)"
    and len: "length src < 2 ^ 31" and e: "e \<le> length dst0"
  shows "\<exists>k st'. lzvn_emit_literal st n = Inr (k, st') \<and> written src b e dst0 st' \<and> ve_pending st' = ve_pending st \<and>
    ve_src_current st' = ve_src_current st \<and> ve_table st' = ve_table st \<and> (0 < k \<longrightarrow> ve_src_literal st' = ve_src_literal st + n)"
proof -
  let ?p = "nat (ve_src_literal st)"
  have sizes: "size_of_offset (ve_src_literal st) = ?p" "size_of_offset n = nat n"
    using w n len by (auto simp: written_def intro!: size_of_offset_eq)
  have pn: "?p + nat n = nat (ve_src_literal st + n)" using w n by (simp add: written_def nat_add_distrib)
  have "\<exists>r. emit_literal src ?p (ve_dst st) (ve_dp st) e (nat n) = Inr r \<and>
      emitted src ?p (nat (ve_d_prev st)) (ve_dst st) (ve_dp st) e (?p + nat n) (nat (ve_d_prev st)) r"
    by (rule emit_literal_emitted) (use w n e in \<open>auto simp: written_def\<close>)
  then obtain d q where r: "emit_literal src ?p (ve_dst st) (ve_dp st) e (nat n) = Inr (d, q)"
    "appended (ve_dst st) (ve_dp st) [] d"
    "q = e \<or> emits src ?p (nat (ve_d_prev st)) (ve_dst st) (ve_dp st) d q (nat (ve_src_literal st + n)) (nat (ve_d_prev st))"
    by (auto simp: emitted_def pn)
  have em: "emits src 0 0 dst0 b (ve_dst st) (ve_dp st) ?p (nat (ve_d_prev st))" using w by (simp add: written_def)
  show ?thesis
  proof (cases "q \<ge> e")
    case True
    have "emits src 0 0 dst0 b d (ve_dp st) ?p (nat (ve_d_prev st))"
      by (rule emits_full [OF em r(2)]) (use w e in \<open>auto simp: written_def\<close>)
    with True r w sizes show ?thesis by (auto simp: lzvn_emit_literal_def written_def appended_def)
  next
    case False
    with r(3) have "emits src 0 0 dst0 b d q (nat (ve_src_literal st + n)) (nat (ve_d_prev st))" by (auto intro: emits_trans [OF em])
    with False r w n sizes show ?thesis by (auto simp: lzvn_emit_literal_def written_def appended_def)
  qed
qed

section \<open>Candidates\<close>

definition candidate_ok :: "lzvn_encoder_state \<Rightarrow> lzvn_match_info \<Rightarrow> bool" where
  "candidate_ok st m \<longleftrightarrow> m_M m = 0 \<or> match_ok (ve_src st) (ve_src_literal st) (ve_src_current st) m"

lemma match_ok_K [simp]: "match_ok src l i (m\<lparr>m_K := k\<rparr>) = match_ok src l i m"
  by (simp add: match_ok_def)

text \<open>The position looked at, in the middle of the loop.\<close>

definition searching :: "string \<Rightarrow> lzvn_encoder_state \<Rightarrow> bool" where
  "searching src st \<longleftrightarrow> ve_src st = src \<and> ve_src_begin st = 0 \<and> ve_src_end st = int (length src) \<and> length src < 2 ^ 31 \<and>
     0 \<le> ve_src_literal st \<and> ve_src_literal st \<le> ve_src_current st \<and> ve_src_current st + 8 \<le> int (length src) \<and>
     0 \<le> ve_d_prev st \<and> ve_d_prev st \<le> ve_src_current st"

lemma CHECK_CANDIDATE_ok:
  assumes s: "searching src st" and e: "entry_ok src (ve_src_current st) e" and "k < 4" and "candidate_ok st m"
  shows "\<exists>m'. CHECK_CANDIDATE st (offset_from_s32 (ent_indices e ! k))
      (trailing_zero_bytes (ent_values e ! k XOR word_at src (nat (ve_src_current st)))) m = Inr m' \<and> candidate_ok st m'"
proof -
  let ?ik = "ent_indices e ! k" and ?i = "ve_src_current st"
  let ?n = "trailing_zero_bytes (ent_values e ! k XOR word_at src (nat ?i))"
  have ik: "0 \<le> ?ik" "?ik \<le> ?i" "nat ?ik + 4 \<le> length src" "ent_values e ! k = word_at src (nat ?ik)"
    using e assms(3) by (auto simp: entry_ok_def)
  have "?n \<le> 4" "take ?n (drop (nat ?ik) src) = take ?n (drop (nat ?i) src)"
    using equal_low_bytes [of "nat ?ik" src "nat ?i" ?n] ik s by (auto simp: searching_def)
  then obtain r where "lzvn_find_matchN src 0 (int (length src)) (ve_src_literal st) ?ik ?i ?n = Inr r"
    "\<forall>m. r = Some m \<longrightarrow> match_ok src (ve_src_literal st) ?i m"
    using lzvn_find_matchN_ok [of ?n ?ik ?i "ve_src_literal st" src] s ik by (auto simp: searching_def)
  then show ?thesis using s assms(4)
    by (auto simp: CHECK_CANDIDATE_def offset_from_s32_def searching_def candidate_ok_def UPDATE_def split: option.splits)
qed

lemma incoming_match_ok:
  assumes s: "searching src st" and e: "entry_ok src (ve_src_current st) e"
  shows "\<exists>m. incoming_match st e (word_at src (nat (ve_src_current st))) = Inr m \<and> candidate_ok st m"
proof -
  note c = CHECK_CANDIDATE_ok [OF s e]
  have "candidate_ok st NO_MATCH" by (simp add: candidate_ok_def NO_MATCH_def)
  from c [OF _ this, of 0] obtain i0 where i0: "CHECK_CANDIDATE st (offset_from_s32 (ent_indices e ! 0))
      (trailing_zero_bytes (ent_values e ! 0 XOR word_at src (nat (ve_src_current st)))) NO_MATCH = Inr i0" "candidate_ok st i0" by auto
  from c [OF _ i0(2), of 1] obtain i1 where i1: "CHECK_CANDIDATE st (offset_from_s32 (ent_indices e ! 1))
      (trailing_zero_bytes (ent_values e ! 1 XOR word_at src (nat (ve_src_current st)))) i0 = Inr i1" "candidate_ok st i1" by auto
  from c [OF _ i1(2), of 2] obtain i2 where i2: "CHECK_CANDIDATE st (offset_from_s32 (ent_indices e ! 2))
      (trailing_zero_bytes (ent_values e ! 2 XOR word_at src (nat (ve_src_current st)))) i1 = Inr i2" "candidate_ok st i2" by auto
  from c [OF _ i2(2), of 3] obtain i3 where i3: "CHECK_CANDIDATE st (offset_from_s32 (ent_indices e ! 3))
      (trailing_zero_bytes (ent_values e ! 3 XOR word_at src (nat (ve_src_current st)))) i2 = Inr i3" "candidate_ok st i3" by auto
  show ?thesis
  proof (cases "ve_d_prev st = 0")
    case True
    then show ?thesis using i0 i1 i2 i3 by (simp add: incoming_match_def Let_def)
  next
    case False
    obtain r where r: "lzvn_find_match src 0 (int (length src)) (ve_src_literal st) (ve_src_current st - ve_d_prev st) (ve_src_current st) = Inr r"
      "\<forall>m. r = Some m \<longrightarrow> match_ok src (ve_src_literal st) (ve_src_current st) m"
      using lzvn_find_match_ok [of "ve_src_current st - ve_d_prev st" "ve_src_current st" "ve_src_literal st" src] s False
      by (auto simp: searching_def)
    have "candidate_ok st (case r of None \<Rightarrow> i3 | Some m1 \<Rightarrow> UPDATE i3 (m1\<lparr>m_K := m_M m1 - 1\<rparr>))"
      using r(2) i3(2) s by (auto simp: candidate_ok_def searching_def UPDATE_def split: option.splits)
    with r(1) False i0 i1 i2 i3 s show ?thesis by (simp add: incoming_match_def Let_def searching_def)
  qed
qed

section \<open>The loop\<close>

lemma offset_to_s32_eq: "0 \<le> x \<Longrightarrow> x < 2 ^ 31 \<Longrightarrow> offset_to_s32 x = x"
  by (simp add: offset_to_s32_def fits_int_def)

lemma updated_entry_ok:
  assumes "entry_ok src i e" and "0 \<le> i" and "i + 4 \<le> int (length src)" and "length src < 2 ^ 31"
  shows "entry_ok src i (updated_entry i (word_at src (nat i)) e)"
proof -
  have "offset_to_s32 i = i" using assms by (intro offset_to_s32_eq) auto
  then show ?thesis
    using assms by (auto simp: entry_ok_def updated_entry_def nth_Cons' split: if_splits)
qed

lemma entry_ok_next: "entry_ok src i e \<Longrightarrow> entry_ok src (i + 1) e"
  by (force simp: entry_ok_def)

lemma pending_ok_next: "pending_ok st \<Longrightarrow> pending_ok (st\<lparr>ve_src_current := ve_src_current st + 1\<rparr>)"
  by (auto simp: pending_ok_def match_ok_def)

lemma table_ok_set: "table_ok st \<Longrightarrow> entry_ok (ve_src st) (ve_src_current st) e \<Longrightarrow> table_ok (set_entry h e st)"
  by (simp add: table_ok_def set_entry_def)

lemma pending_ok_set [simp]: "pending_ok (set_entry h e st) = pending_ok st"
  by (simp add: pending_ok_def set_entry_def)

lemma written_set [simp]:
  "written src b e dst0 (set_entry h en st) = written src b e dst0 st"
  "written src b e dst0 (st\<lparr>ve_pending := p\<rparr>) = written src b e dst0 st"
  by (simp_all add: written_def set_entry_def)

definition kept :: "string \<Rightarrow> nat \<Rightarrow> nat \<Rightarrow> string \<Rightarrow> lzvn_encoder_state \<Rightarrow> bool \<times> lzvn_encoder_state \<Rightarrow> bool" where
  "kept src b e dst0 st r \<longleftrightarrow> (case r of (go, st') \<Rightarrow> written src b e dst0 st' \<and>
     (go \<longrightarrow> pending_ok st' \<and> ve_table st' = ve_table st))"

text \<open>One branch that emits a match and then sets the pending match.\<close>

lemma emitting_match_kept:
  assumes w: "written src b e dst0 st" and m: "match_ok src (ve_src_literal st) (ve_src_current st) m"
    and i: "ve_src_current st + 8 \<le> int (length src)" and len: "length src < 2 ^ 31" and e: "e \<le> length dst0"
    and p: "m_M p = 0 \<or> (match_ok src (ve_src_literal st) (ve_src_current st) p \<and> m_end m \<le> m_begin p)"
  shows "\<exists>r. emitting (lzvn_emit_match st m) (\<lambda>st'. st'\<lparr>ve_pending := p\<rparr>) = Inr r \<and> kept src b e dst0 st r"
proof -
  obtain n st' where "lzvn_emit_match st m = Inr (n, st')" "written src b e dst0 st'" "ve_table st' = ve_table st"
    "ve_src_current st' = ve_src_current st" "0 < n \<longrightarrow> ve_src_literal st' = m_end m"
    using lzvn_emit_match_written [OF w m i len e] by blast
  then show ?thesis using p
    by (cases "n = 0") (auto simp: emitting_def kept_def pending_ok_def match_ok_def written_def)
qed

lemma handle_incoming_kept:
  assumes w: "written src b e dst0 st" and s: "searching src st" and p: "pending_ok st" and c: "candidate_ok st m" and e: "e \<le> length dst0"
  shows "\<exists>r. handle_incoming st (\<lambda>st. st) m = Inr r \<and> kept src b e dst0 st r"
proof -
  have src: "ve_src st = src" "ve_src_current st + 8 \<le> int (length src)" "length src < 2 ^ 31" using s by (auto simp: searching_def)
  have p': "m_M (ve_pending st) = 0 \<or> match_ok src (ve_src_literal st) (ve_src_current st) (ve_pending st)"
    and c': "m_M m = 0 \<or> match_ok src (ve_src_literal st) (ve_src_current st) m"
    using p c src by (auto simp: pending_ok_def candidate_ok_def)
  have NO: "m_M NO_MATCH = 0" by (simp add: NO_MATCH_def)
  note em = emitting_match_kept [OF w _ src(2,3) e]
  have lit: "\<exists>r. emitting (lzvn_emit_literal st 271) (\<lambda>st. st) = Inr r \<and> kept src b e dst0 st r"
    if "m_M (ve_pending st) = 0" "ve_src_current st - ve_src_literal st \<ge> 400"
  proof -
    have "ve_src_literal st + 271 \<le> int (length src)" using that(2) src(2) by simp
    then obtain k st' where "lzvn_emit_literal st 271 = Inr (k, st')" "written src b e dst0 st'" "ve_table st' = ve_table st"
      "ve_pending st' = ve_pending st"
      using lzvn_emit_literal_written [OF w, of 271] src e by auto
    with that(1) show ?thesis by (auto simp: emitting_def kept_def pending_ok_def)
  qed
  have best: "\<exists>r. emitting (lzvn_emit_match (st\<lparr>ve_pending := x\<rparr>) x) (\<lambda>st'. st'\<lparr>ve_pending := NO_MATCH\<rparr>) = Inr r \<and> kept src b e dst0 st r"
    if "match_ok src (ve_src_literal st) (ve_src_current st) x" for x
    using emitting_match_kept [of src b e dst0 "st\<lparr>ve_pending := x\<rparr>" x NO_MATCH] that w src e NO by (auto simp: kept_def)
  consider (none) "m_M m = 0" "ve_src_current st - ve_src_literal st < 400"
    | (backlog) "m_M m = 0" "ve_src_current st - ve_src_literal st \<ge> 400" "m_M (ve_pending st) \<noteq> 0"
    | (long) "m_M m = 0" "ve_src_current st - ve_src_literal st \<ge> 400" "m_M (ve_pending st) = 0"
    | (first) "m_M m \<noteq> 0" "m_M (ve_pending st) = 0"
    | (apart) "m_M m \<noteq> 0" "m_M (ve_pending st) \<noteq> 0" "m_end (ve_pending st) \<le> m_begin m"
    | (overlap) "m_M m \<noteq> 0" "m_M (ve_pending st) \<noteq> 0" "m_end (ve_pending st) > m_begin m" by fastforce
  then show ?thesis
  proof cases
    case none
    then show ?thesis using w p by (simp add: handle_incoming_def kept_def)
  next
    case backlog
    then show ?thesis using em [of "ve_pending st" NO_MATCH] p' NO by (simp add: handle_incoming_def Let_def)
  next
    case long
    then show ?thesis using lit by (simp add: handle_incoming_def Let_def)
  next
    case first
    then show ?thesis using w c' src by (simp add: handle_incoming_def Let_def kept_def pending_ok_def)
  next
    case apart
    then show ?thesis using em [of "ve_pending st" m] p' c' by (simp add: handle_incoming_def Let_def)
  next
    case overlap
    then show ?thesis using best [of m] best [of "ve_pending st"] p' c' by (simp add: handle_incoming_def Let_def)
  qed
qed

text \<open>Setting the table entry afterwards does not disturb the rest.\<close>

lemma handle_incoming_after:
  "handle_incoming st (set_entry h e) m =
     rbind (handle_incoming st (\<lambda>st. st) m) (\<lambda>(go, st'). Inr (go, if go then set_entry h e st' else st'))"
  by (auto simp: handle_incoming_def Let_def emitting_def rbind_def split: sum.splits)

lemma lzvn_encode_step_ok:
  assumes w: "written src b e dst0 st" and p: "pending_ok st" and t: "table_ok st" and e: "e \<le> length dst0"
    and i: "0 \<le> ve_src_current st" "ve_src_current st + 8 \<le> int (length src)" and len: "length src < 2 ^ 31"
  shows "\<exists>go st'. lzvn_encode_step st = Inr (go, st') \<and> written src b e dst0 st' \<and> (go \<longrightarrow> pending_ok st' \<and> table_ok st')"
proof -
  let ?i = "ve_src_current st"
  let ?v = "word_at src (nat ?i)"
  let ?h = "hash3i ?v"
  let ?en = "updated_entry ?i ?v (ve_table st ?h)"
  have src: "ve_src st = src" using w by (simp add: written_def)
  have load: "load4_at src ?i = Inr ?v" using i by (intro load4_at_word) auto
  have en: "entry_ok src ?i (ve_table st ?h)" using t hash3i_less src by (auto simp: table_ok_def)
  then have en': "entry_ok src ?i ?en" using i len by (intro updated_entry_ok) auto
  show ?thesis
  proof (cases "?i < ve_src_literal st")
    case True
    then show ?thesis using load src w p table_ok_set [OF t, of ?en] en'
      by (auto simp: lzvn_encode_step_def Let_def)
  next
    case False
    then have s: "searching src st" using w i len by (auto simp: searching_def written_def)
    obtain m where m: "incoming_match st (ve_table st ?h) ?v = Inr m" "candidate_ok st m"
      using incoming_match_ok [OF s en] by blast
    obtain go st' where st': "handle_incoming st (\<lambda>st. st) m = Inr (go, st')" "kept src b e dst0 st (go, st')"
      using handle_incoming_kept [OF w s p m(2) e] by auto
    have pos: "same_position st st'"
      using st'(1) handle_incoming_after [of st 0 "ve_table st' 0" m] handle_incoming_position [of st 0 "ve_table st' 0" m go]
      by (cases go) (auto simp: set_entry_def same_position_def)
    have "table_ok (set_entry ?h ?en st')" if go
    proof (rule table_ok_set)
      show "table_ok st'" "entry_ok (ve_src st') (ve_src_current st') ?en"
        using st'(2) that t en' pos src by (auto simp: kept_def table_ok_def written_def same_position_def)
    qed
    moreover have "pending_ok (set_entry ?h ?en st')" if go using st'(2) that by (simp add: kept_def)
    ultimately show ?thesis using False load src m(1) st'
      by (auto simp: lzvn_encode_step_def Let_def handle_incoming_after kept_def)
  qed
qed

lemma lzvn_encode_ok:
  assumes "written src b e dst0 st" and "pending_ok st" and "table_ok st" and "e \<le> length dst0"
    and "0 \<le> ve_src_current st" and "ve_src_current_end st + 8 \<le> int (length src)" and "length src < 2 ^ 31"
  shows "\<exists>st'. lzvn_encode st = Inr st' \<and> written src b e dst0 st'"
  using assms
proof (induction st rule: lzvn_encode.induct)
  case (1 st)
  show ?case
  proof (cases "ve_src_current st < ve_src_current_end st")
    case True
    then obtain go st' where st': "lzvn_encode_step st = Inr (go, st')" "written src b e dst0 st'" "go \<longrightarrow> pending_ok st' \<and> table_ok st'"
      using lzvn_encode_step_ok [OF "1.prems"(1-5)] "1.prems" by auto
    note pos = lzvn_encode_step_current [OF st'(1)]
    let ?st = "st'\<lparr>ve_src_current := ve_src_current st' + 1\<rparr>"
    have "\<exists>st''. lzvn_encode ?st = Inr st'' \<and> written src b e dst0 st''" if go
    proof (rule "1.IH" [OF True st'(1) refl that])
      show "written src b e dst0 ?st" using st'(2) by (auto simp: written_def)
      show "pending_ok ?st" using st'(3) that by (auto intro: pending_ok_next)
      show "table_ok ?st" using st'(3) that by (auto simp: table_ok_def intro: entry_ok_next)
    qed (use "1.prems" pos in auto)
    with st' True show ?thesis by (subst lzvn_encode.simps) auto
  next
    case False
    then show ?thesis using "1.prems" by (subst lzvn_encode.simps) simp
  qed
qed

section \<open>The entry point\<close>

lemma lzvn_init_table_ok:
  assumes "written src b e dst0 st" and "8 \<le> length src" and "ve_src_current st = 0" and "length src < 2 ^ 31"
  shows "\<exists>t. lzvn_init_table st = Inr (st\<lparr>ve_table := t\<rparr>) \<and> table_ok (st\<lparr>ve_table := t\<rparr>)"
proof -
  have st: "ve_src st = src" "ve_src_begin st = 0" using assms(1) by (simp_all add: written_def)
  have "load4_at src 0 = Inr (word_at src 0)" using assms(2) load4_at_word [of 0 src] by simp
  then show ?thesis
    using st assms(2,3) offset_to_s32_eq [of 0]
    by (auto simp: lzvn_init_table_def Let_def table_ok_def entry_ok_def nth_replicate)
qed

lemma lzvn_encode_buffer_ok:
  assumes len: "length src < 2 ^ 31" and dst: "b + dst_size \<le> length dst0"
  shows "\<exists>n d. lzvn_encode_buffer dst0 b dst_size src (length src) = Inr (n, d) \<and> length d = length dst0 \<and> n \<le> dst_size \<and>
    (n = 0 \<or> (\<exists>bytes D. appended dst0 b (bytes @ le_bytes 8 6) d \<and> n = length bytes + 8 \<and> decodes src 0 0 bytes (length src) D))"
proof (cases "dst_size < 8")
  case True
  then show ?thesis by (simp add: lzvn_encode_buffer_def lzvn_encode_partial_def)
next
  case False
  let ?e = "b + dst_size - 8"
  have e: "?e \<le> length dst0" using dst by simp
  define st0 where "st0 = \<lparr>ve_src = src, ve_src_begin = 0, ve_src_end = int (length src), ve_src_current = 0, ve_src_current_end = 0,
      ve_src_literal = 0, ve_dst = dst0, ve_dp = b, ve_dst_begin = b, ve_dst_end = ?e, ve_pending = NO_MATCH, ve_d_prev = 0,
      ve_table = (\<lambda>u. \<lparr>ent_indices = [], ent_values = []\<rparr>)\<rparr>"
  have w0: "written src b ?e dst0 (st0\<lparr>ve_src_current_end := x\<rparr>)" for x
    using False by (auto simp: written_def st0_def intro: emits_refl)
  obtain st1 where st1: "(if length src \<ge> 8 then rbind (lzvn_init_table (st0\<lparr>ve_src_current_end := int (length src) - 8\<rparr>)) lzvn_encode else Inr st0) = Inr st1"
    "written src b ?e dst0 st1"
  proof (cases "length src \<ge> 8")
    case True
    let ?st = "st0\<lparr>ve_src_current_end := int (length src) - 8\<rparr>"
    obtain t where t: "lzvn_init_table ?st = Inr (?st\<lparr>ve_table := t\<rparr>)" "table_ok (?st\<lparr>ve_table := t\<rparr>)"
      using lzvn_init_table_ok [OF w0 True _ len] by (auto simp: st0_def)
    have "\<exists>st'. lzvn_encode (?st\<lparr>ve_table := t\<rparr>) = Inr st' \<and> written src b ?e dst0 st'"
    proof (rule lzvn_encode_ok)
      show "written src b ?e dst0 (?st\<lparr>ve_table := t\<rparr>)" using w0 by (simp add: written_def)
      show "pending_ok (?st\<lparr>ve_table := t\<rparr>)" by (simp add: pending_ok_def st0_def NO_MATCH_def)
    qed (use t e len True in \<open>auto simp: st0_def\<close>)
    then show ?thesis using that t(1) True by auto
  next
    case False
    moreover have "written src b ?e dst0 st0" using w0 [of 0] by (simp add: st0_def)
    ultimately show ?thesis using that by simp
  qed
  have lit: "0 \<le> ve_src_end st1 - ve_src_literal st1" "ve_src_literal st1 + (ve_src_end st1 - ve_src_literal st1) \<le> int (length src)"
    using st1(2) by (auto simp: written_def)
  obtain k st2 where st2: "lzvn_emit_literal st1 (ve_src_end st1 - ve_src_literal st1) = Inr (k, st2)" "written src b ?e dst0 st2"
    using lzvn_emit_literal_written [OF st1(2) lit len e] by blast
  obtain bytes where bytes: "appended dst0 b bytes (ve_dst st2)" "ve_dp st2 = b + length bytes"
    "decodes src 0 0 bytes (nat (ve_src_literal st2)) (nat (ve_d_prev st2))"
    using st2(2) by (auto simp: written_def emits_def)
  have "ve_dp st2 \<le> ?e" using st2(2) by (simp add: written_def)
  with False have room: "ve_dp st2 + 8 \<le> b + dst_size" by linarith
  obtain d where d: "store8 (ve_dst st2) (ve_dp st2) 6 = Inr d" "appended (ve_dst st2) (ve_dp st2) (le_bytes 8 6) d"
    using store_bytes_appended [of "ve_dp st2" "le_bytes 8 6" "ve_dst st2"] room dst bytes(1) by (auto simp: store8_def appended_def)
  have all: "appended dst0 b (bytes @ le_bytes 8 6) d" using appended_trans [OF bytes(1)] d(2) bytes(2) by simp
  have src_size: "(if length src > 0xffffffff then 0xffffffff else length src) = length src" using len by simp
  have "lzvn_encode_partial dst0 b dst_size src (length src) = Inr (length bytes + 8, size_of_offset (ve_src_literal st2), d)"
    using False st1(1) st2 d(1) room bytes(2) unfolding lzvn_encode_partial_def Let_def src_size st0_def [symmetric]
    by (simp add: lzvn_emit_end_of_stream_def written_def)
  moreover have "size_of_offset (ve_src_literal st2) = nat (ve_src_literal st2)"
    using st2(2) len by (intro size_of_offset_eq) (auto simp: written_def)
  moreover have "length bytes + 8 \<le> dst_size" "length d = length dst0" using room bytes(2) all by (auto simp: appended_def)
  ultimately show ?thesis using all bytes(3) by (cases "nat (ve_src_literal st2) = length src") (auto simp: lzvn_encode_buffer_def)
qed

end
