(* ===== verification/LZFSE.thy ===== *)
theory LZFSE
  imports LZFSE_Encode LZFSE_Decode LZVN_Roundtrip
begin

text \<open>
  The interface of the compression library, \<open>lzfse_encode.c\<close> and \<open>lzfse_decode.c\<close>: one buffer into
  another.  A result is the number of bytes written, zero for failure, with the destination.  The
  allocation of the scratch memory succeeds.
\<close>

section \<open>Encoding a buffer\<close>

definition try_uncompressed :: "string \<Rightarrow> string \<Rightarrow> nat \<Rightarrow> (nat \<times> string) result" where
  "try_uncompressed dst src src_size =
     (if length src + 12 \<le> length dst \<and> length src < 2 ^ 31 - 1 then
        rbind (store4 dst 0 LZFSE_UNCOMPRESSED_BLOCK_MAGIC) (\<lambda>dst.
        rbind (store4 dst 4 (src_size mod 2 ^ 32)) (\<lambda>dst.
        rbind (store_bytes dst 8 src) (\<lambda>dst.
        rbind (store4 dst (8 + length src) LZFSE_ENDOFSTREAM_BLOCK_MAGIC) (\<lambda>dst.
        Inr (length src + 12, dst)))))
      else Inr (0, dst))"

definition try_lzvn :: "string \<Rightarrow> string \<Rightarrow> (nat \<times> string) result" where
  "try_lzvn dst src =
     (let src_size = length src in
      if length dst \<le> 16 then try_uncompressed dst src src_size
      else rbind (lzvn_encode_buffer dst 12 (length dst - 16) src src_size) (\<lambda>(sz, dst).
        if sz = 0 \<or> sz \<ge> src_size then try_uncompressed dst src src_size
        else
          rbind (store4 dst 0 LZFSE_COMPRESSEDLZVN_BLOCK_MAGIC) (\<lambda>dst.
          rbind (store4 dst 4 (src_size mod 2 ^ 32)) (\<lambda>dst.
          rbind (store4 dst 8 (sz mod 2 ^ 32)) (\<lambda>dst.
          rbind (store4 dst (12 + sz) LZFSE_ENDOFSTREAM_BLOCK_MAGIC) (\<lambda>dst.
          Inr (sz + 16, dst)))))))"

definition initial_encoder_state :: "string \<Rightarrow> string \<Rightarrow> lzfse_encoder_state" where
  "initial_encoder_state dst src =
     (lzfse_encode_init \<lparr>le_src = [], le_base = 0, le_src_end = 0, le_src_literal = 0, le_src_encode_i = 0, le_src_encode_end = 0,
        le_dst = [], le_dp = 0, le_dst_end = 0, le_pending = LZFSE_NO_MATCH, le_l_values = [], le_m_values = [],
        le_d_values = [], le_literals = [], le_history = (\<lambda>_. \<lparr>hs_pos = replicate 4 0, hs_value = replicate 4 0\<rparr>)\<rparr>)
      \<lparr>le_dst := dst, le_dp := 0, le_dst_end := length dst, le_src := src, le_src_encode_i := 0\<rparr>"

text \<open>The chunks of a source of four gigabytes or more, 262144 bytes each.\<close>

function encode_chunks :: "nat \<Rightarrow> lzfse_encoder_state \<Rightarrow> (bool \<times> nat \<times> lzfse_encoder_state) result" where
  "encode_chunks src_size s =
     (if src_size \<ge> 262144 then
        rbind (lzfse_encode_base (s\<lparr>le_src_end := 2 * 262144\<rparr>)) (\<lambda>(ok, s).
          if \<not> ok then Inr (False, src_size, s)
          else rbind (lzfse_encode_translate s 262144) (\<lambda>s. encode_chunks (src_size - 262144) s))
      else Inr (True, src_size, s))"
  by pat_completeness auto
termination by (relation "measure fst") auto

declare encode_chunks.simps [simp del]

text \<open>The first part of the source with its end set for the last call of the encoder.\<close>

definition encode_front :: "nat \<Rightarrow> lzfse_encoder_state \<Rightarrow> (bool \<times> nat \<times> lzfse_encoder_state) result" where
  "encode_front src_size s =
     (if src_size \<ge> 0xffffffff then
        rbind (lzfse_encode_base (s\<lparr>le_src_end := 262144\<rparr>)) (\<lambda>(ok, s).
          if \<not> ok then Inr (False, src_size, s)
          else rbind (encode_chunks (src_size - 262144) s) (\<lambda>(ok, n, s).
            Inr (ok, n, if ok then s\<lparr>le_src_end := 262144 + int n\<rparr> else s)))
      else Inr (True, src_size, s\<lparr>le_src_end := int src_size\<rparr>))"

definition try_lzfse :: "string \<Rightarrow> string \<Rightarrow> (nat \<times> string) result" where
  "try_lzfse dst src =
     rbind (encode_front (length src) (initial_encoder_state dst src)) (\<lambda>(ok, n, s).
     if \<not> ok then try_uncompressed (le_dst s) src n
     else rbind (lzfse_encode_base s) (\<lambda>(ok, s).
       if \<not> ok then try_uncompressed (le_dst s) src n
       else rbind (lzfse_encode_finish s) (\<lambda>(ok, s).
         if \<not> ok then try_uncompressed (le_dst s) src n else Inr (le_dp s, le_dst s))))"

definition lzfse_encode_buffer :: "string \<Rightarrow> string \<Rightarrow> (nat \<times> string) result" where
  "lzfse_encode_buffer dst src =
     (if length src < 8 then try_uncompressed dst src (length src)
      else if length src < 4096 then try_lzvn dst src
      else try_lzfse dst src)"

section \<open>Decoding a buffer\<close>

text \<open>The state after \<open>memset\<close>.\<close>

definition initial_block_state :: lzfse_block_state where
  "initial_block_state =
     (let e = \<lparr>val_total_bits = 0, val_value_bits = 0, val_delta = 0, val_vbase = 0\<rparr> in
      \<lparr>bs_n_matches = 0, bs_n_lmd_payload_bytes = 0, bs_current_literal = 0, bs_l_value = 0, bs_m_value = 0, bs_d_value = 0,
       bs_lmd_in_stream = \<lparr>accum = 0, accum_nbits = 0\<rparr>, bs_lmd_in_buf = 0, bs_l_state = 0, bs_m_state = 0, bs_d_state = 0,
       bs_l_decoder = replicate 64 e, bs_m_decoder = replicate 64 e, bs_d_decoder = replicate 256 e,
       bs_literal_decoder = replicate 1024 \<lparr>dec_k = 0, dec_symbol = 0, dec_delta = 0\<rparr>,
       bs_literals = replicate (40000 + 64) (char_of (0 :: nat))\<rparr>)"

definition initial_decoder_state :: "string \<Rightarrow> string \<Rightarrow> lzfse_decoder_state" where
  "initial_decoder_state dst src =
     \<lparr>ld_src = src, ld_sp = 0, ld_src_begin = 0, ld_src_end = length src, ld_dst = dst, ld_dp = 0, ld_dst_begin = 0,
      ld_dst_end = length dst, ld_end_of_stream = False, ld_block_magic = LZFSE_NO_BLOCK_MAGIC, ld_lzfse = initial_block_state,
      ld_lzvn = \<lparr>vb_n_raw_bytes = 0, vb_n_payload_bytes = 0, vb_d_prev = 0\<rparr>, ld_n_raw_bytes = 0\<rparr>"

definition lzfse_decode_buffer :: "string \<Rightarrow> string \<Rightarrow> (nat \<times> string) result" where
  "lzfse_decode_buffer dst src =
     rbind (lzfse_decode (initial_decoder_state dst src)) (\<lambda>(status, s).
     Inr (if status = LZFSE_STATUS_DST_FULL then length dst else if status \<noteq> LZFSE_STATUS_OK then 0 else ld_dp s, ld_dst s))"

section \<open>Decoding what was encoded\<close>

text \<open>
  \<open>recovers src e\<close>: into every destination the stream \<open>e\<close> decodes to \<open>src\<close>, or to as much of it as
  fits, and the returned length says which.
\<close>

definition recovers :: "string \<Rightarrow> string \<Rightarrow> bool" where
  "recovers src e \<longleftrightarrow>
     (\<forall>dst. dst \<noteq> [] \<longrightarrow> (\<exists>d. lzfse_decode_buffer dst e = Inr (min (length dst) (length src), d) \<and>
        length d = length dst \<and> take (min (length dst) (length src)) d = take (length dst) src))"

lemma decode_end_of_stream:
  assumes "ld_block_magic s = 0" and "bytes_at (ld_src s) (ld_sp s) (le_bytes 4 LZFSE_ENDOFSTREAM_BLOCK_MAGIC)"
    and "ld_sp s + 4 \<le> ld_src_end s"
  shows "lzfse_decode s = Inr (LZFSE_STATUS_OK, s\<lparr>ld_sp := ld_sp s + 4, ld_end_of_stream := True\<rparr>)"
proof -
  have "load4 (ld_src s) (ld_sp s) = Inr LZFSE_ENDOFSTREAM_BLOCK_MAGIC"
    using bytes_at_load4 [of "ld_src s" "ld_sp s" LZFSE_ENDOFSTREAM_BLOCK_MAGIC "[]"] assms(2)
    by (simp add: LZFSE_ENDOFSTREAM_BLOCK_MAGIC_def)
  then show ?thesis
    using assms(1,3) by (simp add: lzfse_decode.simps [of s] lzfse_decode_step_def begin_block_def LZFSE_NO_BLOCK_MAGIC_def)
qed

lemma decode_next: "lzfse_decode_step s = Inr (Next s') \<Longrightarrow> lzfse_decode s = lzfse_decode s'"
  by (subst lzfse_decode.simps) simp

lemma decode_finished: "lzfse_decode_step s = Inr (Finished status s') \<Longrightarrow> lzfse_decode s = Inr (status, s')"
  by (subst lzfse_decode.simps) simp

subsection \<open>Uncompressed blocks\<close>

definition uncompressed_stream :: "string \<Rightarrow> string" where
  "uncompressed_stream src =
     le_bytes 4 LZFSE_UNCOMPRESSED_BLOCK_MAGIC @ le_bytes 4 (length src) @ src @ le_bytes 4 LZFSE_ENDOFSTREAM_BLOCK_MAGIC"

lemma uncompressed_recovers:
  assumes "length src < 2 ^ 32"
  shows "recovers src (uncompressed_stream src)"
  unfolding recovers_def
proof (intro allI impI)
  fix dst :: string
  assume ne: "dst \<noteq> []"
  let ?e = "uncompressed_stream src" and ?n = "length src" and ?m = "min (length dst) (length src)"
  let ?s0 = "initial_decoder_state dst ?e"
  let ?s1 = "?s0\<lparr>ld_n_raw_bytes := ?n, ld_sp := 8, ld_block_magic := LZFSE_UNCOMPRESSED_BLOCK_MAGIC\<rparr>"
  have at: "bytes_at ?e 0 (le_bytes 4 LZFSE_UNCOMPRESSED_BLOCK_MAGIC)" "bytes_at ?e 4 (le_bytes 4 ?n)"
    "bytes_at ?e 8 src" "bytes_at ?e (8 + ?n) (le_bytes 4 LZFSE_ENDOFSTREAM_BLOCK_MAGIC)"
    by (simp_all add: uncompressed_stream_def bytes_at_def)
  have len: "length ?e = ?n + 12" by (simp add: uncompressed_stream_def)
  have l4: "load4 ?e 0 = Inr LZFSE_UNCOMPRESSED_BLOCK_MAGIC" "load4 ?e 4 = Inr ?n"
    using bytes_at_load4 [of ?e 0 LZFSE_UNCOMPRESSED_BLOCK_MAGIC "[]"] bytes_at_load4 [of ?e 4 ?n "[]"] at assms
    by (simp_all add: LZFSE_UNCOMPRESSED_BLOCK_MAGIC_def)
  have "lzfse_decode_step ?s0 = Inr (Next ?s1)"
    by (simp add: lzfse_decode_step_def begin_block_def begin_uncompressed_def initial_decoder_state_def len l4 magic_defs)
  note step1 = decode_next [OF this]
  show "\<exists>d. lzfse_decode_buffer dst ?e = Inr (?m, d) \<and> length d = length dst \<and> take ?m d = take (length dst) src"
  proof (cases "src = []")
    case True
    have "lzfse_decode_step ?s1 = Inr (Next (?s1\<lparr>ld_block_magic := 0\<rparr>))"
      using True by (simp add: lzfse_decode_step_def uncompressed_block_def magic_defs)
    note step2 = decode_next [OF this]
    have "lzfse_decode (?s1\<lparr>ld_block_magic := 0\<rparr>) =
        Inr (LZFSE_STATUS_OK, ?s1\<lparr>ld_block_magic := 0, ld_sp := 12, ld_end_of_stream := True\<rparr>)"
      using decode_end_of_stream [of "?s1\<lparr>ld_block_magic := 0\<rparr>"] at(4) True len by (simp add: initial_decoder_state_def)
    then show ?thesis
      using True step1 step2 by (simp add: lzfse_decode_buffer_def initial_decoder_state_def)
  next
    case False
    define bs where "bs = take ?m src"
    have bl: "length bs = ?m" by (simp add: bs_def)
    have ld: "load_bytes ?m ?e 8 = Inr bs"
      using at(3) by (simp add: bytes_at_def load_bytes_def bs_def min_def len) (metis take_take min_def nat_le_linear)
    obtain d where d: "store_bytes dst 0 bs = Inr d" "appended dst 0 bs d"
      using store_bytes_appended [of 0 bs dst] bl by auto
    then have dl: "length d = length dst" "take ?m d = bs" using bl by (auto simp: appended_def)
    let ?s2 = "?s1\<lparr>ld_dst := d, ld_sp := 8 + ?m, ld_dp := ?m, ld_n_raw_bytes := ?n - ?m\<rparr>"
    have "min (min ?n (length ?e - 8)) (length dst) = ?m" using len by simp
    then have "lzfse_decode_step ?s1 = Inr (Next ?s2)"
      using False ne d ld len
      by (simp add: lzfse_decode_step_def uncompressed_block_def magic_defs initial_decoder_state_def Let_def)
    note step2 = decode_next [OF this]
    show ?thesis
    proof (cases "?n \<le> length dst")
      case True
      have "lzfse_decode_step ?s2 = Inr (Next (?s2\<lparr>ld_block_magic := 0\<rparr>))"
        using True by (simp add: lzfse_decode_step_def uncompressed_block_def magic_defs)
      note step3 = decode_next [OF this]
      have "lzfse_decode (?s2\<lparr>ld_block_magic := 0\<rparr>) =
          Inr (LZFSE_STATUS_OK, ?s2\<lparr>ld_block_magic := 0, ld_sp := 12 + ?n, ld_end_of_stream := True\<rparr>)"
        using decode_end_of_stream [of "?s2\<lparr>ld_block_magic := 0\<rparr>"] at(4) True len by (simp add: initial_decoder_state_def)
      then show ?thesis
        using True step1 step2 step3 dl by (simp add: lzfse_decode_buffer_def bs_def)
    next
      case False
      have "lzfse_decode_step ?s2 = Inr (Finished LZFSE_STATUS_DST_FULL ?s2)"
        using False len by (simp add: lzfse_decode_step_def uncompressed_block_def magic_defs initial_decoder_state_def)
      then show ?thesis
        using False step1 step2 dl decode_finished by (simp add: lzfse_decode_buffer_def bs_def)
    qed
  qed
qed

subsection \<open>LZVN blocks\<close>

definition lzvn_stream :: "string \<Rightarrow> string \<Rightarrow> string" where
  "lzvn_stream src bytes =
     le_bytes 4 LZFSE_COMPRESSEDLZVN_BLOCK_MAGIC @ le_bytes 4 (length src) @ le_bytes 4 (length bytes + 8) @
     (bytes @ le_bytes 8 6) @ le_bytes 4 LZFSE_ENDOFSTREAM_BLOCK_MAGIC"

lemma lzvn_recovers:
  assumes dec: "decodes src 0 0 bytes (length src) D" and "src \<noteq> []"
    and "length src < 2 ^ 32" and "length bytes + 8 < 2 ^ 32"
  shows "recovers src (lzvn_stream src bytes)"
  unfolding recovers_def
proof (intro allI impI)
  fix dst :: string
  assume ne: "dst \<noteq> []"
  let ?e = "lzvn_stream src bytes" and ?n = "length src" and ?b = "length bytes + 8" and ?m = "min (length dst) (length src)"
  let ?s0 = "initial_decoder_state dst ?e"
  let ?s1 = "?s0\<lparr>ld_lzvn := \<lparr>vb_n_raw_bytes = ?n, vb_n_payload_bytes = ?b, vb_d_prev = 0\<rparr>, ld_sp := 12,
    ld_block_magic := LZFSE_COMPRESSEDLZVN_BLOCK_MAGIC\<rparr>"
  have at: "bytes_at ?e 0 (le_bytes 4 LZFSE_COMPRESSEDLZVN_BLOCK_MAGIC)" "bytes_at ?e 4 (le_bytes 4 ?n)"
    "bytes_at ?e 8 (le_bytes 4 ?b)" "bytes_at ?e 12 (bytes @ le_bytes 8 6)"
    "bytes_at ?e (12 + ?b) (le_bytes 4 LZFSE_ENDOFSTREAM_BLOCK_MAGIC)"
    by (simp_all add: lzvn_stream_def bytes_at_def)
  have len: "length ?e = ?b + 16" by (simp add: lzvn_stream_def)
  have l4: "load4 ?e 0 = Inr LZFSE_COMPRESSEDLZVN_BLOCK_MAGIC" "load4 ?e 4 = Inr ?n" "load4 ?e 8 = Inr ?b"
    using bytes_at_load4 [of ?e 0 LZFSE_COMPRESSEDLZVN_BLOCK_MAGIC "[]"] bytes_at_load4 [of ?e 4 ?n "[]"]
      bytes_at_load4 [of ?e 8 ?b "[]"] at assms(3,4)
    by (simp_all add: LZFSE_COMPRESSEDLZVN_BLOCK_MAGIC_def)
  have "lzfse_decode_step ?s0 = Inr (Next ?s1)"
    by (simp add: lzfse_decode_step_def begin_block_def begin_lzvn_def initial_decoder_state_def len l4 magic_defs)
  note step1 = decode_next [OF this]
  let ?v = "\<lparr>vd_src = ?e, vd_sp = 12, vd_src_end = 12 + ?b, vd_dst = dst, vd_dp = 0, vd_dst_begin = 0,
    vd_dst_end = ?m, vd_L = 0, vd_M = 0, vd_D = 0, vd_d_prev = 0, vd_end_of_stream = False\<rparr>"
  have "\<exists>v. lzvn_decode ?v = Inr v \<and> length (vd_dst v) = length dst \<and> vd_dp v = ?m \<and> take ?m (vd_dst v) = take ?m src \<and>
    (if ?n \<le> ?m then vd_end_of_stream v \<and> vd_sp v = 12 + ?b else \<not> vd_end_of_stream v \<and> vd_sp v < 12 + ?b)"
    using lzvn_decode_text [OF dec, of ?v] at(4) assms(2) ne by (simp cong: if_cong)
  then obtain v where v: "lzvn_decode ?v = Inr v" "length (vd_dst v) = length dst" "vd_dp v = ?m" "take ?m (vd_dst v) = take ?m src"
    "if ?n \<le> ?m then vd_end_of_stream v \<and> vd_sp v = 12 + ?b else \<not> vd_end_of_stream v \<and> vd_sp v < 12 + ?b"
    by blast
  have sv: "12 \<le> vd_sp v" using lzvn_decode_from [OF v(1)] by simp
  show "\<exists>d. lzfse_decode_buffer dst ?e = Inr (?m, d) \<and> length d = length dst \<and> take ?m d = take (length dst) src"
  proof (cases "?n \<le> length dst")
    case True
    let ?s2 = "?s1\<lparr>ld_dst := vd_dst v, ld_sp := 12 + ?b, ld_dp := ?n,
      ld_lzvn := \<lparr>vb_n_raw_bytes = 0, vb_n_payload_bytes = 0, vb_d_prev = vd_d_prev v mod 2 ^ 32\<rparr>, ld_block_magic := 0\<rparr>"
    have "lzfse_decode_step ?s1 = Inr (Next ?s2)"
      using v True len
      by (simp add: lzfse_decode_step_def lzvn_block_def magic_defs initial_decoder_state_def Let_def)
    note step2 = decode_next [OF this]
    have "lzfse_decode ?s2 = Inr (LZFSE_STATUS_OK, ?s2\<lparr>ld_sp := 16 + ?b, ld_end_of_stream := True\<rparr>)"
      using decode_end_of_stream [of ?s2] at(5) len by (simp add: initial_decoder_state_def)
    then show ?thesis using True step1 step2 v by (simp add: lzfse_decode_buffer_def)
  next
    case False
    have "\<exists>s'. lzfse_decode_step ?s1 = Inr (Finished LZFSE_STATUS_DST_FULL s') \<and> ld_dst s' = vd_dst v"
      using v False len sv
      by (simp add: lzfse_decode_step_def lzvn_block_def magic_defs initial_decoder_state_def Let_def) arith
    then show ?thesis using False step1 v decode_finished by (force simp: lzfse_decode_buffer_def)
  qed
qed

subsection \<open>What the encoder writes\<close>

text \<open>A successful call leaves a stream at the start of the destination that gives back the source.\<close>

definition encodes :: "string \<Rightarrow> (nat \<times> string) result \<Rightarrow> nat \<Rightarrow> bool" where
  "encodes src r m \<longleftrightarrow> (\<exists>n d. r = Inr (n, d) \<and> length d = m \<and> n \<le> m \<and> (n \<noteq> 0 \<longrightarrow> recovers src (take n d)) \<and>
     (length src + 12 \<le> m \<longrightarrow> n \<noteq> 0))"

lemma store4_appended: "q + 4 \<le> length b \<Longrightarrow> \<exists>b'. store4 b q x = Inr b' \<and> appended b q (le_bytes 4 x) b'"
  using store_bytes_appended [of q "le_bytes 4 x" b] by (simp add: store4_def)

lemma try_uncompressed_encodes:
  assumes "length src < 2 ^ 31 - 1"
  shows "encodes src (try_uncompressed dst src (length src)) (length dst)"
proof (cases "length src + 12 \<le> length dst")
  case True
  obtain d1 where d1: "store4 dst 0 LZFSE_UNCOMPRESSED_BLOCK_MAGIC = Inr d1" "appended dst 0 (le_bytes 4 LZFSE_UNCOMPRESSED_BLOCK_MAGIC) d1"
    using store4_appended [of 0 dst] True by auto
  then have l1: "length d1 = length dst" by (simp add: appended_def)
  obtain d2 where d2: "store4 d1 4 (length src) = Inr d2" "appended d1 4 (le_bytes 4 (length src)) d2"
    using store4_appended [of 4 d1] True l1 by auto
  then have l2: "length d2 = length dst" using l1 by (simp add: appended_def)
  obtain d3 where d3: "store_bytes d2 8 src = Inr d3" "appended d2 8 src d3"
    using store_bytes_appended [of 8 src d2] True l2 by auto
  then have l3: "length d3 = length dst" using l2 by (simp add: appended_def)
  obtain d4 where d4: "store4 d3 (8 + length src) LZFSE_ENDOFSTREAM_BLOCK_MAGIC = Inr d4"
    "appended d3 (8 + length src) (le_bytes 4 LZFSE_ENDOFSTREAM_BLOCK_MAGIC) d4"
    using store4_appended [of "8 + length src" d3] True l3 by auto
  have "appended dst 0 (uncompressed_stream src) d4"
    unfolding uncompressed_stream_def
    using appended_trans [OF d1(2), of _ d4] appended_trans [OF d2(2), of _ d4] appended_trans [OF d3(2), of _ d4] d4(2)
    by simp
  then have "length d4 = length dst" "take (length src + 12) d4 = uncompressed_stream src"
    by (simp_all add: appended_def uncompressed_stream_def add.commute)
  moreover have "try_uncompressed dst src (length src) = Inr (length src + 12, d4)"
    using True assms d1(1) d2(1) d3(1) d4(1) by (simp add: try_uncompressed_def)
  ultimately show ?thesis
    using True assms uncompressed_recovers [of src] by (simp add: encodes_def)
next
  case False
  then show ?thesis by (simp add: encodes_def try_uncompressed_def)
qed

lemma bytes_at_nth: "bytes_at b i bs \<longleftrightarrow> i + length bs \<le> length b \<and> (\<forall>k<length bs. b ! (i + k) = bs ! k)"
  by (auto simp: bytes_at_def list_eq_iff_nth_eq)

lemma store_bytes_nth:
  assumes "store_bytes d q x = Inr d'" and "k < length d" and "k < q \<or> q + length x \<le> k"
  shows "d' ! k = d ! k"
  using assms by (auto simp: store_bytes_def nth_append split: if_splits)

lemma store4_bytes_at:
  assumes "store4 d q x = Inr d'" and "bytes_at d i bs" and "i + length bs \<le> q \<or> q + 4 \<le> i"
  shows "bytes_at d' i bs"
proof -
  have st: "store_bytes d q (le_bytes 4 x) = Inr d'" using assms(1) by (simp add: store4_def)
  have "d' ! (i + k) = d ! (i + k)" if "k < length bs" for k
    by (rule store_bytes_nth [OF st]) (use assms(2,3) that in \<open>auto simp: bytes_at_def\<close>)
  then show ?thesis using assms(2) store_bytes_length [OF st] by (simp add: bytes_at_nth)
qed

lemma store4_at: "store4 d q x = Inr d' \<Longrightarrow> bytes_at d' q (le_bytes 4 x) \<and> length d' = length d"
  unfolding store4_def store_bytes_def by (auto simp: bytes_at_def split: if_splits)

lemma store4_in: "q + 4 \<le> length d \<Longrightarrow> \<exists>d'. store4 d q x = Inr d'"
  by (simp add: store4_def store_bytes_in)

lemma appended_bytes_at: "appended b q bs b' \<Longrightarrow> q + length bs \<le> length b \<Longrightarrow> bytes_at b' q bs"
  unfolding appended_def bytes_at_def by (metis (no_types, lifting) append_eq_conv_conj drop_take add_diff_cancel_left' length_take add_leD1 min.absorb2)

lemma try_lzvn_encodes:
  assumes "8 \<le> length src" and "length src < 2 ^ 31 - 1"
  shows "encodes src (try_lzvn dst src) (length dst)"
proof (cases "length dst \<le> 16")
  case True
  then show ?thesis using try_uncompressed_encodes [of src dst] assms by (simp add: try_lzvn_def)
next
  case False
  obtain n d where nd: "lzvn_encode_buffer dst 12 (length dst - 16) src (length src) = Inr (n, d)" "length d = length dst"
    "n \<le> length dst - 16"
    "n = 0 \<or> (\<exists>bytes D. appended dst 12 (bytes @ le_bytes 8 6) d \<and> n = length bytes + 8 \<and> decodes src 0 0 bytes (length src) D)"
    using lzvn_encode_buffer_ok [of src 12 "length dst - 16" dst] assms False by auto
  show ?thesis
  proof (cases "n = 0 \<or> n \<ge> length src")
    case True
    then have "try_lzvn dst src = try_uncompressed d src (length src)" using False nd by (simp add: try_lzvn_def)
    then show ?thesis using try_uncompressed_encodes [of src d] assms nd(2) by simp
  next
    case small: False
    then obtain bytes D where b: "appended dst 12 (bytes @ le_bytes 8 6) d" "n = length bytes + 8"
      "decodes src 0 0 bytes (length src) D" using nd(4) by blast
    have at: "bytes_at d 12 (bytes @ le_bytes 8 6)" using appended_bytes_at [OF b(1)] b(2) nd(3) False by simp
    obtain d1 where d1: "store4 d 0 LZFSE_COMPRESSEDLZVN_BLOCK_MAGIC = Inr d1" using store4_in [of 0 d] nd(2) False by auto
    note a1 = store4_at [OF d1] store4_bytes_at [OF d1 at]
    obtain d2 where d2: "store4 d1 4 (length src) = Inr d2" using store4_in [of 4 d1 "length src"] nd(2) False a1 by auto
    note a2 = store4_at [OF d2] store4_bytes_at [OF d2]
    obtain d3 where d3: "store4 d2 8 n = Inr d3" using store4_in [of 8 d2 n] nd(2) False a1 a2 by auto
    note a3 = store4_at [OF d3] store4_bytes_at [OF d3]
    have "12 + n + 4 \<le> length d3" using nd(2,3) False a1 a2 a3 by linarith
    then obtain d4 where d4: "store4 d3 (12 + n) LZFSE_ENDOFSTREAM_BLOCK_MAGIC = Inr d4"
      using store4_in by blast
    note a4 = store4_at [OF d4] store4_bytes_at [OF d4]
    have len: "length d4 = length dst" using a1 a2 a3 a4 nd(2) by simp
    have "bytes_at d4 0 (lzvn_stream src bytes)"
      unfolding lzvn_stream_def bytes_at_append using a1 a2 a3 a4 b(2) by (simp add: bytes_at_append)
    then have "take (n + 16) d4 = lzvn_stream src bytes"
      using b(2) by (simp add: bytes_at_def lzvn_stream_def add.commute)
    moreover have "recovers src (lzvn_stream src bytes)"
      by (rule lzvn_recovers [OF b(3)]) (use assms small b(2) in auto)
    moreover have "try_lzvn dst src = Inr (n + 16, d4)"
      using False small nd(1) assms d1 d2 d3 d4 by (simp add: try_lzvn_def)
    ultimately show ?thesis using len nd(3) False by (simp add: encodes_def)
  qed
qed

end
