(* ===== verification/LZFSE_Replay.thy ===== *)
theory LZFSE_Replay
  imports LZFSE_Block LZFSE
begin

text \<open>
  Decoding a block: the L, M, D values of a text, executed one after the other, rebuild the text, or
  fill the destination with as much of it as fits.
\<close>

section \<open>Copies of the fast path\<close>

lemma copy_within_one:
  assumes "0 < n" and "n \<le> w" and "D \<le> dp" and "dp + w \<le> length dst"
  shows "copy_within w dst dp D n = Inr (take dp dst @ take w (drop (dp - D) dst) @ drop (dp + w) dst)"
proof -
  have "length (take w (drop (dp - D) dst)) = w" using assms by simp
  then have st: "store_bytes dst dp (take w (drop (dp - D) dst)) = Inr (take dp dst @ take w (drop (dp - D) dst) @ drop (dp + w) dst)"
    using assms(4) by (simp add: store_bytes_def)
  have ld: "load_bytes w dst (dp - D) = Inr (take w (drop (dp - D) dst))" using assms by simp
  have "copy_within w dst dp D n =
      copy_within w (take dp dst @ take w (drop (dp - D) dst) @ drop (dp + w) dst) (dp + w) D (n - w)"
    using assms(1-3) ld st by (subst copy_within.simps) simp
  then show ?thesis using assms(2) by (simp add: copy_within.simps)
qed

lemma fast_match_text:
  assumes "match_at s dp M D" and "take dp dst = take dp s" and "dp + M + 15 \<le> length dst"
  shows "\<exists>dst'. fast_match dst dp D M = Inr dst' \<and> length dst' = length dst \<and> take (dp + M) dst' = take (dp + M) s"
proof -
  have D: "0 < D" "D \<le> dp" "dp + M \<le> length s" using assms(1) by (auto simp: match_at_def)
  consider "8 \<le> D" "0 < M" | "M = 0" | "D < 8" "M \<le> D" "0 < M" | "D < 8" "D < M" by linarith
  then show ?thesis
  proof cases
    case 1
    then show ?thesis using copy_within_text [of 8 D s dp M dst] assms by (simp add: fast_match_def do_while_copy_def)
  next
    case 2
    then show ?thesis using copy_within_one [of 1 8 D dp dst] assms D by (simp add: fast_match_def do_while_copy_def)
  next
    case 3
    let ?bs = "take 8 (drop (dp - D) dst)"
    have "take M ?bs = take M (drop (dp - D) (take dp dst))" using 3 D by (simp add: drop_take)
    also have "\<dots> = take M (drop (dp - D) s)" using 3 D by (simp add: drop_take assms(2))
    also have "\<dots> = take M (drop dp s)" using assms(1) 3(2) by (rule match_at_take)
    finally have M: "take M ?bs = take M (drop dp s)" .
    have "take (dp + M) (take dp dst @ ?bs @ drop (dp + 8) dst) = take dp dst @ take M ?bs"
      using assms(3) 3 D by simp
    also have "\<dots> = take (dp + M) s" unfolding M assms(2) by (simp add: take_add)
    finally show ?thesis using copy_within_one [of M 8 D dp dst] assms(3) 3 D by (simp add: fast_match_def do_while_copy_def)
  next
    case 4
    then show ?thesis using copy_within_text [of 1 D s dp M dst] assms D by (simp add: fast_match_def)
  qed
qed

section \<open>One match\<close>

definition same_regs :: "lmd_regs \<Rightarrow> lmd_regs \<Rightarrow> bool" where
  "same_regs r r' \<longleftrightarrow> r_l_state r' = r_l_state r \<and> r_m_state r' = r_m_state r \<and> r_d_state r' = r_d_state r \<and> r_in r' = r_in r \<and>
     r_src r' = r_src r \<and> r_symbols r' = r_symbols r \<and> r_D r' = r_D r"

text \<open>Literals of the block from an index on agree with the text from a position on.\<close>

definition literals_at :: "string \<Rightarrow> nat \<Rightarrow> string \<Rightarrow> nat \<Rightarrow> nat \<Rightarrow> bool" where
  "literals_at lits i src p n \<longleftrightarrow> i + n \<le> length lits \<and> p + n \<le> length src \<and> take n (drop i lits) = take n (drop p src)"

definition filled :: "string \<Rightarrow> string \<Rightarrow> nat \<Rightarrow> bool" where
  "filled src dst p \<longleftrightarrow> p \<le> length dst \<and> take p dst = take p src"

lemma filled_appended:
  assumes "filled src dst p" and "appended dst p (take n (drop p src)) dst'" and "p + n \<le> length dst" and "p + n \<le> length src"
  shows "filled src dst' (p + n)"
  using assms by (simp add: filled_def appended_def take_add)

lemma literals_filled:
  assumes "literals_at lits i src p n" and "filled src dst p" and "p + n + (w - 1) \<le> length dst" and "i + n + (w - 1) \<le> length lits" and "0 < w"
  shows "\<exists>dst'. copy_blocks w lits i dst p n = Inr dst' \<and> length dst' = length dst \<and> filled src dst' (p + n)"
proof -
  have l: "take n (drop i lits) = take n (drop p src)" "p + n \<le> length src" using assms(1) by (auto simp: literals_at_def)
  from copy_blocks_appended [OF assms(5,4,3)] obtain dst' where "copy_blocks w lits i dst p n = Inr dst'"
    "appended dst p (take n (drop p src)) dst'" using l(1) by auto
  then show ?thesis using filled_appended [OF assms(2), of n dst'] assms(3) l(2) by (auto simp: appended_def)
qed

lemma literals_at_le: "literals_at lits i src p n \<Longrightarrow> m \<le> n \<Longrightarrow> literals_at lits i src p m"
  by (auto simp: literals_at_def dest: arg_cong [of _ _ "take m"])

lemma fast_path:
  assumes "literals_at lits i src p L" and "match_at src (p + L) M D" and "filled src dst p" and "p + L + M + 32 \<le> length dst"
    and "i + L + 8 \<le> length lits"
  shows "\<exists>d1 d2. copy_blocks 8 lits i dst p (do_while_copy L) = Inr d1 \<and> fast_match d1 (p + L) D M = Inr d2 \<and>
    length d2 = length dst \<and> filled src d2 (p + L + M)"
proof -
  have "\<exists>d1. copy_blocks 8 lits i dst p (do_while_copy L) = Inr d1 \<and> length d1 = length dst \<and> filled src d1 (p + L)"
  proof (cases "L = 0")
    case True
    from copy_blocks_appended [of 8 i 1 lits p dst] assms(4,5) obtain d1 where
      d1: "copy_blocks 8 lits i dst p 1 = Inr d1" "appended dst p (take 1 (drop i lits)) d1" by auto
    have "take p d1 = take p dst" by (rule appended_take [OF d1(2)]) (use assms(4) in auto)
    then show ?thesis using True d1 assms(3) by (auto simp: do_while_copy_def filled_def appended_def)
  next
    case False
    then have "do_while_copy L = L" by (simp add: do_while_copy_def)
    then show ?thesis using literals_filled [OF assms(1,3), of 8] assms(4,5) by auto
  qed
  then obtain d1 where d1: "copy_blocks 8 lits i dst p (do_while_copy L) = Inr d1" "length d1 = length dst" "filled src d1 (p + L)" by blast
  have "p + L + M + 15 \<le> length d1" using assms(4) d1(2) by simp
  from fast_match_text [OF assms(2) _ this] d1(3) obtain d2 where "fast_match d1 (p + L) D M = Inr d2" "length d2 = length d1"
    "take (p + L + M) d2 = take (p + L + M) src" by (auto simp: filled_def)
  then show ?thesis using d1 assms(4) by (auto simp: filled_def)
qed

text \<open>
  A match that fits is executed; one that does not fills the destination.
\<close>

definition executes :: "string \<Rightarrow> lmd_regs \<Rightarrow> nat \<Rightarrow> nat \<Rightarrow> executed result \<Rightarrow> bool" where
  "executes src r q lit X \<longleftrightarrow>
     (if q \<le> length (r_dst r)
      then \<exists>r'. X = Inr (Executed r') \<and> same_regs r r' \<and> length (r_dst r') = length (r_dst r) \<and> r_dp r' = q \<and> filled src (r_dst r') q \<and> r_lit r' = lit
      else \<exists>r'. X = Inr (Dst_Full r') \<and> length (r_dst r') = length (r_dst r) \<and> filled src (r_dst r') (length (r_dst r)))"

lemma careful_match_executes:
  assumes "match_at src (r_dp r) (r_M r) D" and "filled src (r_dst r) (r_dp r)"
  shows "executes src r (r_dp r + r_M r) (r_lit r) (careful_match (length (r_dst r)) D r)"
proof -
  define n where "n = min (r_M r) (length (r_dst r) - r_dp r)"
  have dp: "r_dp r \<le> length (r_dst r)" "take (r_dp r) (r_dst r) = take (r_dp r) src" using assms(2) by (auto simp: filled_def)
  have D: "0 < D" using assms(1) by (simp add: match_at_def)
  have "match_at src (r_dp r) n D" using assms(1) match_at_add [of src "r_dp r" n "r_M r - n" D] by (simp add: n_def)
  moreover have n: "r_dp r + n \<le> length (r_dst r)" using dp(1) by (simp add: n_def)
  ultimately obtain d where d: "copy_within 1 (r_dst r) (r_dp r) D n = Inr d"
    "length d = length (r_dst r)" "take (r_dp r + n) d = take (r_dp r + n) src"
    using copy_within_text [of 1 D src "r_dp r" n "r_dst r"] dp(2) D by auto
  have f: "filled src d (r_dp r + n)" using d n by (simp add: filled_def)
  show ?thesis
  proof (cases "r_dp r + r_M r \<le> length (r_dst r)")
    case True
    then have "n = r_M r" by (simp add: n_def)
    then show ?thesis using True d(1,2) f
      by (simp add: executes_def careful_match_def Let_def same_regs_def n_def [symmetric])
  next
    case False
    then have "r_dp r + n = length (r_dst r)" "\<not> r_M r \<le> length (r_dst r) - r_dp r" using dp(1) by (auto simp: n_def)
    then show ?thesis using False d(1,2) f by (simp add: executes_def careful_match_def Let_def n_def [symmetric])
  qed
qed

lemma execute_match_executes:
  assumes "literals_at (bs_literals (ld_lzfse s)) (r_lit r) src (r_dp r) (r_L r)" and "match_at src (r_dp r + r_L r) (r_M r) D"
    and "r_D r = int D" and "D < 2 ^ 32" and "filled src (r_dst r) (r_dp r)" and "ld_dst_begin s = 0" and "ld_dst_end s = length (r_dst r)"
    and "r_lit r + r_L r + 8 \<le> length (bs_literals (ld_lzfse s))"
  shows "executes src r (r_dp r + r_L r + r_M r) (r_lit r + r_L r) (execute_match s r)"
proof -
  define L M N where "L = r_L r" and "M = r_M r" and "N = length (r_dst r)"
  let ?lits = "bs_literals (ld_lzfse s)"
  have D: "0 < D" "D \<le> r_dp r + L" using assms(2) by (auto simp: match_at_def L_def)
  have dp: "r_dp r \<le> N" using assms(5) by (simp add: filled_def N_def)
  have D32: "nat (r_D r mod 2 ^ 32) = D" using assms(3,4) by (simp add: zmod_int [symmetric])
  have "\<not> D > r_dp r + L - 0" "\<not> int D < 0" "nat (int D) = D" using D(2) by auto
  note conds = if_not_P [OF this(1)] if_not_P [OF this(2)] this(3)
  have start: "execute_match s r =
      (if int (L + M) \<le> int N - int (r_dp r) - 32 then
          rbind (copy_blocks 8 ?lits (r_lit r) (r_dst r) (r_dp r) (do_while_copy L)) (\<lambda>dst.
          rbind (fast_match dst (r_dp r + L) D M) (\<lambda>dst.
          Inr (Executed (r\<lparr>r_dst := dst, r_dp := r_dp r + L + M, r_lit := r_lit r + L\<rparr>))))
        else
          let remaining_bytes = N - r_dp r; n = min L remaining_bytes in
          rbind (copy_blocks 1 ?lits (r_lit r) (r_dst r) (r_dp r) n) (\<lambda>dst.
          let r' = r\<lparr>r_dst := dst, r_dp := r_dp r + n, r_lit := r_lit r + n, r_L := L - n\<rparr> in
          if L \<le> remaining_bytes then careful_match N D r' else Inr (Dst_Full r')))"
    unfolding execute_match_def Let_def L_def [symmetric] M_def [symmetric] assms(6) D32 unfolding assms(3,7) N_def [symmetric] conds ..
  show ?thesis
  proof (cases "int (L + M) \<le> int N - int (r_dp r) - 32")
    case True
    then have room: "r_dp r + L + M + 32 \<le> N" by linarith
    from fast_path [OF assms(1,2,5), folded L_def M_def N_def, OF room] assms(8) obtain d1 d2 where
      "copy_blocks 8 ?lits (r_lit r) (r_dst r) (r_dp r) (do_while_copy L) = Inr d1" "fast_match d1 (r_dp r + L) D M = Inr d2"
      "length d2 = N" "filled src d2 (r_dp r + L + M)" by (auto simp: L_def)
    then show ?thesis unfolding start using True room
      by (simp add: executes_def same_regs_def L_def [symmetric] M_def [symmetric] N_def [symmetric])
  next
    case False
    define n where "n = min L (N - r_dp r)"
    have n: "r_dp r + n \<le> N" "n \<le> L" using dp by (auto simp: n_def)
    have "literals_at ?lits (r_lit r) src (r_dp r) n" using assms(1) n(2) literals_at_le by (auto simp: L_def)
    from literals_filled [OF this assms(5), of 1] n assms(8) obtain d where d:
      "copy_blocks 1 ?lits (r_lit r) (r_dst r) (r_dp r) n = Inr d" "length d = N" "filled src d (r_dp r + n)" by (auto simp: L_def N_def)
    let ?r = "r\<lparr>r_dst := d, r_dp := r_dp r + n, r_lit := r_lit r + n, r_L := L - n\<rparr>"
    have start2: "execute_match s r = (if L \<le> N - r_dp r then careful_match N D ?r else Inr (Dst_Full ?r))"
      unfolding start if_not_P [OF False] Let_def n_def [symmetric] d(1) rbind_simps ..
    show ?thesis
    proof (cases "L \<le> N - r_dp r")
      case True
      then have "n = L" by (simp add: n_def)
      then have "executes src ?r (r_dp r + L + M) (r_lit r + L) (careful_match N D ?r)"
        using careful_match_executes [of src ?r D] d assms(2) by (simp add: L_def M_def)
      then show ?thesis unfolding start2 if_P [OF True] using d(2)
        by (auto simp: executes_def same_regs_def L_def [symmetric] M_def [symmetric] N_def [symmetric])
    next
      case 2: False
      then have "r_dp r + n = N" "\<not> r_dp r + L + M \<le> N" using dp by (auto simp: n_def)
      then show ?thesis unfolding start2 if_not_P [OF 2] using d
        by (simp add: executes_def L_def [symmetric] M_def [symmetric] N_def [symmetric])
    qed
  qed
qed

section \<open>The matches of a block\<close>

text \<open>
  \<open>follows src lits p i xs\<close>: from position \<open>p\<close> the text consists of the literals from index \<open>i\<close> and the
  matches of the triples; \<open>text_end\<close> and \<open>literal_end\<close> are where it stops.
\<close>

fun follows :: "string \<Rightarrow> string \<Rightarrow> nat \<Rightarrow> nat \<Rightarrow> lmd list \<Rightarrow> bool" where
  "follows src lits p i [] \<longleftrightarrow> True"
| "follows src lits p i ((L, M, D) # xs) \<longleftrightarrow>
     literals_at lits i src p L \<and> match_at src (p + L) M D \<and> D < 2 ^ 32 \<and> follows src lits (p + L + M) (i + L) xs"

fun text_end :: "nat \<Rightarrow> lmd list \<Rightarrow> nat" where
  "text_end p [] = p"
| "text_end p ((L, M, D) # xs) = text_end (p + L + M) xs"

fun literal_end :: "nat \<Rightarrow> lmd list \<Rightarrow> nat" where
  "literal_end i [] = i"
| "literal_end i ((L, M, D) # xs) = literal_end (i + L) xs"

lemma text_end_le: "p \<le> text_end p xs"
  by (induction p xs rule: text_end.induct) auto

lemma literal_end_le: "i \<le> literal_end i xs"
  by (induction i xs rule: literal_end.induct) auto

text \<open>The distances as they are stored: zero for a repeated one.\<close>

fun stored_lmds :: "nat \<Rightarrow> lmd list \<Rightarrow> lmd list" where
  "stored_lmds d_prev [] = []"
| "stored_lmds d_prev ((L, M, D) # xs) = (L, M, if D = d_prev then 0 else D) # stored_lmds D xs"

lemma stored_lmds_zip:
  "length ms = length ls \<Longrightarrow> length ds = length ls \<Longrightarrow> block_lmds ls ms (encode_d_prev d ds) = stored_lmds d (block_lmds ls ms ds)"
  unfolding block_lmds_def
proof (induction ls arbitrary: ms ds d)
  case (Cons l ls)
  then obtain m ms' e ds' where "ms = m # ms'" "ds = e # ds'" by (metis length_Suc_conv)
  with Cons show ?case by simp
qed simp

lemma length_stored_lmds [simp]: "length (stored_lmds d xs) = length xs"
  by (induction d xs rule: stored_lmds.induct) auto

definition lmd_tables :: "lzfse_decoder_state \<Rightarrow> lmd_freqs \<Rightarrow> bool" where
  "lmd_tables s fs \<longleftrightarrow> (case fs of (lf, mf, df) \<Rightarrow>
     bs_l_decoder (ld_lzfse s) = value_entries 64 (zip lf (zip l_extra_bits l_base_value)) \<and>
     bs_m_decoder (ld_lzfse s) = value_entries 64 (zip mf (zip m_extra_bits m_base_value)) \<and>
     bs_d_decoder (ld_lzfse s) = value_entries 256 (zip df (zip d_extra_bits d_base_value)))"

text \<open>The registers before the triples \<open>xs\<close> with the previous distance \<open>d\<close>.\<close>

definition lmd_ready :: "lzfse_decoder_state \<Rightarrow> lmd_freqs \<Rightarrow> nat \<Rightarrow> lmd list \<Rightarrow> lmd_regs \<Rightarrow> bool" where
  "lmd_ready s fs d xs r \<longleftrightarrow>
     list_all (lmd_codable fs) (stored_lmds d xs) \<and> r_D r = (if d = 0 then -1 else int d) \<and>
     (\<exists>J b st. code_lmds fs (stored_lmds d xs) = ((r_l_state r, r_m_state r, r_d_state r), st) \<and>
        in_stack (based J b st) (r_in r) (ld_src s) (r_src r) \<and> J < 2 ^ (8 * b) \<and> accum_nbits (r_in r) < 64 \<and>
        8 * ld_src_begin s + 63 \<le> 8 * b \<and> r_src r + 8 \<le> length (ld_src s))"

lemma lmd_ready_next:
  assumes "lmd_ready s (lf, mf, df) d ((L, M, D) # xs) r" and "lmd_tables s (lf, mf, df)" and "0 < D" and "r_lit r + L < 40064"
  shows "\<exists>r'. decode_symbols s r = Inr (Some r') \<and> lmd_ready s (lf, mf, df) D xs (r'\<lparr>r_symbols := n\<rparr>) \<and>
    r_L r' = L \<and> r_M r' = M \<and> r_D r' = int D \<and> r_dst r' = r_dst r \<and> r_dp r' = r_dp r \<and> r_lit r' = r_lit r"
proof -
  define d' where "d' = (if D = d then 0 else D)"
  obtain J b st where st: "code_lmds (lf, mf, df) ((L, M, d') # stored_lmds D xs) = ((r_l_state r, r_m_state r, r_d_state r), st)"
    "in_stack (based J b st) (r_in r) (ld_src s) (r_src r)" "J < 2 ^ (8 * b)" "accum_nbits (r_in r) < 64"
    "8 * ld_src_begin s + 63 \<le> 8 * b" "r_src r + 8 \<le> length (ld_src s)"
    using assms(1) by (auto simp: lmd_ready_def d'_def)
  have cod: "list_all (lmd_codable (lf, mf, df)) ((L, M, d') # stored_lmds D xs)" and rD: "r_D r = (if d = 0 then -1 else int d)"
    using assms(1) by (auto simp: lmd_ready_def d'_def)
  have t: "bs_l_decoder (ld_lzfse s) = value_entries 64 (zip lf (zip l_extra_bits l_base_value))"
    "bs_m_decoder (ld_lzfse s) = value_entries 64 (zip mf (zip m_extra_bits m_base_value))"
    "bs_d_decoder (ld_lzfse s) = value_entries 256 (zip df (zip d_extra_bits d_base_value))"
    using assms(2) by (auto simp: lmd_tables_def)
  from decode_symbols_ok [OF cod st(1) t st(2-6) assms(4)] obtain inp p states st' where dec:
    "code_lmds (lf, mf, df) (stored_lmds D xs) = (states, st')" "in_stack (based J b st') inp (ld_src s) p" "accum_nbits inp < 64"
    "p + 8 \<le> length (ld_src s)"
    "decode_symbols s r = Inr (Some (r\<lparr>r_in := inp, r_src := p, r_l_state := fst states, r_m_state := fst (snd states),
      r_d_state := snd (snd states), r_L := L, r_M := M, r_D := (if d' \<noteq> 0 then int d' else r_D r)\<rparr>))" by blast
  have new_d: "(if d' \<noteq> 0 then int d' else r_D r) = int D" using assms(3) rD by (auto simp: d'_def)
  show ?thesis using dec(1-4) cod st(3,5) assms(3) unfolding dec(5) new_d by (auto simp: lmd_ready_def)
qed

lemma lmd_ready_same: "lmd_ready s fs d xs r \<Longrightarrow> same_regs r r' \<Longrightarrow> lmd_ready s fs d xs r'"
  by (simp add: lmd_ready_def same_regs_def)

text \<open>What a loop over the rest of a block does.\<close>

definition replays :: "string \<Rightarrow> nat \<Rightarrow> nat \<Rightarrow> (lzfse_status \<times> lmd_regs) result \<Rightarrow> bool" where
  "replays src N q X \<longleftrightarrow>
     (if q \<le> N then \<exists>r'. X = Inr (LZFSE_STATUS_OK, r') \<and> length (r_dst r') = N \<and> r_dp r' = q \<and> filled src (r_dst r') q
      else \<exists>r'. X = Inr (LZFSE_STATUS_DST_FULL, r') \<and> length (r_dst r') = N \<and> filled src (r_dst r') N)"

lemma lmd_loop_replays:
  assumes "lmd_ready s fs d xs r" and "lmd_tables s fs" and "follows src (bs_literals (ld_lzfse s)) (r_dp r) (r_lit r) xs"
    and "filled src (r_dst r) (r_dp r)" and "ld_dst_begin s = 0" and "ld_dst_end s = N" and "length (r_dst r) = N"
    and "literal_end (r_lit r) xs \<le> 40000" and "length (bs_literals (ld_lzfse s)) = 40064"
  shows "replays src N (text_end (r_dp r) xs) (lmd_loop (length xs) s r)"
  using assms
proof (induction xs arbitrary: d r)
  case Nil
  then show ?case by (simp add: replays_def filled_def)
next
  case (Cons x xs)
  obtain lf mf df where fs: "fs = (lf, mf, df)" by (metis prod_cases3)
  obtain L M D where x: "x = (L, M, D)" by (metis prod_cases3)
  have f: "literals_at (bs_literals (ld_lzfse s)) (r_lit r) src (r_dp r) L" "match_at src (r_dp r + L) M D" "D < 2 ^ 32"
    "follows src (bs_literals (ld_lzfse s)) (r_dp r + L + M) (r_lit r + L) xs" using Cons.prems(3) by (auto simp: x)
  have le: "r_lit r + L \<le> 40000" "literal_end (r_lit r + L) xs \<le> 40000" using Cons.prems(8) literal_end_le [of "r_lit r + L" xs] by (simp_all add: x)
  have "0 < D" using f(2) by (simp add: match_at_def)
  from lmd_ready_next [OF Cons.prems(1) [unfolded fs x] Cons.prems(2) [unfolded fs] this, of "length xs"] le obtain r1 where r1:
    "decode_symbols s r = Inr (Some r1)" "lmd_ready s fs D xs (r1\<lparr>r_symbols := length xs\<rparr>)" "r_L r1 = L" "r_M r1 = M" "r_D r1 = int D"
    "r_dst r1 = r_dst r" "r_dp r1 = r_dp r" "r_lit r1 = r_lit r" by (auto simp: fs)
  let ?r1 = "r1\<lparr>r_symbols := length xs\<rparr>"
  have "executes src ?r1 (r_dp r + L + M) (r_lit r + L) (execute_match s ?r1)"
    using execute_match_executes [of s ?r1 src D] f r1 Cons.prems(4-7,9) le by simp
  then have ex: "if r_dp r + L + M \<le> N
      then \<exists>r'. execute_match s ?r1 = Inr (Executed r') \<and> same_regs ?r1 r' \<and> length (r_dst r') = N \<and> r_dp r' = r_dp r + L + M \<and>
        filled src (r_dst r') (r_dp r + L + M) \<and> r_lit r' = r_lit r + L
      else \<exists>r'. execute_match s ?r1 = Inr (Dst_Full r') \<and> length (r_dst r') = N \<and> filled src (r_dst r') N"
    using r1(6) Cons.prems(7) by (simp add: executes_def cong: if_cong)
  have le_end: "r_dp r + L + M \<le> text_end (r_dp r + L + M) xs" by (rule text_end_le)
  show ?case
  proof (cases "r_dp r + L + M \<le> N")
    case True
    with ex obtain r2 where r2: "execute_match s ?r1 = Inr (Executed r2)" "same_regs ?r1 r2" "length (r_dst r2) = N" "r_dp r2 = r_dp r + L + M"
      "filled src (r_dst r2) (r_dp r2)" "r_lit r2 = r_lit r + L" by auto
    have "replays src N (text_end (r_dp r2) xs) (lmd_loop (length xs) s r2)"
      by (rule Cons.IH [OF lmd_ready_same [OF r1(2) r2(2)] Cons.prems(2) _ r2(5) Cons.prems(5,6) r2(3)])
        (use f(4) r2 le(2) Cons.prems(9) in simp_all)
    then show ?thesis using r1(1) r2(1,4) by (simp add: x)
  next
    case False
    with ex obtain r2 where "execute_match s ?r1 = Inr (Dst_Full r2)" "length (r_dst r2) = N" "filled src (r_dst r2) N" by auto
    then show ?thesis using r1(1) False le_end by (simp add: x replays_def)
  qed
qed

section \<open>Setting up a block\<close>

lemma payload_based:
  assumes "payload st n A" and "bytes_at src b A" and "stack_ok st" and "J = of_le_bytes (take b src)"
  shows "J < 2 ^ (8 * b)" and "int (snd (based J b st)) = 8 * int (b + length A) + n"
    and "fst (based J b st) = of_le_bytes (take (b + length A) src)" and "stack_ok (based J b st)"
proof -
  have len: "b + length A \<le> length src" "take (length A) (drop b src) = A" using assms(2) by (auto simp: bytes_at_def)
  have "take (b + length A) src = take b src @ A" using len by (simp add: take_add)
  then have "of_le_bytes (take (b + length A) src) = J + 2 ^ (8 * b) * of_le_bytes A"
    using len(1) assms(4) by (simp add: of_le_bytes_append power_256)
  then show 1: "fst (based J b st) = of_le_bytes (take (b + length A) src)"
    using assms(1) by (cases st) (simp add: based_def payload_def mult.commute)
  show J: "J < 2 ^ (8 * b)" using of_le_bytes_less [of "take b src"] len(1) assms(4) by (simp add: power_256)
  show "int (snd (based J b st)) = 8 * int (b + length A) + n" using assms(1) by (simp add: based_def payload_def)
  show "stack_ok (based J b st)"
    using add_shift_less [OF J, of "fst st" "snd st"] assms(3) by (cases st) (simp add: based_def stack_ok_def)
qed

lemma payload_in_init:
  assumes "payload st n A" and "bytes_at src b A" and "stack_ok st" and "- 7 \<le> n" and "n \<le> 0" and "buf_start + 8 \<le> b + length A"
  shows "\<exists>inp p. fse_in_init n src (b + length A) buf_start = Inr (Some (inp, p)) \<and>
    in_stack (based (of_le_bytes (take b src)) b st) inp src p \<and> accum_nbits inp < 64 \<and> p + 7 \<le> b + length A \<and> buf_start \<le> p"
  using fse_in_init [OF _ assms(6) payload_based(2) [OF assms(1-3) refl] assms(4,5) payload_based(3,4) [OF assms(1-3) refl]] assms(2)
  by (simp add: bytes_at_def)

lemma group_chars_at: "group_chars (group_at lits i) = [lits ! (4 * i), lits ! (4 * i + 1), lits ! (4 * i + 2), lits ! (4 * i + 3)]"
  by (simp add: group_chars_def group_at_def literal_char_def byte_value_def)

lemma group_chars_groups: "length lits = 4 * n \<Longrightarrow> concat (map group_chars (map (group_at lits) [0..<n])) = lits"
proof (induction n arbitrary: lits)
  case (Suc n)
  then obtain a b c d ys where l: "lits = a # b # c # d # ys" "length ys = 4 * n" by (auto simp: length_Suc_conv numeral_eq_Suc)
  have "map (group_at lits) [0..<Suc n] = group_at lits 0 # map (\<lambda>i. group_at lits (Suc i)) [0..<n]"
    by (simp add: upt_conv_Cons map_Suc_upt [symmetric] del: upt_Suc)
  moreover have "group_at lits (Suc i) = group_at ys i" for i by (simp add: group_at_def l(1) numeral_eq_Suc)
  ultimately show ?case using Suc.IH [OF l(2)] by (simp add: group_chars_at l(1) del: upt_Suc)
qed simp

lemma literal_groups_chars: "length lits mod 4 = 0 \<Longrightarrow> concat (map group_chars (literal_groups lits)) = lits"
  unfolding literal_groups_def by (rule group_chars_groups) presburger

lemma literal_table: "freq_table 10 f \<Longrightarrow> \<exists>t. fse_init_decoder_table 1024 f = Inr (Some t) \<and> decoder_entries 1024 0 0 f = Some t \<and> length t = 1024"
  using decoder_entries_nth [of 0 f 1024 0]
  by (auto simp: fse_init_decoder_table_def freq_table_def fse_check_freq_def assert_that_def)

lemma value_table:
  "freq_table q f \<Longrightarrow> length vbits = length f \<Longrightarrow> length vbase = length f \<Longrightarrow>
   fse_init_value_decoder_table (2 ^ q) f vbits vbase = Inr (value_entries (2 ^ q) (zip f (zip vbits vbase))) \<and>
   length (value_entries (2 ^ q) (zip f (zip vbits vbase))) = 2 ^ q"
  using value_entries_nth [of vbits f vbase "2 ^ q"]
  by (simp add: fse_init_value_decoder_table_def freq_table_def fse_check_freq_def assert_that_def)

text \<open>The sizes of the arrays of the decoder state.\<close>

definition arrays_ok :: "lzfse_block_state \<Rightarrow> bool" where
  "arrays_ok bs \<longleftrightarrow> length (bs_l_decoder bs) = 64 \<and> length (bs_m_decoder bs) = 64 \<and> length (bs_d_decoder bs) = 256 \<and>
     length (bs_literal_decoder bs) = 1024 \<and> length (bs_literals bs) = 40064"

lemma setup_tables_ok:
  assumes "tables_for h lits lmds" and "arrays_ok bs"
  shows "\<exists>bs' t. setup_tables bs (decoded_header h) = Inr bs' \<and> arrays_ok bs' \<and> bs_literals bs' = bs_literals bs \<and>
    bs_n_lmd_payload_bytes bs' = h1_n_lmd_payload_bytes h \<and> bs_n_matches bs' = h1_n_matches h \<and>
    decoder_entries 1024 0 0 (h1_literal_freq h) = Some t \<and> bs_literal_decoder bs' = t \<and>
    bs_l_decoder bs' = value_entries 64 (zip (h1_l_freq h) (zip l_extra_bits l_base_value)) \<and>
    bs_m_decoder bs' = value_entries 64 (zip (h1_m_freq h) (zip m_extra_bits m_base_value)) \<and>
    bs_d_decoder bs' = value_entries 256 (zip (h1_d_freq h) (zip d_extra_bits d_base_value))"
proof -
  have ft: "freq_table 10 (h1_literal_freq h)" "freq_table 6 (h1_l_freq h)" "freq_table 6 (h1_m_freq h)" "freq_table 8 (h1_d_freq h)"
    "length (h1_l_freq h) = 20" "length (h1_m_freq h) = 20" "length (h1_d_freq h) = 64"
    using assms(1) by (auto simp: tables_for_def freqs_ok_def)
  obtain t where t: "fse_init_decoder_table 1024 (h1_literal_freq h) = Inr (Some t)" "decoder_entries 1024 0 0 (h1_literal_freq h) = Some t" "length t = 1024"
    using literal_table [OF ft(1)] by auto
  have v: "fse_init_value_decoder_table 64 (h1_l_freq h) l_extra_bits l_base_value = Inr (value_entries 64 (zip (h1_l_freq h) (zip l_extra_bits l_base_value)))"
    "length (value_entries 64 (zip (h1_l_freq h) (zip l_extra_bits l_base_value))) = 64"
    "fse_init_value_decoder_table 64 (h1_m_freq h) m_extra_bits m_base_value = Inr (value_entries 64 (zip (h1_m_freq h) (zip m_extra_bits m_base_value)))"
    "length (value_entries 64 (zip (h1_m_freq h) (zip m_extra_bits m_base_value))) = 64"
    "fse_init_value_decoder_table 256 (h1_d_freq h) d_extra_bits d_base_value = Inr (value_entries 256 (zip (h1_d_freq h) (zip d_extra_bits d_base_value)))"
    "length (value_entries 256 (zip (h1_d_freq h) (zip d_extra_bits d_base_value))) = 256"
    using value_table [OF ft(2), of l_extra_bits l_base_value] value_table [OF ft(3), of m_extra_bits m_base_value]
      value_table [OF ft(4), of d_extra_bits d_base_value] ft(5-7) by (simp_all add: extra_lengths)
  show ?thesis using t v assms(2) by (auto simp: setup_tables_def decoded_header_def fill_table_def arrays_ok_def)
qed

text \<open>The parts of the decoder state that no block changes.\<close>

definition same_ends :: "lzfse_decoder_state \<Rightarrow> lzfse_decoder_state \<Rightarrow> bool" where
  "same_ends s s' \<longleftrightarrow> ld_src s' = ld_src s \<and> ld_src_begin s' = ld_src_begin s \<and> ld_src_end s' = ld_src_end s \<and>
     ld_dst_begin s' = ld_dst_begin s \<and> ld_dst_end s' = ld_dst_end s"

text \<open>A state that has read the header and the literals of a block.\<close>

definition block_ready :: "lzfse_decoder_state \<Rightarrow> lzfse_header_v1 \<Rightarrow> string \<Rightarrow> lmd list \<Rightarrow> lzfse_decoder_state \<Rightarrow> bool" where
  "block_ready s h lits xs s' \<longleftrightarrow>
     same_ends s s' \<and> ld_dst s' = ld_dst s \<and> ld_dp s' = ld_dp s \<and> ld_block_magic s' = LZFSE_COMPRESSEDV2_BLOCK_MAGIC \<and>
     ld_sp s' = ld_sp s + (32 + freq_size h) + h1_n_literal_payload_bytes h \<and> arrays_ok (ld_lzfse s') \<and>
     lmd_tables s' (h1_l_freq h, h1_m_freq h, h1_d_freq h) \<and> take (length lits) (bs_literals (ld_lzfse s')) = lits \<and>
     bs_n_lmd_payload_bytes (ld_lzfse s') = h1_n_lmd_payload_bytes h \<and> bs_n_matches (ld_lzfse s') = length xs \<and>
     bs_current_literal (ld_lzfse s') = 0 \<and> bs_l_value (ld_lzfse s') = 0 \<and> bs_m_value (ld_lzfse s') = 0 \<and>
     lmd_ready s' (h1_l_freq h, h1_m_freq h, h1_d_freq h) 0 xs (lmd_registers s')"

lemma setup_block_ready:
  assumes blk: "block_of h lits (stored_lmds 0 xs) blk" "bytes_at (ld_src s) (ld_sp s) blk" "ld_sp s + length blk < length (ld_src s)"
    and lits: "length lits mod 4 = 0" "length lits \<le> 40000" and s: "arrays_ok (ld_lzfse s)" "ld_src_begin s = 0"
  shows "\<exists>s'. setup_block s LZFSE_COMPRESSEDV2_BLOCK_MAGIC (32 + freq_size h) (decoded_header h) = Inr (Next s') \<and> block_ready s h lits xs s'"
proof -
  let ?src = "ld_src s" and ?litf = "h1_literal_freq h" and ?fs = "(h1_l_freq h, h1_m_freq h, h1_d_freq h)"
  obtain A B s0 s1 s2 s3 st st' where b: "blk = header_bytes h @ A @ le_bytes 8 0 @ B"
    "h1_n_literal_payload_bytes h = length A" "h1_n_lmd_payload_bytes h = 8 + length B"
    "code_groups ?litf (literal_groups lits) = ((s0, s1, s2, s3), st)" "h1_literal_state h = [s0, s1, s2, s3]" "payload st (h1_literal_bits h) A"
    "code_lmds ?fs (stored_lmds 0 xs) = ((h1_l_state h, h1_m_state h, h1_d_state h), st')" "payload st' (h1_lmd_bits h) B"
    using blk(1) by (auto simp: block_of_def)
  have hf: "header_fields h" and tf: "tables_for h lits (stored_lmds 0 xs)" and hn: "h1_n_literals h = length lits" "h1_n_matches h = length xs"
    using blk(1) by (auto simp: block_of_def)
  have cod: "list_all (group_codable ?litf) (literal_groups lits)" "list_all (lmd_codable ?fs) (stored_lmds 0 xs)" "freqs_ok h"
    using tf by (auto simp: tables_for_def)
  define b0 b1 where "b0 = ld_sp s + (32 + freq_size h)" and "b1 = b0 + length A"
  have at: "bytes_at ?src b0 A" "bytes_at ?src (b1 + 8) B"
    using blk(2) by (simp_all add: b(1) bytes_at_append length_header_bytes b0_def b1_def add.assoc)
  have len: "b1 + 8 + length B < length ?src" using blk(3) by (simp add: b(1) length_header_bytes b0_def b1_def)
  have ok: "groups_ok ((s0, s1, s2, s3), st)" "lmds_ok ((h1_l_state h, h1_m_state h, h1_d_state h), st')"
    using code_groups_ok [OF cod(1)] code_lmds_ok [OF cod(2)] b(4,7) by auto
  have so: "stack_ok st" "stack_ok st'" using ok by (auto simp: groups_ok_def lmds_ok_def)
  have bits: "- 7 \<le> h1_literal_bits h" "h1_literal_bits h \<le> 0" "- 7 \<le> h1_lmd_bits h" "h1_lmd_bits h \<le> 0" "length B < 2 ^ 20"
    using hf b(3) by (auto simp: header_fields_def)
  obtain bs t where bs: "setup_tables (ld_lzfse s) (decoded_header h) = Inr bs" "arrays_ok bs" "bs_literals bs = bs_literals (ld_lzfse s)"
    "bs_n_lmd_payload_bytes bs = h1_n_lmd_payload_bytes h" "bs_n_matches bs = h1_n_matches h"
    "decoder_entries 1024 0 0 ?litf = Some t" "bs_literal_decoder bs = t"
    "bs_l_decoder bs = value_entries 64 (zip (h1_l_freq h) (zip l_extra_bits l_base_value))"
    "bs_m_decoder bs = value_entries 64 (zip (h1_m_freq h) (zip m_extra_bits m_base_value))"
    "bs_d_decoder bs = value_entries 256 (zip (h1_d_freq h) (zip d_extra_bits d_base_value))"
    using setup_tables_ok [OF tf s(1)] by blast
  obtain inp p where i1: "fse_in_init (h1_literal_bits h) ?src b1 0 = Inr (Some (inp, p))"
    "in_stack (based (of_le_bytes (take b0 ?src)) b0 st) inp ?src p" "accum_nbits inp < 64" "p + 7 \<le> b1"
    using payload_in_init [OF b(6) at(1) so(1) bits(1,2), of 0] by (auto simp: b1_def b0_def)
  have p8: "p + 8 \<le> length ?src" "8 * 0 + 63 \<le> 8 * b0" using i1(4) len by (auto simp: b0_def)
  have gl: "length (literal_groups lits) = (length lits + 3) div 4" "4 * length (literal_groups lits) = length lits"
    using lits(1) by (auto simp: literal_groups_def)
  have "0 + 4 * length (literal_groups lits) \<le> length (bs_literals bs)" using bs(2) gl(2) lits(2) by (simp add: arrays_ok_def)
  from decode_literals_ok [OF cod(1) b(4) bs(6) i1(2) payload_based(1) [OF b(6) at(1) so(1) refl] i1(3) p8(2,1) this]
  have lit: "decode_literals ((length lits + 3) div 4) t ?src 0 0 (s0, s1, s2, s3) inp p (bs_literals bs) =
      Inr (Some (lits @ drop (length lits) (bs_literals bs)))"
    unfolding add_0 gl(2) literal_groups_chars [OF lits(1)] unfolding gl(1) by simp
  obtain inp' q where i2: "fse_in_init (h1_lmd_bits h) ?src (b1 + (8 + length B)) b1 = Inr (Some (inp', q))"
    "in_stack (based (of_le_bytes (take (b1 + 8) ?src)) (b1 + 8) st') inp' ?src q" "accum_nbits inp' < 64" "q + 7 \<le> b1 + 8 + length B" "b1 \<le> q"
    using payload_in_init [OF b(8) at(2) so(2) bits(3,4), of b1] by (auto simp: add.assoc)
  have q: "(q - b1) mod 2 ^ 32 = q - b1" using i2(4) bits(5) by (intro mod_less) simp
  define s' where "s' = s\<lparr>ld_sp := b1, ld_block_magic := LZFSE_COMPRESSEDV2_BLOCK_MAGIC,
       ld_lzfse := bs\<lparr>bs_literals := lits @ drop (length lits) (bs_literals bs), bs_current_literal := 0, bs_l_state := h1_l_state h,
         bs_m_state := h1_m_state h, bs_d_state := h1_d_state h, bs_lmd_in_buf := q - b1, bs_l_value := 0, bs_m_value := 0,
         bs_d_value := -1, bs_lmd_in_stream := inp'\<rparr>\<rparr>"
  have "setup_block s LZFSE_COMPRESSEDV2_BLOCK_MAGIC (32 + freq_size h) (decoded_header h) = Inr (Next s')"
    using bs(1,7) i1(1) i2(1) lit b(2,3,5) hn s(2) q
    by (simp add: setup_block_def decoded_header_def Let_def s'_def b0_def [symmetric] b1_def [symmetric])
  moreover have "lmd_ready s' ?fs 0 xs (lmd_registers s')"
    using cod(2) b(7) i2(2-5) payload_based(1) [OF b(8) at(2) so(2) refl] len s(2)
    unfolding lmd_ready_def
    by (intro conjI exI [of _ "of_le_bytes (take (b1 + 8) ?src)"] exI [of _ "b1 + 8"] exI [of _ st']) (simp_all add: lmd_registers_def s'_def)
  ultimately show ?thesis
    using bs lits(2) hn b(2) by (auto simp: block_ready_def same_ends_def s'_def arrays_ok_def lmd_tables_def b0_def b1_def)
qed

section \<open>Blocks of a stream\<close>

lemma literals_at_prefix: "literals_at lits i src p n \<Longrightarrow> take (length lits) big = lits \<Longrightarrow> literals_at big i src p n"
proof -
  assume a: "literals_at lits i src p n" "take (length lits) big = lits"
  have "take n (drop i (take (length lits) big)) = take n (drop i big)" using a(1) by (auto simp: literals_at_def drop_take min_def)
  moreover have "length lits \<le> length big" using arg_cong [OF a(2), of length] by simp
  ultimately show ?thesis using a by (auto simp: literals_at_def)
qed

lemma follows_prefix: "follows src lits p i xs \<Longrightarrow> take (length lits) big = lits \<Longrightarrow> follows src big p i xs"
  by (induction src lits p i xs rule: follows.induct) (auto intro: literals_at_prefix)

text \<open>The decoder between two blocks, with the first \<open>p\<close> bytes of the text written.\<close>

definition at_block :: "lzfse_decoder_state \<Rightarrow> string \<Rightarrow> nat \<Rightarrow> bool" where
  "at_block s src p \<longleftrightarrow> ld_block_magic s = LZFSE_NO_BLOCK_MAGIC \<and> ld_src_begin s = 0 \<and> ld_src_end s = length (ld_src s) \<and>
     ld_dst_begin s = 0 \<and> ld_dst_end s = length (ld_dst s) \<and> ld_dp s = p \<and> filled src (ld_dst s) p \<and> arrays_ok (ld_lzfse s)"

lemma begin_block_ready:
  assumes blk: "block_of h lits (stored_lmds 0 xs) blk" "bytes_at (ld_src s) (ld_sp s) blk" "ld_sp s + length blk < length (ld_src s)"
    and lits: "length lits mod 4 = 0" "length lits \<le> 40000" "length xs \<le> 10000" and s: "at_block s src p"
  shows "\<exists>s'. lzfse_decode_step s = Inr (Next s') \<and> block_ready s h lits xs s'"
proof -
  have hf: "header_fields h" and tf: "tables_for h lits (stored_lmds 0 xs)" and hn: "h1_n_literals h = length lits" "h1_n_matches h = length xs"
    and len: "length blk = 32 + freq_size h + h1_n_literal_payload_bytes h + h1_n_lmd_payload_bytes h"
    and at: "bytes_at (ld_src s) (ld_sp s) (header_bytes h)"
    using blk(1,2) by (auto simp: block_of_def length_header_bytes bytes_at_append)
  have fo: "freqs_ok h" using tf by (simp add: tables_for_def)
  have sa: "arrays_ok (ld_lzfse s)" "ld_src_begin s = 0" "ld_src_end s = length (ld_src s)" "ld_block_magic s = 0"
    using s by (auto simp: at_block_def LZFSE_NO_BLOCK_MAGIC_def)
  have ck: "lzfse_check_block_header_v1 (decoded_header h)"
    using hf tf hn lits(2,3)
    by (auto simp: lzfse_check_block_header_v1_def decoded_header_def header_fields_def tables_for_def freq_table_def fse_check_freq_def)
  from setup_block_ready [OF blk lits(1,2) sa(1,2)] obtain s' where
    s': "setup_block s LZFSE_COMPRESSEDV2_BLOCK_MAGIC (32 + freq_size h) (decoded_header h) = Inr (Next s')" "block_ready s h lits xs s'" by blast
  have le: "\<not> ld_sp s + 4 > ld_src_end s" "\<not> ld_sp s + 32 > ld_src_end s" "\<not> ld_sp s + (32 + freq_size h) > ld_src_end s"
    "\<not> ld_sp s + (32 + freq_size h) + h1_n_literal_payload_bytes h + h1_n_lmd_payload_bytes h > ld_src_end s"
    using blk(3) len sa(3) by auto
  have "begin_compressed s LZFSE_COMPRESSEDV2_BLOCK_MAGIC (32 + freq_size h) (decoded_header h) = Inr (Next s')"
    unfolding begin_compressed_def using le(4) ck s'(1) by (simp add: decoded_header_def)
  then have "begin_v2 s = Inr (Next s')"
    unfolding begin_v2_def if_not_P [OF le(2)] decode_header(1) [OF hf fo at] rbind_simps if_not_P [OF le(3)] decode_header(2) [OF hf fo at] by simp
  then have "begin_block s = Inr (Next s')"
    unfolding begin_block_def if_not_P [OF le(1)] header_loads(1) [OF hf fo at] rbind_simps by (simp add: magic_defs)
  then show ?thesis using s'(2) sa(4) by (simp add: lzfse_decode_step_def LZFSE_NO_BLOCK_MAGIC_def)
qed

text \<open>A block that fits leads to the next one; one that does not fills the destination.\<close>

definition advances :: "string \<Rightarrow> lzfse_decoder_state \<Rightarrow> nat \<Rightarrow> nat \<Rightarrow> bool" where
  "advances src s n q \<longleftrightarrow>
     (if q \<le> length (ld_dst s)
      then \<exists>s'. lzfse_decode s = lzfse_decode s' \<and> at_block s' src q \<and> ld_sp s' = ld_sp s + n \<and> ld_src s' = ld_src s \<and> length (ld_dst s') = length (ld_dst s)
      else \<exists>s'. lzfse_decode s = Inr (LZFSE_STATUS_DST_FULL, s') \<and> length (ld_dst s') = length (ld_dst s) \<and> filled src (ld_dst s') (length (ld_dst s)))"

lemma lmd_ready_states: "lmd_ready s fs d xs r \<Longrightarrow> r_l_state r < 64 \<and> r_m_state r < 64 \<and> r_d_state r < 256"
  using code_lmds_ok [of fs "stored_lmds d xs"] by (auto simp: lmd_ready_def lmds_ok_def)

lemma block_ready_advances:
  assumes s: "at_block s src p" and r: "block_ready s h lits xs s'" and f: "follows src lits p 0 xs"
    and n: "literal_end 0 xs \<le> length lits" "length lits \<le> 40000" and len: "ld_sp s' + h1_n_lmd_payload_bytes h < length (ld_src s)"
  shows "if text_end p xs \<le> length (ld_dst s)
    then \<exists>s2. lzfse_decode_step s' = Inr (Next s2) \<and> at_block s2 src (text_end p xs) \<and> ld_sp s2 = ld_sp s' + h1_n_lmd_payload_bytes h \<and>
      ld_src s2 = ld_src s \<and> length (ld_dst s2) = length (ld_dst s)
    else \<exists>s2. lzfse_decode_step s' = Inr (Finished LZFSE_STATUS_DST_FULL s2) \<and> length (ld_dst s2) = length (ld_dst s) \<and>
      filled src (ld_dst s2) (length (ld_dst s))"
proof -
  let ?r = "lmd_registers s'" and ?fs = "(h1_l_freq h, h1_m_freq h, h1_d_freq h)" and ?N = "length (ld_dst s)"
  have sb: "ld_src_begin s = 0" "ld_src_end s = length (ld_src s)" "ld_dst_begin s = 0" "ld_dst_end s = ?N" "ld_dp s = p" "filled src (ld_dst s) p"
    using s by (auto simp: at_block_def)
  have rb: "same_ends s s'" "ld_dst s' = ld_dst s" "ld_dp s' = ld_dp s" "ld_block_magic s' = LZFSE_COMPRESSEDV2_BLOCK_MAGIC" "arrays_ok (ld_lzfse s')"
    "lmd_tables s' ?fs" "take (length lits) (bs_literals (ld_lzfse s')) = lits" "bs_n_lmd_payload_bytes (ld_lzfse s') = h1_n_lmd_payload_bytes h"
    "lmd_ready s' ?fs 0 xs ?r" using r by (auto simp: block_ready_def)
  have reg: "r_dst ?r = ld_dst s" "r_dp ?r = p" "r_lit ?r = 0" "r_symbols ?r = length xs" "r_L ?r = 0" "r_M ?r = 0"
    using r sb by (auto simp: block_ready_def lmd_registers_def Let_def)
  have ends: "ld_src s' = ld_src s" "ld_src_begin s' = 0" "ld_src_end s' = length (ld_src s)" "ld_dst_begin s' = 0" "ld_dst_end s' = ?N"
    using rb(1) sb by (auto simp: same_ends_def)
  have "replays src ?N (text_end (r_dp ?r) xs) (lmd_loop (length xs) s' ?r)"
    by (rule lmd_loop_replays [OF rb(9,6)])
      (use follows_prefix [OF f rb(7)] sb(6) reg ends n rb(5) in \<open>simp_all add: arrays_ok_def\<close>)
  then have rep: "replays src ?N (text_end p xs) (run_lmd s' ?r)" using reg by (simp add: run_lmd_def)
  have dl: "lzfse_decode_lmd s' = rbind (run_lmd s' ?r) (\<lambda>(status, r). Inr (status, finish_lmd s' status r))"
    using lmd_ready_states [OF rb(9)] by (simp add: lzfse_decode_lmd_def Let_def assert_that_def)
  have "\<not> (ld_src_end s' \<le> ld_sp s' \<or> bs_n_lmd_payload_bytes (ld_lzfse s') > ld_src_end s' - ld_sp s')" using len ends rb(8) by auto
  then have step: "lzfse_decode_step s' = rbind (lzfse_decode_lmd s') (\<lambda>(status, s).
        Inr (if status \<noteq> LZFSE_STATUS_OK then Finished status s
             else Next (s\<lparr>ld_block_magic := LZFSE_NO_BLOCK_MAGIC, ld_sp := ld_sp s + bs_n_lmd_payload_bytes (ld_lzfse s)\<rparr>)))"
    using rb(4) by (simp add: lzfse_decode_step_def lzfse_block_def magic_defs)
  show ?thesis
  proof (cases "text_end p xs \<le> ?N")
    case True
    with rep obtain r' where "run_lmd s' ?r = Inr (LZFSE_STATUS_OK, r')" "length (r_dst r') = ?N" "r_dp r' = text_end p xs"
      "filled src (r_dst r') (text_end p xs)" by (auto simp: replays_def)
    then show ?thesis using True ends rb(5,8) unfolding step dl by (simp add: finish_lmd_def at_block_def magic_defs)
  next
    case False
    with rep obtain r' where "run_lmd s' ?r = Inr (LZFSE_STATUS_DST_FULL, r')" "length (r_dst r') = ?N" "filled src (r_dst r') ?N"
      by (auto simp: replays_def)
    then show ?thesis using False unfolding step dl by (simp add: finish_lmd_def store_registers_def)
  qed
qed

lemma block_advances:
  assumes blk: "block_of h lits (stored_lmds 0 xs) blk" "bytes_at (ld_src s) (ld_sp s) blk" "ld_sp s + length blk < length (ld_src s)"
    and lits: "length lits mod 4 = 0" "length lits \<le> 40000" "length xs \<le> 10000" and s: "at_block s src p"
    and f: "follows src lits p 0 xs" "literal_end 0 xs \<le> length lits"
  shows "advances src s (length blk) (text_end p xs)"
proof -
  from begin_block_ready [OF assms(1-7)] obtain s' where s': "lzfse_decode_step s = Inr (Next s')" "block_ready s h lits xs s'" by blast
  have len: "length blk = 32 + freq_size h + h1_n_literal_payload_bytes h + h1_n_lmd_payload_bytes h"
    using blk(1) by (auto simp: block_of_def length_header_bytes)
  have sp: "ld_sp s' = ld_sp s + (32 + freq_size h) + h1_n_literal_payload_bytes h" using s'(2) by (simp add: block_ready_def)
  have "ld_sp s' + h1_n_lmd_payload_bytes h < length (ld_src s)" using sp len blk(3) by simp
  note adv = block_ready_advances [OF s s'(2) f lits(2) this]
  show ?thesis
  proof (cases "text_end p xs \<le> length (ld_dst s)")
    case True
    with adv obtain s2 where s2: "lzfse_decode_step s' = Inr (Next s2)" "at_block s2 src (text_end p xs)"
      "ld_sp s2 = ld_sp s' + h1_n_lmd_payload_bytes h" "ld_src s2 = ld_src s" "length (ld_dst s2) = length (ld_dst s)" by auto
    then show ?thesis using True decode_next [OF s'(1)] decode_next [OF s2(1)] sp len
      by (auto simp: advances_def intro!: exI [of _ s2])
  next
    case False
    with adv obtain s2 where "lzfse_decode_step s' = Inr (Finished LZFSE_STATUS_DST_FULL s2)" "length (ld_dst s2) = length (ld_dst s)"
      "filled src (ld_dst s2) (length (ld_dst s))" by auto
    then show ?thesis using False decode_next [OF s'(1)] decode_finished by (auto simp: advances_def)
  qed
qed

section \<open>Streams of blocks\<close>

type_synonym lzfse_block_data = "lzfse_header_v1 \<times> string \<times> lmd list \<times> string"

definition good_block :: "string \<Rightarrow> nat \<Rightarrow> lzfse_block_data \<Rightarrow> bool" where
  "good_block src p b \<longleftrightarrow> (case b of (h, lits, xs, blk) \<Rightarrow>
     block_of h lits (stored_lmds 0 xs) blk \<and> length lits mod 4 = 0 \<and> length lits \<le> 40000 \<and> length xs \<le> 10000 \<and>
     follows src lits p 0 xs \<and> literal_end 0 xs \<le> length lits)"

fun blocks_ok :: "string \<Rightarrow> nat \<Rightarrow> lzfse_block_data list \<Rightarrow> nat \<Rightarrow> bool" where
  "blocks_ok src p [] q \<longleftrightarrow> p = q"
| "blocks_ok src p ((h, lits, xs, blk) # bl) q \<longleftrightarrow> good_block src p (h, lits, xs, blk) \<and> blocks_ok src (text_end p xs) bl q"

definition blocks_bytes :: "lzfse_block_data list \<Rightarrow> string" where
  "blocks_bytes bl = concat (map (\<lambda>(h, lits, xs, blk). blk) bl)"

lemma blocks_bytes_simps [simp]: "blocks_bytes [] = []" "blocks_bytes ((h, lits, xs, blk) # bl) = blk @ blocks_bytes bl"
    "blocks_bytes (bl @ bl') = blocks_bytes bl @ blocks_bytes bl'"
  by (simp_all add: blocks_bytes_def)

lemma blocks_ok_snoc:
  "blocks_ok src p bl q \<Longrightarrow> good_block src q (h, lits, xs, blk) \<Longrightarrow> blocks_ok src p (bl @ [(h, lits, xs, blk)]) (text_end q xs)"
  by (induction src p bl q rule: blocks_ok.induct) auto

lemma blocks_ok_le: "blocks_ok src p bl q \<Longrightarrow> p \<le> q"
proof (induction src p bl q rule: blocks_ok.induct)
  case (2 src p h lits xs blk bl q)
  then show ?case using text_end_le [of p xs] by auto
qed simp

lemma decode_blocks:
  assumes "blocks_ok src p bl q" and "at_block s src p" and "bytes_at (ld_src s) (ld_sp s) (blocks_bytes bl @ le_bytes 4 LZFSE_ENDOFSTREAM_BLOCK_MAGIC)"
  shows "if q \<le> length (ld_dst s)
    then \<exists>s'. lzfse_decode s = Inr (LZFSE_STATUS_OK, s') \<and> ld_dp s' = q \<and> length (ld_dst s') = length (ld_dst s) \<and> filled src (ld_dst s') q
    else \<exists>s'. lzfse_decode s = Inr (LZFSE_STATUS_DST_FULL, s') \<and> length (ld_dst s') = length (ld_dst s) \<and> filled src (ld_dst s') (length (ld_dst s))"
  using assms
proof (induction src p bl q arbitrary: s rule: blocks_ok.induct)
  case (1 src p q)
  have at: "bytes_at (ld_src s) (ld_sp s) (le_bytes 4 LZFSE_ENDOFSTREAM_BLOCK_MAGIC)" using 1(3) by simp
  then have "ld_sp s + 4 \<le> ld_src_end s" using 1(2) by (simp add: at_block_def bytes_at_def)
  moreover have "ld_block_magic s = 0" using 1(2) by (simp add: at_block_def magic_defs)
  ultimately have "lzfse_decode s = Inr (LZFSE_STATUS_OK, s\<lparr>ld_sp := ld_sp s + 4, ld_end_of_stream := True\<rparr>)"
    using decode_end_of_stream at by blast
  then show ?case using 1(1,2) by (auto simp: at_block_def filled_def)
next
  case (2 src p h lits xs blk bl q)
  have g: "block_of h lits (stored_lmds 0 xs) blk" "length lits mod 4 = 0" "length lits \<le> 40000" "length xs \<le> 10000"
    "follows src lits p 0 xs" "literal_end 0 xs \<le> length lits" using 2(2) by (auto simp: good_block_def)
  have bl: "blocks_ok src (text_end p xs) bl q" using 2(2) by simp
  have at: "bytes_at (ld_src s) (ld_sp s) blk" "bytes_at (ld_src s) (ld_sp s + length blk) (blocks_bytes bl @ le_bytes 4 LZFSE_ENDOFSTREAM_BLOCK_MAGIC)"
    using 2(4) bytes_at_append [of "ld_src s" "ld_sp s" blk] by simp_all
  have len: "ld_sp s + length blk < length (ld_src s)" using at(2) by (simp add: bytes_at_def)
  have adv: "advances src s (length blk) (text_end p xs)" by (rule block_advances [OF g(1) at(1) len g(2-4) 2(3) g(5,6)])
  show ?case
  proof (cases "text_end p xs \<le> length (ld_dst s)")
    case True
    with adv obtain s' where s': "lzfse_decode s = lzfse_decode s'" "at_block s' src (text_end p xs)" "ld_sp s' = ld_sp s + length blk"
      "ld_src s' = ld_src s" "length (ld_dst s') = length (ld_dst s)" by (auto simp: advances_def)
    have "bytes_at (ld_src s') (ld_sp s') (blocks_bytes bl @ le_bytes 4 LZFSE_ENDOFSTREAM_BLOCK_MAGIC)" using at(2) s'(3,4) by simp
    from 2(1) [OF bl s'(2) this] show ?thesis unfolding s'(1,5) .
  next
    case False
    moreover have "\<not> q \<le> length (ld_dst s)" using False blocks_ok_le [OF bl] by simp
    ultimately show ?thesis using adv by (simp add: advances_def)
  qed
qed

lemma blocks_recover:
  assumes "blocks_ok src 0 bl (length src)"
  shows "recovers src (blocks_bytes bl @ le_bytes 4 LZFSE_ENDOFSTREAM_BLOCK_MAGIC)"
  unfolding recovers_def
proof (intro allI impI)
  fix dst :: string
  assume "dst \<noteq> []"
  let ?e = "blocks_bytes bl @ le_bytes 4 LZFSE_ENDOFSTREAM_BLOCK_MAGIC" and ?m = "min (length dst) (length src)"
  let ?s = "initial_decoder_state dst ?e"
  have at: "at_block ?s src 0"
    by (simp add: at_block_def initial_decoder_state_def filled_def arrays_ok_def initial_block_state_def Let_def)
  have "bytes_at (ld_src ?s) (ld_sp ?s) ?e" by (simp add: initial_decoder_state_def bytes_at_def)
  note dec = decode_blocks [OF assms at this]
  show "\<exists>d. lzfse_decode_buffer dst ?e = Inr (?m, d) \<and> length d = length dst \<and> take ?m d = take (length dst) src"
  proof (cases "length src \<le> length dst")
    case True
    with dec show ?thesis by (auto simp: initial_decoder_state_def lzfse_decode_buffer_def filled_def)
  next
    case False
    with dec show ?thesis by (auto simp: initial_decoder_state_def lzfse_decode_buffer_def filled_def)
  qed
qed

end
