(* ===== verification/LZFSE_Push.thy ===== *)
theory LZFSE_Push
  imports LZFSE_Replay
begin

text \<open>
  The back end of the encoder between blocks: the collected literals and L, M, D values always
  describe the text from the end of the last block to \<open>src_literal\<close>, and pushing a match or writing
  a block keeps this.
\<close>

section \<open>The invariant of the back end\<close>

definition collected :: "lzfse_encoder_state \<Rightarrow> lmd list" where
  "collected s = block_lmds (le_l_values s) (le_m_values s) (le_d_values s)"

definition values_ok :: "lzfse_encoder_state \<Rightarrow> bool" where
  "values_ok s \<longleftrightarrow> length (le_m_values s) = length (le_l_values s) \<and> length (le_d_values s) = length (le_l_values s) \<and>
     length (le_l_values s) \<le> 9992 \<and> length (le_literals s) \<le> 39984 \<and> list_all (\<lambda>l. l \<le> 315) (le_l_values s) \<and>
     list_all (\<lambda>m. m \<le> 2359) (le_m_values s) \<and> list_all (\<lambda>d. d < 262140) (le_d_values s)"

definition enc_inv :: "string \<Rightarrow> lzfse_encoder_state \<Rightarrow> bool" where
  "enc_inv src s \<longleftrightarrow>
     le_src s = src \<and> le_base s = 0 \<and> le_src_end s = int (length src) \<and> length src \<le> 2147221508 \<and>
     le_dst_end s = length (le_dst s) \<and> le_dp s \<le> length (le_dst s) \<and> values_ok s \<and> 0 \<le> le_src_literal s \<and> le_src_literal s \<le> int (length src) \<and>
     (\<exists>bl P. blocks_ok src 0 bl P \<and> take (le_dp s) (le_dst s) = blocks_bytes bl \<and> follows src (le_literals s) P 0 (collected s) \<and>
        text_end P (collected s) = nat (le_src_literal s) \<and> literal_end 0 (collected s) = length (le_literals s))"

text \<open>The part of the state the back end does not touch.\<close>

definition same_front :: "lzfse_encoder_state \<Rightarrow> lzfse_encoder_state \<Rightarrow> bool" where
  "same_front s s' \<longleftrightarrow> le_src_encode_i s' = le_src_encode_i s \<and> le_src_encode_end s' = le_src_encode_end s \<and>
     le_pending s' = le_pending s \<and> le_history s' = le_history s \<and> length (le_dst s') = length (le_dst s)"

lemma same_front_refl [simp]: "same_front s s" by (simp add: same_front_def)

lemma same_front_trans: "same_front s s' \<Longrightarrow> same_front s' s'' \<Longrightarrow> same_front s s''" by (simp add: same_front_def)

lemma text_end_append: "text_end p (xs @ ys) = text_end (text_end p xs) ys"
  by (induction p xs rule: text_end.induct) auto

lemma literal_end_append: "literal_end i (xs @ ys) = literal_end (literal_end i xs) ys"
  by (induction i xs rule: literal_end.induct) auto

lemma follows_append: "follows src lits p i (xs @ ys) \<longleftrightarrow> follows src lits p i xs \<and> follows src lits (text_end p xs) (literal_end i xs) ys"
  by (induction src lits p i xs rule: follows.induct) auto

lemma block_lmds_append:
  "length ms = length ls \<Longrightarrow> length ds = length ls \<Longrightarrow> block_lmds (ls @ [L]) (ms @ [M]) (ds @ [D]) = block_lmds ls ms ds @ [(L, M, D)]"
  by (simp add: block_lmds_def)

section \<open>Pushing\<close>

lemma push_loads:
  assumes "p + L \<le> length src" and "n = length src"
  shows "\<exists>bs. (if int p + int L + 16 > int n then load_bytes L src p else load_bytes (16 * max 1 ((L + 15) div 16)) src p) = Inr bs \<and>
    take L bs = take L (drop p src)"
proof (cases "int p + int L + 16 > int n")
  case True
  then show ?thesis using assms by simp
next
  case False
  define k where "k = 16 * max 1 ((L + 15) div 16)"
  have k: "L \<le> k" "k \<le> L + 16" unfolding k_def by (auto simp: max_def) 
  then have "load_bytes k src p = Inr (take k (drop p src))" using False assms(2) by (intro load_bytes_in) linarith
  then show ?thesis unfolding if_not_P [OF False] k_def [symmetric] using k(1) by (simp add: min_def)
qed

text \<open>A push either finds the arrays full or appends one triple.\<close>

definition pushed :: "string \<Rightarrow> lzfse_encoder_state \<Rightarrow> int \<Rightarrow> lzfse_encoder_state \<Rightarrow> bool" where
  "pushed src s q s' \<longleftrightarrow> enc_inv src s' \<and> same_front s s' \<and> le_src_literal s' = q"

lemma lzfse_push_lmd_ok:
  assumes inv: "enc_inv src s" and p: "le_src_literal s = int p" and L: "L \<le> 315" and M: "M \<le> 2359" and D: "D < 262140"
    and m: "match_at src (p + L) M D"
  shows "\<exists>r. lzfse_push_lmd s L M D = Inr r \<and> (\<forall>s'. r = Some s' \<longrightarrow> pushed src s (int (p + L + M)) s')"
proof -
  obtain bl P where b: "blocks_ok src 0 bl P" "take (le_dp s) (le_dst s) = blocks_bytes bl" "follows src (le_literals s) P 0 (collected s)"
    "text_end P (collected s) = p" "literal_end 0 (collected s) = length (le_literals s)" using inv p by (auto simp: enc_inv_def)
  have i: "le_src s = src" "le_base s = 0" "le_src_end s = int (length src)" "values_ok s" using inv by (auto simp: enc_inv_def)
  have pl: "p + L + M \<le> length src" using m by (simp add: match_at_def)
  show ?thesis
  proof (cases "length (le_l_values s) + 1 + 8 > 10000 \<or> length (le_literals s) + L + 16 > 40000")
    case True
    then show ?thesis by (auto simp: lzfse_push_lmd_def)
  next
    case False
    obtain bs where bs: "(if int p + int L + 16 > int (length src) then load_bytes L src p else load_bytes (16 * max 1 ((L + 15) div 16)) src p) = Inr bs"
      "take L bs = take L (drop p src)" using push_loads [of p L src] pl by auto
    define s' where "s' = s\<lparr>le_l_values := le_l_values s @ [L], le_m_values := le_m_values s @ [M], le_d_values := le_d_values s @ [D],
                     le_literals := le_literals s @ take L (drop p src), le_src_literal := int p + int (L + M)\<rparr>"
    have push: "lzfse_push_lmd s L M D = Inr (Some s')"
    proof -
      have "le_base s + le_src_literal s = int p" using i(2) p by simp
      then show ?thesis unfolding lzfse_push_lmd_def Let_def i(1,3) p using False bs by (simp add: s'_def del: max.bounded_iff cong: if_cong)
    qed
    have c: "collected s' = collected s @ [(L, M, D)]" using i(4) by (simp add: collected_def s'_def block_lmds_append values_ok_def)
    have len: "length (take L (drop p src)) = L" using pl by simp
    then have ls': "length (le_literals s') = length (le_literals s) + L" by (simp add: s'_def)
    have "literals_at (le_literals s') (length (le_literals s)) src p L" using pl len by (simp add: literals_at_def s'_def)
    moreover have "follows src (le_literals s') P 0 (collected s)" by (rule follows_prefix [OF b(3)]) (simp add: s'_def)
    ultimately have "follows src (le_literals s') P 0 (collected s')" unfolding c follows_append using b(4,5) m D by simp
    moreover have "text_end P (collected s') = p + L + M" "literal_end 0 (collected s') = length (le_literals s')"
      using b(4,5) ls' unfolding c by (simp_all add: text_end_append literal_end_append)
    moreover have "values_ok s'" using i(4) False L M D len by (auto simp: values_ok_def s'_def)
    ultimately have "enc_inv src s'"
      using inv b(1,2) pl unfolding enc_inv_def by (auto simp: s'_def intro!: exI [of _ bl] exI [of _ P])
    then show ?thesis using push by (auto simp: pushed_def same_front_def s'_def)
  qed
qed

lemma push_split_L_ok:
  assumes "enc_inv src s" and "le_src_literal s = int p" and "p + L \<le> length src"
  shows "\<exists>r. push_split_L s L = Inr r \<and>
    (\<forall>s' L'. r = Some (s', L') \<longrightarrow> L' \<le> 315 \<and> L' \<le> L \<and> pushed src s (int (p + L - L')) s')"
  using assms
proof (induction s L arbitrary: p rule: push_split_L.induct)
  case (1 s L)
  show ?case
  proof (cases "L > 315")
    case False
    then show ?thesis using 1(2,3) by (simp add: push_split_L.simps pushed_def)
  next
    case True
    have "match_at src (p + 315) 0 1" using True 1(4) by simp
    from lzfse_push_lmd_ok [OF 1(2,3) _ _ _ this] obtain r where r: "lzfse_push_lmd s 315 0 1 = Inr r"
      "\<And>s'. r = Some s' \<Longrightarrow> pushed src s (int (p + 315)) s'" by auto
    show ?thesis
    proof (cases r)
      case None
      then show ?thesis using True r(1) by (subst push_split_L.simps) simp
    next
      case (Some s1)
      then have s1: "pushed src s (int (p + 315)) s1" using r(2) by simp
      from 1(1) [OF True r(1) Some, of "p + 315"] s1 True 1(4) obtain r' where r': "push_split_L s1 (L - 315) = Inr r'"
        "\<And>s' L'. r' = Some (s', L') \<Longrightarrow> L' \<le> 315 \<and> L' \<le> L - 315 \<and> pushed src s1 (int (p + 315 + (L - 315) - L')) s'"
        by (auto simp: pushed_def)
      have "push_split_L s L = Inr r'" using True r(1) r'(1) Some by (subst push_split_L.simps) simp
      moreover have "L' \<le> 315 \<and> L' \<le> L \<and> pushed src s (int (p + L - L')) s'" if "r' = Some (s', L')" for s' L'
        using r'(2) [OF that] s1 True by (auto simp: pushed_def intro: same_front_trans)
      ultimately show ?thesis by blast
    qed
  qed
qed

lemma push_split_M_ok:
  assumes "enc_inv src s" and "le_src_literal s = int p" and "L \<le> 315" and "D < 262140" and "match_at src (p + L) M D"
  shows "\<exists>r. push_split_M s L M D = Inr r \<and>
    (\<forall>s' L' M'. r = Some (s', L', M') \<longrightarrow> L' \<le> 315 \<and> M' \<le> 2359 \<and>
       (\<exists>q. pushed src s (int q) s' \<and> q + L' + M' = p + L + M \<and> match_at src (q + L') M' D))"
  using assms
proof (induction s L M D arbitrary: p rule: push_split_M.induct)
  case (1 s L M D)
  show ?case
  proof (cases "M > 2359")
    case False
    then show ?thesis using 1(2-6) by (auto simp: push_split_M.simps pushed_def)
  next
    case True
    then have m: "match_at src (p + L) 2359 D" "match_at src (p + L + 2359) (M - 2359) D"
      using 1(6) match_at_add [of src "p + L" 2359 "M - 2359" D] by simp_all
    from lzfse_push_lmd_ok [OF 1(2,3,4) _ 1(5) m(1)] obtain r where r: "lzfse_push_lmd s L 2359 D = Inr r"
      "\<And>s'. r = Some s' \<Longrightarrow> pushed src s (int (p + L + 2359)) s'" by auto
    show ?thesis
    proof (cases r)
      case None
      then show ?thesis using True r(1) by (subst push_split_M.simps) simp
    next
      case (Some s1)
      then have s1: "pushed src s (int (p + L + 2359)) s1" using r(2) by simp
      from 1(1) [OF True r(1) Some, of "p + L + 2359"] s1 m(2) 1(5) obtain r' where r': "push_split_M s1 0 (M - 2359) D = Inr r'"
        "\<And>s' L' M'. r' = Some (s', L', M') \<Longrightarrow> L' \<le> 315 \<and> M' \<le> 2359 \<and>
           (\<exists>q. pushed src s1 (int q) s' \<and> q + L' + M' = p + L + 2359 + 0 + (M - 2359) \<and> match_at src (q + L') M' D)"
        by (auto simp: pushed_def)
      have "push_split_M s L M D = Inr r'" using True r(1) r'(1) Some by (subst push_split_M.simps) simp
      moreover have "L' \<le> 315 \<and> M' \<le> 2359 \<and> (\<exists>q. pushed src s (int q) s' \<and> q + L' + M' = p + L + M \<and> match_at src (q + L') M' D)"
        if "r' = Some (s', L', M')" for s' L' M'
        using r'(2) [OF that] s1 True by (force simp: pushed_def intro: same_front_trans)
      ultimately show ?thesis by blast
    qed
  qed
qed

definition match_ok :: "string \<Rightarrow> lzfse_encoder_state \<Rightarrow> lzfse_match \<Rightarrow> bool" where
  "match_ok src s m \<longleftrightarrow> le_src_literal s \<le> lm_pos m \<and> 0 < lm_pos m - lm_ref m \<and> lm_pos m - lm_ref m < 262140 \<and>
     match_at src (nat (lm_pos m)) (lm_length m) (nat (lm_pos m - lm_ref m))"

lemma uint32_of_small: "0 \<le> x \<Longrightarrow> x < 2 ^ 32 \<Longrightarrow> uint32_of x = nat x"
  by (simp add: uint32_of_def)

lemma lzfse_push_match_ok:
  assumes inv: "enc_inv src s" and m: "match_ok src s m"
  shows "\<exists>r. lzfse_push_match s m = Inr r \<and> (\<forall>s'. r = Some s' \<longrightarrow> pushed src s (lm_pos m + int (lm_length m)) s')"
proof -
  define p pos D M where "p = nat (le_src_literal s)" and "pos = nat (lm_pos m)" and "D = nat (lm_pos m - lm_ref m)" and "M = lm_length m"
  have i: "0 \<le> le_src_literal s" "le_src_literal s = int p" "length src < 2 ^ 31 - 1" using inv by (auto simp: enc_inv_def p_def)
  have mo: "p \<le> pos" "lm_pos m = int pos" "D < 262140" "match_at src pos M D" "0 < lm_pos m - lm_ref m" "lm_pos m - lm_ref m < 262140"
    using m i(1) by (auto simp: match_ok_def p_def pos_def D_def M_def)
  have pl: "pos + M \<le> length src" using mo(4) by (simp add: match_at_def)
  have u: "uint32_of (lm_pos m - lm_ref m) = D" "uint32_of (lm_pos m - le_src_literal s) = pos - p"
    using mo(1,2,5,6) i(2,3) pl by (simp_all add: uint32_of_small D_def)
  from push_split_L_ok [OF inv i(2), of "pos - p"] pl mo(1) obtain r1 where r1: "push_split_L s (pos - p) = Inr r1"
    "\<And>s' L'. r1 = Some (s', L') \<Longrightarrow> L' \<le> 315 \<and> L' \<le> pos - p \<and> pushed src s (int (pos - L')) s'" by force
  show ?thesis
  proof (cases r1)
    case None
    then show ?thesis using r1(1) u by (simp add: lzfse_push_match_def Let_def)
  next
    case (Some x1)
    obtain s1 L1 where x1: "x1 = (s1, L1)" by fastforce
    have s1: "L1 \<le> 315" "L1 \<le> pos - p" "pushed src s (int (pos - L1)) s1" using r1(2) Some x1 by auto
    have "match_at src (pos - L1 + L1) M D" using s1(2) mo(4) by simp
    from push_split_M_ok [OF _ _ s1(1) mo(3) this] s1(3) obtain r2 where r2: "push_split_M s1 L1 M D = Inr r2"
      "\<And>s' L' M'. r2 = Some (s', L', M') \<Longrightarrow> L' \<le> 315 \<and> M' \<le> 2359 \<and>
       (\<exists>q. pushed src s1 (int q) s' \<and> q + L' + M' = pos - L1 + L1 + M \<and> match_at src (q + L') M' D)" by (force simp: pushed_def)
    show ?thesis
    proof (cases r2)
      case None
      then show ?thesis using r1(1) r2(1) Some x1 u by (simp add: lzfse_push_match_def Let_def M_def)
    next
      case Some2: (Some x2)
      obtain s2 L2 M2 where x2: "x2 = (s2, L2, M2)" by (metis prod_cases3)
      obtain q where s2: "L2 \<le> 315" "M2 \<le> 2359" "pushed src s1 (int q) s2" "q + L2 + M2 = pos + M" "match_at src (q + L2) M2 D"
        using r2(2) [of s2 L2 M2] Some2 x2 s1(2) by auto
      from lzfse_push_lmd_ok [OF _ _ s2(1,2) mo(3) s2(5)] s2(3) obtain r3 where r3: "lzfse_push_lmd s2 L2 M2 D = Inr r3"
        "\<And>s'. r3 = Some s' \<Longrightarrow> pushed src s2 (int (q + L2 + M2)) s'" by (auto simp: pushed_def)
      have fin: "lzfse_push_match s m = (if L2 > 0 \<or> M2 > 0 then Inr r3 else Inr (Some s2))"
        using r1(1) r2(1) r3(1) Some Some2 x1 x2 u by (simp add: lzfse_push_match_def Let_def M_def)
      have tr: "same_front s s2" using s1(3) s2(3) same_front_trans by (auto simp: pushed_def)
      have "pushed src s (int (pos + M)) s2" if "\<not> (L2 > 0 \<or> M2 > 0)" using that s2(3,4) tr by (simp add: pushed_def)
      moreover have "pushed src s (int (pos + M)) s'" if "r3 = Some s'" for s'
        using r3(2) [OF that] s2(4) tr same_front_trans by (auto simp: pushed_def)
      ultimately show ?thesis unfolding fin using mo(2) by (auto simp: M_def [symmetric])
    qed
  qed
qed

section \<open>Writing the collected values\<close>

lemma pad_literals_ok: "length (pad_literals lits) mod 4 = 0" "take (length lits) (pad_literals lits) = lits" "length lits \<le> length (pad_literals lits)"
    "length lits \<le> 39984 \<Longrightarrow> length (pad_literals lits) \<le> 40000"
proof -
  have "(n + (4 - n mod 4) mod 4) mod 4 = 0" for n :: nat
  proof -
    have "(n + (4 - n mod 4) mod 4) mod 4 = (n mod 4 + (4 - n mod 4)) mod 4" by (simp only: mod_add_left_eq mod_add_right_eq)
    then show ?thesis by simp
  qed
  then show "length (pad_literals lits) mod 4 = 0" by (simp add: pad_literals_def)
  have "(4 - length lits mod 4) mod 4 < 4" by (rule pos_mod_bound | rule mod_less_divisor) simp
  then show "length lits \<le> 39984 \<Longrightarrow> length (pad_literals lits) \<le> 40000"
    unfolding pad_literals_def length_append length_replicate by linarith
qed (simp_all add: pad_literals_def)

lemma encode_d_prev_less: "list_all (\<lambda>d. d < 262140) ds \<Longrightarrow> list_all (\<lambda>d. d < 262140) (encode_d_prev p ds) \<and> length (encode_d_prev p ds) = length ds"
  by (induction p ds rule: encode_d_prev.induct) auto

lemma lzfse_encode_matches_ok:
  assumes inv: "enc_inv src s"
  shows "\<exists>ok s'. lzfse_encode_matches s = Inr (ok, s') \<and> length (le_dst s') = length (le_dst s) \<and>
    (ok \<longrightarrow> pushed src s (le_src_literal s) s' \<and> le_l_values s' = [] \<and> le_literals s' = [])"
proof (cases "le_literals s = [] \<and> le_l_values s = []")
  case True
  then show ?thesis using inv by (intro exI [of _ True] exI [of _ s]) (simp add: lzfse_encode_matches_def pushed_def)
next
  case False
  define lits ds where "lits = pad_literals (le_literals s)" and "ds = encode_d_prev 0 (le_d_values s)"
  obtain bl P where b: "blocks_ok src 0 bl P" "take (le_dp s) (le_dst s) = blocks_bytes bl" "follows src (le_literals s) P 0 (collected s)"
    "text_end P (collected s) = nat (le_src_literal s)" "literal_end 0 (collected s) = length (le_literals s)" using inv by (auto simp: enc_inv_def)
  have v: "values_ok s" "le_dst_end s = length (le_dst s)" "le_dp s \<le> length (le_dst s)" using inv by (auto simp: enc_inv_def)
  have ne: "le_l_values s \<noteq> []" using False b(5) by (auto simp: collected_def block_lmds_def)
  have pl: "length lits mod 4 = 0" "take (length (le_literals s)) lits = le_literals s" "length (le_literals s) \<le> length lits" "length lits \<le> 40000"
    using pad_literals_ok [of "le_literals s"] v(1) by (auto simp: lits_def values_ok_def)
  have bv: "block_values (le_l_values s) (le_m_values s) ds"
    using v(1) ne encode_d_prev_less [of "le_d_values s" 0] by (auto simp: block_values_def ds_def values_ok_def)
  have lm: "block_lmds (le_l_values s) (le_m_values s) ds = stored_lmds 0 (collected s)"
    using v(1) stored_lmds_zip by (simp add: ds_def collected_def values_ok_def)
  have "le_dst_end s \<le> length (le_dst s)" "le_dp s \<le> le_dst_end s" using v by auto
  from encode_block_ok [OF bv pl(1,4) this(2,1)] obtain r where r: "encode_block s lits ds = Inr r"
    "block_written (le_dst s) (le_dp s) (le_dst_end s) lits (stored_lmds 0 (collected s)) r" unfolding lm by blast
  have start: "lzfse_encode_matches s = Inr (case r of
            OUT_FULL buf \<Rightarrow> (False, s\<lparr>le_dst := buf, le_d_values := revert_d_prev 0 ds\<rparr>)
          | Out (buf, p) \<Rightarrow> (True, s\<lparr>le_dst := buf, le_dp := p, le_literals := [], le_l_values := [], le_m_values := [], le_d_values := []\<rparr>))"
    using False pl(4) r(1) unfolding lzfse_encode_matches_def lits_def [symmetric] Let_def ds_def [symmetric] by auto
  show ?thesis
  proof (cases r)
    case (OUT_FULL buf)
    then show ?thesis using start r(2) by (intro exI [of _ False]) (simp add: block_written_def)
  next
    case (Out x)
    obtain buf q where x: "x = (buf, q)" by fastforce
    from r(2) obtain h blk where w: "length buf = length (le_dst s)" "take (le_dp s) buf = take (le_dp s) (le_dst s)" "q \<le> le_dst_end s"
      "block_of h lits (stored_lmds 0 (collected s)) blk" "bytes_at buf (le_dp s) blk" "q = le_dp s + length blk"
      by (auto simp: block_written_def Out x)
    have "length (collected s) \<le> 10000" using v(1) by (simp add: collected_def block_lmds_def values_ok_def)
    then have "good_block src P (h, lits, collected s, blk)"
      using w(4) pl b(3,5) follows_prefix [OF b(3) pl(2)] by (simp add: good_block_def)
    from blocks_ok_snoc [OF b(1) this] have ok: "blocks_ok src 0 (bl @ [(h, lits, collected s, blk)]) (nat (le_src_literal s))" by (simp add: b(4))
    have "take q buf = blocks_bytes (bl @ [(h, lits, collected s, blk)])"
      using w(2,5,6) b(2) by (simp add: take_add bytes_at_def)
    then have "enc_inv src (s\<lparr>le_dst := buf, le_dp := q, le_literals := [], le_l_values := [], le_m_values := [], le_d_values := []\<rparr>)"
      using inv w(1,3) ok unfolding enc_inv_def
      by (auto simp: values_ok_def collected_def block_lmds_def intro!: exI [of _ "bl @ [(h, lits, collected s, blk)]"])
    then show ?thesis using start w(1) by (intro exI [of _ True]) (simp add: Out x pushed_def same_front_def)
  qed
qed

section \<open>Calls of the back end\<close>

definition backed :: "string \<Rightarrow> lzfse_encoder_state \<Rightarrow> int \<Rightarrow> (bool \<times> lzfse_encoder_state) result \<Rightarrow> bool" where
  "backed src s q X \<longleftrightarrow> (\<exists>ok s'. X = Inr (ok, s') \<and> length (le_dst s') = length (le_dst s) \<and> (ok \<longrightarrow> pushed src s q s'))"

lemma backedI: "X = Inr (ok, s') \<Longrightarrow> length (le_dst s') = length (le_dst s) \<Longrightarrow> (ok \<Longrightarrow> pushed src s q s') \<Longrightarrow> backed src s q X"
  by (auto simp: backed_def)

lemma lzfse_backend_match_ok:
  assumes inv: "enc_inv src s" and m: "match_ok src s m"
  shows "backed src s (lm_pos m + int (lm_length m)) (lzfse_backend_match s m)"
proof -
  obtain r where r: "lzfse_push_match s m = Inr r" "\<And>s'. r = Some s' \<Longrightarrow> pushed src s (lm_pos m + int (lm_length m)) s'"
    using lzfse_push_match_ok [OF assms] by auto
  show ?thesis
  proof (cases r)
    case (Some s')
    then have "lzfse_backend_match s m = Inr (True, s')" using r(1) by (simp add: lzfse_backend_match_def)
    then show ?thesis by (rule backedI) (use r(2) Some in \<open>auto simp: pushed_def same_front_def\<close>)
  next
    case None
    obtain ok s1 where e: "lzfse_encode_matches s = Inr (ok, s1)" "length (le_dst s1) = length (le_dst s)" "ok \<Longrightarrow> pushed src s (le_src_literal s) s1"
      using lzfse_encode_matches_ok [OF inv] by blast
    show ?thesis
    proof (cases ok)
      case False
      then have "lzfse_backend_match s m = Inr (False, s1)" using r(1) None e(1) by (simp add: lzfse_backend_match_def)
      then show ?thesis by (rule backedI) (use e(2) in auto)
    next
      case True
      then have s1: "enc_inv src s1" "same_front s s1" "match_ok src s1 m" using e(3) m by (auto simp: pushed_def match_ok_def)
      obtain r' where r': "lzfse_push_match s1 m = Inr r'" "\<And>s'. r' = Some s' \<Longrightarrow> pushed src s1 (lm_pos m + int (lm_length m)) s'"
        using lzfse_push_match_ok [OF s1(1,3)] by auto
      have be: "lzfse_backend_match s m = Inr (case r' of None \<Rightarrow> (False, s1) | Some s'' \<Rightarrow> (True, s''))"
        using r(1) None e(1) True r'(1) by (simp add: lzfse_backend_match_def)
      show ?thesis
      proof (cases r')
        case None
        then show ?thesis using be e(2) by (intro backedI [of _ False s1]) auto
      next
        case (Some s2)
        then show ?thesis using be r'(2) s1(2) same_front_trans by (intro backedI [of _ True s2]) (auto simp: pushed_def same_front_def)
      qed
    qed
  qed
qed

lemma lzfse_backend_literals_ok:
  assumes "enc_inv src s" and "0 < L" and "le_src_literal s + L \<le> int (length src)"
  shows "backed src s (le_src_literal s + L) (lzfse_backend_literals s L)"
proof -
  have "0 \<le> le_src_literal s" using assms(1) by (simp add: enc_inv_def)
  then have "match_ok src s \<lparr>lm_pos = le_src_literal s + L, lm_ref = le_src_literal s + L - 1, lm_length = 0\<rparr>"
    using assms(2,3) by (auto simp: match_ok_def)
  from lzfse_backend_match_ok [OF assms(1) this] show ?thesis by (simp add: lzfse_backend_literals_def Let_def)
qed

lemma lzfse_backend_end_of_stream_ok:
  assumes inv: "enc_inv src s" and p: "le_src_literal s = int (length src)"
  shows "\<exists>ok s'. lzfse_backend_end_of_stream s = Inr (ok, s') \<and> length (le_dst s') = length (le_dst s) \<and>
    (ok \<longrightarrow> le_dp s' \<le> length (le_dst s) \<and> 0 < le_dp s' \<and> recovers src (take (le_dp s') (le_dst s')))"
proof -
  obtain ok s1 where e: "lzfse_encode_matches s = Inr (ok, s1)" "length (le_dst s1) = length (le_dst s)"
    "ok \<Longrightarrow> pushed src s (le_src_literal s) s1 \<and> le_l_values s1 = [] \<and> le_literals s1 = []"
    using lzfse_encode_matches_ok [OF inv] by blast
  show ?thesis
  proof (cases "ok \<and> \<not> le_dp s1 + 4 > le_dst_end s1")
    case False
    then have "lzfse_backend_end_of_stream s = Inr (False, s1)" using e(1) by (auto simp: lzfse_backend_end_of_stream_def)
    then show ?thesis using e(2) by (intro exI [of _ False]) simp
  next
    case True
    then have s1: "enc_inv src s1" "le_src_literal s1 = int (length src)" "collected s1 = []"
      using e(3) p by (auto simp: pushed_def collected_def block_lmds_def)
    then obtain bl where b: "blocks_ok src 0 bl (length src)" "take (le_dp s1) (le_dst s1) = blocks_bytes bl" "le_dst_end s1 = length (le_dst s1)"
      by (auto simp: enc_inv_def)
    then have room: "le_dp s1 + 4 \<le> length (le_dst s1)" using True by simp
    from store4_patched [OF this, of LZFSE_ENDOFSTREAM_BLOCK_MAGIC] obtain buf where st: "store4 (le_dst s1) (le_dp s1) LZFSE_ENDOFSTREAM_BLOCK_MAGIC = Inr buf"
      "patched (le_dst s1) (le_dp s1) (le_bytes 4 LZFSE_ENDOFSTREAM_BLOCK_MAGIC) buf" by blast
    have "take (le_dp s1 + 4) buf = blocks_bytes bl @ le_bytes 4 LZFSE_ENDOFSTREAM_BLOCK_MAGIC"
      using st(2) room unfolding b(2) [symmetric] by (simp add: patched_def)
    then have "recovers src (take (le_dp s1 + 4) buf)" using blocks_recover [OF b(1)] by simp
    moreover have "lzfse_backend_end_of_stream s = Inr (True, s1\<lparr>le_dst := buf, le_dp := le_dp s1 + 4\<rparr>)"
      using e(1) True st(1) by (simp add: lzfse_backend_end_of_stream_def)
    ultimately show ?thesis using room e(2) patched_length [OF st(2)]
      by (intro exI [of _ True] exI [of _ "s1\<lparr>le_dst := buf, le_dp := le_dp s1 + 4\<rparr>"]) simp
  qed
qed

end
