(* ===== verification/LZFSE_Search.thy ===== *)
theory LZFSE_Search
  imports LZFSE_Push
begin

text \<open>
  The front end of the encoder: the history table points to earlier occurrences of the four bytes at
  a position, the matches found there and expanded are matches of the text, and every position of the
  source leaves the encoder in a consistent state.
\<close>

unbundle bit_operations_syntax

section \<open>Match lengths\<close>

definition dword_at :: "string \<Rightarrow> nat \<Rightarrow> 64 word" where
  "dword_at src i = word_of_nat (of_le_bytes (take 8 (drop i src)))"

lemma load8_at_word: "i + 8 \<le> length src \<Longrightarrow> load8_at src (int i) = Inr (dword_at src i)"
  by (simp add: load8_at_def load8_def dword_at_def)

lemma unat_dword_at: "i + 8 \<le> length src \<Longrightarrow> unat (dword_at src i) = of_le_bytes (take 8 (drop i src))"
proof -
  assume "i + 8 \<le> length src"
  then have "of_le_bytes (take 8 (drop i src)) < 2 ^ 64" using of_le_bytes_less [of "take 8 (drop i src)"] by simp
  then show ?thesis by (simp add: dword_at_def unat_of_nat)
qed

lemma builtin_ctzll_bits: "i < builtin_ctzll x \<Longrightarrow> \<not> bit x i"
proof -
  assume i: "i < builtin_ctzll x"
  have "i < 64" using i length_takeWhile_le [of "\<lambda>i. \<not> bit x i" "[0..<64]"] by (simp add: builtin_ctzll_def)
  moreover have "takeWhile (\<lambda>i. \<not> bit x i) [0..<64] ! i \<in> set (takeWhile (\<lambda>i. \<not> bit x i) [0..<64])"
    using i by (intro nth_mem) (simp add: builtin_ctzll_def)
  then have "\<not> bit x (takeWhile (\<lambda>i. \<not> bit x i) [0..<64] ! i)" by (blast dest: set_takeWhileD)
  ultimately show ?thesis using i by (simp add: builtin_ctzll_def takeWhile_nth)
qed

lemma equal_low_bytes8:
  assumes "i + 8 \<le> length src" and "j + 8 \<le> length src" and "n \<le> 8" and "take_bit (8 * n) (dword_at src i XOR dword_at src j) = 0"
  shows "take n (drop i src) = take n (drop j src)"
proof -
  have "take_bit (8 * n) (dword_at src i) = take_bit (8 * n) (dword_at src j)"
    using assms(4) by (auto simp: bit_eq_iff bit_take_bit_iff bit_xor_iff)
  then have "unat (take_bit (8 * n) (dword_at src i)) = unat (take_bit (8 * n) (dword_at src j))" by simp
  then have "unat (dword_at src i) mod 2 ^ (8 * n) = unat (dword_at src j) mod 2 ^ (8 * n)"
    unfolding unsigned_take_bit_eq by (simp only: take_bit_eq_mod)
  then have "of_le_bytes (take 8 (drop i src)) mod 256 ^ n = of_le_bytes (take 8 (drop j src)) mod 256 ^ n"
    using assms(1,2) by (simp add: unat_dword_at power_mult)
  moreover have "of_le_bytes (take 8 (drop k src)) mod 256 ^ n = of_le_bytes (take n (drop k src))"
    if "k + 8 \<le> length src" for k
    using of_le_bytes_take [of n "take 8 (drop k src)"] that assms(3) by (simp add: min.absorb1)
  ultimately have "of_le_bytes (take n (drop i src)) = of_le_bytes (take n (drop j src))" using assms(1,2) by simp
  then show ?thesis using assms(1-3) by (intro of_le_bytes_inject) auto
qed

lemma ctzll_bytes: "x \<noteq> 0 \<Longrightarrow> builtin_ctzll x div 8 \<le> 7 \<and> take_bit (8 * (builtin_ctzll x div 8)) x = 0" for x :: "64 word"
proof -
  assume x: "x \<noteq> 0"
  have "builtin_ctzll x < 64"
  proof (rule ccontr)
    assume "\<not> builtin_ctzll x < 64"
    then have "\<not> bit x i" if "i < 64" for i using builtin_ctzll_bits [of i x] that by simp
    then have "x = 0" by (intro bit_eqI) auto
    then show False using x by simp
  qed
  moreover have "\<not> bit x i" if "i < 8 * (builtin_ctzll x div 8)" for i
    by (rule builtin_ctzll_bits) (use that in linarith)
  then have "take_bit (8 * (builtin_ctzll x div 8)) x = 0" by (intro bit_eqI) (auto simp: bit_take_bit_iff)
  ultimately show ?thesis by linarith
qed

lemma match_length_ok:
  assumes "ref < pos" and "pos + maxLength + 8 \<le> length src" and "match_at src pos n (pos - ref)" and "n \<le> maxLength + 7"
  shows "\<exists>m. match_length src (int ref) (int pos) maxLength n = Inr m \<and> n \<le> m \<and> m \<le> maxLength + 7 \<and> match_at src pos m (pos - ref)"
  using assms(3,4)
proof (induction "maxLength - n" arbitrary: n rule: less_induct)
  case less
  show ?case
  proof (cases "n < maxLength")
    case False
    then show ?thesis using less.prems by (simp add: match_length.simps)
  next
    case True
    have le: "ref + n + 8 \<le> length src" "pos + n + 8 \<le> length src" using assms(1,2) True by auto
    have ld: "load8_at src (int ref + int n) = Inr (dword_at src (ref + n))" "load8_at src (int pos + int n) = Inr (dword_at src (pos + n))"
      using load8_at_word [OF le(1)] load8_at_word [OF le(2)] by simp_all
    define d where "d = dword_at src (ref + n) XOR dword_at src (pos + n)"
    define k where "k = (if d = 0 then 8 else builtin_ctzll d div 8)"
    have k: "k \<le> 8" "d \<noteq> 0 \<Longrightarrow> k \<le> 7" "take_bit (8 * k) d = 0" using ctzll_bytes [of d] by (auto simp: k_def)
    then have "take k (drop (ref + n) src) = take k (drop (pos + n) src)"
      unfolding d_def by (intro equal_low_bytes8) (use le in auto)
    then have "match_at src (pos + n) k (pos + n - (ref + n))"
      using assms(1) le k(1) by (intro match_at_equal) auto
    then have m: "match_at src pos (n + k) (pos - ref)" using less.prems(1) by (simp add: match_at_add)
    have step: "match_length src (int ref) (int pos) maxLength n =
        (if d = 0 then match_length src (int ref) (int pos) maxLength (n + 8) else Inr (n + builtin_ctzll d div 8))"
      using True ld by (subst match_length.simps) (simp add: d_def Let_def)
    show ?thesis
    proof (cases "d = 0")
      case z: True
      then have "\<exists>m. match_length src (int ref) (int pos) maxLength (n + 8) = Inr m \<and> n + 8 \<le> m \<and> m \<le> maxLength + 7 \<and> match_at src pos m (pos - ref)"
        using m True by (intro less.hyps) (auto simp: k_def)
      then show ?thesis using step z by auto
    next
      case False
      then show ?thesis using step m True k(2) by (auto simp: k_def)
    qed
  qed
qed

section \<open>The history table\<close>

definition history_entry :: "string \<Rightarrow> int \<Rightarrow> int \<Rightarrow> 32 word \<Rightarrow> bool" where
  "history_entry src limit p v \<longleftrightarrow> p = - 4 * 262139 \<or> 0 \<le> p \<and> p < limit \<and> v = word_at src (nat p)"

definition history_set_ok :: "string \<Rightarrow> int \<Rightarrow> lzfse_history_set \<Rightarrow> bool" where
  "history_set_ok src limit h \<longleftrightarrow> length (hs_pos h) = 4 \<and> length (hs_value h) = 4 \<and> (\<forall>k<4. history_entry src limit (hs_pos h ! k) (hs_value h ! k))"

definition history_ok :: "string \<Rightarrow> lzfse_encoder_state \<Rightarrow> bool" where
  "history_ok src s \<longleftrightarrow> (\<forall>i<2 ^ 14. history_set_ok src (le_src_encode_i s) (le_history s i))"

lemma hashX_less: "hashX x < 2 ^ 14"
proof -
  have "unat (x * 2654435761) < 2 ^ 32" using unsigned_less [of "x * 2654435761"] by simp
  then have "unat (x * 2654435761) div 2 ^ 18 < 2 ^ 14" by (simp add: div_less_iff_less_mult)
  then show ?thesis by (simp add: hashX_def drop_bit_eq_div unat_div)
qed

text \<open>A match at \<open>pos\<close>, or none.\<close>

definition found_ok :: "string \<Rightarrow> int \<Rightarrow> lzfse_match \<Rightarrow> bool" where
  "found_ok src pos m \<longleftrightarrow> lm_pos m = pos \<and> (lm_length m = 0 \<or>
     0 \<le> lm_ref m \<and> lm_ref m < pos \<and> pos - lm_ref m < 262140 \<and> match_at src (nat pos) (lm_length m) (nat (pos - lm_ref m)))"

lemma check_history_ok:
  assumes inv: "enc_inv src s" and pos: "0 \<le> pos" "pos + 9 \<le> int (length src)" and h: "history_set_ok src pos h" and k: "k < 4"
    and x: "x = word_at src (nat pos)" and i: "found_ok src pos incoming"
  shows "\<exists>m. check_history s pos x h k incoming = Inr m \<and> found_ok src pos m"
proof (cases "hs_value h ! k XOR x \<noteq> 0 \<or> hs_pos h ! k + 262139 < pos")
  case True
  have "history_entry src pos (hs_pos h ! k) (hs_value h ! k)" using h k by (simp add: history_set_ok_def)
  then have "fits_int (hs_pos h ! k + 262139)" using inv pos by (auto simp: history_entry_def fits_int_def enc_inv_def)
  then show ?thesis using i True by (auto simp: check_history_def Let_def)
next
  case False
  let ?ref = "hs_pos h ! k"
  have v: "hs_value h ! k = x" using False by (auto simp: bit_eq_iff bit_xor_iff)
  have e: "history_entry src pos ?ref (hs_value h ! k)" using h k by (simp add: history_set_ok_def)
  then have ref: "0 \<le> ?ref" "?ref < pos" "word_at src (nat ?ref) = word_at src (nat pos)" "pos - ?ref < 262140"
    using False pos(1) v x by (auto simp: history_entry_def)
  have fit: "fits_int (?ref + 262139)" using e inv pos by (auto simp: history_entry_def fits_int_def enc_inv_def)
  have len: "nat pos + 9 \<le> length src" "nat ?ref < nat pos" "nat ?ref + 9 \<le> length src" using pos ref by linarith+
  have "unat (word_at src (nat ?ref)) = unat (word_at src (nat pos))" using ref(3) by simp
  then have "take 4 (drop (nat pos) src) = take 4 (drop (nat ?ref) src)"
    using len by (intro of_le_bytes_inject) (simp_all add: unat_word_at)
  then have "match_at src (nat pos) 4 (nat pos - nat ?ref)" using len by (intro match_at_equal) auto
  moreover have u: "uint32_of (le_src_end s - pos - 8) = length src - nat pos - 8"
    using inv pos by (subst uint32_of_small) (auto simp: enc_inv_def)
  moreover have "nat pos + (length src - nat pos - 8) + 8 \<le> length src" "4 \<le> length src - nat pos - 8 + 7" using len by auto
  ultimately obtain n where n: "match_length src (int (nat ?ref)) (int (nat pos)) (uint32_of (le_src_end s - pos - 8)) 4 = Inr n"
    "match_at src (nat pos) n (nat pos - nat ?ref)"
    using match_length_ok [of "nat ?ref" "nat pos" "length src - nat pos - 8" src 4] len(2) by auto
  have "nat pos - nat ?ref = nat (pos - ?ref)" using ref(1) pos(1) by simp
  then have "check_history s pos x h k incoming = Inr (if n > lm_length incoming then incoming\<lparr>lm_length := n, lm_ref := ?ref\<rparr> else incoming)"
    "match_at src (nat pos) n (nat (pos - ?ref))"
    using n v False ref(1) pos(1) inv fit by (auto simp: check_history_def Let_def enc_inv_def)
  then show ?thesis using i ref by (auto simp: found_ok_def)
qed

section \<open>Expanding and choosing a match\<close>

lemma match_at_back:
  assumes "match_at src p M D" and "0 < p" and "D < p" and "src ! (p - 1) = src ! (p - 1 - D)"
  shows "match_at src (p - 1) (Suc M) D"
proof -
  have "match_at src (p - 1) 1 D" using assms by (auto simp: match_at_def)
  then show ?thesis using assms(1,2) match_at_add [of src "p - 1" 1 M D] by simp
qed

lemma lzfse_expand_backward_ok:
  assumes inv: "enc_inv src s" and "0 \<le> ref" and "ref < pos" and "le_src_literal s \<le> pos" and "match_at src (nat pos) M (nat (pos - ref))"
  shows "\<exists>p r. lzfse_expand_backward s pos ref = Inr (p, r) \<and> p - r = pos - ref \<and> le_src_literal s \<le> p \<and> p \<le> pos \<and> 0 \<le> r \<and>
    match_at src (nat p) (M + nat (pos - p)) (nat (pos - ref))"
  using assms(2-5)
proof (induction "nat ref" arbitrary: pos ref M rule: less_induct)
  case less
  have i: "le_src s = src" "le_base s = 0" "0 \<le> le_src_literal s" using inv by (auto simp: enc_inv_def)
  have len: "nat pos + M \<le> length src" using less.prems(4) by (simp add: match_at_def)
  have stop: "\<exists>p r. Inr (pos, ref) = (Inr (p, r) :: (int \<times> int) result) \<and> p - r = pos - ref \<and> le_src_literal s \<le> p \<and> p \<le> pos \<and> 0 \<le> r \<and>
      match_at src (nat p) (M + nat (pos - p)) (nat (pos - ref))"
    using less.prems by auto
  show ?case
  proof (cases "pos > le_src_literal s \<and> ref > 0")
    case False
    then have "lzfse_expand_backward s pos ref = Inr (pos, ref)" by (subst lzfse_expand_backward.simps) auto
    then show ?thesis using stop by simp
  next
    case True
    have b: "byte_at src (ref - 1) = Inr (src ! nat (ref - 1))" "byte_at src (pos - 1) = Inr (src ! nat (pos - 1))"
      using True less.prems(2) len by (auto simp: byte_at_def)
    have step: "lzfse_expand_backward s pos ref =
        (if src ! nat (ref - 1) = src ! nat (pos - 1) then lzfse_expand_backward s (pos - 1) (ref - 1) else Inr (pos, ref))"
      using True i b by (subst lzfse_expand_backward.simps) simp
    show ?thesis
    proof (cases "src ! nat (ref - 1) = src ! nat (pos - 1)")
      case False
      then show ?thesis using step stop by simp
    next
      case eq: True
      have n: "nat pos - 1 - nat (pos - ref) = nat (ref - 1)" "nat (pos - 1) = nat pos - 1" using True less.prems by linarith+
      have "match_at src (nat pos - 1) (Suc M) (nat (pos - ref))"
        by (rule match_at_back [OF less.prems(4)]) (use True less.prems(2) i(3) eq n in auto)
      then have "match_at src (nat (pos - 1)) (Suc M) (nat (pos - 1 - (ref - 1)))" using n(2) by simp
      from less.hyps [of "ref - 1" "pos - 1" "Suc M", OF _ _ _ _ this] True less.prems obtain p r where pr:
        "lzfse_expand_backward s (pos - 1) (ref - 1) = Inr (p, r)" "p - r = pos - ref" "le_src_literal s \<le> p" "p \<le> pos - 1" "0 \<le> r"
        "match_at src (nat p) (Suc M + nat (pos - 1 - p)) (nat (pos - ref))" by auto
      have "Suc M + nat (pos - 1 - p) = M + nat (pos - p)" using pr(4) by linarith
      from pr(6) [unfolded this] show ?thesis using step eq pr(1-5) by auto
    qed
  qed
qed

lemma search_match_ok:
  assumes inv: "enc_inv src s" and pos: "le_src_literal s \<le> pos" "pos + 9 \<le> int (length src)" and h: "history_set_ok src pos h"
    and x: "x = word_at src (nat pos)"
  shows "\<exists>m. search_match s pos x h = Inr m \<and> (lm_length m = 0 \<or> match_ok src s m)"
proof -
  have p0: "0 \<le> pos" "length src < 2 ^ 31 - 1" using inv pos by (auto simp: enc_inv_def)
  note ck = check_history_ok [OF inv p0(1) pos(2) h _ x]
  have i0: "found_ok src pos \<lparr>lm_pos = pos, lm_ref = 0, lm_length = 0\<rparr>" by (simp add: found_ok_def)
  obtain a where a: "check_history s pos x h 0 \<lparr>lm_pos = pos, lm_ref = 0, lm_length = 0\<rparr> = Inr a" "found_ok src pos a" using ck [OF _ i0, of 0] by auto
  obtain b where b: "check_history s pos x h 1 a = Inr b" "found_ok src pos b" using ck [OF _ a(2), of 1] by auto
  obtain c where c: "check_history s pos x h 2 b = Inr c" "found_ok src pos c" using ck [OF _ b(2), of 2] by auto
  obtain m where m: "check_history s pos x h 3 c = Inr m" "found_ok src pos m" using ck [OF _ c(2), of 3] by auto
  show ?thesis
  proof (cases "lm_length m = 0")
    case True
    then have "search_match s pos x h = Inr m" using a(1) b(1) c(1) m(1) by (simp add: search_match_def)
    then show ?thesis using True by auto
  next
    case False
    define n where "n = min (lm_length m) (100 * 2359)"
    have f: "lm_pos m = pos" "0 \<le> lm_ref m" "lm_ref m < pos" "pos - lm_ref m < 262140" "match_at src (nat pos) (lm_length m) (nat (pos - lm_ref m))"
      using m(2) False by (auto simp: found_ok_def)
    have "match_at src (nat pos) n (nat (pos - lm_ref m))"
      using f(5) match_at_add [of src "nat pos" n "lm_length m - n" "nat (pos - lm_ref m)"] by (simp add: n_def)
    from lzfse_expand_backward_ok [OF inv f(2,3) pos(1) this] obtain p r where e: "lzfse_expand_backward s pos (lm_ref m) = Inr (p, r)"
      "p - r = pos - lm_ref m" "le_src_literal s \<le> p" "p \<le> pos" "0 \<le> r" "match_at src (nat p) (n + nat (pos - p)) (nat (pos - lm_ref m))" by auto
    have "n + nat (pos - p) \<le> length src" using e(6) by (simp add: match_at_def)
    then have md: "(n + nat (pos - p)) mod 2 ^ 32 = n + nat (pos - p)" using p0(2) by simp
    have "search_match s pos x h = Inr \<lparr>lm_pos = p, lm_ref = r, lm_length = (n + nat (pos - p)) mod 2 ^ 32\<rparr>"
      using False a(1) b(1) c(1) m(1) e(1) f(1) by (auto simp: search_match_def Let_def n_def min_def)
    moreover have "match_ok src s \<lparr>lm_pos = p, lm_ref = r, lm_length = (n + nat (pos - p)) mod 2 ^ 32\<rparr>"
      unfolding md using e f by (simp add: match_ok_def)
    ultimately show ?thesis by blast
  qed
qed

section \<open>The loop over the positions\<close>

definition pending_ok :: "string \<Rightarrow> lzfse_encoder_state \<Rightarrow> bool" where
  "pending_ok src s \<longleftrightarrow> lm_length (le_pending s) = 0 \<or> match_ok src s (le_pending s)"

text \<open>A step of the front end before the history is updated.\<close>

definition handled :: "string \<Rightarrow> lzfse_encoder_state \<Rightarrow> (bool \<times> lzfse_encoder_state) result \<Rightarrow> bool" where
  "handled src s X \<longleftrightarrow> (\<exists>ok s'. X = Inr (ok, s') \<and> length (le_dst s') = length (le_dst s) \<and>
     (ok \<longrightarrow> enc_inv src s' \<and> pending_ok src s' \<and> le_history s' = le_history s \<and> le_src_encode_i s' = le_src_encode_i s))"

lemma enc_inv_pending: "enc_inv src (s\<lparr>le_pending := m\<rparr>) \<longleftrightarrow> enc_inv src s"
  by (simp add: enc_inv_def values_ok_def collected_def)

lemma backend_handled:
  assumes "backed src s q X" and "lm_length m = 0 \<or> (q \<le> lm_pos m \<and> match_ok src s m)"
  shows "handled src s (backend X (\<lambda>s. s\<lparr>le_pending := m\<rparr>))"
proof -
  obtain ok s' where X: "X = Inr (ok, s')" "length (le_dst s') = length (le_dst s)" "ok \<Longrightarrow> pushed src s q s'" using assms(1) by (auto simp: backed_def)
  have be: "backend X (\<lambda>s. s\<lparr>le_pending := m\<rparr>) = Inr (ok, if ok then s'\<lparr>le_pending := m\<rparr> else s')" by (simp add: backend_def X(1))
  show ?thesis unfolding handled_def
    by (rule exI [of _ ok], rule exI [of _ "if ok then s'\<lparr>le_pending := m\<rparr> else s'"])
      (use be X assms(2) in \<open>auto simp: enc_inv_pending pending_ok_def match_ok_def pushed_def same_front_def\<close>)
qed

lemma handle_match_ok:
  assumes inv: "enc_inv src s" and pend: "pending_ok src s" and m: "lm_length incoming = 0 \<or> match_ok src s incoming"
    and pos: "pos \<le> int (length src)"
  shows "handled src s (handle_match s pos incoming)"
proof -
  let ?p = "le_pending s"
  have refl: "handled src s (Inr (True, s))" using inv pend by (auto simp: handled_def)
  have no: "lm_length LZFSE_NO_MATCH = 0" by (simp add: LZFSE_NO_MATCH_def)
  have bm: "handled src s (backend (lzfse_backend_match s x) (\<lambda>s. s\<lparr>le_pending := LZFSE_NO_MATCH\<rparr>))" if "match_ok src s x" for x
    by (rule backend_handled [OF lzfse_backend_match_ok [OF inv that]]) (simp add: no)
  have lit: "handled src s (lzfse_backend_literals s 315)" if "pos - le_src_literal s > 8 * 315" "lm_length ?p = 0"
  proof -
    have "backed src s (le_src_literal s + 315) (lzfse_backend_literals s 315)" by (rule lzfse_backend_literals_ok [OF inv]) (use that pos in auto)
    then show ?thesis using that(2) by (auto simp: backed_def handled_def pushed_def same_front_def pending_ok_def)
  qed
  have set: "handled src s (Inr (True, s\<lparr>le_pending := incoming\<rparr>))" using inv m by (auto simp: handled_def enc_inv_pending pending_ok_def match_ok_def)
  have next_m: "handled src s (backend (lzfse_backend_match s ?p) (\<lambda>s. s\<lparr>le_pending := incoming\<rparr>))"
    if "match_ok src s ?p" "match_ok src s incoming" "lm_pos ?p + int (lm_length ?p) \<le> lm_pos incoming"
    by (rule backend_handled [OF lzfse_backend_match_ok [OF inv that(1)]]) (use that(2,3) in simp)
  have pm: "match_ok src s ?p" if "lm_length ?p \<noteq> 0" using pend that by (simp add: pending_ok_def)
  show ?thesis unfolding handle_match_def Let_def
    using refl bm lit set next_m pm m by (auto split: if_splits)
qed

definition front_inv :: "string \<Rightarrow> lzfse_encoder_state \<Rightarrow> bool" where
  "front_inv src s \<longleftrightarrow> enc_inv src s \<and> pending_ok src s \<and> history_ok src s \<and> 0 \<le> le_src_encode_i s"

text \<open>The entries of a position that was passed.\<close>

lemma history_entry_mono: "history_entry src l p v \<Longrightarrow> l \<le> l' \<Longrightarrow> history_entry src l' p v"
  by (auto simp: history_entry_def)

lemma history_set_ok_mono: "history_set_ok src l h \<Longrightarrow> l \<le> l' \<Longrightarrow> history_set_ok src l' h"
  by (auto simp: history_set_ok_def intro: history_entry_mono)

lemma history_set_ok_push:
  assumes "history_set_ok src pos h" and "0 \<le> pos" and "pos < 2 ^ 31"
  shows "history_set_ok src (pos + 1) \<lparr>hs_pos = offset_to_s32 pos # take 3 (hs_pos h), hs_value = word_at src (nat pos) # take 3 (hs_value h)\<rparr>"
proof -
  have "offset_to_s32 pos = pos" using assms(2,3) by (rule offset_to_s32_eq)
  moreover have "history_entry src (pos + 1) ((pos # take 3 (hs_pos h)) ! k) ((word_at src (nat pos) # take 3 (hs_value h)) ! k)" if "k < 4" for k
  proof (cases k)
    case 0
    then show ?thesis using assms(2) by (simp add: history_entry_def)
  next
    case (Suc j)
    then have "history_entry src pos (hs_pos h ! j) (hs_value h ! j)" "j < 3" using assms(1) that by (auto simp: history_set_ok_def)
    then show ?thesis using Suc history_entry_mono [of src pos _ _ "pos + 1"] by simp
  qed
  ultimately show ?thesis using assms(1) by (simp add: history_set_ok_def)
qed

lemma lzfse_encode_step_ok:
  assumes inv: "front_inv src s" and pos: "le_src_encode_i s + 9 \<le> int (length src)"
  shows "\<exists>ok s'. lzfse_encode_step s = Inr (ok, s') \<and> length (le_dst s') = length (le_dst s) \<and>
    (ok \<longrightarrow> front_inv src s' \<and> le_src_encode_i s' = le_src_encode_i s + 1)"
proof -
  define p where "p = le_src_encode_i s"
  have i: "enc_inv src s" "pending_ok src s" "history_ok src s" "0 \<le> p" "le_src s = src" "le_base s = 0" "length src < 2 ^ 31 - 1"
    using inv by (auto simp: front_inv_def enc_inv_def p_def)
  define x where "x = word_at src (nat p)"
  have ld: "load4_at (le_src s) (le_base s + p) = Inr x" using i pos by (simp add: load4_at_word x_def p_def [symmetric])
  define h where "h = le_history s (hashX x)"
  have h: "history_set_ok src p h" using i(3) hashX_less by (simp add: history_ok_def h_def p_def)
  define X where "X = (if p < le_src_literal s then Inr (True, s) else rbind (search_match s p x h) (handle_match s p))"
  have "handled src s X"
  proof (cases "p < le_src_literal s")
    case True
    then show ?thesis using i(1,2) by (auto simp: X_def handled_def)
  next
    case False
    from search_match_ok [OF i(1) _ _ h x_def] False pos obtain m where
      m: "search_match s p x h = Inr m" "lm_length m = 0 \<or> match_ok src s m" by (auto simp: p_def)
    have "handled src s (handle_match s p m)" by (rule handle_match_ok [OF i(1,2) m(2)]) (use pos in \<open>simp add: p_def\<close>)
    then show ?thesis using False m(1) by (simp add: X_def)
  qed
  then obtain ok s' where s': "X = Inr (ok, s')" "length (le_dst s') = length (le_dst s)"
    "ok \<Longrightarrow> enc_inv src s' \<and> pending_ok src s' \<and> le_history s' = le_history s \<and> le_src_encode_i s' = p" by (auto simp: handled_def p_def)
  define H where "H = \<lparr>hs_pos = offset_to_s32 p # take 3 (hs_pos h), hs_value = x # take 3 (hs_value h)\<rparr>"
  define s2 where "s2 = (if ok then s'\<lparr>le_history := (le_history s')(hashX x := H), le_src_encode_i := le_src_encode_i s' + 1\<rparr> else s')"
  have "lzfse_encode_step s = Inr (ok, s2)"
    unfolding lzfse_encode_step_def Let_def p_def [symmetric] ld rbind_simps h_def [symmetric] X_def [symmetric] s'(1) H_def [symmetric]
    by (simp add: s2_def)
  moreover have "front_inv src s2 \<and> le_src_encode_i s2 = p + 1" if ok
  proof -
    have H: "history_set_ok src (p + 1) H"
      using history_set_ok_push [OF h i(4)] pos i(7) by (simp add: H_def x_def p_def)
    have "history_ok src s2"
      using i(3) H s'(3) [OF that] that history_set_ok_mono [of src p _ "p + 1"] by (auto simp: history_ok_def s2_def p_def)
    moreover have "enc_inv src s2" "pending_ok src s2"
      using s'(3) [OF that] that by (simp_all add: s2_def enc_inv_def values_ok_def collected_def pending_ok_def match_ok_def)
    ultimately show ?thesis using s'(3) [OF that] that i(4) by (simp add: front_inv_def s2_def)
  qed
  ultimately show ?thesis using s'(2) by (auto simp: s2_def p_def)
qed

lemma encode_positions_ok:
  "front_inv src s \<Longrightarrow> le_src_encode_i s + int n + 8 \<le> int (length src) \<Longrightarrow>
   \<exists>ok s'. encode_positions n s = Inr (ok, s') \<and> length (le_dst s') = length (le_dst s) \<and> (ok \<longrightarrow> front_inv src s')"
proof (induction n arbitrary: s)
  case (Suc n)
  from lzfse_encode_step_ok [OF Suc.prems(1)] Suc.prems(2) obtain ok s1 where s1: "lzfse_encode_step s = Inr (ok, s1)"
    "length (le_dst s1) = length (le_dst s)" "ok \<Longrightarrow> front_inv src s1 \<and> le_src_encode_i s1 = le_src_encode_i s + 1" by auto
  show ?case
  proof (cases ok)
    case True
    from Suc.IH [of s1] s1(3) [OF True] Suc.prems(2) obtain ok' s' where "encode_positions n s1 = Inr (ok', s')"
      "length (le_dst s') = length (le_dst s1)" "ok' \<Longrightarrow> front_inv src s'" by auto
    then show ?thesis using s1 True by (intro exI [of _ ok'] exI [of _ s']) auto
  next
    case False
    then show ?thesis using s1 by (intro exI [of _ False] exI [of _ s1]) simp
  qed
qed auto

section \<open>The whole encoder\<close>

lemma lzfse_encode_base_ok:
  assumes "front_inv src s" and "le_src_encode_i s = 0"
  shows "\<exists>ok s'. lzfse_encode_base s = Inr (ok, s') \<and> length (le_dst s') = length (le_dst s) \<and> (ok \<longrightarrow> front_inv src s')"
proof -
  let ?s = "s\<lparr>le_src_encode_end := le_src_end s - 8\<rparr>"
  have e: "le_src_end s = int (length src)" using assms(1) by (simp add: front_inv_def enc_inv_def)
  have inv: "front_inv src ?s"
    using assms(1) by (simp add: front_inv_def enc_inv_def values_ok_def collected_def pending_ok_def match_ok_def history_ok_def)
  show ?thesis
  proof (cases "8 \<le> length src")
    case True
    then show ?thesis using encode_positions_ok [OF inv, of "nat (int (length src) - 8)"] assms(2) e by (simp add: lzfse_encode_base_def Let_def)
  next
    case False
    then show ?thesis using inv e assms(2) by (intro exI [of _ True] exI [of _ ?s]) (simp add: lzfse_encode_base_def Let_def)
  qed
qed

lemma lzfse_encode_finish_ok:
  assumes inv: "front_inv src s"
  shows "\<exists>ok s'. lzfse_encode_finish s = Inr (ok, s') \<and> length (le_dst s') = length (le_dst s) \<and>
    (ok \<longrightarrow> le_dp s' \<le> length (le_dst s) \<and> 0 < le_dp s' \<and> recovers src (take (le_dp s') (le_dst s')))"
proof -
  define X where "X = (if lm_length (le_pending s) > 0 then backend (lzfse_backend_match s (le_pending s)) (\<lambda>s. s\<lparr>le_pending := LZFSE_NO_MATCH\<rparr>)
            else Inr (True, s))"
  have ei: "enc_inv src s" "pending_ok src s" using inv by (auto simp: front_inv_def)
  have "handled src s X"
  proof (cases "lm_length (le_pending s) > 0")
    case True
    then have "match_ok src s (le_pending s)" using ei(2) by (simp add: pending_ok_def)
    from backend_handled [OF lzfse_backend_match_ok [OF ei(1) this], of LZFSE_NO_MATCH] show ?thesis using True by (simp add: X_def LZFSE_NO_MATCH_def)
  next
    case False
    then show ?thesis using ei by (auto simp: X_def handled_def)
  qed
  then obtain ok s1 where s1: "X = Inr (ok, s1)" "length (le_dst s1) = length (le_dst s)" "ok \<Longrightarrow> enc_inv src s1" by (auto simp: handled_def)
  show ?thesis
  proof (cases ok)
    case False
    then show ?thesis using s1 by (intro exI [of _ False] exI [of _ s1]) (simp add: lzfse_encode_finish_def X_def [symmetric])
  next
    case True
    have i1: "enc_inv src s1" using s1(3) True .
    then have p: "le_src_literal s1 \<le> int (length src)" "le_src_end s1 = int (length src)" by (auto simp: enc_inv_def)
    define L where "L = le_src_end s1 - le_src_literal s1"
    define Y where "Y = (if L > 0 then lzfse_backend_literals s1 L else Inr (True, s1))"
    have "backed src s1 (int (length src)) Y"
    proof (cases "L > 0")
      case True
      then show ?thesis using lzfse_backend_literals_ok [OF i1 True] p(2) by (simp add: Y_def L_def)
    next
      case False
      then show ?thesis using i1 p by (intro backedI [of _ True s1]) (simp_all add: Y_def L_def pushed_def)
    qed
    then obtain ok2 s2 where s2: "Y = Inr (ok2, s2)" "length (le_dst s2) = length (le_dst s1)" "ok2 \<Longrightarrow> pushed src s1 (int (length src)) s2"
      by (auto simp: backed_def)
    have fin: "lzfse_encode_finish s = (if \<not> ok2 then Inr (False, s2) else lzfse_backend_end_of_stream s2)"
      unfolding lzfse_encode_finish_def X_def [symmetric] s1(1) rbind_simps prod.case Let_def L_def [symmetric] Y_def [symmetric] s2(1)
      using True by simp
    show ?thesis
    proof (cases ok2)
      case False
      then show ?thesis using fin s1(2) s2(2) by (intro exI [of _ False] exI [of _ s2]) simp
    next
      case True
      then show ?thesis using lzfse_backend_end_of_stream_ok [of src s2] s2(2,3) s1(2) fin by (auto simp: pushed_def)
    qed
  qed
qed

lemma initial_front_inv:
  assumes "length src \<le> 2147221508"
  shows "front_inv src ((initial_encoder_state dst src)\<lparr>le_src_end := int (length src)\<rparr>)"
proof -
  let ?s = "(initial_encoder_state dst src)\<lparr>le_src_end := int (length src)\<rparr>"
  have c: "collected ?s = []" "values_ok ?s"
    by (simp_all add: collected_def block_lmds_def values_ok_def initial_encoder_state_def lzfse_encode_init_def Let_def)
  have "blocks_ok src 0 [] 0" by simp
  then have "enc_inv src ?s" unfolding enc_inv_def c(1) using assms c(2)
    by (intro conjI exI [of _ "[]"] exI [of _ 0]) (simp_all add: initial_encoder_state_def lzfse_encode_init_def Let_def)
  moreover have "history_ok src ?s"
    by (simp add: history_ok_def history_set_ok_def history_entry_def initial_encoder_state_def lzfse_encode_init_def Let_def)
  moreover have "pending_ok src ?s" "le_src_encode_i ?s = 0"
    by (simp_all add: pending_ok_def LZFSE_NO_MATCH_def initial_encoder_state_def lzfse_encode_init_def Let_def)
  ultimately show ?thesis by (simp add: front_inv_def)
qed

lemma try_lzfse_encodes:
  assumes "length src \<le> 2147221508"
  shows "encodes src (try_lzfse dst src) (length dst)"
proof -
  let ?s = "(initial_encoder_state dst src)\<lparr>le_src_end := int (length src)\<rparr>"
  have fr: "encode_front (length src) (initial_encoder_state dst src) = Inr (True, length src, ?s)" using assms by (simp add: encode_front_def)
  have i: "le_src_encode_i ?s = 0" "length (le_dst ?s) = length dst" by (simp_all add: initial_encoder_state_def)
  obtain ok s1 where s1: "lzfse_encode_base ?s = Inr (ok, s1)" "length (le_dst s1) = length dst" "ok \<Longrightarrow> front_inv src s1"
    using lzfse_encode_base_ok [OF initial_front_inv [OF assms] i(1)] i(2) by force
  have un: "encodes src (try_uncompressed (le_dst s) src (length src)) (length dst)" if "length (le_dst s) = length dst" for s
    using try_uncompressed_encodes [of src "le_dst s"] assms that by simp
  show ?thesis
  proof (cases ok)
    case False
    then show ?thesis using un [OF s1(2)] fr s1(1) by (simp add: try_lzfse_def)
  next
    case True
    obtain ok2 s2 where s2: "lzfse_encode_finish s1 = Inr (ok2, s2)" "length (le_dst s2) = length dst"
      "ok2 \<Longrightarrow> le_dp s2 \<le> length dst \<and> 0 < le_dp s2 \<and> recovers src (take (le_dp s2) (le_dst s2))"
      using lzfse_encode_finish_ok [OF s1(3) [OF True]] s1(2) by force
    have tl: "try_lzfse dst src = (if \<not> ok2 then try_uncompressed (le_dst s2) src (length src) else Inr (le_dp s2, le_dst s2))"
      using fr s1(1) True s2(1) by (simp add: try_lzfse_def)
    show ?thesis
    proof (cases ok2)
      case False
      then show ?thesis using tl un [OF s2(2)] by simp
    next
      case True
      then show ?thesis using tl s2(2) s2(3) [OF True] by (simp add: encodes_def)
    qed
  qed
qed

lemma lzfse_encode_buffer_encodes:
  assumes "length src \<le> 2147221508"
  shows "encodes src (lzfse_encode_buffer dst src) (length dst)"
  using try_uncompressed_encodes [of src] try_lzvn_encodes [of src] try_lzfse_encodes [OF assms] assms by (simp add: lzfse_encode_buffer_def)

end
