(* ===== verification/Util.thy ===== *)
theory Util
  imports LZFSE_Search
begin

text \<open>
  The helpers of \<open>src/util.cc\<close> and \<open>includes/util.h\<close>: conversion between integers and decimal
  strings as the C++ library does it, \<open>RedisStrToInt\<close> and \<open>RedisStrToSize\<close>, the byte images
  written by \<open>BitsToString\<close> and read back by \<open>PeekInt\<close>, \<open>PeekSize\<close> and \<open>PeekString\<close>, and the
  buffer-growing loops around the LZFSE library.

  The record \<open>env\<close> holds the process-wide compression flag and the formatting of floating point
  numbers by the C library, used when JSON is printed.
\<close>

section \<open>Decimal strings\<close>

definition is_digit :: "char \<Rightarrow> bool" where
  "is_digit c \<longleftrightarrow> \<not> (c < CHR ''0'' \<or> c > CHR ''9'')"

definition is_space :: "char \<Rightarrow> bool" where
  "is_space c \<longleftrightarrow> of_char c \<in> {32, 9, 10, 11, 12, 13 :: nat}"

definition digit_char :: "nat \<Rightarrow> char" where
  "digit_char n = char_of (48 + n)"

definition digit_val :: "char \<Rightarrow> nat" where
  "digit_val c = of_char c - 48"

definition digits_val :: "string \<Rightarrow> nat" where
  "digits_val ds = foldl (\<lambda>a c. 10 * a + digit_val c) 0 ds"

fun nat_to_string :: "nat \<Rightarrow> string" where
  "nat_to_string n =
     (if n < 10 then [digit_char n] else nat_to_string (n div 10) @ [digit_char (n mod 10)])"

declare nat_to_string.simps [simp del]

text \<open>\<open>std::to_string\<close> on \<open>int\<close>; on \<open>std::size_t\<close> it is \<open>nat_to_string\<close>.\<close>

definition to_string_int :: "int \<Rightarrow> string" where
  "to_string_int i = (if i < 0 then CHR ''-'' # nat_to_string (nat (- i)) else nat_to_string (nat i))"

definition to_string :: "int32 \<Rightarrow> string" where
  "to_string w = to_string_int (sint w)"

text \<open>\<open>std::stoi\<close> and \<open>std::stoull\<close> in base ten: white space, a sign, the longest run of digits.\<close>

definition split_sign :: "string \<Rightarrow> bool \<times> string" where
  "split_sign s = (case s of [] \<Rightarrow> (False, [])
     | c # cs \<Rightarrow> if c = CHR ''-'' then (True, cs) else if c = CHR ''+'' then (False, cs) else (False, s))"

definition stoi :: "string \<Rightarrow> int32 result" where
  "stoi s = (case split_sign (dropWhile is_space s) of (neg, t) \<Rightarrow>
     (let ds = takeWhile is_digit t;
          v = (if neg then - int (digits_val ds) else int (digits_val ds))
      in if ds = [] then Inl Invalid_Argument
         else if fits_int v then Inr (word_of_int v)
         else Inl Out_Of_Range))"

definition stoull_digits :: "string \<Rightarrow> size_t result" where
  "stoull_digits ds =
     (if ds = [] then Inl Invalid_Argument
      else if digits_val ds < 2 ^ 64 then Inr (word_of_nat (digits_val ds))
      else Inl Out_Of_Range)"

section \<open>Numbers in commands\<close>

text \<open>
  \<open>RedisStrToSize\<close> and \<open>RedisStrToInt\<close> work on \<open>value.GetRaw()\<close>.  \<open>None\<close> is the empty optional.
  In \<open>RedisStrToSize\<close> the argument of \<open>std::stoull\<close> consists of digits only.
\<close>

definition RedisStrToSize :: "string \<Rightarrow> size_t option result" where
  "RedisStrToSize raw =
     (if raw = [] then Inr None
      else if \<not> list_all is_digit raw then Inr None
      else rbind (stoull_digits raw) (\<lambda>v. Inr (Some v)))"

definition RedisStrToInt :: "string \<Rightarrow> int32 option result" where
  "RedisStrToInt raw =
     (case raw of
        [] \<Rightarrow> Inr None
      | c0 # ab \<Rightarrow>
          if c0 \<noteq> CHR ''-'' then
            (if \<not> list_all is_digit raw then Inr None
             else rbind (stoi raw) (\<lambda>v. Inr (Some v)))
          else
            (if ab = [] then Inr None
             else if \<not> list_all is_digit ab then Inr None
             else rbind (stoi ab) (\<lambda>v. rbind (int_neg v) (\<lambda>w. Inr (Some w)))))"

section \<open>Byte images\<close>

text \<open>The template \<open>BitsToString\<close> copies the object representation, little-endian on x86-64.\<close>

definition BitsToString :: "'a::len word \<Rightarrow> string" where
  "BitsToString w = le_bytes (LENGTH('a) div 8) (unat w)"

text \<open>\<open>PeekInt\<close> and \<open>PeekSize\<close> read with the checked \<open>at\<close>; \<open>PeekString\<close> does not check.\<close>

definition PeekInt :: "int32 decoder" where
  "PeekInt source =
     (if length source < 4 then Inl Out_Of_Range
      else Inr (word_of_nat (of_le_bytes (take 4 source)), drop 4 source))"

definition PeekSize :: "size_t decoder" where
  "PeekSize source =
     (if length source < 8 then Inl Out_Of_Range
      else Inr (word_of_nat (of_le_bytes (take 8 source)), drop 8 source))"

definition PeekString :: "nat \<Rightarrow> string decoder" where
  "PeekString n source =
     (if length source < n then Inl Undefined
      else Inr (take n source, drop n source))"

section \<open>Compression\<close>

record env =
  env_compress :: bool
  printf_double :: "string \<Rightarrow> string"

definition DefineCompress :: "env \<Rightarrow> bool" where
  "DefineCompress cf = env_compress cf"

definition EnCompress :: "env \<Rightarrow> env" where
  "EnCompress cf = cf\<lparr>env_compress := True\<rparr>"

definition DisCompress :: "env \<Rightarrow> env" where
  "DisCompress cf = cf\<lparr>env_compress := False\<rparr>"

text \<open>
  Both loops count their rounds in an \<open>int\<close>; the increment after round \<open>INT_MAX\<close> overflows, so
  the loops are total as functions with that failure as a value.  The vector \<open>destination\<close> lives
  across the rounds: \<open>resize\<close> keeps what an earlier round wrote and appends zero bytes.
\<close>

definition resize_vector :: "string \<Rightarrow> nat \<Rightarrow> string" where
  "resize_vector v n = take n v @ replicate (n - length v) (char_of (0 :: nat))"

function Compress_loop :: "string \<Rightarrow> string \<Rightarrow> nat \<Rightarrow> string result" where
  "Compress_loop data destination rounds =
     rbind (lzfse_encode_buffer (resize_vector destination (length data * rounds)) data) (\<lambda>(len, destination1).
       if len \<noteq> 0 then Inr (take len destination1)
       else if rounds < 2147483647 then Compress_loop data destination1 (Suc rounds)
       else Inl Undefined)"
  by pat_completeness auto
termination
  by (relation "measure (\<lambda>(data, destination, rounds). 2147483647 - rounds)") auto

function Decompress_loop :: "string \<Rightarrow> string \<Rightarrow> nat \<Rightarrow> string result" where
  "Decompress_loop data destination rounds =
     rbind (lzfse_decode_buffer (resize_vector destination (length data * rounds)) data) (\<lambda>(len, destination1).
       if len \<noteq> length destination1 then Inr (take len destination1)
       else if rounds < 2147483647 then Decompress_loop data destination1 (Suc rounds)
       else Inl Undefined)"
  by pat_completeness auto
termination
  by (relation "measure (\<lambda>(data, destination, rounds). 2147483647 - rounds)") auto

declare Compress_loop.simps [simp del] Decompress_loop.simps [simp del]

definition Compress :: "string \<Rightarrow> string result" where
  "Compress data = (if data = [] then Inr [] else Compress_loop data [] 1)"

definition Decompress :: "string \<Rightarrow> string result" where
  "Decompress data = Decompress_loop data [] 5"

section \<open>Decimal conversion is inverse to printing\<close>

lemma is_digit_digit_char [simp]: "n < 10 \<Longrightarrow> is_digit (digit_char n)"
  by (auto simp: is_digit_def digit_char_def less_char_def)

lemma digit_val_digit_char [simp]: "n < 10 \<Longrightarrow> digit_val (digit_char n) = n"
  by (simp add: digit_val_def digit_char_def)

lemma digits_val_snoc [simp]: "digits_val (ds @ [c]) = 10 * digits_val ds + digit_val c"
  by (simp add: digits_val_def)

lemma digits_val_Nil [simp]: "digits_val [] = 0"
  by (simp add: digits_val_def)

lemma nat_to_string_digits [simp]: "list_all is_digit (nat_to_string n)"
proof (induction n rule: nat_to_string.induct)
  case (1 n)
  then show ?case by (subst nat_to_string.simps) simp
qed

lemma nat_to_string_not_Nil [simp]: "nat_to_string n \<noteq> []"
  by (subst nat_to_string.simps) simp

lemma digits_val_nat_to_string [simp]: "digits_val (nat_to_string n) = n"
proof (induction n rule: nat_to_string.induct)
  case (1 n)
  show ?case
  proof (cases "n < 10")
    case True
    then show ?thesis by (subst nat_to_string.simps) (simp add: digits_val_def)
  next
    case False
    with 1 show ?thesis by (subst nat_to_string.simps) simp
  qed
qed

lemma digit_not_special:
  "is_digit c \<Longrightarrow> c \<noteq> CHR ''-'' \<and> c \<noteq> CHR ''+'' \<and> \<not> is_space c"
  by (auto simp: is_digit_def is_space_def less_char_def)

lemma stoi_all_digits:
  assumes "ds \<noteq> []" and "list_all is_digit ds"
  shows "stoi ds = (if digits_val ds \<le> nat INT_MAX
                    then Inr (word_of_nat (digits_val ds)) else Inl Out_Of_Range)"
proof -
  obtain c cs where ds: "ds = c # cs" using assms(1) by (cases ds) auto
  have c: "is_digit c" using assms(2) ds by simp
  have tw: "takeWhile is_digit ds = ds" using assms(2) by (simp add: takeWhile_eq_all_conv list_all_iff)
  have sp: "split_sign (dropWhile is_space ds) = (False, ds)"
    using digit_not_special [OF c] by (simp add: ds split_sign_def)
  show ?thesis
    using assms(1) by (simp add: stoi_def tw sp Let_def fits_int_def)
qed

lemma stoi_minus_digits:
  assumes "ds \<noteq> []" and "list_all is_digit ds"
  shows "stoi (CHR ''-'' # ds) =
           (if int (digits_val ds) \<le> - INT_MIN
            then Inr (word_of_int (- int (digits_val ds))) else Inl Out_Of_Range)"
proof -
  have tw: "takeWhile is_digit ds = ds" using assms(2) by (simp add: takeWhile_eq_all_conv list_all_iff)
  have sp: "\<not> is_space (CHR ''-'')" by (simp add: is_space_def)
  show ?thesis
    using assms(1) by (simp add: stoi_def split_sign_def tw sp Let_def fits_int_def)
qed

lemma stoi_to_string [simp]: "stoi (to_string w) = Inr w"
proof -
  have r: "INT_MIN \<le> sint w" "sint w \<le> INT_MAX"
    using fits_int_sint [of w] by (auto simp: fits_int_def)
  show ?thesis
  proof (cases "sint w < 0")
    case True
    then have "to_string w = CHR ''-'' # nat_to_string (nat (- sint w))"
      by (simp add: to_string_def to_string_int_def)
    with True r show ?thesis
      by (simp add: stoi_minus_digits nat_to_string_digits)
  next
    case False
    then have "to_string w = nat_to_string (nat (sint w))"
      by (simp add: to_string_def to_string_int_def)
    with False r show ?thesis
      by (simp add: stoi_all_digits nat_to_string_digits of_nat_nat)
  qed
qed

lemma to_string_not_Nil [simp]: "to_string w \<noteq> []"
  by (simp add: to_string_def to_string_int_def)

lemma to_string_inject [simp]: "to_string v = to_string w \<longleftrightarrow> v = w"
  by (metis Inr_inject stoi_to_string)

section \<open>Integer literals\<close>

text \<open>The strings the server takes for a number: digits, with an optional leading minus.\<close>

definition int_literal :: "string \<Rightarrow> bool" where
  "int_literal raw \<longleftrightarrow>
     (case raw of [] \<Rightarrow> False
      | c # cs \<Rightarrow> if c = CHR ''-'' then cs \<noteq> [] \<and> list_all is_digit cs else list_all is_digit raw)"

definition literal_val :: "string \<Rightarrow> int" where
  "literal_val raw =
     (case raw of [] \<Rightarrow> 0
      | c # cs \<Rightarrow> if c = CHR ''-'' then - int (digits_val cs) else int (digits_val raw))"

lemma RedisStrToInt_eq:
  "RedisStrToInt raw =
     (if \<not> int_literal raw then Inr None
      else if \<bar>literal_val raw\<bar> \<le> INT_MAX then Inr (Some (word_of_int (literal_val raw)))
      else Inl Out_Of_Range)"
proof (cases raw)
  case Nil
  then show ?thesis by (simp add: RedisStrToInt_def int_literal_def)
next
  case (Cons c cs)
  show ?thesis
  proof (cases "c = CHR ''-''")
    case True
    have neg: "int_neg (word_of_nat n) = Inr (- word_of_nat n)" if "n \<le> 2147483647" for n
    proof -
      have "sint (word_of_int (int n) :: int32) = int n"
        using that by (intro sint_of_int) (simp add: fits_int_def)
      with that show ?thesis by (simp add: int_neg_def fits_int_def)
    qed
    show ?thesis
      using True Cons
      by (auto simp: RedisStrToInt_def int_literal_def literal_val_def stoi_all_digits neg)
  next
    case False
    with Cons show ?thesis
      by (auto simp: RedisStrToInt_def int_literal_def literal_val_def stoi_all_digits)
  qed
qed

lemma nat_to_string_head:
  obtains c cs where "nat_to_string n = c # cs" and "c \<noteq> CHR ''-''"
proof -
  obtain c cs where eq: "nat_to_string n = c # cs"
    by (meson list.exhaust nat_to_string_not_Nil)
  then have "is_digit c" using nat_to_string_digits [of n] by simp
  with eq that show thesis by (blast dest: digit_not_special)
qed

lemma int_literal_nat_to_string [simp]: "int_literal (nat_to_string n)"
  using nat_to_string_digits [of n]
  by (cases rule: nat_to_string_head [of n]) (simp_all add: int_literal_def)

lemma literal_val_nat_to_string [simp]: "literal_val (nat_to_string n) = int n"
  using digits_val_nat_to_string [of n]
  by (cases rule: nat_to_string_head [of n]) (simp_all add: literal_val_def)

lemma int_literal_to_string [simp]: "int_literal (to_string w)"
  by (cases "sint w < 0") (simp_all add: to_string_def to_string_int_def int_literal_def [of "_ # _"])

lemma literal_val_to_string [simp]: "literal_val (to_string w) = sint w"
  by (cases "sint w < 0") (simp_all add: to_string_def to_string_int_def literal_val_def [of "_ # _"])

lemma RedisStrToInt_to_string:
  "RedisStrToInt (to_string w) = (if sint w = INT_MIN then Inl Out_Of_Range else Inr (Some w))"
  using fits_int_sint [of w] by (auto simp: RedisStrToInt_eq fits_int_def)

section \<open>Byte images are read back\<close>

lemma length_BitsToString [simp]: "length (BitsToString (w :: 'a::len word)) = LENGTH('a) div 8"
  by (simp add: BitsToString_def)

lemma PeekInt_BitsToString [simp, codec_simps]: "PeekInt (BitsToString w @ rest) = Inr (w, rest)"
proof -
  have "unat w < 2 ^ 32" using unsigned_less [of w] by simp
  then show ?thesis by (simp add: PeekInt_def BitsToString_def)
qed

lemma PeekSize_BitsToString [simp, codec_simps]: "PeekSize (BitsToString w @ rest) = Inr (w, rest)"
proof -
  have "unat w < 2 ^ 64" using unsigned_less [of w] by simp
  then show ?thesis by (simp add: PeekSize_def BitsToString_def)
qed

lemma PeekString_append [simp, codec_simps]: "PeekString (length s) (s @ rest) = Inr (s, rest)"
  by (simp add: PeekString_def)

lemma unat_size_t [simp]: "n < 2 ^ 64 \<Longrightarrow> unat (word_of_nat n :: size_t) = n"
  by (simp add: unat_of_nat)

section \<open>The compression loops\<close>

text \<open>
  An uncompressed block with its header and the end marker takes twelve bytes more than the input,
  so thirteen times the input are always enough and the loop ends by its thirteenth round.
\<close>

lemma length_resize_vector [simp]: "length (resize_vector v n) = n"
  by (simp add: resize_vector_def)

lemma Compress_loop_returns:
  assumes "s \<noteq> []" and "length s \<le> 2147221508" and "rounds \<le> 13"
  shows "\<exists>c. Compress_loop s destination rounds = Inr c \<and> c \<noteq> [] \<and> recovers s c \<and> length c \<le> length s * 13"
  using assms(3)
proof (induction "13 - rounds" arbitrary: rounds destination rule: less_induct)
  case less
  obtain n d where nd: "lzfse_encode_buffer (resize_vector destination (length s * rounds)) s = Inr (n, d)"
    "length d = length s * rounds" "n \<le> length s * rounds" "n \<noteq> 0 \<Longrightarrow> recovers s (take n d)"
    "length s + 12 \<le> length s * rounds \<Longrightarrow> n \<noteq> 0"
    using lzfse_encode_buffer_encodes [OF assms(2), of "resize_vector destination (length s * rounds)"]
    by (auto simp: encodes_def)
  show ?case
  proof (cases "n = 0")
    case False
    then have "take n d \<noteq> []" using nd(2,3) by auto
    moreover have "length (take n d) \<le> length s * 13"
      using nd(2,3) less.prems by (simp add: le_trans [OF _ mult_le_mono2])
    ultimately show ?thesis using nd(1,4) False by (subst Compress_loop.simps) simp
  next
    case True
    have "rounds \<noteq> 13"
    proof
      assume "rounds = 13"
      then have "length s + 12 \<le> length s * rounds" using assms(1) by (cases s) simp_all
      then show False using nd(5) True by simp
    qed
    then have "Suc rounds \<le> 13" and "13 - Suc rounds < 13 - rounds" using less.prems by simp_all
    then obtain c where "Compress_loop s d (Suc rounds) = Inr c" "c \<noteq> []" "recovers s c" "length c \<le> length s * 13"
      using less.hyps by blast
    then show ?thesis using nd(1) True less.prems by (subst Compress_loop.simps) simp
  qed
qed

lemma Decompress_loop_returns:
  assumes "recovers s c" and "c \<noteq> []" and "length s < 2147483647" and "0 < rounds" and "rounds \<le> 2147483647"
  shows "Decompress_loop c destination rounds = Inr s"
  using assms(4,5)
proof (induction "2147483647 - rounds" arbitrary: rounds destination rule: less_induct)
  case less
  let ?n = "length c * rounds"
  have "?n \<noteq> 0" using assms(2) less.prems(1) by simp
  then have "resize_vector destination ?n \<noteq> []" by (metis length_resize_vector list.size(3))
  then obtain d where d: "lzfse_decode_buffer (resize_vector destination ?n) c = Inr (min ?n (length s), d)"
    "length d = ?n" "take (min ?n (length s)) d = take ?n s"
    using assms(1) by (auto simp: recovers_def)
  show ?case
  proof (cases "length s < ?n")
    case True
    then show ?thesis using d by (subst Decompress_loop.simps) simp
  next
    case False
    have "rounds \<le> ?n" using assms(2) by (cases c) simp_all
    then have "rounds < 2147483647" using False assms(3) by linarith
    moreover from this have "Decompress_loop c d (Suc rounds) = Inr s" using less.hyps by simp
    ultimately show ?thesis using d False by (subst Decompress_loop.simps) (simp add: min_absorb1)
  qed
qed

lemma Compress_Decompress:
  assumes "s \<noteq> []" and "length s \<le> 2147221508"
  shows "\<exists>c. Compress s = Inr c \<and> c \<noteq> [] \<and> length c < 2 ^ 64 \<and> Decompress c = Inr s"
proof -
  obtain c where c: "Compress_loop s [] 1 = Inr c" "c \<noteq> []" "recovers s c" "length c \<le> length s * 13"
    using Compress_loop_returns [of s 1 "[]"] assms by auto
  then have "Decompress_loop c [] 5 = Inr s" using assms(2) by (intro Decompress_loop_returns) simp_all
  moreover have "length c < 2 ^ 64" using c(4) assms(2) by simp
  ultimately show ?thesis using c assms(1) by (auto simp: Compress_def Decompress_def)
qed

text \<open>
  The empty string is not compressed at all, and decompressing it does not return: the buffer stays
  empty and counts as full in every round, until the round counter overflows.
\<close>

lemma lzfse_decode_buffer_Nil: "lzfse_decode_buffer [] [] = Inr (0, [])"
  by (simp add: lzfse_decode_buffer_def initial_decoder_state_def lzfse_decode.simps lzfse_decode_step_def
      begin_block_def)

lemma Decompress_Nil: "Decompress [] = Inl Undefined"
proof -
  have "Decompress_loop [] [] rounds = Inl Undefined" if "rounds \<le> 2147483647" for rounds
    using that
  proof (induction "2147483647 - rounds" arbitrary: rounds rule: less_induct)
    case less
    then show ?case
      by (subst Decompress_loop.simps) (simp add: resize_vector_def lzfse_decode_buffer_Nil)
  qed
  then show ?thesis by (simp add: Decompress_def)
qed

end
