(* ===== verification/Codec.thy ===== *)
theory Codec
  imports Util
begin

text \<open>
  The contract between a stored type and everything that embeds it in the dump file: what
  \<open>EncodeValue\<close> writes, \<open>DecodeValue\<close> reads back from the front of the deque and removes,
  whatever bytes follow.  The containers, the key-value entries and the databases are encoded
  by writing a count and then the elements one after the other, so their round trips are
  consequences of the contract of the element, proved here once.
\<close>

text \<open>\<open>for (i = 0; i < n; i++) { T x; x.DecodeValue(source); s.add(x); }\<close>\<close>

fun decode_fold :: "'a decoder \<Rightarrow> ('a \<Rightarrow> 's \<Rightarrow> 's) \<Rightarrow> nat \<Rightarrow> 's \<Rightarrow> 's decoder" where
  "decode_fold dec add 0 s source = Inr (s, source)"
| "decode_fold dec add (Suc n) s source =
     rbind (dec source) (\<lambda>(x, source'). decode_fold dec add n (add x s) source')"

text \<open>Two values one after the other.\<close>

definition encode_pair :: "('a \<Rightarrow> string result) \<Rightarrow> ('b \<Rightarrow> string result) \<Rightarrow> 'a \<times> 'b \<Rightarrow> string result" where
  "encode_pair enc1 enc2 = (\<lambda>(x, y). rbind (enc1 x) (\<lambda>s. rbind (enc2 y) (\<lambda>t. Inr (s @ t))))"

definition decode_pair :: "'a decoder \<Rightarrow> 'b decoder \<Rightarrow> ('a \<times> 'b) decoder" where
  "decode_pair dec1 dec2 source =
     rbind (dec1 source) (\<lambda>(x, source'). rbind (dec2 source') (\<lambda>(y, source''). Inr ((x, y), source'')))"

text \<open>A count and that many values.\<close>

definition encode_seq :: "('a \<Rightarrow> string result) \<Rightarrow> 'a list \<Rightarrow> string result" where
  "encode_seq enc xs =
     rbind (concat_results enc xs)
       (\<lambda>body. Inr (BitsToString (word_of_nat (length xs) :: size_t) @ body))"

definition decode_seq :: "'a decoder \<Rightarrow> ('a \<Rightarrow> 's \<Rightarrow> 's) \<Rightarrow> 's \<Rightarrow> 's decoder" where
  "decode_seq dec add s source =
     rbind (PeekSize source) (\<lambda>(n, source'). decode_fold dec add (unat n) s source')"

text \<open>A decoder only removes bytes from the front of its source.\<close>

definition consuming :: "'a decoder \<Rightarrow> bool" where
  "consuming dec \<longleftrightarrow> (\<forall>source x source'. dec source = Inr (x, source') \<longrightarrow> length source' \<le> length source)"

lemma consumingI: "(\<And>source x source'. dec source = Inr (x, source') \<Longrightarrow> length source' \<le> length source) \<Longrightarrow> consuming dec"
  by (simp add: consuming_def)

lemma consumingD: "consuming dec \<Longrightarrow> dec source = Inr (x, source') \<Longrightarrow> length source' \<le> length source"
  by (simp add: consuming_def)

lemma consuming_Peek: "consuming PeekInt" "consuming PeekSize" "consuming (PeekString n)"
  by (auto simp: consuming_def PeekInt_def PeekSize_def PeekString_def split: if_splits)

text \<open>One decoder after another.\<close>

lemma consuming_bind:
  assumes "consuming dec" and "\<And>x. consuming (f x)"
  shows "consuming (\<lambda>source. rbind (dec source) (\<lambda>(x, source'). f x source'))"
proof (rule consumingI)
  fix source y r assume "rbind (dec source) (\<lambda>(x, source'). f x source') = Inr (y, r)"
  then obtain x s where "dec source = Inr (x, s)" "f x s = Inr (y, r)"
    by (auto simp: rbind_eq_Inr_iff)
  from consumingD [OF assms(1) this(1)] consumingD [OF assms(2) this(2)]
  show "length r \<le> length source" by simp
qed

lemma consuming_return: "consuming (\<lambda>source. Inr (x, source))"
  by (simp add: consuming_def)

lemma consuming_pair:
  assumes "consuming dec1" and "consuming dec2"
  shows "consuming (decode_pair dec1 dec2)"
  unfolding decode_pair_def
  by (intro consuming_bind consuming_return assms)

lemma consuming_fold: "consuming dec \<Longrightarrow> consuming (decode_fold dec add n s)"
proof (induction n arbitrary: s)
  case (Suc n)
  have "decode_fold dec add (Suc n) s =
      (\<lambda>source. rbind (dec source) (\<lambda>(x, source'). decode_fold dec add n (add x s) source'))"
    by (simp add: fun_eq_iff)
  then show ?case using Suc by (auto intro!: consuming_bind)
qed (simp add: consuming_def)

lemma consuming_seq: "consuming dec \<Longrightarrow> consuming (decode_seq dec add s)"
  unfolding decode_seq_def by (intro consuming_bind consuming_Peek consuming_fold)

text \<open>
  What comes back is \<open>norm x\<close>: a hash or a set is rebuilt by insertions and may iterate in another
  order than the one that was written.
\<close>

locale codec_norm =
  fixes enc :: "'a \<Rightarrow> string result"
    and dec :: "'b decoder"
    and ok :: "'a \<Rightarrow> bool"
    and norm :: "'a \<Rightarrow> 'b"
  assumes roundtrip: "ok x \<Longrightarrow> \<exists>bs. enc x = Inr bs \<and> (\<forall>rest. dec (bs @ rest) = Inr (norm x, rest))"
begin

lemma roundtripE:
  assumes "ok x"
  obtains bs where "enc x = Inr bs" and "\<And>rest. dec (bs @ rest) = Inr (norm x, rest)"
  using roundtrip [OF assms] by blast

lemma fold_roundtrip:
  "list_all ok xs \<Longrightarrow>
     \<exists>bs. concat_results enc xs = Inr bs \<and>
       (\<forall>s rest. decode_fold dec add (length xs) s (bs @ rest) = Inr (fold add (map norm xs) s, rest))"
proof (induction xs)
  case Nil
  show ?case by simp
next
  case (Cons x xs)
  from Cons.prems obtain b where b: "enc x = Inr b" "\<And>rest. dec (b @ rest) = Inr (norm x, rest)"
    by (auto elim: roundtripE)
  from Cons obtain bs where bs: "concat_results enc xs = Inr bs"
      "\<And>s rest. decode_fold dec add (length xs) s (bs @ rest) = Inr (fold add (map norm xs) s, rest)"
    by auto
  have "concat_results enc (x # xs) = Inr (b @ bs)" by (simp add: b(1) bs(1))
  moreover have "decode_fold dec add (length (x # xs)) s ((b @ bs) @ rest) =
      Inr (fold add (map norm (x # xs)) s, rest)" for s rest
    by (simp add: b(2) bs(2))
  ultimately show ?case by blast
qed

lemma seq_roundtrip:
  assumes "list_all ok xs" and "length xs < 2 ^ 64"
  shows "\<exists>bs. encode_seq enc xs = Inr bs \<and>
           (\<forall>s rest. decode_seq dec add s (bs @ rest) = Inr (fold add (map norm xs) s, rest))"
proof -
  from fold_roundtrip [OF assms(1), of add] obtain body where
    "concat_results enc xs = Inr body"
    "\<And>s rest. decode_fold dec add (length xs) s (body @ rest) = Inr (fold add (map norm xs) s, rest)"
    by blast
  with assms(2) show ?thesis by (auto simp: encode_seq_def decode_seq_def)
qed

end

text \<open>The exact contract, of the strings and of what is built from them in a fixed order.\<close>

locale codec =
  fixes enc :: "'a \<Rightarrow> string result"
    and dec :: "'a decoder"
    and ok :: "'a \<Rightarrow> bool"
  assumes exact: "ok x \<Longrightarrow> \<exists>bs. enc x = Inr bs \<and> (\<forall>rest. dec (bs @ rest) = Inr (x, rest))"

sublocale codec \<subseteq> codec_norm enc dec ok "\<lambda>x. x"
  by unfold_locales (rule exact)

locale codec_pair =
  first: codec enc1 dec1 ok1 + second: codec enc2 dec2 ok2
  for enc1 :: "'a \<Rightarrow> string result" and dec1 :: "'a decoder" and ok1 :: "'a \<Rightarrow> bool"
    and enc2 :: "'b \<Rightarrow> string result" and dec2 :: "'b decoder" and ok2 :: "'b \<Rightarrow> bool"

sublocale codec_pair \<subseteq> pair: codec "encode_pair enc1 enc2" "decode_pair dec1 dec2"
  "\<lambda>(x, y). ok1 x \<and> ok2 y"
proof
  fix p :: "'a \<times> 'b"
  assume "case p of (x, y) \<Rightarrow> ok1 x \<and> ok2 y"
  then obtain x y where p: "p = (x, y)" "ok1 x" "ok2 y" by (cases p) auto
  obtain s where "enc1 x = Inr s" "\<And>rest. dec1 (s @ rest) = Inr (x, rest)"
    using first.roundtrip [OF p(2)] by blast
  moreover obtain t where "enc2 y = Inr t" "\<And>rest. dec2 (t @ rest) = Inr (y, rest)"
    using second.roundtrip [OF p(3)] by blast
  ultimately show "\<exists>bs. encode_pair enc1 enc2 p = Inr bs \<and>
      (\<forall>rest. decode_pair dec1 dec2 (bs @ rest) = Inr (p, rest))"
    by (simp add: p(1) encode_pair_def decode_pair_def)
qed

text \<open>The scores of a sorted set are stored as the byte image of an \<open>int\<close>.\<close>

interpretation int_image: codec "\<lambda>w :: int32. Inr (BitsToString w)" PeekInt "\<lambda>_. True"
  by unfold_locales simp

end
