(* ===== verification/Object_Types.thy ===== *)
theory Object_Types
  imports Prelude
begin

text \<open>
  The tags of \<open>includes/objects/object.h\<close>: the kind of a stored object and the encoding of a
  string, with the one-byte codes they have in the dump file.  \<open>UNKNOWN\<close> and a byte without a
  tag reach an \<open>assert(0)\<close> in the source.
\<close>

datatype ObjectType =
    ObjectType_OBJ
  | ObjectType_STR
  | ObjectType_LIST
  | ObjectType_HASH
  | ObjectType_SET
  | ObjectType_ZSET
  | ObjectType_EXPIRE_ENTRY
  | ObjectType_UNKNOWN

fun ObjectTypeToChar :: "ObjectType \<Rightarrow> char result" where
  "ObjectTypeToChar ObjectType_OBJ = Inr (char_of (0 :: nat))"
| "ObjectTypeToChar ObjectType_STR = Inr (char_of (1 :: nat))"
| "ObjectTypeToChar ObjectType_LIST = Inr (char_of (2 :: nat))"
| "ObjectTypeToChar ObjectType_HASH = Inr (char_of (3 :: nat))"
| "ObjectTypeToChar ObjectType_SET = Inr (char_of (4 :: nat))"
| "ObjectTypeToChar ObjectType_ZSET = Inr (char_of (5 :: nat))"
| "ObjectTypeToChar ObjectType_EXPIRE_ENTRY = Inr (char_of (6 :: nat))"
| "ObjectTypeToChar ObjectType_UNKNOWN = Inl Assertion"

definition CharToObjectType :: "char \<Rightarrow> ObjectType result" where
  "CharToObjectType c =
     (let n = of_char c :: nat in
      if n = 0 then Inr ObjectType_OBJ
      else if n = 1 then Inr ObjectType_STR
      else if n = 2 then Inr ObjectType_LIST
      else if n = 3 then Inr ObjectType_HASH
      else if n = 4 then Inr ObjectType_SET
      else if n = 5 then Inr ObjectType_ZSET
      else if n = 6 then Inr ObjectType_EXPIRE_ENTRY
      else Inl Assertion)"

datatype EncodingType =
    EncodingType_INT
  | EncodingType_STR_RAW
  | EncodingType_STR_COMPRESS
  | EncodingType_LIST
  | EncodingType_ARRAY
  | EncodingType_HASHMAP
  | EncodingType_RBTREE
  | EncodingType_UNKNOWN

fun EncodingTypeToChar :: "EncodingType \<Rightarrow> char result" where
  "EncodingTypeToChar EncodingType_INT = Inr (char_of (0 :: nat))"
| "EncodingTypeToChar EncodingType_STR_RAW = Inr (char_of (1 :: nat))"
| "EncodingTypeToChar EncodingType_STR_COMPRESS = Inr (char_of (2 :: nat))"
| "EncodingTypeToChar EncodingType_LIST = Inr (char_of (3 :: nat))"
| "EncodingTypeToChar EncodingType_ARRAY = Inr (char_of (4 :: nat))"
| "EncodingTypeToChar EncodingType_HASHMAP = Inr (char_of (5 :: nat))"
| "EncodingTypeToChar EncodingType_RBTREE = Inr (char_of (6 :: nat))"
| "EncodingTypeToChar EncodingType_UNKNOWN = Inl Assertion"

definition CharToEncodingType :: "char \<Rightarrow> EncodingType result" where
  "CharToEncodingType c =
     (let n = of_char c :: nat in
      if n = 0 then Inr EncodingType_INT
      else if n = 1 then Inr EncodingType_STR_RAW
      else if n = 2 then Inr EncodingType_STR_COMPRESS
      else if n = 3 then Inr EncodingType_LIST
      else if n = 4 then Inr EncodingType_ARRAY
      else if n = 5 then Inr EncodingType_HASHMAP
      else if n = 6 then Inr EncodingType_RBTREE
      else Inl Assertion)"

lemma CharToObjectType_ObjectTypeToChar [simp]:
  "ObjectTypeToChar t = Inr c \<Longrightarrow> CharToObjectType c = Inr t"
  by (cases t) (auto simp: CharToObjectType_def)

lemma ObjectTypeToChar_CharToObjectType:
  "CharToObjectType c = Inr t \<Longrightarrow> ObjectTypeToChar t = Inr c"
  by (auto simp: CharToObjectType_def Let_def split: if_splits)
    (metis char_of_char)+

lemma CharToEncodingType_EncodingTypeToChar [simp]:
  "EncodingTypeToChar t = Inr c \<Longrightarrow> CharToEncodingType c = Inr t"
  by (cases t) (auto simp: CharToEncodingType_def)

end
