(* ===== verification/Str_Object.thy ===== *)
theory Str_Object
  imports Codec Object_Types
begin

text \<open>
  The class \<open>Str\<close> of \<open>includes/objects/str.h\<close> and \<open>src/objects/str.cc\<close>: a byte string with an
  encoding tag.  Keys, list and set members, hash fields and plain values are all of this class.
  Each operation holds the latch of the object from beginning to end, so it is one function on
  the state of the object; the copy operations copy both fields.
\<close>

record Str =
  str_data :: string
  str_enc :: EncodingType

section \<open>Construction and comparison\<close>

text \<open>
  The loop shared by the constructor and by \<open>Set\<close>: \<open>i\<close> is the index of the head of the rest,
  \<open>n\<close> is \<open>data_.size()\<close>.
\<close>

fun classify_loop :: "nat \<Rightarrow> nat \<Rightarrow> string \<Rightarrow> EncodingType" where
  "classify_loop i n [] = EncodingType_INT"
| "classify_loop i n (c # cs) =
     (if c < CHR ''0'' \<or> c > CHR ''9'' then
        (if i = 0 \<and> c = CHR ''-'' \<and> n > 1 then classify_loop (Suc i) n cs
         else EncodingType_STR_RAW)
      else classify_loop (Suc i) n cs)"

definition Str_ctor :: "string \<Rightarrow> Str" where
  "Str_ctor d = \<lparr>str_data = d, str_enc = classify_loop 0 (length d) d\<rparr>"

text \<open>\<open>Str{}\<close>: value initialisation zeroes the tag, and the first enumerator is \<open>INT\<close>.\<close>

definition Str_default :: Str where
  "Str_default = \<lparr>str_data = [], str_enc = EncodingType_INT\<rparr>"

text \<open>
  The comparisons look at \<open>data_\<close> only; the branches on the addresses fix the order in which the
  two latches are taken, and comparing an object with itself gives what the data gives.
\<close>

definition Str_eq :: "Str \<Rightarrow> Str \<Rightarrow> bool" where
  "Str_eq a b \<longleftrightarrow> str_data a = str_data b"

definition Str_less :: "Str \<Rightarrow> Str \<Rightarrow> bool" where
  "Str_less a b \<longleftrightarrow> str_data a < str_data b"

definition Str_le :: "Str \<Rightarrow> Str \<Rightarrow> bool" where
  "Str_le a b \<longleftrightarrow> str_data a \<le> str_data b"

definition Str_greater :: "Str \<Rightarrow> Str \<Rightarrow> bool" where
  "Str_greater a b \<longleftrightarrow> \<not> Str_le a b"

definition Str_ge :: "Str \<Rightarrow> Str \<Rightarrow> bool" where
  "Str_ge a b \<longleftrightarrow> \<not> Str_less a b"

section \<open>Operations\<close>

definition Str_GetRaw :: "Str \<Rightarrow> string" where
  "Str_GetRaw s = str_data s"

definition Str_Set :: "string \<Rightarrow> Str \<Rightarrow> Str" where
  "Str_Set d s = s\<lparr>str_data := d, str_enc := classify_loop 0 (length d) d\<rparr>"

definition Str_Append :: "string \<Rightarrow> Str \<Rightarrow> (nat \<times> Str) result" where
  "Str_Append d s =
     (let s1 = s\<lparr>str_data := str_data s @ d\<rparr> in
      if str_enc s1 = EncodingType_INT then
        rbind (RedisStrToInt (str_data s1)) (\<lambda>intval.
          (let s2 = (if intval = None then s1\<lparr>str_enc := EncodingType_STR_RAW\<rparr> else s1)
           in Inr (length (str_data s2), s2)))
      else Inr (length (str_data s1), s1))"

definition Str_IncrBy :: "int32 \<Rightarrow> Str \<Rightarrow> (string \<times> Str) result" where
  "Str_IncrBy delta s =
     (if str_enc s \<noteq> EncodingType_INT then Inr ([], s)
      else rbind (RedisStrToInt (str_data s)) (\<lambda>intval.
        (case intval of
           None \<Rightarrow> Inr ([], s\<lparr>str_enc := EncodingType_STR_RAW\<rparr>)
         | Some raw_int \<Rightarrow>
             rbind (int_add raw_int delta) (\<lambda>raw_int'.
               (let d = to_string raw_int' in Inr (d, s\<lparr>str_data := d\<rparr>))))))"

definition Str_DecrBy :: "int32 \<Rightarrow> Str \<Rightarrow> (string \<times> Str) result" where
  "Str_DecrBy delta s = rbind (int_neg delta) (\<lambda>d. Str_IncrBy d s)"

definition Str_Len :: "Str \<Rightarrow> nat" where
  "Str_Len s = length (str_data s)"

definition Str_Empty :: "Str \<Rightarrow> bool" where
  "Str_Empty s \<longleftrightarrow> str_data s = []"

definition Str_GetEncodingType :: "Str \<Rightarrow> EncodingType" where
  "Str_GetEncodingType s = str_enc s"

definition Str_GetObjectType :: "Str \<Rightarrow> ObjectType" where
  "Str_GetObjectType s = ObjectType_STR"

definition Str_EncodeValue :: "env \<Rightarrow> Str \<Rightarrow> string result" where
  "Str_EncodeValue cf s =
     rbind (EncodingTypeToChar (str_enc s)) (\<lambda>t.
       if \<not> (str_enc s = EncodingType_STR_RAW \<or> str_enc s = EncodingType_INT \<or>
              str_enc s = EncodingType_STR_COMPRESS) then Inl Assertion
       else if str_enc s = EncodingType_STR_RAW then
         (let len = BitsToString (word_of_nat (length (str_data s)) :: size_t) in
          if DefineCompress cf then
            rbind (EncodingTypeToChar EncodingType_STR_COMPRESS) (\<lambda>tc.
              rbind (Compress (str_data s)) (\<lambda>cprs.
                if length cprs = 0 then Inl Assertion
                else Inr ([tc] @ BitsToString (word_of_nat (length cprs) :: size_t) @ len @ cprs)))
          else Inr ([t] @ len @ str_data s))
       else
         rbind (stoi (str_data s)) (\<lambda>d. Inr ([t] @ BitsToString d)))"

definition Str_DecodeValue :: "env \<Rightarrow> Str decoder" where
  "Str_DecodeValue cf source =
     (case source of
        [] \<Rightarrow> Inl Undefined
      | c # source1 \<Rightarrow>
          rbind (CharToEncodingType c) (\<lambda>etyp.
            if etyp = EncodingType_INT then
              rbind (PeekInt source1) (\<lambda>(v, source2).
                Inr (\<lparr>str_data = to_string v, str_enc = EncodingType_INT\<rparr>, source2))
            else if etyp = EncodingType_STR_RAW then
              rbind (PeekSize source1) (\<lambda>(n, source2).
                rbind (PeekString (unat n) source2) (\<lambda>(d, source3).
                  Inr (\<lparr>str_data = d, str_enc = EncodingType_STR_RAW\<rparr>, source3)))
            else if etyp = EncodingType_STR_COMPRESS then
              rbind (PeekSize source1) (\<lambda>(size_compress, source2).
                rbind (PeekSize source2) (\<lambda>(size_origin, source3).
                  if size_compress = 0 then Inl Assertion
                  else
                    rbind (PeekString (unat size_compress) source3) (\<lambda>(cprs, source4).
                      rbind (Decompress cprs) (\<lambda>d.
                        if size_origin \<noteq> word_of_nat (length d) then Inl Assertion
                        else Inr (\<lparr>str_data = d, str_enc = EncodingType_STR_RAW\<rparr>, source4)))))
            else Inl Assertion))"

definition Str_Fork :: "string \<Rightarrow> Str \<Rightarrow> string" where
  "Str_Fork key s = ''SET '' @ key @ '' '' @ str_data s"

section \<open>The encoding tag\<close>

lemma classify_loop_tail: "0 < i \<Longrightarrow> classify_loop i n cs = EncodingType_INT \<longleftrightarrow> list_all is_digit cs"
  by (induction cs arbitrary: i) (auto simp: is_digit_def)

lemma classify_loop_range: "classify_loop i n cs \<in> {EncodingType_INT, EncodingType_STR_RAW}"
  by (induction cs arbitrary: i) auto

text \<open>The tag is \<open>INT\<close> exactly for integer literals and for the empty string.\<close>

lemma classify_INT_iff:
  "classify_loop 0 (length d) d = EncodingType_INT \<longleftrightarrow> d = [] \<or> int_literal d"
proof (cases d)
  case (Cons c cs)
  then show ?thesis
    by (auto simp: int_literal_def classify_loop_tail is_digit_def less_char_def)
qed simp

lemma classify_RAW_iff:
  "classify_loop 0 (length d) d = EncodingType_STR_RAW \<longleftrightarrow> d \<noteq> [] \<and> \<not> int_literal d"
  using classify_loop_range [of 0 "length d" d] classify_INT_iff [of d] by auto

text \<open>The type invariant of the class, kept by every operation that returns.\<close>

definition Str_wf :: "Str \<Rightarrow> bool" where
  "Str_wf s \<longleftrightarrow>
     (str_enc s = EncodingType_INT \<and> (str_data s = [] \<or> int_literal (str_data s))) \<or>
     str_enc s = EncodingType_STR_RAW"

lemma Str_wf_ctor [simp]: "Str_wf (Str_ctor d)"
  using classify_loop_range [of 0 "length d" d] classify_INT_iff [of d]
  by (auto simp: Str_wf_def Str_ctor_def)

lemma Str_wf_default [simp]: "Str_wf Str_default"
  by (simp add: Str_wf_def Str_default_def)

lemma Str_wf_Set [simp]: "Str_wf (Str_Set d s)"
  using classify_loop_range [of 0 "length d" d] classify_INT_iff [of d]
  by (auto simp: Str_wf_def Str_Set_def)

lemma Str_wf_Append: "Str_wf s \<Longrightarrow> Str_Append d s = Inr (n, s') \<Longrightarrow> Str_wf s'"
  by (auto simp: Str_wf_def Str_Append_def Let_def RedisStrToInt_eq result_simps split: if_splits)

lemma Str_wf_IncrBy: "Str_wf s \<Longrightarrow> Str_IncrBy delta s = Inr (r, s') \<Longrightarrow> Str_wf s'"
  by (auto simp: Str_wf_def Str_IncrBy_def Let_def result_simps split: if_splits option.splits)

lemma Str_wf_DecrBy: "Str_wf s \<Longrightarrow> Str_DecrBy delta s = Inr (r, s') \<Longrightarrow> Str_wf s'"
  by (auto simp: Str_DecrBy_def result_simps intro: Str_wf_IncrBy)

lemma Str_wf_DecodeValue: "Str_DecodeValue cf source = Inr (s, rest) \<Longrightarrow> Str_wf s"
  by (auto simp: Str_DecodeValue_def Str_wf_def result_simps split: list.splits if_splits)

section \<open>Arithmetic\<close>

lemma Str_IncrBy_eq:
  assumes "Str_wf s" and "str_enc s = EncodingType_INT" and "str_data s \<noteq> []"
  shows "Str_IncrBy delta s =
    (let v = literal_val (str_data s) + sint delta in
     if \<bar>literal_val (str_data s)\<bar> > INT_MAX then Inl Out_Of_Range
     else if fits_int v
     then Inr (to_string_int v, s\<lparr>str_data := to_string_int v\<rparr>)
     else Inl Undefined)"
proof -
  define v where "v = literal_val (str_data s)"
  have lit: "int_literal (str_data s)" using assms(1-3) by (auto simp: Str_wf_def)
  have sv: "sint (word_of_int v :: int32) = v" if "\<bar>v\<bar> \<le> INT_MAX"
    using that by (intro sint_of_int) (auto simp: fits_int_def abs_le_iff)
  have sum: "sint (word_of_int v + delta) = v + sint delta" if "\<bar>v\<bar> \<le> INT_MAX" "fits_int (v + sint delta)"
    using int_add_sint [of "word_of_int v" delta] that by (simp add: int_add_def sv)
  show ?thesis
    using assms(2) lit
    by (auto simp: Str_IncrBy_def RedisStrToInt_eq int_add_def sv sum to_string_def Let_def
        simp flip: v_def)
qed

section \<open>Round trip through the dump file\<close>

definition canonical_int :: "string \<Rightarrow> bool" where
  "canonical_int d \<longleftrightarrow> (case stoi d of Inl e \<Rightarrow> False | Inr w \<Rightarrow> to_string w = d)"

lemma canonical_int_iff: "canonical_int d \<longleftrightarrow> (\<exists>w. d = to_string w)"
  by (auto simp: canonical_int_def split: sum.splits)

text \<open>The strings whose image in the dump file determines them.\<close>

definition Str_storable :: "Str \<Rightarrow> bool" where
  "Str_storable s \<longleftrightarrow>
     (str_enc s = EncodingType_INT \<and> canonical_int (str_data s)) \<or>
     (str_enc s = EncodingType_STR_RAW \<and> str_data s \<noteq> [] \<and> length (str_data s) \<le> 2147221508)"

lemma Str_roundtrip:
  assumes "Str_storable s"
  shows "\<exists>bs. Str_EncodeValue cf s = Inr bs \<and>
           (\<forall>rest. Str_DecodeValue cf (bs @ rest) = Inr (s, rest))"
proof (cases "str_enc s = EncodingType_INT")
  case True
  with assms obtain w where "str_data s = to_string w"
    by (auto simp: Str_storable_def canonical_int_iff)
  with True show ?thesis
    by (cases s) (simp add: Str_EncodeValue_def Str_DecodeValue_def CharToEncodingType_def)
next
  case False
  with assms have raw: "str_enc s = EncodingType_STR_RAW" "str_data s \<noteq> []"
      "length (str_data s) \<le> 2147221508"
    by (auto simp: Str_storable_def)
  show ?thesis
  proof (cases "env_compress cf")
    case True
    from raw obtain c where c: "Compress (str_data s) = Inr c" "c \<noteq> []"
        "length c < 2 ^ 64" "Decompress c = Inr (str_data s)"
      using Compress_Decompress by blast
    have "word_of_nat (length c) \<noteq> (0 :: size_t)"
      using c(2,3) by (metis length_0_conv unat_0 unat_size_t)
    with c raw True show ?thesis
      by (cases s) (simp add: Str_EncodeValue_def Str_DecodeValue_def CharToEncodingType_def
          DefineCompress_def)
  next
    case False
    with raw show ?thesis
      by (cases s) (simp add: Str_EncodeValue_def Str_DecodeValue_def CharToEncodingType_def
          DefineCompress_def)
  qed
qed

interpretation str_codec: codec "Str_EncodeValue cf" "Str_DecodeValue cf"
  Str_storable for cf
  by unfold_locales (simp add: Str_roundtrip)

text \<open>A number is stored by value: what comes back is its canonical spelling.\<close>

lemma Str_int_image:
  assumes "str_enc s = EncodingType_INT" and "stoi (str_data s) = Inr w"
  shows "\<exists>bs. Str_EncodeValue cf s = Inr bs \<and>
    (\<forall>rest. Str_DecodeValue cf (bs @ rest) =
      Inr (\<lparr>str_data = to_string w, str_enc = EncodingType_INT\<rparr>, rest))"
  using assms
  by (simp add: Str_EncodeValue_def Str_DecodeValue_def CharToEncodingType_def)

lemma consuming_Str_DecodeValue: "consuming (Str_DecodeValue cf)"
proof (rule consumingI)
  fix source x r assume dec: "Str_DecodeValue cf source = Inr (x, r)"
  then obtain c source1 where source: "source = c # source1"
    by (cases source) (simp_all add: Str_DecodeValue_def)
  with dec obtain etyp where "CharToEncodingType c = Inr etyp"
    by (auto simp: Str_DecodeValue_def rbind_eq_Inr_iff)
  with dec source have "length r \<le> length source1"
    by (auto simp: Str_DecodeValue_def rbind_eq_Inr_iff split: if_splits
        dest!: consumingD [OF consuming_Peek(1)] consumingD [OF consuming_Peek(2)]
          consumingD [OF consuming_Peek(3)])
  with source show "length r \<le> length source" by simp
qed

end
