(* ===== verification/Containers.thy ===== *)
theory Containers
  imports Str_Object
begin

text \<open>
  The standard containers the objects are built from, with the contracts their clients use.

  \<open>std::unordered_map<Str, V>\<close> and \<open>std::unordered_set<Str>\<close> compare keys with \<open>operator==\<close>, that
  is by \<open>data_\<close>.  They are modelled by the list of their entries in iteration order.  The library
  leaves that order open; the model puts a new entry in front, and what the clients prove goes
  through the locales below, which speak of the entries as a multiset.

  \<open>std::map<Str, V>\<close> and \<open>std::multimap<int, V>\<close> are sorted lists; an iterator into one of them is
  the suffix that starts at its element.
\<close>

section \<open>Unordered maps\<close>

type_synonym 'v umap = "(Str \<times> 'v) list"

fun um_find :: "Str \<Rightarrow> 'v umap \<Rightarrow> 'v option" where
  "um_find k [] = None"
| "um_find k ((k', v) # m) = (if Str_eq k' k then Some v else um_find k m)"

text \<open>\<open>insert\<close> leaves an existing entry alone; \<open>um_assign\<close> is an assignment through \<open>it->second\<close>.\<close>

definition um_insert :: "Str \<Rightarrow> 'v \<Rightarrow> 'v umap \<Rightarrow> 'v umap" where
  "um_insert k v m = (case um_find k m of None \<Rightarrow> (k, v) # m | Some _ \<Rightarrow> m)"

definition um_assign :: "Str \<Rightarrow> 'v \<Rightarrow> 'v umap \<Rightarrow> 'v umap" where
  "um_assign k v m = map (\<lambda>(k', v'). if Str_eq k' k then (k', v) else (k', v')) m"

definition um_erase :: "Str \<Rightarrow> 'v umap \<Rightarrow> 'v umap" where
  "um_erase k m = filter (\<lambda>(k', v'). \<not> Str_eq k' k) m"

definition um_wf :: "'v umap \<Rightarrow> bool" where
  "um_wf m \<longleftrightarrow> distinct (map (str_data \<circ> fst) m)"

text \<open>
  The contract.  \<open>ident\<close> is what \<open>operator==\<close> compares of a key; \<open>entries\<close> is what an iteration
  visits.
\<close>

locale keyed_map =
  fixes find :: "'k \<Rightarrow> 'm \<Rightarrow> 'v option"
    and insert_new :: "'k \<Rightarrow> 'v \<Rightarrow> 'm \<Rightarrow> 'm"
    and assign :: "'k \<Rightarrow> 'v \<Rightarrow> 'm \<Rightarrow> 'm"
    and erase :: "'k \<Rightarrow> 'm \<Rightarrow> 'm"
    and entries :: "'m \<Rightarrow> ('k \<times> 'v) list"
    and wf :: "'m \<Rightarrow> bool"
    and ident :: "'k \<Rightarrow> 'i"
  assumes wf_entries: "wf m \<longleftrightarrow> distinct (map (ident \<circ> fst) (entries m))"
    and find_entries: "find k m = map_of (map (\<lambda>(k, v). (ident k, v)) (entries m)) (ident k)"
    and insert_absent: "find k m = None \<Longrightarrow>
      mset (entries (insert_new k v m)) = add_mset (k, v) (mset (entries m))"
    and insert_present: "find k m \<noteq> None \<Longrightarrow> insert_new k v m = m"
    and assign_entries: "mset (entries (assign k v m)) =
      image_mset (\<lambda>(k', v'). if ident k' = ident k then (k', v) else (k', v')) (mset (entries m))"
    and erase_entries: "mset (entries (erase k m)) =
      filter_mset (\<lambda>(k', v'). ident k' \<noteq> ident k) (mset (entries m))"
begin

lemma find_Some_iff:
  assumes "wf m"
  shows "find k m = Some v \<longleftrightarrow> (\<exists>k'. (k', v) \<in> set (entries m) \<and> ident k' = ident k)"
proof -
  have "distinct (map fst (map (\<lambda>(k, v). (ident k, v)) (entries m)))"
    using assms by (simp add: wf_entries comp_def case_prod_beta')
  then show ?thesis by (force simp: find_entries map_of_eq_Some_iff)
qed

lemma find_None_iff: "find k m = None \<longleftrightarrow> ident k \<notin> (ident \<circ> fst) ` set (entries m)"
  by (auto simp: find_entries map_of_eq_None_iff image_iff)

text \<open>What a lookup returns depends on the entries, not on their order.\<close>

lemma wf_cong: "mset (entries m) = mset (entries m') \<Longrightarrow> wf m \<longleftrightarrow> wf m'"
  by (simp add: wf_entries) (metis mset_eq_imp_distinct_iff mset_map)

lemma find_cong: "mset (entries m) = mset (entries m') \<Longrightarrow> wf m \<Longrightarrow> find k m = find k m'"
proof -
  assume eq: "mset (entries m) = mset (entries m')" and "wf m"
  then have "wf m'" by (metis wf_cong)
  moreover have "set (entries m) = set (entries m')" using eq by (rule mset_eq_setD)
  ultimately have "find k m = Some w \<longleftrightarrow> find k m' = Some w" for w
    using \<open>wf m\<close> by (metis find_Some_iff)
  then show ?thesis by (rule option_eqI)
qed

lemma entries_insert_set:
  "set (entries (insert_new k v m)) =
     (if find k m = None then insert (k, v) (set (entries m)) else set (entries m))"
proof (cases "find k m = None")
  case True
  have "set_mset (mset (entries (insert_new k v m))) = insert (k, v) (set (entries m))"
    by (simp only: insert_absent [OF True]) simp
  with True show ?thesis by simp
qed (auto simp: insert_present)

lemma entries_erase_set:
  "set (entries (erase k m)) = {(k', v') \<in> set (entries m). ident k' \<noteq> ident k}"
proof -
  have "set_mset (mset (entries (erase k m))) = {(k', v') \<in> set (entries m). ident k' \<noteq> ident k}"
    by (simp only: erase_entries) auto
  then show ?thesis by simp
qed

lemma entries_assign_set:
  "set (entries (assign k v m)) =
     (\<lambda>(k', v'). if ident k' = ident k then (k', v) else (k', v')) ` set (entries m)"
proof -
  have "set_mset (mset (entries (assign k v m))) =
      (\<lambda>(k', v'). if ident k' = ident k then (k', v) else (k', v')) ` set (entries m)"
    by (simp only: assign_entries) simp
  then show ?thesis by simp
qed

lemma wf_insert: "wf m \<Longrightarrow> wf (insert_new k v m)"
proof (cases "find k m = None")
  case True
  assume "wf m"
  have "mset (map (ident \<circ> fst) (entries (insert_new k v m))) = mset (map (ident \<circ> fst) ((k, v) # entries m))"
    by (simp add: insert_absent [OF True])
  moreover have "distinct (map (ident \<circ> fst) ((k, v) # entries m))"
    using True \<open>wf m\<close> by (simp add: wf_entries find_None_iff)
  ultimately show ?thesis by (metis wf_entries mset_eq_imp_distinct_iff)
qed (simp add: insert_present)

lemma wf_assign: "wf m \<Longrightarrow> wf (assign k v m)"
proof -
  assume "wf m"
  have "mset (map (ident \<circ> fst) (entries (assign k v m))) = mset (map (ident \<circ> fst) (entries m))"
    by (simp add: assign_entries image_mset.compositionality comp_def case_prod_beta' if_distrib
        cong: if_cong)
  with \<open>wf m\<close> show ?thesis by (metis wf_entries mset_eq_imp_distinct_iff)
qed

lemma wf_erase: "wf m \<Longrightarrow> wf (erase k m)"
proof -
  assume "wf m"
  have "mset (map (ident \<circ> fst) (entries (erase k m))) =
      mset (map (ident \<circ> fst) (filter (\<lambda>(k', v'). ident k' \<noteq> ident k) (entries m)))"
    by (simp add: erase_entries)
  moreover have "distinct (map (ident \<circ> fst) (filter (\<lambda>(k', v'). ident k' \<noteq> ident k) (entries m)))"
    using \<open>wf m\<close> by (simp add: wf_entries distinct_map_filter)
  ultimately show ?thesis by (metis wf_entries mset_eq_imp_distinct_iff)
qed

lemma find_insert:
  assumes "wf m"
  shows "find j (insert_new k v m) =
    (if ident j = ident k \<and> find k m = None then Some v else find j m)"
proof (cases "find k m = None")
  case True
  show ?thesis
    using True wf_insert [OF assms, of k v]
    by (intro option_eqI) (force simp: find_Some_iff assms entries_insert_set find_None_iff)
qed (auto simp: insert_present)

lemma find_erase:
  assumes "wf m"
  shows "find j (erase k m) = (if ident j = ident k then None else find j m)"
  using wf_erase [OF assms, of k]
  by (intro option_eqI) (auto simp: find_Some_iff assms entries_erase_set)

lemma find_assign:
  assumes "wf m" and "find k m \<noteq> None"
  shows "find j (assign k v m) = (if ident j = ident k then Some v else find j m)"
  using wf_assign [OF assms(1), of k v] assms(2)
  by (intro option_eqI)
    (force simp: find_Some_iff assms(1) entries_assign_set find_None_iff image_iff split: if_splits)

lemma length_erase:
  assumes "wf m"
  shows "length (entries (erase k m)) = length (entries m) - (if find k m = None then 0 else 1)"
proof -
  let ?P = "\<lambda>(k', v'). ident k' = ident k"
  have "size (mset (entries (erase k m))) = length (filter (\<lambda>x. \<not> ?P x) (entries m))"
    by (simp only: erase_entries) (simp add: case_prod_beta' flip: mset_filter)
  moreover have "length (filter ?P (entries m)) = (if find k m = None then 0 else 1)"
  proof (cases "find k m")
    case None
    then show ?thesis by (force simp: find_None_iff filter_empty_conv)
  next
    case (Some v)
    then obtain k' where k': "(k', v) \<in> set (entries m)" "ident k' = ident k"
      using find_Some_iff assms by blast
    have "filter (\<lambda>y. (ident \<circ> fst) y = (ident \<circ> fst) (k', v)) (entries m) = [(k', v)]"
      using assms k'(1) by (intro filter_eq_singleton_distinct) (auto simp: wf_entries comp_def)
    with k'(2) Some show ?thesis by (simp add: case_prod_beta')
  qed
  ultimately show ?thesis
    using length_filter_le_split [of ?P "entries m"] by simp
qed

text \<open>Inserting a list of entries with new and pairwise different keys adds exactly them.\<close>

lemma fold_insert_entries:
  "distinct (map (ident \<circ> fst) (xs @ entries m)) \<Longrightarrow>
     mset (entries (fold (\<lambda>(k, v). insert_new k v) xs m)) = mset xs + mset (entries m)"
proof (induction xs arbitrary: m)
  case (Cons x xs)
  obtain k v where x: "x = (k, v)" by (cases x)
  from Cons.prems x have none: "find k m = None" by (auto simp: find_None_iff)
  let ?m = "insert_new k v m"
  have eq: "mset (entries ?m) = mset ((k, v) # entries m)" by (simp add: insert_absent [OF none])
  have "mset (map (ident \<circ> fst) (xs @ entries ?m)) = mset (map (ident \<circ> fst) ((x # xs) @ entries m))"
    using eq by (simp add: x)
  then have "distinct (map (ident \<circ> fst) (xs @ entries ?m))"
    using Cons.prems by (metis mset_eq_imp_distinct_iff)
  from Cons.IH [OF this] eq show ?case by (simp add: x)
qed simp

end

lemma um_find_map_of: "um_find k m = map_of (map (\<lambda>(k, v). (str_data k, v)) m) (str_data k)"
  by (induction k m rule: um_find.induct) (auto simp: Str_eq_def)

interpretation um: keyed_map um_find um_insert um_assign um_erase "\<lambda>m. m" um_wf str_data
  by unfold_locales
    (auto simp: um_wf_def um_find_map_of um_insert_def um_assign_def um_erase_def Str_eq_def
      case_prod_beta' split: option.split)

lemma um_wf_Nil [simp]: "um_wf []"
  by (simp add: um_wf_def)

section \<open>Unordered sets\<close>

type_synonym uset = "Str list"

definition us_mem :: "Str \<Rightarrow> uset \<Rightarrow> bool" where
  "us_mem x s \<longleftrightarrow> list_ex (\<lambda>y. Str_eq y x) s"

definition us_insert :: "Str \<Rightarrow> uset \<Rightarrow> uset" where
  "us_insert x s = (if us_mem x s then s else x # s)"

definition us_erase :: "Str \<Rightarrow> uset \<Rightarrow> uset" where
  "us_erase x s = filter (\<lambda>y. \<not> Str_eq y x) s"

definition us_wf :: "uset \<Rightarrow> bool" where
  "us_wf s \<longleftrightarrow> distinct (map str_data s)"

text \<open>The contract, and the abstraction to a finite set of byte strings.\<close>

locale keyed_set =
  fixes mem :: "'k \<Rightarrow> 's \<Rightarrow> bool"
    and insert_new :: "'k \<Rightarrow> 's \<Rightarrow> 's"
    and erase :: "'k \<Rightarrow> 's \<Rightarrow> 's"
    and elems :: "'s \<Rightarrow> 'k list"
    and wf :: "'s \<Rightarrow> bool"
    and ident :: "'k \<Rightarrow> 'i"
  assumes wf_elems: "wf s \<longleftrightarrow> distinct (map ident (elems s))"
    and mem_elems: "mem x s \<longleftrightarrow> ident x \<in> ident ` set (elems s)"
    and insert_absent: "\<not> mem x s \<Longrightarrow> mset (elems (insert_new x s)) = add_mset x (mset (elems s))"
    and insert_present: "mem x s \<Longrightarrow> insert_new x s = s"
    and erase_elems: "mset (elems (erase x s)) = filter_mset (\<lambda>y. ident y \<noteq> ident x) (mset (elems s))"
begin

lemma elems_insert_set:
  "set (elems (insert_new x s)) = (if mem x s then set (elems s) else insert x (set (elems s)))"
proof (cases "mem x s")
  case False
  have "set_mset (mset (elems (insert_new x s))) = insert x (set (elems s))"
    by (simp only: insert_absent [OF False]) simp
  with False show ?thesis by simp
qed (simp add: insert_present)

lemma elems_erase_set: "set (elems (erase x s)) = {y \<in> set (elems s). ident y \<noteq> ident x}"
proof -
  have "set_mset (mset (elems (erase x s))) = {y \<in> set (elems s). ident y \<noteq> ident x}"
    by (simp only: erase_elems) auto
  then show ?thesis by simp
qed

lemma wf_insert: "wf s \<Longrightarrow> wf (insert_new x s)"
proof (cases "mem x s")
  case False
  assume "wf s"
  have "mset (map ident (elems (insert_new x s))) = mset (map ident (x # elems s))"
    by (simp add: insert_absent [OF False])
  moreover have "distinct (map ident (x # elems s))"
    using False \<open>wf s\<close> by (simp add: wf_elems mem_elems)
  ultimately show ?thesis by (metis wf_elems mset_eq_imp_distinct_iff)
qed (simp add: insert_present)

lemma wf_erase: "wf s \<Longrightarrow> wf (erase x s)"
proof -
  assume "wf s"
  have "mset (map ident (elems (erase x s))) = mset (map ident (filter (\<lambda>y. ident y \<noteq> ident x) (elems s)))"
    by (simp add: erase_elems)
  moreover have "distinct (map ident (filter (\<lambda>y. ident y \<noteq> ident x) (elems s)))"
    using \<open>wf s\<close> by (simp add: wf_elems distinct_map_filter)
  ultimately show ?thesis by (metis wf_elems mset_eq_imp_distinct_iff)
qed

lemma ident_insert: "ident ` set (elems (insert_new x s)) = insert (ident x) (ident ` set (elems s))"
  by (auto simp: elems_insert_set mem_elems)

lemma ident_erase: "ident ` set (elems (erase x s)) = ident ` set (elems s) - {ident x}"
  by (auto simp: elems_erase_set)

text \<open>The size is the number of different members.\<close>

lemma length_card: "wf s \<Longrightarrow> length (elems s) = card (ident ` set (elems s))"
  by (metis wf_elems distinct_card length_map list.set_map)

lemma fold_insert_elems:
  "distinct (map ident (xs @ elems s)) \<Longrightarrow>
     mset (elems (fold insert_new xs s)) = mset xs + mset (elems s)"
proof (induction xs arbitrary: s)
  case (Cons x xs)
  from Cons.prems have new: "\<not> mem x s" by (auto simp: mem_elems)
  have eq: "mset (elems (insert_new x s)) = mset (x # elems s)" by (simp add: insert_absent [OF new])
  have "mset (map ident (xs @ elems (insert_new x s))) = mset (map ident ((x # xs) @ elems s))"
    using eq by simp
  then have "distinct (map ident (xs @ elems (insert_new x s)))"
    using Cons.prems by (metis mset_eq_imp_distinct_iff)
  from Cons.IH [OF this] eq show ?case by simp
qed simp

end

lemma us_mem_iff: "us_mem x s \<longleftrightarrow> str_data x \<in> str_data ` set s"
  by (auto simp: us_mem_def Str_eq_def list_ex_iff image_iff eq_commute)

interpretation us: keyed_set us_mem us_insert us_erase "\<lambda>s. s" us_wf str_data
  by unfold_locales (auto simp: us_wf_def us_mem_iff us_insert_def us_erase_def Str_eq_def)

lemma us_wf_Nil [simp]: "us_wf []"
  by (simp add: us_wf_def)

section \<open>Ordered maps\<close>

type_synonym 'v omap = "(Str \<times> 'v) list"

fun om_insert :: "Str \<Rightarrow> 'v \<Rightarrow> 'v omap \<Rightarrow> 'v omap" where
  "om_insert k v [] = [(k, v)]"
| "om_insert k v ((k', v') # m) =
     (if Str_less k k' then (k, v) # (k', v') # m
      else if Str_less k' k then (k', v') # om_insert k v m
      else (k', v') # m)"

definition om_find :: "Str \<Rightarrow> 'v omap \<Rightarrow> 'v option" where
  "om_find k m = um_find k m"

definition om_erase :: "Str \<Rightarrow> 'v omap \<Rightarrow> 'v omap" where
  "om_erase k m = um_erase k m"

definition om_lower_bound :: "Str \<Rightarrow> 'v omap \<Rightarrow> 'v omap" where
  "om_lower_bound k m = dropWhile (\<lambda>(k', v'). Str_less k' k) m"

definition om_upper_bound :: "Str \<Rightarrow> 'v omap \<Rightarrow> 'v omap" where
  "om_upper_bound k m = dropWhile (\<lambda>(k', v'). \<not> Str_less k k') m"

section \<open>Ordered multimaps keyed by \<open>int\<close>\<close>

type_synonym 'v mmap = "(int32 \<times> 'v) list"

text \<open>A new element goes behind the elements with the same key.\<close>

definition mm_insert :: "int32 \<Rightarrow> 'v \<Rightarrow> 'v mmap \<Rightarrow> 'v mmap" where
  "mm_insert s v m =
     takeWhile (\<lambda>(s', v'). sint s' \<le> sint s) m @ [(s, v)] @ dropWhile (\<lambda>(s', v'). sint s' \<le> sint s) m"

definition mm_lower_bound :: "int32 \<Rightarrow> 'v mmap \<Rightarrow> 'v mmap" where
  "mm_lower_bound s m = dropWhile (\<lambda>(s', v'). sint s' < sint s) m"

definition mm_upper_bound :: "int32 \<Rightarrow> 'v mmap \<Rightarrow> 'v mmap" where
  "mm_upper_bound s m = dropWhile (\<lambda>(s', v'). sint s' \<le> sint s) m"

text \<open>Iterators: the distance of two suffixes, the elements between them, erasure at one.\<close>

definition it_distance :: "'e list \<Rightarrow> 'e list \<Rightarrow> nat" where
  "it_distance b e = length b - length e"

definition it_range :: "'e list \<Rightarrow> 'e list \<Rightarrow> 'e list" where
  "it_range b e = take (it_distance b e) b"

definition it_erase :: "'e list \<Rightarrow> 'e list \<Rightarrow> 'e list" where
  "it_erase m pos = take (length m - length pos) m @ tl pos"

lemma it_distance_range: "it_distance b e = length (it_range b e)"
  by (simp add: it_range_def it_distance_def)

subsection \<open>Ordered maps by their order\<close>

definition om_sorted :: "'v omap \<Rightarrow> bool" where
  "om_sorted m \<longleftrightarrow> sorted_wrt (<) (map (str_data \<circ> fst) m)"

lemma om_sorted_um_wf: "om_sorted m \<Longrightarrow> um_wf m"
  by (simp add: om_sorted_def um_wf_def strict_sorted_iff)

lemma om_find_None_iff: "om_find k m = None \<longleftrightarrow> str_data k \<notin> (str_data \<circ> fst) ` set m"
  by (simp add: om_find_def um.find_None_iff)

lemma om_find_Some_iff:
  "om_sorted m \<Longrightarrow> om_find k m = Some v \<longleftrightarrow> (\<exists>k'. (k', v) \<in> set m \<and> str_data k' = str_data k)"
  by (simp add: om_find_def um.find_Some_iff om_sorted_um_wf)

lemma mset_om_insert:
  "om_find k m = None \<Longrightarrow> mset (om_insert k v m) = add_mset (k, v) (mset m)"
  by (induction k v m rule: om_insert.induct)
    (auto simp: om_find_def Str_eq_def Str_less_def split: if_splits)

lemma om_insert_keys:
  "(str_data \<circ> fst) ` set (om_insert k v m) \<subseteq> insert (str_data k) ((str_data \<circ> fst) ` set m)"
  by (induction k v m rule: om_insert.induct) auto

lemma om_sorted_Cons:
  "om_sorted ((k, v) # m) \<longleftrightarrow> (\<forall>d \<in> (str_data \<circ> fst) ` set m. str_data k < d) \<and> om_sorted m"
  by (simp add: om_sorted_def)

lemma om_insert_present: "om_sorted m \<Longrightarrow> om_find k m \<noteq> None \<Longrightarrow> om_insert k v m = m"
proof (induction k v m rule: om_insert.induct)
  case (1 k v)
  then show ?case by (simp add: om_find_def)
next
  case (2 k v k' v' m)
  consider (lt) "str_data k < str_data k'" | (gt) "str_data k' < str_data k"
    | (eq) "str_data k = str_data k'"
    by fastforce
  then show ?case
  proof cases
    case lt
    with "2.prems"(1) have "str_data k \<notin> (str_data \<circ> fst) ` set ((k', v') # m)"
      unfolding om_sorted_Cons by (auto dest: order.strict_trans)
    with "2.prems"(2) show ?thesis unfolding om_find_None_iff by contradiction
  next
    case gt
    then have "om_find k m \<noteq> None" using "2.prems"(2) by (auto simp: om_find_def Str_eq_def split: if_splits)
    with gt "2.IH" "2.prems"(1) show ?thesis
      using order_less_not_sym [OF gt] by (simp add: Str_less_def om_sorted_Cons)
  next
    case eq
    then show ?thesis by (simp add: Str_less_def)
  qed
qed

lemma om_sorted_insert: "om_sorted m \<Longrightarrow> om_sorted (om_insert k v m)"
proof (induction k v m rule: om_insert.induct)
  case (1 k v)
  show ?case by (simp add: om_sorted_def)
next
  case (2 k v k' v' m)
  consider (lt) "str_data k < str_data k'" | (gt) "str_data k' < str_data k"
    | (eq) "str_data k = str_data k'"
    by fastforce
  then show ?case
  proof cases
    case lt
    then have ins: "om_insert k v ((k', v') # m) = (k, v) # (k', v') # m"
      by (simp add: Str_less_def)
    have "\<forall>d \<in> (str_data \<circ> fst) ` set m. str_data k < d"
      using lt "2.prems" unfolding om_sorted_Cons by (blast intro: order.strict_trans)
    with lt "2.prems" show ?thesis unfolding ins om_sorted_Cons by simp
  next
    case gt
    then have ins: "om_insert k v ((k', v') # m) = (k', v') # om_insert k v m"
      using order_less_not_sym [OF gt] by (simp add: Str_less_def)
    have "\<not> Str_less k k'" and "Str_less k' k"
      using order_less_not_sym [OF gt] gt by (simp_all only: Str_less_def not_False_eq_True)
    moreover have "om_sorted m" using "2.prems" by (simp only: om_sorted_Cons)
    ultimately have "om_sorted (om_insert k v m)" by (rule "2.IH")
    moreover have "\<forall>d \<in> (str_data \<circ> fst) ` set (om_insert k v m). str_data k' < d"
    proof
      fix d
      assume "d \<in> (str_data \<circ> fst) ` set (om_insert k v m)"
      with om_insert_keys have "d \<in> insert (str_data k) ((str_data \<circ> fst) ` set m)"
        by (rule subsetD)
      with gt "2.prems" show "str_data k' < d" by (auto simp only: om_sorted_Cons insert_iff)
    qed
    ultimately show ?thesis unfolding ins om_sorted_Cons by blast
  next
    case eq
    with "2.prems" show ?thesis by (simp add: Str_less_def)
  qed
qed

lemma om_sorted_erase: "om_sorted m \<Longrightarrow> om_sorted (om_erase k m)"
  by (simp add: om_sorted_def om_erase_def um_erase_def sorted_wrt_map sorted_wrt_filter)

lemma mset_om_erase: "mset (om_erase k m) = filter_mset (\<lambda>(k', v'). str_data k' \<noteq> str_data k) (mset m)"
  by (simp add: om_erase_def um.erase_entries)

lemma om_cut_sorted:
  assumes "om_sorted m"
  shows "cut_sorted (\<lambda>(k', v'). Str_less k' k) m" and "cut_sorted (\<lambda>(k', v'). \<not> Str_less k k') m"
  using assms unfolding cut_sorted_def om_sorted_def sorted_wrt_map
  by (auto simp: Str_less_def elim!: sorted_wrt_mono_rel [rotated])

text \<open>The elements between the two bounds are those in the closed interval.\<close>

lemma om_range:
  assumes "om_sorted m" and "Str_le lo hi"
  shows "it_range (om_lower_bound lo m) (om_upper_bound hi m) =
    filter (\<lambda>(k, v). str_data lo \<le> str_data k \<and> str_data k \<le> str_data hi) m"
proof -
  have "it_range (om_lower_bound lo m) (om_upper_bound hi m) =
      filter (\<lambda>x. \<not> (case x of (k', v') \<Rightarrow> Str_less k' lo) \<and> (case x of (k', v') \<Rightarrow> \<not> Str_less hi k')) m"
    unfolding it_range_def it_distance_def om_lower_bound_def om_upper_bound_def
    using assms by (intro take_dropWhile_cut_sorted om_cut_sorted) (auto simp: Str_less_def Str_le_def)
  also have "\<dots> = filter (\<lambda>(k, v). str_data lo \<le> str_data k \<and> str_data k \<le> str_data hi) m"
    by (intro filter_cong) (auto simp: Str_less_def not_less)
  finally show ?thesis .
qed

subsection \<open>Multimaps by their order\<close>

definition mm_sorted :: "'v mmap \<Rightarrow> bool" where
  "mm_sorted m \<longleftrightarrow> sorted (map (sint \<circ> fst) m)"

lemma mset_mm_insert [simp]: "mset (mm_insert s v m) = add_mset (s, v) (mset m)"
proof -
  let ?P = "\<lambda>(s', v'). sint s' \<le> sint s"
  have "mset (takeWhile ?P m) + mset (dropWhile ?P m) = mset m" by (simp flip: mset_append)
  then show ?thesis by (simp add: mm_insert_def)
qed

lemma mm_cut_sorted:
  assumes "mm_sorted m"
  shows "cut_sorted (\<lambda>(s', v'). sint s' < i) m" and "cut_sorted (\<lambda>(s', v'). sint s' \<le> i) m"
  using assms unfolding cut_sorted_def mm_sorted_def sorted_map
  by (auto elim!: sorted_wrt_mono_rel [rotated])

lemma mm_sorted_insert: "mm_sorted m \<Longrightarrow> mm_sorted (mm_insert s v m)"
  unfolding mm_insert_def
  by (auto simp: takeWhile_cut_sorted dropWhile_cut_sorted mm_cut_sorted)
    (auto simp: mm_sorted_def sorted_append sorted_map sorted_wrt_filter)

lemma mm_range:
  assumes "mm_sorted m" and "sint lo \<le> sint hi"
  shows "it_range (mm_lower_bound lo m) (mm_upper_bound hi m) =
    filter (\<lambda>(s, v). sint lo \<le> sint s \<and> sint s \<le> sint hi) m"
proof -
  have "it_range (mm_lower_bound lo m) (mm_upper_bound hi m) =
      filter (\<lambda>x. \<not> (case x of (s', v') \<Rightarrow> sint s' < sint lo) \<and> (case x of (s', v') \<Rightarrow> sint s' \<le> sint hi)) m"
    unfolding it_range_def it_distance_def mm_lower_bound_def mm_upper_bound_def
    using assms by (intro take_dropWhile_cut_sorted mm_cut_sorted) auto
  also have "\<dots> = filter (\<lambda>(s, v). sint lo \<le> sint s \<and> sint s \<le> sint hi) m"
    by (intro filter_cong) auto
  finally show ?thesis .
qed

end
