(* ===== verification/Set_Object.thy ===== *)
theory Set_Object
  imports Containers
begin

text \<open>
  The class \<open>Set\<close> of \<open>src/objects/set.cc\<close>, an \<open>std::unordered_set<Str>\<close>.  \<open>this\<close> and the argument of
  \<open>Diff\<close> and \<open>Inter\<close> can be the same object; the flag \<open>same\<close> says so.  \<open>std::rand()\<close> is an argument
  of \<open>RandMember\<close>.
\<close>

type_synonym Set_obj = uset

definition Set_Add :: "Str \<Rightarrow> Set_obj \<Rightarrow> bool \<times> Set_obj" where
  "Set_Add d s = (\<not> us_mem d s, us_insert d s)"

definition Set_Card :: "Set_obj \<Rightarrow> nat" where
  "Set_Card s = length s"

definition Set_IsMember :: "Str \<Rightarrow> Set_obj \<Rightarrow> bool" where
  "Set_IsMember m s = us_mem m s"

definition Set_Members :: "Set_obj \<Rightarrow> Str list" where
  "Set_Members s = s"

definition Set_RandMember :: "nat \<Rightarrow> Set_obj \<Rightarrow> Str" where
  "Set_RandMember rnd s = (if s = [] then Str_default else s ! (rnd mod length s))"

text \<open>
  \<open>Pop\<close> copies the first element, erases it, and then returns what is first after the erasure;
  when nothing is left that dereferences the end iterator.
\<close>

definition Set_Pop :: "Set_obj \<Rightarrow> (Str \<times> Set_obj) result" where
  "Set_Pop s =
     (case s of
        [] \<Rightarrow> Inr (Str_default, s)
      | x # s' \<Rightarrow> (case s' of [] \<Rightarrow> Inl Undefined | y # _ \<Rightarrow> Inr (y, s')))"

definition Set_Rem :: "Str \<Rightarrow> Set_obj \<Rightarrow> bool \<times> Set_obj" where
  "Set_Rem m s = (if \<not> us_mem m s then (False, s) else (True, us_erase m s))"

definition Set_GetObjectType :: "Set_obj \<Rightarrow> ObjectType" where
  "Set_GetObjectType s = ObjectType_SET"

definition Set_EncodeValue :: "env \<Rightarrow> Set_obj \<Rightarrow> string result" where
  "Set_EncodeValue cf s = encode_seq (Str_EncodeValue cf) s"

definition Set_DecodeValue :: "env \<Rightarrow> Set_obj \<Rightarrow> Set_obj decoder" where
  "Set_DecodeValue cf s source = decode_seq (Str_DecodeValue cf) us_insert [] source"

definition Set_Diff :: "bool \<Rightarrow> Set_obj \<Rightarrow> Set_obj \<Rightarrow> Str list" where
  "Set_Diff same s t = (if same then [] else filter (\<lambda>x. \<not> us_mem x t) s)"

definition Set_Inter :: "bool \<Rightarrow> Set_obj \<Rightarrow> Set_obj \<Rightarrow> Str list" where
  "Set_Inter same s t = (if same then s else filter (\<lambda>x. us_mem x t) s)"

definition Set_Fork :: "string \<Rightarrow> Set_obj \<Rightarrow> string" where
  "Set_Fork key s = ''SADD '' @ key @ '' '' @ concat (map (\<lambda>x. Str_GetRaw x @ '' '') s)"

section \<open>Members\<close>

text \<open>The abstract value of a set object: the byte strings of its members.\<close>

definition set_abs :: "Set_obj \<Rightarrow> string set" where
  "set_abs s = str_data ` set s"

lemma Set_Add_abs: "set_abs (snd (Set_Add d s)) = insert (str_data d) (set_abs s)"
  by (simp add: Set_Add_def set_abs_def us.ident_insert)

lemma Set_Add_new: "fst (Set_Add d s) \<longleftrightarrow> str_data d \<notin> set_abs s"
  by (simp add: Set_Add_def set_abs_def us_mem_iff)

lemma Set_Add_wf: "us_wf s \<Longrightarrow> us_wf (snd (Set_Add d s))"
  by (simp add: Set_Add_def us.wf_insert)

lemma Set_Rem_abs: "set_abs (snd (Set_Rem m s)) = set_abs s - {str_data m}"
  by (auto simp: Set_Rem_def set_abs_def us_mem_iff us.ident_erase)

lemma Set_Rem_present: "fst (Set_Rem m s) \<longleftrightarrow> str_data m \<in> set_abs s"
  by (simp add: Set_Rem_def set_abs_def us_mem_iff)

lemma Set_Rem_wf: "us_wf s \<Longrightarrow> us_wf (snd (Set_Rem m s))"
  by (simp add: Set_Rem_def us.wf_erase)

lemma Set_IsMember_abs: "Set_IsMember m s \<longleftrightarrow> str_data m \<in> set_abs s"
  by (simp add: Set_IsMember_def set_abs_def us_mem_iff)

lemma Set_Card_abs: "us_wf s \<Longrightarrow> Set_Card s = card (set_abs s)"
  using us.length_card [of s] by (simp add: Set_Card_def set_abs_def)

lemma Set_RandMember_abs: "s \<noteq> [] \<Longrightarrow> str_data (Set_RandMember rnd s) \<in> set_abs s"
  by (simp add: Set_RandMember_def set_abs_def)

lemma Set_Diff_abs:
  "(same \<Longrightarrow> s = t) \<Longrightarrow> str_data ` set (Set_Diff same s t) = set_abs s - set_abs t"
  by (auto simp: Set_Diff_def set_abs_def us_mem_iff)

lemma Set_Inter_abs:
  "(same \<Longrightarrow> s = t) \<Longrightarrow> str_data ` set (Set_Inter same s t) = set_abs s \<inter> set_abs t"
  by (auto simp: Set_Inter_def set_abs_def us_mem_iff)

lemma Set_Pop_cases:
  "Set_Pop s = (if s = [] then Inr (Str_default, [])
     else if length s = 1 then Inl Undefined else Inr (s ! 1, tl s))"
  by (auto simp: Set_Pop_def split: list.splits)

lemma Set_Pop_wf: "us_wf s \<Longrightarrow> Set_Pop s = Inr (x, s') \<Longrightarrow> us_wf s'"
  by (auto simp: Set_Pop_def us_wf_def split: list.splits)

section \<open>Round trip\<close>

lemma Set_roundtrip:
  assumes "us_wf s" and "list_all Str_storable s" and "length s < 2 ^ 64"
  shows "\<exists>bs s'. Set_EncodeValue cf s = Inr bs \<and>
    (\<forall>s0 rest. Set_DecodeValue cf s0 (bs @ rest) = Inr (s', rest)) \<and> mset s' = mset s"
proof -
  have "mset (fold us_insert s []) = mset s"
    using us.fold_insert_elems [of s "[]"] assms(1) by (simp add: us_wf_def)
  then show ?thesis
    using str_codec.seq_roundtrip [of s cf us_insert] assms
    by (fastforce simp: Set_EncodeValue_def Set_DecodeValue_def)
qed

end
