(* ===== verification/Hash_Object.thy ===== *)
theory Hash_Object
  imports Containers
begin

text \<open>
  The class \<open>Hash\<close> of \<open>src/objects/hash.cc\<close>, an \<open>std::unordered_map<Str, Str>\<close> from fields to
  values.
\<close>

type_synonym Hash_obj = "Str umap"

definition Hash_Set :: "Str \<Rightarrow> Str \<Rightarrow> Hash_obj \<Rightarrow> Hash_obj" where
  "Hash_Set key value h =
     (case um_find key h of Some _ \<Rightarrow> um_assign key value h | None \<Rightarrow> um_insert key value h)"

definition Hash_Get :: "Str \<Rightarrow> Hash_obj \<Rightarrow> Str" where
  "Hash_Get key h = (case um_find key h of None \<Rightarrow> Str_default | Some v \<Rightarrow> v)"

definition Hash_Exist :: "Str \<Rightarrow> Hash_obj \<Rightarrow> bool" where
  "Hash_Exist key h \<longleftrightarrow> um_find key h \<noteq> None"

definition Hash_Del :: "Str \<Rightarrow> Hash_obj \<Rightarrow> Hash_obj" where
  "Hash_Del key h = (case um_find key h of None \<Rightarrow> h | Some _ \<Rightarrow> um_erase key h)"

definition Hash_Len :: "Hash_obj \<Rightarrow> nat" where
  "Hash_Len h = length h"

definition Hash_GetAll :: "Hash_obj \<Rightarrow> (Str \<times> Str) list" where
  "Hash_GetAll h = h"

text \<open>\<open>it->second.IncrBy(delta)\<close> changes the value in its entry.\<close>

definition Hash_IncrBy :: "Str \<Rightarrow> int32 \<Rightarrow> Hash_obj \<Rightarrow> (string \<times> Hash_obj) result" where
  "Hash_IncrBy key delta h =
     (case um_find key h of
        None \<Rightarrow> Inr ([], h)
      | Some v \<Rightarrow> rbind (Str_IncrBy delta v) (\<lambda>(r, v'). Inr (r, um_assign key v' h)))"

definition Hash_DecrBy :: "Str \<Rightarrow> int32 \<Rightarrow> Hash_obj \<Rightarrow> (string \<times> Hash_obj) result" where
  "Hash_DecrBy key delta h =
     (case um_find key h of
        None \<Rightarrow> Inr ([], h)
      | Some v \<Rightarrow> rbind (Str_DecrBy delta v) (\<lambda>(r, v'). Inr (r, um_assign key v' h)))"

definition Hash_GetObjectType :: "Hash_obj \<Rightarrow> ObjectType" where
  "Hash_GetObjectType h = ObjectType_HASH"

definition Hash_EncodeValue :: "env \<Rightarrow> Hash_obj \<Rightarrow> string result" where
  "Hash_EncodeValue cf h = encode_seq (encode_pair (Str_EncodeValue cf) (Str_EncodeValue cf)) h"

definition Hash_DecodeValue :: "env \<Rightarrow> Hash_obj \<Rightarrow> Hash_obj decoder" where
  "Hash_DecodeValue cf h source =
     decode_seq (decode_pair (Str_DecodeValue cf) (Str_DecodeValue cf))
       (\<lambda>(k, v) acc. um_insert k v acc) h source"

definition Hash_Fork :: "string \<Rightarrow> Hash_obj \<Rightarrow> string" where
  "Hash_Fork key h =
     ''HSET '' @ key @ '' '' @
     concat (map (\<lambda>(k, v). Str_GetRaw k @ '' '' @ Str_GetRaw v @ '' '') h)"

section \<open>A hash is a finite map\<close>

text \<open>The abstract value: the partial map from the byte strings of the fields to the values.\<close>

definition hash_abs :: "Hash_obj \<Rightarrow> (string \<rightharpoonup> Str)" where
  "hash_abs h = map_of (map (\<lambda>(k, v). (str_data k, v)) h)"

lemma um_find_hash_abs: "um_find k h = hash_abs h (str_data k)"
  by (simp add: hash_abs_def um_find_map_of)

lemma hash_abs_fun: "hash_abs h d = um_find (Str_ctor d) h"
  by (simp add: um_find_hash_abs Str_ctor_def)

lemma Hash_Set_abs: "um_wf h \<Longrightarrow> hash_abs (Hash_Set k v h) = (hash_abs h)(str_data k \<mapsto> v)"
  by (auto simp: fun_eq_iff hash_abs_fun Hash_Set_def um.find_assign um.find_insert Str_ctor_def
      split: option.split)

lemma Hash_Set_wf: "um_wf h \<Longrightarrow> um_wf (Hash_Set k v h)"
  by (simp add: Hash_Set_def um.wf_assign um.wf_insert split: option.split)

lemma Hash_Del_abs: "um_wf h \<Longrightarrow> hash_abs (Hash_Del k h) = (hash_abs h)(str_data k := None)"
proof (cases "um_find k h")
  case None
  then have "hash_abs h (str_data k) = None" by (simp add: um_find_hash_abs)
  with None show ?thesis by (auto simp: Hash_Del_def)
next
  case (Some v)
  then show "um_wf h \<Longrightarrow> ?thesis"
    by (simp add: Hash_Del_def fun_eq_iff hash_abs_fun um.find_erase Str_ctor_def)
qed

lemma Hash_Del_wf: "um_wf h \<Longrightarrow> um_wf (Hash_Del k h)"
  by (simp add: Hash_Del_def um.wf_erase split: option.split)

lemma Hash_Get_abs:
  "Hash_Get k h = (case hash_abs h (str_data k) of None \<Rightarrow> Str_default | Some v \<Rightarrow> v)"
  by (simp add: Hash_Get_def um_find_hash_abs)

lemma Hash_Exist_abs: "Hash_Exist k h \<longleftrightarrow> str_data k \<in> dom (hash_abs h)"
  by (simp add: Hash_Exist_def um_find_hash_abs dom_def)

lemma Hash_Len_abs: "um_wf h \<Longrightarrow> Hash_Len h = card (dom (hash_abs h))"
proof -
  assume wf: "um_wf h"
  have "dom (hash_abs h) = set (map (str_data \<circ> fst) h)"
    by (force simp: hash_abs_def dom_map_of_conv_image_fst)
  with wf show ?thesis
    by (metis Hash_Len_def distinct_card length_map um_wf_def)
qed

lemma Hash_IncrBy_abs:
  assumes "um_wf h" and "Hash_IncrBy k delta h = Inr (r, h')"
  shows "(case hash_abs h (str_data k) of
      None \<Rightarrow> r = [] \<and> h' = h
    | Some v \<Rightarrow> \<exists>v'. Str_IncrBy delta v = Inr (r, v') \<and> hash_abs h' = (hash_abs h)(str_data k \<mapsto> v'))"
proof (cases "um_find k h")
  case None
  with assms(2) show ?thesis by (simp add: Hash_IncrBy_def flip: um_find_hash_abs)
next
  case (Some v)
  with assms(2) obtain v' where "Str_IncrBy delta v = Inr (r, v')" "h' = um_assign k v' h"
    by (auto simp: Hash_IncrBy_def result_simps)
  moreover have "hash_abs (um_assign k v' h) = (hash_abs h)(str_data k \<mapsto> v')"
    using Some assms(1) by (auto simp: fun_eq_iff hash_abs_fun um.find_assign Str_ctor_def)
  ultimately show ?thesis using Some by (simp flip: um_find_hash_abs)
qed

lemma Hash_IncrBy_wf: "um_wf h \<Longrightarrow> Hash_IncrBy k delta h = Inr (r, h') \<Longrightarrow> um_wf h'"
  by (auto simp: Hash_IncrBy_def result_simps um.wf_assign split: option.splits)

lemma Hash_DecrBy_wf: "um_wf h \<Longrightarrow> Hash_DecrBy k delta h = Inr (r, h') \<Longrightarrow> um_wf h'"
  by (auto simp: Hash_DecrBy_def result_simps um.wf_assign split: option.splits)

section \<open>Round trip\<close>

interpretation hash_entry: codec_pair "Str_EncodeValue cf" "Str_DecodeValue cf"
  Str_storable "Str_EncodeValue cf" "Str_DecodeValue cf" Str_storable for cf ..

lemma Hash_roundtrip:
  assumes "um_wf h"
    and "list_all (\<lambda>(k, v). Str_storable k \<and> Str_storable v) h" and "length h < 2 ^ 64"
  shows "\<exists>bs h'. Hash_EncodeValue cf h = Inr bs \<and>
    (\<forall>rest. Hash_DecodeValue cf [] (bs @ rest) = Inr (h', rest)) \<and> mset h' = mset h"
proof -
  have "mset (fold (\<lambda>(k, v). um_insert k v) h []) = mset h"
    using um.fold_insert_entries [of h "[]"] assms(1) by (simp add: um_wf_def)
  then show ?thesis
    using hash_entry.pair.seq_roundtrip [of h cf "\<lambda>(k, v). um_insert k v"] assms
    by (fastforce simp: Hash_EncodeValue_def Hash_DecodeValue_def list_all_iff)
qed

lemma hash_abs_cong: "um_wf h \<Longrightarrow> mset h' = mset h \<Longrightarrow> hash_abs h' = hash_abs h"
  by (metis ext hash_abs_fun um.find_cong um.wf_cong)
end
