(* ===== verification/List_Object.thy ===== *)
theory List_Object
  imports Containers
begin

text \<open>
  The class \<open>List\<close> of \<open>src/objects/list.cc\<close>: a doubly linked list of strings.  Its state is the
  list \<open>data_list_\<close>; every operation runs under the latch of the object.
\<close>

type_synonym List_obj = "Str list"

section \<open>Operations\<close>

definition List_PushFront :: "Str \<Rightarrow> List_obj \<Rightarrow> nat \<times> List_obj" where
  "List_PushFront str l = (let l' = str # l in (length l', l'))"

definition List_PushBack :: "Str \<Rightarrow> List_obj \<Rightarrow> nat \<times> List_obj" where
  "List_PushBack str l = (let l' = l @ [str] in (length l', l'))"

definition List_PopFront :: "List_obj \<Rightarrow> Str \<times> List_obj" where
  "List_PopFront l = (case l of [] \<Rightarrow> (Str_default, []) | s # l' \<Rightarrow> (s, l'))"

definition List_PopBack :: "List_obj \<Rightarrow> Str \<times> List_obj" where
  "List_PopBack l = (if l = [] then (Str_default, []) else (last l, butlast l))"

definition List_Len :: "List_obj \<Rightarrow> nat" where
  "List_Len l = length l"

text \<open>
  The lambda \<open>legalRange\<close>, which occurs in \<open>Index\<close>, \<open>Trim\<close>, \<open>Set\<close> and \<open>ZSet::Range\<close>.  The mixed
  arithmetic of \<open>int\<close> and \<open>std::size_t\<close> is done in 64 bits and truncated where the result is stored
  back into the \<open>int\<close> \<open>r\<close>.
\<close>

definition legalRange :: "nat \<Rightarrow> int32 \<Rightarrow> nat result" where
  "legalRange n r =
     (let sz = word_of_nat n :: size_t in
      if 0 \<le> sint r then Inr (unat ((word_of_int (sint r) :: size_t) mod sz))
      else
        rbind (int_neg r) (\<lambda>r'.
          (let x = ((word_of_int (sint r') :: size_t) div sz + 1) * sz;
               r2 = word_of_int (uint ((word_of_int (sint r) :: size_t) + x)) :: int32
           in Inr (unat (word_of_int (sint r2) :: size_t)))))"

text \<open>Storing the result in an \<open>int\<close> variable.\<close>

definition size_to_int :: "nat \<Rightarrow> int" where
  "size_to_int n = sint (word_of_nat n :: int32)"

definition List_Index :: "int32 \<Rightarrow> List_obj \<Rightarrow> Str result" where
  "List_Index i l =
     (if l = [] then Inr Str_default
      else
        rbind (legalRange (length l) i) (\<lambda>n.
          (let idx = size_to_int n in
           if 0 \<le> idx \<and> nat idx < length l then Inr (l ! nat idx) else Inl Undefined)))"

text \<open>
  The two loops of \<open>Rem\<close>.  \<open>pre\<close> is what lies before the iterator \<open>beg\<close> (behind it, in the backward
  loop), the last argument starts at \<open>beg\<close>.  Reading or stepping past the end, and the loop that
  stays at the first element forever, are undefined behaviour.
\<close>

fun List_Rem_forward :: "Str \<Rightarrow> nat \<Rightarrow> Str list \<Rightarrow> Str list \<Rightarrow> List_obj result" where
  "List_Rem_forward v 0 pre rest = Inr (pre @ rest)"
| "List_Rem_forward v (Suc n) pre [] = Inl Undefined"
| "List_Rem_forward v (Suc n) pre (x # xs) =
     (if Str_eq x v then
        (if xs = [] then Inr pre else List_Rem_forward v n pre xs)
      else List_Rem_forward v (Suc n) (pre @ [x]) xs)"

fun List_Rem_backward :: "Str \<Rightarrow> nat \<Rightarrow> Str list \<Rightarrow> Str list \<Rightarrow> List_obj result" where
  "List_Rem_backward v 0 suf rrest = Inr (rev rrest @ suf)"
| "List_Rem_backward v (Suc n) suf [] = Inl Undefined"
| "List_Rem_backward v (Suc n) suf (x # xs) =
     (if Str_eq x v then
        (if xs = [] then Inr suf else List_Rem_backward v n suf xs)
      else if xs = [] then Inl Undefined
      else List_Rem_backward v (Suc n) (x # suf) xs)"

definition List_Rem :: "int32 \<Rightarrow> Str \<Rightarrow> List_obj \<Rightarrow> (nat \<times> List_obj) result" where
  "List_Rem cnt value l =
     (if l = [] then Inr (0, l)
      else
        rbind (if sint cnt < 0 then rbind (int_neg cnt) (\<lambda>a. Inr (nat (sint a)))
               else Inr (nat (sint cnt))) (\<lambda>ab.
          (let found = length (filter (\<lambda>x. Str_eq x value) l) in
           if (if found = 0 then 1 else 0 :: nat) = 0 then Inr (0, l)
           else
             (let n = (if found > ab then ab else found) in
              rbind (if 0 < sint cnt then List_Rem_forward value n [] l
                     else List_Rem_backward value n [] (rev l)) (\<lambda>l'. Inr (n, l'))))))"

definition List_Trim :: "int32 \<Rightarrow> int32 \<Rightarrow> List_obj \<Rightarrow> (bool \<times> List_obj) result" where
  "List_Trim b e l =
     (if l = [] then Inr (False, l)
      else
        rbind (legalRange (length l) b) (\<lambda>nb.
          rbind (legalRange (length l) e) (\<lambda>ne.
            (let ib = size_to_int nb; ie = size_to_int ne in
             if ib > ie then Inr (False, l)
             else if 0 \<le> ib \<and> nat ie + 1 \<le> length l
             then Inr (True, take (nat ib) l @ drop (nat ie + 1) l)
             else Inl Undefined))))"

definition List_Set :: "int32 \<Rightarrow> Str \<Rightarrow> List_obj \<Rightarrow> (bool \<times> List_obj) result" where
  "List_Set i value l =
     (if l = [] then Inr (False, l)
      else
        rbind (legalRange (length l) i) (\<lambda>n.
          (let idx = size_to_int n in
           if 0 \<le> idx \<and> nat idx < length l then Inr (True, l[nat idx := value])
           else Inl Undefined)))"

definition List_GetObjectType :: "List_obj \<Rightarrow> ObjectType" where
  "List_GetObjectType l = ObjectType_LIST"

definition List_EncodeValue :: "env \<Rightarrow> List_obj \<Rightarrow> string result" where
  "List_EncodeValue cf l = encode_seq (Str_EncodeValue cf) l"

definition List_DecodeValue :: "env \<Rightarrow> List_obj \<Rightarrow> List_obj decoder" where
  "List_DecodeValue cf l source = decode_seq (Str_DecodeValue cf) (\<lambda>s acc. acc @ [s]) [] source"

definition List_Fork :: "string \<Rightarrow> List_obj \<Rightarrow> string" where
  "List_Fork key l = ''LPUSHB '' @ key @ '' '' @ concat (map (\<lambda>s. Str_GetRaw s @ '' '') l)"

section \<open>Indices\<close>

text \<open>
  With fewer than \<open>2 ^ 31\<close> elements the arithmetic of \<open>legalRange\<close> does not wrap.  A non-negative
  index is taken modulo the length; a negative index counts from the end, except that a multiple
  of the length is mapped to the length itself, one past the last element.
\<close>

lemma legalRange_eq:
  assumes "0 < n" and "n < 2 ^ 31" and "sint r \<noteq> INT_MIN"
  shows "legalRange n r =
    Inr (if 0 \<le> sint r then nat (sint r) mod n else n - nat (- sint r) mod n)"
proof -
  have rng: "INT_MIN \<le> sint r" "sint r \<le> INT_MAX"
    using fits_int_sint [of r] by (auto simp: fits_int_def)
  have sz: "unat (word_of_nat n :: size_t) = n" using assms(2) by simp
  show ?thesis
  proof (cases "0 \<le> sint r")
    case True
    with rng have "unat (word_of_int (sint r) :: size_t) = nat (sint r)"
      using unat_size_t [of "nat (sint r)"] by (simp add: of_nat_nat)
    with True sz show ?thesis by (simp add: legalRange_def Let_def unat_mod)
  next
    case False
    define k where "k = nat (- sint r)"
    define m where "m = n - k mod n"
    have k: "0 < k" "k < 2 ^ 31" "sint r = - int k"
      using False rng assms(3) by (auto simp: k_def)
    have neg: "int_neg r = Inr (- r)" "sint (- r) = int k"
      using int_neg_sint [of r "- r"] k by (auto simp: int_neg_def fits_int_def)
    have kn: "k div n < 2 ^ 64" using k(2) by (intro le_less_trans [OF div_le_dividend]) simp
    have d: "(word_of_int (int k) :: size_t) div word_of_nat n = word_of_nat (k div n)"
      by (rule unsigned_word_eqI [where ?'a = nat]) (use k(2) kn sz in \<open>simp add: unat_div\<close>)
    have "int k = int (k div n) * int n + int (k mod n)"
      by (metis div_mult_mod_eq of_nat_add of_nat_mult)
    moreover have "k mod n \<le> n" using assms(1) by (simp add: less_imp_le)
    ultimately have "- int k + (int (k div n) + 1) * int n = int m"
      by (simp add: m_def algebra_simps of_nat_diff)
    then have s: "(word_of_int (sint r) :: size_t) + (word_of_nat (k div n) + 1) * word_of_nat n =
        word_of_nat m"
      unfolding k(3) by (metis of_int_1 of_int_add of_int_mult of_int_of_nat_eq)
    have m: "m < 2 ^ 31" using assms(2) by (simp add: m_def)
    then have r2: "sint (word_of_int (int m) :: int32) = int m"
      by (intro sint_of_int) (simp add: fits_int_def)
    have u: "unat (word_of_nat m :: size_t) = m" using m by simp
    then have u': "uint (word_of_nat m :: size_t) = int m" by (metis uint_nat)
    have "legalRange n r = Inr (unat (word_of_int (int m) :: size_t))"
      using False by (simp only: legalRange_def Let_def neg d s u' r2 if_False rbind_simps)
    with False u show ?thesis by (simp add: m_def k_def)
  qed
qed

lemma size_to_int_eq [simp]: "n < 2 ^ 31 \<Longrightarrow> size_to_int n = int n"
  using sint_of_int [of "int n"] by (simp add: size_to_int_def fits_int_def)

text \<open>The position an index denotes: forwards modulo the length, backwards from the end.\<close>

definition list_position :: "nat \<Rightarrow> int32 \<Rightarrow> nat" where
  "list_position n r = (if 0 \<le> sint r then nat (sint r) mod n else n - nat (- sint r) mod n)"

lemma list_position_le: "0 < n \<Longrightarrow> list_position n r \<le> n"
  by (simp add: list_position_def less_imp_le)

lemma list_position_valid:
  "0 < n \<Longrightarrow> list_position n r < n \<longleftrightarrow> 0 \<le> sint r \<or> \<not> int n dvd sint r"
proof -
  assume "0 < n"
  moreover have "nat (- sint r) mod n = 0 \<longleftrightarrow> int n dvd sint r" if "sint r < 0"
    using that by (metis dvd_eq_mod_eq_0 dvd_minus_iff int_dvd_int_iff int_nat_eq neg_0_le_iff_le
        less_imp_le)
  ultimately show ?thesis by (auto simp: list_position_def)
qed

lemma List_Index_eq:
  assumes "l \<noteq> []" and "length l < 2 ^ 31" and "sint i \<noteq> INT_MIN"
  shows "List_Index i l =
    (if 0 \<le> sint i \<or> \<not> int (length l) dvd sint i
     then Inr (l ! list_position (length l) i) else Inl Undefined)"
proof -
  have n: "0 < length l" using assms(1) by simp
  then have "list_position (length l) i < 2 ^ 31"
    using list_position_le [OF n, of i] assms(2) by simp
  with n assms show ?thesis
    by (simp add: List_Index_def legalRange_eq list_position_valid
        flip: list_position_def)
qed

lemma List_Set_eq:
  assumes "l \<noteq> []" and "length l < 2 ^ 31" and "sint i \<noteq> INT_MIN"
  shows "List_Set i v l =
    (if 0 \<le> sint i \<or> \<not> int (length l) dvd sint i
     then Inr (True, l[list_position (length l) i := v]) else Inl Undefined)"
proof -
  have n: "0 < length l" using assms(1) by simp
  then have "list_position (length l) i < 2 ^ 31"
    using list_position_le [OF n, of i] assms(2) by simp
  with n assms show ?thesis
    by (simp add: List_Set_def legalRange_eq list_position_valid
        flip: list_position_def)
qed

lemma List_Trim_eq:
  assumes "l \<noteq> []" and "length l < 2 ^ 31" and "sint b \<noteq> INT_MIN" and "sint e \<noteq> INT_MIN"
  shows "List_Trim b e l =
    (let nb = list_position (length l) b; ne = list_position (length l) e in
     if ne < nb then Inr (False, l)
     else if ne < length l then Inr (True, take nb l @ drop (Suc ne) l)
     else Inl Undefined)"
proof -
  have n: "0 < length l" using assms(1) by simp
  have "list_position (length l) b < 2 ^ 31" "list_position (length l) e < 2 ^ 31"
    using list_position_le [OF n] assms(2) by (meson le_less_trans)+
  with n assms show ?thesis
    by (auto simp: List_Trim_def legalRange_eq Let_def simp flip: list_position_def)
qed

text \<open>The guard \<open>!cnt == 0\<close> returns whenever there is something to remove.\<close>

lemma List_Rem_noop: "List_Rem cnt v l = (if sint cnt = INT_MIN \<and> l \<noteq> [] then Inl Undefined else Inr (0, l))"
proof (cases "l = [] \<or> sint cnt = INT_MIN")
  case False
  have "\<exists>ab. (if sint cnt < 0 then rbind (int_neg cnt) (\<lambda>a. Inr (nat (sint a)))
               else Inr (nat (sint cnt))) = Inr ab"
    using False fits_int_sint [of cnt] by (auto simp: int_neg_def fits_int_def)
  with False show ?thesis by (auto simp: List_Rem_def Let_def)
qed (auto simp: List_Rem_def int_neg_def fits_int_def)

section \<open>Round trip\<close>

lemma List_roundtrip:
  assumes "list_all Str_storable l" and "length l < 2 ^ 64"
  shows "\<exists>bs. List_EncodeValue cf l = Inr bs \<and>
    (\<forall>l0 rest. List_DecodeValue cf l0 (bs @ rest) = Inr (l, rest))"
proof -
  have "fold (\<lambda>s acc. acc @ [s]) l acc = acc @ l" for acc :: "Str list"
    by (induction l arbitrary: acc) auto
  then show ?thesis
    using str_codec.seq_roundtrip [of l cf "\<lambda>s acc. acc @ [s]"] assms
    by (fastforce simp: List_EncodeValue_def List_DecodeValue_def)
qed
end
