(* ===== verification/ZSet_Object.thy ===== *)
theory ZSet_Object
  imports List_Object
begin

text \<open>
  The class \<open>ZSet\<close> of \<open>src/objects/zset.cc\<close>, three linked containers over the same members:
  \<open>sequence_list_\<close> holds the members with their scores in the order of insertion, \<open>member_map_\<close>
  finds the list node of a member, \<open>rank_map_\<close> orders the members by score.

  A list node is named by a number (\<open>node_source\<close> is the next unused one), which is what a list
  iterator holds; a node that is no longer in the list makes the iterator dangle.  A pointer to a
  key of \<open>member_map_\<close>, and an iterator to one of its elements, is the key: keys of a map are unique
  and its nodes are stable.
\<close>

record ZSet =
  sequence_list :: "(nat \<times> Str \<times> int32) list"
  member_map :: "nat omap"
  rank_map :: "Str mmap"
  node_source :: nat

definition ZSet_empty :: ZSet where
  "ZSet_empty = \<lparr>sequence_list = [], member_map = [], rank_map = [], node_source = 0\<rparr>"

section \<open>Iterators\<close>

text \<open>\<open>pos->second->second\<close>: the score in the list node an iterator names.\<close>

fun node_score :: "nat \<Rightarrow> (nat \<times> Str \<times> int32) list \<Rightarrow> int32 result" where
  "node_score nid [] = Inl Undefined"
| "node_score nid ((i, m, s) # ns) = (if i = nid then Inr s else node_score nid ns)"

definition node_erase :: "nat \<Rightarrow> (nat \<times> Str \<times> int32) list \<Rightarrow> (nat \<times> Str \<times> int32) list" where
  "node_erase nid ns = filter (\<lambda>(i, m, s). i \<noteq> nid) ns"

definition node_set_score ::
    "nat \<Rightarrow> int32 \<Rightarrow> (nat \<times> Str \<times> int32) list \<Rightarrow> (nat \<times> Str \<times> int32) list" where
  "node_set_score nid v ns = map (\<lambda>(i, m, s). if i = nid then (i, m, v) else (i, m, s)) ns"

text \<open>\<open>while (it->second != pos) it++;\<close>\<close>

fun rank_seek :: "Str \<Rightarrow> Str mmap \<Rightarrow> Str mmap result" where
  "rank_seek pos [] = Inl Undefined"
| "rank_seek pos ((s, p) # it) = (if Str_eq p pos then Inr ((s, p) # it) else rank_seek pos it)"

text \<open>The result of a seek starts with the element it stopped at, so it is never empty.\<close>

lemma rank_seek_not_Nil: "rank_seek pos r = Inr it \<Longrightarrow> \<exists>s p it'. it = (s, p) # it' \<and> Str_eq p pos"
  by (induction pos r rule: rank_seek.induct) (auto split: if_splits)

section \<open>Operations\<close>

definition ZSet_Add :: "int32 \<Rightarrow> Str \<Rightarrow> ZSet \<Rightarrow> bool \<times> ZSet" where
  "ZSet_Add score member z =
     (if om_find member (member_map z) \<noteq> None then (False, z)
      else
        (let nid = node_source z in
         (True,
          z\<lparr>member_map := om_insert member nid (member_map z),
            sequence_list := sequence_list z @ [(nid, member, score)],
            rank_map := mm_insert score member (rank_map z),
            node_source := Suc nid\<rparr>)))"

definition ZSet_Card :: "ZSet \<Rightarrow> nat" where
  "ZSet_Card z = length (sequence_list z)"

definition ZSet_Rem :: "int32 \<Rightarrow> Str \<Rightarrow> ZSet \<Rightarrow> (bool \<times> ZSet) result" where
  "ZSet_Rem score member z =
     (case om_find member (member_map z) of
        None \<Rightarrow> Inr (False, z)
      | Some nid \<Rightarrow>
          rbind (node_score nid (sequence_list z)) (\<lambda>s.
            if s \<noteq> score then Inr (False, z)
            else
              rbind (int_add score (-1)) (\<lambda>below.
                rbind (rank_seek member (mm_upper_bound below (rank_map z))) (\<lambda>it.
                  Inr (True,
                    z\<lparr>sequence_list := node_erase nid (sequence_list z),
                      rank_map := it_erase (rank_map z) it,
                      member_map := om_erase member (member_map z)\<rparr>)))))"

definition ZSet_Count :: "int32 \<Rightarrow> int32 \<Rightarrow> ZSet \<Rightarrow> nat" where
  "ZSet_Count score_low score_high z =
     (if sint score_low > sint score_high then 0
      else it_distance (mm_lower_bound score_low (rank_map z)) (mm_upper_bound score_high (rank_map z)))"

definition ZSet_LexCount :: "Str \<Rightarrow> Str \<Rightarrow> ZSet \<Rightarrow> nat" where
  "ZSet_LexCount member_low member_high z =
     (if Str_greater member_low member_high then 0
      else it_distance (om_lower_bound member_low (member_map z))
             (om_upper_bound member_high (member_map z)))"

definition ZSet_IncrBy :: "int32 \<Rightarrow> Str \<Rightarrow> ZSet \<Rightarrow> (string \<times> ZSet) result" where
  "ZSet_IncrBy delta_score member z =
     (case om_find member (member_map z) of
        None \<Rightarrow> Inr ([], z)
      | Some nid \<Rightarrow>
          rbind (node_score nid (sequence_list z)) (\<lambda>s.
            rbind (rank_seek member (mm_lower_bound s (rank_map z))) (\<lambda>it.
              rbind (int_add s delta_score) (\<lambda>s'.
                (let pos = snd (hd it) in
                 Inr (to_string s',
                   z\<lparr>rank_map := mm_insert s' pos (it_erase (rank_map z) it),
                     sequence_list := node_set_score nid s' (sequence_list z)\<rparr>))))))"

definition ZSet_DecrBy :: "int32 \<Rightarrow> Str \<Rightarrow> ZSet \<Rightarrow> (string \<times> ZSet) result" where
  "ZSet_DecrBy delta_score member z = rbind (int_neg delta_score) (\<lambda>d. ZSet_IncrBy d member z)"

definition ZSet_Range :: "int32 \<Rightarrow> int32 \<Rightarrow> ZSet \<Rightarrow> (Str \<times> int32) list result" where
  "ZSet_Range b e z =
     (let l = sequence_list z in
      if l = [] then Inr []
      else
        rbind (legalRange (length l) b) (\<lambda>lbeg.
          rbind (legalRange (length l) e) (\<lambda>lend.
            if lbeg \<ge> lend then Inr []
            else if lend + 1 \<le> length l
            then Inr (map (\<lambda>(i, m, s). (m, s)) (take (lend + 1 - lbeg) (drop lbeg l)))
            else Inl Undefined)))"

definition ZSet_RangeByScore :: "int32 \<Rightarrow> int32 \<Rightarrow> ZSet \<Rightarrow> (Str \<times> int32) list" where
  "ZSet_RangeByScore score_low score_high z =
     (if sint score_low > sint score_high then []
      else map (\<lambda>(s, m). (m, s))
             (it_range (mm_lower_bound score_low (rank_map z)) (mm_upper_bound score_high (rank_map z))))"

fun lex_rows :: "(nat \<times> Str \<times> int32) list \<Rightarrow> nat omap \<Rightarrow> (Str \<times> int32) list result" where
  "lex_rows ns [] = Inr []"
| "lex_rows ns ((m, nid) # r) =
     rbind (node_score nid ns) (\<lambda>s. rbind (lex_rows ns r) (\<lambda>rows. Inr ((m, s) # rows)))"

definition ZSet_RangeByLex :: "Str \<Rightarrow> Str \<Rightarrow> ZSet \<Rightarrow> (Str \<times> int32) list result" where
  "ZSet_RangeByLex member_low member_high z =
     (if Str_greater member_low member_high then Inr []
      else lex_rows (sequence_list z)
             (it_range (om_lower_bound member_low (member_map z))
               (om_upper_bound member_high (member_map z))))"

definition ZSet_GetObjectType :: "ZSet \<Rightarrow> ObjectType" where
  "ZSet_GetObjectType z = ObjectType_ZSET"

definition ZSet_EncodeValue :: "env \<Rightarrow> ZSet \<Rightarrow> string result" where
  "ZSet_EncodeValue cf z =
     encode_seq (encode_pair (\<lambda>s. Inr (BitsToString s)) (Str_EncodeValue cf))
       (map (\<lambda>(i, m, s). (s, m)) (sequence_list z))"

text \<open>
  \<open>DecodeValue\<close> clears \<open>member_map_\<close> only and then repeats the body of \<open>Add\<close> for each row.
\<close>

definition ZSet_DecodeValue :: "env \<Rightarrow> ZSet \<Rightarrow> ZSet decoder" where
  "ZSet_DecodeValue cf z source =
     decode_seq (decode_pair PeekInt (Str_DecodeValue cf)) (\<lambda>(r, s) acc. snd (ZSet_Add r s acc))
       (z\<lparr>member_map := []\<rparr>) source"

text \<open>
  \<open>rank_map_.find(score)\<close>: the first element with an equal score, or the end.  The standard leaves open
  which of several equal elements \<open>std::multimap::find\<close> returns; that of libstdc++, which the server is
  built with, returns the lower bound.  \<open>Rank\<close> is its distance from the beginning.
\<close>

definition mm_find :: "int32 \<Rightarrow> 'v mmap \<Rightarrow> 'v mmap" where
  "mm_find s m =
     (case mm_lower_bound s m of [] \<Rightarrow> [] | (s', v) # it \<Rightarrow> if s' = s then (s', v) # it else [])"

definition ZSet_Rank :: "Str \<Rightarrow> ZSet \<Rightarrow> string result" where
  "ZSet_Rank member z =
     (case om_find member (member_map z) of
        None \<Rightarrow> Inr []
      | Some nid \<Rightarrow>
          rbind (node_score nid (sequence_list z)) (\<lambda>s.
            Inr (nat_to_string (it_distance (rank_map z) (mm_find s (rank_map z))))))"

definition ZSet_Score :: "Str \<Rightarrow> ZSet \<Rightarrow> string result" where
  "ZSet_Score member z =
     (case om_find member (member_map z) of
        None \<Rightarrow> Inr []
      | Some nid \<Rightarrow> rbind (node_score nid (sequence_list z)) (\<lambda>s. Inr (to_string s)))"

definition ZSet_Fork :: "string \<Rightarrow> ZSet \<Rightarrow> string" where
  "ZSet_Fork key z =
     ''ZADD '' @ key @ '' '' @
     concat (map (\<lambda>(i, m, s). to_string s @ '' '' @ Str_GetRaw m @ '' '') (sequence_list z))"

text \<open>The copy constructor re-adds every member; the copy assignment does so without clearing.\<close>

definition ZSet_copy :: "ZSet \<Rightarrow> ZSet" where
  "ZSet_copy lhs = fold (\<lambda>(i, m, s) z. snd (ZSet_Add s m z)) (sequence_list lhs) ZSet_empty"

definition ZSet_assign :: "ZSet \<Rightarrow> ZSet \<Rightarrow> ZSet" where
  "ZSet_assign self lhs = fold (\<lambda>(i, m, s) z. snd (ZSet_Add s m z)) (sequence_list lhs) self"

section \<open>The representation invariant\<close>

definition ZSet_inv :: "ZSet \<Rightarrow> bool" where
  "ZSet_inv z \<longleftrightarrow>
     distinct (map fst (sequence_list z)) \<and>
     list_all (\<lambda>(i, m, s). i < node_source z) (sequence_list z) \<and>
     distinct (map (\<lambda>(i, m, s). str_data m) (sequence_list z)) \<and>
     om_sorted (member_map z) \<and>
     mset (member_map z) = image_mset (\<lambda>(i, m, s). (m, i)) (mset (sequence_list z)) \<and>
     mm_sorted (rank_map z) \<and>
     mset (rank_map z) = image_mset (\<lambda>(i, m, s). (s, m)) (mset (sequence_list z))"

lemma ZSet_inv_empty [simp]: "ZSet_inv ZSet_empty"
  by (simp add: ZSet_inv_def ZSet_empty_def om_sorted_def mm_sorted_def)

lemma ZSet_inv_member_set:
  "ZSet_inv z \<Longrightarrow> set (member_map z) = (\<lambda>(i, m, s). (m, i)) ` set (sequence_list z)"
proof -
  assume "ZSet_inv z"
  then have "mset (member_map z) = image_mset (\<lambda>(i, m, s). (m, i)) (mset (sequence_list z))"
    by (simp add: ZSet_inv_def)
  from arg_cong [OF this, of set_mset] show ?thesis by simp
qed

lemma ZSet_inv_rank_set:
  "ZSet_inv z \<Longrightarrow> set (rank_map z) = (\<lambda>(i, m, s). (s, m)) ` set (sequence_list z)"
proof -
  assume "ZSet_inv z"
  then have "mset (rank_map z) = image_mset (\<lambda>(i, m, s). (s, m)) (mset (sequence_list z))"
    by (simp add: ZSet_inv_def)
  from arg_cong [OF this, of set_mset] show ?thesis by simp
qed

lemma ZSet_row_by_data:
  assumes "ZSet_inv z" and "(i, m, s) \<in> set (sequence_list z)" and "(i', m', s') \<in> set (sequence_list z)"
    and "str_data m = str_data m'"
  shows "(i, m, s) = (i', m', s')"
  using distinct_map_eq [of "\<lambda>(i, m, s). str_data m" "sequence_list z" "(i, m, s)" "(i', m', s')"] assms
  by (simp add: ZSet_inv_def)

lemma ZSet_row_by_id:
  assumes "ZSet_inv z" and "(i, m, s) \<in> set (sequence_list z)" and "(i, m', s') \<in> set (sequence_list z)"
  shows "m = m' \<and> s = s'"
  using distinct_map_eq [of fst "sequence_list z" "(i, m, s)" "(i, m', s')"] assms
  by (simp add: ZSet_inv_def)

lemma ZSet_find_Some:
  "ZSet_inv z \<Longrightarrow> om_find m (member_map z) = Some nid \<longleftrightarrow>
     (\<exists>m' s. (nid, m', s) \<in> set (sequence_list z) \<and> str_data m' = str_data m)"
  by (simp add: om_find_Some_iff ZSet_inv_def ZSet_inv_member_set image_iff) force

lemma ZSet_find_None:
  "ZSet_inv z \<Longrightarrow> om_find m (member_map z) = None \<longleftrightarrow>
     str_data m \<notin> (\<lambda>(i, m, s). str_data m) ` set (sequence_list z)"
  by (simp add: om_find_None_iff ZSet_inv_member_set image_image case_prod_beta')

lemma node_score_eq:
  "distinct (map fst ns) \<Longrightarrow> (nid, m, s) \<in> set ns \<Longrightarrow> node_score nid ns = Inr s"
  by (induction nid ns rule: node_score.induct) force+

lemma ZSet_node_score:
  "ZSet_inv z \<Longrightarrow> (nid, m, s) \<in> set (sequence_list z) \<Longrightarrow> node_score nid (sequence_list z) = Inr s"
  by (rule node_score_eq) (simp_all add: ZSet_inv_def)

lemma rank_seek_found:
  "(s, p) \<in> set r \<Longrightarrow> Str_eq p pos \<Longrightarrow>
     \<exists>pre s' p' post. r = pre @ (s', p') # post \<and> Str_eq p' pos \<and> rank_seek pos r = Inr ((s', p') # post)"
proof (induction pos r rule: rank_seek.induct)
  case (2 pos s0 p0 it)
  show ?case
  proof (cases "Str_eq p0 pos")
    case True
    then show ?thesis by (intro exI [of _ "[]"]) simp
  next
    case False
    with 2 obtain pre s' p' post where
      "it = pre @ (s', p') # post" "Str_eq p' pos" "rank_seek pos it = Inr ((s', p') # post)"
      by auto
    with False show ?thesis by (intro exI [of _ "(s0, p0) # pre"]) simp
  qed
qed simp

lemma it_erase_append [simp]: "it_erase (pre @ x # post) (x # post) = pre @ post"
  by (simp add: it_erase_def)

text \<open>Seeking from a position at or before the element finds it, and erasing there removes it.\<close>

lemma rank_seek_erase:
  assumes d: "distinct (map (str_data \<circ> snd) r)" and "r = front @ r'" and "(s, p) \<in> set r'"
    and "str_data p = str_data pos"
  shows "\<exists>it. rank_seek pos r' = Inr it \<and> snd (hd it) = p \<and>
           it_erase r it = filter (\<lambda>(s', p'). str_data p' \<noteq> str_data pos) r"
proof -
  obtain pre s' p' post where r': "r' = pre @ (s', p') # post" "str_data p' = str_data pos"
      "rank_seek pos r' = Inr ((s', p') # post)"
    using rank_seek_found [OF assms(3), of pos] assms(4) unfolding Str_eq_def by blast
  have r: "r = (front @ pre) @ (s', p') # post" by (simp add: assms(2) r'(1))
  have "(s, p) \<in> set r" using assms(3) by (simp add: assms(2))
  moreover have "(s', p') \<in> set r" by (simp add: r)
  ultimately have "(s, p) = (s', p')"
    by (rule distinct_map_eq [OF d]) (simp add: assms(4) r'(2))
  then have "p = p'" by simp
  have "\<forall>x \<in> set front \<union> set pre \<union> set post. str_data (snd x) \<noteq> str_data pos"
    using d unfolding r by (auto simp: r'(2) image_iff)
  then have "filter (\<lambda>(s', p'). str_data p' \<noteq> str_data pos) r = (front @ pre) @ post"
    unfolding r by (simp add: r'(2) case_prod_beta')
  note \<open>p = p'\<close> this
  moreover have "it_erase r ((s', p') # post) = (front @ pre) @ post"
    unfolding r by (rule it_erase_append)
  ultimately show ?thesis using r'(3) by auto
qed

lemma ZSet_rank_distinct: "ZSet_inv z \<Longrightarrow> distinct (map (str_data \<circ> snd) (rank_map z))"
proof -
  assume inv: "ZSet_inv z"
  then have "mset (map (str_data \<circ> snd) (rank_map z)) =
      image_mset (str_data \<circ> snd) (image_mset (\<lambda>(i, m, s). (s, m)) (mset (sequence_list z)))"
    by (simp add: ZSet_inv_def)
  also have "\<dots> = mset (map (\<lambda>(i, m, s). str_data m) (sequence_list z))"
    by (simp add: image_mset.compositionality comp_def case_prod_beta')
  finally show ?thesis using inv by (metis ZSet_inv_def mset_eq_imp_distinct_iff)
qed

lemma ZSet_rank_seek:
  assumes "ZSet_inv z" and "(nid, p, s) \<in> set (sequence_list z)" and "str_data p = str_data pos"
    and "\<not> P (s, p)"
  shows "\<exists>it. rank_seek pos (dropWhile P (rank_map z)) = Inr it \<and> snd (hd it) = p \<and>
           it_erase (rank_map z) it = filter (\<lambda>(s', p'). str_data p' \<noteq> str_data pos) (rank_map z)"
proof (rule rank_seek_erase)
  show "distinct (map (str_data \<circ> snd) (rank_map z))" using assms(1) by (rule ZSet_rank_distinct)
  show "rank_map z = takeWhile P (rank_map z) @ dropWhile P (rank_map z)" by simp
  have "(s, p) \<in> set (rank_map z)" using assms(1,2) by (force simp: ZSet_inv_rank_set)
  then show "(s, p) \<in> set (dropWhile P (rank_map z))"
    using assms(4) by (metis Un_iff set_append set_takeWhileD takeWhile_dropWhile_id)
  show "str_data p = str_data pos" by (rule assms(3))
qed

section \<open>Every operation keeps the invariant\<close>

lemma ZSet_inv_Add: "ZSet_inv z \<Longrightarrow> ZSet_inv (snd (ZSet_Add s m z))"
proof (cases "om_find m (member_map z)")
  case None
  assume inv: "ZSet_inv z"
  have "str_data m \<notin> (\<lambda>(i, m, s). str_data m) ` set (sequence_list z)"
    using ZSet_find_None [OF inv] None by blast
  moreover have "node_source z \<notin> fst ` set (sequence_list z)"
    using inv by (auto simp: ZSet_inv_def list_all_iff)
  moreover have "list_all (\<lambda>(i, m, s). i < Suc (node_source z)) (sequence_list z)"
    using inv by (auto simp: ZSet_inv_def list_all_iff)
  ultimately show ?thesis
    using inv None
    by (simp add: ZSet_inv_def ZSet_Add_def om_sorted_insert mset_om_insert mm_sorted_insert Let_def)
qed (simp add: ZSet_Add_def)

definition ZSet_without :: "Str \<Rightarrow> ZSet \<Rightarrow> ZSet" where
  "ZSet_without m z =
     z\<lparr>sequence_list := filter (\<lambda>(i, p, s). str_data p \<noteq> str_data m) (sequence_list z),
       rank_map := filter (\<lambda>(s, p). str_data p \<noteq> str_data m) (rank_map z),
       member_map := om_erase m (member_map z)\<rparr>"

lemma node_erase_by_data:
  assumes "ZSet_inv z" and "(nid, p, s) \<in> set (sequence_list z)" and "str_data p = str_data m"
  shows "node_erase nid (sequence_list z) =
    filter (\<lambda>(i, p, s). str_data p \<noteq> str_data m) (sequence_list z)"
  unfolding node_erase_def
proof (rule filter_cong)
  fix row assume row: "row \<in> set (sequence_list z)"
  obtain i q t where [simp]: "row = (i, q, t)" by (cases row)
  show "(case row of (i, m, s) \<Rightarrow> i \<noteq> nid) = (case row of (i, p, s) \<Rightarrow> str_data p \<noteq> str_data m)"
    using ZSet_row_by_data [OF assms(1,2), of i q t] ZSet_row_by_id [OF assms(1,2), of q t] row assms(3)
    by auto
qed simp

lemma ZSet_Rem_present:
  assumes "ZSet_inv z" and "(nid, p, score) \<in> set (sequence_list z)" and "str_data p = str_data m"
  shows "ZSet_Rem score m z =
    (if sint score = INT_MIN then Inl Undefined else Inr (True, ZSet_without m z))"
proof -
  have f: "om_find m (member_map z) = Some nid"
    using assms ZSet_find_Some by blast
  have n: "node_score nid (sequence_list z) = Inr score"
    using assms(1,2) by (rule ZSet_node_score)
  show ?thesis
  proof (cases "sint score = INT_MIN")
    case True
    then show ?thesis by (simp add: ZSet_Rem_def f n int_add_def fits_int_def)
  next
    case False
    obtain below where b: "int_add score (-1) = Inr below"
      using False fits_int_sint [of score] by (auto simp: int_add_def fits_int_def)
    have sb: "sint below = sint score - 1" using int_add_sint [OF b] by simp
    obtain it where it: "rank_seek m (mm_upper_bound below (rank_map z)) = Inr it"
        "it_erase (rank_map z) it = filter (\<lambda>(s, p). str_data p \<noteq> str_data m) (rank_map z)"
      using ZSet_rank_seek [OF assms, of "\<lambda>(s', v'). sint s' \<le> sint below"] sb
      by (auto simp: mm_upper_bound_def)
    show ?thesis
      using False by (simp add: ZSet_Rem_def f n b it node_erase_by_data [OF assms] ZSet_without_def)
  qed
qed

lemma ZSet_Rem_absent:
  assumes "ZSet_inv z" and "\<And>nid p. (nid, p, score) \<in> set (sequence_list z) \<Longrightarrow> str_data p \<noteq> str_data m"
  shows "ZSet_Rem score m z = Inr (False, z)"
proof (cases "om_find m (member_map z)")
  case None
  then show ?thesis by (simp add: ZSet_Rem_def)
next
  case (Some nid)
  then obtain p s where row: "(nid, p, s) \<in> set (sequence_list z)" "str_data p = str_data m"
    using assms(1) ZSet_find_Some by blast
  then have "s \<noteq> score" using assms(2) by blast
  with Some ZSet_node_score [OF assms(1) row(1)] show ?thesis by (simp add: ZSet_Rem_def)
qed

lemma ZSet_inv_without:
  assumes "ZSet_inv z"
  shows "ZSet_inv (ZSet_without m z)"
proof -
  let ?rows = "sequence_list z"
  let ?keep = "filter (\<lambda>(i, p, s). str_data p \<noteq> str_data m) ?rows"
  have "mset (om_erase m (member_map z)) = image_mset (\<lambda>(i, m, s). (m, i)) (mset ?keep)"
    using assms by (simp add: mset_om_erase ZSet_inv_def filter_mset_image_mset comp_def
        case_prod_beta' mset_filter)
  moreover have "mset (filter (\<lambda>(s, p). str_data p \<noteq> str_data m) (rank_map z)) =
      image_mset (\<lambda>(i, m, s). (s, m)) (mset ?keep)"
    using assms by (simp add: mset_filter ZSet_inv_def filter_mset_image_mset comp_def case_prod_beta')
  moreover have "mm_sorted (filter (\<lambda>(s, p). str_data p \<noteq> str_data m) (rank_map z))"
    using assms by (simp add: ZSet_inv_def mm_sorted_def sorted_filter)
  ultimately show ?thesis
    using assms
    by (simp add: ZSet_inv_def ZSet_without_def om_sorted_erase distinct_map_filter list_all_iff)
qed

lemma ZSet_inv_Rem: "ZSet_inv z \<Longrightarrow> ZSet_Rem score m z = Inr (b, z') \<Longrightarrow> ZSet_inv z'"
proof (cases "\<exists>nid p. (nid, p, score) \<in> set (sequence_list z) \<and> str_data p = str_data m")
  case True
  assume "ZSet_inv z" "ZSet_Rem score m z = Inr (b, z')"
  with True show ?thesis by (auto simp: ZSet_Rem_present ZSet_inv_without split: if_splits)
next
  case False
  assume "ZSet_inv z" "ZSet_Rem score m z = Inr (b, z')"
  with False ZSet_Rem_absent [of z score m] show ?thesis by auto
qed

text \<open>Changing a score moves the member in the order and leaves it in its place in the list.\<close>

definition ZSet_rescore :: "nat \<Rightarrow> Str \<Rightarrow> int32 \<Rightarrow> ZSet \<Rightarrow> ZSet" where
  "ZSet_rescore nid p v z =
     z\<lparr>rank_map := mm_insert v p (filter (\<lambda>(s', p'). str_data p' \<noteq> str_data p) (rank_map z)),
       sequence_list := node_set_score nid v (sequence_list z)\<rparr>"

lemma ZSet_IncrBy_present:
  assumes "ZSet_inv z" and "(nid, p, s) \<in> set (sequence_list z)" and "str_data p = str_data m"
  shows "ZSet_IncrBy delta m z =
    rbind (int_add s delta) (\<lambda>v. Inr (to_string v, ZSet_rescore nid p v z))"
proof -
  have f: "om_find m (member_map z) = Some nid"
    using assms ZSet_find_Some by blast
  have n: "node_score nid (sequence_list z) = Inr s"
    using assms(1,2) by (rule ZSet_node_score)
  obtain it where it: "rank_seek m (mm_lower_bound s (rank_map z)) = Inr it" "snd (hd it) = p"
      "it_erase (rank_map z) it = filter (\<lambda>(s, p). str_data p \<noteq> str_data m) (rank_map z)"
    using ZSet_rank_seek [OF assms, of "\<lambda>(s', v'). sint s' < sint s"]
    by (auto simp: mm_lower_bound_def)
  show ?thesis by (simp add: ZSet_IncrBy_def f n it ZSet_rescore_def assms(3))
qed

lemma ZSet_IncrBy_absent:
  assumes "ZSet_inv z" and "str_data m \<notin> (\<lambda>(i, m, s). str_data m) ` set (sequence_list z)"
  shows "ZSet_IncrBy delta m z = Inr ([], z)"
  using ZSet_find_None [OF assms(1), of m] assms(2) by (simp add: ZSet_IncrBy_def)

lemma node_set_score_keeps:
  "map fst (node_set_score nid v ns) = map fst ns"
  "map (\<lambda>(i, m, s). str_data m) (node_set_score nid v ns) = map (\<lambda>(i, m, s). str_data m) ns"
  "map (\<lambda>(i, m, s). (m, i)) (node_set_score nid v ns) = map (\<lambda>(i, m, s). (m, i)) ns"
  by (auto simp: node_set_score_def)

lemma node_set_score_unused: "nid \<notin> fst ` set ns \<Longrightarrow> node_set_score nid v ns = ns"
  unfolding node_set_score_def by (intro map_idI) force

text \<open>The list around one of its rows.\<close>

lemma ZSet_rows_split:
  assumes "ZSet_inv z" and "(nid, p, s) \<in> set (sequence_list z)"
  obtains xs ys where "sequence_list z = xs @ (nid, p, s) # ys"
    and "nid \<notin> fst ` set (xs @ ys)"
    and "str_data p \<notin> (\<lambda>(i, m, s). str_data m) ` set (xs @ ys)"
proof -
  obtain xs ys where eq: "sequence_list z = xs @ (nid, p, s) # ys"
    using split_list [OF assms(2)] by blast
  have "distinct (map fst (xs @ (nid, p, s) # ys))"
      "distinct (map (\<lambda>(i, m, s). str_data m) (xs @ (nid, p, s) # ys))"
    using assms(1) unfolding eq [symmetric] by (simp_all add: ZSet_inv_def)
  then show thesis by (intro that [OF eq]) (simp_all add: image_Un)
qed

lemma ZSet_inv_rescore:
  assumes "ZSet_inv z" and "(nid, p, s) \<in> set (sequence_list z)"
  shows "ZSet_inv (ZSet_rescore nid p v z)"
proof -
  let ?rows = "node_set_score nid v (sequence_list z)"
  let ?rest = "filter (\<lambda>(s', p'). str_data p' \<noteq> str_data p) (rank_map z)"
  obtain xs ys where split: "sequence_list z = xs @ (nid, p, s) # ys"
      "nid \<notin> fst ` set (xs @ ys)" "str_data p \<notin> (\<lambda>(i, m, s). str_data m) ` set (xs @ ys)"
    using assms by (rule ZSet_rows_split)
  have rows: "?rows = xs @ (nid, p, v) # ys"
    using node_set_score_unused [of nid xs v] node_set_score_unused [of nid ys v] split(2)
    by (simp add: split(1) node_set_score_def image_Un)
  have keep: "filter (\<lambda>(i, m, s). str_data m \<noteq> str_data p) (sequence_list z) = xs @ ys"
  proof -
    have "filter (\<lambda>(i, m, s). str_data m \<noteq> str_data p) (xs @ ys) = xs @ ys"
      using split(3) by (intro filter_True) force
    then show ?thesis by (simp add: split(1))
  qed
  have "mset ?rest = image_mset (\<lambda>(i, m, s). (s, m))
      (mset (filter (\<lambda>(i, m, s). str_data m \<noteq> str_data p) (sequence_list z)))"
    using assms(1) by (simp add: ZSet_inv_def filter_mset_image_mset comp_def case_prod_beta')
  then have ranks: "mset (mm_insert v p ?rest) = image_mset (\<lambda>(i, m, s). (s, m)) (mset ?rows)"
    by (simp add: mset_mm_insert keep rows)
  have members: "mset (member_map z) = image_mset (\<lambda>(i, m, s). (m, i)) (mset ?rows)"
    using assms(1) unfolding rows by (simp add: ZSet_inv_def split(1))
  have "mm_sorted ?rest"
    using assms(1) by (simp add: ZSet_inv_def mm_sorted_def sorted_filter)
  then have sorted: "mm_sorted (mm_insert v p ?rest)" by (rule mm_sorted_insert)
  have ids: "list_all (\<lambda>(i, m, s). i < node_source z) ?rows"
    using assms(1) unfolding rows by (simp add: ZSet_inv_def split(1))
  from assms(1) have "distinct (map fst (sequence_list z))" "om_sorted (member_map z)"
      "distinct (map (\<lambda>(i, m, s). str_data m) (sequence_list z))"
    by (simp_all only: ZSet_inv_def)
  then show ?thesis
    using ranks unfolding ZSet_inv_def ZSet_rescore_def
    by (simp add: node_set_score_keeps members sorted ids)
qed

lemma ZSet_inv_IncrBy: "ZSet_inv z \<Longrightarrow> ZSet_IncrBy delta m z = Inr (r, z') \<Longrightarrow> ZSet_inv z'"
proof (cases "\<exists>nid p s. (nid, p, s) \<in> set (sequence_list z) \<and> str_data p = str_data m")
  case True
  assume "ZSet_inv z" "ZSet_IncrBy delta m z = Inr (r, z')"
  with True show ?thesis by (auto simp: ZSet_IncrBy_present ZSet_inv_rescore rbind_eq_Inr_iff)
next
  case False
  assume "ZSet_inv z" "ZSet_IncrBy delta m z = Inr (r, z')"
  with False ZSet_IncrBy_absent [of z m delta] show ?thesis by force
qed

lemma ZSet_inv_DecrBy: "ZSet_inv z \<Longrightarrow> ZSet_DecrBy delta m z = Inr (r, z') \<Longrightarrow> ZSet_inv z'"
  by (auto simp: ZSet_DecrBy_def rbind_eq_Inr_iff intro: ZSet_inv_IncrBy)

lemma ZSet_inv_fold_Add: "ZSet_inv z \<Longrightarrow> ZSet_inv (fold (\<lambda>(i, m, s) z. snd (ZSet_Add s m z)) rows z)"
  by (induction rows arbitrary: z) (auto simp: ZSet_inv_Add)

lemma ZSet_inv_assign: "ZSet_inv z \<Longrightarrow> ZSet_inv (ZSet_assign z lhs)"
  by (simp add: ZSet_assign_def ZSet_inv_fold_Add)

lemma ZSet_inv_copy: "ZSet_inv (ZSet_copy lhs)"
  by (simp add: ZSet_copy_def ZSet_inv_fold_Add)

section \<open>The abstract sorted set\<close>

text \<open>
  What the class promises: members with their scores in the order of insertion, no member twice.
\<close>

definition zset_abs :: "ZSet \<Rightarrow> (Str \<times> int32) list" where
  "zset_abs z = map snd (sequence_list z)"

definition zset_wf :: "(Str \<times> int32) list \<Rightarrow> bool" where
  "zset_wf a \<longleftrightarrow> distinct (map (str_data \<circ> fst) a)"

definition zset_find :: "Str \<Rightarrow> (Str \<times> int32) list \<Rightarrow> (Str \<times> int32) option" where
  "zset_find m a = find (\<lambda>(p, s). str_data p = str_data m) a"

definition zset_rescore :: "Str \<Rightarrow> int32 \<Rightarrow> (Str \<times> int32) list \<Rightarrow> (Str \<times> int32) list" where
  "zset_rescore m v a = map (\<lambda>(p, s). if str_data p = str_data m then (p, v) else (p, s)) a"

lemma zset_abs_empty [simp]: "zset_abs ZSet_empty = []"
  by (simp add: zset_abs_def ZSet_empty_def)

lemma zset_wf_abs: "ZSet_inv z \<Longrightarrow> zset_wf (zset_abs z)"
  by (simp add: zset_wf_def zset_abs_def ZSet_inv_def comp_def case_prod_beta')

lemma zset_find_Some_iff:
  "zset_wf a \<Longrightarrow> zset_find m a = Some (p, s) \<longleftrightarrow> (p, s) \<in> set a \<and> str_data p = str_data m"
  unfolding zset_find_def
proof (induction a)
  case (Cons q a)
  obtain p0 s0 where q: "q = (p0, s0)" by (cases q)
  have "(p, s) \<notin> set a" if "str_data p = str_data p0"
    using Cons.prems that by (auto simp: zset_wf_def q image_iff)
  then show ?case
    using Cons by (auto simp: zset_wf_def q)
qed simp

lemma zset_find_None_iff: "zset_find m a = None \<longleftrightarrow> str_data m \<notin> (str_data \<circ> fst) ` set a"
  unfolding zset_find_def by (force simp: find_None_iff)

lemma zset_abs_row:
  "(p, s) \<in> set (zset_abs z) \<longleftrightarrow> (\<exists>nid. (nid, p, s) \<in> set (sequence_list z))"
  by (force simp: zset_abs_def)

lemma zset_find_row:
  assumes "ZSet_inv z" and "zset_find m (zset_abs z) = Some (p, s)"
  obtains nid where "(nid, p, s) \<in> set (sequence_list z)" and "str_data p = str_data m"
    and "om_find m (member_map z) = Some nid" and "node_score nid (sequence_list z) = Inr s"
proof -
  obtain nid where row: "(nid, p, s) \<in> set (sequence_list z)" "str_data p = str_data m"
    using assms zset_find_Some_iff [OF zset_wf_abs [OF assms(1)]] zset_abs_row by blast
  moreover have "om_find m (member_map z) = Some nid"
    using assms(1) row ZSet_find_Some by blast
  ultimately show thesis using that ZSet_node_score [OF assms(1) row(1)] by blast
qed

lemma zset_find_absent:
  "ZSet_inv z \<Longrightarrow> zset_find m (zset_abs z) = None \<longleftrightarrow> om_find m (member_map z) = None"
  by (simp add: zset_find_None_iff ZSet_find_None zset_abs_def image_image case_prod_beta' comp_def)

section \<open>The operations on the abstract sorted set\<close>

lemma ZSet_Card_abs: "ZSet_Card z = length (zset_abs z)"
  by (simp add: ZSet_Card_def zset_abs_def)

lemma ZSet_Add_abs:
  assumes "ZSet_inv z"
  shows "fst (ZSet_Add s m z) = (zset_find m (zset_abs z) = None)"
    and "zset_abs (snd (ZSet_Add s m z)) =
      (if zset_find m (zset_abs z) = None then zset_abs z @ [(m, s)] else zset_abs z)"
  using zset_find_absent [OF assms, of m] by (simp_all add: ZSet_Add_def zset_abs_def Let_def)

lemma ZSet_Rem_abs:
  assumes "ZSet_inv z"
  shows "rbind (ZSet_Rem score m z) (\<lambda>(b, z'). Inr (b, zset_abs z')) =
    (case zset_find m (zset_abs z) of
       None \<Rightarrow> Inr (False, zset_abs z)
     | Some (p, s) \<Rightarrow>
         if s \<noteq> score then Inr (False, zset_abs z)
         else if sint score = INT_MIN then Inl Undefined
         else Inr (True, filter (\<lambda>(p, s). str_data p \<noteq> str_data m) (zset_abs z)))"
proof (cases "zset_find m (zset_abs z)")
  case None
  then show ?thesis using zset_find_absent [OF assms, of m] by (simp add: ZSet_Rem_def)
next
  case (Some q)
  obtain p s where q: "q = (p, s)" by (cases q)
  obtain nid where row: "(nid, p, s) \<in> set (sequence_list z)" "str_data p = str_data m"
      "om_find m (member_map z) = Some nid" "node_score nid (sequence_list z) = Inr s"
    using zset_find_row [OF assms] Some q by blast
  show ?thesis
  proof (cases "s = score")
    case True
    have "zset_abs (ZSet_without m z) = filter (\<lambda>(p, s). str_data p \<noteq> str_data m) (zset_abs z)"
      by (simp add: ZSet_without_def zset_abs_def filter_map comp_def case_prod_beta')
    with True ZSet_Rem_present [OF assms, of nid p score m] row(1,2) show ?thesis
      by (simp add: Some q)
  next
    case False
    then show ?thesis by (simp add: Some q row ZSet_Rem_def)
  qed
qed

lemma zset_abs_rescore:
  assumes "ZSet_inv z" and "(nid, p, s) \<in> set (sequence_list z)" and "str_data p = str_data m"
  shows "zset_abs (ZSet_rescore nid p v z) = zset_rescore m v (zset_abs z)"
proof -
  have "map snd (node_set_score nid v (sequence_list z)) =
      map (\<lambda>(i, p, s). if str_data p = str_data m then (p, v) else (p, s)) (sequence_list z)"
    unfolding node_set_score_def map_map
  proof (rule map_cong [OF refl])
    fix row assume row: "row \<in> set (sequence_list z)"
    obtain i q t where [simp]: "row = (i, q, t)" by (cases row)
    show "(snd \<circ> (\<lambda>(i, m, s). if i = nid then (i, m, v) else (i, m, s))) row =
        (case row of (i, p, s) \<Rightarrow> if str_data p = str_data m then (p, v) else (p, s))"
      using ZSet_row_by_data [OF assms(1,2), of i q t] ZSet_row_by_id [OF assms(1,2), of q t] row assms(3)
      by auto
  qed
  then show ?thesis
    by (simp add: zset_abs_def ZSet_rescore_def zset_rescore_def comp_def case_prod_beta')
qed

lemma ZSet_IncrBy_abs:
  assumes "ZSet_inv z"
  shows "rbind (ZSet_IncrBy delta m z) (\<lambda>(r, z'). Inr (r, zset_abs z')) =
    (case zset_find m (zset_abs z) of
       None \<Rightarrow> Inr ([], zset_abs z)
     | Some (p, s) \<Rightarrow> rbind (int_add s delta) (\<lambda>v. Inr (to_string v, zset_rescore m v (zset_abs z))))"
proof (cases "zset_find m (zset_abs z)")
  case None
  then show ?thesis using zset_find_absent [OF assms, of m] by (simp add: ZSet_IncrBy_def)
next
  case (Some q)
  obtain p s where q: "q = (p, s)" by (cases q)
  obtain nid where row: "(nid, p, s) \<in> set (sequence_list z)" "str_data p = str_data m"
    using zset_find_row [OF assms] Some q by blast
  show ?thesis
    by (simp add: Some q ZSet_IncrBy_present [OF assms row] zset_abs_rescore [OF assms row] rbind_assoc)
qed

lemma ZSet_Score_abs:
  assumes "ZSet_inv z"
  shows "ZSet_Score m z =
    Inr (case zset_find m (zset_abs z) of None \<Rightarrow> [] | Some (p, s) \<Rightarrow> to_string s)"
proof (cases "zset_find m (zset_abs z)")
  case None
  then show ?thesis using zset_find_absent [OF assms, of m] by (simp add: ZSet_Score_def)
next
  case (Some q)
  obtain p s where q: "q = (p, s)" by (cases q)
  from assms Some q show ?thesis by (auto elim: zset_find_row simp: ZSet_Score_def)
qed

text \<open>The queries by score read the multimap, whose rows are those of the list.\<close>

lemma ZSet_rank_filter:
  "ZSet_inv z \<Longrightarrow>
    mset (map (\<lambda>(s, m). (m, s)) (filter (\<lambda>(s, m). P s m) (rank_map z))) =
    mset (filter (\<lambda>(m, s). P s m) (zset_abs z))"
  by (simp add: ZSet_inv_def zset_abs_def filter_mset_image_mset image_mset.compositionality
      comp_def case_prod_beta')

lemma ZSet_Count_abs:
  assumes "ZSet_inv z"
  shows "ZSet_Count lo hi z =
    length (filter (\<lambda>(m, s). sint lo \<le> sint s \<and> sint s \<le> sint hi) (zset_abs z))"
proof (cases "sint lo \<le> sint hi")
  case True
  have "mm_sorted (rank_map z)" using assms by (simp add: ZSet_inv_def)
  with True show ?thesis
    using mset_eq_length [OF ZSet_rank_filter [OF assms, of "\<lambda>s m. sint lo \<le> sint s \<and> sint s \<le> sint hi"]]
    by (simp add: ZSet_Count_def it_distance_range mm_range)
next
  case False
  then have "filter (\<lambda>(m, s). sint lo \<le> sint s \<and> sint s \<le> sint hi) (zset_abs z) = []"
    by (auto simp: filter_empty_conv)
  with False show ?thesis by (simp only: ZSet_Count_def) simp
qed

lemma ZSet_RangeByScore_abs:
  assumes "ZSet_inv z"
  shows "mset (ZSet_RangeByScore lo hi z) =
      mset (filter (\<lambda>(m, s). sint lo \<le> sint s \<and> sint s \<le> sint hi) (zset_abs z))"
    and "sorted (map (sint \<circ> snd) (ZSet_RangeByScore lo hi z))"
proof -
  have mm: "mm_sorted (rank_map z)" using assms by (simp add: ZSet_inv_def)
  have R: "ZSet_RangeByScore lo hi z = (if sint lo \<le> sint hi then
      map (\<lambda>(s, m). (m, s)) (filter (\<lambda>(s, m). sint lo \<le> sint s \<and> sint s \<le> sint hi) (rank_map z)) else [])"
    using mm by (simp add: ZSet_RangeByScore_def mm_range)
  show "mset (ZSet_RangeByScore lo hi z) =
      mset (filter (\<lambda>(m, s). sint lo \<le> sint s \<and> sint s \<le> sint hi) (zset_abs z))"
  proof (cases "sint lo \<le> sint hi")
    case True
    then show ?thesis using ZSet_rank_filter [OF assms] by (simp only: R if_True)
  next
    case False
    then have "filter (\<lambda>(m, s). sint lo \<le> sint s \<and> sint s \<le> sint hi) (zset_abs z) = []"
      by (auto simp: filter_empty_conv)
    with False show ?thesis by (simp only: R if_False)
  qed
  show "sorted (map (sint \<circ> snd) (ZSet_RangeByScore lo hi z))"
    using mm by (simp add: R mm_sorted_def sorted_filter comp_def case_prod_beta')
qed

lemma ZSet_LexCount_abs:
  assumes "ZSet_inv z"
  shows "ZSet_LexCount lo hi z =
    length (filter (\<lambda>(m, s). str_data lo \<le> str_data m \<and> str_data m \<le> str_data hi) (zset_abs z))"
    (is "_ = length (filter ?P _)")
proof (cases "str_data lo \<le> str_data hi")
  case True
  have sorted: "om_sorted (member_map z)" using assms by (simp add: ZSet_inv_def)
  let ?Q = "\<lambda>(k, v :: nat). str_data lo \<le> str_data k \<and> str_data k \<le> str_data hi"
  have "mset (filter ?Q (member_map z)) =
      mset (map (\<lambda>(i, m, s). (m, i)) (filter (\<lambda>(i, m, s). ?P (m, s)) (sequence_list z)))"
    using assms by (simp add: ZSet_inv_def filter_mset_image_mset comp_def case_prod_beta')
  from mset_eq_length [OF this] have "length (filter ?Q (member_map z)) = length (filter (\<lambda>(i, m, s). ?P (m, s)) (sequence_list z))"
    by (simp only: length_map)
  also have "\<dots> = length (filter ?P (zset_abs z))"
    by (simp add: zset_abs_def filter_map comp_def case_prod_beta')
  finally show ?thesis
    using True sorted
    by (simp add: ZSet_LexCount_def it_distance_range om_range Str_greater_def Str_le_def)
next
  case False
  then have "filter ?P (zset_abs z) = []" by (auto simp: filter_empty_conv)
  with False show ?thesis by (simp add: ZSet_LexCount_def Str_greater_def Str_le_def)
qed

lemma mm_find_present:
  assumes "mm_sorted m" and "(s, v) \<in> set m"
  shows "mm_find s m = mm_lower_bound s m"
proof (cases "mm_lower_bound s m")
  case Nil
  then show ?thesis by (simp add: mm_find_def)
next
  case (Cons e it)
  obtain s' v' where e: "e = (s', v')" by (cases e)
  have rows: "e # it = filter (\<lambda>x. \<not> (case x of (s', v') \<Rightarrow> sint s' < sint s)) m"
    using Cons assms(1) by (simp add: mm_lower_bound_def dropWhile_cut_sorted mm_cut_sorted)
  then have "(s, v) \<in> set (e # it)" "e \<in> set (filter (\<lambda>x. \<not> (case x of (s', v') \<Rightarrow> sint s' < sint s)) m)"
    using assms(2) by (simp, metis list.set_intros(1))
  moreover have "mm_sorted (e # it)"
    using assms(1) unfolding rows by (simp add: mm_sorted_def sorted_filter)
  ultimately have "sint s' = sint s"
    by (auto simp: e mm_sorted_def)
  then have "s' = s" by (rule signed_word_eqI)
  then show ?thesis by (simp add: mm_find_def Cons e)
qed

text \<open>The rank of a member is the number of members with a smaller score.\<close>

lemma ZSet_Rank_abs:
  assumes "ZSet_inv z"
  shows "ZSet_Rank m z =
    Inr (case zset_find m (zset_abs z) of
           None \<Rightarrow> []
         | Some (p, s) \<Rightarrow> nat_to_string (length (filter (\<lambda>(p', s'). sint s' < sint s) (zset_abs z))))"
proof (cases "zset_find m (zset_abs z)")
  case None
  then show ?thesis using zset_find_absent [OF assms, of m] by (simp add: ZSet_Rank_def)
next
  case (Some q)
  obtain p s where q: "q = (p, s)" by (cases q)
  obtain nid where row: "(nid, p, s) \<in> set (sequence_list z)"
      "om_find m (member_map z) = Some nid" "node_score nid (sequence_list z) = Inr s"
    using zset_find_row [OF assms] Some q by blast
  let ?P = "\<lambda>(s', v'). sint s' < sint s"
  have mm: "mm_sorted (rank_map z)" using assms by (simp add: ZSet_inv_def)
  have "(s, p) \<in> set (rank_map z)" using row(1) assms by (force simp: ZSet_inv_rank_set)
  with mm have "mm_find s (rank_map z) = dropWhile ?P (rank_map z)"
    by (simp add: mm_find_present mm_lower_bound_def)
  moreover have "length (rank_map z) =
      length (takeWhile ?P (rank_map z)) + length (dropWhile ?P (rank_map z))"
    by (metis length_append takeWhile_dropWhile_id)
  ultimately have "it_distance (rank_map z) (mm_find s (rank_map z)) = length (filter ?P (rank_map z))"
    using mm by (simp add: it_distance_def takeWhile_cut_sorted mm_cut_sorted)
  also have "\<dots> = length (filter (\<lambda>(p', s'). sint s' < sint s) (zset_abs z))"
    using mset_eq_length [OF ZSet_rank_filter [OF assms, of "\<lambda>s' p'. sint s' < sint s"]] by simp
  finally show ?thesis by (simp add: ZSet_Rank_def Some q row)
qed

lemma lex_rows_eq:
  assumes "distinct (map fst ns)" and "\<And>m nid. (m, nid) \<in> set r \<Longrightarrow> \<exists>s. (nid, m, s) \<in> set ns"
  shows "\<exists>rows. lex_rows ns r = Inr rows \<and> map fst rows = map fst r \<and> set rows \<subseteq> snd ` set ns"
  using assms(2)
proof (induction r)
  case (Cons e r)
  obtain m nid where e: "e = (m, nid)" by (cases e)
  with Cons.prems obtain s where s: "(nid, m, s) \<in> set ns" by force
  from Cons obtain rows where rows:
      "lex_rows ns r = Inr rows" "map fst rows = map fst r" "set rows \<subseteq> snd ` set ns"
    by (meson list.set_intros(2))
  have "(m, s) \<in> snd ` set ns" using s by force
  with rows node_score_eq [OF assms(1) s] show ?case by (simp add: e)
qed simp

text \<open>The members between two bounds, each once, in the order of their names.\<close>

lemma ZSet_RangeByLex_abs:
  assumes "ZSet_inv z"
  shows "\<exists>rows. ZSet_RangeByLex lo hi z = Inr rows \<and>
    sorted_wrt (<) (map (str_data \<circ> fst) rows) \<and>
    set rows = {(m, s) \<in> set (zset_abs z). str_data lo \<le> str_data m \<and> str_data m \<le> str_data hi}"
proof (cases "Str_le lo hi")
  case True
  have om: "om_sorted (member_map z)" and ids: "distinct (map fst (sequence_list z))"
    using assms by (simp_all add: ZSet_inv_def)
  let ?r = "filter (\<lambda>(k, v). str_data lo \<le> str_data k \<and> str_data k \<le> str_data hi) (member_map z)"
  have R: "ZSet_RangeByLex lo hi z = lex_rows (sequence_list z) ?r"
    using True om by (simp add: ZSet_RangeByLex_def Str_greater_def om_range)
  have "\<exists>s. (nid, m, s) \<in> set (sequence_list z)" if "(m, nid) \<in> set ?r" for m nid
    using that by (auto simp: ZSet_inv_member_set [OF assms])
  from lex_rows_eq [OF ids this] obtain rows where rows: "lex_rows (sequence_list z) ?r = Inr rows"
      "map fst rows = map fst ?r" "set rows \<subseteq> snd ` set (sequence_list z)"
    by blast
  have keys: "fst ` set rows = fst ` set ?r" by (metis list.set_map rows(2))
  have "sorted_wrt (<) (map (str_data \<circ> fst) ?r)"
    using om unfolding om_sorted_def sorted_wrt_map by (rule sorted_wrt_filter)
  then have "sorted_wrt (<) (map (str_data \<circ> fst) rows)"
    by (metis map_map rows(2))
  moreover have "(m, s) \<in> set rows \<longleftrightarrow> (m, s) \<in> set (zset_abs z) \<and> m \<in> fst ` set ?r" for m s
  proof
    assume row: "(m, s) \<in> set rows"
    have "m \<in> fst ` set ?r" unfolding keys [symmetric] using row by (rule image_eqI [rotated]) simp
    moreover have "(m, s) \<in> set (zset_abs z)"
      unfolding zset_abs_def set_map using rows(3) row by (rule subsetD)
    ultimately show "(m, s) \<in> set (zset_abs z) \<and> m \<in> fst ` set ?r" by simp
  next
    assume m: "(m, s) \<in> set (zset_abs z) \<and> m \<in> fst ` set ?r"
    then have "m \<in> fst ` set rows" unfolding keys by (rule conjunct2)
    then obtain s' where s': "(m, s') \<in> set rows" by (auto simp only: image_iff prod.collapse fst_conv)
    then have "(m, s') \<in> set (zset_abs z)" 
      unfolding zset_abs_def set_map using rows(3) by (rule subsetD [rotated])
    with m zset_wf_abs [OF assms] have "s' = s"
      using distinct_map_eq [of "str_data \<circ> fst" "zset_abs z" "(m, s')" "(m, s)"]
      by (simp add: zset_wf_def)
    with s' show "(m, s) \<in> set rows" by simp
  qed
  moreover have "m \<in> fst ` set ?r \<longleftrightarrow> str_data lo \<le> str_data m \<and> str_data m \<le> str_data hi"
    if "(m, s) \<in> set (zset_abs z)" for m s
    using that by (force simp: ZSet_inv_member_set [OF assms] zset_abs_def)
  ultimately show ?thesis using R rows(1) by (auto simp: set_eq_iff)
next
  case False
  then have "{(m, s) \<in> set (zset_abs z). str_data lo \<le> str_data m \<and> str_data m \<le> str_data hi} = {}"
    by (auto simp: Str_le_def)
  with False show ?thesis by (simp add: ZSet_RangeByLex_def Str_greater_def)
qed

lemma ZSet_Range_abs:
  assumes "zset_abs z \<noteq> []" and "length (zset_abs z) < 2 ^ 31"
    and "sint b \<noteq> INT_MIN" and "sint e \<noteq> INT_MIN"
  shows "ZSet_Range b e z =
    (let nb = list_position (length (zset_abs z)) b; ne = list_position (length (zset_abs z)) e in
     if ne \<le> nb then Inr []
     else if ne < length (zset_abs z) then Inr (take (Suc ne - nb) (drop nb (zset_abs z)))
     else Inl Undefined)"
proof -
  have len: "length (zset_abs z) = length (sequence_list z)" by (simp add: zset_abs_def)
  have ne: "sequence_list z \<noteq> []" using assms(1) by (simp add: zset_abs_def)
  then have "0 < length (sequence_list z)" by simp
  note pos = legalRange_eq [OF this _ assms(3), folded list_position_def]
    legalRange_eq [OF this _ assms(4), folded list_position_def]
  have rows: "map (\<lambda>(i, m, s). (m, s)) (take k (drop j (sequence_list z))) =
      take k (drop j (zset_abs z))" for j k
    by (simp add: zset_abs_def take_map drop_map case_prod_beta')
  show ?thesis
    using assms(2) ne unfolding ZSet_Range_def Let_def rows by (simp add: pos len Suc_le_eq)
qed

section \<open>Copies and the round trip\<close>

lemma zset_abs_fold_Add:
  assumes "ZSet_inv z"
    and "distinct (map (str_data \<circ> fst) (zset_abs z @ map snd rows))"
  shows "zset_abs (fold (\<lambda>(i, m, s) z. snd (ZSet_Add s m z)) rows z) = zset_abs z @ map snd rows"
  using assms
proof (induction rows arbitrary: z)
  case (Cons row rows)
  obtain i m s where row: "row = (i, m, s)" by (cases row)
  have "zset_find m (zset_abs z) = None"
    using Cons.prems(2) by (auto simp: row zset_find_None_iff)
  then have abs: "zset_abs (snd (ZSet_Add s m z)) = zset_abs z @ [(m, s)]"
    by (simp add: ZSet_Add_abs [OF Cons.prems(1)])
  then have "distinct (map (str_data \<circ> fst) (zset_abs (snd (ZSet_Add s m z)) @ map snd rows))"
    using Cons.prems(2) by (simp add: row comp_def)
  from Cons.IH [OF ZSet_inv_Add [OF Cons.prems(1)] this] show ?case
    by (simp add: row abs)
qed simp

lemma ZSet_copy_abs: "ZSet_inv z \<Longrightarrow> zset_abs (ZSet_copy z) = zset_abs z"
  using zset_abs_fold_Add [OF ZSet_inv_empty, of "sequence_list z"] zset_wf_abs [of z]
  by (simp add: ZSet_copy_def zset_wf_def) (simp add: zset_abs_def)

interpretation zset_row: codec_pair "\<lambda>w :: int32. Inr (BitsToString w)" PeekInt "\<lambda>_. True"
  "Str_EncodeValue cf" "Str_DecodeValue cf" Str_storable for cf ..

text \<open>What is read back is the copy: the same members in the same order.\<close>

lemma ZSet_roundtrip:
  assumes "list_all (Str_storable \<circ> fst) (zset_abs z)"
    and "length (zset_abs z) < 2 ^ 64"
  shows "\<exists>bs. ZSet_EncodeValue cf z = Inr bs \<and>
    (\<forall>rest. ZSet_DecodeValue cf ZSet_empty (bs @ rest) = Inr (ZSet_copy z, rest))"
proof -
  have "ZSet_empty\<lparr>member_map := []\<rparr> = ZSet_empty" by (simp add: ZSet_empty_def)
  then show ?thesis
    using zset_row.pair.seq_roundtrip [of "map (\<lambda>(i, m, s). (s, m)) (sequence_list z)" cf
        "\<lambda>(r, s) acc. snd (ZSet_Add r s acc)"] assms
    by (fastforce simp: ZSet_EncodeValue_def ZSet_DecodeValue_def ZSet_copy_def fold_map comp_def
        zset_abs_def list_all_iff case_prod_beta')
qed

section \<open>Reachable sorted sets\<close>

text \<open>One call of a method on an object.\<close>

inductive ZSet_step :: "ZSet \<Rightarrow> ZSet \<Rightarrow> bool" where
  Add: "ZSet_step z (snd (ZSet_Add s m z))"
| Rem: "ZSet_Rem s m z = Inr (b, z') \<Longrightarrow> ZSet_step z z'"
| IncrBy: "ZSet_IncrBy d m z = Inr (r, z') \<Longrightarrow> ZSet_step z z'"
| DecrBy: "ZSet_DecrBy d m z = Inr (r, z') \<Longrightarrow> ZSet_step z z'"
| Assign: "ZSet_step z (ZSet_assign z lhs)"

inductive_cases ZSet_stepE: "ZSet_step z z'"

inductive ZSet_reachable :: "ZSet \<Rightarrow> bool" where
  Start: "ZSet_reachable ZSet_empty"
| Copy: "ZSet_reachable (ZSet_copy lhs)"
| Step: "ZSet_reachable z \<Longrightarrow> ZSet_step z z' \<Longrightarrow> ZSet_reachable z'"

lemma ZSet_step_inv: "ZSet_step z z' \<Longrightarrow> ZSet_inv z \<Longrightarrow> ZSet_inv z'"
  by (induction rule: ZSet_step.induct)
    (auto simp: ZSet_inv_Add ZSet_inv_assign intro: ZSet_inv_Rem ZSet_inv_IncrBy ZSet_inv_DecrBy)

lemma ZSet_reachable_invariant: "ZSet_reachable z \<Longrightarrow> ZSet_inv z"
  by (induction rule: ZSet_reachable.induct) (auto simp: ZSet_inv_copy ZSet_step_inv)

end
