(* ===== verification/Objects.thy ===== *)
theory Objects
  imports Set_Object Hash_Object ZSet_Object
begin

text \<open>
  The class \<open>Object\<close> of \<open>includes/objects/object.h\<close> and its five subclasses: a stored value is one
  of them, and a virtual call is the case distinction.
\<close>

datatype Object =
    Obj_Str Str
  | Obj_List List_obj
  | Obj_Hash Hash_obj
  | Obj_Set Set_obj
  | Obj_ZSet ZSet

fun Object_GetObjectType :: "Object \<Rightarrow> ObjectType" where
  "Object_GetObjectType (Obj_Str s) = Str_GetObjectType s"
| "Object_GetObjectType (Obj_List l) = List_GetObjectType l"
| "Object_GetObjectType (Obj_Hash h) = Hash_GetObjectType h"
| "Object_GetObjectType (Obj_Set s) = Set_GetObjectType s"
| "Object_GetObjectType (Obj_ZSet z) = ZSet_GetObjectType z"

fun Object_EncodeValue :: "env \<Rightarrow> Object \<Rightarrow> string result" where
  "Object_EncodeValue cf (Obj_Str s) = Str_EncodeValue cf s"
| "Object_EncodeValue cf (Obj_List l) = List_EncodeValue cf l"
| "Object_EncodeValue cf (Obj_Hash h) = Hash_EncodeValue cf h"
| "Object_EncodeValue cf (Obj_Set s) = Set_EncodeValue cf s"
| "Object_EncodeValue cf (Obj_ZSet z) = ZSet_EncodeValue cf z"

fun Object_Fork :: "string \<Rightarrow> Object \<Rightarrow> string" where
  "Object_Fork key (Obj_Str s) = Str_Fork key s"
| "Object_Fork key (Obj_List l) = List_Fork key l"
| "Object_Fork key (Obj_Hash h) = Hash_Fork key h"
| "Object_Fork key (Obj_Set s) = Set_Fork key s"
| "Object_Fork key (Obj_ZSet z) = ZSet_Fork key z"

definition decode_as :: "('a \<Rightarrow> Object) \<Rightarrow> 'a decoder \<Rightarrow> Object decoder" where
  "decode_as mk dec source = rbind (dec source) (\<lambda>(x, source'). Inr (mk x, source'))"

text \<open>The \<open>switch\<close> of \<open>KeyValue::Decode\<close>: a fresh object of the tagged class reads its value.\<close>

fun Object_DecodeValue :: "env \<Rightarrow> ObjectType \<Rightarrow> Object decoder" where
  "Object_DecodeValue cf ObjectType_STR source = decode_as Obj_Str (Str_DecodeValue cf) source"
| "Object_DecodeValue cf ObjectType_LIST source = decode_as Obj_List (List_DecodeValue cf []) source"
| "Object_DecodeValue cf ObjectType_HASH source = decode_as Obj_Hash (Hash_DecodeValue cf []) source"
| "Object_DecodeValue cf ObjectType_SET source = decode_as Obj_Set (Set_DecodeValue cf []) source"
| "Object_DecodeValue cf ObjectType_ZSET source = decode_as Obj_ZSet (ZSet_DecodeValue cf ZSet_empty) source"
| "Object_DecodeValue cf _ source = Inl Assertion"

section \<open>Well-formed and storable objects\<close>

fun Object_wf :: "Object \<Rightarrow> bool" where
  "Object_wf (Obj_Str s) = Str_wf s"
| "Object_wf (Obj_List l) = True"
| "Object_wf (Obj_Hash h) = um_wf h"
| "Object_wf (Obj_Set s) = us_wf s"
| "Object_wf (Obj_ZSet z) = ZSet_inv z"

fun Object_storable :: "Object \<Rightarrow> bool" where
  "Object_storable (Obj_Str s) = Str_storable s"
| "Object_storable (Obj_List l) = (list_all Str_storable l \<and> length l < 2 ^ 64)"
| "Object_storable (Obj_Hash h) =
     (list_all (\<lambda>(k, v). Str_storable k \<and> Str_storable v) h \<and> length h < 2 ^ 64)"
| "Object_storable (Obj_Set s) = (list_all Str_storable s \<and> length s < 2 ^ 64)"
| "Object_storable (Obj_ZSet z) =
     (list_all (Str_storable \<circ> fst) (zset_abs z) \<and> length (zset_abs z) < 2 ^ 64)"

text \<open>The object that reading the dump of an object builds.\<close>

fun Object_reload :: "Object \<Rightarrow> Object" where
  "Object_reload (Obj_Str s) = Obj_Str s"
| "Object_reload (Obj_List l) = Obj_List l"
| "Object_reload (Obj_Hash h) = Obj_Hash (fold (\<lambda>(k, v). um_insert k v) h [])"
| "Object_reload (Obj_Set s) = Obj_Set (fold us_insert s [])"
| "Object_reload (Obj_ZSet z) = Obj_ZSet (ZSet_copy z)"

text \<open>The same object up to the order in which an unordered container is visited.\<close>

fun Object_equiv :: "Object \<Rightarrow> Object \<Rightarrow> bool" where
  "Object_equiv (Obj_Str s) (Obj_Str s') = (s = s')"
| "Object_equiv (Obj_List l) (Obj_List l') = (l = l')"
| "Object_equiv (Obj_Hash h) (Obj_Hash h') = (mset h = mset h')"
| "Object_equiv (Obj_Set s) (Obj_Set s') = (mset s = mset s')"
| "Object_equiv (Obj_ZSet z) (Obj_ZSet z') = (zset_abs z = zset_abs z')"
| "Object_equiv _ _ = False"

lemma Object_reload_equiv: "Object_wf ob \<Longrightarrow> Object_equiv ob (Object_reload ob)"
proof (cases ob)
  case (Obj_Hash h)
  assume "Object_wf ob"
  with Obj_Hash um.fold_insert_entries [of h "[]"] show ?thesis by (simp add: um_wf_def)
next
  case (Obj_Set s)
  assume "Object_wf ob"
  with Obj_Set us.fold_insert_elems [of s "[]"] show ?thesis by (simp add: us_wf_def)
qed (simp_all add: ZSet_copy_abs)

lemma um_wf_fold_insert: "um_wf m \<Longrightarrow> um_wf (fold (\<lambda>(k, v). um_insert k v) xs m)"
  by (induction xs arbitrary: m) (auto simp: um.wf_insert)

lemma us_wf_fold_insert: "us_wf s \<Longrightarrow> us_wf (fold us_insert xs s)"
  by (induction xs arbitrary: s) (auto simp: us.wf_insert)

lemma Object_reload_wf: "Object_wf ob \<Longrightarrow> Object_wf (Object_reload ob)"
  by (cases ob) (simp_all add: um_wf_fold_insert us_wf_fold_insert ZSet_inv_copy)

lemma Object_reload_type [simp]: "Object_GetObjectType (Object_reload ob) = Object_GetObjectType ob"
  by (cases ob) (simp_all add: Hash_GetObjectType_def Set_GetObjectType_def ZSet_GetObjectType_def)

section \<open>Round trip\<close>

lemma decode_as_roundtrip:
  "(\<And>rest. dec (bs @ rest) = Inr (x, rest)) \<Longrightarrow> decode_as mk dec (bs @ rest) = Inr (mk x, rest)"
  by (simp add: decode_as_def)

lemma Object_roundtrip:
  assumes "Object_storable ob"
  shows "\<exists>bs. Object_EncodeValue cf ob = Inr bs \<and>
    (\<forall>rest. Object_DecodeValue cf (Object_GetObjectType ob) (bs @ rest) = Inr (Object_reload ob, rest))"
proof (cases ob)
  case (Obj_Str s)
  with assms Str_roundtrip [of s cf] show ?thesis
    by (auto simp: Str_GetObjectType_def decode_as_roundtrip)
next
  case (Obj_List l)
  with assms List_roundtrip [of l cf] show ?thesis
    by (auto simp: List_GetObjectType_def decode_as_roundtrip)
next
  case (Obj_Hash h)
  with assms hash_entry.pair.seq_roundtrip [of h cf "\<lambda>(k, v). um_insert k v"] show ?thesis
    by (fastforce simp: Hash_GetObjectType_def decode_as_def Hash_EncodeValue_def Hash_DecodeValue_def
        list_all_iff)
next
  case (Obj_Set s)
  with assms str_codec.seq_roundtrip [of s cf us_insert] show ?thesis
    by (fastforce simp: Set_GetObjectType_def decode_as_def Set_EncodeValue_def Set_DecodeValue_def
        list_all_iff)
next
  case (Obj_ZSet z)
  with assms ZSet_roundtrip [of z cf] show ?thesis
    by (auto simp: ZSet_GetObjectType_def decode_as_roundtrip)
qed

text \<open>Only the five tags occur.\<close>

lemma Object_GetObjectType_cases:
  "Object_GetObjectType ob \<in>
     {ObjectType_STR, ObjectType_LIST, ObjectType_HASH, ObjectType_SET, ObjectType_ZSET}"
  by (cases ob) (simp_all add: Str_GetObjectType_def List_GetObjectType_def Hash_GetObjectType_def
      Set_GetObjectType_def ZSet_GetObjectType_def)

end
