(* ===== verification/Json.thy ===== *)
theory Json
  imports Util
begin

text \<open>
  The JSON library \<open>src/third/json11\<close> as far as the server uses it: the values, \<open>Json::dump\<close> and
  \<open>Json::parse\<close> with the default strategy (no comments).  Requests and answers are JSON arrays of
  strings.

  A position \<open>i\<close> of the parser is the part of the input from there on; \<open>str[i]\<close> at the end of the
  input is the terminating NUL.  A parse that has \<open>failed\<close> is \<open>None\<close>; the texts of the error
  messages, which the server discards, are not modelled.  A floating point number is named by the
  text it was read from: printing it is the parameter \<open>fmt\<close>, the \<open>%.17g\<close> of the C library applied
  to the value of that text.
\<close>

section \<open>Values\<close>

datatype Json =
    JNull
  | JBool bool
  | JInt int32
  | JDouble string
  | JString string
  | JArray "Json list"
  | JObject "(string \<times> Json) list"

type_synonym json_array = "Json list"

fun string_value :: "Json \<Rightarrow> string" where
  "string_value (JString s) = s"
| "string_value _ = []"

fun array_items :: "Json \<Rightarrow> json_array" where
  "array_items (JArray vs) = vs"
| "array_items _ = []"

section \<open>Serialization\<close>

definition hex_digit :: "nat \<Rightarrow> char" where
  "hex_digit n = (if n < 10 then char_of (48 + n) else char_of (87 + n))"

text \<open>\<open>"\u%04x"\<close> of a byte below 0x20.\<close>

definition dump_control :: "char \<Rightarrow> string" where
  "dump_control c = CHR 0x5C # ''u00'' @ [hex_digit (of_char c div 16), hex_digit (of_char c mod 16)]"

text \<open>The body of the loop for one byte that is not the start of U+2028 or U+2029.\<close>

definition dump_char :: "char \<Rightarrow> string" where
  "dump_char c =
     (if c = CHR 0x5C then [CHR 0x5C, CHR 0x5C]
      else if c = CHR 0x22 then [CHR 0x5C, CHR 0x22]
      else if c = CHR 0x08 then [CHR 0x5C, CHR ''b'']
      else if c = CHR 0x0C then [CHR 0x5C, CHR ''f'']
      else if c = CHR 0x0A then [CHR 0x5C, CHR ''n'']
      else if c = CHR 0x0D then [CHR 0x5C, CHR ''r'']
      else if c = CHR 0x09 then [CHR 0x5C, CHR ''t'']
      else if of_char c \<le> (31 :: nat) then dump_control c
      else [c])"

fun dump_chars :: "string \<Rightarrow> string" where
  "dump_chars [] = []"
| "dump_chars (c # s) =
     (if c = CHR 0xE2 \<and> take 2 s = [CHR 0x80, CHR 0xA8]
      then CHR 0x5C # ''u2028'' @ dump_chars (drop 2 s)
      else if c = CHR 0xE2 \<and> take 2 s = [CHR 0x80, CHR 0xA9]
      then CHR 0x5C # ''u2029'' @ dump_chars (drop 2 s)
      else dump_char c @ dump_chars s)"

definition dump_string :: "string \<Rightarrow> string" where
  "dump_string s = CHR 0x22 # dump_chars s @ [CHR 0x22]"

text \<open>The separator in front of every element but the first.\<close>

fun separated :: "string list \<Rightarrow> string" where
  "separated [] = []"
| "separated [x] = x"
| "separated (x # y # xs) = x @ '', '' @ separated (y # xs)"

fun dump :: "(string \<Rightarrow> string) \<Rightarrow> Json \<Rightarrow> string" where
  "dump fmt JNull = ''null''"
| "dump fmt (JBool b) = (if b then ''true'' else ''false'')"
| "dump fmt (JInt n) = to_string n"
| "dump fmt (JDouble t) = fmt t"
| "dump fmt (JString s) = dump_string s"
| "dump fmt (JArray vs) = ''['' @ separated (map (dump fmt) vs) @ '']''"
| "dump fmt (JObject kvs) =
     ''{'' @ separated (map (\<lambda>(k, v). dump_string k @ '': '' @ dump fmt v) kvs) @ ''}''"

section \<open>Parsing\<close>

definition is_whitespace :: "char \<Rightarrow> bool" where
  "is_whitespace c \<longleftrightarrow> c = CHR '' '' \<or> c = CHR 0x0D \<or> c = CHR 0x0A \<or> c = CHR 0x09"

definition consume_garbage :: "string \<Rightarrow> string" where
  "consume_garbage s = dropWhile is_whitespace s"

definition get_next_token :: "string \<Rightarrow> (char \<times> string) option" where
  "get_next_token s = (case consume_garbage s of [] \<Rightarrow> None | c # s' \<Rightarrow> Some (c, s'))"

text \<open>\<open>str[i]\<close>\<close>

definition cur :: "string \<Rightarrow> char" where
  "cur s = (case s of [] \<Rightarrow> CHR 0x00 | c # _ \<Rightarrow> c)"

definition in_range :: "int \<Rightarrow> int \<Rightarrow> int \<Rightarrow> bool" where
  "in_range x lower upper \<longleftrightarrow> x \<ge> lower \<and> x \<le> upper"

definition byte :: "int \<Rightarrow> char" where
  "byte n = char_of (nat (n mod 256))"

definition encode_utf8 :: "int \<Rightarrow> string" where
  "encode_utf8 pt =
     (if pt < 0 then []
      else if pt < 0x80 then [byte pt]
      else if pt < 0x800 then [byte (pt div 64 + 0xC0), byte (pt mod 64 + 0x80)]
      else if pt < 0x10000 then
        [byte (pt div 4096 + 0xE0), byte (pt div 64 mod 64 + 0x80), byte (pt mod 64 + 0x80)]
      else
        [byte (pt div 262144 + 0xF0), byte (pt div 4096 mod 64 + 0x80),
         byte (pt div 64 mod 64 + 0x80), byte (pt mod 64 + 0x80)])"

definition hex_val :: "char \<Rightarrow> int option" where
  "hex_val c =
     (let n = int (of_char c :: nat) in
      if in_range n 97 102 then Some (n - 87)
      else if in_range n 65 70 then Some (n - 55)
      else if in_range n 48 57 then Some (n - 48)
      else None)"

text \<open>The four digits of a \<open>\u\<close> escape and \<open>strtol\<close> of them.\<close>

fun parse_hex4 :: "string \<Rightarrow> (int \<times> string) option" where
  "parse_hex4 (a # b # c # d # s) =
     (case (hex_val a, hex_val b, hex_val c, hex_val d) of
        (Some w, Some x, Some y, Some z) \<Rightarrow> Some (((w * 16 + x) * 16 + y) * 16 + z, s)
      | _ \<Rightarrow> None)"
| "parse_hex4 _ = None"

definition unescape :: "char \<Rightarrow> char option" where
  "unescape c =
     (if c = CHR ''b'' then Some (CHR 0x08)
      else if c = CHR ''f'' then Some (CHR 0x0C)
      else if c = CHR ''n'' then Some (CHR 0x0A)
      else if c = CHR ''r'' then Some (CHR 0x0D)
      else if c = CHR ''t'' then Some (CHR 0x09)
      else if c = CHR 0x22 \<or> c = CHR 0x5C \<or> c = CHR ''/'' then Some c
      else None)"

text \<open>What reading the escaped code point \<open>cp\<close> after \<open>last\<close> adds to the output, and the new \<open>last\<close>.\<close>

definition join_escape :: "int \<Rightarrow> int \<Rightarrow> string \<times> int" where
  "join_escape lst cp =
     (if in_range lst 0xD800 0xDBFF \<and> in_range cp 0xDC00 0xDFFF
      then (encode_utf8 ((lst - 0xD800) * 1024 + (cp - 0xDC00) + 0x10000), -1)
      else (encode_utf8 lst, cp))"

lemma parse_hex4_length: "parse_hex4 s = Some (cp, s') \<Longrightarrow> length s' < length s"
  by (induction s rule: parse_hex4.induct) (auto split: option.splits prod.splits)

text \<open>
  \<open>parse_string()\<close>: \<open>out\<close> is what has been read so far and \<open>lst\<close> is \<open>last_escaped_codepoint\<close>.
  A \<open>char\<close> is signed, so only the bytes below 0x20 are in the range of the unescaped ones.
\<close>

function parse_string :: "string \<Rightarrow> int \<Rightarrow> string \<Rightarrow> (string \<times> string) option" where
  "parse_string out lst [] = None"
| "parse_string out lst (c # s) =
     (if c = CHR 0x22 then Some (out @ encode_utf8 lst, s)
      else if of_char c \<le> (31 :: nat) then None
      else if c \<noteq> CHR 0x5C then parse_string (out @ encode_utf8 lst @ [c]) (-1) s
      else
        (case s of
           [] \<Rightarrow> None
         | e # s' \<Rightarrow>
             if e = CHR ''u'' then
               (case parse_hex4 s' of
                  None \<Rightarrow> None
                | Some (cp, s'') \<Rightarrow>
                    parse_string (out @ fst (join_escape lst cp)) (snd (join_escape lst cp)) s'')
             else
               (case unescape e of
                  None \<Rightarrow> None
                | Some d \<Rightarrow> parse_string (out @ encode_utf8 lst @ [d]) (-1) s')))"
  by pat_completeness auto
termination
  by (relation "measure (\<lambda>(out, lst, s). length s)") (auto dest: parse_hex4_length)


section \<open>A dumped string is read back\<close>

lemma hex_val_hex_digit: "k < 16 \<Longrightarrow> hex_val (hex_digit k) = Some (int k)"
  by (auto simp: hex_val_def hex_digit_def in_range_def Let_def)

lemma byte_of_char [simp]: "byte (int (of_char c)) = c"
  using nat_of_char_less_256 [of c] by (simp add: byte_def nat_mod_distrib)

lemma encode_utf8_ascii: "of_char c < (128 :: nat) \<Longrightarrow> encode_utf8 (int (of_char c)) = [c]"
  by (simp add: encode_utf8_def)

lemma parse_hex4_control:
  assumes "of_char c \<le> (31 :: nat)"
  shows "parse_hex4 (''00'' @ [hex_digit (of_char c div 16), hex_digit (of_char c mod 16)] @ s) =
    Some (int (of_char c), s)"
proof -
  have "hex_val (CHR ''0'') = Some 0" by (simp add: hex_val_def in_range_def)
  moreover have "int (of_char c div 16) * 16 + int (of_char c mod 16) = int (of_char c :: nat)"
    by (metis div_mult_mod_eq of_nat_add of_nat_mult of_nat_numeral)
  ultimately show ?thesis using assms by (simp add: hex_val_hex_digit)
qed

text \<open>Reading what was written for one byte, with an escape pending or not.\<close>

lemma parse_dump_char:
  "\<exists>out' lst'. (\<forall>rest. parse_string out lst (dump_char c @ rest) = parse_string out' lst' rest) \<and>
     out' @ encode_utf8 lst' = out @ encode_utf8 lst @ [c]"
proof -
  have none: "encode_utf8 (-1) = []" by (simp add: encode_utf8_def)
  have quote: "\<exists>e. dump_char c = [CHR 0x5C, e] \<and> unescape e = Some c \<and> e \<noteq> CHR ''u''"
    if "c \<in> {CHR 0x5C, CHR 0x22, CHR 0x08, CHR 0x0C, CHR 0x0A, CHR 0x0D, CHR 0x09}"
    using that by (auto simp: dump_char_def unescape_def)
  consider (quoted) e where "dump_char c = [CHR 0x5C, e]" "unescape e = Some c" "e \<noteq> CHR ''u''"
    | (control) "dump_char c = dump_control c" "of_char c \<le> (31 :: nat)"
    | (plain) "dump_char c = [c]" "\<not> of_char c \<le> (31 :: nat)" "c \<noteq> CHR 0x5C" "c \<noteq> CHR 0x22"
  proof (cases "c \<in> {CHR 0x5C, CHR 0x22, CHR 0x08, CHR 0x0C, CHR 0x0A, CHR 0x0D, CHR 0x09}")
    case True
    then show thesis using quote that(1) by blast
  next
    case False
    then show thesis
      using that(2,3) by (cases "of_char c \<le> (31 :: nat)") (simp_all add: dump_char_def)
  qed
  then show ?thesis
  proof cases
    case quoted
    then show ?thesis
      by (intro exI [of _ "out @ encode_utf8 lst @ [c]"] exI [of _ "-1"]) (simp add: none)
  next
    case control
    have "join_escape lst (int (of_char c)) = (encode_utf8 lst, int (of_char c))"
      using control(2) by (simp add: join_escape_def in_range_def)
    then show ?thesis
      using control parse_hex4_control [OF control(2)]
      by (intro exI [of _ "out @ encode_utf8 lst"] exI [of _ "int (of_char c)"])
        (simp add: dump_control_def encode_utf8_ascii)
  next
    case plain
    then show ?thesis
      by (intro exI [of _ "out @ encode_utf8 lst @ [c]"] exI [of _ "-1"]) (simp add: none)
  qed
qed

lemma parse_dump_separator:
  assumes "cp = 0x2028 \<and> t = ''u2028'' \<or> cp = 0x2029 \<and> t = ''u2029''"
  shows "parse_string out lst (CHR 0x5C # t @ rest) = parse_string (out @ encode_utf8 lst) cp rest"
  using assms by (auto simp: hex_val_def in_range_def join_escape_def)

lemma encode_utf8_separator:
  "encode_utf8 0x2028 = [CHR 0xE2, CHR 0x80, CHR 0xA8]"
  "encode_utf8 0x2029 = [CHR 0xE2, CHR 0x80, CHR 0xA9]"
  by (simp_all add: encode_utf8_def byte_def char_of_def bit_0)

lemma parse_dump_chars:
  "parse_string out lst (dump_chars s @ CHR 0x22 # rest) = Some (out @ encode_utf8 lst @ s, rest)"
proof (induction s arbitrary: out lst rule: dump_chars.induct)
  case (2 c s)
  note IH = 2
  consider (ls) "c = CHR 0xE2" "take 2 s = [CHR 0x80, CHR 0xA8]"
    | (ps) "c = CHR 0xE2" "take 2 s = [CHR 0x80, CHR 0xA9]"
    | (other) "dump_chars (c # s) = dump_char c @ dump_chars s"
      "\<not> (c = CHR 0xE2 \<and> take 2 s = [CHR 0x80, CHR 0xA8])"
      "\<not> (c = CHR 0xE2 \<and> take 2 s = [CHR 0x80, CHR 0xA9])"
    by fastforce
  then show ?case
  proof cases
    case ls
    then have "s = [CHR 0x80, CHR 0xA8] @ drop 2 s" by (metis append_take_drop_id)
    then show ?thesis
      using IH(1) [where out = "out @ encode_utf8 lst" and lst = "0x2028"] ls
        parse_dump_separator [of "0x2028" "''u2028''" out lst "dump_chars (drop 2 s) @ CHR 0x22 # rest"]
      by (simp add: encode_utf8_separator)
  next
    case ps
    then have "s = [CHR 0x80, CHR 0xA9] @ drop 2 s" by (metis append_take_drop_id)
    then show ?thesis
      using IH(2) [where out = "out @ encode_utf8 lst" and lst = "0x2029"] ps
        parse_dump_separator [of "0x2029" "''u2029''" out lst "dump_chars (drop 2 s) @ CHR 0x22 # rest"]
      by (simp add: encode_utf8_separator)
  next
    case other
    obtain out' lst' where step:
        "\<And>rest. parse_string out lst (dump_char c @ rest) = parse_string out' lst' rest"
        "out' @ encode_utf8 lst' = out @ encode_utf8 lst @ [c]"
      using parse_dump_char [of out lst c] by blast
    have "parse_string out lst (dump_chars (c # s) @ CHR 0x22 # rest) =
        parse_string out' lst' (dump_chars s @ CHR 0x22 # rest)"
      using other(1) step(1) by simp
    also have "\<dots> = Some (out' @ encode_utf8 lst' @ s, rest)" using IH(3) other(2,3) by blast
    finally show ?thesis using step(2) by (simp flip: append_assoc)
  qed
qed simp

lemma parse_dump_string:
  "parse_string [] (-1) (dump_chars s @ CHR 0x22 # rest) = Some (s, rest)"
  by (simp add: parse_dump_chars encode_utf8_def)

section \<open>Numbers, literals and nested values\<close>

text \<open>The integer part: a single zero or digits that start with another one.\<close>

definition parse_int_part :: "string \<Rightarrow> (string \<times> string) option" where
  "parse_int_part s =
     (if cur s = CHR ''0'' then (if is_digit (cur (tl s)) then None else Some (''0'', tl s))
      else if is_digit (cur s) then Some (takeWhile is_digit s, dropWhile is_digit s)
      else None)"

definition parse_fraction :: "string \<Rightarrow> (string \<times> string) option" where
  "parse_fraction s =
     (if cur s \<noteq> CHR ''.'' then Some ([], s)
      else if \<not> is_digit (cur (tl s)) then None
      else Some (CHR ''.'' # takeWhile is_digit (tl s), dropWhile is_digit (tl s)))"

definition parse_exponent :: "string \<Rightarrow> (string \<times> string) option" where
  "parse_exponent s =
     (if cur s \<noteq> CHR ''e'' \<and> cur s \<noteq> CHR ''E'' then Some ([], s)
      else
        (let sign = (if cur (tl s) = CHR ''+'' \<or> cur (tl s) = CHR ''-'' then [cur (tl s)] else []);
             s' = drop (length sign) (tl s)
         in if \<not> is_digit (cur s') then None
            else Some (cur s # sign @ takeWhile is_digit s', dropWhile is_digit s')))"

text \<open>\<open>std::numeric_limits<int>::digits10\<close> is 9: a longer literal is read as a \<open>double\<close>.\<close>

definition parse_number :: "string \<Rightarrow> (Json \<times> string) option" where
  "parse_number s =
     (let neg = (cur s = CHR ''-''); sign = (if neg then ''-'' else []) in
      case parse_int_part (drop (length sign) s) of
        None \<Rightarrow> None
      | Some (ds, s2) \<Rightarrow>
          if cur s2 \<noteq> CHR ''.'' \<and> cur s2 \<noteq> CHR ''e'' \<and> cur s2 \<noteq> CHR ''E'' \<and>
             length sign + length ds \<le> 9
          then Some (JInt (word_of_int (if neg then - int (digits_val ds) else int (digits_val ds))), s2)
          else
            (case parse_fraction s2 of
               None \<Rightarrow> None
             | Some (f, s3) \<Rightarrow>
                 (case parse_exponent s3 of
                    None \<Rightarrow> None
                  | Some (x, s4) \<Rightarrow> Some (JDouble (sign @ ds @ f @ x), s4))))"

definition expect :: "string \<Rightarrow> Json \<Rightarrow> string \<Rightarrow> (Json \<times> string) option" where
  "expect expected res s =
     (if take (length expected) s = expected then Some (res, drop (length expected) s) else None)"

text \<open>\<open>data[key] = v\<close> in a \<open>std::map\<close>.\<close>

fun object_assign :: "string \<Rightarrow> Json \<Rightarrow> (string \<times> Json) list \<Rightarrow> (string \<times> Json) list" where
  "object_assign k v [] = [(k, v)]"
| "object_assign k v ((k', v') # m) =
     (if k < k' then (k, v) # (k', v') # m
      else if k = k' then (k, v) # m
      else (k', v') # object_assign k v m)"

text \<open>\<open>get_next_token(); i--;\<close>\<close>

definition skip_to_token :: "string \<Rightarrow> string option" where
  "skip_to_token s = (case get_next_token s of None \<Rightarrow> None | Some (c, s') \<Rightarrow> Some (c # s'))"

text \<open>
  The loops of \<open>parse_json\<close> over the elements of an array and the members of an object; \<open>p\<close> is
  \<open>parse_json(depth + 1)\<close>.  The recursion is guarded by the progress of the position, which always
  holds (\<open>parse_array_items_eq\<close>, \<open>parse_members_eq\<close> below).
\<close>

function parse_array_items ::
    "(string \<Rightarrow> (Json \<times> string) option) \<Rightarrow> json_array \<Rightarrow> string \<Rightarrow> (Json \<times> string) option" where
  "parse_array_items p data s =
     (case p s of
        None \<Rightarrow> None
      | Some (v, s1) \<Rightarrow>
          (case get_next_token s1 of
             None \<Rightarrow> None
           | Some (c, s2) \<Rightarrow>
               if c = CHR '']'' then Some (JArray (data @ [v]), s2)
               else if c \<noteq> CHR '','' then None
               else
                 (case skip_to_token s2 of
                    None \<Rightarrow> None
                  | Some s3 \<Rightarrow>
                      if length s3 < length s then parse_array_items p (data @ [v]) s3 else None)))"
  by pat_completeness auto
termination
  by (relation "measure (\<lambda>(p, data, s). length s)") auto

function parse_members ::
    "(string \<Rightarrow> (Json \<times> string) option) \<Rightarrow> (string \<times> Json) list \<Rightarrow> char \<Rightarrow> string \<Rightarrow>
       (Json \<times> string) option" where
  "parse_members p data ch s =
     (if ch \<noteq> CHR 0x22 then None
      else
        (case parse_string [] (-1) s of
           None \<Rightarrow> None
         | Some (key, s1) \<Rightarrow>
             (case get_next_token s1 of
                None \<Rightarrow> None
              | Some (c, s2) \<Rightarrow>
                  if c \<noteq> CHR '':'' then None
                  else
                    (case p s2 of
                       None \<Rightarrow> None
                     | Some (v, s3) \<Rightarrow>
                         (case get_next_token s3 of
                            None \<Rightarrow> None
                          | Some (c, s4) \<Rightarrow>
                              if c = CHR ''}'' then Some (JObject (object_assign key v data), s4)
                              else if c \<noteq> CHR '','' then None
                              else
                                (case get_next_token s4 of
                                   None \<Rightarrow> None
                                 | Some (c', s5) \<Rightarrow>
                                     if length s5 < length s
                                     then parse_members p (object_assign key v data) c' s5
                                     else None))))))"
  by pat_completeness auto
termination
  by (relation "measure (\<lambda>(p, data, ch, s). length s)") auto

declare parse_array_items.simps [simp del] parse_members.simps [simp del]

text \<open>
  \<open>parse_json(depth)\<close>; the argument is the number of levels left, \<open>max_depth + 1 - depth\<close>.
\<close>

primrec parse_json :: "nat \<Rightarrow> string \<Rightarrow> (Json \<times> string) option" where
  "parse_json 0 = (\<lambda>s. None)"
| "parse_json (Suc d) = (\<lambda>s.
     case get_next_token s of
       None \<Rightarrow> None
     | Some (ch, s1) \<Rightarrow>
         if ch = CHR ''-'' \<or> is_digit ch then parse_number (ch # s1)
         else if ch = CHR ''t'' then expect ''true'' (JBool True) (ch # s1)
         else if ch = CHR ''f'' then expect ''false'' (JBool False) (ch # s1)
         else if ch = CHR ''n'' then expect ''null'' JNull (ch # s1)
         else if ch = CHR 0x22 then map_option (map_prod JString id) (parse_string [] (-1) s1)
         else if ch = CHR ''{'' then
           (case get_next_token s1 of
              None \<Rightarrow> None
            | Some (c, s2) \<Rightarrow>
                if c = CHR ''}'' then Some (JObject [], s2)
                else parse_members (parse_json d) [] c s2)
         else if ch = CHR ''['' then
           (case get_next_token s1 of
              None \<Rightarrow> None
            | Some (c, s2) \<Rightarrow>
                if c = CHR '']'' then Some (JArray [], s2)
                else parse_array_items (parse_json d) [] (c # s2))
         else None)"

definition max_depth :: nat where
  "max_depth = 200"

text \<open>The value of a failed parse is \<open>Json()\<close>, which is null.\<close>

definition parse :: "string \<Rightarrow> Json" where
  "parse inp =
     (case parse_json (max_depth + 1) inp of
        None \<Rightarrow> JNull
      | Some (result, s) \<Rightarrow> if consume_garbage s = [] then result else JNull)"

section \<open>The parser moves forward\<close>

lemma get_next_token_length: "get_next_token s = Some (c, s') \<Longrightarrow> length s' < length s"
  by (auto simp: get_next_token_def consume_garbage_def split: list.splits)
    (metis Suc_le_lessD length_Cons length_dropWhile_le)

lemma skip_to_token_length: "skip_to_token s = Some s' \<Longrightarrow> length s' \<le> length s"
  by (auto simp: skip_to_token_def Suc_le_eq dest!: get_next_token_length split: option.splits)

lemma parse_string_length: "parse_string out lst s = Some (x, s') \<Longrightarrow> length s' < length s"
  by (induction out lst s rule: parse_string.induct)
    (force dest: parse_hex4_length split: if_splits option.splits list.splits)+

definition forward :: "(string \<Rightarrow> ('a \<times> string) option) \<Rightarrow> bool" where
  "forward p \<longleftrightarrow> (\<forall>s x s'. p s = Some (x, s') \<longrightarrow> length s' \<le> length s)"

lemma forwardD: "forward p \<Longrightarrow> p s = Some (x, s') \<Longrightarrow> length s' \<le> length s"
  by (simp add: forward_def)

lemma parse_array_items_eq:
  assumes "forward p"
  shows "parse_array_items p data s =
     (case p s of
        None \<Rightarrow> None
      | Some (v, s1) \<Rightarrow>
          (case get_next_token s1 of
             None \<Rightarrow> None
           | Some (c, s2) \<Rightarrow>
               if c = CHR '']'' then Some (JArray (data @ [v]), s2)
               else if c \<noteq> CHR '','' then None
               else
                 (case skip_to_token s2 of
                    None \<Rightarrow> None
                  | Some s3 \<Rightarrow> parse_array_items p (data @ [v]) s3)))"
proof -
  have "length s3 < length s"
    if "p s = Some (v, s1)" "get_next_token s1 = Some (c, s2)" "skip_to_token s2 = Some s3" for v s1 c s2 s3
    using forwardD [OF assms that(1)] get_next_token_length [OF that(2)] skip_to_token_length [OF that(3)]
    by simp
  then show ?thesis
    by (subst parse_array_items.simps) (auto split: option.splits)
qed

lemma parse_members_eq:
  assumes "forward p"
  shows "parse_members p data ch s =
     (if ch \<noteq> CHR 0x22 then None
      else
        (case parse_string [] (-1) s of
           None \<Rightarrow> None
         | Some (key, s1) \<Rightarrow>
             (case get_next_token s1 of
                None \<Rightarrow> None
              | Some (c, s2) \<Rightarrow>
                  if c \<noteq> CHR '':'' then None
                  else
                    (case p s2 of
                       None \<Rightarrow> None
                     | Some (v, s3) \<Rightarrow>
                         (case get_next_token s3 of
                            None \<Rightarrow> None
                          | Some (c, s4) \<Rightarrow>
                              if c = CHR ''}'' then Some (JObject (object_assign key v data), s4)
                              else if c \<noteq> CHR '','' then None
                              else
                                (case get_next_token s4 of
                                   None \<Rightarrow> None
                                 | Some (c', s5) \<Rightarrow>
                                     parse_members p (object_assign key v data) c' s5))))))"
proof -
  have "length s5 < length s"
    if "parse_string [] (-1) s = Some (key, s1)" "get_next_token s1 = Some (c, s2)"
      "p s2 = Some (v, s3)" "get_next_token s3 = Some (d, s4)" "get_next_token s4 = Some (e, s5)"
    for key s1 c s2 v s3 d s4 e s5
    using parse_string_length [OF that(1)] get_next_token_length [OF that(2)] forwardD [OF assms that(3)]
      get_next_token_length [OF that(4)] get_next_token_length [OF that(5)]
    by simp
  then show ?thesis
    by (subst parse_members.simps) (auto split: option.splits)
qed

lemma parse_array_items_length:
  "forward p \<Longrightarrow> parse_array_items p data s = Some (x, s') \<Longrightarrow> length s' \<le> length s"
proof (induction p data s rule: parse_array_items.induct)
  case (1 p data s)
  obtain v s1 c s2 where step: "p s = Some (v, s1)" "get_next_token s1 = Some (c, s2)"
    using "1.prems"(2) by (subst (asm) parse_array_items.simps) (auto split: option.splits)
  have len: "length s2 < length s"
    using forwardD [OF "1.prems"(1) step(1)] get_next_token_length [OF step(2)] by simp
  show ?case
  proof (cases "c = CHR '']''")
    case True
    then show ?thesis
      using "1.prems"(2) step len by (subst (asm) parse_array_items.simps) auto
  next
    case False
    then obtain s3 where s3: "c = CHR '',''" "skip_to_token s2 = Some s3" "length s3 < length s"
        "parse_array_items p (data @ [v]) s3 = Some (x, s')"
      using "1.prems"(2) step by (subst (asm) parse_array_items.simps) (auto split: option.splits if_splits)
    show ?thesis
      using "1.IH" [OF step(1) refl step(2) refl False _ s3(2,3) "1.prems"(1) s3(4)] s3(1,3) by simp
  qed
qed

lemma parse_members_length:
  "forward p \<Longrightarrow> parse_members p data ch s = Some (x, s') \<Longrightarrow> length s' \<le> length s"
proof (induction "length s" arbitrary: data ch s rule: less_induct)
  case less
  obtain key s1 c s2 v s3 d s4 where step:
      "parse_string [] (-1) s = Some (key, s1)" "get_next_token s1 = Some (c, s2)"
      "p s2 = Some (v, s3)" "get_next_token s3 = Some (d, s4)"
    using less.prems(2)
    by (subst (asm) parse_members.simps) (auto split: option.splits if_splits)
  have len: "length s4 < length s"
    using parse_string_length [OF step(1)] get_next_token_length [OF step(2)]
      forwardD [OF less.prems(1) step(3)] get_next_token_length [OF step(4)] by simp
  from less.prems(2) step consider "s' = s4"
    | e s5 where "length s5 < length s" "parse_members p (object_assign key v data) e s5 = Some (x, s')"
    by (subst (asm) parse_members.simps) (auto split: option.splits if_splits)
  then show ?case
  proof cases
    case 1
    with len show ?thesis by simp
  next
    case 2
    with less.hyps [OF 2(1) less.prems(1) 2(2)] show ?thesis by simp
  qed
qed

lemma length_tl_le: "length (tl s) \<le> length s"
  by simp

lemma parse_number_length: "parse_number s = Some (x, s') \<Longrightarrow> length s' \<le> length s"
proof -
  assume "parse_number s = Some (x, s')"
  moreover have i: "length t' \<le> length t" if "parse_int_part t = Some (ds, t')" for t t' ds
    using that by (auto simp: parse_int_part_def length_dropWhile_le split: if_splits)
  moreover have f: "length t' \<le> length t" if "parse_fraction t = Some (ds, t')" for t t' ds
    using that by (auto simp: parse_fraction_def split: if_splits)
      (meson diff_le_self le_trans length_dropWhile_le length_tl_le)
  moreover have e: "length t' \<le> length t" if "parse_exponent t = Some (ds, t')" for t t' ds
  proof -
    have "length (dropWhile is_digit (drop n (tl t))) \<le> length t" for n
      by (rule le_trans [OF length_dropWhile_le]) simp
    from this [of 0] this show ?thesis
      using that by (auto simp: parse_exponent_def Let_def split: if_splits)
  qed
  ultimately show ?thesis
    unfolding parse_number_def Let_def
    by (auto split: option.splits if_splits dest!: i f e) (meson diff_le_self le_trans)+
qed

lemma forward_parse_json: "forward (parse_json d)"
proof (induction d)
  case (Suc d)
  show ?case
    unfolding forward_def
  proof (intro allI impI)
    fix s x s' assume x: "parse_json (Suc d) s = Some (x, s')"
    then obtain ch s1 where t: "get_next_token s = Some (ch, s1)" by (auto split: option.splits)
    then have len: "Suc (length s1) \<le> length s" by (auto dest: get_next_token_length)
    have "length s' \<le> Suc (length s1)"
      using x t
      by (auto simp: expect_def split: if_splits option.splits dest!: parse_string_length
          get_next_token_length parse_number_length parse_members_length [OF Suc]
          parse_array_items_length [OF Suc])
    with len show "length s' \<le> length s" by simp
  qed
qed (simp add: forward_def)

section \<open>A dumped value is read back\<close>

text \<open>
  The values a dump determines: no floating point number, integers short enough to be read as an
  \<open>int\<close>, the keys of an object in order, and at most \<open>d\<close> levels.
\<close>

fun dump_ok :: "nat \<Rightarrow> Json \<Rightarrow> bool" where
  "dump_ok 0 v = False"
| "dump_ok (Suc d) JNull = True"
| "dump_ok (Suc d) (JBool b) = True"
| "dump_ok (Suc d) (JInt n) = (length (to_string n) \<le> 9)"
| "dump_ok (Suc d) (JDouble t) = False"
| "dump_ok (Suc d) (JString s) = True"
| "dump_ok (Suc d) (JArray vs) = list_all (dump_ok d) vs"
| "dump_ok (Suc d) (JObject kvs) =
     (sorted_wrt (<) (map fst kvs) \<and> list_all (\<lambda>(k, v). dump_ok d v) kvs)"

text \<open>What may follow a value: nothing that would continue a number.\<close>

definition ends_value :: "string \<Rightarrow> bool" where
  "ends_value s \<longleftrightarrow> \<not> is_digit (cur s) \<and> cur s \<noteq> CHR ''.'' \<and> cur s \<noteq> CHR ''e'' \<and> cur s \<noteq> CHR ''E''"

lemma cur_Cons [simp]: "cur (c # s) = c"
  by (simp add: cur_def)

lemma nat_to_string_leading:
  "n > 0 \<Longrightarrow> cur (nat_to_string n @ s) \<noteq> CHR ''0'' \<and> is_digit (cur (nat_to_string n @ s))"
proof (induction n arbitrary: s rule: nat_to_string.induct)
  case (1 n)
  show ?case
  proof (cases "n < 10")
    case True
    have "digit_char n \<noteq> CHR ''0''"
      using True 1(2) digit_val_digit_char [OF True] by (auto simp: digit_val_def)
    moreover have "nat_to_string n = [digit_char n]" using True by (subst nat_to_string.simps) simp
    ultimately show ?thesis using True by simp
  next
    case False
    then have "nat_to_string n = nat_to_string (n div 10) @ [digit_char (n mod 10)]"
      by (subst nat_to_string.simps) simp
    with False 1(1) [OF False, of "[digit_char (n mod 10)] @ s"] show ?thesis by simp
  qed
qed

lemma parse_int_part_nat:
  assumes "\<not> is_digit (cur s)"
  shows "parse_int_part (nat_to_string n @ s) = Some (nat_to_string n, s)"
proof (cases "n = 0")
  case True
  have "nat_to_string 0 = ''0''" by (subst nat_to_string.simps) (simp add: digit_char_def char_of_def bit_0)
  with True assms show ?thesis by (simp add: parse_int_part_def)
next
  case False
  have "takeWhile is_digit s = []" "dropWhile is_digit s = s"
    using assms by (auto simp: cur_def split: list.splits)
  moreover have "\<forall>c \<in> set (nat_to_string n). is_digit c"
    using nat_to_string_digits [of n] by (simp add: list_all_iff)
  ultimately show ?thesis
    using nat_to_string_leading [of n s] False
    by (simp add: parse_int_part_def takeWhile_append dropWhile_append)
qed

lemma parse_number_to_string:
  assumes "length (to_string n) \<le> 9" and "ends_value s"
  shows "parse_number (to_string n @ s) = Some (JInt n, s)"
proof (cases "sint n < 0")
  case True
  then have t: "to_string n = CHR ''-'' # nat_to_string (nat (- sint n))"
    by (simp add: to_string_def to_string_int_def)
  show ?thesis
    using assms True by (simp add: parse_number_def t parse_int_part_nat ends_value_def)
next
  case False
  then have t: "to_string n = nat_to_string (nat (sint n))"
    by (simp add: to_string_def to_string_int_def)
  have "is_digit (cur (nat_to_string (nat (sint n)) @ s))"
    using nat_to_string_digits [of "nat (sint n)"] nat_to_string_not_Nil [of "nat (sint n)"]
    by (cases "nat_to_string (nat (sint n))") simp_all
  then have "cur (nat_to_string (nat (sint n)) @ s) \<noteq> CHR ''-''"
    by (auto simp: is_digit_def less_char_def)
  then show ?thesis
    using assms False by (simp add: parse_number_def t parse_int_part_nat ends_value_def)
qed

text \<open>The first byte of a dumped value is neither white space nor a closing bracket.\<close>

definition starts_value :: "string \<Rightarrow> bool" where
  "starts_value s \<longleftrightarrow>
     s \<noteq> [] \<and> \<not> is_whitespace (hd s) \<and> hd s \<noteq> CHR '']'' \<and> hd s \<noteq> CHR ''}''"

lemma to_string_start: "hd (to_string n) = CHR ''-'' \<or> is_digit (hd (to_string n))"
  using nat_to_string_digits [of "nat (sint n)"] nat_to_string_not_Nil [of "nat (sint n)"]
  by (cases "nat_to_string (nat (sint n))") (auto simp: to_string_def to_string_int_def)

lemma dump_starts_value: "dump_ok d v \<Longrightarrow> starts_value (dump fmt v)"
proof (induction d v rule: dump_ok.induct)
  case (4 d n)
  then show ?case
    using to_string_start [of n]
    by (auto simp: starts_value_def is_whitespace_def is_digit_def less_char_def)
qed (auto simp: starts_value_def is_whitespace_def dump_string_def)

lemma get_next_token_start:
  "starts_value t \<Longrightarrow> get_next_token (t @ s) = Some (hd t, tl t @ s)"
  by (cases t) (auto simp: starts_value_def get_next_token_def consume_garbage_def)

lemma get_next_token_plain [simp]:
  "\<not> is_whitespace c \<Longrightarrow> get_next_token (c # s) = Some (c, s)"
  "get_next_token (CHR '' '' # s) = get_next_token s"
  by (simp_all add: get_next_token_def consume_garbage_def is_whitespace_def)

lemma skip_to_token_start:
  "starts_value t \<Longrightarrow> skip_to_token (CHR '' '' # t @ s) = Some (t @ s)"
  by (simp add: skip_to_token_def get_next_token_start) (simp add: starts_value_def)

lemma ends_value_brackets [simp]:
  "ends_value (CHR '']'' # s)" "ends_value (CHR ''}'' # s)" "ends_value (CHR '','' # s)"
  by (simp_all add: ends_value_def is_digit_def less_char_def)

definition reads_back :: "(string \<Rightarrow> (Json \<times> string) option) \<Rightarrow> (string \<Rightarrow> string) \<Rightarrow> Json \<Rightarrow> bool" where
  "reads_back p fmt v \<longleftrightarrow>
     starts_value (dump fmt v) \<and>
     (\<forall>rest. ends_value rest \<longrightarrow>
        p (dump fmt v @ rest) = Some (v, rest) \<and> p (CHR '' '' # dump fmt v @ rest) = Some (v, rest))"

lemma parse_array_items_dump:
  assumes "forward p"
  shows "vs \<noteq> [] \<Longrightarrow> list_all (reads_back p fmt) vs \<Longrightarrow>
    parse_array_items p data (separated (map (dump fmt) vs) @ CHR '']'' # rest) = Some (JArray (data @ vs), rest)"
proof (induction vs arbitrary: data)
  case (Cons v vs)
  note eq = parse_array_items_eq [OF assms]
  show ?case
  proof (cases vs)
    case Nil
    then show ?thesis
      using Cons.prems by (subst eq) (simp add: reads_back_def is_whitespace_def)
  next
    case (Cons w ws)
    have p: "p (dump fmt v @ CHR '','' # t) = Some (v, CHR '','' # t)" for t
      using Cons.prems by (simp add: reads_back_def)
    obtain t where t: "separated (map (dump fmt) vs) @ CHR '']'' # rest = dump fmt w @ t"
      by (cases ws) (auto simp: Cons)
    have "starts_value (dump fmt w)" using Cons.prems by (simp add: Cons reads_back_def)
    with t have "skip_to_token (CHR '' '' # separated (map (dump fmt) vs) @ CHR '']'' # rest) =
        Some (separated (map (dump fmt) vs) @ CHR '']'' # rest)"
      by (simp add: skip_to_token_start)
    moreover have "separated (map (dump fmt) (v # vs)) =
        dump fmt v @ CHR '','' # CHR '' '' # separated (map (dump fmt) vs)"
      by (simp add: Cons)
    moreover have "parse_array_items p (data @ [v]) (separated (map (dump fmt) vs) @ CHR '']'' # rest) =
        Some (JArray (data @ v # vs), rest)"
      using Cons.IH [of "data @ [v]"] Cons.prems by (simp add: Cons)
    ultimately show ?thesis
      by (subst eq) (simp add: p is_whitespace_def)
  qed
qed simp

lemma object_assign_snoc:
  "sorted_wrt (<) (map fst m @ [k]) \<Longrightarrow> object_assign k v m = m @ [(k, v)]"
  by (induction m) (auto simp: order_less_not_sym)

text \<open>The text of the members of an object after the opening quote of its first key.\<close>

fun dump_members :: "(string \<Rightarrow> string) \<Rightarrow> (string \<times> Json) list \<Rightarrow> string" where
  "dump_members fmt [] = []"
| "dump_members fmt ((k, v) # kvs) =
     dump_chars k @ CHR 0x22 # '': '' @ dump fmt v @
     (if kvs = [] then [] else '', '' @ CHR 0x22 # dump_members fmt kvs)"

lemma separated_members:
  "kvs \<noteq> [] \<Longrightarrow> separated (map (\<lambda>(k, v). dump_string k @ '': '' @ dump fmt v) kvs) =
     CHR 0x22 # dump_members fmt kvs"
  by (induction fmt kvs rule: dump_members.induct)
    (auto simp: dump_string_def neq_Nil_conv)

lemma parse_members_dump:
  assumes "forward p"
  shows "kvs \<noteq> [] \<Longrightarrow> sorted_wrt (<) (map fst (data @ kvs)) \<Longrightarrow>
    list_all (\<lambda>(k, v). reads_back p fmt v) kvs \<Longrightarrow>
    parse_members p data (CHR 0x22) (dump_members fmt kvs @ CHR ''}'' # rest) =
      Some (JObject (data @ kvs), rest)"
proof (induction kvs arbitrary: data)
  case (Cons kv kvs)
  note eq = parse_members_eq [OF assms]
  obtain k v where kv: "kv = (k, v)" by (cases kv)
  have "sorted_wrt (<) (map fst data @ [k])"
    using Cons.prems(2) by (simp add: kv sorted_wrt_append)
  then have snoc: "object_assign k v data = data @ [(k, v)]" by (rule object_assign_snoc)
  have p: "p (CHR '' '' # dump fmt v @ t) = Some (v, t)" if "ends_value t" for t
    using Cons.prems(3) that by (simp add: kv reads_back_def)
  show ?case
  proof (cases "kvs = []")
    case True
    then show ?thesis
      by (subst eq) (simp add: kv parse_dump_string is_whitespace_def p snoc)
  next
    case False
    then have "parse_members p (data @ [(k, v)]) (CHR 0x22) (dump_members fmt kvs @ CHR ''}'' # rest) =
        Some (JObject (data @ kv # kvs), rest)"
      using Cons.IH [of "data @ [(k, v)]"] Cons.prems by (simp add: kv)
    with False show ?thesis
      by (subst eq) (simp add: kv parse_dump_string is_whitespace_def p snoc)
  qed
qed simp

lemma dump_array_cons:
  "vs \<noteq> [] \<Longrightarrow> starts_value (dump fmt (hd vs)) \<Longrightarrow>
    \<exists>c s. separated (map (dump fmt) vs) = c # s \<and> \<not> is_whitespace c \<and> c \<noteq> CHR '']''"
  by (induction "map (dump fmt) vs" rule: separated.induct)
    (auto simp: starts_value_def neq_Nil_conv)

text \<open>The parser skips one blank in front of a value.\<close>

lemma parse_json_blank: "parse_json (Suc d) (CHR '' '' # s) = parse_json (Suc d) s"
  by simp

lemma parse_json_array:
  assumes "list_all (reads_back (parse_json d) fmt) vs"
  shows "parse_json (Suc d) (dump fmt (JArray vs) @ rest) = Some (JArray vs, rest)"
proof (cases "vs = []")
  case True
  then show ?thesis by (simp add: is_whitespace_def is_digit_def less_char_def)
next
  case False
  then have "starts_value (dump fmt (hd vs))"
    using assms by (simp add: reads_back_def list_all_iff)
  with False obtain c s where cs: "separated (map (dump fmt) vs) = c # s"
      "\<not> is_whitespace c" "c \<noteq> CHR '']''"
    using dump_array_cons by blast
  have "parse_array_items (parse_json d) [] (c # s @ CHR '']'' # rest) = Some (JArray vs, rest)"
    using parse_array_items_dump [OF forward_parse_json False assms, of "[]" rest] cs(1) by simp
  with cs show ?thesis by (simp add: is_whitespace_def is_digit_def less_char_def)
qed

lemma parse_json_object:
  assumes "list_all (\<lambda>(k, v). reads_back (parse_json d) fmt v) kvs" and "sorted_wrt (<) (map fst kvs)"
  shows "parse_json (Suc d) (dump fmt (JObject kvs) @ rest) = Some (JObject kvs, rest)"
proof (cases "kvs = []")
  case True
  then show ?thesis by (simp add: is_whitespace_def is_digit_def less_char_def)
next
  case False
  then show ?thesis
    using parse_members_dump [OF forward_parse_json False _ assms(1), of "[]" rest] assms(2)
      separated_members [OF False, of fmt]
    by (simp add: is_whitespace_def is_digit_def less_char_def)
qed

lemma parse_json_int:
  assumes "length (to_string n) \<le> 9" and "ends_value rest"
  shows "parse_json (Suc d) (to_string n @ rest) = Some (JInt n, rest)"
proof -
  obtain c s where cs: "to_string n = c # s" by (cases "to_string n") simp_all
  have c: "c = CHR ''-'' \<or> is_digit c" using to_string_start [of n] by (simp add: cs)
  then have "\<not> is_whitespace c" by (auto simp: is_whitespace_def is_digit_def less_char_def)
  with c show ?thesis using parse_number_to_string [OF assms] by (auto simp: cs)
qed

lemma reads_back_dump: "dump_ok d v \<Longrightarrow> reads_back (parse_json d) fmt v"
proof (induction d v rule: dump_ok.induct)
  case (7 d vs)
  then have "list_all (reads_back (parse_json d) fmt) vs" by (auto simp: list_all_iff)
  then show ?case
    using parse_json_array parse_json_blank dump_starts_value [OF 7(2), of fmt]
    by (auto simp: reads_back_def simp del: parse_json.simps dump.simps)
next
  case (8 d kvs)
  then have "list_all (\<lambda>(k, v). reads_back (parse_json d) fmt v) kvs" by (fastforce simp: list_all_iff)
  with 8(2) show ?case
    using parse_json_object parse_json_blank dump_starts_value [OF 8(2), of fmt]
    by (auto simp: reads_back_def simp del: parse_json.simps dump.simps)
next
  case (4 d n)
  then show ?case
    using parse_json_int parse_json_blank dump_starts_value [OF 4, of fmt]
    by (auto simp: reads_back_def simp del: parse_json.simps)
next
  case (6 d s)
  show ?case
    using dump_starts_value [of "Suc d" "JString s" fmt]
    by (simp add: reads_back_def dump_string_def parse_dump_string is_whitespace_def is_digit_def
        less_char_def)
qed (auto simp: reads_back_def starts_value_def expect_def is_whitespace_def is_digit_def less_char_def)

theorem parse_dump: "dump_ok (max_depth + 1) v \<Longrightarrow> parse (dump fmt v) = v"
  using reads_back_dump [of "max_depth + 1" v fmt]
  by (auto simp: reads_back_def parse_def consume_garbage_def ends_value_def cur_def is_digit_def
      less_char_def dest: spec [of _ "[]"] simp del: parse_json.simps)

text \<open>A request or an answer, an array of strings, is always such a value.\<close>

lemma dump_ok_strings: "dump_ok (Suc (Suc d)) (JArray (map JString ss))"
  by (simp add: list_all_iff)

lemma parse_dump_strings: "parse (dump fmt (JArray (map JString ss))) = JArray (map JString ss)"
  using parse_dump [of "JArray (map JString ss)" fmt] dump_ok_strings [of 199 ss]
  by (simp add: max_depth_def numeral_eq_Suc del: dump.simps)

end
