(* ===== verification/Request.thy ===== *)
theory Request
  imports Json Str_Object
begin

text \<open>
  The first half of \<open>src/server/command.cc\<close>: how a line of text becomes a request (a JSON array of
  strings) and how a request becomes a command object.  A command class that extends
  \<open>CommandBase\<close> is a record extension; \<open>cli_\<close> is the handle of the client next to the command.
\<close>

section \<open>Lines of text\<close>

definition isTokenMember :: "char \<Rightarrow> bool" where
  "isTokenMember c \<longleftrightarrow>
     (c \<ge> CHR ''0'' \<and> c \<le> CHR ''9'') \<or> (c \<ge> CHR ''a'' \<and> c \<le> CHR ''z'') \<or>
     (c \<ge> CHR ''A'' \<and> c \<le> CHR ''Z'')"

text \<open>The next token and the position behind it; the empty token at the end.\<close>

definition nextToken :: "string \<Rightarrow> string \<times> string" where
  "nextToken s =
     (let s' = dropWhile (\<lambda>c. \<not> isTokenMember c) s
      in (takeWhile isTokenMember s', dropWhile isTokenMember s'))"

function RawCommandTokens :: "string \<Rightarrow> string list" where
  "RawCommandTokens s =
     (let (token, s') = nextToken s in if token = [] then [] else token # RawCommandTokens s')"
  by pat_completeness auto
termination
proof (relation "measure length")
  fix s :: string and x token s'
  assume "x = nextToken s" "(token, s') = x" "token \<noteq> []"
  then have "token = takeWhile isTokenMember (dropWhile (\<lambda>c. \<not> isTokenMember c) s)"
      "s' = dropWhile isTokenMember (dropWhile (\<lambda>c. \<not> isTokenMember c) s)"
    by (simp_all add: nextToken_def Let_def)
  then have "length token + length s' = length (dropWhile (\<lambda>c. \<not> isTokenMember c) s)"
    by (metis length_append takeWhile_dropWhile_id)
  moreover have "length (dropWhile (\<lambda>c. \<not> isTokenMember c) s) \<le> length s"
    by (rule length_dropWhile_le)
  ultimately show "(s', s) \<in> measure length" using \<open>token \<noteq> []\<close> by (cases token) auto
qed simp

declare RawCommandTokens.simps [simp del]

definition RawCommandToRequest :: "string \<Rightarrow> json_array" where
  "RawCommandToRequest raw = map JString (RawCommandTokens raw)"

section \<open>Command objects\<close>

record CommandBase =
  valid :: bool
  command :: string
  obj_name :: string

record CliCommand = CommandBase +
  pswd :: "string option"

record DbCommand = CommandBase +
  db_value :: "string option"

record StrCommand = CommandBase +
  str_value :: "string option"

record ListCommand = CommandBase +
  list_values :: "Str list"

record HashCommand = CommandBase +
  hash_values :: "Str list"

record SetCommand = CommandBase +
  set_values :: "Str list"

record ZSetCommand = CommandBase +
  zset_values :: "Str list"

record ServerCommand = CommandBase +
  ip :: string
  port :: "16 word option"

datatype Command =
    Cmd_Cli CliCommand
  | Cmd_Db DbCommand
  | Cmd_Str StrCommand
  | Cmd_List ListCommand
  | Cmd_Hash HashCommand
  | Cmd_Set SetCommand
  | Cmd_ZSet ZSetCommand
  | Cmd_Server ServerCommand

section \<open>From requests to commands\<close>

definition JsonToBase ::
    "'a CommandBase_scheme \<Rightarrow> json_array \<Rightarrow> bool \<times> 'a CommandBase_scheme" where
  "JsonToBase ret source =
     (if length source < 2 then (False, ret\<lparr>valid := False\<rparr>)
      else if \<exists>e \<in> set source. string_value e = [] then (False, ret\<lparr>valid := False\<rparr>)
      else
        (True,
         ret\<lparr>command := string_value (source ! 0), obj_name := string_value (source ! 1),
           valid := True\<rparr>))"

text \<open>The strings from index 2 on, converted to \<open>Str\<close>.\<close>

definition request_values :: "json_array \<Rightarrow> Str list" where
  "request_values source = map (\<lambda>e. Str_ctor (string_value e)) (drop 2 source)"

definition JsonToStrCommand :: "json_array \<Rightarrow> StrCommand" where
  "JsonToStrCommand source =
     (case JsonToBase \<lparr>valid = True, command = [], obj_name = [], str_value = None\<rparr> source of
        (ok, ret) \<Rightarrow>
          if \<not> ok then ret
          else if command ret \<in> {''GET'', ''LEN''} then ret
          else if length source < 3 then ret\<lparr>valid := False\<rparr>
          else ret\<lparr>str_value := Some (string_value (source ! 2))\<rparr>)"

definition JsonToListCommand :: "json_array \<Rightarrow> ListCommand" where
  "JsonToListCommand source =
     (case JsonToBase \<lparr>valid = True, command = [], obj_name = [], list_values = []\<rparr> source of
        (ok, ret) \<Rightarrow>
          if \<not> ok then ret
          else if command ret \<in> {''LPOPF'', ''LPOPB'', ''LLEN''} then ret
          else if length source < 3 then ret\<lparr>valid := False\<rparr>
          else if command ret \<in> {''LREM'', ''LSET'', ''LTRIM''} \<and> length source < 4
          then ret\<lparr>valid := False\<rparr>
          else ret\<lparr>list_values := request_values source\<rparr>)"

definition JsonToSetCommand :: "json_array \<Rightarrow> SetCommand" where
  "JsonToSetCommand source =
     (case JsonToBase \<lparr>valid = True, command = [], obj_name = [], set_values = []\<rparr> source of
        (ok, ret) \<Rightarrow>
          if \<not> ok then ret
          else if command ret \<in> {''SCARD'', ''SRANDMEMBER'', ''SMEMBERS'', ''SPOP''} then ret
          else if length source < 3 then ret\<lparr>valid := False\<rparr>
          else ret\<lparr>set_values := request_values source\<rparr>)"

definition JsonToZSetCommand :: "json_array \<Rightarrow> ZSetCommand" where
  "JsonToZSetCommand source =
     (case JsonToBase \<lparr>valid = True, command = [], obj_name = [], zset_values = []\<rparr> source of
        (ok, ret) \<Rightarrow>
          if \<not> ok then ret
          else if command ret = ''ZCARD'' then ret
          else if length source < 3 then ret\<lparr>valid := False\<rparr>
          else if length source mod 2 \<noteq> 0 \<and> command ret \<noteq> ''ZSCORE'' \<and> command ret \<noteq> ''ZRANK''
          then ret\<lparr>valid := False\<rparr>
          else ret\<lparr>zset_values := request_values source\<rparr>)"

definition JsonToHashCommand :: "json_array \<Rightarrow> HashCommand" where
  "JsonToHashCommand source =
     (case JsonToBase \<lparr>valid = True, command = [], obj_name = [], hash_values = []\<rparr> source of
        (ok, ret) \<Rightarrow>
          if \<not> ok then ret
          else if command ret \<in> {''HLEN'', ''HGETALL''} then ret
          else if length source < 3 then ret\<lparr>valid := False\<rparr>
          else if command ret \<in> {''HSET'', ''HINCRBY'', ''HDECRBY''} \<and> length source mod 2 \<noteq> 0
          then ret\<lparr>valid := False\<rparr>
          else ret\<lparr>hash_values := request_values source\<rparr>)"

definition JsonToDbCommand :: "json_array \<Rightarrow> DbCommand" where
  "JsonToDbCommand source =
     (let ret0 = \<lparr>valid = True, command = [], obj_name = [], db_value = None\<rparr> in
      if source \<noteq> [] \<and> string_value (source ! 0) = ''REWRITE''
      then ret0\<lparr>valid := True, command := ''REWRITE''\<rparr>
      else
        (case JsonToBase ret0 source of
           (ok, ret) \<Rightarrow>
             if \<not> ok then ret
             else if command ret \<in> {''DEL'', ''WHEN''} then ret
             else if length source < 3 then ret\<lparr>valid := False\<rparr>
             else ret\<lparr>db_value := Some (string_value (source ! 2))\<rparr>))"

definition JsonToCliCommand :: "json_array \<Rightarrow> CliCommand" where
  "JsonToCliCommand source =
     (let ret0 = \<lparr>valid = True, command = [], obj_name = [], pswd = None\<rparr> in
      if source = [] then ret0\<lparr>valid := False\<rparr>
      else
        (let ret = ret0\<lparr>command := string_value (source ! 0)\<rparr> in
         if command ret \<noteq> ''CREATE'' \<and> command ret \<noteq> ''SHOW'' then
           (if length source < 2 then ret\<lparr>valid := False\<rparr>
            else
              (let ret' = ret\<lparr>obj_name := string_value (source ! 1), valid := True\<rparr> in
               if length source = 3 then ret'\<lparr>pswd := Some (string_value (source ! 2))\<rparr> else ret'))
         else ret))"

text \<open>
  The text behind the colon goes through \<open>std::stoi\<close> and is truncated to a \<open>short\<close>.  The member \<open>port_\<close>
  has no initializer: until it is set the field is \<open>None\<close>, and to read it then is undefined.
\<close>

definition JsonToServerCommand :: "json_array \<Rightarrow> ServerCommand result" where
  "JsonToServerCommand source =
     (let ret0 = \<lparr>valid = True, command = [], obj_name = [], ip = [], port = None\<rparr> in
      if source \<noteq> [] \<and> string_value (source ! 0) = ''ENDFORKING''
      then Inr (ret0\<lparr>command := ''ENDFORKING'', valid := True\<rparr>)
      else
        (case JsonToBase ret0 source of
           (ok, ret) \<Rightarrow>
             if \<not> ok then Inr ret
             else
               (case dropWhile (\<lambda>c. c \<noteq> CHR '':'') (obj_name ret) of
                  [] \<Rightarrow> Inr (ret\<lparr>valid := False\<rparr>)
                | _ # prt \<Rightarrow>
                    rbind (stoi prt) (\<lambda>p.
                      Inr (ret\<lparr>ip := takeWhile (\<lambda>c. c \<noteq> CHR '':'') (obj_name ret),
                               port := Some (ucast p)\<rparr>)))))"

definition isServerCommand :: "string \<Rightarrow> bool" where
  "isServerCommand cmd \<longleftrightarrow> cmd \<in> {''FORK'', ''ENDFORKING''}"

definition isCliCommand :: "string \<Rightarrow> bool" where
  "isCliCommand cmd \<longleftrightarrow> cmd \<in> {''SELECT'', ''CREATE'', ''SHOW''}"

definition isDbCommand :: "string \<Rightarrow> bool" where
  "isDbCommand cmd \<longleftrightarrow> cmd \<in> {''DEL'', ''EXPIRE'', ''WHEN'', ''REWRITE''}"

definition isStrCommand :: "string \<Rightarrow> bool" where
  "isStrCommand cmd \<longleftrightarrow> cmd \<in> {''SET'', ''GET'', ''APPEND'', ''LEN'', ''INCRBY'', ''DECRBY''}"

definition isListCommand :: "string \<Rightarrow> bool" where
  "isListCommand cmd \<longleftrightarrow>
     cmd \<in> {''LPUSHF'', ''LPUSHB'', ''LPOPF'', ''LPOPB'', ''LINDEX'', ''LREM'', ''LTRIM'', ''LLEN'', ''LSET''}"

definition isSetCommand :: "string \<Rightarrow> bool" where
  "isSetCommand cmd \<longleftrightarrow>
     cmd \<in> {''SADD'', ''SCARD'', ''SISMEMBER'', ''SMEMBERS'', ''SRANDMEMBER'', ''SPOP'', ''SREM'',
       ''SINTER'', ''SDIFF''}"

definition isZSetCommand :: "string \<Rightarrow> bool" where
  "isZSetCommand cmd \<longleftrightarrow>
     cmd \<in> {''ZADD'', ''ZCARD'', ''ZCOUNT'', ''ZLEXCOUNT'', ''ZINCRBY'', ''ZDECRBY'', ''ZREM'',
       ''ZRANGE'', ''ZRANGEBYSCORE'', ''ZRANGEBYLEX'', ''ZRANK'', ''ZSCORE''}"

definition isHashCommand :: "string \<Rightarrow> bool" where
  "isHashCommand cmd \<longleftrightarrow>
     cmd \<in> {''HGET'', ''HSET'', ''HEXIST'', ''HDEL'', ''HLEN'', ''HGETALL'', ''HINCRBY'', ''HDECRBY''}"

definition toupper :: "char \<Rightarrow> char" where
  "toupper c = (if c \<ge> CHR ''a'' \<and> c \<le> CHR ''z'' then char_of (of_char c - 32 :: nat) else c)"

text \<open>
  The commands of the classes are disjoint, so at most one of the conditions holds.  \<open>client\<close> is
  stored in \<open>cli_\<close>.
\<close>

definition RequestToCommandExec :: "nat \<Rightarrow> json_array \<Rightarrow> (nat \<times> Command) option result" where
  "RequestToCommandExec client request =
     (case request of
        [] \<Rightarrow> Inr None
      | r0 # args \<Rightarrow>
          (let cmd = map toupper (string_value r0); req = JString cmd # args in
           rbind
             (if isZSetCommand cmd then Inr (Some (Cmd_ZSet (JsonToZSetCommand req)))
              else if isSetCommand cmd then Inr (Some (Cmd_Set (JsonToSetCommand req)))
              else if isHashCommand cmd then Inr (Some (Cmd_Hash (JsonToHashCommand req)))
              else if isListCommand cmd then Inr (Some (Cmd_List (JsonToListCommand req)))
              else if isStrCommand cmd then Inr (Some (Cmd_Str (JsonToStrCommand req)))
              else if isDbCommand cmd then Inr (Some (Cmd_Db (JsonToDbCommand req)))
              else if isCliCommand cmd then Inr (Some (Cmd_Cli (JsonToCliCommand req)))
              else if isServerCommand cmd
              then rbind (JsonToServerCommand req) (\<lambda>ret. Inr (Some (Cmd_Server ret)))
              else Inr None)
             (\<lambda>ret. Inr (map_option (Pair client) ret))))"

section \<open>Tokens\<close>

lemma RawCommandTokens_Nil: "list_all (\<lambda>c. \<not> isTokenMember c) s \<Longrightarrow> RawCommandTokens s = []"
proof -
  assume "list_all (\<lambda>c. \<not> isTokenMember c) s"
  then have "dropWhile (\<lambda>c. \<not> isTokenMember c) s = []" by (simp add: list_all_iff)
  then have "nextToken s = ([], [])" by (simp only: nextToken_def Let_def list.simps takeWhile.simps dropWhile.simps)
  then show ?thesis by (simp add: RawCommandTokens.simps [of s])
qed

lemma RawCommandTokens_Cons:
  assumes "list_all (\<lambda>c. \<not> isTokenMember c) sep" and "list_all isTokenMember tok" and "tok \<noteq> []"
    and "s = [] \<or> \<not> isTokenMember (hd s)"
  shows "RawCommandTokens (sep @ tok @ s) = tok # RawCommandTokens s"
proof -
  have "dropWhile (\<lambda>c. \<not> isTokenMember c) (sep @ tok @ s) = tok @ s"
    using assms(1-3) by (cases tok) (auto simp: dropWhile_append list_all_iff)
  moreover have "takeWhile isTokenMember (tok @ s) = tok" "dropWhile isTokenMember (tok @ s) = s"
    using assms(2,4) by (cases s; auto simp: takeWhile_append dropWhile_append list_all_iff)+
  ultimately have "nextToken (sep @ tok @ s) = (tok, s)" by (simp add: nextToken_def Let_def)
  then show ?thesis
    using assms(3) by (simp add: RawCommandTokens.simps [of "sep @ tok @ s"])
qed

text \<open>The tokens are the letters and digits of the line in order, and none is empty.\<close>

lemma RawCommandTokens_concat: "concat (RawCommandTokens s) = filter isTokenMember s"
proof (induction s rule: RawCommandTokens.induct)
  case (1 s)
  define s1 where "s1 = dropWhile (\<lambda>c. \<not> isTokenMember c) s"
  have s: "filter isTokenMember s = filter isTokenMember s1"
  proof -
    have "filter isTokenMember (takeWhile (\<lambda>c. \<not> isTokenMember c) s) = []"
      by (auto simp: filter_empty_conv dest: set_takeWhileD)
    then show ?thesis unfolding s1_def by (metis append_Nil filter_append takeWhile_dropWhile_id)
  qed
  have n: "nextToken s = (takeWhile isTokenMember s1, dropWhile isTokenMember s1)"
    by (simp add: nextToken_def s1_def Let_def)
  show ?case
  proof (cases "takeWhile isTokenMember s1 = []")
    case True
    moreover have "s1 = [] \<or> isTokenMember (hd s1)"
      unfolding s1_def using hd_dropWhile by blast
    ultimately have "s1 = []" by (cases s1) auto
    with True n s show ?thesis by (simp add: RawCommandTokens.simps [of s])
  next
    case False
    have "filter isTokenMember (takeWhile isTokenMember s1) = takeWhile isTokenMember s1"
      by (auto simp: filter_id_conv dest: set_takeWhileD)
    then have "filter isTokenMember s1 =
        takeWhile isTokenMember s1 @ filter isTokenMember (dropWhile isTokenMember s1)"
      by (metis filter_append takeWhile_dropWhile_id)
    with False n s 1 show ?thesis by (simp add: RawCommandTokens.simps [of s])
  qed
qed

lemma RawCommandTokens_members:
  "list_all (\<lambda>t. t \<noteq> [] \<and> list_all isTokenMember t) (RawCommandTokens s)"
proof (induction s rule: RawCommandTokens.induct)
  case (1 s)
  obtain tok s' where n: "nextToken s = (tok, s')" by (cases "nextToken s")
  then have "list_all isTokenMember tok"
    by (auto simp: nextToken_def Let_def list_all_iff dest: set_takeWhileD)
  with 1 n show ?case by (simp add: RawCommandTokens.simps [of s])
qed

text \<open>Tokens joined by blanks are read back, so a line in this form is its request.\<close>

lemma RawCommandTokens_join:
  "list_all (\<lambda>t. t \<noteq> [] \<and> list_all isTokenMember t) ts \<Longrightarrow>
     RawCommandTokens (concat (map (\<lambda>t. CHR '' '' # t) ts)) = ts"
proof (induction ts)
  case Nil
  show ?case by (simp add: RawCommandTokens_Nil)
next
  case (Cons t ts)
  have "\<not> isTokenMember (CHR '' '')" by (simp add: isTokenMember_def less_eq_char_def)
  then show ?case
    using Cons RawCommandTokens_Cons [of "'' ''" t "concat (map (\<lambda>t. CHR '' '' # t) ts)"]
    by (cases ts) simp_all
qed

end
