(* ===== verification/Timer.thy ===== *)
theory Timer
  imports Util
begin

text \<open>
  The timers of \<open>includes/server/timer.h\<close> and the queue \<open>TimerQue\<close> of \<open>src/server/timer.cc\<close>.  A
  pointer to a database is the handle of the database.  The file manager, the handler and the
  generator of a timer are those of the one server, so they are not fields here; what a timer does
  when it is executed is in the theory of the main loop.

  A \<open>std::priority_queue\<close> is the list of its elements in the order in which they will come out,
  where equal elements keep the order of their arrival.
\<close>

datatype Timer =
    DbExpireTimer (expire_time_us: size_t) (database: nat) (timer_obj_name: string)
  | DbRewriteTimer (expire_time_us: size_t) (cache: string)
  | RdbTimer (expire_time_us: size_t) (after: size_t)
  | AofTimer (expire_time_us: size_t) (after: size_t) (every_sec: bool)

definition TimerLess :: "Timer \<Rightarrow> Timer \<Rightarrow> bool" where
  "TimerLess a b \<longleftrightarrow> expire_time_us a < expire_time_us b"

definition TimerGreater :: "Timer \<Rightarrow> Timer \<Rightarrow> bool" where
  "TimerGreater a b \<longleftrightarrow> expire_time_us a > expire_time_us b"

definition TimerQue_Push :: "Timer \<Rightarrow> Timer list \<Rightarrow> Timer list" where
  "TimerQue_Push t que =
     takeWhile (\<lambda>u. \<not> TimerGreater u t) que @ t # dropWhile (\<lambda>u. \<not> TimerGreater u t) que"

text \<open>
  \<open>BlockPop\<close> waits with the lock released, so it is run against a schedule of what happens
  meanwhile: \<open>Arrive\<close> is a push by another thread, \<open>Wake now\<close> is one turn of the loop in which the
  clock reads \<open>now\<close>.  The result is the timer, the queue and the rest of the schedule, \<open>None\<close> when
  the schedule ends while it waits.
\<close>

datatype wait_event = Arrive Timer | Wake size_t

fun TimerQue_BlockPop :: "wait_event list \<Rightarrow> Timer list \<Rightarrow> (Timer \<times> Timer list \<times> wait_event list) option" where
  "TimerQue_BlockPop [] que = None"
| "TimerQue_BlockPop (Arrive t # es) que = TimerQue_BlockPop es (TimerQue_Push t que)"
| "TimerQue_BlockPop (Wake now_us # es) que =
     (case que of
        [] \<Rightarrow> TimerQue_BlockPop es que
      | t # que' \<Rightarrow> if expire_time_us t > now_us then TimerQue_BlockPop es que else Some (t, que', es))"

section \<open>The queue as a priority queue\<close>

text \<open>What the waiting loop relies on.\<close>

locale priority_queue =
  fixes push :: "'t \<Rightarrow> 'q \<Rightarrow> 'q"
    and pop :: "'q \<Rightarrow> ('t \<times> 'q) option"
    and elems :: "'q \<Rightarrow> 't multiset"
    and key :: "'t \<Rightarrow> 'k::linorder"
    and wf :: "'q \<Rightarrow> bool"
  assumes elems_push: "wf q \<Longrightarrow> elems (push t q) = add_mset t (elems q)"
    and wf_push: "wf q \<Longrightarrow> wf (push t q)"
    and pop_None: "pop q = None \<longleftrightarrow> elems q = {#}"
    and pop_Some: "wf q \<Longrightarrow> pop q = Some (t, q') \<Longrightarrow>
      elems q = add_mset t (elems q') \<and> wf q' \<and> (\<forall>u \<in># elems q. key t \<le> key u)"
begin

lemma fold_push: "wf q \<Longrightarrow> wf (fold push ts q) \<and> elems (fold push ts q) = mset ts + elems q"
  by (induction ts arbitrary: q) (auto simp: wf_push elems_push)

text \<open>The next element is the least of all that were pushed.\<close>

lemma pop_least:
  assumes "wf q" and "elems q = {#}" and "pop (fold push ts q) = Some (t, q')"
  shows "t \<in> set ts \<and> (\<forall>u \<in> set ts. key t \<le> key u) \<and> elems q' = mset ts - {#t#}"
proof -
  have f: "wf (fold push ts q)" "elems (fold push ts q) = mset ts"
    using fold_push [OF assms(1), of ts] assms(2) by simp_all
  from pop_Some [OF f(1) assms(3)]
  have p: "mset ts = add_mset t (elems q')" "\<forall>u \<in># mset ts. key t \<le> key u"
    unfolding f(2) by blast+
  have "t \<in> set ts" "\<forall>u \<in> set ts. key t \<le> key u"
    using p(2) arg_cong [OF p(1), of set_mset] by auto
  then show ?thesis using p(1) by simp
qed

end

definition que_wf :: "Timer list \<Rightarrow> bool" where
  "que_wf que \<longleftrightarrow> sorted (map expire_time_us que)"

definition que_pop :: "Timer list \<Rightarrow> (Timer \<times> Timer list) option" where
  "que_pop que = (case que of [] \<Rightarrow> None | t # que' \<Rightarrow> Some (t, que'))"

lemma mset_TimerQue_Push [simp]: "mset (TimerQue_Push t que) = add_mset t (mset que)"
proof -
  have "mset (takeWhile P que) + mset (dropWhile P que) = mset que" for P
    by (metis mset_append takeWhile_dropWhile_id)
  then show ?thesis by (simp add: TimerQue_Push_def)
qed

lemma que_cut_sorted: "que_wf que \<Longrightarrow> cut_sorted (\<lambda>u. \<not> TimerGreater u t) que"
  unfolding cut_sorted_def que_wf_def sorted_map TimerGreater_def
  by (auto elim!: sorted_wrt_mono_rel [rotated])

lemma que_wf_Push: "que_wf que \<Longrightarrow> que_wf (TimerQue_Push t que)"
  unfolding TimerQue_Push_def
  by (simp add: takeWhile_cut_sorted dropWhile_cut_sorted que_cut_sorted)
    (auto simp: que_wf_def sorted_append sorted_map sorted_wrt_filter TimerGreater_def)

lemma que_wf_Cons [simp]:
  "que_wf (t # que) \<longleftrightarrow> (\<forall>u \<in> set que. expire_time_us t \<le> expire_time_us u) \<and> que_wf que"
  by (auto simp: que_wf_def)

interpretation timers: priority_queue TimerQue_Push que_pop mset expire_time_us que_wf
  by unfold_locales
    (auto simp: que_wf_Push que_pop_def split: list.splits)

section \<open>The waiting loop\<close>

fun arrivals :: "wait_event list \<Rightarrow> Timer list" where
  "arrivals [] = []"
| "arrivals (Arrive t # es) = t # arrivals es"
| "arrivals (Wake now_us # es) = arrivals es"

lemma TimerQue_BlockPop_due:
  assumes "que_wf que" and "TimerQue_BlockPop es que = Some (t, que', es')"
  shows "\<exists>before now_us. es = before @ Wake now_us # es' \<and> expire_time_us t \<le> now_us \<and>
    (\<forall>u \<in> set que'. expire_time_us t \<le> expire_time_us u) \<and> que_wf que' \<and>
    mset que' + {#t#} = mset que + mset (arrivals before)"
  using assms
proof (induction es que rule: TimerQue_BlockPop.induct)
  case (2 u es que)
  then obtain before now_us where "es = before @ Wake now_us # es'" "expire_time_us t \<le> now_us"
      "\<forall>u \<in> set que'. expire_time_us t \<le> expire_time_us u" "que_wf que'"
      "mset que' + {#t#} = mset (TimerQue_Push u que) +
        mset (arrivals before)"
    using que_wf_Push by fastforce
  then show ?case by (intro exI [of _ "Arrive u # before"] exI [of _ now_us]) simp
next
  case (3 now_us es que)
  show ?case
  proof (cases "\<exists>v vs. que = v # vs \<and> expire_time_us v \<le> now_us")
    case True
    then obtain v vs where q: "que = v # vs" "expire_time_us v \<le> now_us" by blast
    then have "t = v" "que' = vs" "es' = es" using 3(4) by (simp_all add: not_less [symmetric])
    with 3(3) q show ?thesis by (intro exI [of _ "[]"] exI [of _ now_us]) simp
  next
    case False
    then have B: "TimerQue_BlockPop es que = Some (t, que', es')"
      using 3(4) by (auto split: list.splits if_splits)
    have "\<exists>before now'. es = before @ Wake now' # es' \<and> expire_time_us t \<le> now' \<and>
        (\<forall>u \<in> set que'. expire_time_us t \<le> expire_time_us u) \<and> que_wf que' \<and>
        mset que' + {#t#} = mset que +
          mset (arrivals before)"
    proof (cases que)
      case Nil
      then show ?thesis using 3(1) [OF Nil] 3(3) B by blast
    next
      case (Cons v vs)
      with False have "expire_time_us v > now_us" by simp
      then show ?thesis using 3(2) [OF Cons] 3(3) B by blast
    qed
    then obtain before now' where "es = before @ Wake now' # es'" "expire_time_us t \<le> now'"
      "\<forall>u \<in> set que'. expire_time_us t \<le> expire_time_us u" "que_wf que'"
      "mset que' + {#t#} = mset que +
        mset (arrivals before)"
      by blast
    then show ?thesis by (intro exI [of _ "Wake now_us # before"] exI [of _ now']) simp
  qed
qed simp

text \<open>Once the clock has passed a timer that is in the queue, the loop returns.\<close>

lemma TimerQue_BlockPop_returns:
  assumes "que_wf que" and "u \<in> set que" and "Wake now_us \<in> set es" and "expire_time_us u \<le> now_us"
  shows "\<exists>r. TimerQue_BlockPop es que = Some r"
  using assms
proof (induction es que rule: TimerQue_BlockPop.induct)
  case (2 t es que)
  have "u \<in> set (TimerQue_Push t que)"
    using 2(3) mset_TimerQue_Push [of t que] by (metis insert_iff set_mset_add_mset_insert set_mset_mset)
  with 2 show ?case by (simp add: que_wf_Push)
next
  case (3 now' es que)
  then obtain v vs where q: "que = v # vs" by (cases que) auto
  have "expire_time_us v \<le> expire_time_us u" using 3(3,4) by (auto simp: q)
  show ?case
  proof (cases "expire_time_us v > now'")
    case True
    then have "Wake now_us \<in> set es"
      using 3(5,6) \<open>expire_time_us v \<le> expire_time_us u\<close> by auto
    with True 3 show ?thesis by (simp add: q)
  qed (simp add: q)
qed simp

end
