(* ===== verification/Db.thy ===== *)
theory Db
  imports Objects Request Timer
begin

text \<open>
  The classes \<open>KeyValue\<close> and \<open>Db\<close> of \<open>src/database/db.cc\<close>, and the process-wide numbering of
  databases.

  A database holds its objects by shared pointers, and no pointer to an object is kept longer than
  one command: a change through such a pointer is the new value of the entry (\<open>Db_put\<close>).  The
  handle \<open>this\<close> of a database is a number.
\<close>

section \<open>Entries\<close>

record KeyValue =
  kv_key :: Str
  kv_value :: Object
  kv_expire :: "size_t option"

definition KeyValue_ctor :: "Str \<Rightarrow> Object \<Rightarrow> KeyValue" where
  "KeyValue_ctor k v = \<lparr>kv_key = k, kv_value = v, kv_expire = None\<rparr>"

text \<open>The copy constructor leaves the expiry unset; the copy assignment leaves it as it was.\<close>

definition KeyValue_copy :: "KeyValue \<Rightarrow> KeyValue" where
  "KeyValue_copy lhs = \<lparr>kv_key = kv_key lhs, kv_value = kv_value lhs, kv_expire = None\<rparr>"

definition KeyValue_assign :: "KeyValue \<Rightarrow> KeyValue \<Rightarrow> KeyValue" where
  "KeyValue_assign self lhs = self\<lparr>kv_key := kv_key lhs, kv_value := kv_value lhs\<rparr>"

definition KeyValue_MakeExpireAt :: "size_t \<Rightarrow> KeyValue \<Rightarrow> KeyValue" where
  "KeyValue_MakeExpireAt time_stamp kv = kv\<lparr>kv_expire := Some time_stamp\<rparr>"

definition KeyValue_UndoExpire :: "KeyValue \<Rightarrow> KeyValue" where
  "KeyValue_UndoExpire kv = kv\<lparr>kv_expire := None\<rparr>"

definition KeyValue_GetExpire :: "KeyValue \<Rightarrow> size_t option" where
  "KeyValue_GetExpire kv = kv_expire kv"

definition KeyValue_IsExpire :: "size_t \<Rightarrow> KeyValue \<Rightarrow> bool" where
  "KeyValue_IsExpire now_us kv = (case kv_expire kv of None \<Rightarrow> False | Some t \<Rightarrow> t < now_us)"

definition KeyValue_GetValue :: "KeyValue \<Rightarrow> Object" where
  "KeyValue_GetValue kv = kv_value kv"

definition KeyValue_GetKey :: "KeyValue \<Rightarrow> Str" where
  "KeyValue_GetKey kv = kv_key kv"

definition KeyValue_Fork :: "KeyValue \<Rightarrow> string" where
  "KeyValue_Fork kv = Object_Fork (Str_GetRaw (kv_key kv)) (kv_value kv)"

definition KeyValue_InternalPrefixEncode :: "KeyValue \<Rightarrow> string result" where
  "KeyValue_InternalPrefixEncode kv =
     rbind
       (case kv_expire kv of
          None \<Rightarrow> Inr []
        | Some t \<Rightarrow> rbind (ObjectTypeToChar ObjectType_EXPIRE_ENTRY) (\<lambda>c. Inr (c # BitsToString t)))
       (\<lambda>ret. rbind (ObjectTypeToChar (Object_GetObjectType (kv_value kv))) (\<lambda>otyp.
          Inr (ret @ [otyp])))"

definition KeyValue_Encode :: "env \<Rightarrow> KeyValue \<Rightarrow> string result" where
  "KeyValue_Encode cf kv =
     rbind (KeyValue_InternalPrefixEncode kv) (\<lambda>pre.
       rbind (Str_EncodeValue cf (kv_key kv)) (\<lambda>k.
         rbind (Object_EncodeValue cf (kv_value kv)) (\<lambda>v. Inr (pre @ k @ v))))"

text \<open>\<open>CharToObjectType(source->front()); source->pop_front();\<close>\<close>

definition PopObjectType :: "ObjectType decoder" where
  "PopObjectType source =
     (case source of
        [] \<Rightarrow> Inl Undefined
      | c # source' \<Rightarrow> rbind (CharToObjectType c) (\<lambda>otyp. Inr (otyp, source')))"

text \<open>The key and the value behind the tag \<open>otyp\<close>.\<close>

definition KeyValue_DecodeBody :: "env \<Rightarrow> size_t option \<Rightarrow> ObjectType \<Rightarrow> KeyValue decoder" where
  "KeyValue_DecodeBody cf exp otyp source =
     rbind (Str_DecodeValue cf source) (\<lambda>(k, source1).
       rbind (Object_DecodeValue cf otyp source1) (\<lambda>(v, source2).
         Inr (\<lparr>kv_key = k, kv_value = v, kv_expire = exp\<rparr>, source2)))"

definition KeyValue_Decode :: "env \<Rightarrow> KeyValue decoder" where
  "KeyValue_Decode cf source =
     rbind (PopObjectType source) (\<lambda>(otyp, source1).
       if otyp = ObjectType_EXPIRE_ENTRY then
         rbind (PeekSize source1) (\<lambda>(t, source2).
           rbind (PopObjectType source2) (\<lambda>(otyp', source3).
             KeyValue_DecodeBody cf (Some t) otyp' source3))
       else KeyValue_DecodeBody cf None otyp source1)"

section \<open>The numbering of databases\<close>

text \<open>
  \<open>num_hash\<close> and \<open>number_source\<close> are static; \<open>num_hash[n]\<close> is 0 for a number that was never used.
  Counting past \<open>INT_MAX\<close> is a signed overflow.
\<close>

record numbering =
  num_hash :: "int32 \<Rightarrow> int32"
  number_source :: int32

definition numbering_init :: numbering where
  "numbering_init = \<lparr>num_hash = (\<lambda>n. 0), number_source = 0\<rparr>"

text \<open>\<open>while (num_hash[n]) n++;\<close>\<close>

function next_number :: "(int32 \<Rightarrow> int32) \<Rightarrow> int32 \<Rightarrow> int32 result" where
  "next_number hash n =
     (if hash n = 0 then Inr n
      else case int_add n 1 of Inl e \<Rightarrow> Inl e | Inr n' \<Rightarrow> next_number hash n')"
  by pat_completeness auto
termination
proof (relation "measure (\<lambda>(hash, n). nat (INT_MAX - sint n))")
  fix hash :: "int32 \<Rightarrow> int32" and n n' :: int32
  assume "int_add n 1 = Inr n'"
  then have "sint n' = sint n + 1" "sint n + 1 \<le> INT_MAX"
    using int_add_sint [of n 1 n'] fits_int_sint [of n'] by (simp_all add: fits_int_def)
  then show "((hash, n'), (hash, n)) \<in> measure (\<lambda>(hash, n). nat (INT_MAX - sint n))" by simp
qed simp

declare next_number.simps [simp del]

section \<open>Databases\<close>

record Db =
  db_number :: int32
  key_value_map :: "KeyValue umap"
  aof_cache :: string

definition Db_fresh :: "int32 \<Rightarrow> Db" where
  "Db_fresh n = \<lparr>db_number = n, key_value_map = [], aof_cache = []\<rparr>"

definition Db_ctor :: "numbering \<Rightarrow> (Db \<times> numbering) result" where
  "Db_ctor nums =
     rbind (next_number (num_hash nums) (number_source nums)) (\<lambda>n.
       Inr (Db_fresh n, nums\<lparr>num_hash := (num_hash nums)(n := 1), number_source := n\<rparr>))"

definition Db_ctor_number :: "int32 \<Rightarrow> numbering \<Rightarrow> (Db \<times> numbering) result" where
  "Db_ctor_number number nums =
     rbind (next_number (num_hash nums) number) (\<lambda>n.
       Inr (Db_fresh n, nums\<lparr>num_hash := (num_hash nums)(n := 1)\<rparr>))"

text \<open>The destructor frees the number the counter stands at, whatever the database's own is.\<close>

definition Db_dtor :: "numbering \<Rightarrow> numbering" where
  "Db_dtor nums = nums\<lparr>num_hash := (num_hash nums)(number_source nums := 0)\<rparr>"

definition Db_Number :: "Db \<Rightarrow> int32" where
  "Db_Number db = db_number db"

text \<open>The five \<open>New\<close> operations insert an entry with a default object; they do not replace one.\<close>

definition Db_insert :: "Str \<Rightarrow> Object \<Rightarrow> Db \<Rightarrow> Db" where
  "Db_insert key ob db = db\<lparr>key_value_map := um_insert key (KeyValue_ctor key ob) (key_value_map db)\<rparr>"

definition Db_NewStr :: "Str \<Rightarrow> Db \<Rightarrow> Db" where
  "Db_NewStr key db = Db_insert key (Obj_Str Str_default) db"

definition Db_NewList :: "Str \<Rightarrow> Db \<Rightarrow> Db" where
  "Db_NewList key db = Db_insert key (Obj_List []) db"

definition Db_NewSet :: "Str \<Rightarrow> Db \<Rightarrow> Db" where
  "Db_NewSet key db = Db_insert key (Obj_Set []) db"

definition Db_NewZSet :: "Str \<Rightarrow> Db \<Rightarrow> Db" where
  "Db_NewZSet key db = Db_insert key (Obj_ZSet ZSet_empty) db"

definition Db_NewHash :: "Str \<Rightarrow> Db \<Rightarrow> Db" where
  "Db_NewHash key db = Db_insert key (Obj_Hash []) db"

definition Db_Del :: "Str \<Rightarrow> Db \<Rightarrow> nat \<times> Db" where
  "Db_Del key db =
     (length (key_value_map db) - length (um_erase key (key_value_map db)),
      db\<lparr>key_value_map := um_erase key (key_value_map db)\<rparr>)"

definition Db_Get :: "Str \<Rightarrow> Db \<Rightarrow> Object option" where
  "Db_Get key db = map_option KeyValue_GetValue (um_find key (key_value_map db))"

text \<open>A change of the object of an entry through a pointer to it.\<close>

definition Db_put :: "Str \<Rightarrow> Object \<Rightarrow> Db \<Rightarrow> Db" where
  "Db_put key ob db =
     (case um_find key (key_value_map db) of
        None \<Rightarrow> db
      | Some kv \<Rightarrow> db\<lparr>key_value_map := um_assign key (kv\<lparr>kv_value := ob\<rparr>) (key_value_map db)\<rparr>)"

definition Db_ExpireAt :: "nat \<Rightarrow> Str \<Rightarrow> size_t \<Rightarrow> Db \<Rightarrow> Timer option \<times> Db" where
  "Db_ExpireAt this key time_point_us db =
     (case um_find key (key_value_map db) of
        None \<Rightarrow> (None, db)
      | Some kv \<Rightarrow>
          (Some (DbExpireTimer time_point_us this (Str_GetRaw key)),
           db\<lparr>key_value_map := um_assign key (KeyValue_MakeExpireAt time_point_us kv) (key_value_map db)\<rparr>))"

text \<open>The difference of two \<open>std::size_t\<close> wraps.\<close>

definition Db_WhenExpire :: "size_t \<Rightarrow> Str \<Rightarrow> Db \<Rightarrow> string" where
  "Db_WhenExpire now_us key db =
     (case um_find key (key_value_map db) of
        None \<Rightarrow> ''(nil)''
      | Some kv \<Rightarrow>
          (case KeyValue_GetExpire kv of
             Some time_point \<Rightarrow> nat_to_string (unat ((time_point - now_us) div 990000))
           | None \<Rightarrow> ''never''))"

definition SELECT_DB :: char where
  "SELECT_DB = CHR ''s''"

definition Db_Save :: "env \<Rightarrow> Db \<Rightarrow> string result" where
  "Db_Save cf db =
     (if key_value_map db = [] then Inr []
      else
        rbind (encode_seq (\<lambda>(k, kv). KeyValue_Encode cf kv) (key_value_map db)) (\<lambda>body.
          Inr ([SELECT_DB] @ BitsToString (db_number db) @ body)))"

text \<open>The body of the loop of \<open>Load\<close>: the timers go to the queue of the server.\<close>

definition Db_LoadEntry :: "nat \<Rightarrow> KeyValue \<Rightarrow> KeyValue umap \<times> Timer list \<Rightarrow> KeyValue umap \<times> Timer list" where
  "Db_LoadEntry this kv = (\<lambda>(m, tmrs).
     (um_insert (KeyValue_GetKey kv) kv m,
      case KeyValue_GetExpire kv of
        None \<Rightarrow> tmrs
      | Some t \<Rightarrow> tmrs @ [DbExpireTimer t this (Str_GetRaw (KeyValue_GetKey kv))]))"

definition Db_Load :: "env \<Rightarrow> nat \<Rightarrow> Db \<Rightarrow> (Db \<times> Timer list) decoder" where
  "Db_Load cf this db source =
     (case source of
        [] \<Rightarrow> Inl Undefined
      | s # source1 \<Rightarrow>
          if s \<noteq> SELECT_DB then Inl (Runtime_Error ''Err loading db'')
          else
            rbind (PeekInt source1) (\<lambda>(number, source2).
              rbind (decode_seq (KeyValue_Decode cf) (Db_LoadEntry this) (key_value_map db, []) source2)
                (\<lambda>((m, tmrs), source3).
                   Inr ((db\<lparr>db_number := number, key_value_map := m\<rparr>, tmrs), source3))))"

text \<open>The select command in front of the forked or exported commands carries the password.\<close>

definition select_request :: "string \<Rightarrow> int32 \<Rightarrow> json_array" where
  "select_request password number =
     RawCommandToRequest (''SELECT '' @ to_string number @ '' '' @ password)"

definition Db_Fork :: "env \<Rightarrow> string \<Rightarrow> Db \<Rightarrow> string list" where
  "Db_Fork cf password db =
     dump (printf_double cf) (JArray (select_request password (db_number db))) #
     map (\<lambda>(k, kv). dump (printf_double cf) (JArray (RawCommandToRequest (KeyValue_Fork kv))))
       (key_value_map db)"

definition Db_AppendAOF :: "env \<Rightarrow> json_array \<Rightarrow> Db \<Rightarrow> Db" where
  "Db_AppendAOF cf request db =
     db\<lparr>aof_cache := aof_cache db @ dump (printf_double cf) (JArray request)\<rparr>"

definition Db_ExportAOF :: "env \<Rightarrow> string \<Rightarrow> Db \<Rightarrow> string \<times> Db" where
  "Db_ExportAOF cf password db =
     (if aof_cache db = [] then ([], db)
      else
        (dump (printf_double cf) (JArray (select_request password (db_number db))) @ aof_cache db,
         db\<lparr>aof_cache := []\<rparr>))"

section \<open>Numbers are given out once\<close>

lemma next_number_least:
  "next_number hash n = Inr m \<Longrightarrow>
     hash m = 0 \<and> sint n \<le> sint m \<and> (\<forall>k. sint n \<le> sint k \<and> sint k < sint m \<longrightarrow> hash k \<noteq> 0)"
proof (induction hash n rule: next_number.induct)
  case (1 hash n)
  show ?case
  proof (cases "hash n = 0")
    case True
    then show ?thesis using 1(2) by (auto simp: next_number.simps [of hash n])
  next
    case False
    then obtain n' where n': "int_add n 1 = Inr n'" "next_number hash n' = Inr m"
      using 1(2) by (auto simp: next_number.simps [of hash n] split: sum.splits)
    have s: "sint n' = sint n + 1" using int_add_sint [OF n'(1)] by simp
    have IH: "hash m = 0" "sint n' \<le> sint m" "\<And>k. sint n' \<le> sint k \<Longrightarrow> sint k < sint m \<Longrightarrow> hash k \<noteq> 0"
      using 1(1) [OF False n'(1) n'(2)] by simp_all
    have "hash k \<noteq> 0" if "sint n \<le> sint k" "sint k < sint m" for k
    proof (cases "sint k = sint n")
      case True
      then have "k = n" by (rule signed_word_eqI)
      then show ?thesis using False by simp
    next
      case False
      then show ?thesis using IH(3) [of k] that s by simp
    qed
    with IH s show ?thesis by simp
  qed
qed

lemma next_number_returns:
  "hash m = 0 \<Longrightarrow> sint n \<le> sint m \<Longrightarrow> \<exists>k. next_number hash n = Inr k \<and> sint k \<le> sint m"
proof (induction hash n rule: next_number.induct)
  case (1 hash n)
  show ?case
  proof (cases "hash n = 0")
    case True
    then show ?thesis using 1(3) by (simp add: next_number.simps [of hash n])
  next
    case False
    have "sint n \<noteq> sint m" using False 1(2) signed_word_eqI by blast
    then have "sint n < sint m" using 1(3) by simp
    then obtain n' where n': "int_add n 1 = Inr n'"
      using fits_int_sint [of n] fits_int_sint [of m] by (auto simp: int_add_def fits_int_def)
    have "sint n' \<le> sint m" using int_add_sint [OF n'] \<open>sint n < sint m\<close> by simp
    with 1(1) [OF False n' 1(2)] False n' show ?thesis
      by (simp add: next_number.simps [of hash n])
  qed
qed

text \<open>The databases that are alive have different numbers and all of them are registered.\<close>

definition numbers_ok :: "numbering \<Rightarrow> Db list \<Rightarrow> bool" where
  "numbers_ok nums dbs \<longleftrightarrow>
     distinct (map db_number dbs) \<and> (\<forall>db \<in> set dbs. num_hash nums (db_number db) \<noteq> 0)"

lemma numbers_ok_ctor:
  assumes "numbers_ok nums dbs" and "Db_ctor nums = Inr (db, nums')"
  shows "numbers_ok nums' (dbs @ [db]) \<and> key_value_map db = []"
proof -
  obtain n where n: "next_number (num_hash nums) (number_source nums) = Inr n" "db = Db_fresh n"
      "num_hash nums' = (num_hash nums)(n := 1)"
    using assms(2) by (auto simp: Db_ctor_def rbind_eq_Inr_iff)
  then have "num_hash nums n = 0" using next_number_least by blast
  with n assms(1) show ?thesis by (auto simp: numbers_ok_def Db_fresh_def)
qed

lemma numbers_ok_ctor_number:
  assumes "numbers_ok nums dbs" and "Db_ctor_number k nums = Inr (db, nums')"
  shows "numbers_ok nums' (dbs @ [db]) \<and> key_value_map db = []"
proof -
  obtain n where n: "next_number (num_hash nums) k = Inr n" "db = Db_fresh n"
      "num_hash nums' = (num_hash nums)(n := 1)"
    using assms(2) by (auto simp: Db_ctor_number_def rbind_eq_Inr_iff)
  then have "num_hash nums n = 0" using next_number_least by blast
  with n assms(1) show ?thesis by (auto simp: numbers_ok_def Db_fresh_def)
qed

section \<open>A database is a finite map\<close>

definition db_abs :: "Db \<Rightarrow> (string \<rightharpoonup> Object \<times> size_t option)" where
  "db_abs db = (\<lambda>d. map_option (\<lambda>kv. (kv_value kv, kv_expire kv)) (um_find (Str_ctor d) (key_value_map db)))"

definition Db_wf :: "Db \<Rightarrow> bool" where
  "Db_wf db \<longleftrightarrow>
     um_wf (key_value_map db) \<and>
     list_all (\<lambda>(k, kv). kv_key kv = k \<and> Object_wf (kv_value kv)) (key_value_map db)"

lemma Db_wf_fresh [simp]: "Db_wf (Db_fresh n)"
  by (simp add: Db_wf_def Db_fresh_def)

lemma db_abs_fresh [simp]: "db_abs (Db_fresh n) = Map.empty"
  by (simp add: db_abs_def Db_fresh_def fun_eq_iff)

lemma str_data_ctor [simp]: "str_data (Str_ctor d) = d"
  by (simp add: Str_ctor_def)

lemma um_find_ident: "str_data k = str_data k' \<Longrightarrow> um_find k m = um_find k' m"
  by (simp add: um_find_map_of)

lemma um_find_abs: "map_option (\<lambda>kv. (kv_value kv, kv_expire kv)) (um_find k (key_value_map db)) = db_abs db (str_data k)"
  by (simp add: db_abs_def um_find_ident [of "Str_ctor (str_data k)" k])

lemma db_abs_Some:
  "um_find key (key_value_map db) = Some kv \<Longrightarrow> db_abs db (str_data key) = Some (kv_value kv, kv_expire kv)"
  by (simp flip: um_find_abs)

lemma db_abs_None: "um_find key (key_value_map db) = None \<Longrightarrow> db_abs db (str_data key) = None"
  by (simp flip: um_find_abs)

lemma db_abs_dom: "str_data key \<in> dom (db_abs db) \<longleftrightarrow> um_find key (key_value_map db) \<noteq> None"
  by (simp add: dom_def flip: um_find_abs)

lemma Db_Get_abs: "Db_Get key db = map_option fst (db_abs db (str_data key))"
  unfolding um_find_abs [symmetric] 
  by (cases "um_find key (key_value_map db)") (simp_all add: Db_Get_def KeyValue_GetValue_def)

lemma Db_insert_abs:
  "Db_wf db \<Longrightarrow> db_abs (Db_insert key ob db) =
     (if str_data key \<in> dom (db_abs db) then db_abs db else (db_abs db)(str_data key \<mapsto> (ob, None)))"
proof -
  assume "Db_wf db"
  then have wf: "um_wf (key_value_map db)" by (simp add: Db_wf_def)
  show ?thesis
    unfolding db_abs_dom
    by (auto simp: db_abs_def Db_insert_def um.find_insert [OF wf] KeyValue_ctor_def  fun_eq_iff)
qed

lemma Db_Del_abs:
  "Db_wf db \<Longrightarrow> db_abs (snd (Db_Del key db)) = (db_abs db)(str_data key := None) \<and>
     fst (Db_Del key db) = (if str_data key \<in> dom (db_abs db) then 1 else 0)"
proof
  assume "Db_wf db"
  then have wf: "um_wf (key_value_map db)" by (simp add: Db_wf_def)
  show "db_abs (snd (Db_Del key db)) = (db_abs db)(str_data key := None)"
    by (auto simp: db_abs_def Db_Del_def um.find_erase [OF wf]  fun_eq_iff)
  have "length (key_value_map db) > 0" if "um_find key (key_value_map db) \<noteq> None"
    using that by (cases "key_value_map db") auto
  then show "fst (Db_Del key db) = (if str_data key \<in> dom (db_abs db) then 1 else 0)"
    unfolding db_abs_dom by (auto simp: Db_Del_def um.length_erase [OF wf] Suc_le_eq)
qed

lemma Db_put_abs:
  "Db_wf db \<Longrightarrow> db_abs (Db_put key ob db) =
     (case db_abs db (str_data key) of
        None \<Rightarrow> db_abs db
      | Some (_, e) \<Rightarrow> (db_abs db)(str_data key \<mapsto> (ob, e)))"
proof -
  assume "Db_wf db"
  then have wf: "um_wf (key_value_map db)" by (simp add: Db_wf_def)
  show ?thesis
  proof (cases "um_find key (key_value_map db)")
    case None
    then show ?thesis by (simp add: Db_put_def db_abs_None)
  next
    case (Some kv)
    have "um_find key (key_value_map db) \<noteq> None" using Some by simp
    from um.find_assign [OF wf this] Some db_abs_Some [OF Some] show ?thesis
      by (auto simp: Db_put_def db_abs_def fun_eq_iff)
  qed
qed

lemma Db_ExpireAt_abs:
  "Db_wf db \<Longrightarrow> db_abs (snd (Db_ExpireAt this key t db)) =
     (case db_abs db (str_data key) of
        None \<Rightarrow> db_abs db
      | Some (ob, _) \<Rightarrow> (db_abs db)(str_data key \<mapsto> (ob, Some t))) \<and>
   fst (Db_ExpireAt this key t db) =
     (if str_data key \<in> dom (db_abs db) then Some (DbExpireTimer t this (str_data key)) else None)"
proof -
  assume "Db_wf db"
  then have wf: "um_wf (key_value_map db)" by (simp add: Db_wf_def)
  show ?thesis
  proof (cases "um_find key (key_value_map db)")
    case None
    then show ?thesis by (simp add: Db_ExpireAt_def db_abs_dom db_abs_None)
  next
    case (Some kv)
    have "um_find key (key_value_map db) \<noteq> None" using Some by simp
    from um.find_assign [OF wf this] Some db_abs_Some [OF Some] show ?thesis
      unfolding db_abs_dom
      by (auto simp: Db_ExpireAt_def db_abs_def fun_eq_iff KeyValue_MakeExpireAt_def Str_GetRaw_def)
  qed
qed

subsection \<open>Well-formedness is kept\<close>

lemma Db_wf_insert: "Db_wf db \<Longrightarrow> Object_wf ob \<Longrightarrow> Db_wf (Db_insert key ob db)"
  unfolding Db_wf_def Db_insert_def
  by (auto simp: um.wf_insert um.entries_insert_set list_all_iff KeyValue_ctor_def)

lemma Db_wf_New:
  assumes "Db_wf db"
  shows "Db_wf (Db_NewStr key db)" "Db_wf (Db_NewList key db)" "Db_wf (Db_NewSet key db)"
    "Db_wf (Db_NewZSet key db)" "Db_wf (Db_NewHash key db)"
  using assms
  by (simp_all add: Db_NewStr_def Db_NewList_def Db_NewSet_def Db_NewZSet_def Db_NewHash_def
      Db_wf_insert Str_wf_default)

lemma Db_wf_Del: "Db_wf db \<Longrightarrow> Db_wf (snd (Db_Del key db))"
  unfolding Db_wf_def Db_Del_def
  by (auto simp: um.wf_erase um.entries_erase_set list_all_iff)

lemma Db_wf_assign:
  assumes "Db_wf db" and "um_find key (key_value_map db) = Some kv"
    and "kv_key kv' = kv_key kv" and "Object_wf (kv_value kv')"
  shows "Db_wf (db\<lparr>key_value_map := um_assign key kv' (key_value_map db)\<rparr>)"
proof -
  from assms(1) have wf: "um_wf (key_value_map db)" by (simp add: Db_wf_def)
  then obtain k where k: "(k, kv) \<in> set (key_value_map db)" "str_data k = str_data key"
    using assms(2) um.find_Some_iff [OF wf, of key kv] by auto
  then have kv: "kv_key kv = k" using assms(1) by (auto simp: Db_wf_def list_all_iff)
  have "k' = k" if "(k', w) \<in> set (key_value_map db)" "str_data k' = str_data key" for k' w
    using distinct_map_eq [OF wf [unfolded um_wf_def] that(1) k(1)] that(2) k(2) by simp
  with assms wf kv show ?thesis
    by (auto simp: Db_wf_def um.wf_assign um.entries_assign_set list_all_iff split: if_splits)
qed

lemma Db_wf_put: "Db_wf db \<Longrightarrow> Object_wf ob \<Longrightarrow> Db_wf (Db_put key ob db)"
  by (auto simp: Db_put_def intro: Db_wf_assign split: option.split)

lemma Db_wf_value: "Db_wf db \<Longrightarrow> um_find key (key_value_map db) = Some kv \<Longrightarrow> Object_wf (kv_value kv)"
  using um.find_Some_iff [of "key_value_map db" key kv] by (auto simp: Db_wf_def list_all_iff)

lemma Db_wf_Get: "Db_wf db \<Longrightarrow> Db_Get key db = Some ob \<Longrightarrow> Object_wf ob"
  by (auto simp: Db_Get_def KeyValue_GetValue_def dest: Db_wf_value)

lemma Db_wf_ExpireAt: "Db_wf db \<Longrightarrow> Db_wf (snd (Db_ExpireAt this key t db))"
  by (auto simp: Db_ExpireAt_def KeyValue_MakeExpireAt_def Db_wf_value intro: Db_wf_assign
      split: option.split)

lemmas Db_wf_intros = Db_wf_insert Db_wf_New Db_wf_Del Db_wf_put Db_wf_ExpireAt

section \<open>Saving and loading\<close>

definition KeyValue_ok :: "KeyValue \<Rightarrow> bool" where
  "KeyValue_ok kv \<longleftrightarrow> Str_storable (kv_key kv) \<and> Object_storable (kv_value kv)"

definition KeyValue_reload :: "KeyValue \<Rightarrow> KeyValue" where
  "KeyValue_reload kv = kv\<lparr>kv_value := Object_reload (kv_value kv)\<rparr>"

lemma KeyValue_reload_sel [simp]:
  "kv_key (KeyValue_reload kv) = kv_key kv"
  "kv_expire (KeyValue_reload kv) = kv_expire kv"
  "kv_value (KeyValue_reload kv) = Object_reload (kv_value kv)"
  by (simp_all add: KeyValue_reload_def)

lemma KeyValue_body_roundtrip:
  assumes "KeyValue_ok kv"
  shows "\<exists>k v. Str_EncodeValue cf (kv_key kv) = Inr k \<and> Object_EncodeValue cf (kv_value kv) = Inr v \<and>
    (\<forall>rest. KeyValue_DecodeBody cf (kv_expire kv) (Object_GetObjectType (kv_value kv)) (k @ v @ rest) =
      Inr (KeyValue_reload kv, rest))"
proof -
  obtain k where k: "Str_EncodeValue cf (kv_key kv) = Inr k"
      "\<And>rest. Str_DecodeValue cf (k @ rest) = Inr (kv_key kv, rest)"
    using Str_roundtrip [of "kv_key kv" cf] assms by (auto simp: KeyValue_ok_def)
  obtain v where v: "Object_EncodeValue cf (kv_value kv) = Inr v"
      "\<And>rest. Object_DecodeValue cf (Object_GetObjectType (kv_value kv)) (v @ rest) =
        Inr (Object_reload (kv_value kv), rest)"
    using Object_roundtrip [of "kv_value kv" cf] assms by (auto simp: KeyValue_ok_def)
  have "KeyValue_DecodeBody cf (kv_expire kv) (Object_GetObjectType (kv_value kv)) (k @ v @ rest) =
      Inr (KeyValue_reload kv, rest)" for rest
    by (simp add: KeyValue_DecodeBody_def k v KeyValue_reload_def)
  with k(1) v(1) show ?thesis by blast
qed

lemma PopObjectType_code:
  assumes "ObjectTypeToChar t = Inr c"
  shows "PopObjectType (c # rest) = Inr (t, rest)"
  using assms by (cases t) (auto simp: PopObjectType_def CharToObjectType_def)

lemma KeyValue_roundtrip:
  assumes "KeyValue_ok kv"
  shows "\<exists>bs. KeyValue_Encode cf kv = Inr bs \<and>
    (\<forall>rest. KeyValue_Decode cf (bs @ rest) = Inr (KeyValue_reload kv, rest))"
proof -
  let ?t = "Object_GetObjectType (kv_value kv)"
  obtain k v where kv: "Str_EncodeValue cf (kv_key kv) = Inr k" "Object_EncodeValue cf (kv_value kv) = Inr v"
      "\<And>rest. KeyValue_DecodeBody cf (kv_expire kv) ?t (k @ v @ rest) = Inr (KeyValue_reload kv, rest)"
    using KeyValue_body_roundtrip [OF assms] by blast
  have t: "?t \<noteq> ObjectType_EXPIRE_ENTRY" "\<exists>c. ObjectTypeToChar ?t = Inr c"
    using Object_GetObjectType_cases [of "kv_value kv"] by auto
  then obtain c where c: "ObjectTypeToChar ?t = Inr c" by blast
  obtain x where x: "ObjectTypeToChar ObjectType_EXPIRE_ENTRY = Inr x" by simp
  show ?thesis
    using kv t(1) c x PopObjectType_code [OF c] PopObjectType_code [OF x]
    by (cases "kv_expire kv")
      (simp_all add: KeyValue_Encode_def KeyValue_InternalPrefixEncode_def KeyValue_Decode_def
        del: ObjectTypeToChar.simps)
qed

interpretation kv_codec: codec_norm "KeyValue_Encode cf" "KeyValue_Decode cf" KeyValue_ok
  KeyValue_reload for cf
  by unfold_locales (rule KeyValue_roundtrip)

text \<open>What \<open>Load\<close> makes of a list of entries: a map and the timers of those that expire.\<close>

definition entry_timers :: "nat \<Rightarrow> KeyValue list \<Rightarrow> Timer list" where
  "entry_timers this kvs =
     concat (map (\<lambda>kv. case kv_expire kv of None \<Rightarrow> [] | Some t \<Rightarrow> [DbExpireTimer t this (str_data (kv_key kv))]) kvs)"

lemma fold_Db_LoadEntry:
  "fold (Db_LoadEntry this) kvs (m, tmrs) =
     (fold (\<lambda>(k, kv). um_insert k kv) (map (\<lambda>kv. (kv_key kv, kv)) kvs) m, tmrs @ entry_timers this kvs)"
  by (induction kvs arbitrary: m tmrs)
    (auto simp: Db_LoadEntry_def KeyValue_GetKey_def KeyValue_GetExpire_def entry_timers_def
      Str_GetRaw_def split: option.splits)

definition Db_storable :: "Db \<Rightarrow> bool" where
  "Db_storable db \<longleftrightarrow>
     list_all (\<lambda>(k, kv). KeyValue_ok kv) (key_value_map db) \<and> length (key_value_map db) < 2 ^ 64"

lemma encode_seq_map: "encode_seq (\<lambda>x. enc (f x)) xs = encode_seq enc (map f xs)"
proof -
  have "concat_results (\<lambda>x. enc (f x)) xs = concat_results enc (map f xs)"
    by (induction xs) simp_all
  then show ?thesis by (simp add: encode_seq_def)
qed

text \<open>The database a dump is read into: every entry with its object rebuilt.\<close>

definition Db_reload :: "Db \<Rightarrow> Db" where
  "Db_reload db =
     (Db_fresh (db_number db))
       \<lparr>key_value_map :=
          fold (\<lambda>(k, kv). um_insert k kv) (map (\<lambda>(k, kv). (k, KeyValue_reload kv)) (key_value_map db)) []\<rparr>"

lemma Db_roundtrip:
  assumes "Db_wf db" and "Db_storable db" and "key_value_map db \<noteq> []"
  shows "\<exists>bs. Db_Save cf db = Inr bs \<and>
    (\<forall>n this rest. Db_Load cf this (Db_fresh n) (bs @ rest) =
       Inr ((Db_reload db, entry_timers this (map snd (key_value_map db))), rest))"
proof -
  let ?kvs = "map snd (key_value_map db)"
  have ok: "list_all KeyValue_ok ?kvs" "length ?kvs < 2 ^ 64"
    using assms(2) by (auto simp: Db_storable_def list_all_iff)
  obtain body where enc: "encode_seq (KeyValue_Encode cf) ?kvs = Inr body"
    using kv_codec.seq_roundtrip [OF ok, of cf "Db_LoadEntry 0"] by blast
  have dec: "decode_seq (KeyValue_Decode cf) (Db_LoadEntry this) s (body @ rest) =
        Inr (fold (Db_LoadEntry this) (map KeyValue_reload ?kvs) s, rest)" for this s rest
    using kv_codec.seq_roundtrip [OF ok, of cf "Db_LoadEntry this"] enc by (cases s) auto
  have keys: "map (\<lambda>kv. (kv_key kv, kv)) (map KeyValue_reload ?kvs) =
      map (\<lambda>(k, kv). (k, KeyValue_reload kv)) (key_value_map db)"
    using assms(1) by (auto simp: Db_wf_def list_all_iff)
  have tmrs: "entry_timers this (map KeyValue_reload ?kvs) = entry_timers this ?kvs" for this
    by (simp add: entry_timers_def comp_def cong: option.case_cong)
  have loaded: "fold (Db_LoadEntry this) (map KeyValue_reload ?kvs) ([], []) =
      (key_value_map (Db_reload db), entry_timers this ?kvs)" for this
    unfolding fold_Db_LoadEntry keys tmrs by (simp add: Db_reload_def)
  have "Db_Save cf db = Inr ([SELECT_DB] @ BitsToString (db_number db) @ body)"
    using assms(3) enc encode_seq_map [of "KeyValue_Encode cf" snd "key_value_map db"]
    by (simp add: Db_Save_def case_prod_beta')
  moreover have "Db_Load cf this (Db_fresh n) (([SELECT_DB] @ BitsToString (db_number db) @ body) @ rest) =
      Inr ((Db_reload db, entry_timers this ?kvs), rest)" for n this rest
    by (simp add: Db_Load_def Db_fresh_def dec loaded del: map_map) (simp add: Db_reload_def Db_fresh_def)
  ultimately show ?thesis by blast
qed

text \<open>The reloaded database answers every query as the original does, up to the order of iteration.\<close>

lemma um_find_map_values: "um_find k (map (\<lambda>(k, v). (k, f v)) m) = map_option f (um_find k m)"
  by (induction k m rule: um_find.induct) auto

lemma um_wf_map_values: "um_wf (map (\<lambda>(k, v). (k, f v)) m) = um_wf m"
  by (simp add: um_wf_def comp_def case_prod_beta')

lemma Db_reload_entries:
  assumes "Db_wf db"
  shows "mset (key_value_map (Db_reload db)) =
    mset (map (\<lambda>(k, kv). (k, KeyValue_reload kv)) (key_value_map db))"
proof -
  have "distinct (map (str_data \<circ> fst) (map (\<lambda>(k, kv). (k, KeyValue_reload kv)) (key_value_map db)))"
    using assms um_wf_map_values [of KeyValue_reload "key_value_map db"]
    by (simp add: Db_wf_def um_wf_def)
  then show ?thesis
    using um.fold_insert_entries [of "map (\<lambda>(k, kv). (k, KeyValue_reload kv)) (key_value_map db)" "[]"]
    by (simp add: Db_reload_def)
qed

lemma Db_reload_wf: "Db_wf db \<Longrightarrow> Db_wf (Db_reload db)"
proof -
  assume wf: "Db_wf db"
  let ?m = "map (\<lambda>(k, kv). (k, KeyValue_reload kv)) (key_value_map db)"
  have eq: "mset (key_value_map (Db_reload db)) = mset ?m" using wf by (rule Db_reload_entries)
  have "um_wf ?m" using wf by (simp add: um_wf_map_values Db_wf_def)
  then have "um_wf (key_value_map (Db_reload db))" using um.wf_cong [OF eq] by simp
  moreover have "set (key_value_map (Db_reload db)) = set ?m" using eq by (rule mset_eq_setD)
  ultimately show ?thesis
    using wf by (auto simp: Db_wf_def list_all_iff Object_reload_wf)
qed

lemma Db_reload_abs:
  assumes "Db_wf db"
  shows "db_abs (Db_reload db) d = map_option (\<lambda>(ob, e). (Object_reload ob, e)) (db_abs db d)"
proof -
  let ?m = "map (\<lambda>(k, kv). (k, KeyValue_reload kv)) (key_value_map db)"
  have "um_wf (key_value_map (Db_reload db))" using Db_reload_wf [OF assms] by (simp add: Db_wf_def)
  then have "um_find (Str_ctor d) (key_value_map (Db_reload db)) = um_find (Str_ctor d) ?m"
    using Db_reload_entries [OF assms] um.find_cong by blast
  also have "\<dots> = map_option KeyValue_reload (um_find (Str_ctor d) (key_value_map db))"
    by (rule um_find_map_values)
  finally show ?thesis
    by (cases "um_find (Str_ctor d) (key_value_map db)") (simp_all add: db_abs_def)
qed

text \<open>Equal contents: the same keys, each with an equal object and the same expiry.\<close>

definition Db_equiv :: "Db \<Rightarrow> Db \<Rightarrow> bool" where
  "Db_equiv db db' \<longleftrightarrow>
     db_number db' = db_number db \<and>
     (\<forall>d. rel_option (\<lambda>(ob, e) (ob', e'). Object_equiv ob ob' \<and> e = e') (db_abs db d) (db_abs db' d))"

lemma db_abs_wf: "Db_wf db \<Longrightarrow> db_abs db d = Some (ob, e) \<Longrightarrow> Object_wf ob"
  by (auto simp: db_abs_def intro: Db_wf_value)

lemma Db_reload_equiv: "Db_wf db \<Longrightarrow> Db_equiv db (Db_reload db)"
  by (auto simp: Db_equiv_def Db_reload_abs Object_reload_equiv db_abs_wf option_rel_Some1
      option.rel_map intro!: option.rel_refl_strong)
    (simp add: Db_reload_def Db_fresh_def)

text \<open>Every expiry of the reloaded database has its timer.\<close>

lemma entry_timers_armed:
  assumes "Db_wf db" and "db_abs (Db_reload db) d = Some (ob, Some t)"
  shows "DbExpireTimer t this d \<in> set (entry_timers this (map snd (key_value_map db)))"
proof -
  obtain ob' where "db_abs db d = Some (ob', Some t)"
    using assms by (auto simp: Db_reload_abs)
  then obtain kv where kv: "um_find (Str_ctor d) (key_value_map db) = Some kv" "kv_expire kv = Some t"
    by (auto simp: db_abs_def)
  then obtain k where k: "(k, kv) \<in> set (key_value_map db)" "str_data k = d"
    using um.find_Some_iff [of "key_value_map db" "Str_ctor d" kv] assms(1) by (auto simp: Db_wf_def)
  then have "kv_key kv = k" using assms(1) by (auto simp: Db_wf_def list_all_iff)
  with k kv(2) show ?thesis by (force simp: entry_timers_def)
qed

subsection \<open>Loading consumes its input\<close>

lemma consuming_decode_as: "consuming dec \<Longrightarrow> consuming (decode_as mk dec)"
  unfolding decode_as_def by (intro consuming_bind consuming_return)

lemma consuming_Object_DecodeValue: "consuming (Object_DecodeValue cf otyp)"
proof -
  have fail: "consuming (\<lambda>source. Inl e)" for e by (simp add: consuming_def)
  have eta: "Object_DecodeValue cf otyp =
      (case otyp of
         ObjectType_STR \<Rightarrow> decode_as Obj_Str (Str_DecodeValue cf)
       | ObjectType_LIST \<Rightarrow> decode_as Obj_List (List_DecodeValue cf [])
       | ObjectType_HASH \<Rightarrow> decode_as Obj_Hash (Hash_DecodeValue cf [])
       | ObjectType_SET \<Rightarrow> decode_as Obj_Set (Set_DecodeValue cf [])
       | ObjectType_ZSET \<Rightarrow> decode_as Obj_ZSet (ZSet_DecodeValue cf ZSet_empty)
       | _ \<Rightarrow> (\<lambda>source. Inl Assertion))"
    by (cases otyp) (simp_all add: fun_eq_iff)
  note dec = consuming_Str_DecodeValue [of cf]
  have "consuming (List_DecodeValue cf [])" "consuming (Set_DecodeValue cf [])"
      "consuming (Hash_DecodeValue cf [])" "consuming (ZSet_DecodeValue cf ZSet_empty)"
    unfolding List_DecodeValue_def Set_DecodeValue_def Hash_DecodeValue_def ZSet_DecodeValue_def
    by (intro consuming_seq consuming_pair consuming_Peek dec)+
  with dec fail show ?thesis
    unfolding eta by (cases otyp) (simp_all add: consuming_decode_as)
qed

lemma consuming_PopObjectType: "consuming PopObjectType"
  by (auto simp: consuming_def PopObjectType_def rbind_eq_Inr_iff split: list.splits)

lemma consuming_KeyValue_Decode: "consuming (KeyValue_Decode cf)"
proof -
  have body: "consuming (KeyValue_DecodeBody cf e otyp)" for e otyp
    unfolding KeyValue_DecodeBody_def
    by (intro consuming_bind consuming_return consuming_Str_DecodeValue consuming_Object_DecodeValue)
  have "consuming (\<lambda>source1. if otyp = ObjectType_EXPIRE_ENTRY then
         rbind (PeekSize source1) (\<lambda>(t, source2).
           rbind (PopObjectType source2) (\<lambda>(otyp', source3).
             KeyValue_DecodeBody cf (Some t) otyp' source3))
       else KeyValue_DecodeBody cf None otyp source1)" for otyp
    by (cases "otyp = ObjectType_EXPIRE_ENTRY")
      (simp_all add: consuming_bind consuming_Peek consuming_PopObjectType body)
  then show ?thesis
    unfolding KeyValue_Decode_def by (intro consuming_bind consuming_PopObjectType)
qed

lemma Db_Load_length:
  assumes "Db_Load cf this db source = Inr (x, rest)"
  shows "length rest < length source"
proof -
  obtain source1 where source: "source = SELECT_DB # source1"
    using assms by (auto simp: Db_Load_def split: list.splits if_splits)
  obtain number source2 m tmrs where load: "PeekInt source1 = Inr (number, source2)"
      "decode_seq (KeyValue_Decode cf) (Db_LoadEntry this) (key_value_map db, []) source2 = Inr ((m, tmrs), rest)"
    using assms by (auto simp: Db_Load_def source rbind_eq_Inr_iff)
  from consumingD [OF consuming_Peek(1) load(1)]
    consumingD [OF consuming_seq [OF consuming_KeyValue_Decode] load(2)]
  show ?thesis by (simp add: source)
qed

end
