(* ===== verification/Persistence.thy ===== *)
theory Persistence
  imports Db
begin

text \<open>
  Files and dumps: the class \<open>FileManager\<close> of \<open>src/database/disk.cc\<close>, \<open>RDBLoad\<close> and \<open>RDBSave\<close> of
  \<open>src/database/rdb.cc\<close> and \<open>AOFSave\<close> of \<open>src/database/aof.cc\<close>.

  The file system is a partial map from names to contents; a file manager is the name it holds.  An
  operation on a missing file throws \<open>std::filesystem::filesystem_error\<close>.
\<close>

section \<open>Files\<close>

type_synonym fs = "string \<Rightarrow> string option"

definition filesystem_error :: error where
  "filesystem_error = Runtime_Error ''filesystem_error''"

definition FileManager_ctor :: "string \<Rightarrow> fs \<Rightarrow> fs" where
  "FileManager_ctor filename files = (if files filename = None then files(filename \<mapsto> []) else files)"

definition FileManager_Truncate :: "string \<Rightarrow> fs \<Rightarrow> fs result" where
  "FileManager_Truncate filename files =
     (case files filename of None \<Rightarrow> Inl filesystem_error | Some _ \<Rightarrow> Inr (files(filename \<mapsto> [])))"

definition FileManager_LoadAndExport :: "string \<Rightarrow> fs \<Rightarrow> string result" where
  "FileManager_LoadAndExport filename files =
     (case files filename of None \<Rightarrow> Inl filesystem_error | Some bytes \<Rightarrow> Inr bytes)"

text \<open>Opening with \<open>std::ios::app\<close> creates a missing file.\<close>

definition FileManager_Write :: "string \<Rightarrow> string \<Rightarrow> fs \<Rightarrow> fs" where
  "FileManager_Write filename bytes files =
     files(filename \<mapsto> (case files filename of None \<Rightarrow> [] | Some old \<Rightarrow> old) @ bytes)"

definition FileManager_Size :: "string \<Rightarrow> fs \<Rightarrow> nat result" where
  "FileManager_Size filename files =
     (case files filename of None \<Rightarrow> Inl filesystem_error | Some bytes \<Rightarrow> Inr (length bytes))"

text \<open>\<open>Change\<close> returns the new name.\<close>

definition FileManager_Change :: "string \<Rightarrow> fs \<Rightarrow> string \<times> fs" where
  "FileManager_Change filename files = (filename, FileManager_ctor filename files)"

section \<open>Dumps\<close>

definition RDBSave :: "string list \<Rightarrow> string \<Rightarrow> fs \<Rightarrow> fs result" where
  "RDBSave database_sources dump_file files =
     rbind (FileManager_Truncate dump_file files) (\<lambda>files1.
       Inr (fold (FileManager_Write dump_file) database_sources (FileManager_Write dump_file ''RDB'' files1)))"

definition AOFSave :: "string list \<Rightarrow> string \<Rightarrow> fs \<Rightarrow> fs" where
  "AOFSave database_sources dump_file files = fold (FileManager_Write dump_file) database_sources files"

text \<open>
  \<open>while (!source->empty())\<close>: each round makes a database with the next number and the next handle
  and loads it.  The result is the databases with their handles, the timers, the numbering.
\<close>

function RDBLoad_loop ::
    "env \<Rightarrow> numbering \<Rightarrow> nat \<Rightarrow> string \<Rightarrow> ((nat \<times> Db) list \<times> Timer list \<times> numbering) result" where
  "RDBLoad_loop cf nums this source =
     (if source = [] then Inr ([], [], nums)
      else
        (case Db_ctor nums of
           Inl e \<Rightarrow> Inl e
         | Inr (db, nums') \<Rightarrow>
             (case Db_Load cf this db source of
                Inl e \<Rightarrow> Inl e
              | Inr ((db', tmrs), source') \<Rightarrow>
                  rbind (RDBLoad_loop cf nums' (Suc this) source') (\<lambda>(dbs, tmrs', nums'').
                    Inr ((this, db') # dbs, tmrs @ tmrs', nums'')))))"
  by pat_completeness auto
termination
  by (relation "measure (\<lambda>(cf, nums, this, source). length source)") (auto dest: Db_Load_length)

declare RDBLoad_loop.simps [simp del]

definition RDBLoad ::
    "env \<Rightarrow> numbering \<Rightarrow> nat \<Rightarrow> string \<Rightarrow> ((nat \<times> Db) list \<times> Timer list \<times> numbering) result" where
  "RDBLoad cf nums this source =
     rbind (PeekString 3 source) (\<lambda>(rdb_str, source').
       if rdb_str \<noteq> ''RDB'' then Inr ([], [], nums)
       else RDBLoad_loop cf nums this source')"

section \<open>Writing and reading a file\<close>

lemma FileManager_Write_Some:
  "files f = Some c \<Longrightarrow> FileManager_Write f bytes files = files(f \<mapsto> c @ bytes)"
  by (simp add: FileManager_Write_def)

lemma fold_FileManager_Write:
  "files f = Some c \<Longrightarrow> fold (FileManager_Write f) bs files = files(f \<mapsto> c @ concat bs)"
  by (induction bs arbitrary: files c) (auto simp: FileManager_Write_Some fun_upd_idem)

lemma RDBSave_contents:
  "files f \<noteq> None \<Longrightarrow> RDBSave sources f files = Inr (files(f \<mapsto> ''RDB'' @ concat sources))"
  by (auto simp: RDBSave_def FileManager_Truncate_def FileManager_Write_Some fold_FileManager_Write)

lemma AOFSave_contents:
  "files f = Some c \<Longrightarrow> AOFSave sources f files = files(f \<mapsto> c @ concat sources)"
  by (simp add: AOFSave_def fold_FileManager_Write)

section \<open>A saved server comes back\<close>

text \<open>The numbering after \<open>k\<close> databases have been made and none destroyed.\<close>

definition numbering_after :: "nat \<Rightarrow> numbering" where
  "numbering_after k =
     \<lparr>num_hash = (\<lambda>n. if 0 \<le> sint n \<and> sint n < int k then 1 else 0),
      number_source = word_of_nat (k - 1)\<rparr>"

lemma numbering_after_0: "numbering_after 0 = numbering_init"
  by (auto simp: numbering_after_def numbering_init_def fun_eq_iff)

lemma sint_word_of_nat: "k < 2 ^ 31 \<Longrightarrow> sint (word_of_nat k :: int32) = int k"
  using sint_of_int [of "int k"] by (simp add: fits_int_def)

lemma Db_ctor_after:
  assumes "k < 2 ^ 31"
  shows "Db_ctor (numbering_after k) = Inr (Db_fresh (word_of_nat k), numbering_after (Suc k))"
proof -
  let ?h = "num_hash (numbering_after k)"
  have "?h (word_of_nat k) = 0" using assms by (simp add: numbering_after_def sint_word_of_nat)
  moreover have "sint (number_source (numbering_after k)) \<le> sint (word_of_nat k :: int32)"
    using assms by (simp add: numbering_after_def sint_word_of_nat)
  ultimately obtain m where m: "next_number ?h (number_source (numbering_after k)) = Inr m"
      "sint m \<le> int k"
    using next_number_returns [of ?h "word_of_nat k"] assms by (auto simp: sint_word_of_nat)
  have "?h m = 0" "sint (number_source (numbering_after k)) \<le> sint m"
    using next_number_least [OF m(1)] by blast+
  then have "\<not> (0 \<le> sint m \<and> sint m < int k)" "int (k - 1) \<le> sint m"
    using assms by (auto simp: numbering_after_def sint_word_of_nat split: if_splits)
  with m(2) have "sint m = int k" by linarith
  then have mk: "m = word_of_nat k" using assms by (metis signed_word_eqI sint_word_of_nat)
  have "(num_hash (numbering_after k))(m := 1) = num_hash (numbering_after (Suc k))"
  proof
    fix n
    have "sint n = int k \<Longrightarrow> n = m" using \<open>sint m = int k\<close> by (metis signed_word_eqI)
    then show "((num_hash (numbering_after k))(m := 1)) n = num_hash (numbering_after (Suc k)) n"
      using \<open>sint m = int k\<close> by (cases "n = m") (auto simp: numbering_after_def)
  qed
  then show ?thesis by (simp add: Db_ctor_def m(1)) (simp add: mk numbering_after_def)
qed

definition saved :: "Db \<Rightarrow> bool" where
  "saved db \<longleftrightarrow> Db_wf db \<and> Db_storable db"

fun reloaded :: "nat \<Rightarrow> Db list \<Rightarrow> (nat \<times> Db) list" where
  "reloaded this [] = []"
| "reloaded this (db # dbs) =
     (if key_value_map db = [] then reloaded this dbs else (this, Db_reload db) # reloaded (Suc this) dbs)"

fun reloaded_timers :: "nat \<Rightarrow> Db list \<Rightarrow> Timer list" where
  "reloaded_timers this [] = []"
| "reloaded_timers this (db # dbs) =
     (if key_value_map db = [] then reloaded_timers this dbs
      else entry_timers this (map snd (key_value_map db)) @ reloaded_timers (Suc this) dbs)"

lemma RDBLoad_loop_saved:
  "list_all saved dbs \<Longrightarrow> k + length dbs < 2 ^ 31 \<Longrightarrow>
    \<exists>bss nums. map (Db_Save cf) dbs = map Inr bss \<and>
      RDBLoad_loop cf (numbering_after k) this (concat bss) =
        Inr (reloaded this dbs, reloaded_timers this dbs, nums)"
proof (induction dbs arbitrary: k this)
  case Nil
  show ?case by (simp add: RDBLoad_loop.simps)
next
  case (Cons db dbs)
  show ?case
  proof (cases "key_value_map db = []")
    case True
    obtain bss nums where "map (Db_Save cf) dbs = map Inr bss"
      "RDBLoad_loop cf (numbering_after k) this (concat bss) =
        Inr (reloaded this dbs, reloaded_timers this dbs, nums)"
      using Cons.IH [of k this] Cons.prems by auto
    moreover have "Db_Save cf db = Inr []" using True by (simp add: Db_Save_def)
    ultimately show ?thesis using True by (intro exI [of _ "[] # bss"] exI [of _ nums]) simp
  next
    case False
    obtain bss nums where IH: "map (Db_Save cf) dbs = map Inr bss"
      "RDBLoad_loop cf (numbering_after (Suc k)) (Suc this) (concat bss) =
        Inr (reloaded (Suc this) dbs, reloaded_timers (Suc this) dbs, nums)"
      using Cons.IH [of "Suc k" "Suc this"] Cons.prems by auto
    obtain bs where bs: "Db_Save cf db = Inr bs"
      "\<And>n this rest. Db_Load cf this (Db_fresh n) (bs @ rest) =
         Inr ((Db_reload db, entry_timers this (map snd (key_value_map db))), rest)"
      using Db_roundtrip [of db cf] False Cons.prems by (auto simp: saved_def)
    then have "bs \<noteq> []" using False by (auto simp: Db_Save_def rbind_eq_Inr_iff)
    moreover have "Db_ctor (numbering_after k) = Inr (Db_fresh (word_of_nat k), numbering_after (Suc k))"
      using Cons.prems by (intro Db_ctor_after) simp
    ultimately show ?thesis
      using False bs IH
      by (intro exI [of _ "bs # bss"] exI [of _ nums])
        (simp add: RDBLoad_loop.simps [of cf _ _ "bs @ concat bss"])
  qed
qed

lemma RDB_roundtrip:
  assumes "list_all saved dbs" and "length dbs < 2 ^ 31" and "files f \<noteq> None"
  shows "\<exists>bss files' source nums. map (Db_Save cf) dbs = map Inr bss \<and>
    RDBSave bss f files = Inr files' \<and> FileManager_LoadAndExport f files' = Inr source \<and>
    RDBLoad cf numbering_init this source = Inr (reloaded this dbs, reloaded_timers this dbs, nums)"
proof -
  obtain bss nums where b: "map (Db_Save cf) dbs = map Inr bss"
      "RDBLoad_loop cf (numbering_after 0) this (concat bss) =
        Inr (reloaded this dbs, reloaded_timers this dbs, nums)"
    using RDBLoad_loop_saved [OF assms(1), of 0 cf this] assms(2) by auto
  then show ?thesis
    using RDBSave_contents [of files f bss] assms(3)
    by (intro exI [of _ bss]) (simp add: FileManager_LoadAndExport_def RDBLoad_def PeekString_def
        numbering_after_0 numeral_3_eq_3)
qed

text \<open>The reloaded databases are those that were not empty, in order, each with its contents.\<close>

lemma reloaded_databases: "map snd (reloaded this dbs) = map Db_reload (filter (\<lambda>db. key_value_map db \<noteq> []) dbs)"
  by (induction dbs arbitrary: this) auto

lemma reloaded_handles: "map fst (reloaded this dbs) = [this ..< this + length (reloaded this dbs)]"
  by (induction dbs arbitrary: this) (auto simp: upt_conv_Cons simp del: upt_Suc)

lemma reloaded_numbers:
  "map (\<lambda>(h, db'). db_number db') (reloaded this dbs) = map db_number (filter (\<lambda>db. key_value_map db \<noteq> []) dbs)"
  by (induction dbs arbitrary: this) (auto simp: Db_reload_def Db_fresh_def)

lemma reloaded_equiv:
  "list_all Db_wf dbs \<Longrightarrow>
    list_all2 Db_equiv (filter (\<lambda>db. key_value_map db \<noteq> []) dbs) (map snd (reloaded this dbs))"
  by (induction dbs arbitrary: this) (auto simp: Db_reload_equiv)

lemma reloaded_timers_armed:
  "list_all Db_wf dbs \<Longrightarrow>
    list_all (\<lambda>(h, db'). \<forall>d ob t. db_abs db' d = Some (ob, Some t) \<longrightarrow>
      DbExpireTimer t h d \<in> set (reloaded_timers this dbs)) (reloaded this dbs)"
  by (induction dbs arbitrary: this) (auto simp: list_all_iff entry_timers_armed, fastforce)

end
