(* ===== verification/Commands.thy ===== *)
theory Commands
  imports Db
begin

text \<open>
  The \<open>Exec\<close> functions of the five object commands in \<open>src/server/command.cc\<close>: strings, lists,
  hashes, sets and sorted sets.  Each looks up the object of its key in the database of the client,
  makes a new one for the commands that may, checks its class, and runs the command on the object.

  A command takes the database and gives the reply and the new database.  \<open>{{" "}}\<close> in the source is
  an array of one string, \<open>values_[i]\<close> past the end of the vector is \<open>Bad_Index\<close>, and \<open>value()\<close> of an
  empty optional throws.  The object is a value here, written back when the command is done: nothing
  in the server catches an exception, so a half-executed command is never observed.
\<close>

section \<open>Replies and arguments\<close>

definition reply :: "string \<Rightarrow> json_array" where
  "reply s = [JString s]"

definition quoted :: "string \<Rightarrow> string" where
  "quoted s = CHR 0x22 # s @ [CHR 0x22]"

text \<open>\<open>if (ret.empty()) return {{"(nil)"}}; return ret;\<close>\<close>

definition nil_if_empty :: "json_array \<Rightarrow> json_array" where
  "nil_if_empty ret = (if ret = [] then reply ''(nil)'' else ret)"

definition vec_at :: "'a list \<Rightarrow> nat \<Rightarrow> 'a result" where
  "vec_at xs i = (if i < length xs then Inr (xs ! i) else Inl Bad_Index)"

definition opt_value :: "'a option \<Rightarrow> 'a result" where
  "opt_value x = (case x of None \<Rightarrow> Inl Bad_Optional_Access | Some v \<Rightarrow> Inr v)"

text \<open>\<open>RedisStrToInt(values_[i])\<close>\<close>

definition int_at :: "Str list \<Rightarrow> nat \<Rightarrow> int32 option result" where
  "int_at xs i = rbind (vec_at xs i) (\<lambda>v. RedisStrToInt (Str_GetRaw v))"

text \<open>The reply to an operation that returns the empty string on failure.\<close>

definition blank_if_empty :: "string \<Rightarrow> json_array" where
  "blank_if_empty ret = (if ret = [] then reply '' '' else reply ret)"

section \<open>Strings\<close>

definition StrCommand_run :: "StrCommand \<Rightarrow> Str \<Rightarrow> (json_array \<times> Str) result" where
  "StrCommand_run cmd str =
     (if command cmd = ''SET'' then
        rbind (opt_value (str_value cmd)) (\<lambda>v. Inr (reply ''OK'', Str_Set v str))
      else if command cmd = ''GET'' then
        (let ret = Str_GetRaw str in
         Inr (if ret = [] then reply ''(nil)'' else reply (quoted ret), str))
      else if command cmd = ''INCRBY'' then
        rbind (opt_value (str_value cmd)) (\<lambda>v. rbind (RedisStrToInt v) (\<lambda>intval.
          (case intval of
             None \<Rightarrow> Inr (reply '' '', str)
           | Some i \<Rightarrow> rbind (Str_IncrBy i str) (\<lambda>(ret, str'). Inr (blank_if_empty ret, str')))))
      else if command cmd = ''DECRBY'' then
        rbind (opt_value (str_value cmd)) (\<lambda>v. rbind (RedisStrToInt v) (\<lambda>intval.
          (case intval of
             None \<Rightarrow> Inr (reply '' '', str)
           | Some i \<Rightarrow> rbind (Str_DecrBy i str) (\<lambda>(ret, str'). Inr (blank_if_empty ret, str')))))
      else if command cmd = ''APPEND'' then
        rbind (opt_value (str_value cmd)) (\<lambda>v.
          rbind (Str_Append v str) (\<lambda>(size, str'). Inr (reply (nat_to_string size), str')))
      else if command cmd = ''LEN'' then Inr (reply (nat_to_string (Str_Len str)), str)
      else Inr (reply ''OK'', str))"

section \<open>Lists\<close>

definition pop_reply :: "Str \<Rightarrow> json_array" where
  "pop_reply str = (if Str_Empty str then reply ''(nil)'' else reply (quoted (Str_GetRaw str)))"

fun LINDEX_loop :: "List_obj \<Rightarrow> Str list \<Rightarrow> json_array result" where
  "LINDEX_loop l [] = Inr []"
| "LINDEX_loop l (v # vs) =
     rbind (RedisStrToInt (Str_GetRaw v)) (\<lambda>intval.
       (case intval of
          None \<Rightarrow> LINDEX_loop l vs
        | Some i \<Rightarrow>
            rbind (List_Index i l) (\<lambda>str.
              rbind (LINDEX_loop l vs) (\<lambda>ret.
                Inr (if Str_Empty str then ret else JString (quoted (Str_GetRaw str)) # ret)))))"

definition ListCommand_run :: "ListCommand \<Rightarrow> List_obj \<Rightarrow> (json_array \<times> List_obj) result" where
  "ListCommand_run cmd l =
     (let values = list_values cmd in
      if command cmd = ''LPUSHF'' then
        (let l' = fold (\<lambda>it l. snd (List_PushFront it l)) values l in
         Inr (reply (nat_to_string (List_Len l')), l'))
      else if command cmd = ''LPUSHB'' then
        (let l' = fold (\<lambda>it l. snd (List_PushBack it l)) values l in
         Inr (reply (nat_to_string (List_Len l')), l'))
      else if command cmd = ''LPOPF'' then
        (case List_PopFront l of (str, l') \<Rightarrow> Inr (pop_reply str, l'))
      else if command cmd = ''LPOPB'' then
        (case List_PopBack l of (str, l') \<Rightarrow> Inr (pop_reply str, l'))
      else if command cmd = ''LINDEX'' then
        rbind (LINDEX_loop l values) (\<lambda>ret. Inr (nil_if_empty ret, l))
      else if command cmd = ''LLEN'' then Inr (reply (nat_to_string (List_Len l)), l)
      else if command cmd = ''LREM'' then
        rbind (int_at values 0) (\<lambda>intval.
          (case intval of
             None \<Rightarrow> Inr (reply '' '', l)
           | Some i \<Rightarrow>
               rbind (vec_at values 1) (\<lambda>v.
                 rbind (List_Rem i v l) (\<lambda>(n, l'). Inr (reply (nat_to_string n), l')))))
      else if command cmd = ''LTRIM'' then
        rbind (int_at values 0) (\<lambda>intval1. rbind (int_at values 1) (\<lambda>intval2.
          (case (intval1, intval2) of
             (Some i1, Some i2) \<Rightarrow>
               rbind (List_Trim i1 i2 l) (\<lambda>(ret, l').
                 Inr (if \<not> ret then reply '' '' else reply ''OK'', l'))
           | _ \<Rightarrow> Inr (reply '' '', l))))
      else if command cmd = ''LSET'' then
        rbind (int_at values 0) (\<lambda>intval.
          (case intval of
             None \<Rightarrow> Inr (reply '' '', l)
           | Some i \<Rightarrow>
               rbind (vec_at values 1) (\<lambda>v.
                 rbind (List_Set i v l) (\<lambda>(ret, l').
                   Inr (if \<not> ret then reply '' '' else reply ''OK'', l')))))
      else Inr (reply ''OK'', l))"

section \<open>Hashes\<close>

text \<open>\<open>for (i = 0; i < values_.size(); i += 2) tbl->Set(values_[i], values_[i + 1]);\<close>\<close>

fun HSET_loop :: "Str list \<Rightarrow> Hash_obj \<Rightarrow> Hash_obj result" where
  "HSET_loop [] tbl = Inr tbl"
| "HSET_loop [k] tbl = Inl Bad_Index"
| "HSET_loop (k # v # vs) tbl = HSET_loop vs (Hash_Set k v tbl)"

definition HashCommand_run :: "HashCommand \<Rightarrow> Hash_obj \<Rightarrow> (json_array \<times> Hash_obj) result" where
  "HashCommand_run cmd tbl =
     (let values = hash_values cmd in
      if command cmd = ''HSET'' then
        rbind (HSET_loop values tbl) (\<lambda>tbl'. Inr (reply ''OK'', tbl'))
      else if command cmd = ''HGET'' then
        Inr (nil_if_empty
               (map (\<lambda>key. (let s = Str_GetRaw (Hash_Get key tbl) in
                  JString (quoted (if s = [] then ''(nil)'' else s)))) values), tbl)
      else if command cmd = ''HEXIST'' then
        Inr (map (\<lambda>key. JString (if Hash_Exist key tbl then ''1'' else ''0'')) values, tbl)
      else if command cmd = ''HDEL'' then Inr (reply ''OK'', fold Hash_Del values tbl)
      else if command cmd = ''HLEN'' then Inr (reply (nat_to_string (Hash_Len tbl)), tbl)
      else if command cmd = ''HGETALL'' then
        Inr (nil_if_empty
               (concat (map (\<lambda>(k, v). [JString (quoted (Str_GetRaw k)), JString (quoted (Str_GetRaw v))])
                  (Hash_GetAll tbl))), tbl)
      else if command cmd = ''HINCRBY'' then
        rbind (int_at values 1) (\<lambda>intval.
          (case intval of
             None \<Rightarrow> Inr (reply '' '', tbl)
           | Some i \<Rightarrow>
               rbind (vec_at values 0) (\<lambda>key.
                 rbind (Hash_IncrBy key i tbl) (\<lambda>(val, tbl'). Inr (blank_if_empty val, tbl')))))
      else if command cmd = ''HDECRBY'' then
        rbind (int_at values 1) (\<lambda>intval.
          (case intval of
             None \<Rightarrow> Inr (reply '' '', tbl)
           | Some i \<Rightarrow>
               rbind (vec_at values 0) (\<lambda>key.
                 rbind (Hash_DecrBy key i tbl) (\<lambda>(val, tbl'). Inr (blank_if_empty val, tbl')))))
      else Inr (reply ''OK'', tbl))"

section \<open>Sets\<close>

text \<open>The loops of \<open>SADD\<close> and \<open>SREM\<close>: \<open>cnt\<close> counts the calls that return true.\<close>

fun count_loop :: "('a \<Rightarrow> 's \<Rightarrow> (bool \<times> 's) result) \<Rightarrow> 'a list \<Rightarrow> int32 \<Rightarrow> 's \<Rightarrow> (int32 \<times> 's) result" where
  "count_loop f [] cnt s = Inr (cnt, s)"
| "count_loop f (x # xs) cnt s =
     rbind (f x s) (\<lambda>(ok, s').
       rbind (if ok then int_add cnt 1 else Inr cnt) (\<lambda>cnt'. count_loop f xs cnt' s'))"

text \<open>The second set of \<open>SINTER\<close> and \<open>SDIFF\<close>; it can be the object of the command itself.\<close>

definition another_set :: "SetCommand \<Rightarrow> Db \<Rightarrow> (bool \<times> Set_obj) option result" where
  "another_set cmd db =
     rbind (vec_at (set_values cmd) 0) (\<lambda>key.
       Inr (case Db_Get key db of
              Some (Obj_Set a_st) \<Rightarrow> Some (Str_eq key (Str_ctor (obj_name cmd)), a_st)
            | _ \<Rightarrow> None))"

definition SetCommand_run :: "nat \<Rightarrow> SetCommand \<Rightarrow> Db \<Rightarrow> Set_obj \<Rightarrow> (json_array \<times> Set_obj) result" where
  "SetCommand_run rnd cmd db st =
     (let values = set_values cmd in
      if command cmd = ''SADD'' then
        rbind (count_loop (\<lambda>element st. Inr (Set_Add element st)) values 0 st) (\<lambda>(cnt, st').
          Inr (reply (to_string cnt), st'))
      else if command cmd = ''SCARD'' then Inr (reply (nat_to_string (Set_Card st)), st)
      else if command cmd = ''SISMEMBER'' then
        Inr (nil_if_empty
               (map (\<lambda>element. JString (if Set_IsMember element st then ''1'' else ''0'')) values), st)
      else if command cmd = ''SMEMBERS'' then
        Inr (nil_if_empty (map (\<lambda>element. JString (quoted (Str_GetRaw element))) (Set_Members st)), st)
      else if command cmd = ''SRANDMEMBER'' then
        Inr (pop_reply (Set_RandMember rnd st), st)
      else if command cmd = ''SPOP'' then
        rbind (Set_Pop st) (\<lambda>(v, st'). Inr (pop_reply v, st'))
      else if command cmd = ''SREM'' then
        rbind (count_loop (\<lambda>element st. Inr (Set_Rem element st)) values 0 st) (\<lambda>(cnt, st').
          Inr (reply (to_string cnt), st'))
      else if command cmd = ''SINTER'' then
        rbind (another_set cmd db) (\<lambda>a.
          (case a of
             None \<Rightarrow> Inr (reply '' '', st)
           | Some (same, a_st) \<Rightarrow>
               Inr (nil_if_empty (map (JString \<circ> Str_GetRaw) (Set_Inter same st a_st)), st)))
      else if command cmd = ''SDIFF'' then
        rbind (another_set cmd db) (\<lambda>a.
          (case a of
             None \<Rightarrow> Inr (reply '' '', st)
           | Some (same, a_st) \<Rightarrow>
               Inr (nil_if_empty (map (JString \<circ> Str_GetRaw) (Set_Diff same st a_st)), st)))
      else Inr (reply ''OK'', st))"

section \<open>Sorted sets\<close>

text \<open>
  The loops of \<open>ZADD\<close> and \<open>ZREM\<close> over pairs of a score and a member: a pair whose score is not a
  number is skipped.
\<close>

fun score_loop ::
    "(int32 \<Rightarrow> Str \<Rightarrow> ZSet \<Rightarrow> (bool \<times> ZSet) result) \<Rightarrow> Str list \<Rightarrow> int32 \<Rightarrow> ZSet \<Rightarrow> (int32 \<times> ZSet) result" where
  "score_loop f [] cnt z = Inr (cnt, z)"
| "score_loop f (s # vs) cnt z =
     rbind (RedisStrToInt (Str_GetRaw s)) (\<lambda>intval.
       (case intval of
          None \<Rightarrow> score_loop f (tl vs) cnt z
        | Some i \<Rightarrow>
            rbind (vec_at vs 0) (\<lambda>m.
              rbind (f i m z) (\<lambda>(ok, z').
                rbind (if ok then int_add cnt 1 else Inr cnt) (\<lambda>cnt'. score_loop f (tl vs) cnt' z')))))"

definition rows_reply :: "(Str \<times> int32) list \<Rightarrow> json_array" where
  "rows_reply res =
     nil_if_empty (concat (map (\<lambda>(m, s). [JString (Str_GetRaw m), JString (to_string s)]) res))"

text \<open>\<open>ZDECRBY\<close> passes \<open>intval.has_value()\<close>, which is 1 there.\<close>

definition ZSetCommand_run :: "ZSetCommand \<Rightarrow> ZSet \<Rightarrow> (json_array \<times> ZSet) result" where
  "ZSetCommand_run cmd zst =
     (let values = zset_values cmd in
      if command cmd = ''ZADD'' then
        rbind (score_loop (\<lambda>score m z. Inr (ZSet_Add score m z)) values 0 zst) (\<lambda>(cnt, zst').
          Inr (reply (to_string cnt), zst'))
      else if command cmd = ''ZCARD'' then Inr (reply (nat_to_string (ZSet_Card zst)), zst)
      else if command cmd = ''ZREM'' then
        rbind (score_loop ZSet_Rem values 0 zst) (\<lambda>(cnt, zst'). Inr (reply (to_string cnt), zst'))
      else if command cmd = ''ZCOUNT'' then
        rbind (int_at values 0) (\<lambda>intval1. rbind (int_at values 1) (\<lambda>intval2.
          (case (intval1, intval2) of
             (Some i1, Some i2) \<Rightarrow> Inr (reply (nat_to_string (ZSet_Count i1 i2 zst)), zst)
           | _ \<Rightarrow> Inr (reply '' '', zst))))
      else if command cmd = ''ZLEXCOUNT'' then
        rbind (vec_at values 0) (\<lambda>m1. rbind (vec_at values 1) (\<lambda>m2.
          Inr (reply (nat_to_string (ZSet_LexCount m1 m2 zst)), zst)))
      else if command cmd = ''ZINCRBY'' then
        rbind (int_at values 0) (\<lambda>intval.
          (case intval of
             None \<Rightarrow> Inr (reply '' '', zst)
           | Some i \<Rightarrow>
               rbind (vec_at values 1) (\<lambda>m.
                 rbind (ZSet_IncrBy i m zst) (\<lambda>(val, zst'). Inr (blank_if_empty val, zst')))))
      else if command cmd = ''ZDECRBY'' then
        rbind (int_at values 0) (\<lambda>intval.
          (case intval of
             None \<Rightarrow> Inr (reply '' '', zst)
           | Some i \<Rightarrow>
               rbind (vec_at values 1) (\<lambda>m.
                 rbind (ZSet_DecrBy 1 m zst) (\<lambda>(val, zst'). Inr (blank_if_empty val, zst')))))
      else if command cmd = ''ZRANGE'' then
        rbind (int_at values 0) (\<lambda>intval1. rbind (int_at values 1) (\<lambda>intval2.
          (case (intval1, intval2) of
             (Some i1, Some i2) \<Rightarrow> rbind (ZSet_Range i1 i2 zst) (\<lambda>res. Inr (rows_reply res, zst))
           | _ \<Rightarrow> Inr (reply '' '', zst))))
      else if command cmd = ''ZRANGEBYSCORE'' then
        rbind (int_at values 0) (\<lambda>intval1. rbind (int_at values 1) (\<lambda>intval2.
          (case (intval1, intval2) of
             (Some i1, Some i2) \<Rightarrow> Inr (rows_reply (ZSet_RangeByScore i1 i2 zst), zst)
           | _ \<Rightarrow> Inr (reply '' '', zst))))
      else if command cmd = ''ZRANGEBYLEX'' then
        rbind (vec_at values 0) (\<lambda>m1. rbind (vec_at values 1) (\<lambda>m2.
          rbind (ZSet_RangeByLex m1 m2 zst) (\<lambda>res. Inr (rows_reply res, zst))))
      else if command cmd = ''ZRANK'' then
        rbind (vec_at values 0) (\<lambda>m. rbind (ZSet_Rank m zst) (\<lambda>rank.
          Inr (if rank = [] then reply ''(nil)'' else reply rank, zst)))
      else if command cmd = ''ZSCORE'' then
        rbind (vec_at values 0) (\<lambda>m. rbind (ZSet_Score m zst) (\<lambda>score.
          Inr (if score = [] then reply ''(nil)'' else reply score, zst)))
      else Inr (reply ''OK'', zst))"

section \<open>Looking up the object\<close>

text \<open>
  What the five \<open>Exec\<close> functions do before and after the command itself: \<open>new\<close> is the operation that
  makes an object of the class, which is then \<open>fresh\<close>; \<open>creating\<close> are the commands that use it.
\<close>

definition with_object ::
    "string set \<Rightarrow> (Str \<Rightarrow> Db \<Rightarrow> Db) \<Rightarrow> Object \<Rightarrow> (Db \<Rightarrow> Object \<Rightarrow> (json_array \<times> Object) result) \<Rightarrow>
     'a CommandBase_scheme \<Rightarrow> Db \<Rightarrow> (json_array \<times> Db) result" where
  "with_object creating new fresh run cmd db =
     (let key = Str_ctor (obj_name cmd);
          use = (\<lambda>ob db.
            if Object_GetObjectType ob \<noteq> Object_GetObjectType fresh then Inr (reply '' '', db)
            else rbind (run db ob) (\<lambda>(ret, ob'). Inr (ret, Db_put key ob' db)))
      in case Db_Get key db of
           Some ob \<Rightarrow> use ob db
         | None \<Rightarrow>
             if command cmd \<notin> creating then Inr (reply '' '', db) else use fresh (new key db))"

text \<open>\<open>reinterpret_cast\<close> to the class the tag announced.\<close>

fun on_Str :: "(Str \<Rightarrow> (json_array \<times> Str) result) \<Rightarrow> Object \<Rightarrow> (json_array \<times> Object) result" where
  "on_Str f (Obj_Str s) = rbind (f s) (\<lambda>(ret, s'). Inr (ret, Obj_Str s'))"
| "on_Str f _ = Inl Undefined"

fun on_List :: "(List_obj \<Rightarrow> (json_array \<times> List_obj) result) \<Rightarrow> Object \<Rightarrow> (json_array \<times> Object) result" where
  "on_List f (Obj_List l) = rbind (f l) (\<lambda>(ret, l'). Inr (ret, Obj_List l'))"
| "on_List f _ = Inl Undefined"

fun on_Hash :: "(Hash_obj \<Rightarrow> (json_array \<times> Hash_obj) result) \<Rightarrow> Object \<Rightarrow> (json_array \<times> Object) result" where
  "on_Hash f (Obj_Hash h) = rbind (f h) (\<lambda>(ret, h'). Inr (ret, Obj_Hash h'))"
| "on_Hash f _ = Inl Undefined"

fun on_Set :: "(Set_obj \<Rightarrow> (json_array \<times> Set_obj) result) \<Rightarrow> Object \<Rightarrow> (json_array \<times> Object) result" where
  "on_Set f (Obj_Set s) = rbind (f s) (\<lambda>(ret, s'). Inr (ret, Obj_Set s'))"
| "on_Set f _ = Inl Undefined"

fun on_ZSet :: "(ZSet \<Rightarrow> (json_array \<times> ZSet) result) \<Rightarrow> Object \<Rightarrow> (json_array \<times> Object) result" where
  "on_ZSet f (Obj_ZSet z) = rbind (f z) (\<lambda>(ret, z'). Inr (ret, Obj_ZSet z'))"
| "on_ZSet f _ = Inl Undefined"

definition StrCommand_Exec :: "StrCommand \<Rightarrow> Db \<Rightarrow> (json_array \<times> Db) result" where
  "StrCommand_Exec cmd db =
     with_object {''SET''} Db_NewStr (Obj_Str Str_default)
       (\<lambda>db. on_Str (StrCommand_run cmd)) cmd db"

definition ListCommand_Exec :: "ListCommand \<Rightarrow> Db \<Rightarrow> (json_array \<times> Db) result" where
  "ListCommand_Exec cmd db =
     with_object {''LPUSHF'', ''LPUSHB''} Db_NewList (Obj_List [])
       (\<lambda>db. on_List (ListCommand_run cmd)) cmd db"

definition HashCommand_Exec :: "HashCommand \<Rightarrow> Db \<Rightarrow> (json_array \<times> Db) result" where
  "HashCommand_Exec cmd db =
     with_object {''HSET''} Db_NewHash (Obj_Hash [])
       (\<lambda>db. on_Hash (HashCommand_run cmd)) cmd db"

definition SetCommand_Exec :: "nat \<Rightarrow> SetCommand \<Rightarrow> Db \<Rightarrow> (json_array \<times> Db) result" where
  "SetCommand_Exec rnd cmd db =
     with_object {''SADD''} Db_NewSet (Obj_Set [])
       (\<lambda>db. on_Set (SetCommand_run rnd cmd db)) cmd db"

definition ZSetCommand_Exec :: "ZSetCommand \<Rightarrow> Db \<Rightarrow> (json_array \<times> Db) result" where
  "ZSetCommand_Exec cmd db =
     with_object {''ZADD''} Db_NewZSet (Obj_ZSet ZSet_empty)
       (\<lambda>db. on_ZSet (ZSetCommand_run cmd)) cmd db"

section \<open>What a command does to the database\<close>

lemma Db_put_number:
  "db_number (Db_put k ob db) = db_number db \<and> aof_cache (Db_put k ob db) = aof_cache db"
  by (simp add: Db_put_def split: option.splits)

text \<open>
  The contract between the lookup and the commands of a class: \<open>new\<close> inserts the fresh object, and
  \<open>run\<close> gives a well-formed object of the same class.
\<close>

locale object_command =
  fixes creating :: "string set"
    and new :: "Str \<Rightarrow> Db \<Rightarrow> Db"
    and fresh :: Object
    and run :: "Db \<Rightarrow> Object \<Rightarrow> (json_array \<times> Object) result"
  assumes new_insert: "new key db = Db_insert key fresh db"
    and fresh_wf: "Object_wf fresh"
    and run_wf: "Object_wf ob \<Longrightarrow> Object_GetObjectType ob = Object_GetObjectType fresh \<Longrightarrow>
      run db ob = Inr (ret, ob') \<Longrightarrow> Object_wf ob' \<and> Object_GetObjectType ob' = Object_GetObjectType fresh"
begin

lemma exec_cases:
  assumes "Db_wf db" and "with_object creating new fresh run cmd db = Inr (ret, db')"
  obtains "db' = db" and "ret = reply '' ''"
  | db1 ob ob' where "db1 = db \<or> db1 = Db_insert (Str_ctor (obj_name cmd)) fresh db" and "Db_wf db1"
      and "Object_wf ob" and "Object_GetObjectType ob = Object_GetObjectType fresh"
      and "run db1 ob = Inr (ret, ob')" and "db' = Db_put (Str_ctor (obj_name cmd)) ob' db1"
proof (cases "Db_Get (Str_ctor (obj_name cmd)) db")
  case None
  have wf: "Db_wf (Db_insert (Str_ctor (obj_name cmd)) fresh db)"
    by (rule Db_wf_insert [OF assms(1) fresh_wf])
  show ?thesis
  proof (cases "command cmd \<in> creating")
    case True
    with None assms(2) obtain ob' where
      "run (Db_insert (Str_ctor (obj_name cmd)) fresh db) fresh = Inr (ret, ob')"
      "db' = Db_put (Str_ctor (obj_name cmd)) ob' (Db_insert (Str_ctor (obj_name cmd)) fresh db)"
      by (auto simp: with_object_def Let_def new_insert rbind_eq_Inr_iff)
    then show ?thesis by (rule that(2) [OF disjI2 [OF refl] wf fresh_wf refl])
  next
    case False
    with None assms(2) show ?thesis by (intro that(1)) (simp_all add: with_object_def Let_def)
  qed
next
  case (Some ob)
  note wf = Db_wf_Get [OF assms(1) Some]
  show ?thesis
  proof (cases "Object_GetObjectType ob = Object_GetObjectType fresh")
    case True
    with Some assms(2) obtain ob' where
      "run db ob = Inr (ret, ob')" "db' = Db_put (Str_ctor (obj_name cmd)) ob' db"
      by (auto simp: with_object_def Let_def rbind_eq_Inr_iff)
    then show ?thesis by (rule that(2) [OF disjI1 [OF refl] assms(1) wf True])
  next
    case False
    with Some assms(2) show ?thesis by (intro that(1)) (simp_all add: with_object_def Let_def)
  qed
qed

lemma exec_wf:
  assumes "Db_wf db" and "with_object creating new fresh run cmd db = Inr (ret, db')"
  shows "Db_wf db'"
  using assms
proof (cases rule: exec_cases)
  case 1
  with assms(1) show ?thesis by simp
next
  case (2 db1 ob ob')
  from run_wf [OF 2(3,4,5)] have "Object_wf ob'" ..
  with 2(2) show ?thesis unfolding 2(6) by (rule Db_wf_put)
qed

text \<open>A command changes the entry of its key only, and keeps its class and its expiry.\<close>

lemma exec_abs:
  assumes "Db_wf db" and "with_object creating new fresh run cmd db = Inr (ret, db')"
  shows "case db_abs db (obj_name cmd) of
      None \<Rightarrow>
        if command cmd \<notin> creating then ret = reply '' '' \<and> db' = db
        else \<exists>ob'. run (new (Str_ctor (obj_name cmd)) db) fresh = Inr (ret, ob') \<and>
          db_abs db' = (db_abs db)(obj_name cmd \<mapsto> (ob', None))
    | Some (ob, e) \<Rightarrow>
        if Object_GetObjectType ob \<noteq> Object_GetObjectType fresh then ret = reply '' '' \<and> db' = db
        else \<exists>ob'. run db ob = Inr (ret, ob') \<and> db_abs db' = (db_abs db)(obj_name cmd \<mapsto> (ob', e))"
proof (cases "db_abs db (obj_name cmd)")
  case None
  let ?key = "Str_ctor (obj_name cmd)" and ?db1 = "Db_insert (Str_ctor (obj_name cmd)) fresh db"
  have get: "Db_Get ?key db = None" using None by (simp add: Db_Get_abs)
  have ins: "db_abs ?db1 = (db_abs db)(obj_name cmd \<mapsto> (fresh, None))"
    using Db_insert_abs [OF assms(1), of ?key fresh] None by (simp add: dom_def)
  have put: "db_abs (Db_put ?key ob' ?db1) = (db_abs db)(obj_name cmd \<mapsto> (ob', None))" for ob'
    using Db_put_abs [OF Db_wf_insert [OF assms(1) fresh_wf], of ?key ob' ?key] by (simp add: ins)
  show ?thesis
  proof (cases "command cmd \<in> creating")
    case True
    then obtain ob' where "run ?db1 fresh = Inr (ret, ob')" "db' = Db_put ?key ob' ?db1"
      using assms(2) get by (auto simp: with_object_def Let_def new_insert rbind_eq_Inr_iff)
    with None True put show ?thesis by (auto simp: new_insert)
  next
    case False
    with None get assms(2) show ?thesis by (simp add: with_object_def Let_def)
  qed
next
  case (Some oe)
  let ?key = "Str_ctor (obj_name cmd)"
  obtain ob e where oe: "oe = (ob, e)" by (cases oe)
  have get: "Db_Get ?key db = Some ob" using Some oe by (simp add: Db_Get_abs)
  have put: "db_abs (Db_put ?key ob' db) = (db_abs db)(obj_name cmd \<mapsto> (ob', e))" for ob'
    using Db_put_abs [OF assms(1), of ?key ob'] Some oe by simp
  show ?thesis
  proof (cases "Object_GetObjectType ob = Object_GetObjectType fresh")
    case True
    then obtain ob' where "run db ob = Inr (ret, ob')" "db' = Db_put ?key ob' db"
      using assms(2) get by (auto simp: with_object_def Let_def rbind_eq_Inr_iff)
    with Some oe True put show ?thesis by auto
  next
    case False
    with Some oe get assms(2) show ?thesis by (simp add: with_object_def Let_def)
  qed
qed

lemma exec_frame:
  assumes "Db_wf db" and "with_object creating new fresh run cmd db = Inr (ret, db')" and "d \<noteq> obj_name cmd"
  shows "db_abs db' d = db_abs db d"
  using exec_abs [OF assms(1,2)] assms(3) by (auto split: option.splits if_splits prod.splits)

text \<open>What is stored keeps its class and its expiry.\<close>

lemma exec_class:
  assumes "Db_wf db" and "with_object creating new fresh run cmd db = Inr (ret, db')"
    and "db_abs db d = Some (ob, e)"
  shows "\<exists>ob'. db_abs db' d = Some (ob', e) \<and> Object_GetObjectType ob' = Object_GetObjectType ob"
proof (cases "d = obj_name cmd \<and> Object_GetObjectType ob = Object_GetObjectType fresh")
  case False
  then show ?thesis
    using exec_frame [OF assms(1,2)] exec_abs [OF assms(1,2)] assms(3) by (cases "d = obj_name cmd") auto
next
  case True
  then obtain ob' where run: "run db ob = Inr (ret, ob')"
      and abs: "db_abs db' = (db_abs db)(obj_name cmd \<mapsto> (ob', e))"
    using exec_abs [OF assms(1,2)] assms(3) by auto
  from run_wf [OF db_abs_wf [OF assms(1,3)] conjunct2 [OF True] run] True abs show ?thesis by simp
qed

lemma exec_number:
  assumes "Db_wf db" and "with_object creating new fresh run cmd db = Inr (ret, db')"
  shows "db_number db' = db_number db \<and> aof_cache db' = aof_cache db"
  using assms by (rule exec_cases) (auto simp: Db_insert_def Db_put_number)

text \<open>
  A command on an object of another class, or on a missing key that it does not create, answers with a
  blank and changes nothing; a new object has the class of the command and no expiry.
\<close>

lemma exec_refused:
  assumes "db_abs db (obj_name cmd) = Some (ob, e) \<and> Object_GetObjectType ob \<noteq> Object_GetObjectType fresh \<or>
      db_abs db (obj_name cmd) = None \<and> command cmd \<notin> creating"
  shows "with_object creating new fresh run cmd db = Inr (reply '' '', db)"
  using assms by (auto simp: with_object_def Let_def Db_Get_abs)

lemma exec_created:
  assumes "Db_wf db" and "with_object creating new fresh run cmd db = Inr (ret, db')"
    and "db_abs db (obj_name cmd) = None" and "db_abs db' (obj_name cmd) = Some (ob, e)"
  shows "Object_GetObjectType ob = Object_GetObjectType fresh \<and> e = None \<and> command cmd \<in> creating"
  using exec_abs [OF assms(1,2)] assms(3,4) run_wf [OF fresh_wf refl] by (auto split: if_splits)

lemma exec_contract:
  assumes "Db_wf db"
  shows "(\<forall>ob e. db_abs db (obj_name cmd) = Some (ob, e) \<longrightarrow> Object_GetObjectType ob \<noteq> Object_GetObjectType fresh \<longrightarrow>
      with_object creating new fresh run cmd db = Inr (reply '' '', db)) \<and>
    (db_abs db (obj_name cmd) = None \<longrightarrow> command cmd \<notin> creating \<longrightarrow>
      with_object creating new fresh run cmd db = Inr (reply '' '', db)) \<and>
    (\<forall>ret db'. with_object creating new fresh run cmd db = Inr (ret, db') \<longrightarrow>
      Db_wf db' \<and> db_number db' = db_number db \<and> (\<forall>d. d \<noteq> obj_name cmd \<longrightarrow> db_abs db' d = db_abs db d) \<and>
      (\<forall>d ob e. db_abs db d = Some (ob, e) \<longrightarrow>
        (\<exists>ob'. db_abs db' d = Some (ob', e) \<and> Object_GetObjectType ob' = Object_GetObjectType ob)) \<and>
      (\<forall>ob e. db_abs db (obj_name cmd) = None \<longrightarrow> db_abs db' (obj_name cmd) = Some (ob, e) \<longrightarrow>
        Object_GetObjectType ob = Object_GetObjectType fresh \<and> e = None))"
proof (intro conjI allI impI)
  fix ret db'
  assume ex: "with_object creating new fresh run cmd db = Inr (ret, db')"
  show "Db_wf db'" by (rule exec_wf [OF assms ex])
  show "db_number db' = db_number db" using exec_number [OF assms ex] ..
  show "db_abs db' d = db_abs db d" if "d \<noteq> obj_name cmd" for d by (rule exec_frame [OF assms ex that])
  show "\<exists>ob'. db_abs db' d = Some (ob', e) \<and> Object_GetObjectType ob' = Object_GetObjectType ob"
    if "db_abs db d = Some (ob, e)" for d ob e by (rule exec_class [OF assms ex that])
  show "Object_GetObjectType ob = Object_GetObjectType fresh" "e = None"
    if "db_abs db (obj_name cmd) = None" "db_abs db' (obj_name cmd) = Some (ob, e)" for ob e
    using exec_created [OF assms ex that] by blast+
qed (auto intro: exec_refused)

text \<open>A failure is one of the command on an object of its class.\<close>

lemma exec_error:
  assumes "Db_wf db" and "with_object creating new fresh run cmd db = Inl e"
  shows "\<exists>db ob. Object_wf ob \<and> Object_GetObjectType ob = Object_GetObjectType fresh \<and> run db ob = Inl e"
proof (cases "Db_Get (Str_ctor (obj_name cmd)) db")
  case None
  then show ?thesis
    using assms(2) fresh_wf by (auto simp: with_object_def Let_def rbind_def split: if_splits sum.splits)
next
  case (Some ob)
  then show ?thesis
    using assms(2) Db_wf_Get [OF assms(1) Some]
    by (auto simp: with_object_def Let_def rbind_def split: if_splits sum.splits)
qed

end

subsection \<open>The five classes\<close>

lemma fold_invariant: "(\<And>x s. x \<in> set xs \<Longrightarrow> P s \<Longrightarrow> P (f x s)) \<Longrightarrow> P s \<Longrightarrow> P (fold f xs s)"
  by (induction xs arbitrary: s) auto

lemma StrCommand_run_wf: "Str_wf s \<Longrightarrow> StrCommand_run cmd s = Inr (ret, s') \<Longrightarrow> Str_wf s'"
  by (auto simp: StrCommand_run_def result_simps Let_def
      intro: Str_wf_IncrBy Str_wf_DecrBy Str_wf_Append split: if_splits option.splits)

lemma HSET_loop_wf: "um_wf h \<Longrightarrow> HSET_loop vs h = Inr h' \<Longrightarrow> um_wf h'"
  by (induction vs h rule: HSET_loop.induct) (auto simp: Hash_Set_wf)

lemma HashCommand_run_wf: "um_wf h \<Longrightarrow> HashCommand_run cmd h = Inr (ret, h') \<Longrightarrow> um_wf h'"
  by (auto simp: HashCommand_run_def result_simps Let_def
      intro: HSET_loop_wf Hash_IncrBy_wf Hash_DecrBy_wf fold_invariant [where P = um_wf] Hash_Del_wf
      split: if_splits option.splits)

lemma count_loop_invariant:
  assumes "\<And>x s ok s'. P s \<Longrightarrow> f x s = Inr (ok, s') \<Longrightarrow> P s'"
  shows "P s \<Longrightarrow> count_loop f xs cnt s = Inr (n, s') \<Longrightarrow> P s'"
  by (induction xs arbitrary: cnt s) (auto simp: result_simps dest: assms)

lemma SetCommand_run_wf: "us_wf s \<Longrightarrow> SetCommand_run rnd cmd db s = Inr (ret, s') \<Longrightarrow> us_wf s'"
  by (auto simp: SetCommand_run_def result_simps Let_def
      elim!: count_loop_invariant [where P = us_wf, rotated 2]
      intro: Set_Pop_wf split: if_splits option.splits)
    (metis Set_Add_wf Set_Rem_wf snd_conv)+

lemma score_loop_invariant:
  assumes "\<And>i m z ok z'. P z \<Longrightarrow> f i m z = Inr (ok, z') \<Longrightarrow> P z'"
  shows "P z \<Longrightarrow> score_loop f vs cnt z = Inr (n, z') \<Longrightarrow> P z'"
proof (induction "length vs" arbitrary: vs cnt z rule: less_induct)
  case less
  show ?case
  proof (cases vs)
    case (Cons s vs')
    have IH: "P z'" if "P z1" "score_loop f (tl vs') c z1 = Inr (n, z')" for c z1
      by (rule less(1) [OF _ that]) (simp add: Cons)
    from less(2,3) show ?thesis
      by (auto simp: Cons result_simps split: option.splits if_splits intro: IH)
        (metis IH assms)+
  qed (use less in auto)
qed

lemma ZSetCommand_run_wf: "ZSet_inv z \<Longrightarrow> ZSetCommand_run cmd z = Inr (ret, z') \<Longrightarrow> ZSet_inv z'"
proof -
  assume inv: "ZSet_inv z" and run: "ZSetCommand_run cmd z = Inr (ret, z')"
  have add: "ZSet_inv z1" if "score_loop (\<lambda>score m z. Inr (ZSet_Add score m z)) vs c z = Inr (n, z1)" for vs c n z1
    using score_loop_invariant [where P = ZSet_inv, OF _ inv that] ZSet_inv_Add by (metis Inr_inject snd_conv)
  have rem: "ZSet_inv z1" if "score_loop ZSet_Rem vs c z = Inr (n, z1)" for vs c n z1
    using score_loop_invariant [where P = ZSet_inv, OF _ inv that] ZSet_inv_Rem by blast
  show ?thesis
    using run inv
    by (auto simp: ZSetCommand_run_def result_simps Let_def
        intro: add rem ZSet_inv_IncrBy ZSet_inv_DecrBy split: if_splits option.splits)
qed

text \<open>The class of an object as the commands see it.\<close>

lemma Object_class_cases:
  "Object_GetObjectType ob = Object_GetObjectType (Obj_Str s) \<longleftrightarrow> (\<exists>s. ob = Obj_Str s)"
  "Object_GetObjectType ob = Object_GetObjectType (Obj_List l) \<longleftrightarrow> (\<exists>l. ob = Obj_List l)"
  "Object_GetObjectType ob = Object_GetObjectType (Obj_Hash h) \<longleftrightarrow> (\<exists>h. ob = Obj_Hash h)"
  "Object_GetObjectType ob = Object_GetObjectType (Obj_Set t) \<longleftrightarrow> (\<exists>t. ob = Obj_Set t)"
  "Object_GetObjectType ob = Object_GetObjectType (Obj_ZSet z) \<longleftrightarrow> (\<exists>z. ob = Obj_ZSet z)"
  by (cases ob; simp add: Str_GetObjectType_def List_GetObjectType_def Hash_GetObjectType_def
      Set_GetObjectType_def ZSet_GetObjectType_def)+

lemma on_Str_wf:
  assumes "\<And>x ret x'. Str_wf x \<Longrightarrow> f x = Inr (ret, x') \<Longrightarrow> Str_wf x'" and "Object_wf ob"
    and "Object_GetObjectType ob = Object_GetObjectType (Obj_Str t)" and "on_Str f ob = Inr (ret, ob')"
  shows "Object_wf ob' \<and> Object_GetObjectType ob' = Object_GetObjectType (Obj_Str t)"
proof -
  from assms(3) obtain x where "ob = Obj_Str x" unfolding Object_class_cases by blast
  with assms(1,2,4) show ?thesis unfolding Object_class_cases by (auto simp: rbind_eq_Inr_iff)
qed

interpretation str_command: object_command "{''SET''}" Db_NewStr "Obj_Str Str_default"
  "\<lambda>db. on_Str (StrCommand_run cmd)" for cmd
  by (unfold_locales, simp add: Db_NewStr_def, simp,
      rule on_Str_wf, (rule StrCommand_run_wf; assumption), assumption+)

lemma on_List_wf:
  assumes "\<And>x ret x'. (\<lambda>l. True) x \<Longrightarrow> f x = Inr (ret, x') \<Longrightarrow> (\<lambda>l. True) x'" and "Object_wf ob"
    and "Object_GetObjectType ob = Object_GetObjectType (Obj_List t)" and "on_List f ob = Inr (ret, ob')"
  shows "Object_wf ob' \<and> Object_GetObjectType ob' = Object_GetObjectType (Obj_List t)"
proof -
  from assms(3) obtain x where "ob = Obj_List x" unfolding Object_class_cases by blast
  with assms(1,2,4) show ?thesis unfolding Object_class_cases by (auto simp: rbind_eq_Inr_iff)
qed

interpretation list_command: object_command "{''LPUSHF'', ''LPUSHB''}" Db_NewList "Obj_List []"
  "\<lambda>db. on_List (ListCommand_run cmd)" for cmd
  by (unfold_locales, simp add: Db_NewList_def, simp,
      rule on_List_wf, rule TrueI, assumption+)

lemma on_Hash_wf:
  assumes "\<And>x ret x'. um_wf x \<Longrightarrow> f x = Inr (ret, x') \<Longrightarrow> um_wf x'" and "Object_wf ob"
    and "Object_GetObjectType ob = Object_GetObjectType (Obj_Hash t)" and "on_Hash f ob = Inr (ret, ob')"
  shows "Object_wf ob' \<and> Object_GetObjectType ob' = Object_GetObjectType (Obj_Hash t)"
proof -
  from assms(3) obtain x where "ob = Obj_Hash x" unfolding Object_class_cases by blast
  with assms(1,2,4) show ?thesis unfolding Object_class_cases by (auto simp: rbind_eq_Inr_iff)
qed

interpretation hash_command: object_command "{''HSET''}" Db_NewHash "Obj_Hash []"
  "\<lambda>db. on_Hash (HashCommand_run cmd)" for cmd
  by (unfold_locales, simp add: Db_NewHash_def, simp,
      rule on_Hash_wf, (rule HashCommand_run_wf; assumption), assumption+)

lemma on_Set_wf:
  assumes "\<And>x ret x'. us_wf x \<Longrightarrow> f x = Inr (ret, x') \<Longrightarrow> us_wf x'" and "Object_wf ob"
    and "Object_GetObjectType ob = Object_GetObjectType (Obj_Set t)" and "on_Set f ob = Inr (ret, ob')"
  shows "Object_wf ob' \<and> Object_GetObjectType ob' = Object_GetObjectType (Obj_Set t)"
proof -
  from assms(3) obtain x where "ob = Obj_Set x" unfolding Object_class_cases by blast
  with assms(1,2,4) show ?thesis unfolding Object_class_cases by (auto simp: rbind_eq_Inr_iff)
qed

interpretation set_command: object_command "{''SADD''}" Db_NewSet "Obj_Set []"
  "\<lambda>db. on_Set (SetCommand_run rnd cmd db)" for rnd cmd
  by (unfold_locales, simp add: Db_NewSet_def, simp,
      rule on_Set_wf, (rule SetCommand_run_wf; assumption), assumption+)

lemma on_ZSet_wf:
  assumes "\<And>x ret x'. ZSet_inv x \<Longrightarrow> f x = Inr (ret, x') \<Longrightarrow> ZSet_inv x'" and "Object_wf ob"
    and "Object_GetObjectType ob = Object_GetObjectType (Obj_ZSet t)" and "on_ZSet f ob = Inr (ret, ob')"
  shows "Object_wf ob' \<and> Object_GetObjectType ob' = Object_GetObjectType (Obj_ZSet t)"
proof -
  from assms(3) obtain x where "ob = Obj_ZSet x" unfolding Object_class_cases by blast
  with assms(1,2,4) show ?thesis unfolding Object_class_cases by (auto simp: rbind_eq_Inr_iff)
qed

interpretation zset_command: object_command "{''ZADD''}" Db_NewZSet "Obj_ZSet ZSet_empty"
  "\<lambda>db. on_ZSet (ZSetCommand_run cmd)" for cmd
  by (unfold_locales, simp add: Db_NewZSet_def, simp,
      rule on_ZSet_wf, (rule ZSetCommand_run_wf; assumption), assumption+)

end
