(* ===== verification/Command_Arguments.thy ===== *)
theory Command_Arguments
  imports Commands
begin

text \<open>
  The arguments of a command.  A command reads \<open>values_[i]\<close> and \<open>value()\<close> without a check.  What the conversion of a request has
  established makes every such access valid, for each of the five object commands.
\<close>

section \<open>Results without a missing argument\<close>

named_theorems safe_intros \<open>no access to a missing argument\<close>

definition safe :: "'a result \<Rightarrow> bool" where
  "safe r \<longleftrightarrow> r \<noteq> Inl Bad_Index \<and> r \<noteq> Inl Bad_Optional_Access"

lemma safe_Inr [simp, safe_intros]: "safe (Inr x)"
  by (simp add: safe_def)

lemma safe_Inl [simp]: "safe (Inl e) \<longleftrightarrow> e \<noteq> Bad_Index \<and> e \<noteq> Bad_Optional_Access"
  by (simp add: safe_def)

lemma safe_rbind [safe_intros]: "safe m \<Longrightarrow> (\<And>x. m = Inr x \<Longrightarrow> safe (f x)) \<Longrightarrow> safe (rbind m f)"
  by (cases m) auto

lemma safe_if [safe_intros]: "(b \<Longrightarrow> safe x) \<Longrightarrow> (\<not> b \<Longrightarrow> safe y) \<Longrightarrow> safe (if b then x else y)"
  by simp

lemma safe_option [safe_intros]:
  "(z = None \<Longrightarrow> safe x) \<Longrightarrow> (\<And>v. z = Some v \<Longrightarrow> safe (f v)) \<Longrightarrow> safe (case z of None \<Rightarrow> x | Some v \<Rightarrow> f v)"
  by (cases z) auto

lemma safe_prod [safe_intros]: "(\<And>a b. z = (a, b) \<Longrightarrow> safe (f a b)) \<Longrightarrow> safe (case z of (a, b) \<Rightarrow> f a b)"
  by (cases z) auto

lemma safe_let [safe_intros]: "safe (f x) \<Longrightarrow> safe (let v = x in f v)"
  by simp

lemma safe_RedisStrToInt [safe_intros]: "safe (RedisStrToInt raw)"
  by (simp add: RedisStrToInt_eq)

lemma safe_int_ops [safe_intros]: "safe (int_add a b)" "safe (int_neg a)"
  by (simp_all add: int_add_def int_neg_def)

lemma safe_vec_at [safe_intros]: "i < length xs \<Longrightarrow> safe (vec_at xs i)"
  by (simp add: vec_at_def)

lemma safe_int_at [safe_intros]: "i < length xs \<Longrightarrow> safe (int_at xs i)"
  unfolding int_at_def by (intro safe_intros)

lemma safe_opt_value [safe_intros]: "x \<noteq> None \<Longrightarrow> safe (opt_value x)"
  by (auto simp: opt_value_def)

lemma safe_Str_ops [safe_intros]: "safe (Str_IncrBy i s)" "safe (Str_DecrBy i s)" "safe (Str_Append d s)"
  unfolding Str_DecrBy_def Str_IncrBy_def Str_Append_def by (intro safe_intros)+

lemma safe_legalRange [safe_intros]: "safe (legalRange n r)"
  unfolding legalRange_def by (intro safe_intros)

lemma safe_List_Rem_forward [safe_intros]: "safe (List_Rem_forward v n pre rest)"
  by (induction v n pre rest rule: List_Rem_forward.induct) auto

lemma safe_List_Rem_backward [safe_intros]: "safe (List_Rem_backward v n suf rrest)"
  by (induction v n suf rrest rule: List_Rem_backward.induct) auto

lemma safe_List_ops [safe_intros]:
  "safe (List_Index i l)" "safe (List_Rem i v l)" "safe (List_Trim b e l)" "safe (List_Set i v l)"
  unfolding List_Index_def List_Rem_def List_Trim_def List_Set_def
  by ((intro safe_intros | simp)+)

lemma safe_Hash_ops [safe_intros]: "safe (Hash_IncrBy k i h)" "safe (Hash_DecrBy k i h)"
  unfolding Hash_IncrBy_def Hash_DecrBy_def by (intro safe_intros)+

lemma safe_Set_Pop [safe_intros]: "safe (Set_Pop s)"
  by (simp add: Set_Pop_cases)

lemma safe_node_score [safe_intros]: "safe (node_score nid ns)"
  by (induction nid ns rule: node_score.induct) auto

lemma safe_rank_seek [safe_intros]: "safe (rank_seek pos r)"
  by (induction pos r rule: rank_seek.induct) auto

lemma safe_lex_rows [safe_intros]: "safe (lex_rows ns r)"
  by (induction ns r rule: lex_rows.induct) (auto intro!: safe_intros)

lemma safe_ZSet_ops [safe_intros]:
  "safe (ZSet_Rem s m z)" "safe (ZSet_IncrBy d m z)" "safe (ZSet_DecrBy d m z)" "safe (ZSet_Range b e z)"
  "safe (ZSet_RangeByLex m1 m2 z)" "safe (ZSet_Rank m z)" "safe (ZSet_Score m z)"
  unfolding ZSet_Rem_def ZSet_DecrBy_def ZSet_IncrBy_def ZSet_Range_def ZSet_RangeByLex_def
    ZSet_Rank_def ZSet_Score_def
  by ((intro safe_intros | simp)+)

lemma safe_LINDEX_loop [safe_intros]: "safe (LINDEX_loop l vs)"
  by (induction l vs rule: LINDEX_loop.induct) (auto intro!: safe_intros)

lemma safe_HSET_loop [safe_intros]: "even (length vs) \<Longrightarrow> safe (HSET_loop vs h)"
  by (induction vs h rule: HSET_loop.induct) auto

lemma safe_count_loop [safe_intros]: "(\<And>x s. safe (f x s)) \<Longrightarrow> safe (count_loop f xs cnt s)"
  by (induction xs arbitrary: cnt s) (auto intro!: safe_intros)

lemma safe_score_loop [safe_intros]:
  assumes "\<And>i m z. safe (f i m z)"
  shows "even (length vs) \<Longrightarrow> safe (score_loop f vs cnt z)"
proof (induction "length vs" arbitrary: vs cnt z rule: less_induct)
  case less
  show ?case
  proof (cases vs)
    case (Cons s vs')
    with less(2) have "even (length (tl vs'))" "0 < length vs'" by (cases vs'; simp)+
    moreover have "length (tl vs') < length vs" by (simp add: Cons)
    ultimately show ?thesis using less(1) assms by (auto simp: Cons intro!: safe_intros)
  qed simp
qed

section \<open>What a converted request guarantees\<close>

definition StrCommand_ok :: "StrCommand \<Rightarrow> bool" where
  "StrCommand_ok cmd \<longleftrightarrow> (valid cmd \<longrightarrow> command cmd \<in> {''GET'', ''LEN''} \<or> str_value cmd \<noteq> None)"

definition ListCommand_ok :: "ListCommand \<Rightarrow> bool" where
  "ListCommand_ok cmd \<longleftrightarrow>
     (valid cmd \<longrightarrow> command cmd \<in> {''LREM'', ''LSET'', ''LTRIM''} \<longrightarrow> 2 \<le> length (list_values cmd))"

definition HashCommand_ok :: "HashCommand \<Rightarrow> bool" where
  "HashCommand_ok cmd \<longleftrightarrow>
     (valid cmd \<longrightarrow> command cmd \<in> {''HSET'', ''HINCRBY'', ''HDECRBY''} \<longrightarrow>
       2 \<le> length (hash_values cmd) \<and> even (length (hash_values cmd)))"

definition SetCommand_ok :: "SetCommand \<Rightarrow> bool" where
  "SetCommand_ok cmd \<longleftrightarrow>
     (valid cmd \<longrightarrow> command cmd \<in> {''SINTER'', ''SDIFF''} \<longrightarrow> set_values cmd \<noteq> [])"

definition ZSetCommand_ok :: "ZSetCommand \<Rightarrow> bool" where
  "ZSetCommand_ok cmd \<longleftrightarrow>
     (valid cmd \<longrightarrow> command cmd \<noteq> ''ZCARD'' \<longrightarrow>
       (if command cmd \<in> {''ZSCORE'', ''ZRANK''} then 1 \<le> length (zset_values cmd)
        else 2 \<le> length (zset_values cmd) \<and> even (length (zset_values cmd))))"

definition DbCommand_ok :: "DbCommand \<Rightarrow> bool" where
  "DbCommand_ok cmd \<longleftrightarrow> (valid cmd \<longrightarrow> command cmd = ''EXPIRE'' \<longrightarrow> db_value cmd \<noteq> None)"

fun Command_ok :: "Command \<Rightarrow> bool" where
  "Command_ok (Cmd_Str cmd) = StrCommand_ok cmd"
| "Command_ok (Cmd_List cmd) = ListCommand_ok cmd"
| "Command_ok (Cmd_Hash cmd) = HashCommand_ok cmd"
| "Command_ok (Cmd_Set cmd) = SetCommand_ok cmd"
| "Command_ok (Cmd_ZSet cmd) = ZSetCommand_ok cmd"
| "Command_ok (Cmd_Db cmd) = DbCommand_ok cmd"
| "Command_ok (Cmd_Cli cmd) = (command cmd \<noteq> ''DROP'')"
| "Command_ok (Cmd_Server cmd) = True"

lemma length_request_values [simp]: "length (request_values source) = length source - 2"
  by (simp add: request_values_def)

lemma JsonToBase_cases:
  "JsonToBase ret source = (ok, ret') \<Longrightarrow>
     (ok \<and> ret' = ret\<lparr>command := string_value (source ! 0), obj_name := string_value (source ! 1), valid := True\<rparr> \<and>
        2 \<le> length source) \<or> (\<not> ok \<and> ret' = ret\<lparr>valid := False\<rparr>)"
  by (auto simp: JsonToBase_def split: if_splits)

lemma request_values_Nil [simp]: "request_values source = [] \<longleftrightarrow> length source \<le> 2"
  by (simp add: request_values_def)

lemma even_length_two: "even n \<Longrightarrow> \<not> n < 3 \<Longrightarrow> 2 \<le> n - (2 :: nat)"
  by presburger

lemma JsonTo_ok:
  "StrCommand_ok (JsonToStrCommand source)" "ListCommand_ok (JsonToListCommand source)"
  "HashCommand_ok (JsonToHashCommand source)" "SetCommand_ok (JsonToSetCommand source)"
  "ZSetCommand_ok (JsonToZSetCommand source)" "DbCommand_ok (JsonToDbCommand source)"
  by (auto simp: StrCommand_ok_def JsonToStrCommand_def ListCommand_ok_def JsonToListCommand_def
      HashCommand_ok_def JsonToHashCommand_def SetCommand_ok_def JsonToSetCommand_def
      ZSetCommand_ok_def JsonToZSetCommand_def DbCommand_ok_def JsonToDbCommand_def Let_def
      dest!: JsonToBase_cases intro: even_length_two split: prod.splits if_splits)

subsection \<open>The table of opcodes\<close>

text \<open>
  What each opcode asks for, independent of the converters: the class of the command, the least number
  of arguments behind the opcode, the key included, and whether the arguments behind the key come in
  pairs.  \<open>FORK\<close>, whose argument has a form of its own, is not in the table.
\<close>

datatype command_class =
  Class_Str | Class_List | Class_Hash | Class_Set | Class_ZSet | Class_Db | Class_Cli | Class_Server

definition command_table :: "(string \<times> command_class \<times> nat \<times> bool) list" where
  "command_table =
     map (\<lambda>c. (c, Class_Str, 1, False)) [''GET'', ''LEN''] @
     map (\<lambda>c. (c, Class_Str, 2, False)) [''SET'', ''APPEND'', ''INCRBY'', ''DECRBY''] @
     map (\<lambda>c. (c, Class_List, 1, False)) [''LPOPF'', ''LPOPB'', ''LLEN''] @
     map (\<lambda>c. (c, Class_List, 2, False)) [''LPUSHF'', ''LPUSHB'', ''LINDEX''] @
     map (\<lambda>c. (c, Class_List, 3, False)) [''LREM'', ''LTRIM'', ''LSET''] @
     map (\<lambda>c. (c, Class_Hash, 1, False)) [''HLEN'', ''HGETALL''] @
     map (\<lambda>c. (c, Class_Hash, 2, False)) [''HGET'', ''HEXIST'', ''HDEL''] @
     map (\<lambda>c. (c, Class_Hash, 3, True)) [''HSET'', ''HINCRBY'', ''HDECRBY''] @
     map (\<lambda>c. (c, Class_Set, 1, False)) [''SCARD'', ''SMEMBERS'', ''SRANDMEMBER'', ''SPOP''] @
     map (\<lambda>c. (c, Class_Set, 2, False)) [''SADD'', ''SISMEMBER'', ''SREM'', ''SINTER'', ''SDIFF''] @
     [(''ZCARD'', Class_ZSet, 1, False)] @
     map (\<lambda>c. (c, Class_ZSet, 2, False)) [''ZRANK'', ''ZSCORE''] @
     map (\<lambda>c. (c, Class_ZSet, 3, True))
       [''ZADD'', ''ZCOUNT'', ''ZLEXCOUNT'', ''ZINCRBY'', ''ZDECRBY'', ''ZREM'', ''ZRANGE'', ''ZRANGEBYSCORE'', ''ZRANGEBYLEX''] @
     map (\<lambda>c. (c, Class_Db, 1, False)) [''DEL'', ''WHEN''] @
     [(''EXPIRE'', Class_Db, 2, False), (''REWRITE'', Class_Db, 0, False), (''SELECT'', Class_Cli, 1, False),
      (''CREATE'', Class_Cli, 0, False), (''SHOW'', Class_Cli, 0, False), (''ENDFORKING'', Class_Server, 0, False)]"

text \<open>What a command carries, whatever its class.\<close>

fun Command_class :: "Command \<Rightarrow> command_class" where
  "Command_class (Cmd_Str cmd) = Class_Str"
| "Command_class (Cmd_List cmd) = Class_List"
| "Command_class (Cmd_Hash cmd) = Class_Hash"
| "Command_class (Cmd_Set cmd) = Class_Set"
| "Command_class (Cmd_ZSet cmd) = Class_ZSet"
| "Command_class (Cmd_Db cmd) = Class_Db"
| "Command_class (Cmd_Cli cmd) = Class_Cli"
| "Command_class (Cmd_Server cmd) = Class_Server"

fun Command_base :: "Command \<Rightarrow> bool \<times> string \<times> string" where
  "Command_base (Cmd_Str cmd) = (valid cmd, command cmd, obj_name cmd)"
| "Command_base (Cmd_List cmd) = (valid cmd, command cmd, obj_name cmd)"
| "Command_base (Cmd_Hash cmd) = (valid cmd, command cmd, obj_name cmd)"
| "Command_base (Cmd_Set cmd) = (valid cmd, command cmd, obj_name cmd)"
| "Command_base (Cmd_ZSet cmd) = (valid cmd, command cmd, obj_name cmd)"
| "Command_base (Cmd_Db cmd) = (valid cmd, command cmd, obj_name cmd)"
| "Command_base (Cmd_Cli cmd) = (valid cmd, command cmd, obj_name cmd)"
| "Command_base (Cmd_Server cmd) = (valid cmd, command cmd, obj_name cmd)"

fun Command_operands :: "Command \<Rightarrow> string list" where
  "Command_operands (Cmd_Str cmd) = (case str_value cmd of None \<Rightarrow> [] | Some v \<Rightarrow> [v])"
| "Command_operands (Cmd_List cmd) = map str_data (list_values cmd)"
| "Command_operands (Cmd_Hash cmd) = map str_data (hash_values cmd)"
| "Command_operands (Cmd_Set cmd) = map str_data (set_values cmd)"
| "Command_operands (Cmd_ZSet cmd) = map str_data (zset_values cmd)"
| "Command_operands (Cmd_Db cmd) = (case db_value cmd of None \<Rightarrow> [] | Some v \<Rightarrow> [v])"
| "Command_operands (Cmd_Cli cmd) = (case pswd cmd of None \<Rightarrow> [] | Some v \<Rightarrow> [v])"
| "Command_operands (Cmd_Server cmd) = []"

text \<open>
  The operands a request hands over: a class with one value takes the first argument behind the key, the
  others all of them; the opcodes that need no operand take none.  \<open>SELECT\<close> takes the password if it is
  there and the last argument.  Except for the commands of the client and those without a key, no
  argument may be empty.
\<close>

fun operands_taken :: "command_class \<Rightarrow> nat \<Rightarrow> string list \<Rightarrow> string list" where
  "operands_taken cls least args =
     (if cls = Class_Cli then (if least = 1 \<and> length args = 2 then [args ! 1] else [])
      else if least < 2 then []
      else if cls = Class_Str \<or> cls = Class_Db then [args ! 1]
      else drop 1 args)"

definition enough_operands :: "command_class \<Rightarrow> nat \<Rightarrow> bool \<Rightarrow> string list \<Rightarrow> bool" where
  "enough_operands cls least paired args \<longleftrightarrow>
     least \<le> length args \<and> (paired \<longrightarrow> odd (length args)) \<and> (cls = Class_Cli \<or> least = 0 \<or> [] \<notin> set args)"

definition converts :: "string \<Rightarrow> command_class \<Rightarrow> nat \<Rightarrow> bool \<Rightarrow> json_array \<Rightarrow> Command \<Rightarrow> bool" where
  "converts opc cls least paired args cmd \<longleftrightarrow>
     Command_class cmd = cls \<and> (fst (Command_base cmd) \<longleftrightarrow> enough_operands cls least paired (map string_value args)) \<and>
     (fst (Command_base cmd) \<longrightarrow>
        Command_base cmd = (True, opc, if least = 0 then [] else string_value (args ! 0)) \<and>
        Command_operands cmd = operands_taken cls least (map string_value args))"

lemma map_str_data_request_values:
  "map str_data (request_values (r # args)) = drop 1 (map string_value args)"
  by (simp add: request_values_def comp_def drop_map drop_Suc [of 1] drop_tl)

lemma JsonToBase_args:
  "c \<noteq> [] \<Longrightarrow> JsonToBase ret (JString c # args) =
     (if args = [] \<or> [] \<in> set (map string_value args) then (False, ret\<lparr>valid := False\<rparr>)
      else (True, ret\<lparr>command := c, obj_name := string_value (args ! 0), valid := True\<rparr>))"
  by (cases args) (force simp: JsonToBase_def)+

lemma even_length_ge_two: "length xs mod 2 = 0 \<Longrightarrow> xs \<noteq> [] \<Longrightarrow> 2 \<le> length xs"
  by (cases xs; cases "tl xs") auto

lemma converts_invalid:
  assumes "args = [] \<or> [] \<in> set (map string_value args)" and "\<not> fst (Command_base cmd)" and "Command_class cmd = cls"
    and "0 < least" and "cls \<noteq> Class_Cli"
  shows "converts c cls least paired args cmd"
  using assms by (auto simp: converts_def enough_operands_def)

lemmas converter_defs =
  converts_def enough_operands_def JsonToBase_args map_str_data_request_values JsonToStrCommand_def JsonToListCommand_def
  JsonToHashCommand_def JsonToSetCommand_def JsonToZSetCommand_def JsonToDbCommand_def JsonToCliCommand_def Let_def
  odd_iff_mod_2_eq_one Suc_le_eq

lemma converts_Str:
  assumes "c \<noteq> []"
  shows "converts c Class_Str
      (if c \<in> {''GET'', ''LEN''} then 1 else 2) False
      args (Cmd_Str (JsonToStrCommand (JString c # args)))"
proof (cases "args = [] \<or> [] \<in> set (map string_value args)")
  case True
  then show ?thesis using assms by (intro converts_invalid) (simp_all add: JsonToStrCommand_def JsonToBase_args)
next
  case False
  then obtain a as where "args = a # as" by (cases args) auto
  with False assms show ?thesis
    by (cases "c \<in> {''GET'', ''LEN''}")
      (simp_all add: converter_defs del: insert_iff singleton_iff)
qed

lemma converts_List:
  assumes "c \<noteq> []"
  shows "converts c Class_List
      (if c \<in> {''LPOPF'', ''LPOPB'', ''LLEN''} then 1 else if c \<in> {''LREM'', ''LSET'', ''LTRIM''} then 3 else 2) False
      args (Cmd_List (JsonToListCommand (JString c # args)))"
proof (cases "args = [] \<or> [] \<in> set (map string_value args)")
  case True
  then show ?thesis using assms by (intro converts_invalid) (simp_all add: JsonToListCommand_def JsonToBase_args)
next
  case False
  then obtain a as where "args = a # as" by (cases args) auto
  with False assms show ?thesis
    by (cases "c \<in> {''LPOPF'', ''LPOPB'', ''LLEN''}"; cases "c \<in> {''LREM'', ''LSET'', ''LTRIM''}")
      (simp_all add: converter_defs del: insert_iff singleton_iff)
qed

lemma converts_Hash:
  assumes "c \<noteq> []"
  shows "converts c Class_Hash
      (if c \<in> {''HLEN'', ''HGETALL''} then 1 else if c \<in> {''HSET'', ''HINCRBY'', ''HDECRBY''} then 3 else 2)
      (c \<in> {''HSET'', ''HINCRBY'', ''HDECRBY''})
      args (Cmd_Hash (JsonToHashCommand (JString c # args)))"
proof (cases "args = [] \<or> [] \<in> set (map string_value args)")
  case True
  then show ?thesis using assms by (intro converts_invalid) (simp_all add: JsonToHashCommand_def JsonToBase_args)
next
  case False
  then obtain a as where "args = a # as" by (cases args) auto
  with False assms show ?thesis
    by (cases "c \<in> {''HLEN'', ''HGETALL''}"; cases "c \<in> {''HSET'', ''HINCRBY'', ''HDECRBY''}")
      (simp_all add: converter_defs del: insert_iff singleton_iff, auto intro: even_length_ge_two)
qed

lemma converts_Set:
  assumes "c \<noteq> []"
  shows "converts c Class_Set
      (if c \<in> {''SCARD'', ''SRANDMEMBER'', ''SMEMBERS'', ''SPOP''} then 1 else 2) False
      args (Cmd_Set (JsonToSetCommand (JString c # args)))"
proof (cases "args = [] \<or> [] \<in> set (map string_value args)")
  case True
  then show ?thesis using assms by (intro converts_invalid) (simp_all add: JsonToSetCommand_def JsonToBase_args)
next
  case False
  then obtain a as where "args = a # as" by (cases args) auto
  with False assms show ?thesis
    by (cases "c \<in> {''SCARD'', ''SRANDMEMBER'', ''SMEMBERS'', ''SPOP''}")
      (simp_all add: converter_defs del: insert_iff singleton_iff)
qed

lemma converts_ZSet:
  assumes "c \<noteq> []"
  shows "converts c Class_ZSet
      (if c = ''ZCARD'' then 1 else if c \<in> {''ZRANK'', ''ZSCORE''} then 2 else 3)
      (\<not> (c = ''ZCARD'' \<or> c \<in> {''ZRANK'', ''ZSCORE''}))
      args (Cmd_ZSet (JsonToZSetCommand (JString c # args)))"
proof (cases "args = [] \<or> [] \<in> set (map string_value args)")
  case True
  then show ?thesis using assms by (intro converts_invalid) (simp_all add: JsonToZSetCommand_def JsonToBase_args)
next
  case False
  then obtain a as where "args = a # as" by (cases args) auto
  with False assms show ?thesis
    by (cases "c = ''ZCARD''"; cases "c \<in> {''ZRANK'', ''ZSCORE''}")
      (simp_all add: converter_defs del: insert_iff singleton_iff, auto intro: even_length_ge_two)
qed

lemma converts_Db:
  assumes "c \<noteq> []"
  shows "converts c Class_Db (if c = ''REWRITE'' then 0 else if c \<in> {''DEL'', ''WHEN''} then 1 else 2) False
      args (Cmd_Db (JsonToDbCommand (JString c # args)))"
proof (cases "c = ''REWRITE''")
  case True
  then show ?thesis by (simp add: converts_def enough_operands_def JsonToDbCommand_def)
next
  case db: False
  show ?thesis
  proof (cases "args = [] \<or> [] \<in> set (map string_value args)")
    case True
    then show ?thesis using assms db by (intro converts_invalid) (simp_all add: JsonToDbCommand_def JsonToBase_args)
  next
    case False
    then obtain a as where "args = a # as" by (cases args) auto
    with False assms db show ?thesis
      by (cases "c \<in> {''DEL'', ''WHEN''}") (simp_all add: converter_defs del: insert_iff singleton_iff)
  qed
qed

lemma converts_Cli:
  "converts c Class_Cli (if c \<in> {''CREATE'', ''SHOW''} then 0 else 1) False args (Cmd_Cli (JsonToCliCommand (JString c # args)))"
  by (cases args; cases "tl args") (auto simp: converter_defs)

lemma converts_ENDFORKING:
  "\<exists>cmd. JsonToServerCommand (JString ''ENDFORKING'' # args) = Inr cmd \<and> converts ''ENDFORKING'' Class_Server 0 False args (Cmd_Server cmd)"
  by (simp add: converter_defs JsonToServerCommand_def)

lemmas command_sets =
  isZSetCommand_def isSetCommand_def isHashCommand_def isListCommand_def isStrCommand_def isDbCommand_def
  isCliCommand_def isServerCommand_def

text \<open>The classes are disjoint.\<close>

lemma command_sets_disjoint:
  "isSetCommand c \<Longrightarrow> \<not> isZSetCommand c"
  "isHashCommand c \<Longrightarrow> \<not> isZSetCommand c \<and> \<not> isSetCommand c"
  "isListCommand c \<Longrightarrow> \<not> isZSetCommand c \<and> \<not> isSetCommand c \<and> \<not> isHashCommand c"
  "isStrCommand c \<Longrightarrow> \<not> isZSetCommand c \<and> \<not> isSetCommand c \<and> \<not> isHashCommand c \<and> \<not> isListCommand c"
  "isDbCommand c \<Longrightarrow> \<not> isZSetCommand c \<and> \<not> isSetCommand c \<and> \<not> isHashCommand c \<and> \<not> isListCommand c \<and> \<not> isStrCommand c"
  "isCliCommand c \<Longrightarrow> \<not> isZSetCommand c \<and> \<not> isSetCommand c \<and> \<not> isHashCommand c \<and> \<not> isListCommand c \<and>
     \<not> isStrCommand c \<and> \<not> isDbCommand c"
  "isServerCommand c \<Longrightarrow> \<not> isZSetCommand c \<and> \<not> isSetCommand c \<and> \<not> isHashCommand c \<and> \<not> isListCommand c \<and>
     \<not> isStrCommand c \<and> \<not> isDbCommand c \<and> \<not> isCliCommand c"
  unfolding command_sets insert_iff empty_iff by (elim disjE; simp)+

lemma command_table_class:
  assumes "(c, cls, least, paired) \<in> set command_table"
  shows "case cls of
      Class_Str \<Rightarrow> isStrCommand c \<and> least = (if c \<in> {''GET'', ''LEN''} then 1 else 2) \<and> paired = False
    | Class_List \<Rightarrow> isListCommand c \<and> paired = False \<and>
        least = (if c \<in> {''LPOPF'', ''LPOPB'', ''LLEN''} then 1 else if c \<in> {''LREM'', ''LSET'', ''LTRIM''} then 3 else 2)
    | Class_Hash \<Rightarrow> isHashCommand c \<and> paired = (c \<in> {''HSET'', ''HINCRBY'', ''HDECRBY''}) \<and>
        least = (if c \<in> {''HLEN'', ''HGETALL''} then 1 else if c \<in> {''HSET'', ''HINCRBY'', ''HDECRBY''} then 3 else 2)
    | Class_Set \<Rightarrow> isSetCommand c \<and> paired = False \<and>
        least = (if c \<in> {''SCARD'', ''SRANDMEMBER'', ''SMEMBERS'', ''SPOP''} then 1 else 2)
    | Class_ZSet \<Rightarrow> isZSetCommand c \<and> paired = (\<not> (c = ''ZCARD'' \<or> c \<in> {''ZRANK'', ''ZSCORE''})) \<and>
        least = (if c = ''ZCARD'' then 1 else if c \<in> {''ZRANK'', ''ZSCORE''} then 2 else 3)
    | Class_Db \<Rightarrow> isDbCommand c \<and> paired = False \<and> least = (if c = ''REWRITE'' then 0 else if c \<in> {''DEL'', ''WHEN''} then 1 else 2)
    | Class_Cli \<Rightarrow> isCliCommand c \<and> paired = False \<and> least = (if c \<in> {''CREATE'', ''SHOW''} then 0 else 1)
    | Class_Server \<Rightarrow> c = ''ENDFORKING'' \<and> paired = False \<and> least = 0"
  using assms unfolding command_table_def set_append list.map list.set Un_iff insert_iff empty_iff prod.inject
  by (elim disjE conjE FalseE)
    (simp_all add: command_sets)

lemma RequestToCommandExec_converts:
  assumes "(c, cls, least, paired) \<in> set command_table" and "map toupper (string_value r0) = c"
  shows "\<exists>cmd. RequestToCommandExec client (r0 # args) = Inr (Some (client, cmd)) \<and> converts c cls least paired args cmd"
proof -
  have "c \<noteq> []" using assms(1) by (auto simp: command_table_def)
  note conv = converts_Str [OF this] converts_List [OF this] converts_Hash [OF this] converts_Set [OF this]
    converts_ZSet [OF this] converts_Db [OF this] converts_Cli
  note t = command_table_class [OF assms(1)]
  note r = RequestToCommandExec_def [of client "r0 # args", unfolded list.case assms(2) Let_def]
  show ?thesis
  proof (cases cls)
    case Class_Server
    then have c: "c = ''ENDFORKING''" "paired = False" "least = 0" using t by simp_all
    then have "isServerCommand c" by (simp add: isServerCommand_def)
    then show ?thesis using converts_ENDFORKING [of args] command_sets_disjoint(7) [of c] unfolding r Class_Server c by auto
  qed (use t conv command_sets_disjoint [of c] in \<open>simp_all add: r\<close>)
qed

lemma RequestToCommandExec_unknown:
  assumes "map toupper (string_value r0) \<notin> insert ''FORK'' (fst ` set command_table)"
  shows "RequestToCommandExec client (r0 # args) = Inr None"
proof -
  define c where "c = map toupper (string_value r0)"
  have "c \<notin> insert ''FORK'' (fst ` set command_table)" using assms by (simp add: c_def)
  then have "\<not> isZSetCommand c" "\<not> isSetCommand c" "\<not> isHashCommand c" "\<not> isListCommand c" "\<not> isStrCommand c"
      "\<not> isDbCommand c" "\<not> isCliCommand c" "\<not> isServerCommand c"
    by (simp_all add: command_table_def command_sets)
  then show ?thesis by (simp add: RequestToCommandExec_def c_def [symmetric] Let_def)
qed

lemma RequestToCommandExec_FORK:
  assumes "map toupper (string_value r0) = ''FORK''"
  shows "RequestToCommandExec client (r0 # args) =
    rbind (JsonToServerCommand (JString ''FORK'' # args)) (\<lambda>cmd. Inr (Some (client, Cmd_Server cmd)))"
  by (simp add: RequestToCommandExec_def assms Let_def command_sets rbind_def split: sum.splits)

text \<open>The address of \<open>FORK\<close>: a host and a port with a colon between them.\<close>

lemma JsonToServerCommand_FORK:
  assumes "addr \<noteq> []" and "[] \<notin> set (map string_value rest)"
  shows "CHR '':'' \<notin> set addr \<Longrightarrow> JsonToServerCommand (JString ''FORK'' # JString addr # rest) =
      Inr \<lparr>valid = False, command = ''FORK'', obj_name = addr, ip = [], port = None\<rparr>"
    and "addr = host @ CHR '':'' # prt \<Longrightarrow> CHR '':'' \<notin> set host \<Longrightarrow>
      JsonToServerCommand (JString ''FORK'' # JString addr # rest) =
        rbind (stoi prt) (\<lambda>p. Inr \<lparr>valid = True, command = ''FORK'', obj_name = addr, ip = host, port = Some (ucast p)\<rparr>)"
proof -
  have base: "JsonToBase ret (JString ''FORK'' # JString addr # rest) =
      (True, ret\<lparr>command := ''FORK'', obj_name := addr, valid := True\<rparr>)" for ret :: ServerCommand
    using assms by (simp add: JsonToBase_args)
  show "JsonToServerCommand (JString ''FORK'' # JString addr # rest) =
      Inr \<lparr>valid = False, command = ''FORK'', obj_name = addr, ip = [], port = None\<rparr>" if "CHR '':'' \<notin> set addr"
  proof -
    have d: "dropWhile (\<lambda>c. c \<noteq> CHR '':'') addr = []" using that by (auto simp: dropWhile_eq_Nil_conv)
    show ?thesis by (simp add: JsonToServerCommand_def Let_def base d)
  qed
  show "JsonToServerCommand (JString ''FORK'' # JString addr # rest) =
      rbind (stoi prt) (\<lambda>p. Inr \<lparr>valid = True, command = ''FORK'', obj_name = addr, ip = host, port = Some (ucast p)\<rparr>)"
    if "addr = host @ CHR '':'' # prt" "CHR '':'' \<notin> set host"
  proof -
    have "\<forall>c \<in> set host. c \<noteq> CHR '':''" using that(2) by blast
    then have d: "dropWhile (\<lambda>c. c \<noteq> CHR '':'') addr = CHR '':'' # prt" "takeWhile (\<lambda>c. c \<noteq> CHR '':'') addr = host"
      unfolding that(1) by (simp_all add: dropWhile_append2 takeWhile_append2)
    show ?thesis by (simp add: JsonToServerCommand_def Let_def base d)
  qed
qed

text \<open>\<open>DROP\<close> is not among the commands a request can ask for.\<close>

lemma JsonToCliCommand_command: "command (JsonToCliCommand (JString cmd # args)) = cmd"
  by (simp add: JsonToCliCommand_def Let_def)

lemma RequestToCommandExec_ok:
  "RequestToCommandExec client request = Inr (Some (h, cmd)) \<Longrightarrow> h = client \<and> Command_ok cmd"
  by (auto simp: RequestToCommandExec_def Let_def rbind_eq_Inr_iff JsonTo_ok
      JsonToCliCommand_command isCliCommand_def
      split: list.splits if_splits)

lemma safe_StrCommand_run: "StrCommand_ok cmd \<Longrightarrow> valid cmd \<Longrightarrow> safe (StrCommand_run cmd s)"
  unfolding StrCommand_run_def by (intro safe_intros) (auto simp: StrCommand_ok_def)

lemma safe_ListCommand_run: "ListCommand_ok cmd \<Longrightarrow> valid cmd \<Longrightarrow> safe (ListCommand_run cmd l)"
  unfolding ListCommand_run_def by (intro safe_intros) (auto simp: ListCommand_ok_def)

lemma safe_HashCommand_run: "HashCommand_ok cmd \<Longrightarrow> valid cmd \<Longrightarrow> safe (HashCommand_run cmd h)"
  unfolding HashCommand_run_def by (intro safe_intros) (auto simp: HashCommand_ok_def)

lemma safe_SetCommand_run: "SetCommand_ok cmd \<Longrightarrow> valid cmd \<Longrightarrow> safe (SetCommand_run rnd cmd db st)"
  unfolding SetCommand_run_def another_set_def by (intro safe_intros) (auto simp: SetCommand_ok_def)

lemma safe_ZSetCommand_run: "ZSetCommand_ok cmd \<Longrightarrow> valid cmd \<Longrightarrow> safe (ZSetCommand_run cmd z)"
  unfolding ZSetCommand_run_def by (intro safe_intros) (auto simp: ZSetCommand_ok_def)

section \<open>Commands on a database\<close>

context object_command
begin

lemma exec_safe:
  assumes "\<And>db ob. Object_GetObjectType ob = Object_GetObjectType fresh \<Longrightarrow> safe (run db ob)"
  shows "safe (with_object creating new fresh run cmd db)"
  unfolding with_object_def Let_def by (intro safe_intros assms) simp_all

end

lemma safe_on_class:
  "Object_GetObjectType ob = Object_GetObjectType (Obj_Str s) \<Longrightarrow> (\<And>s. safe (f s)) \<Longrightarrow> safe (on_Str f ob)"
  "Object_GetObjectType ob = Object_GetObjectType (Obj_List l) \<Longrightarrow> (\<And>l. safe (g l)) \<Longrightarrow> safe (on_List g ob)"
  "Object_GetObjectType ob = Object_GetObjectType (Obj_Hash h) \<Longrightarrow> (\<And>h. safe (k h)) \<Longrightarrow> safe (on_Hash k ob)"
  "Object_GetObjectType ob = Object_GetObjectType (Obj_Set t) \<Longrightarrow> (\<And>t. safe (m t)) \<Longrightarrow> safe (on_Set m ob)"
  "Object_GetObjectType ob = Object_GetObjectType (Obj_ZSet z) \<Longrightarrow> (\<And>z. safe (n z)) \<Longrightarrow> safe (on_ZSet n ob)"
  by (auto simp: Object_class_cases simp del: Object_GetObjectType.simps intro!: safe_intros)

lemma safe_object_commands:
  "StrCommand_ok c1 \<Longrightarrow> valid c1 \<Longrightarrow> safe (StrCommand_Exec c1 db)"
  "ListCommand_ok c2 \<Longrightarrow> valid c2 \<Longrightarrow> safe (ListCommand_Exec c2 db)"
  "HashCommand_ok c3 \<Longrightarrow> valid c3 \<Longrightarrow> safe (HashCommand_Exec c3 db)"
  "SetCommand_ok c4 \<Longrightarrow> valid c4 \<Longrightarrow> safe (SetCommand_Exec rnd c4 db)"
  "ZSetCommand_ok c5 \<Longrightarrow> valid c5 \<Longrightarrow> safe (ZSetCommand_Exec c5 db)"
  unfolding StrCommand_Exec_def ListCommand_Exec_def HashCommand_Exec_def SetCommand_Exec_def
    ZSetCommand_Exec_def
  by (rule str_command.exec_safe list_command.exec_safe hash_command.exec_safe set_command.exec_safe
      zset_command.exec_safe, erule safe_on_class,
      simp only: safe_StrCommand_run safe_ListCommand_run safe_HashCommand_run safe_SetCommand_run
      safe_ZSetCommand_run)+

end
