(* ===== verification/Config.thy ===== *)
theory Config
  imports Json
begin

text \<open>
  The configuration (\<open>struct RedisConf\<close>, \<open>LoadConf\<close>, \<open>DefaultConf\<close>) and the clock of \<open>src/util.cc\<close>.
  The file \<open>redis-conf.json\<close> is an argument, \<open>None\<close> when it cannot be opened.  The conversion of a
  floating point number to \<open>int\<close> is a parameter: \<open>trunc\<close> maps the text of the number to the result.
\<close>

section \<open>The clock\<close>

definition UsTime :: "size_t \<Rightarrow> size_t \<Rightarrow> size_t" where
  "UsTime tv_sec tv_usec = tv_sec * 1000000 + tv_usec"

definition MsTime :: "size_t \<Rightarrow> size_t \<Rightarrow> size_t" where
  "MsTime tv_sec tv_usec = UsTime tv_sec tv_usec div 1000"

section \<open>Accessors of JSON values\<close>

fun int_value :: "(string \<Rightarrow> int32) \<Rightarrow> Json \<Rightarrow> int32" where
  "int_value trunc (JInt n) = n"
| "int_value trunc (JDouble t) = trunc t"
| "int_value trunc _ = 0"

fun bool_value :: "Json \<Rightarrow> bool" where
  "bool_value (JBool b) = b"
| "bool_value _ = False"

fun object_items :: "Json \<Rightarrow> (string \<times> Json) list" where
  "object_items (JObject kvs) = kvs"
| "object_items _ = []"

section \<open>The configuration\<close>

record RedisConf =
  conf_file_name :: string
  conf_ip :: string
  conf_port :: "16 word"
  conf_compress :: bool
  conf_enable_aof :: bool
  conf_every_n_sec :: size_t
  conf_save_n_times :: size_t
  conf_mem_size_mbytes :: size_t
  conf_cpu_num :: int32
  conf_password :: string
  conf_aof_mode :: string

definition RedisConf_zero :: RedisConf where
  "RedisConf_zero =
     \<lparr>conf_file_name = [], conf_ip = [], conf_port = 0, conf_compress = False, conf_enable_aof = False,
      conf_every_n_sec = 0, conf_save_n_times = 0, conf_mem_size_mbytes = 0, conf_cpu_num = 0,
      conf_password = [], conf_aof_mode = []\<rparr>"

definition DefaultConf :: RedisConf where
  "DefaultConf =
     \<lparr>conf_file_name = ''dump.db'', conf_ip = ''127.0.0.1'', conf_port = 8080, conf_compress = True,
      conf_enable_aof = False, conf_every_n_sec = 1, conf_save_n_times = 1,
      conf_mem_size_mbytes = 4096, conf_cpu_num = 2, conf_password = ''yeah'', conf_aof_mode = []\<rparr>"

definition conf_fields :: "string list" where
  "conf_fields =
     [''dbfile'', ''ip'', ''port'', ''compress'', ''aof'', ''aof_mode'', ''sec'', ''time'',
      ''memsiz_mb'', ''cpu'', ''password'']"

text \<open>An \<open>int\<close> stored in a \<open>std::size_t\<close> is sign-extended, in a \<open>short\<close> truncated.\<close>

definition conf_of_object :: "(string \<Rightarrow> int32) \<Rightarrow> (string \<times> Json) list \<Rightarrow> RedisConf" where
  "conf_of_object trunc obj_value =
     (let field = (\<lambda>f. case map_of obj_value f of None \<Rightarrow> JNull | Some v \<Rightarrow> v);
          size = (\<lambda>f. word_of_int (sint (int_value trunc (field f))) :: size_t)
      in if \<not> list_all (\<lambda>f. map_of obj_value f \<noteq> None) conf_fields then DefaultConf
         else
           \<lparr>conf_file_name = string_value (field ''dbfile''),
            conf_ip = string_value (field ''ip''),
            conf_port = ucast (int_value trunc (field ''port'')),
            conf_compress = bool_value (field ''compress''),
            conf_enable_aof = bool_value (field ''aof''),
            conf_every_n_sec = size ''sec'',
            conf_save_n_times = size ''time'',
            conf_mem_size_mbytes = size ''memsiz_mb'',
            conf_cpu_num = int_value trunc (field ''cpu''),
            conf_password = string_value (field ''password''),
            conf_aof_mode = string_value (field ''aof_mode'')\<rparr>)"

text \<open>A text that does not parse gives the default configuration, as a value without fields does.\<close>

definition LoadConf :: "(string \<Rightarrow> int32) \<Rightarrow> string option \<Rightarrow> RedisConf" where
  "LoadConf trunc conf_file =
     (case conf_file of
        None \<Rightarrow> RedisConf_zero
      | Some conf_text \<Rightarrow> conf_of_object trunc (object_items (parse conf_text)))"

section \<open>A written configuration is read back\<close>

definition conf_int :: "int \<Rightarrow> Json" where
  "conf_int i = JInt (word_of_int i)"

definition conf_json :: "RedisConf \<Rightarrow> Json" where
  "conf_json c =
     JObject
       [(''aof'', JBool (conf_enable_aof c)),
        (''aof_mode'', JString (conf_aof_mode c)),
        (''compress'', JBool (conf_compress c)),
        (''cpu'', JInt (conf_cpu_num c)),
        (''dbfile'', JString (conf_file_name c)),
        (''ip'', JString (conf_ip c)),
        (''memsiz_mb'', conf_int (uint (conf_mem_size_mbytes c))),
        (''password'', JString (conf_password c)),
        (''port'', conf_int (uint (conf_port c))),
        (''sec'', conf_int (uint (conf_every_n_sec c))),
        (''time'', conf_int (uint (conf_save_n_times c)))]"

text \<open>The numbers of the configuration have at most eight digits, so they are read as \<open>int\<close>.\<close>

definition conf_small :: "RedisConf \<Rightarrow> bool" where
  "conf_small c \<longleftrightarrow>
     uint (conf_every_n_sec c) < 100000000 \<and> uint (conf_save_n_times c) < 100000000 \<and>
     uint (conf_mem_size_mbytes c) < 100000000 \<and> \<bar>sint (conf_cpu_num c)\<bar> < 100000000"

lemma length_nat_to_string: "n < 10 ^ Suc k \<Longrightarrow> length (nat_to_string n) \<le> Suc k"
proof (induction k arbitrary: n)
  case 0
  then show ?case by (simp add: nat_to_string.simps [of n])
next
  case (Suc k)
  then have "n div 10 < 10 ^ Suc k" by (simp add: less_mult_imp_div_less)
  from Suc.IH [OF this] show ?case by (simp add: nat_to_string.simps [of n])
qed

lemma length_to_string_small: "\<bar>sint w\<bar> < 100000000 \<Longrightarrow> length (to_string w) \<le> 9"
  using length_nat_to_string [of "nat (sint w)" 7] length_nat_to_string [of "nat (- sint w)" 7]
  by (auto simp: to_string_def to_string_int_def nat_less_iff)

lemma dump_ok_conf_int: "0 \<le> i \<Longrightarrow> i < 100000000 \<Longrightarrow> dump_ok (Suc d) (conf_int i)"
  by (simp add: conf_int_def length_to_string_small fits_int_def)

lemma int_value_conf_int: "0 \<le> i \<Longrightarrow> i < 100000000 \<Longrightarrow> sint (int_value trunc (conf_int i)) = i"
  by (simp add: conf_int_def fits_int_def)

lemma conf_port_bound: "uint (p :: 16 word) < 100000000"
  using uint_lt2p [of p] by simp

lemma dump_ok_conf_json: "conf_small c \<Longrightarrow> dump_ok (Suc (Suc d)) (conf_json c)"
  unfolding conf_json_def conf_small_def
  by (simp add: dump_ok_conf_int conf_port_bound length_to_string_small less_char_def
      del: dump_ok.simps(4))
    (simp add: length_to_string_small)

lemma LoadConf_conf_json:
  assumes "conf_small c"
  shows "LoadConf trunc (Some (dump fmt (conf_json c))) = c"
proof -
  have p: "parse (dump fmt (conf_json c)) = conf_json c"
    by (rule parse_dump) (use dump_ok_conf_json [OF assms, of "max_depth - 1"] in \<open>simp add: max_depth_def\<close>)
  have port: "ucast (int_value trunc (conf_int (uint w))) = w" for w :: "16 word"
    by (rule bit_word_eqI) (simp add: conf_int_def bit_ucast_iff bit_word_of_int_iff bit_uint_iff)
  have size: "word_of_int (sint (int_value trunc (conf_int (uint w)))) = w"
    if "uint w < 100000000" for w :: size_t
    unfolding int_value_conf_int [OF uint_ge_0 that] by (rule word_of_int_uint)
  have "conf_of_object trunc (object_items (conf_json c)) = c"
    using assms
    by (simp add: conf_of_object_def conf_json_def conf_fields_def conf_small_def Let_def size port
        del: of_int_sint)
  then show ?thesis by (simp only: LoadConf_def option.case p)
qed

lemma conf_missing_field:
  "f \<in> set conf_fields \<Longrightarrow> map_of (object_items (parse conf_text)) f = None \<Longrightarrow>
     LoadConf trunc (Some conf_text) = DefaultConf"
  by (auto simp: LoadConf_def conf_of_object_def Let_def list_all_iff)

end
