(* ===== verification/Server.thy ===== *)
theory Server
  imports Json
begin

text \<open>
  The connections of \<open>src/server/server.cc\<close>: the class \<open>ClientInfo\<close> with its two buffers, and the
  class \<open>Server\<close> with the table of clients and the interest list of \<open>epoll\<close>.

  A client is named by a handle, its database by the handle of the database.  The table \<open>client_map_\<close>
  holds the only lasting \<open>shared_ptr\<close> to a client, so a \<open>weak_ptr\<close> can be locked exactly when its
  client is in the table; the key in the table is the descriptor of the client.  What the kernel
  answers (\<open>epoll_wait\<close>, \<open>accept\<close>, \<open>recv\<close>, \<open>send\<close>) is an argument.
\<close>

section \<open>Clients\<close>

datatype epoll_flag = EPOLLIN | EPOLLOUT

datatype errno = EAGAIN | EPIPE | Other_errno

datatype recv_result = Received string | Recv_Error errno

record ClientInfo =
  cli_fd :: int32
  cli_database :: "nat option"
  recv_buffer :: string
  send_buffer :: string

definition ClientInfo_ctor :: "int32 \<Rightarrow> ClientInfo" where
  "ClientInfo_ctor fd = \<lparr>cli_fd = fd, cli_database = None, recv_buffer = [], send_buffer = []\<rparr>"

definition ClientInfo_SetDB :: "nat option \<Rightarrow> ClientInfo \<Rightarrow> ClientInfo" where
  "ClientInfo_SetDB db c = c\<lparr>cli_database := db\<rparr>"

definition ClientInfo_GetDB :: "ClientInfo \<Rightarrow> nat option" where
  "ClientInfo_GetDB c = cli_database c"

definition ClientInfo_GetFD :: "ClientInfo \<Rightarrow> int32" where
  "ClientInfo_GetFD c = cli_fd c"

text \<open>
  The loop of \<open>Read\<close> repeats while \<open>recv\<close> fills its buffer of 65535 bytes.  When the given answers
  are used up the socket has no more data, and \<open>recv\<close> fails with \<open>EAGAIN\<close>.
\<close>

fun ClientInfo_Read_loop ::
    "int32 \<Rightarrow> recv_result list \<Rightarrow> ClientInfo \<Rightarrow> (int32 \<times> errno \<times> ClientInfo) result" where
  "ClientInfo_Read_loop total_n [] c = Inr (-1, EAGAIN, c)"
| "ClientInfo_Read_loop total_n (Recv_Error err # answers) c = Inr (-1, err, c)"
| "ClientInfo_Read_loop total_n (Received buf # answers) c =
     rbind (int_add total_n (word_of_nat (length buf))) (\<lambda>total_n'.
       if buf = [] then Inr (0, Other_errno, c)
       else
         (let c' = c\<lparr>recv_buffer := recv_buffer c @ buf\<rparr> in
          if length buf = 65535 then ClientInfo_Read_loop total_n' answers c'
          else Inr (total_n', Other_errno, c')))"

definition ClientInfo_Read :: "recv_result list \<Rightarrow> ClientInfo \<Rightarrow> (int32 \<times> errno \<times> ClientInfo) result" where
  "ClientInfo_Read answers c = ClientInfo_Read_loop 0 answers c"

text \<open>\<open>n\<close> is what \<open>send\<close> answers.\<close>

definition ClientInfo_Send :: "int32 \<Rightarrow> ClientInfo \<Rightarrow> (int32 \<times> ClientInfo) result" where
  "ClientInfo_Send n c =
     (if send_buffer c = [] then Inr (0, c)
      else if n = 0 \<or> n = -1 then Inr (n, c)
      else if sint n < 0 \<or> length (send_buffer c) < nat (sint n) then Inl Undefined
      else Inr (n, c\<lparr>send_buffer := drop (nat (sint n)) (send_buffer c)\<rparr>))"

definition ClientInfo_Append :: "(string \<Rightarrow> string) \<Rightarrow> json_array \<Rightarrow> ClientInfo \<Rightarrow> ClientInfo" where
  "ClientInfo_Append fmt to_send_message c =
     c\<lparr>send_buffer := send_buffer c @ dump fmt (JArray to_send_message)\<rparr>"

definition ClientInfo_IsSendOut :: "ClientInfo \<Rightarrow> bool" where
  "ClientInfo_IsSendOut c \<longleftrightarrow> send_buffer c = []"

text \<open>
  The loop of \<open>ExportMessages\<close>: the first \<open>[\<close> and the first \<open>]\<close> of the buffer delimit a message.
\<close>

function ExportMessages_loop :: "string \<Rightarrow> json_array list \<times> string" where
  "ExportMessages_loop buf =
     (let beg = dropWhile (\<lambda>c. c \<noteq> CHR ''['') buf; fin = dropWhile (\<lambda>c. c \<noteq> CHR '']'') buf in
      if beg = [] \<or> fin = [] \<or> length beg \<le> length fin then ([], buf)
      else
        (case ExportMessages_loop (tl fin) of
           (ret, buf') \<Rightarrow>
             (array_items (parse (take (length beg - length fin + 1) beg)) # ret, buf')))"
  by pat_completeness auto
termination
proof (relation "measure length")
  fix buf beg fin :: string
  assume "fin = dropWhile (\<lambda>c. c \<noteq> CHR '']'') buf" "\<not> (beg = [] \<or> fin = [] \<or> length beg \<le> length fin)"
  then have "fin \<noteq> []" "length fin \<le> length buf" by (simp_all add: length_dropWhile_le)
  then have "length (tl fin) < length buf" by (cases fin) auto
  then show "(tl fin, buf) \<in> measure length" by simp
qed simp

declare ExportMessages_loop.simps [simp del]

definition ClientInfo_ExportMessages :: "ClientInfo \<Rightarrow> json_array list \<times> ClientInfo" where
  "ClientInfo_ExportMessages c =
     (case ExportMessages_loop (recv_buffer c) of (ret, buf) \<Rightarrow> (ret, c\<lparr>recv_buffer := buf\<rparr>))"

section \<open>The table of clients\<close>

record Server =
  client_map :: "(nat \<times> ClientInfo) list"
  interest :: "int32 \<Rightarrow> epoll_flag option"
  client_source :: nat

definition Server_init :: Server where
  "Server_init = \<lparr>client_map = [], interest = (\<lambda>fd. None), client_source = 0\<rparr>"

definition client_find :: "int32 \<Rightarrow> Server \<Rightarrow> (nat \<times> ClientInfo) option" where
  "client_find fd srv = find (\<lambda>(h, c). cli_fd c = fd) (client_map srv)"

text \<open>\<open>weak_ptr::lock\<close>\<close>

definition client_lock :: "nat \<Rightarrow> Server \<Rightarrow> ClientInfo option" where
  "client_lock h srv = map_of (client_map srv) h"

text \<open>A change of a client through a pointer to it.\<close>

definition client_put :: "nat \<Rightarrow> ClientInfo \<Rightarrow> Server \<Rightarrow> Server" where
  "client_put h c srv = srv\<lparr>client_map := map (\<lambda>(h', c'). (h', if h' = h then c else c')) (client_map srv)\<rparr>"

text \<open>Closing a descriptor removes it from the interest list.\<close>

definition fd_close :: "int32 \<Rightarrow> Server \<Rightarrow> Server" where
  "fd_close fd srv = srv\<lparr>interest := (interest srv)(fd := None)\<rparr>"

text \<open>\<open>EPOLL_CTL_MOD\<close> fails for a descriptor that is not in the list.\<close>

definition epoll_mod :: "int32 \<Rightarrow> epoll_flag \<Rightarrow> Server \<Rightarrow> Server" where
  "epoll_mod fd flag srv =
     (if interest srv fd = None then srv else srv\<lparr>interest := (interest srv)(fd \<mapsto> flag)\<rparr>)"

definition Server_EnableSend :: "ClientInfo \<Rightarrow> Server \<Rightarrow> Server" where
  "Server_EnableSend c srv = epoll_mod (ClientInfo_GetFD c) EPOLLOUT srv"

definition Server_EnableRead :: "ClientInfo \<Rightarrow> Server \<Rightarrow> Server" where
  "Server_EnableRead c srv = epoll_mod (ClientInfo_GetFD c) EPOLLIN srv"

text \<open>Erasing the entry destroys the client, which closes its descriptor.\<close>

definition Server_RemoveCli :: "int32 \<Rightarrow> Server \<Rightarrow> Server" where
  "Server_RemoveCli fd srv =
     (let srv1 = srv\<lparr>interest := (interest srv)(fd := None)\<rparr> in
      case client_find fd srv1 of
        None \<Rightarrow> srv1
      | Some (h, c) \<Rightarrow> fd_close fd (srv1\<lparr>client_map := filter (\<lambda>(h', c'). h' \<noteq> h) (client_map srv1)\<rparr>))"

definition ClientInfo_Logout :: "ClientInfo \<Rightarrow> Server \<Rightarrow> Server" where
  "ClientInfo_Logout c srv = Server_RemoveCli (ClientInfo_GetFD c) srv"

text \<open>
  What \<open>epoll_wait\<close> reports: a connection on the listening socket, with the result of \<open>accept\<close>, or
  another descriptor, readable or not.  A result of -1 is a descriptor like any other to the code;
  registering it with \<open>epoll\<close> fails.
\<close>

datatype kernel_event = Incoming int32 | Ready int32 bool

definition Server_accept :: "int32 \<Rightarrow> Server \<Rightarrow> Server" where
  "Server_accept cfd srv =
     (let srv1 = (if cfd = -1 then srv else srv\<lparr>interest := (interest srv)(cfd \<mapsto> EPOLLIN)\<rparr>) in
      case client_find cfd srv1 of
        Some _ \<Rightarrow> fd_close cfd srv1
      | None \<Rightarrow>
          srv1\<lparr>client_map := client_map srv1 @ [(client_source srv1, ClientInfo_ctor cfd)],
               client_source := Suc (client_source srv1)\<rparr>)"

fun Server_Wait :: "kernel_event list \<Rightarrow> Server \<Rightarrow> (nat \<times> epoll_flag) list \<times> Server" where
  "Server_Wait [] srv = ([], srv)"
| "Server_Wait (Incoming cfd # evs) srv = Server_Wait evs (Server_accept cfd srv)"
| "Server_Wait (Ready fd readable # evs) srv =
     (case client_find fd srv of
        None \<Rightarrow> Server_Wait evs (fd_close fd srv)
      | Some (h, c) \<Rightarrow>
          (case Server_Wait evs srv of
             (ret, srv') \<Rightarrow> ((h, if readable then EPOLLIN else EPOLLOUT) # ret, srv')))"

text \<open>\<open>ReadCli\<close> and \<open>SendCli\<close>: the client of a descriptor reads or sends; -1 without such a client.\<close>

definition Server_ReadCli :: "int32 \<Rightarrow> recv_result list \<Rightarrow> Server \<Rightarrow> (int32 \<times> Server) result" where
  "Server_ReadCli fd answers srv =
     (case client_find fd srv of
        None \<Rightarrow> Inr (-1, fd_close fd srv)
      | Some (h, c) \<Rightarrow> rbind (ClientInfo_Read answers c) (\<lambda>(n, err, c'). Inr (n, client_put h c' srv)))"

definition Server_SendCli :: "int32 \<Rightarrow> int32 \<Rightarrow> Server \<Rightarrow> (int32 \<times> Server) result" where
  "Server_SendCli fd sent srv =
     (case client_find fd srv of
        None \<Rightarrow> Inr (-1, fd_close fd srv)
      | Some (h, c) \<Rightarrow> rbind (ClientInfo_Send sent c) (\<lambda>(n, c'). Inr (n, client_put h c' srv)))"

section \<open>Messages\<close>

text \<open>
  How the bytes of the stream are cut into packets does not matter: reading them piece by piece
  gives the messages that reading them at once gives.
\<close>

lemma dropWhile_append_found: "dropWhile P xs \<noteq> [] \<Longrightarrow> dropWhile P (xs @ ys) = dropWhile P xs @ ys"
  by (induction xs) auto

lemma dropWhile_hd_eq: "dropWhile (\<lambda>c. c \<noteq> x) xs = y # ys \<Longrightarrow> y = x"
  using hd_dropWhile [of "\<lambda>c. c \<noteq> x" xs] by simp

lemma ExportMessages_step:
  assumes "dropWhile (\<lambda>c. c \<noteq> CHR ''['') buf = beg" and "dropWhile (\<lambda>c. c \<noteq> CHR '']'') buf = fin"
    and "beg \<noteq> []" and "fin \<noteq> []" and "length fin < length beg"
  shows "ExportMessages_loop buf =
    (case ExportMessages_loop (tl fin) of
       (ret, buf') \<Rightarrow> (array_items (parse (take (length beg - length fin + 1) beg)) # ret, buf'))"
  using assms(3-5) unfolding ExportMessages_loop.simps [of buf] Let_def assms(1,2) by simp

lemma ExportMessages_break:
  assumes "dropWhile (\<lambda>c. c \<noteq> CHR ''['') buf = beg" and "dropWhile (\<lambda>c. c \<noteq> CHR '']'') buf = fin"
    and "beg = [] \<or> fin = [] \<or> length beg \<le> length fin"
  shows "ExportMessages_loop buf = ([], buf)"
  using assms(3) unfolding ExportMessages_loop.simps [of buf] Let_def assms(1,2) by simp

lemma ExportMessages_append:
  "ExportMessages_loop (a @ b) =
     (case ExportMessages_loop a of
        (ms, r) \<Rightarrow> (case ExportMessages_loop (r @ b) of (ms', r') \<Rightarrow> (ms @ ms', r')))"
proof (induction a rule: ExportMessages_loop.induct)
  case (1 a)
  define beg where "beg = dropWhile (\<lambda>c. c \<noteq> CHR ''['') a"
  define fin where "fin = dropWhile (\<lambda>c. c \<noteq> CHR '']'') a"
  show ?case
  proof (cases "beg = [] \<or> fin = [] \<or> length beg \<le> length fin")
    case True
    then show ?thesis
      using ExportMessages_break [OF beg_def [symmetric] fin_def [symmetric]] by (simp split: prod.splits)
  next
    case False
    then have ne: "beg \<noteq> []" "fin \<noteq> []" "length fin < length beg" by auto
    have d: "dropWhile (\<lambda>c. c \<noteq> CHR ''['') (a @ b) = beg @ b" "dropWhile (\<lambda>c. c \<noteq> CHR '']'') (a @ b) = fin @ b"
      using ne unfolding beg_def fin_def by (simp_all only: dropWhile_append_found not_False_eq_True)
    have "Suc 0 - length fin = 0" using ne by (cases fin) auto
    then have ab: "ExportMessages_loop (a @ b) =
        (case ExportMessages_loop (tl fin @ b) of
           (ret, buf') \<Rightarrow> (array_items (parse (take (length beg - length fin + 1) beg)) # ret, buf'))"
      using ExportMessages_step [OF d] ne by simp
    show ?thesis
      unfolding ab ExportMessages_step [OF beg_def [symmetric] fin_def [symmetric] ne]
        1 [OF beg_def fin_def False]
      by (simp split: prod.splits)
  qed
qed

text \<open>A buffer whose first \<open>]\<close> comes before its first \<open>[\<close> gives no message, whatever follows.\<close>

lemma ExportMessages_stuck:
  assumes "CHR '']'' \<in> set a" and "CHR ''['' \<notin> set a"
  shows "ExportMessages_loop (a @ b) = ([], a @ b)"
proof -
  have "dropWhile (\<lambda>c. c \<noteq> CHR '']'') a \<noteq> []" using assms(1) by (auto simp: dropWhile_eq_Nil_conv)
  then have f: "dropWhile (\<lambda>c. c \<noteq> CHR '']'') (a @ b) = dropWhile (\<lambda>c. c \<noteq> CHR '']'') a @ b"
    by (rule dropWhile_append_found)
  have "\<And>x. x \<in> set a \<Longrightarrow> x \<noteq> CHR ''[''" using assms(2) by blast
  then have "dropWhile (\<lambda>c. c \<noteq> CHR ''['') (a @ b) = dropWhile (\<lambda>c. c \<noteq> CHR ''['') b"
    by (simp add: dropWhile_append2)
  moreover have "length (dropWhile (\<lambda>c. c \<noteq> CHR ''['') b) \<le> length b" by (rule length_dropWhile_le)
  ultimately show ?thesis by (intro ExportMessages_break [OF refl f]) simp
qed

subsection \<open>Requests without brackets\<close>

definition bracket_free :: "string \<Rightarrow> bool" where
  "bracket_free s \<longleftrightarrow> CHR ''['' \<notin> set s \<and> CHR '']'' \<notin> set s"

lemma bracket_free_append [simp]: "bracket_free (s @ t) \<longleftrightarrow> bracket_free s \<and> bracket_free t"
  by (auto simp: bracket_free_def)

lemma bracket_free_Cons [simp]:
  "bracket_free (c # s) \<longleftrightarrow> c \<noteq> CHR ''['' \<and> c \<noteq> CHR '']'' \<and> bracket_free s"
  by (auto simp: bracket_free_def)

lemma bracket_free_Nil [simp]: "bracket_free []"
  by (simp add: bracket_free_def)

lemma bracket_free_drop: "bracket_free s \<Longrightarrow> bracket_free (drop n s)"
  by (auto simp: bracket_free_def dest: in_set_dropD)

lemma hex_digit_bracket: "n < 16 \<Longrightarrow> hex_digit n \<noteq> CHR ''['' \<and> hex_digit n \<noteq> CHR '']''"
proof -
  assume "n < 16"
  then have "of_char (hex_digit n) = (if n < 10 then 48 + n else 87 + n :: nat)"
    by (simp add: hex_digit_def)
  with \<open>n < 16\<close> show ?thesis by (auto split: if_splits)
qed

lemma bracket_free_dump_char: "c \<noteq> CHR ''['' \<Longrightarrow> c \<noteq> CHR '']'' \<Longrightarrow> bracket_free (dump_char c)"
  using nat_of_char_less_256 [of c]
  by (simp add: dump_char_def dump_control_def hex_digit_bracket less_mult_imp_div_less)

lemma bracket_free_dump_chars: "bracket_free s \<Longrightarrow> bracket_free (dump_chars s)"
  by (induction s rule: dump_chars.induct) (auto simp: bracket_free_dump_char bracket_free_drop)

lemma bracket_free_separated: "list_all bracket_free ss \<Longrightarrow> bracket_free (separated ss)"
  by (induction ss rule: separated.induct) auto

lemma dump_request:
  assumes "list_all bracket_free ss"
  shows "\<exists>body. dump fmt (JArray (map JString ss)) = CHR ''['' # body @ [CHR '']''] \<and> bracket_free body"
proof -
  have "bracket_free (separated (map (dump fmt) (map JString ss)))"
    by (rule bracket_free_separated) (use assms in \<open>auto simp: list_all_iff dump_string_def bracket_free_dump_chars\<close>)
  then show ?thesis by auto
qed

text \<open>A dumped request in front of the stream is the next message.\<close>

lemma ExportMessages_request:
  assumes "list_all bracket_free ss"
  shows "ExportMessages_loop (dump fmt (JArray (map JString ss)) @ rest) =
    (case ExportMessages_loop rest of (ms, r) \<Rightarrow> (map JString ss # ms, r))"
proof -
  obtain body where b: "dump fmt (JArray (map JString ss)) = CHR ''['' # body @ [CHR '']'']"
      "bracket_free body"
    using dump_request [OF assms] by blast
  let ?buf = "CHR ''['' # body @ CHR '']'' # rest"
  have fin: "dropWhile (\<lambda>c. c \<noteq> CHR '']'') ?buf = CHR '']'' # rest"
    using b(2) by (subst dropWhile.simps, simp, subst dropWhile_append2) (auto simp: bracket_free_def)
  have "array_items (parse (CHR ''['' # body @ [CHR '']''])) = map JString ss"
    using parse_dump_strings [of fmt ss] by (simp only: b(1) array_items.simps)
  then have "ExportMessages_loop ?buf = (case ExportMessages_loop rest of (ms, r) \<Rightarrow> (map JString ss # ms, r))"
    using ExportMessages_step [OF _ fin, of ?buf] by (simp add: Suc_diff_le)
  then show ?thesis by (simp add: b(1) del: dump.simps)
qed

lemma ExportMessages_requests:
  assumes "list_all (list_all bracket_free) reqs"
  shows "ExportMessages_loop (concat (map (\<lambda>ss. dump fmt (JArray (map JString ss))) reqs) @ rest) =
    (case ExportMessages_loop rest of (ms, r) \<Rightarrow> (map (map JString) reqs @ ms, r))"
  using assms
  by (induction reqs) (simp_all add: ExportMessages_request split: prod.splits del: dump.simps)

section \<open>The table stays consistent\<close>

definition Server_wf :: "Server \<Rightarrow> bool" where
  "Server_wf srv \<longleftrightarrow>
     distinct (map fst (client_map srv)) \<and>
     (\<forall>h \<in> set (map fst (client_map srv)). h < client_source srv) \<and>
     distinct (map (cli_fd \<circ> snd) (client_map srv)) \<and>
     (\<forall>fd. interest srv fd \<noteq> None \<longrightarrow> fd \<in> set (map (cli_fd \<circ> snd) (client_map srv)))"

lemma Server_wf_init [simp]: "Server_wf Server_init"
  by (simp add: Server_wf_def Server_init_def)

lemma client_find_Some:
  "client_find fd srv = Some (h, c) \<Longrightarrow> (h, c) \<in> set (client_map srv) \<and> cli_fd c = fd"
  by (auto simp: client_find_def find_Some_iff in_set_conv_nth)

lemma client_find_None:
  "client_find fd srv = None \<longleftrightarrow> fd \<notin> set (map (cli_fd \<circ> snd) (client_map srv))"
  by (force simp: client_find_def find_None_iff)

lemma client_lock_Some: "client_lock h srv = Some c \<Longrightarrow> (h, c) \<in> set (client_map srv)"
  by (simp add: client_lock_def map_of_SomeD)

lemma client_map_put:
  "client_map (client_put h c srv) = map (\<lambda>(h', c'). (h', if h' = h then c else c')) (client_map srv)"
  by (simp add: client_put_def)

lemma Server_wf_put:
  assumes "Server_wf srv" and "client_lock h srv = Some c" and "cli_fd c' = cli_fd c"
  shows "Server_wf (client_put h c' srv)"
proof -
  have d: "distinct (map fst (client_map srv))" using assms(1) by (simp add: Server_wf_def)
  have m: "(h, c) \<in> set (client_map srv)" using assms(2) by (rule client_lock_Some)
  have "map (cli_fd \<circ> snd) (client_map (client_put h c' srv)) = map (cli_fd \<circ> snd) (client_map srv)"
    using assms(3) distinct_map_eq [OF d m] by (force simp: client_map_put)
  moreover have "map fst (client_map (client_put h c' srv)) = map fst (client_map srv)"
    by (auto simp: client_map_put)
  moreover have "interest (client_put h c' srv) = interest srv" "client_source (client_put h c' srv) = client_source srv"
    by (simp_all add: client_put_def)
  ultimately show ?thesis using assms(1) by (simp only: Server_wf_def) simp
qed

lemma client_lock_put:
  "client_lock h srv \<noteq> None \<Longrightarrow> client_lock h' (client_put h c srv) = (if h' = h then Some c else client_lock h' srv)"
proof -
  have "map_of (map (\<lambda>(k, v). (k, if k = h then c else v)) m) h' =
      (if h' = h \<and> map_of m h \<noteq> None then Some c else map_of m h')" for m :: "(nat \<times> ClientInfo) list"
    by (induction m) auto
  then show "client_lock h srv \<noteq> None \<Longrightarrow> ?thesis" by (auto simp: client_lock_def client_map_put)
qed

lemma Server_wf_close: "Server_wf srv \<Longrightarrow> Server_wf (fd_close fd srv)"
  by (auto simp: Server_wf_def fd_close_def)

lemma Server_wf_Enable:
  "Server_wf srv \<Longrightarrow> Server_wf (Server_EnableSend c srv)"
  "Server_wf srv \<Longrightarrow> Server_wf (Server_EnableRead c srv)"
  by (auto simp: Server_wf_def Server_EnableSend_def Server_EnableRead_def epoll_mod_def)

lemma Server_wf_RemoveCli:
  assumes "Server_wf srv"
  shows "Server_wf (Server_RemoveCli fd srv)"
proof (cases "client_find fd srv")
  case None
  with assms show ?thesis
    by (auto simp: Server_RemoveCli_def client_find_def Let_def Server_wf_def)
next
  case (Some hc)
  obtain h c where hc: "hc = (h, c)" by (cases hc)
  let ?m = "filter (\<lambda>(h', c'). h' \<noteq> h) (client_map srv)"
  have eq: "Server_RemoveCli fd srv = srv\<lparr>client_map := ?m, interest := (interest srv)(fd := None)\<rparr>"
    using Some hc by (simp add: Server_RemoveCli_def client_find_def fd_close_def Let_def)
  have m: "(h, c) \<in> set (client_map srv)" "cli_fd c = fd"
    using client_find_Some Some hc by blast+
  have d: "distinct (map fst (client_map srv))" "distinct (map (cli_fd \<circ> snd) (client_map srv))"
    using assms by (simp_all add: Server_wf_def)
  have keep: "fd' \<in> set (map (cli_fd \<circ> snd) ?m)" if "fd' \<noteq> fd" "fd' \<in> set (map (cli_fd \<circ> snd) (client_map srv))" for fd'
  proof -
    from that(2) obtain h' c' where x: "(h', c') \<in> set (client_map srv)" "cli_fd c' = fd'" by auto
    have "h' \<noteq> h" using distinct_map_eq [OF d(1) m(1) x(1)] x(2) m(2) that(1) by auto
    with x have "(h', c') \<in> set ?m" by simp
    then show ?thesis using x(2) by force
  qed
  have "set (map fst ?m) \<subseteq> set (map fst (client_map srv))" by auto
  then show ?thesis
    using assms keep unfolding eq Server_wf_def
    by (auto simp: distinct_map_filter simp del: set_map set_filter)
qed

lemma client_find_interest [simp]: "client_find fd (srv\<lparr>interest := i\<rparr>) = client_find fd srv"
  by (simp add: client_find_def)

lemma Server_wf_accept:
  assumes "Server_wf srv"
  shows "Server_wf (Server_accept cfd srv)"
proof (cases "client_find cfd srv")
  case None
  let ?m = "client_map srv @ [(client_source srv, ClientInfo_ctor cfd)]"
  define i where "i = (if cfd = -1 then interest srv else (interest srv)(cfd \<mapsto> EPOLLIN))"
  have eq: "Server_accept cfd srv = srv\<lparr>client_map := ?m, interest := i, client_source := Suc (client_source srv)\<rparr>"
    using None by (cases "cfd = -1") (auto simp: Server_accept_def Let_def i_def)
  have "cfd \<notin> set (map (cli_fd \<circ> snd) (client_map srv))" using None unfolding client_find_None .
  moreover have "client_source srv \<notin> set (map fst (client_map srv))" using assms by (auto simp: Server_wf_def)
  moreover have "map (cli_fd \<circ> snd) ?m = map (cli_fd \<circ> snd) (client_map srv) @ [cfd]"
    "map fst ?m = map fst (client_map srv) @ [client_source srv]" by (simp_all add: ClientInfo_ctor_def)
  ultimately show ?thesis
    using assms unfolding eq Server_wf_def Server.simps by (auto simp: i_def less_Suc_eq split: if_splits)
next
  case (Some hc)
  then show ?thesis
    using assms by (fastforce simp: Server_accept_def Let_def Server_wf_def fd_close_def split: if_splits)
qed

lemma Server_wf_Wait: "Server_wf srv \<Longrightarrow> Server_wf (snd (Server_Wait evs srv))"
  by (induction evs srv rule: Server_Wait.induct)
    (auto simp: Server_wf_accept Server_wf_close split: option.splits prod.splits)
end
