(* ===== verification/Loop.thy ===== *)
theory Loop
  imports Persistence Command_Arguments Config Server
begin

text \<open>
  The main loop of \<open>src/server/loop.cc\<close>: the databases of the process, the start of the server, and
  everything that works on the whole server state, which are the timers of \<open>src/server/timer.cc\<close>,
  the loader of \<open>src/database/aof.cc\<close> and the commands of \<open>src/server/command.cc\<close> on databases,
  clients and servers.

  The state is the record \<open>World\<close>.  A pointer to a database is its handle; a handle that is not in
  \<open>databases_\<close> dangles.  The clock, \<open>rand()\<close> and the answers of the kernel are arguments.
\<close>

section \<open>The state of the server\<close>

record World =
  conf :: RedisConf
  password :: string
  files :: fs
  nums :: numbering
  databases :: "(nat \<times> Db) list"
  db_source :: nat
  server :: Server
  tmr_que :: "Timer list"
  cmd_que :: "(nat \<times> Command) list"
  cli_que :: "(nat \<times> epoll_flag) list"
  aof_timer :: "Timer option"
  fork_sent :: string

definition db_deref :: "nat \<Rightarrow> World \<Rightarrow> Db result" where
  "db_deref h W = (case map_of (databases W) h of None \<Rightarrow> Inl Undefined | Some db \<Rightarrow> Inr db)"

definition db_update :: "nat \<Rightarrow> Db \<Rightarrow> World \<Rightarrow> World" where
  "db_update h db W = W\<lparr>databases := map (\<lambda>(h', db'). (h', if h' = h then db else db')) (databases W)\<rparr>"

definition on_server :: "(Server \<Rightarrow> Server) \<Rightarrow> World \<Rightarrow> World" where
  "on_server f W = W\<lparr>server := f (server W)\<rparr>"

section \<open>Databases\<close>

text \<open>\<open>databases_.begin()->get()\<close>\<close>

definition first_db :: "World \<Rightarrow> nat result" where
  "first_db W = (case databases W of [] \<Rightarrow> Inl Undefined | (h, db) # _ \<Rightarrow> Inr h)"

definition find_db :: "int32 \<Rightarrow> World \<Rightarrow> nat option" where
  "find_db number W = map_option fst (find (\<lambda>(h, db). Db_Number db = number) (databases W))"

definition MainLoop_GetDB :: "int32 \<Rightarrow> World \<Rightarrow> nat result" where
  "MainLoop_GetDB number W =
     (case find_db number W of Some h \<Rightarrow> Inr h | None \<Rightarrow> first_db W)"

text \<open>A new database at the end of the list.\<close>

definition add_db :: "Db \<times> numbering \<Rightarrow> World \<Rightarrow> World" where
  "add_db dn W =
     W\<lparr>databases := databases W @ [(db_source W, fst dn)], nums := snd dn, db_source := Suc (db_source W)\<rparr>"

definition MainLoop_CreateDB :: "World \<Rightarrow> (int32 \<times> World) result" where
  "MainLoop_CreateDB W =
     (if length (databases W) \<ge> 16 then Inr (-1, W)
      else rbind (Db_ctor (nums W)) (\<lambda>dn. Inr (Db_Number (fst dn), add_db dn W)))"

definition MainLoop_DropDB :: "int32 \<Rightarrow> World \<Rightarrow> bool \<times> World" where
  "MainLoop_DropDB number W =
     (if length (databases W) = 1 then (False, W)
      else
        (case find_db number W of
           None \<Rightarrow> (False, W)
         | Some h \<Rightarrow>
             (True, W\<lparr>databases := filter (\<lambda>(h', db). h' \<noteq> h) (databases W), nums := Db_dtor (nums W)\<rparr>)))"

definition MainLoop_ShowDB :: "World \<Rightarrow> string" where
  "MainLoop_ShowDB W = concat (map (\<lambda>(h, db). to_string (Db_Number db) @ ''|'') (databases W))"

definition MainLoop_SuGetDB :: "int32 \<Rightarrow> World \<Rightarrow> (nat \<times> World) result" where
  "MainLoop_SuGetDB number W =
     (case find_db number W of
        Some h \<Rightarrow> Inr (h, W)
      | None \<Rightarrow>
          rbind (Db_ctor_number number (nums W)) (\<lambda>dn. Inr (db_source W, add_db dn W)))"

fun save_all :: "env \<Rightarrow> Db list \<Rightarrow> string list result" where
  "save_all cf [] = Inr []"
| "save_all cf (db # dbs) =
     rbind (Db_Save cf db) (\<lambda>source. rbind (save_all cf dbs) (\<lambda>ret. Inr (source # ret)))"

definition MainLoop_DatabaseSave :: "env \<Rightarrow> World \<Rightarrow> string list result" where
  "MainLoop_DatabaseSave cf W = save_all cf (map snd (databases W))"

definition MainLoop_DatabaseAppend :: "env \<Rightarrow> World \<Rightarrow> string list \<times> World" where
  "MainLoop_DatabaseAppend cf W =
     (map (\<lambda>(h, db). fst (Db_ExportAOF cf (password W) db)) (databases W),
      W\<lparr>databases := map (\<lambda>(h, db). (h, snd (Db_ExportAOF cf (password W) db))) (databases W)\<rparr>)"

definition MainLoop_DatabaseForkAll :: "env \<Rightarrow> World \<Rightarrow> string" where
  "MainLoop_DatabaseForkAll cf W =
     concat (map (\<lambda>(h, db). concat (Db_Fork cf (password W) db)) (databases W))"

definition MainLoop_EncounterTimer :: "Timer \<Rightarrow> World \<Rightarrow> World" where
  "MainLoop_EncounterTimer timer W = W\<lparr>tmr_que := TimerQue_Push timer (tmr_que W)\<rparr>"

text \<open>\<open>aof_timer_\<close> is set when the append-only file has been loaded.\<close>

definition MainLoop_GetAOFTimer :: "World \<Rightarrow> Timer result" where
  "MainLoop_GetAOFTimer W = (case aof_timer W of None \<Rightarrow> Inl Undefined | Some t \<Rightarrow> Inr t)"

section \<open>Timers\<close>

fun Timer_Exec :: "env \<Rightarrow> size_t \<Rightarrow> Timer \<Rightarrow> World \<Rightarrow> World result" where
  "Timer_Exec cf now_us (DbExpireTimer t h name) W =
     rbind (db_deref h W) (\<lambda>db. Inr (db_update h (snd (Db_Del (Str_ctor name) db)) W))"
| "Timer_Exec cf now_us (DbRewriteTimer t contents) W =
     rbind (FileManager_Truncate (conf_file_name (conf W)) (files W)) (\<lambda>files'.
       Inr (W\<lparr>files := FileManager_Write (conf_file_name (conf W)) contents files'\<rparr>))"
| "Timer_Exec cf now_us (RdbTimer t period) W =
     rbind (MainLoop_DatabaseSave cf W) (\<lambda>src.
       rbind (RDBSave src (conf_file_name (conf W)) (files W)) (\<lambda>files'.
         Inr (MainLoop_EncounterTimer (RdbTimer (now_us + period) period) (W\<lparr>files := files'\<rparr>))))"
| "Timer_Exec cf now_us (AofTimer t period again) W =
     (case MainLoop_DatabaseAppend cf W of
        (src, W1) \<Rightarrow>
          (let W2 = W1\<lparr>files := AOFSave src (conf_file_name (conf W)) (files W1)\<rparr> in
           Inr (if again then MainLoop_EncounterTimer (AofTimer (now_us + period) period again) W2 else W2)))"

section \<open>Commands\<close>

text \<open>\<open>client->GetDB()\<close>, dereferenced.\<close>

definition client_db :: "ClientInfo \<Rightarrow> World \<Rightarrow> (nat \<times> Db) result" where
  "client_db c W =
     (case ClientInfo_GetDB c of
        None \<Rightarrow> Inl Undefined
      | Some h \<Rightarrow> rbind (db_deref h W) (\<lambda>db. Inr (h, db)))"

text \<open>
  The beginning of every \<open>Exec\<close> but those of \<open>CliCommand\<close> and \<open>ServerCommand\<close>: an invalid command is
  answered with a blank, a client that is gone gets no answer.
\<close>

definition on_database ::
    "'a CommandBase_scheme \<Rightarrow> nat \<Rightarrow> (nat \<Rightarrow> Db \<Rightarrow> (json_array \<times> World) result) \<Rightarrow> World \<Rightarrow>
     (json_array option \<times> World) result" where
  "on_database cmd cli f W =
     (if \<not> valid cmd then Inr (Some (reply '' ''), W)
      else
        (case client_lock cli (server W) of
           None \<Rightarrow> Inr (None, W)
         | Some c \<Rightarrow>
             rbind (client_db c W) (\<lambda>(h, db). rbind (f h db) (\<lambda>(ret, W'). Inr (Some ret, W')))))"

text \<open>The object commands change the database of the client only.\<close>

definition object_Exec ::
    "(Db \<Rightarrow> (json_array \<times> Db) result) \<Rightarrow> World \<Rightarrow> nat \<Rightarrow> Db \<Rightarrow> (json_array \<times> World) result" where
  "object_Exec f W h db = rbind (f db) (\<lambda>(ret, db'). Inr (ret, db_update h db' W))"

definition DbCommand_run ::
    "env \<Rightarrow> size_t \<Rightarrow> DbCommand \<Rightarrow> World \<Rightarrow> nat \<Rightarrow> Db \<Rightarrow> (json_array \<times> World) result" where
  "DbCommand_run cf now_us cmd W h db =
     (let key = Str_ctor (obj_name cmd) in
      if command cmd = ''DEL'' then
        (case Db_Del key db of (n, db') \<Rightarrow> Inr (reply (nat_to_string n), db_update h db' W))
      else if command cmd = ''EXPIRE'' then
        rbind (opt_value (db_value cmd)) (\<lambda>v. rbind (RedisStrToSize v) (\<lambda>time_point_us.
          (case time_point_us of
             None \<Rightarrow> Inr (reply '' '', W)
           | Some t \<Rightarrow>
               (case Db_ExpireAt h key t db of
                  (tmr, db') \<Rightarrow>
                    (let W' = db_update h db' W in
                     Inr (reply ''OK'',
                          case tmr of None \<Rightarrow> W' | Some tm \<Rightarrow> MainLoop_EncounterTimer tm W'))))))
      else if command cmd = ''WHEN'' then Inr (reply (Db_WhenExpire now_us key db), W)
      else if command cmd = ''REWRITE'' \<and> conf_enable_aof (conf W) then
        rbind (MainLoop_GetAOFTimer W) (\<lambda>aof.
          Inr (reply ''OK'',
               MainLoop_EncounterTimer (DbRewriteTimer 0 (''AOF'' @ MainLoop_DatabaseForkAll cf W)) W))
      else Inr (reply ''OK'', W))"

definition DbCommand_Exec :: "env \<Rightarrow> size_t \<Rightarrow> DbCommand \<Rightarrow> nat \<Rightarrow> World \<Rightarrow> (json_array option \<times> World) result" where
  "DbCommand_Exec cf now_us cmd cli W = on_database cmd cli (DbCommand_run cf now_us cmd W) W"

definition CliCommand_Exec :: "CliCommand \<Rightarrow> nat \<Rightarrow> World \<Rightarrow> (json_array option \<times> World) result" where
  "CliCommand_Exec cmd cli W =
     (if \<not> valid cmd then Inr (Some (reply '' ''), W)
      else if command cmd = ''SELECT'' then
        rbind (RedisStrToInt (obj_name cmd)) (\<lambda>intval.
          (case intval of
             None \<Rightarrow> Inr (Some (reply '' ''), W)
           | Some n \<Rightarrow>
               (case client_lock cli (server W) of
                  None \<Rightarrow> Inr (None, W)
                | Some c \<Rightarrow>
                    rbind (if pswd cmd = Some (password W) then MainLoop_SuGetDB n W
                           else rbind (MainLoop_GetDB n W) (\<lambda>h. Inr (h, W))) (\<lambda>(h, W1).
                      rbind (db_deref h W1) (\<lambda>db.
                        Inr (Some (reply (''Select: '' @ to_string (Db_Number db))),
                             on_server (client_put cli (ClientInfo_SetDB (Some h) c)) W1))))))
      else if command cmd = ''SHOW'' then
        (case client_lock cli (server W) of
           None \<Rightarrow> Inr (None, W)
         | Some c \<Rightarrow>
             rbind (client_db c W) (\<lambda>(h, db).
               Inr (Some [JString (to_string (Db_Number db)), JString (MainLoop_ShowDB W)], W)))
      else if command cmd = ''DROP'' then
        rbind (RedisStrToInt (obj_name cmd)) (\<lambda>intval.
          (case intval of
             None \<Rightarrow> Inr (Some (reply '' ''), W)
           | Some n \<Rightarrow> Inr (Some (reply ''OK''), snd (MainLoop_DropDB n W))))
      else if command cmd = ''CREATE'' then
        (case client_lock cli (server W) of
           None \<Rightarrow> Inr (None, W)
         | Some c \<Rightarrow>
             rbind (MainLoop_CreateDB W) (\<lambda>(new_db_num, W').
               Inr (Some (if new_db_num = -1 then reply '' '' else reply (to_string new_db_num)), W')))
      else Inr (Some (reply ''OK''), W))"

text \<open>
  \<open>FORK\<close> sends the requests that rebuild the database of the client to another server.  \<open>answers\<close> are
  the results of the calls of \<open>write\<close>; when they are used up, \<open>write\<close> takes all it is given.
\<close>

datatype write_result = Wrote nat | Write_Error errno

record fork_io =
  socket_ok :: bool
  connect_ok :: bool
  write_answers :: "write_result list"

fun write_all :: "write_result list \<Rightarrow> string \<Rightarrow> bool \<times> string \<times> write_result list" where
  "write_all ws [] = (True, [], ws)"
| "write_all [] s = (True, s, [])"
| "write_all (Wrote n # ws) s = (case write_all ws (drop n s) of (ok, sent, ws') \<Rightarrow> (ok, take n s @ sent, ws'))"
| "write_all (Write_Error err # ws) s = (if err \<noteq> EAGAIN then (False, [], ws) else write_all ws s)"

fun write_reqs :: "write_result list \<Rightarrow> string list \<Rightarrow> bool \<times> string" where
  "write_reqs ws [] = (True, [])"
| "write_reqs ws (req # reqs) =
     (case write_all ws req of
        (ok, sent, ws') \<Rightarrow>
          if \<not> ok then (False, sent)
          else (case write_reqs ws' reqs of (ok', sent') \<Rightarrow> (ok', sent @ sent')))"

definition fork_requests :: "env \<Rightarrow> string \<Rightarrow> Db \<Rightarrow> string list" where
  "fork_requests cf pw db = Db_Fork cf pw db @ [''ENDFORKING'']"

definition ServerCommand_Exec ::
    "env \<Rightarrow> fork_io \<Rightarrow> ServerCommand \<Rightarrow> nat \<Rightarrow> World \<Rightarrow> (json_array option \<times> World) result" where
  "ServerCommand_Exec cf io cmd cli W =
     (case client_lock cli (server W) of
        None \<Rightarrow> Inr (None, W)
      | Some c \<Rightarrow>
          if command cmd = ''FORK'' then
            (case port cmd of
               None \<Rightarrow> Inl Undefined
             | Some prt \<Rightarrow>
                 if \<not> socket_ok io then Inr (Some (reply '' ''), W)
                 else if \<not> connect_ok io then
                   Inr (Some (reply (''Connect faied: '' @ ip cmd @ '':'' @ to_string_int (sint prt))), W)
                 else
                   rbind (client_db c W) (\<lambda>(h, db).
                     (case write_reqs (write_answers io) (fork_requests cf (password W) db) of
                        (ok, sent) \<Rightarrow>
                          Inr (Some (if \<not> ok then reply ''Write Error'' else reply ''OK''),
                               W\<lparr>fork_sent := fork_sent W @ sent\<rparr>))))
          else if command cmd = ''ENDFORKING'' then
            Inr (Some (reply '' ''), on_server (ClientInfo_Logout c) W)
          else Inr (Some (reply ''OK''), W))"

text \<open>What one execution of a command gets from outside.\<close>

record exec_input =
  now :: size_t
  rnd :: nat
  fork_result :: fork_io

fun Command_Exec ::
    "env \<Rightarrow> exec_input \<Rightarrow> Command \<Rightarrow> nat \<Rightarrow> World \<Rightarrow> (json_array option \<times> World) result" where
  "Command_Exec cf i (Cmd_Str cmd) cli W = on_database cmd cli (object_Exec (StrCommand_Exec cmd) W) W"
| "Command_Exec cf i (Cmd_List cmd) cli W = on_database cmd cli (object_Exec (ListCommand_Exec cmd) W) W"
| "Command_Exec cf i (Cmd_Hash cmd) cli W = on_database cmd cli (object_Exec (HashCommand_Exec cmd) W) W"
| "Command_Exec cf i (Cmd_Set cmd) cli W = on_database cmd cli (object_Exec (SetCommand_Exec (rnd i) cmd) W) W"
| "Command_Exec cf i (Cmd_ZSet cmd) cli W = on_database cmd cli (object_Exec (ZSetCommand_Exec cmd) W) W"
| "Command_Exec cf i (Cmd_Db cmd) cli W = DbCommand_Exec cf (now i) cmd cli W"
| "Command_Exec cf i (Cmd_Cli cmd) cli W = CliCommand_Exec cmd cli W"
| "Command_Exec cf i (Cmd_Server cmd) cli W = ServerCommand_Exec cf (fork_result i) cmd cli W"

section \<open>The start of the server\<close>

text \<open>
  \<open>MainLoop::MainLoop\<close>: the dump file is read and emptied before it is parsed.  The result is the
  state, the process-wide compression flag in \<open>env\<close>, and the bytes of the file, which the loader of
  the append-only file gets.  The division by \<open>save_n_times_\<close> traps when that is zero.
\<close>

definition World_init :: "RedisConf \<Rightarrow> fs \<Rightarrow> World" where
  "World_init c fls =
     \<lparr>conf = c, password = [], files = fls, nums = numbering_init, databases = [], db_source = 0,
      server = Server_init, tmr_que = [], cmd_que = [], cli_que = [], aof_timer = None, fork_sent = []\<rparr>"

definition rdb_period :: "RedisConf \<Rightarrow> size_t result" where
  "rdb_period c =
     (if conf_save_n_times c = 0 then Inl Undefined
      else Inr (conf_every_n_sec c * 1000000 div conf_save_n_times c))"

text \<open>The databases that were read, with their timers; without one, a default database.\<close>

fun MainLoop_install :: "(nat \<times> Db) list \<times> Timer list \<times> numbering \<Rightarrow> World \<Rightarrow> World result" where
  "MainLoop_install (dbs, tmrs, nums') W =
     (let W1 = fold MainLoop_EncounterTimer tmrs
            (W\<lparr>databases := dbs, nums := nums', db_source := db_source W + length dbs\<rparr>)
      in if dbs = [] then rbind (Db_ctor nums') (\<lambda>dn. Inr (add_db dn W1)) else Inr W1)"

definition MainLoop_load :: "env \<Rightarrow> size_t \<Rightarrow> string \<Rightarrow> World \<Rightarrow> World result" where
  "MainLoop_load cf now_us dbfile W =
     rbind (rdb_period (conf W)) (\<lambda>period.
       rbind (RDBLoad cf (nums W) (db_source W) dbfile) (\<lambda>r.
         MainLoop_install r (MainLoop_EncounterTimer (RdbTimer (now_us + 1000000) period) W)))"

definition MainLoop_ctor :: "env \<Rightarrow> size_t \<Rightarrow> RedisConf \<Rightarrow> fs \<Rightarrow> (env \<times> World \<times> string) result" where
  "MainLoop_ctor cf now_us c fls =
     (let files1 = FileManager_ctor (conf_file_name c) fls in
      rbind (FileManager_LoadAndExport (conf_file_name c) files1) (\<lambda>dbfile.
        rbind (FileManager_Truncate (conf_file_name c) files1) (\<lambda>files2.
          (let W = World_init c files2; cf' = (if \<not> conf_enable_aof c \<and> conf_compress c then EnCompress cf else cf) in
           rbind (if \<not> conf_enable_aof c then MainLoop_load cf' now_us dbfile W else Inr W) (\<lambda>W'.
             Inr (cf', W'\<lparr>password := conf_password c\<rparr>, dbfile))))))"

text \<open>
  \<open>AOFLoad\<close> sends the file to the server itself; the socket blocks, so every failure of \<open>write\<close> ends
  the loading.  The result is what was sent.
\<close>

fun AOFLoad_write :: "write_result list \<Rightarrow> string \<Rightarrow> string" where
  "AOFLoad_write ws [] = []"
| "AOFLoad_write [] s = s"
| "AOFLoad_write (Wrote n # ws) s = take n s @ AOFLoad_write ws (drop n s)"
| "AOFLoad_write (Write_Error err # ws) s = []"

definition AOFLoad :: "fork_io \<Rightarrow> string \<Rightarrow> string result" where
  "AOFLoad io source =
     rbind (PeekString 3 source) (\<lambda>(aof_str, source').
       if aof_str \<noteq> ''AOF'' then Inr []
       else if \<not> socket_ok io \<or> \<not> connect_ok io then Inr []
       else Inr (AOFLoad_write (write_answers io) source'))"

definition aof_timer_of :: "size_t \<Rightarrow> string \<Rightarrow> Timer" where
  "aof_timer_of now_us mode =
     (if mode = ''every_sec'' then AofTimer (now_us + 1000000) 1000000 True
      else if mode = ''always'' then AofTimer (now_us + 1000) 1000 True
      else AofTimer 0 0 False)"

definition MainLoop_CheckAOFLoad :: "size_t \<Rightarrow> World \<Rightarrow> (bool \<times> World) result" where
  "MainLoop_CheckAOFLoad now_us W =
     (if \<not> conf_enable_aof (conf W) then Inr (False, W)
      else
        rbind
          (if databases W = [] then
             rbind (Db_ctor (nums W)) (\<lambda>dn.
               Inr (add_db dn (W\<lparr>files := FileManager_Write (conf_file_name (conf W)) ''AOF'' (files W)\<rparr>)))
           else Inr W) (\<lambda>W1.
          (let t = aof_timer_of now_us (conf_aof_mode (conf W1)) in
           Inr (True, MainLoop_EncounterTimer t (W1\<lparr>aof_timer := Some t\<rparr>)))))"

section \<open>One turn of the main loop\<close>

text \<open>The first loop variable is the client of the event: without a database it gets the first one.\<close>

fun MainLoop_dispatch :: "(nat \<times> epoll_flag) list \<Rightarrow> World \<Rightarrow> World result" where
  "MainLoop_dispatch [] W = Inr W"
| "MainLoop_dispatch ((cli, flag) # evs) W =
     rbind
       (case client_lock cli (server W) of
          None \<Rightarrow> Inr W
        | Some c \<Rightarrow>
            if ClientInfo_GetDB c = None then
              rbind (first_db W) (\<lambda>h. Inr (on_server (client_put cli (ClientInfo_SetDB (Some h) c)) W))
            else Inr W) (\<lambda>W1.
       MainLoop_dispatch evs (W1\<lparr>cli_que := cli_que W1 @ [(cli, flag)]\<rparr>))"

definition MainLoop_Run :: "kernel_event list \<Rightarrow> World \<Rightarrow> World result" where
  "MainLoop_Run kevs W =
     (case Server_Wait kevs (server W) of
        (client_events, srv) \<Rightarrow> MainLoop_dispatch client_events (W\<lparr>server := srv\<rparr>))"

end
