(* ===== verification/Handler.thy ===== *)
theory Handler
  imports Loop
begin

text \<open>
  The worker threads of \<open>src/server/handler.cc\<close>: \<open>ioClient\<close> moves bytes and turns them into commands,
  \<open>ExecCommand\<close> executes the commands in order, \<open>ExecTimer\<close> executes the timers that are due.  One
  turn of each loop is a function on the state; the threads and the main loop interleave as the steps
  of a relation, one turn at a time.  A turn in which a thread only waits is not a step.
\<close>

section \<open>Turns of the worker threads\<close>

text \<open>\<open>CommandQue::BlockPop\<close> takes the front of the queue; the queue is empty while the thread waits.\<close>

definition CommandQue_Push :: "nat \<times> Command \<Rightarrow> (nat \<times> Command) list \<Rightarrow> (nat \<times> Command) list" where
  "CommandQue_Push cmd que = que @ [cmd]"

definition CommandQue_BlockPop ::
    "(nat \<times> Command) list \<Rightarrow> ((nat \<times> Command) \<times> (nat \<times> Command) list) option" where
  "CommandQue_BlockPop que = (case que of [] \<Rightarrow> None | cmd # que' \<Rightarrow> Some (cmd, que'))"

record io_input =
  recv_answers :: "recv_result list"
  send_answer :: int32
  send_errno :: errno

fun ioClient_requests :: "env \<Rightarrow> nat \<Rightarrow> json_array list \<Rightarrow> World \<Rightarrow> World result" where
  "ioClient_requests cf cli [] W = Inr W"
| "ioClient_requests cf cli (req # reqs) W =
     rbind
       (if conf_enable_aof (conf W) then
          (case client_lock cli (server W) of
             None \<Rightarrow> Inr W
           | Some c \<Rightarrow>
               rbind (client_db c W) (\<lambda>(h, db).
                 (let W1 = db_update h (Db_AppendAOF cf req db) W in
                  if conf_aof_mode (conf W) = ''no''
                  then rbind (MainLoop_GetAOFTimer W1) (\<lambda>atmr. Inr (MainLoop_EncounterTimer atmr W1))
                  else Inr W1)))
        else Inr W) (\<lambda>W1.
       rbind (RequestToCommandExec cli req) (\<lambda>cmd.
         ioClient_requests cf cli reqs
           (case cmd of None \<Rightarrow> W1 | Some cc \<Rightarrow> W1\<lparr>cmd_que := CommandQue_Push cc (cmd_que W1)\<rparr>)))"

definition ioClient_send :: "io_input \<Rightarrow> nat \<Rightarrow> ClientInfo \<Rightarrow> World \<Rightarrow> World result" where
  "ioClient_send io cli c W =
     rbind (ClientInfo_Send (send_answer io) c) (\<lambda>(nwrite, c').
       (let W1 = on_server (client_put cli c') W;
            W2 = (if nwrite = -1 \<and> send_errno io = EPIPE then on_server (ClientInfo_Logout c') W1 else W1)
        in Inr (if ClientInfo_IsSendOut c' \<and> send_errno io \<noteq> EAGAIN
                then on_server (Server_EnableRead c') W2 else W2)))"

definition ioClient_recv :: "env \<Rightarrow> io_input \<Rightarrow> nat \<Rightarrow> ClientInfo \<Rightarrow> World \<Rightarrow> World result" where
  "ioClient_recv cf io cli c W =
     rbind (ClientInfo_Read (recv_answers io) c) (\<lambda>(nread, err, c').
       (let W1 = on_server (client_put cli c') W in
        if nread = 0 then Inr (on_server (ClientInfo_Logout c') W1)
        else if nread = -1 \<and> err = EAGAIN then Inr W1
        else
          (case ClientInfo_ExportMessages c' of
             (reqs, c'') \<Rightarrow> ioClient_requests cf cli reqs (on_server (client_put cli c'') W1))))"

definition ioClient :: "env \<Rightarrow> io_input \<Rightarrow> World \<Rightarrow> World result" where
  "ioClient cf io W =
     (case cli_que W of
        [] \<Rightarrow> Inr W
      | (cli, flag) # que \<Rightarrow>
          (let W0 = W\<lparr>cli_que := que\<rparr> in
           case client_lock cli (server W0) of
             None \<Rightarrow> Inr W0
           | Some c \<Rightarrow> if flag = EPOLLOUT then ioClient_send io cli c W0 else ioClient_recv cf io cli c W0))"

definition Handler_respond :: "env \<Rightarrow> nat \<Rightarrow> json_array option \<Rightarrow> World \<Rightarrow> World" where
  "Handler_respond cf cli respond W =
     (case respond of
        None \<Rightarrow> W
      | Some r \<Rightarrow>
          (case client_lock cli (server W) of
             None \<Rightarrow> W
           | Some c \<Rightarrow>
               (let c' = ClientInfo_Append (printf_double cf) r c in
                on_server (\<lambda>srv. Server_EnableSend c' (client_put cli c' srv)) W)))"

definition Handler_ExecCommand :: "env \<Rightarrow> exec_input \<Rightarrow> World \<Rightarrow> World result" where
  "Handler_ExecCommand cf i W =
     (case CommandQue_BlockPop (cmd_que W) of
        None \<Rightarrow> Inr W
      | Some ((cli, cmd), que) \<Rightarrow>
          rbind (Command_Exec cf i cmd cli (W\<lparr>cmd_que := que\<rparr>)) (\<lambda>(respond, W').
            Inr (Handler_respond cf cli respond W')))"

text \<open>
  The thread finds the first timer due at \<open>now_us\<close> and executes it; without such a timer it waits on.
  \<open>exec_us\<close> is the clock when the timer reads it.
\<close>

definition Handler_ExecTimer :: "env \<Rightarrow> size_t \<Rightarrow> size_t \<Rightarrow> World \<Rightarrow> World result" where
  "Handler_ExecTimer cf now_us exec_us W =
     (case TimerQue_BlockPop [Wake now_us] (tmr_que W) of
        None \<Rightarrow> Inr W
      | Some (t, que, _) \<Rightarrow> Timer_Exec cf exec_us t (W\<lparr>tmr_que := que\<rparr>))"

section \<open>Interleaving\<close>

text \<open>A failed turn has no successor: no thread catches an exception, so it ends the process.\<close>

inductive step :: "env \<Rightarrow> World \<Rightarrow> World \<Rightarrow> bool" for cf where
  step_run: "MainLoop_Run kevs W = Inr W' \<Longrightarrow> step cf W W'"
| step_io: "ioClient cf io W = Inr W' \<Longrightarrow> step cf W W'"
| step_command: "Handler_ExecCommand cf i W = Inr W' \<Longrightarrow> step cf W W'"
| step_timer: "Handler_ExecTimer cf now_us exec_us W = Inr W' \<Longrightarrow> step cf W W'"

inductive reachable :: "env \<Rightarrow> World \<Rightarrow> World \<Rightarrow> bool" for cf where
  reachable_start: "reachable cf W W"
| reachable_step: "reachable cf W W1 \<Longrightarrow> step cf W1 W2 \<Longrightarrow> reachable cf W W2"

inductive_cases step_cases: "step cf W W'"

end
