(* ===== verification/Invariant.thy ===== *)
theory Invariant
  imports Handler
begin

text \<open>
  The invariant of the running server: every database is well formed, no pointer to a database
  dangles, and every client with work in a queue has a database.  Every turn of every thread keeps
  it.
\<close>

section \<open>The invariant\<close>

definition db_handles :: "World \<Rightarrow> nat set" where
  "db_handles W = set (map fst (databases W))"

definition databases_ok :: "World \<Rightarrow> bool" where
  "databases_ok W \<longleftrightarrow>
     databases W \<noteq> [] \<and> distinct (map fst (databases W)) \<and> (\<forall>h \<in> db_handles W. h < db_source W) \<and>
     (\<forall>(h, db) \<in> set (databases W). Db_wf db)"

definition clients_ok :: "World \<Rightarrow> bool" where
  "clients_ok W \<longleftrightarrow>
     Server_wf (server W) \<and>
     (\<forall>h c d. (h, c) \<in> set (client_map (server W)) \<longrightarrow> cli_database c = Some d \<longrightarrow> d \<in> db_handles W)"

definition timer_ok :: "World \<Rightarrow> Timer \<Rightarrow> bool" where
  "timer_ok W t \<longleftrightarrow> (\<forall>time h name. t = DbExpireTimer time h name \<longrightarrow> h \<in> db_handles W)"

definition timers_ok :: "World \<Rightarrow> bool" where
  "timers_ok W \<longleftrightarrow>
     que_wf (tmr_que W) \<and> (\<forall>t \<in> set (tmr_que W). timer_ok W t) \<and>
     (conf_enable_aof (conf W) \<longrightarrow> (\<exists>t. aof_timer W = Some t \<and> timer_ok W t))"

text \<open>A client the handler works for, when it is still connected, has been given a database.\<close>

definition served :: "World \<Rightarrow> nat \<Rightarrow> bool" where
  "served W cli \<longleftrightarrow>
     cli < client_source (server W) \<and>
     (\<forall>c. client_lock cli (server W) = Some c \<longrightarrow> cli_database c \<noteq> None)"

definition queues_ok :: "World \<Rightarrow> bool" where
  "queues_ok W \<longleftrightarrow>
     (\<forall>(cli, flag) \<in> set (cli_que W). served W cli) \<and>
     (\<forall>(cli, cmd) \<in> set (cmd_que W). served W cli \<and> Command_ok cmd)"

definition World_ok :: "World \<Rightarrow> bool" where
  "World_ok W \<longleftrightarrow>
     databases_ok W \<and> clients_ok W \<and> timers_ok W \<and> queues_ok W \<and>
     files W (conf_file_name (conf W)) \<noteq> None"

lemma World_ok_parts:
  assumes "World_ok W"
  shows "databases_ok W" "clients_ok W" "timers_ok W" "queues_ok W" "files W (conf_file_name (conf W)) \<noteq> None"
  using assms by (simp_all add: World_ok_def)

lemma World_okI:
  "databases_ok W \<Longrightarrow> clients_ok W \<Longrightarrow> timers_ok W \<Longrightarrow> queues_ok W \<Longrightarrow>
     files W (conf_file_name (conf W)) \<noteq> None \<Longrightarrow> World_ok W"
  by (simp add: World_ok_def)

section \<open>Pointers to databases are valid\<close>

lemma db_deref_ok: "h \<in> db_handles W \<Longrightarrow> \<exists>db. db_deref h W = Inr db \<and> (h, db) \<in> set (databases W)"
proof -
  assume "h \<in> db_handles W"
  then obtain db where "map_of (databases W) h = Some db"
    by (metis db_handles_def list.set_map map_of_eq_None_iff option.exhaust)
  then show ?thesis by (auto simp: db_deref_def dest: map_of_SomeD)
qed

lemma db_deref_wf: "databases_ok W \<Longrightarrow> db_deref h W = Inr db \<Longrightarrow> Db_wf db \<and> h \<in> db_handles W"
  by (auto simp: db_deref_def databases_ok_def db_handles_def image_iff dest!: map_of_SomeD
      split: option.splits) force

lemma first_db_ok: "databases_ok W \<Longrightarrow> \<exists>h. first_db W = Inr h \<and> h \<in> db_handles W"
  by (auto simp: databases_ok_def first_db_def db_handles_def neq_Nil_conv)

lemma client_db_ok:
  assumes "World_ok W" and "served W cli" and "client_lock cli (server W) = Some c"
  shows "\<exists>h db. client_db c W = Inr (h, db) \<and> cli_database c = Some h \<and> (h, db) \<in> set (databases W) \<and> Db_wf db"
proof -
  obtain h where h: "cli_database c = Some h" using assms(2,3) by (auto simp: served_def)
  have "h \<in> db_handles W"
    using assms(1,3) h by (force simp: World_ok_def clients_ok_def dest: client_lock_Some)
  then obtain db where "db_deref h W = Inr db" "(h, db) \<in> set (databases W)" using db_deref_ok by blast
  with h assms(1) show ?thesis
    by (auto simp: client_db_def ClientInfo_GetDB_def World_ok_def databases_ok_def)
qed

section \<open>Elementary changes\<close>

lemma db_update_sel [simp]:
  "conf (db_update h db W) = conf W" "password (db_update h db W) = password W"
  "files (db_update h db W) = files W" "nums (db_update h db W) = nums W"
  "db_source (db_update h db W) = db_source W" "server (db_update h db W) = server W"
  "tmr_que (db_update h db W) = tmr_que W" "cmd_que (db_update h db W) = cmd_que W"
  "cli_que (db_update h db W) = cli_que W" "aof_timer (db_update h db W) = aof_timer W"
  by (simp_all add: db_update_def)

lemma map_fst_db_update [simp]: "map fst (databases (db_update h db W)) = map fst (databases W)"
  by (auto simp: db_update_def)

lemma db_handles_update [simp]: "db_handles (db_update h db W) = db_handles W"
  by (simp only: db_handles_def map_fst_db_update)

text \<open>Changes of the databases that keep the pointers valid.\<close>

lemma World_ok_databases:
  assumes "World_ok W" and "databases_ok W'" and "db_handles W \<subseteq> db_handles W'"
    and "conf W' = conf W" "server W' = server W" "tmr_que W' = tmr_que W" "cmd_que W' = cmd_que W"
      "cli_que W' = cli_que W" "aof_timer W' = aof_timer W" "files W' = files W"
  shows "World_ok W'"
proof (rule World_okI)
  note parts = World_ok_parts [OF assms(1)]
  show "clients_ok W'" using parts(2) assms(3,5) by (fastforce simp: clients_ok_def)
  have "timer_ok W t \<Longrightarrow> timer_ok W' t" for t using assms(3) by (auto simp: timer_ok_def)
  then show "timers_ok W'" using parts(3) assms(4,6,9) by (auto simp: timers_ok_def)
  have "served W' cli = served W cli" for cli by (simp add: served_def assms(5))
  then show "queues_ok W'" using parts(4) assms(7,8) by (simp add: queues_ok_def)
  show "files W' (conf_file_name (conf W')) \<noteq> None" using parts(5) assms(4,10) by simp
qed (rule assms(2))

lemma World_ok_db_update:
  assumes "World_ok W" and "Db_wf db"
  shows "World_ok (db_update h db W)"
proof (rule World_ok_databases [OF assms(1)])
  have "databases (db_update h db W) \<noteq> []" using assms(1) by (simp add: World_ok_def databases_ok_def db_update_def)
  moreover have "\<forall>(h', db') \<in> set (databases (db_update h db W)). Db_wf db'"
    using assms by (auto simp: World_ok_def databases_ok_def db_update_def)
  ultimately show "databases_ok (db_update h db W)"
    using assms(1) unfolding databases_ok_def World_ok_def by simp
qed simp_all

lemma World_ok_add_db:
  assumes "World_ok W" and "Db_wf (fst dn)"
  shows "World_ok (add_db dn W)"
proof (rule World_ok_databases [OF assms(1)])
  show "databases_ok (add_db dn W)"
    using assms by (fastforce simp: World_ok_def databases_ok_def db_handles_def add_db_def)
qed (auto simp: add_db_def db_handles_def)

lemma EncounterTimer_sel [simp]:
  "conf (MainLoop_EncounterTimer t W) = conf W" "databases (MainLoop_EncounterTimer t W) = databases W"
  "server (MainLoop_EncounterTimer t W) = server W" "files (MainLoop_EncounterTimer t W) = files W"
  "cmd_que (MainLoop_EncounterTimer t W) = cmd_que W" "cli_que (MainLoop_EncounterTimer t W) = cli_que W"
  "db_source (MainLoop_EncounterTimer t W) = db_source W" "nums (MainLoop_EncounterTimer t W) = nums W"
  "aof_timer (MainLoop_EncounterTimer t W) = aof_timer W" "password (MainLoop_EncounterTimer t W) = password W"
  by (simp_all add: MainLoop_EncounterTimer_def)

lemma set_TimerQue_Push [simp]: "set (TimerQue_Push t que) = insert t (set que)"
  by (metis mset_TimerQue_Push set_mset_add_mset_insert set_mset_mset)

lemma World_ok_EncounterTimer:
  assumes "World_ok W" and "timer_ok W t"
  shows "World_ok (MainLoop_EncounterTimer t W)"
proof (rule World_okI)
  note parts = World_ok_parts [OF assms(1)]
  show "timers_ok (MainLoop_EncounterTimer t W)"
    using parts(3) assms(2)
    by (auto simp: timers_ok_def timer_ok_def db_handles_def MainLoop_EncounterTimer_def que_wf_Push)
qed (use World_ok_parts [OF assms(1)] in
    \<open>simp_all add: databases_ok_def db_handles_def clients_ok_def queues_ok_def served_def\<close>)

lemma World_ok_files: "World_ok W \<Longrightarrow> fls (conf_file_name (conf W)) \<noteq> None \<Longrightarrow> World_ok (W\<lparr>files := fls\<rparr>)"
  by (simp add: World_ok_def databases_ok_def db_handles_def clients_ok_def timers_ok_def timer_ok_def
      queues_ok_def served_def)

lemma World_ok_fork_sent: "World_ok W \<Longrightarrow> World_ok (W\<lparr>fork_sent := s\<rparr>)"
  by (simp add: World_ok_def databases_ok_def db_handles_def clients_ok_def timers_ok_def timer_ok_def
      queues_ok_def served_def)

lemma World_ok_cmd_que:
  "World_ok W \<Longrightarrow> (\<forall>(cli, cmd) \<in> set que. served W cli \<and> Command_ok cmd) \<Longrightarrow> World_ok (W\<lparr>cmd_que := que\<rparr>)"
  by (simp add: World_ok_def databases_ok_def db_handles_def clients_ok_def timers_ok_def timer_ok_def
      queues_ok_def served_def)

lemma World_ok_cli_que:
  "World_ok W \<Longrightarrow> (\<forall>(cli, flag) \<in> set que. served W cli) \<Longrightarrow> World_ok (W\<lparr>cli_que := que\<rparr>)"
  by (simp add: World_ok_def databases_ok_def db_handles_def clients_ok_def timers_ok_def timer_ok_def
      queues_ok_def served_def)

lemma World_ok_tmr_que:
  "World_ok W \<Longrightarrow> que_wf que \<Longrightarrow> set que \<subseteq> set (tmr_que W) \<Longrightarrow> World_ok (W\<lparr>tmr_que := que\<rparr>)"
  by (auto simp: World_ok_def databases_ok_def db_handles_def clients_ok_def timers_ok_def timer_ok_def
      queues_ok_def served_def)

section \<open>Changes of the clients\<close>

lemma on_server_sel [simp]:
  "conf (on_server f W) = conf W" "databases (on_server f W) = databases W"
  "server (on_server f W) = f (server W)" "files (on_server f W) = files W"
  "cmd_que (on_server f W) = cmd_que W" "cli_que (on_server f W) = cli_que W"
  "db_source (on_server f W) = db_source W" "nums (on_server f W) = nums W"
  "tmr_que (on_server f W) = tmr_que W" "aof_timer (on_server f W) = aof_timer W"
  by (simp_all add: on_server_def)

lemma World_ok_server:
  assumes "World_ok W" and "clients_ok (on_server f W)"
    and "\<And>cli. served W cli \<Longrightarrow> served (on_server f W) cli"
  shows "World_ok (on_server f W)"
proof (rule World_okI)
  note parts = World_ok_parts [OF assms(1)]
  show "queues_ok (on_server f W)" using parts(4) assms(3) by (fastforce simp: queues_ok_def)
qed (use World_ok_parts [OF assms(1)] assms(2) in
    \<open>simp_all add: databases_ok_def db_handles_def timers_ok_def timer_ok_def\<close>)

lemma db_handles_server [simp]: "db_handles (on_server f W) = db_handles W"
  by (simp add: db_handles_def)

lemma client_source_put: "client_source (client_put cli c srv) = client_source srv"
  by (simp add: client_put_def)

lemma World_ok_put:
  assumes "World_ok W" and lock: "client_lock cli (server W) = Some c" and "cli_fd c' = cli_fd c"
    and db: "cli_database c' = cli_database c \<or> (\<exists>d \<in> db_handles W. cli_database c' = Some d)"
  shows "World_ok (on_server (client_put cli c') W)"
proof (rule World_ok_server [OF assms(1)])
  note cl = World_ok_parts(2) [OF assms(1)]
  have "(cli, c) \<in> set (client_map (server W))" using lock by (rule client_lock_Some)
  with cl db have d: "d \<in> db_handles W" if "cli_database c' = Some d" for d
    using that by (auto simp: clients_ok_def)
  have "Server_wf (server W)" using cl by (simp add: clients_ok_def)
  note wf = Server_wf_put [OF this lock assms(3)]
  show "clients_ok (on_server (client_put cli c') W)"
    unfolding clients_ok_def on_server_sel db_handles_server
  proof (intro conjI allI impI wf)
    fix h x e
    assume "(h, x) \<in> set (client_map (client_put cli c' (server W)))" and x: "cli_database x = Some e"
    then consider "x = c'" | "(h, x) \<in> set (client_map (server W))"
      by (auto simp: client_map_put split: if_splits)
    then show "e \<in> db_handles W" using d x cl by cases (simp_all add: clients_ok_def)
  qed
  show "served (on_server (client_put cli c') W) k" if "served W k" for k
    using that db lock by (auto simp: served_def client_lock_put client_source_put split: if_splits)
qed

lemma World_ok_clients_subset:
  assumes "World_ok W" and "Server_wf (f (server W))" and "client_source (f (server W)) = client_source (server W)"
    and "set (client_map (f (server W))) \<subseteq> set (client_map (server W))"
  shows "World_ok (on_server f W)"
proof (rule World_ok_server [OF assms(1)])
  show "clients_ok (on_server f W)"
    using World_ok_parts(2) [OF assms(1)] assms(2,4) by (fastforce simp: clients_ok_def)
  have d: "distinct (map fst (client_map (server W)))"
    using World_ok_parts(2) [OF assms(1)] by (simp add: clients_ok_def Server_wf_def)
  have "client_lock k (server W) = Some c" if "client_lock k (f (server W)) = Some c" for k c
    using client_lock_Some [OF that] assms(4) d by (auto simp: client_lock_def)
  then show "served (on_server f W) k" if "served W k" for k
    using that assms(3) by (auto simp: served_def)
qed

lemma RemoveCli_sel:
  "client_source (Server_RemoveCli fd srv) = client_source srv"
  "set (client_map (Server_RemoveCli fd srv)) \<subseteq> set (client_map srv)"
  by (auto simp: Server_RemoveCli_def fd_close_def Let_def split: option.splits)

lemma World_ok_Server_wf: "World_ok W \<Longrightarrow> Server_wf (server W)"
  by (simp add: World_ok_def clients_ok_def)

lemma World_ok_Logout: "World_ok W \<Longrightarrow> World_ok (on_server (ClientInfo_Logout c) W)"
  by (rule World_ok_clients_subset)
    (simp_all add: ClientInfo_Logout_def Server_wf_RemoveCli World_ok_Server_wf RemoveCli_sel)

lemma Enable_sel:
  "client_map (Server_EnableSend c srv) = client_map srv" "client_map (Server_EnableRead c srv) = client_map srv"
  "client_source (Server_EnableSend c srv) = client_source srv"
  "client_source (Server_EnableRead c srv) = client_source srv"
  by (simp_all add: Server_EnableSend_def Server_EnableRead_def epoll_mod_def)

lemma World_ok_Enable:
  assumes "World_ok W"
  shows "World_ok (on_server (Server_EnableSend c) W)" "World_ok (on_server (Server_EnableRead c) W)"
  by (rule World_ok_clients_subset [OF assms];
      simp add: Server_wf_Enable World_ok_Server_wf [OF assms] Enable_sel)+

lemmas World_ok_intros = World_ok_db_update World_ok_add_db World_ok_EncounterTimer World_ok_fork_sent
  World_ok_Logout World_ok_Enable

section \<open>Timers\<close>

lemma Db_wf_aof [simp]: "Db_wf (db\<lparr>aof_cache := s\<rparr>) = Db_wf db"
  by (simp add: Db_wf_def)

lemma Db_wf_AOF [simp]: "Db_wf (Db_AppendAOF cf req db) = Db_wf db" "Db_wf (snd (Db_ExportAOF cf pw db)) = Db_wf db"
  by (simp_all add: Db_AppendAOF_def Db_ExportAOF_def)

lemma DatabaseAppend_sel:
  "snd (MainLoop_DatabaseAppend cf W) =
     W\<lparr>databases := map (\<lambda>(h, db). (h, snd (Db_ExportAOF cf (password W) db))) (databases W)\<rparr>"
  by (simp add: MainLoop_DatabaseAppend_def)

lemma World_ok_DatabaseAppend:
  assumes "World_ok W"
  shows "World_ok (snd (MainLoop_DatabaseAppend cf W))"
proof (rule World_ok_databases [OF assms])
  let ?W = "snd (MainLoop_DatabaseAppend cf W)"
  have fst: "map fst (databases ?W) = map fst (databases W)" by (auto simp: DatabaseAppend_sel)
  then have h: "db_handles ?W = db_handles W" by (simp only: db_handles_def)
  then show "db_handles W \<subseteq> db_handles ?W" by simp
  have "\<forall>(h, db) \<in> set (databases ?W). Db_wf db" "databases ?W \<noteq> []"
    using World_ok_parts(1) [OF assms] by (auto simp: DatabaseAppend_sel databases_ok_def)
  moreover have "db_source ?W = db_source W" by (simp add: DatabaseAppend_sel)
  ultimately show "databases_ok ?W"
    using World_ok_parts(1) [OF assms] unfolding databases_ok_def fst h by simp
qed (simp_all add: DatabaseAppend_sel)

lemma timer_ok_trivial [simp]:
  "timer_ok W (DbRewriteTimer t s)" "timer_ok W (RdbTimer t p)" "timer_ok W (AofTimer t p a)"
  by (simp_all add: timer_ok_def)

lemma Timer_Exec_ok:
  assumes ok: "World_ok W" and "timer_ok W t" and exec: "Timer_Exec cf now_us t W = Inr W'"
  shows "World_ok W'"
proof (cases t)
  case (DbExpireTimer time h name)
  from exec obtain db where db: "db_deref h W = Inr db"
      and W': "W' = db_update h (snd (Db_Del (Str_ctor name) db)) W"
    by (auto simp: DbExpireTimer rbind_eq_Inr_iff)
  have "Db_wf db" using db_deref_wf [OF World_ok_parts(1) [OF ok] db] ..
  then show ?thesis unfolding W' by (intro World_ok_db_update ok Db_wf_Del)
next
  case (DbRewriteTimer time contents)
  with exec show ?thesis
    by (auto simp: rbind_eq_Inr_iff FileManager_Write_def intro: World_ok_files [OF ok])
next
  case (RdbTimer time period)
  with exec obtain src files' where "RDBSave src (conf_file_name (conf W)) (files W) = Inr files'"
      and W': "W' = MainLoop_EncounterTimer (RdbTimer (now_us + period) period) (W\<lparr>files := files'\<rparr>)"
    by (auto simp: rbind_eq_Inr_iff)
  then have "files' (conf_file_name (conf W)) \<noteq> None"
    using RDBSave_contents [of "files W" "conf_file_name (conf W)" src] World_ok_parts(5) [OF ok] by auto
  then show ?thesis unfolding W' by (intro World_ok_EncounterTimer World_ok_files ok timer_ok_trivial)
next
  case (AofTimer time period again)
  let ?W1 = "snd (MainLoop_DatabaseAppend cf W)"
  let ?fls = "AOFSave (fst (MainLoop_DatabaseAppend cf W)) (conf_file_name (conf W)) (files ?W1)"
  have ok1: "World_ok ?W1" by (rule World_ok_DatabaseAppend [OF ok])
  have "conf ?W1 = conf W" by (simp add: DatabaseAppend_sel)
  with World_ok_parts(5) [OF ok1] have "?fls (conf_file_name (conf ?W1)) \<noteq> None"
    using AOFSave_contents [of "files ?W1"] by auto
  with ok1 have "World_ok (?W1\<lparr>files := ?fls\<rparr>)" by (rule World_ok_files)
  note this World_ok_EncounterTimer [OF this timer_ok_trivial(3)]
  with exec show ?thesis by (auto simp: AofTimer Let_def case_prod_beta')
qed

lemma BlockPop_Wake:
  "TimerQue_BlockPop [Wake now_us] que = Some (t, que', es) \<Longrightarrow>
     que = t # que' \<and> expire_time_us t \<le> now_us"
  by (auto split: list.splits if_splits simp: not_less)

lemma Handler_ExecTimer_ok:
  assumes ok: "World_ok W" and exec: "Handler_ExecTimer cf now_us exec_us W = Inr W'"
  shows "World_ok W'"
proof (cases "TimerQue_BlockPop [Wake now_us] (tmr_que W)")
  case None
  with exec ok show ?thesis by (simp add: Handler_ExecTimer_def)
next
  case (Some r)
  obtain t que es where r: "r = (t, que, es)" by (cases r)
  have q: "tmr_que W = t # que" using BlockPop_Wake Some r by blast
  with World_ok_parts(3) [OF ok] have t: "que_wf que" "timer_ok W t" by (simp_all add: timers_ok_def)
  have ok1: "World_ok (W\<lparr>tmr_que := que\<rparr>)" by (rule World_ok_tmr_que [OF ok t(1)]) (auto simp: q)
  have "timer_ok (W\<lparr>tmr_que := que\<rparr>) t" using t(2) by (simp add: timer_ok_def db_handles_def)
  moreover have "Timer_Exec cf exec_us t (W\<lparr>tmr_que := que\<rparr>) = Inr W'"
    using exec unfolding Handler_ExecTimer_def Some r option.case prod.case .
  ultimately show ?thesis by (rule Timer_Exec_ok [OF ok1])
qed

section \<open>Commands\<close>

definition object_step :: "(Db \<Rightarrow> (json_array \<times> Db) result) \<Rightarrow> bool" where
  "object_step f \<longleftrightarrow> (\<forall>db ret db'. Db_wf db \<longrightarrow> f db = Inr (ret, db') \<longrightarrow> Db_wf db')"

lemma object_steps:
  "object_step (StrCommand_Exec c1)" "object_step (ListCommand_Exec c2)" "object_step (HashCommand_Exec c3)"
  "object_step (SetCommand_Exec r c4)" "object_step (ZSetCommand_Exec c5)"
  unfolding object_step_def StrCommand_Exec_def ListCommand_Exec_def HashCommand_Exec_def
    SetCommand_Exec_def ZSetCommand_Exec_def
  by (intro allI impI, erule (1) str_command.exec_wf list_command.exec_wf hash_command.exec_wf
      set_command.exec_wf zset_command.exec_wf)+

lemma on_database_cases:
  assumes "World_ok W" and "on_database cmd cli f W = Inr (ret, W')"
  obtains "W' = W" | h db r where "h \<in> db_handles W" "Db_wf db" "f h db = Inr (r, W')"
proof (cases "valid cmd \<and> client_lock cli (server W) \<noteq> None")
  case False
  then have "W' = W" using assms(2) by (auto simp: on_database_def split: if_splits)
  then show ?thesis by (rule that(1))
next
  case True
  then obtain c where c: "client_lock cli (server W) = Some c" "valid cmd" by blast
  with assms(2) obtain h db r where "client_db c W = Inr (h, db)" "f h db = Inr (r, W')"
    by (auto simp: on_database_def rbind_eq_Inr_iff)
  moreover from this(1) have "db_deref h W = Inr db"
    by (auto simp: client_db_def rbind_eq_Inr_iff split: option.splits)
  ultimately show ?thesis using db_deref_wf [OF World_ok_parts(1) [OF assms(1)]] that(2) by blast
qed

lemma object_Exec_ok:
  assumes "World_ok W" and "object_step f" and "on_database cmd cli (object_Exec f W) W = Inr (ret, W')"
  shows "World_ok W'"
  using assms(1,3)
proof (cases rule: on_database_cases)
  case 1
  with assms(1) show ?thesis by simp
next
  case (2 h db r)
  then obtain db' where "f db = Inr (r, db')" "W' = db_update h db' W"
    by (auto simp: object_Exec_def rbind_eq_Inr_iff)
  with assms(2) 2(2) have "Db_wf db'" "W' = db_update h db' W" by (auto simp: object_step_def)
  then show ?thesis using World_ok_db_update [OF assms(1)] by simp
qed

lemma DbCommand_run_ok:
  assumes ok: "World_ok W" and h: "h \<in> db_handles W" and wf: "Db_wf db"
    and run: "DbCommand_run cf now_us cmd W h db = Inr (r, W')"
  shows "World_ok W'"
proof -
  let ?key = "Str_ctor (obj_name cmd)"
  have exp: "World_ok (db_update h (snd (Db_ExpireAt h ?key t db)) W)" for t
    by (rule World_ok_db_update [OF ok Db_wf_ExpireAt [OF wf]])
  have arm: "timer_ok (db_update h db' W) tm" if "fst (Db_ExpireAt h ?key t db) = Some tm" for t tm db'
    using that h by (auto simp: timer_ok_def Db_ExpireAt_def split: option.splits)
  consider "command cmd = ''DEL''" | "command cmd = ''EXPIRE''" | "command cmd = ''WHEN''"
    | "command cmd = ''REWRITE''" | "command cmd \<notin> {''DEL'', ''EXPIRE'', ''WHEN'', ''REWRITE''}" by blast
  then show ?thesis
  proof cases
    case 1
    with run have "W' = db_update h (snd (Db_Del ?key db)) W"
      by (simp add: DbCommand_run_def Let_def case_prod_beta')
    then show ?thesis using World_ok_db_update [OF ok Db_wf_Del [OF wf]] by simp
  next
    case 2
    with run obtain v where v: "(case v of None \<Rightarrow> Inr (reply '' '', W)
        | Some t \<Rightarrow> Inr (reply ''OK'',
            case fst (Db_ExpireAt h ?key t db) of
              None \<Rightarrow> db_update h (snd (Db_ExpireAt h ?key t db)) W
            | Some tm \<Rightarrow> MainLoop_EncounterTimer tm (db_update h (snd (Db_ExpireAt h ?key t db)) W))) =
        (Inr (r, W') :: (json_array \<times> World) result)"
      by (auto simp: DbCommand_run_def Let_def rbind_eq_Inr_iff case_prod_beta')
    show ?thesis
    proof (cases v)
      case (Some t)
      show ?thesis
      proof (cases "fst (Db_ExpireAt h ?key t db)")
        case (Some tm)
        with v \<open>v = Some t\<close> have "W' = MainLoop_EncounterTimer tm (db_update h (snd (Db_ExpireAt h ?key t db)) W)"
          by simp
        then show ?thesis using World_ok_EncounterTimer [OF exp arm [OF Some]] by simp
      qed (use v Some exp [of t] in auto)
    qed (use v ok in simp)
  next
    case 4
    with run have "W' = W \<or> (\<exists>s. W' = MainLoop_EncounterTimer (DbRewriteTimer 0 s) W)"
      by (cases "conf_enable_aof (conf W)") (auto simp: DbCommand_run_def Let_def rbind_eq_Inr_iff)
    then show ?thesis using ok World_ok_EncounterTimer [OF ok timer_ok_trivial(1)] by auto
  qed (use run ok in \<open>simp_all add: DbCommand_run_def Let_def\<close>)
qed

lemma find_db_handle: "find_db n W = Some h \<Longrightarrow> h \<in> db_handles W"
  by (auto simp: find_db_def db_handles_def find_Some_iff) (metis fst_conv image_eqI nth_mem)

lemma MainLoop_GetDB_handle: "databases_ok W \<Longrightarrow> MainLoop_GetDB n W = Inr h \<Longrightarrow> h \<in> db_handles W"
  using first_db_ok [of W] by (auto simp: MainLoop_GetDB_def dest: find_db_handle split: option.splits)

lemma Db_wf_ctor:
  "Db_ctor ns = Inr dn \<Longrightarrow> Db_wf (fst dn)" "Db_ctor_number n ns = Inr dn \<Longrightarrow> Db_wf (fst dn)"
  by (auto simp: Db_ctor_def Db_ctor_number_def rbind_eq_Inr_iff)

lemma MainLoop_SuGetDB_ok:
  assumes "World_ok W" and "MainLoop_SuGetDB n W = Inr (h, W1)"
  shows "World_ok W1 \<and> h \<in> db_handles W1 \<and> server W1 = server W"
proof (cases "find_db n W")
  case None
  with assms(2) obtain dn where dn: "Db_ctor_number n (nums W) = Inr dn" and h: "h = db_source W"
      and W1: "W1 = add_db dn W"
    by (auto simp: MainLoop_SuGetDB_def rbind_eq_Inr_iff)
  have "h \<in> db_handles W1" "server W1 = server W" by (auto simp: h W1 add_db_def db_handles_def)
  moreover have "World_ok W1" unfolding W1 by (rule World_ok_add_db [OF assms(1) Db_wf_ctor(2) [OF dn]])
  ultimately show ?thesis by simp
next
  case (Some h')
  then show ?thesis using assms find_db_handle by (auto simp: MainLoop_SuGetDB_def)
qed

lemma MainLoop_CreateDB_ok:
  assumes "World_ok W" and "MainLoop_CreateDB W = Inr (n, W')"
  shows "World_ok W'"
proof (cases "length (databases W) \<ge> 16")
  case False
  with assms(2) obtain dn where dn: "Db_ctor (nums W) = Inr dn" and W': "W' = add_db dn W"
    by (auto simp: MainLoop_CreateDB_def rbind_eq_Inr_iff)
  show ?thesis unfolding W' by (rule World_ok_add_db [OF assms(1) Db_wf_ctor(1) [OF dn]])
qed (use assms in \<open>simp add: MainLoop_CreateDB_def\<close>)

lemma SELECT_ok:
  assumes ok: "World_ok W" and lock: "client_lock cli (server W) = Some c"
    and get: "(if b then MainLoop_SuGetDB n W else rbind (MainLoop_GetDB n W) (\<lambda>h. Inr (h, W))) = Inr (h, W1)"
  shows "World_ok (on_server (client_put cli (ClientInfo_SetDB (Some h) c)) W1)"
proof -
  have W1: "World_ok W1 \<and> h \<in> db_handles W1 \<and> server W1 = server W"
  proof (cases b)
    case True
    with get show ?thesis using MainLoop_SuGetDB_ok [OF ok] by simp
  next
    case False
    with get show ?thesis
      using ok MainLoop_GetDB_handle [OF World_ok_parts(1) [OF ok]] by (auto simp: rbind_eq_Inr_iff)
  qed
  then have lock1: "client_lock cli (server W1) = Some c" using lock by simp
  show ?thesis
    by (rule World_ok_put [OF conjunct1 [OF W1] lock1]) (use W1 in \<open>simp_all add: ClientInfo_SetDB_def\<close>)
qed

lemma CliCommand_Exec_ok:
  assumes ok: "World_ok W" and drop: "command cmd \<noteq> ''DROP''"
    and exec: "CliCommand_Exec cmd cli W = Inr (ret, W')"
  shows "World_ok W'"
proof (cases "valid cmd \<and> client_lock cli (server W) \<noteq> None \<and> command cmd \<in> {''SELECT'', ''CREATE''}")
  case False
  then have "W' = W"
    using exec drop
    by (auto simp: CliCommand_Exec_def rbind_eq_Inr_iff split: if_splits option.splits)
  with ok show ?thesis by simp
next
  case True
  then obtain c where c: "client_lock cli (server W) = Some c" by blast
  show ?thesis
  proof (cases "command cmd = ''SELECT''")
    case sel: True
    from exec True c obtain intval where i: "(case intval of
        None \<Rightarrow> Inr (Some (reply '' ''), W)
      | Some n \<Rightarrow>
          rbind (if pswd cmd = Some (password W) then MainLoop_SuGetDB n W
                 else rbind (MainLoop_GetDB n W) (\<lambda>h. Inr (h, W))) (\<lambda>(h, W1).
            rbind (db_deref h W1) (\<lambda>db.
              Inr (Some (reply (''Select: '' @ to_string (Db_Number db))),
                   on_server (client_put cli (ClientInfo_SetDB (Some h) c)) W1)))) = Inr (ret, W')"
      by (auto simp: CliCommand_Exec_def sel rbind_eq_Inr_iff cong: option.case_cong)
    show ?thesis
    proof (cases intval)
      case (Some n)
      with i obtain h W1 where
          g: "(if pswd cmd = Some (password W) then MainLoop_SuGetDB n W
               else rbind (MainLoop_GetDB n W) (\<lambda>h. Inr (h, W))) = Inr (h, W1)"
          and W': "W' = on_server (client_put cli (ClientInfo_SetDB (Some h) c)) W1"
        by (auto simp: rbind_eq_Inr_iff)
      show ?thesis unfolding W' by (rule SELECT_ok [OF ok c g])
    qed (use i ok in simp)
  next
    case False
    with exec True c obtain n where "MainLoop_CreateDB W = Inr (n, W')"
      by (auto simp: CliCommand_Exec_def rbind_eq_Inr_iff)
    then show ?thesis by (rule MainLoop_CreateDB_ok [OF ok])
  qed
qed

lemma ServerCommand_Exec_ok:
  assumes ok: "World_ok W" and exec: "ServerCommand_Exec cf io cmd cli W = Inr (ret, W')"
  shows "World_ok W'"
proof -
  consider "W' = W" | s where "W' = W\<lparr>fork_sent := s\<rparr>" | c where "W' = on_server (ClientInfo_Logout c) W"
    using exec
    by (auto simp: ServerCommand_Exec_def rbind_eq_Inr_iff case_prod_beta' split: option.splits if_splits)
  then show ?thesis by cases (simp_all add: ok World_ok_fork_sent World_ok_Logout)
qed

lemma Command_Exec_ok:
  assumes ok: "World_ok W" and cmd: "Command_ok cmd" and exec: "Command_Exec cf i cmd cli W = Inr (ret, W')"
  shows "World_ok W'"
proof (cases cmd)
  case (Cmd_Db c)
  from ok exec [unfolded Cmd_Db Command_Exec.simps DbCommand_Exec_def] show ?thesis
    by (cases rule: on_database_cases) (use ok DbCommand_run_ok [OF ok] in auto)
qed (use ok cmd exec in \<open>auto intro: object_Exec_ok [OF ok object_steps(1)] object_Exec_ok [OF ok object_steps(2)]
    object_Exec_ok [OF ok object_steps(3)] object_Exec_ok [OF ok object_steps(4)]
    object_Exec_ok [OF ok object_steps(5)] CliCommand_Exec_ok [OF ok] ServerCommand_Exec_ok [OF ok]\<close>)

section \<open>Turns\<close>

lemma Handler_respond_ok:
  assumes "World_ok W"
  shows "World_ok (Handler_respond cf cli respond W)"
proof (cases "\<exists>r c. respond = Some r \<and> client_lock cli (server W) = Some c")
  case True
  then obtain r c where r: "respond = Some r" "client_lock cli (server W) = Some c" by blast
  let ?c = "ClientInfo_Append (printf_double cf) r c"
  have "World_ok (on_server (client_put cli ?c) W)"
    by (rule World_ok_put [OF assms r(2)]) (simp_all add: ClientInfo_Append_def)
  from World_ok_Enable(1) [OF this, of ?c] r show ?thesis
    by (simp add: Handler_respond_def on_server_def Let_def)
next
  case False
  then show ?thesis using assms by (auto simp: Handler_respond_def split: option.splits)
qed

lemma Handler_ExecCommand_ok:
  assumes ok: "World_ok W" and exec: "Handler_ExecCommand cf i W = Inr W'"
  shows "World_ok W'"
proof (cases "cmd_que W")
  case Nil
  with ok exec show ?thesis by (simp add: Handler_ExecCommand_def CommandQue_BlockPop_def)
next
  case (Cons cc que)
  obtain cli cmd where cc: "cc = (cli, cmd)" by (cases cc)
  have q: "\<forall>(cli, cmd) \<in> set (cc # que). served W cli \<and> Command_ok cmd"
    using World_ok_parts(4) [OF ok] by (simp add: queues_ok_def Cons)
  then have ok1: "World_ok (W\<lparr>cmd_que := que\<rparr>)" by (intro World_ok_cmd_que [OF ok]) simp
  from exec obtain respond W1 where
      "Command_Exec cf i cmd cli (W\<lparr>cmd_que := que\<rparr>) = Inr (respond, W1)"
      and W': "W' = Handler_respond cf cli respond W1"
    by (auto simp: Handler_ExecCommand_def CommandQue_BlockPop_def Cons cc rbind_eq_Inr_iff)
  then have "World_ok W1" using Command_Exec_ok [OF ok1] q cc by auto
  then show ?thesis unfolding W' by (rule Handler_respond_ok)
qed

lemma served_cong: "server W' = server W \<Longrightarrow> served W' cli = served W cli"
  by (simp add: served_def)

lemma AppendAOF_ok:
  assumes ok: "World_ok W" and srv: "served W cli" and enabled: "conf_enable_aof (conf W)"
    and aof: "(case client_lock cli (server W) of
      None \<Rightarrow> Inr W
    | Some c \<Rightarrow>
        rbind (client_db c W) (\<lambda>(h, db).
          (let W1 = db_update h (Db_AppendAOF cf req db) W in
           if conf_aof_mode (conf W) = ''no''
           then rbind (MainLoop_GetAOFTimer W1) (\<lambda>atmr. Inr (MainLoop_EncounterTimer atmr W1))
           else Inr W1))) = Inr W'"
  shows "World_ok W' \<and> server W' = server W"
proof (cases "client_lock cli (server W)")
  case (Some c)
  obtain h db where c: "client_db c W = Inr (h, db)" "Db_wf db"
    using client_db_ok [OF ok srv Some] by blast
  let ?W1 = "db_update h (Db_AppendAOF cf req db) W"
  have ok1: "World_ok ?W1" by (rule World_ok_db_update [OF ok]) (simp add: c(2))
  show ?thesis
  proof (cases "conf_aof_mode (conf W) = ''no''")
    case True
    with aof c Some obtain t where t: "aof_timer ?W1 = Some t" "W' = MainLoop_EncounterTimer t ?W1"
      by (auto simp: rbind_eq_Inr_iff MainLoop_GetAOFTimer_def split: option.splits)
    have "timer_ok ?W1 t" using World_ok_parts(3) [OF ok1] enabled t(1) by (simp add: timers_ok_def)
    then show ?thesis using World_ok_EncounterTimer [OF ok1] t(2) by simp
  next
    case False
    with aof c Some ok1 show ?thesis by auto
  qed
qed (use aof ok in simp)

lemma ioClient_requests_ok:
  assumes "World_ok W" and "served W cli" and "ioClient_requests cf cli reqs W = Inr W'"
  shows "World_ok W'"
  using assms
proof (induction reqs arbitrary: W)
  case (Cons req reqs)
  from Cons.prems(3) obtain W1 cmd where
      W1: "(if conf_enable_aof (conf W) then
          (case client_lock cli (server W) of
             None \<Rightarrow> Inr W
           | Some c \<Rightarrow>
               rbind (client_db c W) (\<lambda>(h, db).
                 (let W1 = db_update h (Db_AppendAOF cf req db) W in
                  if conf_aof_mode (conf W) = ''no''
                  then rbind (MainLoop_GetAOFTimer W1) (\<lambda>atmr. Inr (MainLoop_EncounterTimer atmr W1))
                  else Inr W1)))
        else Inr W) = Inr W1"
      and cmd: "RequestToCommandExec cli req = Inr cmd"
      and rest: "ioClient_requests cf cli reqs
        (case cmd of None \<Rightarrow> W1 | Some cc \<Rightarrow> W1\<lparr>cmd_que := CommandQue_Push cc (cmd_que W1)\<rparr>) = Inr W'"
    unfolding ioClient_requests.simps rbind_eq_Inr_iff by blast
  have "World_ok W1 \<and> server W1 = server W"
  proof (cases "conf_enable_aof (conf W)")
    case True
    with W1 show ?thesis using AppendAOF_ok [OF Cons.prems(1,2) True] by simp
  qed (use W1 Cons.prems in simp)
  then have ok1: "World_ok W1" and srv: "served W1 cli"
    using Cons.prems(2) served_cong by blast+
  show ?case
  proof (cases cmd)
    case None
    with rest show ?thesis using Cons.IH [OF ok1 srv] by simp
  next
    case (Some cc)
    obtain h cm where cc: "cc = (h, cm)" by (cases cc)
    have c: "h = cli" "Command_ok cm" using RequestToCommandExec_ok cmd Some cc by blast+
    have "World_ok (W1\<lparr>cmd_que := CommandQue_Push cc (cmd_que W1)\<rparr>)"
      using World_ok_parts(4) [OF ok1] srv c cc
      by (intro World_ok_cmd_que [OF ok1]) (auto simp: queues_ok_def CommandQue_Push_def)
    moreover have "served (W1\<lparr>cmd_que := CommandQue_Push cc (cmd_que W1)\<rparr>) cli"
      using srv by (simp add: served_def)
    ultimately show ?thesis using Cons.IH rest Some by simp
  qed
qed simp

lemma Read_loop_client:
  "ClientInfo_Read_loop n answers c = Inr (k, err, c') \<Longrightarrow> cli_fd c' = cli_fd c \<and> cli_database c' = cli_database c"
proof (induction n answers c rule: ClientInfo_Read_loop.induct)
  case (3 n buf answers c)
  then show ?case by (auto simp: rbind_eq_Inr_iff Let_def split: if_splits)
qed simp_all

lemma Send_client: "ClientInfo_Send n c = Inr (k, c') \<Longrightarrow> cli_fd c' = cli_fd c \<and> cli_database c' = cli_database c"
  by (auto simp: ClientInfo_Send_def split: if_splits)

lemma Export_client: "ClientInfo_ExportMessages c = (ms, c') \<Longrightarrow> cli_fd c' = cli_fd c \<and> cli_database c' = cli_database c"
  by (auto simp: ClientInfo_ExportMessages_def split: prod.splits)

lemma ioClient_send_ok:
  assumes ok: "World_ok W" and lock: "client_lock cli (server W) = Some c"
    and io: "ioClient_send io cli c W = Inr W'"
  shows "World_ok W'"
proof -
  from io obtain n c' where send: "ClientInfo_Send (send_answer io) c = Inr (n, c')"
      and W': "W' = (let W1 = on_server (client_put cli c') W;
            W2 = (if n = -1 \<and> send_errno io = EPIPE then on_server (ClientInfo_Logout c') W1 else W1)
        in if ClientInfo_IsSendOut c' \<and> send_errno io \<noteq> EAGAIN
           then on_server (Server_EnableRead c') W2 else W2)"
    by (auto simp: ioClient_send_def rbind_eq_Inr_iff Let_def)
  have ok1: "World_ok (on_server (client_put cli c') W)"
    by (rule World_ok_put [OF ok lock]) (use Send_client [OF send] in simp_all)
  note World_ok_Enable(2) [OF this] World_ok_Logout [OF this] World_ok_Enable(2) [OF World_ok_Logout [OF this]]
  with ok1 show ?thesis unfolding W' Let_def by simp
qed

lemma ioClient_recv_ok:
  assumes ok: "World_ok W" and srv: "served W cli" and lock: "client_lock cli (server W) = Some c"
    and io: "ioClient_recv cf io cli c W = Inr W'"
  shows "World_ok W'"
proof -
  from io obtain n err c' where read: "ClientInfo_Read (recv_answers io) c = Inr (n, err, c')"
    by (auto simp: ioClient_recv_def rbind_eq_Inr_iff)
  obtain reqs c'' where export: "ClientInfo_ExportMessages c' = (reqs, c'')"
    by (cases "ClientInfo_ExportMessages c'")
  let ?W1 = "on_server (client_put cli c') W"
  let ?W2 = "on_server (client_put cli c'') ?W1"
  have W': "(if n = 0 then Inr (on_server (ClientInfo_Logout c') ?W1)
      else if n = -1 \<and> err = EAGAIN then Inr ?W1
      else ioClient_requests cf cli reqs ?W2) = Inr W'"
    using io unfolding ioClient_recv_def read rbind_simps prod.case Let_def export .
  have r: "cli_fd c' = cli_fd c" "cli_database c' = cli_database c"
    using Read_loop_client read by (simp_all add: ClientInfo_Read_def)
  have ok1: "World_ok ?W1" by (rule World_ok_put [OF ok lock]) (use r in simp_all)
  have lock1: "client_lock cli (server ?W1) = Some c'" using lock by (simp add: client_lock_put)
  note e = Export_client [OF export]
  have ok2: "World_ok ?W2" by (rule World_ok_put [OF ok1 lock1]) (use e in simp_all)
  have "served ?W2 cli"
    using srv lock lock1 r(2) e by (auto simp: served_def client_lock_put client_source_put)
  then show ?thesis
    using W' ok1 World_ok_Logout [OF ok1] ioClient_requests_ok [OF ok2] by (auto split: if_splits)
qed

lemma ioClient_ok:
  assumes ok: "World_ok W" and io: "ioClient cf io W = Inr W'"
  shows "World_ok W'"
proof (cases "cli_que W")
  case (Cons ev que)
  obtain cli flag where ev: "ev = (cli, flag)" by (cases ev)
  let ?W0 = "W\<lparr>cli_que := que\<rparr>"
  have q: "\<forall>(cli, flag) \<in> set (ev # que). served W cli"
    using World_ok_parts(4) [OF ok] by (simp add: queues_ok_def Cons)
  then have ok0: "World_ok ?W0" by (intro World_ok_cli_que [OF ok]) simp
  have srv: "served ?W0 cli" using q ev by (simp add: served_def)
  show ?thesis
  proof (cases "client_lock cli (server ?W0)")
    case None
    with io ok0 show ?thesis by (simp add: ioClient_def Cons ev Let_def)
  next
    case (Some c)
    with io have "(if flag = EPOLLOUT then ioClient_send io cli c ?W0 else ioClient_recv cf io cli c ?W0) = Inr W'"
      by (simp add: ioClient_def Cons ev Let_def)
    then show ?thesis
      using ioClient_send_ok [OF ok0 Some] ioClient_recv_ok [OF ok0 srv Some] by (simp split: if_splits)
  qed
qed (use ok io in \<open>simp add: ioClient_def\<close>)

lemma lock_Wait:
  assumes "cli < client_source srv"
  shows "client_lock cli (snd (Server_Wait evs srv)) = client_lock cli srv \<and>
    client_source srv \<le> client_source (snd (Server_Wait evs srv))"
  using assms
proof (induction evs srv rule: Server_Wait.induct)
  case (2 cfd evs srv)
  have "client_lock cli (Server_accept cfd srv) = client_lock cli srv \<and>
      client_source srv \<le> client_source (Server_accept cfd srv)"
    using 2(2)
    by (auto simp: Server_accept_def fd_close_def client_lock_def map_add_Some_iff map_add_def Let_def
        split: option.splits)
  with 2 show ?case by (auto simp: le_trans)
next
  case (3 fd readable evs srv)
  then show ?case by (auto simp: fd_close_def client_lock_def split: option.splits prod.splits)
qed simp

lemma Wait_databases:
  "\<lbrakk>(h, c) \<in> set (client_map (snd (Server_Wait evs srv))); cli_database c = Some d\<rbrakk> \<Longrightarrow> (h, c) \<in> set (client_map srv)"
proof (induction evs srv rule: Server_Wait.induct)
  case (2 cfd evs srv)
  then have "(h, c) \<in> set (client_map (Server_accept cfd srv))" by simp
  then show ?case
    using 2(3) by (auto simp: Server_accept_def fd_close_def ClientInfo_ctor_def Let_def split: option.splits if_splits)
next
  case (3 fd readable evs srv)
  then show ?case by (auto simp: fd_close_def split: option.splits prod.splits)
qed simp

lemma Wait_clients:
  "\<lbrakk>Server_wf srv; (h, flag) \<in> set (fst (Server_Wait evs srv))\<rbrakk> \<Longrightarrow> h < client_source (snd (Server_Wait evs srv))"
proof (induction evs srv rule: Server_Wait.induct)
  case (2 cfd evs srv)
  then show ?case using Server_wf_accept by simp
next
  case (3 fd readable evs srv)
  show ?case
  proof (cases "client_find fd srv")
    case None
    with 3 show ?thesis using Server_wf_close by simp
  next
    case (Some hc)
    obtain h' c' where hc: "hc = (h', c')" by (cases hc)
    have "h' < client_source srv" using client_find_Some Some hc 3(3) by (force simp: Server_wf_def)
    then have "h' < client_source (snd (Server_Wait evs srv))" using lock_Wait [of h' srv evs] by simp
    with 3 Some hc show ?thesis by (auto split: prod.splits)
  qed
qed simp

lemma World_ok_Wait: "World_ok W \<Longrightarrow> World_ok (on_server (\<lambda>srv. snd (Server_Wait kevs srv)) W)"
proof (rule World_ok_server)
  assume ok: "World_ok W"
  show "clients_ok (on_server (\<lambda>srv. snd (Server_Wait kevs srv)) W)"
    using World_ok_parts(2) [OF ok] Server_wf_Wait Wait_databases by (fastforce simp: clients_ok_def)
  show "served (on_server (\<lambda>srv. snd (Server_Wait kevs srv)) W) cli" if "served W cli" for cli
    using that lock_Wait [of cli "server W" kevs] by (simp add: served_def)
qed

lemma MainLoop_dispatch_ok:
  assumes "World_ok W" and "\<forall>(cli, flag) \<in> set evs. cli < client_source (server W)"
    and "MainLoop_dispatch evs W = Inr W'"
  shows "World_ok W'"
  using assms
proof (induction evs arbitrary: W)
  case (Cons ev evs)
  obtain cli flag where ev: "ev = (cli, flag)" by (cases ev)
  have less: "cli < client_source (server W)" using Cons.prems(2) ev by simp
  have "\<exists>W1. World_ok W1 \<and> served W1 cli \<and> client_source (server W1) = client_source (server W) \<and>
      MainLoop_dispatch evs (W1\<lparr>cli_que := cli_que W1 @ [(cli, flag)]\<rparr>) = Inr W'"
  proof (cases "\<exists>c. client_lock cli (server W) = Some c \<and> ClientInfo_GetDB c = None")
    case True
    then obtain c where c: "client_lock cli (server W) = Some c" "ClientInfo_GetDB c = None" by blast
    obtain h where h: "first_db W = Inr h" "h \<in> db_handles W"
      using first_db_ok [OF World_ok_parts(1) [OF Cons.prems(1)]] by blast
    let ?W1 = "on_server (client_put cli (ClientInfo_SetDB (Some h) c)) W"
    have "World_ok ?W1"
      by (rule World_ok_put [OF Cons.prems(1) c(1)]) (use h in \<open>simp_all add: ClientInfo_SetDB_def\<close>)
    moreover have "served ?W1 cli"
      using less c(1) by (simp add: served_def client_lock_put client_source_put ClientInfo_SetDB_def)
    ultimately show ?thesis
      using Cons.prems(3) c h(1) ev by (intro exI [of _ ?W1]) (simp add: client_source_put)
  next
    case False
    then have "served W cli" using less by (auto simp: served_def ClientInfo_GetDB_def)
    with False Cons.prems ev show ?thesis by (intro exI [of _ W]) (auto split: option.splits)
  qed
  then obtain W1 where W1: "World_ok W1" "served W1 cli" "client_source (server W1) = client_source (server W)"
      "MainLoop_dispatch evs (W1\<lparr>cli_que := cli_que W1 @ [(cli, flag)]\<rparr>) = Inr W'" by blast
  have "World_ok (W1\<lparr>cli_que := cli_que W1 @ [(cli, flag)]\<rparr>)"
    using World_ok_parts(4) [OF W1(1)] W1(2) by (intro World_ok_cli_que [OF W1(1)]) (auto simp: queues_ok_def)
  with W1(4) Cons.prems(2) W1(3) show ?case by (intro Cons.IH) simp_all
qed simp

lemma MainLoop_Run_ok:
  assumes ok: "World_ok W" and run: "MainLoop_Run kevs W = Inr W'"
  shows "World_ok W'"
proof -
  let ?W = "on_server (\<lambda>srv. snd (Server_Wait kevs srv)) W"
  have "MainLoop_dispatch (fst (Server_Wait kevs (server W))) ?W = Inr W'"
    using run by (simp add: MainLoop_Run_def on_server_def case_prod_beta')
  then show ?thesis
    by (rule MainLoop_dispatch_ok [OF World_ok_Wait [OF ok], rotated])
      (use Wait_clients [OF World_ok_Server_wf [OF ok]] in auto)
qed

lemma step_ok:
  assumes "step cf W W'" and ok: "World_ok W"
  shows "World_ok W'"
  using assms(1)
proof cases
  case step_run
  then show ?thesis by (rule MainLoop_Run_ok [OF ok])
next
  case step_io
  then show ?thesis by (rule ioClient_ok [OF ok])
next
  case step_command
  then show ?thesis by (rule Handler_ExecCommand_ok [OF ok])
next
  case step_timer
  then show ?thesis by (rule Handler_ExecTimer_ok [OF ok])
qed

lemma reachable_ok: "reachable cf W W' \<Longrightarrow> World_ok W \<Longrightarrow> World_ok W'"
proof (induction rule: reachable.induct)
  case (reachable_step W W1 W2)
  then show ?case by (intro step_ok [OF reachable_step(2)]) simp
qed

section \<open>The server starts in the invariant\<close>

lemma fold_EncounterTimer_ok:
  assumes "World_ok W" and "\<forall>t \<in> set tmrs. timer_ok W t"
  shows "World_ok (fold MainLoop_EncounterTimer tmrs W)"
  using assms
proof (induction tmrs arbitrary: W)
  case (Cons t tmrs)
  have "World_ok (MainLoop_EncounterTimer t W)" using Cons.prems by (intro World_ok_EncounterTimer) simp_all
  moreover have "timer_ok (MainLoop_EncounterTimer t W) u = timer_ok W u" for u
    by (simp add: timer_ok_def db_handles_def)
  ultimately show ?case using Cons by simp
qed simp

end
