(* ===== verification/Startup.thy ===== *)
theory Startup
  imports Invariant
begin

text \<open>
  The start of the server.  Whatever the dump file contains, a start that succeeds gives a server in
  the invariant; and a server that has saved its databases comes back with them.
\<close>

section \<open>What is read is well formed\<close>

lemma decode_fold_invariant:
  assumes "\<And>source x source'. dec source = Inr (x, source') \<Longrightarrow> Q x"
    and "\<And>x s. Q x \<Longrightarrow> P s \<Longrightarrow> P (add x s)"
  shows "P s \<Longrightarrow> decode_fold dec add n s source = Inr (s', rest) \<Longrightarrow> P s'"
proof (induction n arbitrary: s source)
  case (Suc n)
  then obtain x source1 where x: "dec source = Inr (x, source1)" "decode_fold dec add n (add x s) source1 = Inr (s', rest)"
    by (auto simp: rbind_eq_Inr_iff)
  show ?case by (rule Suc.IH [OF assms(2) [OF assms(1) [OF x(1)] Suc.prems(1)] x(2)])
qed simp

lemma decode_seq_invariant:
  assumes "\<And>source x source'. dec source = Inr (x, source') \<Longrightarrow> Q x"
    and "\<And>x s. Q x \<Longrightarrow> P s \<Longrightarrow> P (add x s)"
    and "P s" and "decode_seq dec add s source = Inr (s', rest)"
  shows "P s'"
proof -
  obtain n source1 where d: "decode_fold dec add n s source1 = Inr (s', rest)"
    using assms(4) by (auto simp: decode_seq_def rbind_eq_Inr_iff)
  show ?thesis
    by (rule decode_fold_invariant [where P = P and Q = Q, OF _ _ assms(3) d]) (fact assms(1) assms(2))+
qed

lemma Object_DecodeValue_wf:
  assumes "Object_DecodeValue cf otyp source = Inr (ob, rest)"
  shows "Object_wf ob"
proof (cases otyp)
  case ObjectType_HASH
  with assms obtain h where h: "Hash_DecodeValue cf [] source = Inr (h, rest)" and ob: "ob = Obj_Hash h"
    by (auto simp: decode_as_def rbind_eq_Inr_iff)
  have "um_wf h"
    by (rule decode_seq_invariant [where P = um_wf and Q = "\<lambda>_. True", OF TrueI _ um_wf_Nil h [unfolded Hash_DecodeValue_def]])
      (auto simp: um.wf_insert)
  then show ?thesis by (simp add: ob)
next
  case ObjectType_SET
  with assms obtain h where h: "Set_DecodeValue cf [] source = Inr (h, rest)" and ob: "ob = Obj_Set h"
    by (auto simp: decode_as_def rbind_eq_Inr_iff)
  have "us_wf h"
    by (rule decode_seq_invariant [where P = us_wf and Q = "\<lambda>_. True", OF TrueI _ us_wf_Nil h [unfolded Set_DecodeValue_def]])
      (auto simp: us.wf_insert)
  then show ?thesis by (simp add: ob)
next
  case ObjectType_ZSET
  with assms obtain z where z: "ZSet_DecodeValue cf ZSet_empty source = Inr (z, rest)" and ob: "ob = Obj_ZSet z"
    by (auto simp: decode_as_def rbind_eq_Inr_iff)
  have inv: "ZSet_inv (ZSet_empty\<lparr>member_map := []\<rparr>)" using ZSet_inv_empty by (simp add: ZSet_empty_def)
  have "ZSet_inv z"
    by (rule decode_seq_invariant [where P = ZSet_inv and Q = "\<lambda>_. True", OF TrueI _ inv z [unfolded ZSet_DecodeValue_def]])
      (auto simp: ZSet_inv_Add)
  then show ?thesis by (simp add: ob)
qed (use assms in \<open>auto simp: decode_as_def rbind_eq_Inr_iff dest: Str_wf_DecodeValue\<close>)

lemma KeyValue_Decode_wf: "KeyValue_Decode cf source = Inr (kv, rest) \<Longrightarrow> Object_wf (kv_value kv)"
  by (auto simp: KeyValue_Decode_def KeyValue_DecodeBody_def rbind_eq_Inr_iff split: if_splits
      dest: Object_DecodeValue_wf)

text \<open>The entries and the timers of a database while it is read.\<close>

definition loading_ok :: "nat \<Rightarrow> KeyValue umap \<times> Timer list \<Rightarrow> bool" where
  "loading_ok this s \<longleftrightarrow>
     um_wf (fst s) \<and> list_all (\<lambda>(k, kv). kv_key kv = k \<and> Object_wf (kv_value kv)) (fst s) \<and>
     (\<forall>t \<in> set (snd s). \<exists>time name. t = DbExpireTimer time this name)"

lemma loading_ok_entry: "Object_wf (kv_value kv) \<Longrightarrow> loading_ok this s \<Longrightarrow> loading_ok this (Db_LoadEntry this kv s)"
  by (auto simp: loading_ok_def Db_LoadEntry_def KeyValue_GetKey_def um.wf_insert um.entries_insert_set
      list_all_iff split: prod.splits option.splits)

lemma Db_Load_wf:
  assumes "Db_Load cf this (Db_fresh n) source = Inr ((db, tmrs), rest)"
  shows "Db_wf db \<and> (\<forall>t \<in> set tmrs. \<exists>time name. t = DbExpireTimer time this name)"
proof -
  obtain m source1 where load: "decode_seq (KeyValue_Decode cf) (Db_LoadEntry this) ([], []) source1 = Inr ((m, tmrs), rest)"
      and m: "key_value_map db = m"
    using assms by (auto simp: Db_Load_def Db_fresh_def rbind_eq_Inr_iff split: list.splits if_splits)
  have "loading_ok this ([], [])" by (simp add: loading_ok_def)
  from decode_seq_invariant [where P = "loading_ok this" and Q = "\<lambda>kv. Object_wf (kv_value kv)",
      OF KeyValue_Decode_wf loading_ok_entry this load]
  show ?thesis by (simp add: loading_ok_def Db_wf_def m)
qed

definition loaded_ok :: "nat \<Rightarrow> (nat \<times> Db) list \<Rightarrow> Timer list \<Rightarrow> bool" where
  "loaded_ok this dbs tmrs \<longleftrightarrow>
     map fst dbs = [this ..< this + length dbs] \<and> (\<forall>(h, db) \<in> set dbs. Db_wf db) \<and>
     (\<forall>t \<in> set tmrs. \<exists>time h name. t = DbExpireTimer time h name \<and> h \<in> set (map fst dbs))"

lemma RDBLoad_loop_wf: "RDBLoad_loop cf ns this source = Inr (dbs, tmrs, ns') \<Longrightarrow> loaded_ok this dbs tmrs"
proof (induction cf ns this source arbitrary: dbs tmrs ns' rule: RDBLoad_loop.induct)
  case (1 cf ns this source)
  show ?case
  proof (cases "source = []")
    case True
    with 1(2) show ?thesis by (auto simp: loaded_ok_def RDBLoad_loop.simps [of cf ns this "[]"])
  next
    case False
    with 1(2) obtain db ns1 db' tmrs1 source1 dbs2 tmrs2 where
        c: "Db_ctor ns = Inr (db, ns1)" "Db_Load cf this db source = Inr ((db', tmrs1), source1)"
        and r: "RDBLoad_loop cf ns1 (Suc this) source1 = Inr (dbs2, tmrs2, ns')"
        and d: "dbs = (this, db') # dbs2" "tmrs = tmrs1 @ tmrs2"
      by (auto simp: RDBLoad_loop.simps [of cf ns this source] rbind_eq_Inr_iff split: sum.splits prod.splits)
    obtain n where "db = Db_fresh n" using c(1) by (auto simp: Db_ctor_def rbind_eq_Inr_iff)
    then have wf: "Db_wf db'" "\<forall>t \<in> set tmrs1. \<exists>time name. t = DbExpireTimer time this name"
      using Db_Load_wf c(2) by blast+
    have IH: "map fst dbs2 = [Suc this ..< Suc this + length dbs2]" "\<forall>(h, db) \<in> set dbs2. Db_wf db"
        "\<forall>t \<in> set tmrs2. \<exists>time h name. t = DbExpireTimer time h name \<and> h \<in> set (map fst dbs2)"
      using 1(1) [OF False c(1) refl c(2) refl refl r] unfolding loaded_ok_def by blast+
    have "this # [Suc this ..< Suc this + length dbs2] = [this ..< this + length dbs]"
      by (simp add: d upt_conv_Cons [symmetric] del: upt_Suc)
    with wf IH show ?thesis by (fastforce simp: d loaded_ok_def simp del: upt_Suc)
  qed
qed

lemma RDBLoad_wf: "RDBLoad cf ns this source = Inr (dbs, tmrs, ns') \<Longrightarrow> loaded_ok this dbs tmrs"
  by (auto simp: RDBLoad_def rbind_eq_Inr_iff split: if_splits elim: RDBLoad_loop_wf)
    (simp add: loaded_ok_def)

section \<open>The constructor\<close>

lemma fold_EncounterTimer_sel [simp]:
  "conf (fold MainLoop_EncounterTimer ts W) = conf W" "databases (fold MainLoop_EncounterTimer ts W) = databases W"
  "nums (fold MainLoop_EncounterTimer ts W) = nums W" "server (fold MainLoop_EncounterTimer ts W) = server W"
  "files (fold MainLoop_EncounterTimer ts W) = files W"
  by (induction ts arbitrary: W) simp_all

lemma MainLoop_load_conf: "MainLoop_load cf now_us dbfile W = Inr W' \<Longrightarrow> conf W' = conf W"
  by (auto simp: MainLoop_load_def rbind_eq_Inr_iff Let_def add_db_def split: if_splits)

text \<open>A server without clients and databases that only waits for the first save.\<close>

definition starting :: "World \<Rightarrow> bool" where
  "starting W \<longleftrightarrow>
     server W = Server_init \<and> cmd_que W = [] \<and> cli_que W = [] \<and> que_wf (tmr_que W) \<and>
     (\<forall>t \<in> set (tmr_que W). \<exists>time period. t = RdbTimer time period) \<and>
     \<not> conf_enable_aof (conf W) \<and> files W (conf_file_name (conf W)) \<noteq> None"

lemma starting_ok: "starting W \<Longrightarrow> databases_ok W \<Longrightarrow> World_ok W"
  by (rule World_okI)
    (auto simp: starting_def clients_ok_def Server_init_def Server_wf_def timers_ok_def timer_ok_def queues_ok_def)

lemma MainLoop_install_ok:
  assumes "starting W" and "db_source W = 0" and "loaded_ok 0 dbs tmrs"
    and "MainLoop_install (dbs, tmrs, ns) W = Inr W'"
  shows "World_ok W'"
proof -
  let ?W1 = "W\<lparr>databases := dbs, nums := ns, db_source := length dbs\<rparr>"
  note wf = assms(3) [unfolded loaded_ok_def]
  have st: "starting ?W1" using assms(1) by (simp add: starting_def)
  show ?thesis
  proof (cases dbs)
    case Nil
    then have "tmrs = []" using wf by (cases tmrs) auto
    with Nil assms(2,4) obtain dn where dn: "Db_ctor ns = Inr dn" and W': "W' = add_db dn ?W1"
      by (auto simp: rbind_eq_Inr_iff)
    have "databases_ok W'"
      using Db_wf_ctor(1) [OF dn] by (auto simp: W' Nil databases_ok_def db_handles_def add_db_def split: prod.splits)
    moreover have "starting W'" using st by (simp add: W' starting_def add_db_def)
    ultimately show ?thesis by (intro starting_ok)
  next
    case (Cons d ds)
    with assms(2,4) have W': "W' = fold MainLoop_EncounterTimer tmrs ?W1" by simp
    have "databases_ok ?W1" using wf Cons by (auto simp: databases_ok_def db_handles_def)
    with st have ok: "World_ok ?W1" by (rule starting_ok)
    have "\<forall>t \<in> set tmrs. timer_ok ?W1 t" using wf by (fastforce simp: timer_ok_def db_handles_def)
    then show ?thesis unfolding W' by (rule fold_EncounterTimer_ok [OF ok])
  qed
qed

lemma MainLoop_load_ok:
  assumes "MainLoop_load cf now_us dbfile (World_init c fls) = Inr W" and "\<not> conf_enable_aof c"
    and "fls (conf_file_name c) \<noteq> None"
  shows "World_ok W"
proof -
  obtain period dbs tmrs ns where load: "RDBLoad cf numbering_init 0 dbfile = Inr (dbs, tmrs, ns)"
      and W: "MainLoop_install (dbs, tmrs, ns)
        (MainLoop_EncounterTimer (RdbTimer (now_us + 1000000) period) (World_init c fls)) = Inr W"
    using assms(1)
    by (auto simp: MainLoop_load_def rbind_eq_Inr_iff World_init_def simp del: MainLoop_install.simps)
  show ?thesis
    by (rule MainLoop_install_ok [OF _ _ RDBLoad_wf [OF load] W])
      (use assms(2,3) in \<open>simp_all add: starting_def World_init_def MainLoop_EncounterTimer_def
        TimerQue_Push_def que_wf_def\<close>)
qed

lemma World_ok_password: "World_ok W \<Longrightarrow> World_ok (W\<lparr>password := pw\<rparr>)"
  by (simp add: World_ok_def databases_ok_def db_handles_def clients_ok_def timers_ok_def timer_ok_def
      queues_ok_def served_def)

lemma MainLoop_CheckAOFLoad_ok:
  assumes "MainLoop_CheckAOFLoad now_us (World_init c fls\<lparr>password := pw\<rparr>) = Inr (b, W)" and "conf_enable_aof c"
  shows "World_ok W"
proof -
  let ?W0 = "World_init c fls\<lparr>password := pw\<rparr>"
  let ?f = "FileManager_Write (conf_file_name c) ''AOF'' fls"
  let ?t = "aof_timer_of now_us (conf_aof_mode c)"
  obtain dn where dn: "Db_ctor numbering_init = Inr dn"
      and W: "W = MainLoop_EncounterTimer ?t ((add_db dn (?W0\<lparr>files := ?f\<rparr>))\<lparr>aof_timer := Some ?t\<rparr>)"
    using assms by (auto simp: MainLoop_CheckAOFLoad_def World_init_def rbind_eq_Inr_iff Let_def add_db_def)
  let ?V = "(add_db dn (?W0\<lparr>files := ?f\<rparr>))\<lparr>aof_timer := Some ?t\<rparr>"
  have t: "timer_ok V ?t" for V by (simp add: aof_timer_of_def timer_ok_def)
  have "World_ok ?V"
    using Db_wf_ctor(1) [OF dn] t
    by (auto simp: World_ok_def databases_ok_def db_handles_def add_db_def World_init_def clients_ok_def
        Server_init_def Server_wf_def timers_ok_def que_wf_def queues_ok_def FileManager_Write_def)
  then show ?thesis unfolding W by (rule World_ok_EncounterTimer [OF _ t])
qed

definition compressing :: "RedisConf \<Rightarrow> env \<Rightarrow> env" where
  "compressing c cf = (if \<not> conf_enable_aof c \<and> conf_compress c then EnCompress cf else cf)"

definition file_contents :: "RedisConf \<Rightarrow> fs \<Rightarrow> string" where
  "file_contents c fls = (case fls (conf_file_name c) of None \<Rightarrow> [] | Some bytes \<Rightarrow> bytes)"

lemma MainLoop_ctor_eq:
  "MainLoop_ctor cf now_us c fls =
     rbind
       (if \<not> conf_enable_aof c
        then MainLoop_load (compressing c cf) now_us (file_contents c fls)
          (World_init c (fls(conf_file_name c \<mapsto> [])))
        else Inr (World_init c (fls(conf_file_name c \<mapsto> []))))
       (\<lambda>W. Inr (compressing c cf, W\<lparr>password := conf_password c\<rparr>, file_contents c fls))"
  by (simp add: MainLoop_ctor_def FileManager_ctor_def FileManager_LoadAndExport_def FileManager_Truncate_def
      compressing_def file_contents_def Let_def split: option.splits)

text \<open>
  A start is the constructor followed by \<open>CheckAOFLoad\<close>, as in \<open>main\<close>.  With the append-only file the
  constructor starts a thread for \<open>AOFLoad\<close>, which \<open>CheckAOFLoad\<close> joins; the thread changes nothing of
  the server but what waits at its socket, and nobody accepts connections before the main loop runs.  So
  the start also returns the bytes that were sent: the main loop will read them from a client like any
  other.
\<close>

definition server_start ::
  "env \<Rightarrow> fork_io \<Rightarrow> size_t \<Rightarrow> size_t \<Rightarrow> RedisConf \<Rightarrow> fs \<Rightarrow> (env \<times> World \<times> string) result" where
  "server_start cf io now_us now_us' c fls =
     rbind (MainLoop_ctor cf now_us c fls) (\<lambda>(cf', W, dbfile).
       rbind (if conf_enable_aof c then AOFLoad io dbfile else Inr []) (\<lambda>sent.
         rbind (MainLoop_CheckAOFLoad now_us' W) (\<lambda>(b, W'). Inr (cf', W', sent))))"

lemma server_start_rdb:
  assumes "\<not> conf_enable_aof c"
  shows "server_start cf io now_us now_us' c fls =
    rbind (MainLoop_load (compressing c cf) now_us (file_contents c fls) (World_init c (fls(conf_file_name c \<mapsto> []))))
      (\<lambda>W. Inr (compressing c cf, W\<lparr>password := conf_password c\<rparr>, []))"
proof (cases "MainLoop_load (compressing c cf) now_us (file_contents c fls) (World_init c (fls(conf_file_name c \<mapsto> [])))")
  case (Inr W)
  from MainLoop_load_conf [OF this] have "conf W = c" by (simp add: World_init_def)
  with Inr assms show ?thesis by (simp add: server_start_def MainLoop_ctor_eq MainLoop_CheckAOFLoad_def)
qed (use assms in \<open>simp add: server_start_def MainLoop_ctor_eq\<close>)

lemma server_start_ok:
  assumes "server_start cf io now_us now_us' c fls = Inr (cf', W, sent)"
  shows "World_ok W"
proof (cases "conf_enable_aof c")
  case True
  then show ?thesis
    using assms MainLoop_CheckAOFLoad_ok
    by (auto simp: server_start_def MainLoop_ctor_eq rbind_eq_Inr_iff)
next
  case False
  then obtain W1 where "MainLoop_load (compressing c cf) now_us (file_contents c fls)
        (World_init c (fls(conf_file_name c \<mapsto> []))) = Inr W1" and W: "W = W1\<lparr>password := conf_password c\<rparr>"
    using assms by (auto simp: server_start_rdb rbind_eq_Inr_iff)
  then have "World_ok W1" using MainLoop_load_ok False by simp
  then show ?thesis unfolding W by (rule World_ok_password)
qed

section \<open>Save and restart\<close>

lemma save_all_map: "map (Db_Save cf) dbs = map Inr bss \<Longrightarrow> save_all cf dbs = Inr bss"
  by (induction dbs arbitrary: bss) (auto simp: Cons_eq_map_conv)

text \<open>The period of the saves is defined.\<close>

definition rdb_conf :: "RedisConf \<Rightarrow> bool" where
  "rdb_conf c \<longleftrightarrow> \<not> conf_enable_aof c \<and> conf_save_n_times c \<noteq> 0"

lemma save_restart:
  assumes W: "conf W = c" "files W (conf_file_name c) \<noteq> None" and dbs: "map snd (databases W) = dbs"
    and sv: "list_all saved dbs" "length dbs < 2 ^ 31"
    and ne: "filter (\<lambda>db. key_value_map db \<noteq> []) dbs \<noteq> []" and c: "rdb_conf c"
  shows "\<exists>W1 W2. Timer_Exec (compressing c cf) now_us (RdbTimer t p) W = Inr W1 \<and>
    server_start cf io now1 now2 c (files W1) = Inr (compressing c cf, W2, []) \<and>
    databases W2 = reloaded 0 dbs \<and> set (reloaded_timers 0 dbs) \<subseteq> set (tmr_que W2)"
proof -
  let ?cf = "compressing c cf" and ?f = "conf_file_name c"
  from RDB_roundtrip [of dbs "files W" ?f ?cf 0] sv W(2) obtain bss files' source ns where rt:
      "map (Db_Save ?cf) dbs = map Inr bss" "RDBSave bss ?f (files W) = Inr files'"
      "FileManager_LoadAndExport ?f files' = Inr source"
      "RDBLoad ?cf numbering_init 0 source = Inr (reloaded 0 dbs, reloaded_timers 0 dbs, ns)"
    by blast
  define W1 where "W1 = MainLoop_EncounterTimer (RdbTimer (now_us + p) p) (W\<lparr>files := files'\<rparr>)"
  have save: "Timer_Exec ?cf now_us (RdbTimer t p) W = Inr W1"
    using rt(2) W(1) by (simp add: MainLoop_DatabaseSave_def dbs save_all_map [OF rt(1)] W1_def)
  have src: "file_contents c (files W1) = source"
    using rt(3) by (auto simp: W1_def file_contents_def FileManager_LoadAndExport_def split: option.splits)
  obtain period where per: "rdb_period c = Inr period" using c by (auto simp: rdb_conf_def rdb_period_def)
  let ?V = "MainLoop_EncounterTimer (RdbTimer (now1 + 1000000) period) (World_init c ((files W1)(?f \<mapsto> [])))"
  define W2 where "W2 = fold MainLoop_EncounterTimer (reloaded_timers 0 dbs)
      (?V\<lparr>databases := reloaded 0 dbs, nums := ns, db_source := length (reloaded 0 dbs)\<rparr>)"
  have "reloaded 0 dbs \<noteq> []"
    using ne reloaded_databases [of 0 dbs] by (metis list.map_disc_iff)
  then have "MainLoop_load ?cf now1 source (World_init c ((files W1)(?f \<mapsto> []))) = Inr W2"
    using rt(4) per by (simp add: MainLoop_load_def World_init_def W2_def)
  then have start: "server_start cf io now1 now2 c (files W1) = Inr (?cf, W2\<lparr>password := conf_password c\<rparr>, [])"
    using c by (simp add: server_start_rdb rdb_conf_def src)
  have "set (tmr_que (fold MainLoop_EncounterTimer ts V)) = set ts \<union> set (tmr_que V)" for ts V
    by (induction ts arbitrary: V) (auto simp: MainLoop_EncounterTimer_def)
  then have "set (reloaded_timers 0 dbs) \<subseteq> set (tmr_que W2)" by (simp add: W2_def)
  with save start show ?thesis
    by (intro exI [of _ W1] exI [of _ "W2\<lparr>password := conf_password c\<rparr>"]) (simp add: W2_def)
qed

text \<open>An empty file, as on the first start, is read past its end.\<close>

lemma first_start:
  assumes "conf_enable_aof c \<or> conf_save_n_times c \<noteq> 0" and "file_contents c fls = []"
  shows "server_start cf io now1 now2 c fls = Inl Undefined"
proof (cases "conf_enable_aof c")
  case True
  then show ?thesis using assms(2) by (simp add: server_start_def MainLoop_ctor_eq AOFLoad_def PeekString_def)
next
  case False
  then show ?thesis
    using assms by (simp add: server_start_rdb MainLoop_load_def World_init_def rdb_period_def RDBLoad_def PeekString_def)
qed

text \<open>
  With the append-only file, a socket that can be opened and connected and takes everything, the start
  sends what the file has behind its mark.
\<close>

lemma AOFLoad_write_all [simp]: "AOFLoad_write [] s = s"
  by (cases s) simp_all

lemma Db_ctor_first: "\<exists>ns. Db_ctor numbering_init = Inr (Db_fresh 0, ns)"
  by (simp add: Db_ctor_def next_number.simps numbering_init_def)

lemma server_start_aof:
  assumes "conf_enable_aof c" and "file_contents c fls = ''AOF'' @ s" and "socket_ok io" and "connect_ok io"
    and "write_answers io = []"
  shows "\<exists>W. server_start cf io now1 now2 c fls = Inr (cf, W, s) \<and> map snd (databases W) = [Db_fresh 0]"
proof -
  obtain ns where ns: "Db_ctor numbering_init = Inr (Db_fresh 0, ns)" using Db_ctor_first by blast
  have "AOFLoad io (''AOF'' @ s) = Inr s" using assms(3-5) by (simp add: AOFLoad_def PeekString_def)
  then show ?thesis
    using assms(1,2) ns
    by (simp add: server_start_def MainLoop_ctor_eq compressing_def MainLoop_CheckAOFLoad_def World_init_def
        add_db_def MainLoop_EncounterTimer_def Let_def)
qed

end
