(* ===== verification/Replay.thy ===== *)
theory Replay
  imports Startup
begin

text \<open>
  Copying a database to another server, by \<open>FORK\<close> or by rewriting the append-only file: the requests
  that \<open>Db::Fork\<close> writes, read by the other end and executed there, rebuild the database.  This holds
  for contents that survive the tokenizer: non-empty strings of letters and digits and scores that are
  not negative.
\<close>

section \<open>Tokens\<close>

definition token :: "string \<Rightarrow> bool" where
  "token t \<longleftrightarrow> t \<noteq> [] \<and> list_all isTokenMember t"

lemma not_token_blank [simp]: "\<not> isTokenMember (CHR '' '')"
  by (simp add: isTokenMember_def less_eq_char_def)

lemma RawCommandTokens_blank: "RawCommandTokens (CHR '' '' # s) = RawCommandTokens s"
proof -
  have "nextToken (CHR '' '' # s) = nextToken s" by (simp add: nextToken_def)
  then show ?thesis by (simp add: RawCommandTokens.simps [of "CHR '' '' # s"] RawCommandTokens.simps [of s])
qed

lemma RawCommandTokens_spaced:
  "list_all token ts \<Longrightarrow>
     RawCommandTokens (concat (map (\<lambda>t. t @ '' '') ts) @ s) = ts @ RawCommandTokens s"
proof (induction ts)
  case (Cons t ts)
  then have "RawCommandTokens ([] @ t @ (CHR '' '' # concat (map (\<lambda>t. t @ '' '') ts) @ s)) =
      t # RawCommandTokens (CHR '' '' # concat (map (\<lambda>t. t @ '' '') ts) @ s)"
    by (intro RawCommandTokens_Cons) (simp_all add: token_def)
  with Cons show ?case by (simp add: RawCommandTokens_blank)
qed simp

lemma RawCommandTokens_token: "token t \<Longrightarrow> RawCommandTokens t = [t]"
  using RawCommandTokens_Cons [of "[]" t "[]"] by (simp add: token_def RawCommandTokens_Nil)

lemma token_words [simp]:
  "token ''SET''" "token ''LPUSHB''" "token ''HSET''" "token ''SADD''" "token ''ZADD''" "token ''SELECT''"
  by (simp_all add: token_def isTokenMember_def less_eq_char_def)

lemma token_digits: "list_all is_digit t \<Longrightarrow> t \<noteq> [] \<Longrightarrow> token t"
  by (auto simp: token_def list_all_iff is_digit_def isTokenMember_def less_eq_char_def less_char_def)

lemma token_nat_to_string [simp]: "token (nat_to_string n)"
  by (simp add: token_digits)

lemma token_to_string: "0 \<le> sint w \<Longrightarrow> token (to_string w)"
  by (simp add: to_string_def to_string_int_def)

section \<open>Contents that can be copied\<close>

definition fork_Str :: "Str \<Rightarrow> bool" where
  "fork_Str s \<longleftrightarrow> token (str_data s) \<and> s = Str_ctor (str_data s)"

fun fork_Object :: "Object \<Rightarrow> bool" where
  "fork_Object (Obj_Str s) = fork_Str s"
| "fork_Object (Obj_List l) = (l \<noteq> [] \<and> list_all fork_Str l)"
| "fork_Object (Obj_Hash h) = (h \<noteq> [] \<and> list_all (\<lambda>(k, v). fork_Str k \<and> fork_Str v) h)"
| "fork_Object (Obj_Set s) = (s \<noteq> [] \<and> list_all fork_Str s \<and> length s < 2 ^ 31)"
| "fork_Object (Obj_ZSet z) =
     (zset_abs z \<noteq> [] \<and> list_all (\<lambda>(m, s). fork_Str m \<and> 0 \<le> sint s) (zset_abs z) \<and> length (zset_abs z) < 2 ^ 31)"

text \<open>The words of the request for an object.\<close>

fun fork_tokens :: "string \<Rightarrow> Object \<Rightarrow> string list" where
  "fork_tokens key (Obj_Str s) = [''SET'', key, str_data s]"
| "fork_tokens key (Obj_List l) = ''LPUSHB'' # key # map str_data l"
| "fork_tokens key (Obj_Hash h) = ''HSET'' # key # concat (map (\<lambda>(k, v). [str_data k, str_data v]) h)"
| "fork_tokens key (Obj_Set s) = ''SADD'' # key # map str_data s"
| "fork_tokens key (Obj_ZSet z) =
     ''ZADD'' # key # concat (map (\<lambda>(m, s). [to_string s, str_data m]) (zset_abs z))"

lemma fork_tokens_token: "token key \<Longrightarrow> fork_Object ob \<Longrightarrow> list_all token (fork_tokens key ob)"
  by (cases ob) (auto simp: list_all_iff fork_Str_def token_to_string)

lemma concat_map_spaced: "concat (map (\<lambda>t. t @ '' '') (concat (map f xs))) = concat (map (\<lambda>x. concat (map (\<lambda>t. t @ '' '') (f x))) xs)"
  by (induction xs) auto

lemma Object_Fork_tokens:
  assumes "token key" and "fork_Object ob"
  shows "RawCommandTokens (Object_Fork key ob) = fork_tokens key ob"
proof (cases ob)
  case (Obj_Str s)
  then have "Object_Fork key ob = concat (map (\<lambda>t. t @ '' '') [''SET'', key]) @ str_data s"
    by (simp add: Str_Fork_def)
  with assms Obj_Str show ?thesis
    using RawCommandTokens_spaced [of "[''SET'', key]" "str_data s"]
    by (simp add: fork_Str_def RawCommandTokens_token)
next
  case (Obj_List l)
  then have "Object_Fork key ob = concat (map (\<lambda>t. t @ '' '') (fork_tokens key ob)) @ []"
    by (simp add: List_Fork_def Str_GetRaw_def comp_def)
  with fork_tokens_token [OF assms] show ?thesis
    using RawCommandTokens_spaced [of "fork_tokens key ob" "[]"] by (simp add: RawCommandTokens_Nil)
next
  case (Obj_Hash h)
  then have "Object_Fork key ob = concat (map (\<lambda>t. t @ '' '') (fork_tokens key ob)) @ []"
    by (simp add: Hash_Fork_def Str_GetRaw_def concat_map_spaced case_prod_beta')
  with fork_tokens_token [OF assms] show ?thesis
    using RawCommandTokens_spaced [of "fork_tokens key ob" "[]"] by (simp add: RawCommandTokens_Nil)
next
  case (Obj_Set s)
  then have "Object_Fork key ob = concat (map (\<lambda>t. t @ '' '') (fork_tokens key ob)) @ []"
    by (simp add: Set_Fork_def Str_GetRaw_def comp_def)
  with fork_tokens_token [OF assms] show ?thesis
    using RawCommandTokens_spaced [of "fork_tokens key ob" "[]"] by (simp add: RawCommandTokens_Nil)
next
  case (Obj_ZSet z)
  then have "Object_Fork key ob = concat (map (\<lambda>t. t @ '' '') (fork_tokens key ob)) @ []"
    by (simp add: ZSet_Fork_def Str_GetRaw_def concat_map_spaced case_prod_beta' zset_abs_def comp_def)
  with fork_tokens_token [OF assms] show ?thesis
    using RawCommandTokens_spaced [of "fork_tokens key ob" "[]"] by (simp add: RawCommandTokens_Nil)
qed

section \<open>The commands of the requests\<close>

fun fork_Command :: "string \<Rightarrow> Object \<Rightarrow> Command" where
  "fork_Command key (Obj_Str s) =
     Cmd_Str \<lparr>valid = True, command = ''SET'', obj_name = key, str_value = Some (str_data s)\<rparr>"
| "fork_Command key (Obj_List l) =
     Cmd_List \<lparr>valid = True, command = ''LPUSHB'', obj_name = key, list_values = l\<rparr>"
| "fork_Command key (Obj_Hash h) =
     Cmd_Hash \<lparr>valid = True, command = ''HSET'', obj_name = key, hash_values = concat (map (\<lambda>(k, v). [k, v]) h)\<rparr>"
| "fork_Command key (Obj_Set s) =
     Cmd_Set \<lparr>valid = True, command = ''SADD'', obj_name = key, set_values = s\<rparr>"
| "fork_Command key (Obj_ZSet z) =
     Cmd_ZSet \<lparr>valid = True, command = ''ZADD'', obj_name = key,
       zset_values = concat (map (\<lambda>(m, s). [Str_ctor (to_string s), m]) (zset_abs z))\<rparr>"

lemma toupper_words:
  "map toupper ''SET'' = ''SET''" "map toupper ''LPUSHB'' = ''LPUSHB''" "map toupper ''HSET'' = ''HSET''"
  "map toupper ''SADD'' = ''SADD''" "map toupper ''ZADD'' = ''ZADD''" "map toupper ''SELECT'' = ''SELECT''"
  by code_simp+

lemma RequestToCommandExec_class:
  assumes "map toupper c = c"
  shows "isZSetCommand c \<Longrightarrow>
      RequestToCommandExec cli (map JString (c # ts)) =
        Inr (Some (cli, Cmd_ZSet (JsonToZSetCommand (map JString (c # ts)))))"
    and "\<not> isZSetCommand c \<Longrightarrow> isSetCommand c \<Longrightarrow>
      RequestToCommandExec cli (map JString (c # ts)) =
        Inr (Some (cli, Cmd_Set (JsonToSetCommand (map JString (c # ts)))))"
    and "\<not> isZSetCommand c \<Longrightarrow> \<not> isSetCommand c \<Longrightarrow> isHashCommand c \<Longrightarrow>
      RequestToCommandExec cli (map JString (c # ts)) =
        Inr (Some (cli, Cmd_Hash (JsonToHashCommand (map JString (c # ts)))))"
    and "\<not> isZSetCommand c \<Longrightarrow> \<not> isSetCommand c \<Longrightarrow> \<not> isHashCommand c \<Longrightarrow> isListCommand c \<Longrightarrow>
      RequestToCommandExec cli (map JString (c # ts)) =
        Inr (Some (cli, Cmd_List (JsonToListCommand (map JString (c # ts)))))"
    and "\<not> isZSetCommand c \<Longrightarrow> \<not> isSetCommand c \<Longrightarrow> \<not> isHashCommand c \<Longrightarrow> \<not> isListCommand c \<Longrightarrow>
      isStrCommand c \<Longrightarrow>
      RequestToCommandExec cli (map JString (c # ts)) =
        Inr (Some (cli, Cmd_Str (JsonToStrCommand (map JString (c # ts)))))"
    and "\<not> isZSetCommand c \<Longrightarrow> \<not> isSetCommand c \<Longrightarrow> \<not> isHashCommand c \<Longrightarrow> \<not> isListCommand c \<Longrightarrow>
      \<not> isStrCommand c \<Longrightarrow> \<not> isDbCommand c \<Longrightarrow> isCliCommand c \<Longrightarrow>
      RequestToCommandExec cli (map JString (c # ts)) =
        Inr (Some (cli, Cmd_Cli (JsonToCliCommand (map JString (c # ts)))))"
  by (simp_all add: RequestToCommandExec_def assms)

lemmas command_classes =
  isZSetCommand_def isSetCommand_def isHashCommand_def isListCommand_def isStrCommand_def isDbCommand_def
  isCliCommand_def

lemma JsonToBase_tokens:
  "list_all token (c # key # ts) \<Longrightarrow>
     JsonToBase ret (map JString (c # key # ts)) = (True, ret\<lparr>command := c, obj_name := key, valid := True\<rparr>)"
  by (auto simp: JsonToBase_def list_all_iff token_def)

lemma request_values_tokens: "request_values (map JString (c # key # ts)) = map Str_ctor ts"
  by (simp add: request_values_def)

lemma map_Str_ctor_fork: "list_all fork_Str l \<Longrightarrow> map Str_ctor (map str_data l) = l"
  by (induction l) (auto simp: fork_Str_def)

lemma even_length_pairs: "even (length (concat (map (\<lambda>(x, y). [f x, g y]) ps)))"
  by (induction ps) auto

lemma pairs_not_Nil: "ps \<noteq> [] \<Longrightarrow> concat (map (\<lambda>(x, y). [f x, g y]) ps) \<noteq> []"
  by (cases ps) auto

lemma map_Str_ctor_pairs:
  "list_all (\<lambda>(k, v). fork_Str k \<and> fork_Str v) h \<Longrightarrow>
     map Str_ctor (concat (map (\<lambda>(k, v). [str_data k, str_data v]) h)) = concat (map (\<lambda>(k, v). [k, v]) h)"
  "list_all (\<lambda>(m, s). fork_Str m \<and> 0 \<le> sint s) rows \<Longrightarrow>
     map Str_ctor (concat (map (\<lambda>(m, s). [to_string s, str_data m]) rows)) =
     concat (map (\<lambda>(m, s). [Str_ctor (to_string s), m]) rows)"
  by (induction h, auto simp: fork_Str_def) (induction rows, auto simp: fork_Str_def)

lemma even_length_pairs_swap: "even (length (concat (map (\<lambda>(m, s). [f s, g m]) ps)))"
  by (induction ps) auto

lemma pairs_swap_not_Nil: "ps \<noteq> [] \<Longrightarrow> concat (map (\<lambda>(m, s). [f s, g m]) ps) \<noteq> []"
  by (cases ps) auto

lemma length_map_JString: "length (map JString (c # key # ts)) = Suc (Suc (length ts))"
  by simp

lemma fork_Command_parsed:
  assumes "token key" and "fork_Object ob"
  shows "RequestToCommandExec cli (map JString (fork_tokens key ob)) = Inr (Some (cli, fork_Command key ob))"
proof (cases ob)
  case (Obj_Str s)
  have toks: "list_all token [''SET'', key, str_data s]" using assms Obj_Str by (simp add: fork_Str_def)
  have "JsonToStrCommand (map JString [''SET'', key, str_data s]) =
      \<lparr>valid = True, command = ''SET'', obj_name = key, str_value = Some (str_data s)\<rparr>"
    unfolding JsonToStrCommand_def JsonToBase_tokens [OF toks] by simp
  then show ?thesis
    using RequestToCommandExec_class(5) [OF toupper_words(1), of cli "[key, str_data s]"] by (simp add: Obj_Str command_classes)
next
  case (Obj_List l)
  let ?ts = "map str_data l"
  have toks: "list_all token (''LPUSHB'' # key # ?ts)" using fork_tokens_token [OF assms] Obj_List by simp
  have l: "l \<noteq> []" "map Str_ctor ?ts = l" using assms(2) map_Str_ctor_fork [of l] by (simp_all add: Obj_List)
  have "JsonToListCommand (map JString (''LPUSHB'' # key # ?ts)) =
      \<lparr>valid = True, command = ''LPUSHB'', obj_name = key, list_values = l\<rparr>"
    unfolding JsonToListCommand_def JsonToBase_tokens [OF toks] request_values_tokens length_map_JString l(2)
    using l(1) by simp
  then show ?thesis
    using RequestToCommandExec_class(4) [OF toupper_words(2), of cli "key # ?ts"] by (simp add: Obj_List command_classes)
next
  case (Obj_Hash h)
  let ?ts = "concat (map (\<lambda>(k, v). [str_data k, str_data v]) h)"
  have toks: "list_all token (''HSET'' # key # ?ts)" using fork_tokens_token [OF assms] Obj_Hash by simp
  have h: "?ts \<noteq> []" "even (length ?ts)" "map Str_ctor ?ts = concat (map (\<lambda>(k, v). [k, v]) h)"
    using assms(2) pairs_not_Nil [of h] even_length_pairs map_Str_ctor_pairs(1) [of h] by (simp_all add: Obj_Hash)
  have "JsonToHashCommand (map JString (''HSET'' # key # ?ts)) =
      \<lparr>valid = True, command = ''HSET'', obj_name = key, hash_values = concat (map (\<lambda>(k, v). [k, v]) h)\<rparr>"
    unfolding JsonToHashCommand_def JsonToBase_tokens [OF toks] request_values_tokens length_map_JString h(3)
    using h(1,2) by (auto simp: even_iff_mod_2_eq_zero)
  then show ?thesis
    using RequestToCommandExec_class(3) [OF toupper_words(3), of cli "key # ?ts"] by (simp add: Obj_Hash command_classes)
next
  case (Obj_Set s)
  let ?ts = "map str_data s"
  have toks: "list_all token (''SADD'' # key # ?ts)" using fork_tokens_token [OF assms] Obj_Set by simp
  have l: "s \<noteq> []" "map Str_ctor ?ts = s" using assms(2) map_Str_ctor_fork [of s] by (simp_all add: Obj_Set)
  have "JsonToSetCommand (map JString (''SADD'' # key # ?ts)) =
      \<lparr>valid = True, command = ''SADD'', obj_name = key, set_values = s\<rparr>"
    unfolding JsonToSetCommand_def JsonToBase_tokens [OF toks] request_values_tokens length_map_JString l(2)
    using l(1) by simp
  then show ?thesis
    using RequestToCommandExec_class(2) [OF toupper_words(4), of cli "key # ?ts"] by (simp add: Obj_Set command_classes)
next
  case (Obj_ZSet z)
  let ?ts = "concat (map (\<lambda>(m, s). [to_string s, str_data m]) (zset_abs z))"
  have toks: "list_all token (''ZADD'' # key # ?ts)" using fork_tokens_token [OF assms] Obj_ZSet by simp
  have h: "?ts \<noteq> []" "even (length ?ts)"
      "map Str_ctor ?ts = concat (map (\<lambda>(m, s). [Str_ctor (to_string s), m]) (zset_abs z))"
    using assms(2) pairs_swap_not_Nil [of "zset_abs z"] even_length_pairs_swap map_Str_ctor_pairs(2) [of "zset_abs z"]
    by (simp_all add: Obj_ZSet)
  have "JsonToZSetCommand (map JString (''ZADD'' # key # ?ts)) =
      \<lparr>valid = True, command = ''ZADD'', obj_name = key,
       zset_values = concat (map (\<lambda>(m, s). [Str_ctor (to_string s), m]) (zset_abs z))\<rparr>"
    unfolding JsonToZSetCommand_def JsonToBase_tokens [OF toks] request_values_tokens length_map_JString h(3)
    using h(1,2) by (auto simp: even_iff_mod_2_eq_zero)
  then show ?thesis
    using RequestToCommandExec_class(1) [OF toupper_words(5), of cli "key # ?ts"] by (simp add: Obj_ZSet command_classes)
qed

section \<open>What the commands do\<close>

lemma fold_PushBack: "fold (\<lambda>it l. snd (List_PushBack it l)) xs l = l @ xs"
  by (induction xs arbitrary: l) (simp_all add: List_PushBack_def Let_def)

lemma HSET_loop_pairs:
  "HSET_loop (concat (map (\<lambda>(k, v). [k, v]) h)) t = Inr (fold (\<lambda>(k, v). Hash_Set k v) h t)"
  by (induction h arbitrary: t) auto

lemma fold_Hash_Set_new:
  "distinct (map (str_data \<circ> fst) (h @ t)) \<Longrightarrow>
     fold (\<lambda>(k, v). Hash_Set k v) h t = fold (\<lambda>(k, v). um_insert k v) h t"
proof (induction h arbitrary: t)
  case (Cons kv h)
  obtain k v where kv: "kv = (k, v)" by (cases kv)
  from Cons.prems kv have none: "um_find k t = None" by (auto simp: um.find_None_iff)
  then have "um_insert k v t = (k, v) # t" "Hash_Set k v t = um_insert k v t"
    by (simp_all add: um_insert_def Hash_Set_def)
  moreover have "distinct (map (str_data \<circ> fst) (h @ (k, v) # t))" using Cons.prems kv by (auto simp: comp_def)
  ultimately show ?case using Cons.IH [of "(k, v) # t"] kv by (simp only: fold.simps comp_def case_prod_conv)
qed simp

lemma int_add_one:
  assumes "0 \<le> sint cnt" and "sint cnt + 1 < 2 ^ 31"
  shows "int_add cnt 1 = Inr (cnt + 1)" and "sint (cnt + 1) = sint cnt + 1"
proof -
  have "fits_int (sint cnt + sint (1 :: int32))"
    using assms by (simp add: fits_int_def)
  then show "int_add cnt 1 = Inr (cnt + 1)" by (simp add: int_add_def)
  from int_add_sint [OF this] show "sint (cnt + 1) = sint cnt + 1" by simp
qed

lemma count_step:
  assumes "0 \<le> sint cnt" and "sint cnt + 1 < 2 ^ 31"
  obtains c where "(if ok then int_add cnt 1 else Inr cnt) = Inr c" and "0 \<le> sint c" and "sint c \<le> sint cnt + 1"
  using int_add_one [OF assms] assms by (cases ok) auto

lemma count_loop_Set_Add:
  "0 \<le> sint cnt \<Longrightarrow> sint cnt + int (length xs) < 2 ^ 31 \<Longrightarrow>
     \<exists>n. count_loop (\<lambda>element st. Inr (Set_Add element st)) xs cnt s = Inr (n, fold us_insert xs s)"
proof (induction xs arbitrary: cnt s)
  case (Cons x xs)
  then obtain c where c: "(if \<not> us_mem x s then int_add cnt 1 else Inr cnt) = Inr c" "0 \<le> sint c" "sint c \<le> sint cnt + 1"
    using count_step [of cnt "\<not> us_mem x s"] by auto
  with Cons.prems have "sint c + int (length xs) < 2 ^ 31" by simp
  from Cons.IH [OF c(2) this, of "us_insert x s"] c(1) show ?case by (auto simp: Set_Add_def result_simps)
qed simp

lemma RedisStrToInt_nonneg: "0 \<le> sint w \<Longrightarrow> RedisStrToInt (to_string w) = Inr (Some w)"
  by (simp add: RedisStrToInt_to_string)

lemma Str_GetRaw_ctor [simp]: "Str_GetRaw (Str_ctor d) = d"
  by (simp add: Str_GetRaw_def Str_ctor_def)

lemma score_loop_ZSet_Add:
  assumes "list_all (\<lambda>(m, s). 0 \<le> sint s) rows" and "0 \<le> sint cnt" and "sint cnt + int (length rows) < 2 ^ 31"
  shows "\<exists>n. score_loop (\<lambda>score m z. Inr (ZSet_Add score m z)) (concat (map (\<lambda>(m, s). [Str_ctor (to_string s), m]) rows)) cnt z
    = Inr (n, fold (\<lambda>(m, s) z. snd (ZSet_Add s m z)) rows z)"
  using assms
proof (induction rows arbitrary: cnt z)
  case (Cons row rows)
  obtain m s where row: "row = (m, s)" by (cases row)
  obtain ok z' where add: "ZSet_Add s m z = (ok, z')" by (cases "ZSet_Add s m z")
  from Cons.prems obtain c where c: "(if ok then int_add cnt 1 else Inr cnt) = Inr c" "0 \<le> sint c" "sint c \<le> sint cnt + 1"
    using count_step [of cnt ok] by auto
  with Cons.prems have "sint c + int (length rows) < 2 ^ 31" by simp
  with Cons.IH [of c z'] Cons.prems(1) c(1,2) show ?case
    by (auto simp: row add RedisStrToInt_nonneg vec_at_def result_simps)
qed simp

lemma ZSet_copy_fold: "ZSet_copy z = fold (\<lambda>(m, s) z. snd (ZSet_Add s m z)) (zset_abs z) ZSet_empty"
  by (simp add: ZSet_copy_def zset_abs_def fold_map comp_def case_prod_beta')

section \<open>Replaying one request\<close>

lemma with_object_new:
  assumes "Db_Get (Str_ctor (obj_name cmd)) db = None" and "command cmd \<in> creating"
    and "new (Str_ctor (obj_name cmd)) db = Db_insert (Str_ctor (obj_name cmd)) fresh db"
    and "run (Db_insert (Str_ctor (obj_name cmd)) fresh db) fresh = Inr (r, ob')"
  shows "with_object creating new fresh run cmd db =
    Inr (r, Db_put (Str_ctor (obj_name cmd)) ob' (Db_insert (Str_ctor (obj_name cmd)) fresh db))"
  using assms by (simp add: with_object_def Let_def)

lemma put_insert:
  assumes "Db_wf db" and "db_abs db d = None" and "Object_wf fresh" and "Object_wf ob"
  defines "db' \<equiv> Db_put (Str_ctor d) ob (Db_insert (Str_ctor d) fresh db)"
  shows "Db_wf db' \<and> db_abs db' = (db_abs db)(d \<mapsto> (ob, None)) \<and> db_number db' = db_number db"
proof (intro conjI)
  have wf: "Db_wf (Db_insert (Str_ctor d) fresh db)" by (rule Db_wf_insert [OF assms(1,3)])
  then show "Db_wf db'" unfolding db'_def using assms(4) by (rule Db_wf_put)
  show "db_abs db' = (db_abs db)(d \<mapsto> (ob, None))"
    unfolding db'_def using Db_put_abs [OF wf, of "Str_ctor d" ob] Db_insert_abs [OF assms(1), of "Str_ctor d" fresh]
    by (simp add: assms(2) dom_def)
  show "db_number db' = db_number db"
    unfolding db'_def by (simp add: Db_put_number Db_insert_def)
qed

text \<open>\<open>replays cmd db db'\<close>: a client of the database \<open>db\<close> that sends \<open>cmd\<close> turns it into \<open>db'\<close>.\<close>

definition uses_db :: "World \<Rightarrow> nat \<Rightarrow> nat \<Rightarrow> Db \<Rightarrow> bool" where
  "uses_db W cli h db \<longleftrightarrow>
     (\<exists>c. client_lock cli (server W) = Some c \<and> cli_database c = Some h) \<and> map_of (databases W) h = Some db"

lemma on_database_object:
  assumes "uses_db W cli h db" and "valid cmd" and "f db = Inr (r, db')"
  shows "on_database cmd cli (object_Exec f W) W = Inr (Some r, db_update h db' W)"
  using assms by (auto simp: uses_db_def on_database_def object_Exec_def client_db_def ClientInfo_GetDB_def db_deref_def)

lemma Str_Set_default: "Str_Set d Str_default = Str_ctor d"
  by (simp add: Str_Set_def Str_default_def Str_ctor_def)

lemma object_command_replays:
  assumes "Db_wf db" and "db_abs db key = None" and "Object_wf ob" and "valid cmd"
    and "\<And>W cli. Command_Exec cf i c cli W = on_database cmd cli (object_Exec f W) W" and "Object_wf fresh"
    and "f db = Inr (r, Db_put (Str_ctor key) ob (Db_insert (Str_ctor key) fresh db))"
  shows "\<exists>r db'. (\<forall>W cli h. uses_db W cli h db \<longrightarrow> Command_Exec cf i c cli W = Inr (Some r, db_update h db' W)) \<and>
    Db_wf db' \<and> db_abs db' = (db_abs db)(key \<mapsto> (ob, None)) \<and> db_number db' = db_number db"
proof (intro exI conjI allI impI)
  fix W cli h
  assume "uses_db W cli h db"
  from on_database_object [where cmd = cmd and f = f, OF this assms(4,7)]
  show "Command_Exec cf i c cli W =
      Inr (Some r, db_update h (Db_put (Str_ctor key) ob (Db_insert (Str_ctor key) fresh db)) W)"
    by (simp only: assms(5))
qed (use put_insert [OF assms(1,2,6,3)] in blast)+

lemma fork_Command_Exec:
  assumes "Db_wf db" and "db_abs db key = None" and "Object_wf ob" and "fork_Object ob"
  shows "\<exists>r db'. (\<forall>W cli h. uses_db W cli h db \<longrightarrow>
      Command_Exec cf i (fork_Command key ob) cli W = Inr (Some r, db_update h db' W)) \<and>
    Db_wf db' \<and> db_abs db' = (db_abs db)(key \<mapsto> (Object_reload ob, None)) \<and> db_number db' = db_number db"
proof -
  have get: "Db_Get (Str_ctor key) db = None" using assms(2) by (simp add: Db_Get_abs)
  have reload: "Object_wf (Object_reload ob)" by (rule Object_reload_wf [OF assms(3)])
  show ?thesis
  proof (cases ob)
    case (Obj_Str s)
    then have s: "s = Str_ctor (str_data s)" using assms(4) by (simp add: fork_Str_def)
    let ?cmd = "\<lparr>valid = True, command = ''SET'', obj_name = key, str_value = Some (str_data s)\<rparr>"
    have exec: "StrCommand_Exec ?cmd db = Inr (reply ''OK'',
        Db_put (Str_ctor key) (Object_reload ob) (Db_insert (Str_ctor key) (Obj_Str Str_default) db))"
      unfolding StrCommand_Exec_def using get
      by (subst with_object_new [where r = "reply ''OK''" and ob' = "Obj_Str s"])
        (simp_all add: Obj_Str Db_NewStr_def StrCommand_run_def opt_value_def Str_Set_default flip: s)
    show ?thesis
      by (rule object_command_replays [where cmd = ?cmd and f = "StrCommand_Exec ?cmd", OF assms(1,2) reload _ _ _ exec])
        (simp_all add: Obj_Str)
  next
    case (Obj_List l)
    let ?cmd = "\<lparr>valid = True, command = ''LPUSHB'', obj_name = key, list_values = l\<rparr>"
    have exec: "ListCommand_Exec ?cmd db = Inr (reply (nat_to_string (List_Len l)),
        Db_put (Str_ctor key) (Object_reload ob) (Db_insert (Str_ctor key) (Obj_List []) db))"
      unfolding ListCommand_Exec_def using get
      by (subst with_object_new [where r = "reply (nat_to_string (List_Len l))" and ob' = "Obj_List l"])
        (simp_all add: Obj_List Db_NewList_def ListCommand_run_def fold_PushBack Let_def)
    show ?thesis
      by (rule object_command_replays [where cmd = ?cmd and f = "ListCommand_Exec ?cmd", OF assms(1,2) reload _ _ _ exec])
        (simp_all add: Obj_List)
  next
    case (Obj_Hash h)
    then have d: "distinct (map (str_data \<circ> fst) (h @ []))" using assms(3) by (simp add: um_wf_def)
    let ?cmd = "\<lparr>valid = True, command = ''HSET'', obj_name = key, hash_values = concat (map (\<lambda>(k, v). [k, v]) h)\<rparr>"
    have exec: "HashCommand_Exec ?cmd db = Inr (reply ''OK'',
        Db_put (Str_ctor key) (Object_reload ob) (Db_insert (Str_ctor key) (Obj_Hash []) db))"
      unfolding HashCommand_Exec_def using get
      by (subst with_object_new [where r = "reply ''OK''" and ob' = "Object_reload ob"])
        (simp_all add: Obj_Hash Db_NewHash_def HashCommand_run_def HSET_loop_pairs fold_Hash_Set_new [OF d] Let_def)
    show ?thesis
      by (rule object_command_replays [where cmd = ?cmd and f = "HashCommand_Exec ?cmd", OF assms(1,2) reload _ _ _ exec])
        (simp_all add: Obj_Hash)
  next
    case (Obj_Set s)
    then obtain n where n: "count_loop (\<lambda>element st. Inr (Set_Add element st)) s 0 [] = Inr (n, fold us_insert s [])"
      using count_loop_Set_Add [of 0 s "[]"] assms(4) by auto
    let ?cmd = "\<lparr>valid = True, command = ''SADD'', obj_name = key, set_values = s\<rparr>"
    have exec: "SetCommand_Exec (rnd i) ?cmd db = Inr (reply (to_string n),
        Db_put (Str_ctor key) (Object_reload ob) (Db_insert (Str_ctor key) (Obj_Set []) db))"
      unfolding SetCommand_Exec_def using get
      by (subst with_object_new [where r = "reply (to_string n)" and ob' = "Object_reload ob"])
        (simp_all add: Obj_Set Db_NewSet_def SetCommand_run_def n Let_def)
    show ?thesis
      by (rule object_command_replays [where cmd = ?cmd and f = "SetCommand_Exec (rnd i) ?cmd", OF assms(1,2) reload _ _ _ exec])
        (simp_all add: Obj_Set)
  next
    case (Obj_ZSet z)
    let ?vals = "concat (map (\<lambda>(m, s). [Str_ctor (to_string s), m]) (zset_abs z))"
    from Obj_ZSet assms(4) have "list_all (\<lambda>(m, s). 0 \<le> sint s) (zset_abs z)"
      by (auto simp: list_all_iff)
    then obtain n where n: "score_loop (\<lambda>score m z. Inr (ZSet_Add score m z)) ?vals 0 ZSet_empty = Inr (n, ZSet_copy z)"
      using score_loop_ZSet_Add [of "zset_abs z" 0 ZSet_empty] assms(4) by (auto simp: Obj_ZSet ZSet_copy_fold)
    let ?cmd = "\<lparr>valid = True, command = ''ZADD'', obj_name = key, zset_values = ?vals\<rparr>"
    have exec: "ZSetCommand_Exec ?cmd db = Inr (reply (to_string n),
        Db_put (Str_ctor key) (Object_reload ob) (Db_insert (Str_ctor key) (Obj_ZSet ZSet_empty) db))"
      unfolding ZSetCommand_Exec_def using get
      by (subst with_object_new [where r = "reply (to_string n)" and ob' = "Object_reload ob"])
        (simp_all add: Obj_ZSet Db_NewZSet_def ZSetCommand_run_def n Let_def)
    show ?thesis
      by (rule object_command_replays [where cmd = ?cmd and f = "ZSetCommand_Exec ?cmd", OF assms(1,2) reload _ _ _ exec])
        (simp_all add: Obj_ZSet)
  qed
qed

section \<open>Replaying the stream\<close>

definition exec_request :: "env \<Rightarrow> exec_input \<Rightarrow> nat \<Rightarrow> json_array \<Rightarrow> World \<Rightarrow> World result" where
  "exec_request cf i cli req W =
     rbind (RequestToCommandExec cli req) (\<lambda>cmd.
       (case cmd of
          None \<Rightarrow> Inr W
        | Some (h, c) \<Rightarrow> rbind (Command_Exec cf i c h W) (\<lambda>(r, W'). Inr W')))"

fun exec_requests :: "env \<Rightarrow> exec_input \<Rightarrow> nat \<Rightarrow> json_array list \<Rightarrow> World \<Rightarrow> World result" where
  "exec_requests cf i cli [] W = Inr W"
| "exec_requests cf i cli (req # reqs) W = rbind (exec_request cf i cli req W) (exec_requests cf i cli reqs)"

lemma map_of_replace:
  "map_of (map (\<lambda>(h', x). (h', if h' = h then y else x)) xs) h = map_option (\<lambda>_. y) (map_of xs h)"
  by (induction xs) auto

lemma uses_db_update: "uses_db W cli h db \<Longrightarrow> uses_db (db_update h db' W) cli h db'"
  by (auto simp: uses_db_def db_update_def map_of_replace)

definition fork_entry :: "Str \<times> KeyValue \<Rightarrow> bool" where
  "fork_entry e \<longleftrightarrow>
     token (str_data (fst e)) \<and> kv_key (snd e) = fst e \<and> Object_wf (kv_value (snd e)) \<and> fork_Object (kv_value (snd e))"

definition entry_request :: "Str \<times> KeyValue \<Rightarrow> json_array" where
  "entry_request e = RawCommandToRequest (KeyValue_Fork (snd e))"

lemma entry_request_tokens:
  "fork_entry e \<Longrightarrow> entry_request e = map JString (fork_tokens (str_data (fst e)) (kv_value (snd e)))"
  by (simp add: fork_entry_def entry_request_def RawCommandToRequest_def KeyValue_Fork_def Str_GetRaw_def
      Object_Fork_tokens)

definition copied :: "Str \<times> KeyValue \<Rightarrow> string \<times> Object \<times> size_t option" where
  "copied e = (str_data (fst e), Object_reload (kv_value (snd e)), None)"

lemma exec_entry:
  assumes "fork_entry e" and "Db_wf db" and "db_abs db (str_data (fst e)) = None" and "uses_db W cli h db"
  obtains db' where "exec_request cf i cli (entry_request e) W = Inr (db_update h db' W)" and "Db_wf db'"
    and "db_abs db' = (db_abs db)(str_data (fst e) \<mapsto> snd (copied e))" and "db_number db' = db_number db"
proof -
  from assms(1) have e: "token (str_data (fst e))" "Object_wf (kv_value (snd e))" "fork_Object (kv_value (snd e))"
    by (simp_all add: fork_entry_def)
  from fork_Command_Exec [OF assms(2,3) e(2,3), of cf i] obtain r db' where
      "Command_Exec cf i (fork_Command (str_data (fst e)) (kv_value (snd e))) cli W = Inr (Some r, db_update h db' W)"
    and db': "Db_wf db'" "db_abs db' = (db_abs db)(str_data (fst e) \<mapsto> (Object_reload (kv_value (snd e)), None))"
      "db_number db' = db_number db"
    using assms(4) by blast
  then have "exec_request cf i cli (entry_request e) W = Inr (db_update h db' W)"
    by (simp add: exec_request_def entry_request_tokens [OF assms(1)] fork_Command_parsed [OF e(1,3)])
  with db' show ?thesis by (intro that [of db']) (simp_all add: copied_def)
qed

lemma exec_entries:
  assumes "list_all fork_entry es" and "distinct (map (str_data \<circ> fst) es)" and "Db_wf db"
    and "dom (db_abs db) \<inter> (str_data \<circ> fst) ` set es = {}" and "uses_db W cli h db"
  shows "\<exists>W' db'. exec_requests cf i cli (map entry_request es) W = Inr W' \<and> uses_db W' cli h db' \<and> Db_wf db' \<and>
    db_abs db' = db_abs db ++ map_of (map copied es) \<and> db_number db' = db_number db"
  using assms
proof (induction es arbitrary: W db)
  case (Cons e es)
  have "fork_entry e" and none: "db_abs db (str_data (fst e)) = None"
    using Cons.prems(1,4) by (auto simp: domIff)
  then obtain db1 where db1: "exec_request cf i cli (entry_request e) W = Inr (db_update h db1 W)" "Db_wf db1"
      "db_abs db1 = (db_abs db)(str_data (fst e) \<mapsto> snd (copied e))" "db_number db1 = db_number db"
    using exec_entry [OF _ Cons.prems(3) none Cons.prems(5)] by blast
  have "dom (db_abs db1) \<inter> (str_data \<circ> fst) ` set es = {}" using Cons.prems(2,4) by (auto simp: db1(3))
  from Cons.IH [OF _ _ db1(2) this uses_db_update [OF Cons.prems(5)]] Cons.prems(1,2)
  obtain W' db' where W': "exec_requests cf i cli (map entry_request es) (db_update h db1 W) = Inr W'"
      "uses_db W' cli h db'" "Db_wf db'" "db_abs db' = db_abs db1 ++ map_of (map copied es)" "db_number db' = db_number db1"
    by auto
  have "str_data (fst e) \<notin> dom (map_of (map copied es))"
    using Cons.prems(2) by (auto simp: dom_map_of_conv_image_fst copied_def image_iff)
  then have abs: "db_abs db1 ++ map_of (map copied es) = db_abs db ++ map_of (map copied (e # es))"
    unfolding db1(3) by (auto simp: copied_def fun_eq_iff map_add_def dom_def split: option.splits)
  show ?case
    by (intro exI conjI, simp add: db1(1), rule W'(1), rule W'(2), rule W'(3), simp only: W'(4) abs)
      (simp add: W'(5) db1(4))
qed auto

lemma select_request_tokens:
  assumes "0 \<le> sint number"
  shows "select_request pw number = map JString (''SELECT'' # to_string number # RawCommandTokens pw)"
proof -
  have "concat (map (\<lambda>t. t @ '' '') [''SELECT'', to_string number]) @ pw = ''SELECT '' @ to_string number @ '' '' @ pw"
    by simp
  with RawCommandTokens_spaced [of "[''SELECT'', to_string number]" pw] token_to_string [OF assms]
  show ?thesis by (simp add: select_request_def RawCommandToRequest_def)
qed

lemma exec_select:
  assumes "0 \<le> sint number" and "client_lock cli (server W) = Some c" and "find_db number W = Some h"
    and "map_of (databases W) h = Some db"
  shows "exec_request cf i cli (select_request pw number) W =
    Inr (on_server (client_put cli (ClientInfo_SetDB (Some h) c)) W)"
proof -
  let ?ts = "to_string number # RawCommandTokens pw"
  have req: "select_request pw number = map JString (''SELECT'' # ?ts)" by (rule select_request_tokens [OF assms(1)])
  obtain p where cmd: "JsonToCliCommand (map JString (''SELECT'' # ?ts)) =
      \<lparr>valid = True, command = ''SELECT'', obj_name = to_string number, pswd = p\<rparr>"
    by (cases "length (RawCommandTokens pw) = 1") (simp_all add: JsonToCliCommand_def Let_def)
  have "CliCommand_Exec \<lparr>valid = True, command = ''SELECT'', obj_name = to_string number, pswd = p\<rparr> cli W =
      Inr (Some (reply (''Select: '' @ to_string (Db_Number db))),
        on_server (client_put cli (ClientInfo_SetDB (Some h) c)) W)"
    using assms by (simp add: CliCommand_Exec_def RedisStrToInt_nonneg MainLoop_SuGetDB_def MainLoop_GetDB_def db_deref_def)
  moreover have "RequestToCommandExec cli (map JString (''SELECT'' # ?ts)) =
      Inr (Some (cli, Cmd_Cli \<lparr>valid = True, command = ''SELECT'', obj_name = to_string number, pswd = p\<rparr>))"
    using RequestToCommandExec_class(6) [OF toupper_words(6), of cli ?ts] unfolding cmd by (simp add: command_classes)
  ultimately show ?thesis unfolding req exec_request_def by simp
qed

lemma bracket_free_token: "token t \<Longrightarrow> bracket_free t"
  by (auto simp: token_def bracket_free_def list_all_iff isTokenMember_def less_eq_char_def)

lemma bracket_free_RawCommandTokens: "list_all bracket_free (RawCommandTokens raw)"
  using RawCommandTokens_members [of raw] by (auto simp: list_all_iff token_def intro!: bracket_free_token)

lemma fork_stream:
  "ExportMessages_loop (concat (fork_requests cf pw db)) =
     (select_request pw (db_number db) # map entry_request (key_value_map db), ''ENDFORKING'')"
proof -
  let ?reqs = "RawCommandTokens (''SELECT '' @ to_string (db_number db) @ '' '' @ pw) #
    map (\<lambda>e. RawCommandTokens (KeyValue_Fork (snd e))) (key_value_map db)"
  have "concat (fork_requests cf pw db) =
      concat (map (\<lambda>ss. dump (printf_double cf) (JArray (map JString ss))) ?reqs) @ ''ENDFORKING''"
    by (simp add: fork_requests_def Db_Fork_def select_request_def RawCommandToRequest_def comp_def case_prod_beta'
        del: dump.simps)
  moreover have "ExportMessages_loop ''ENDFORKING'' = ([], ''ENDFORKING'')"
    by (subst ExportMessages_loop.simps) simp
  ultimately show ?thesis
    using ExportMessages_requests [of ?reqs "printf_double cf" "''ENDFORKING''"]
    by (simp add: list_all_iff [of _ "map f xs" for f xs] bracket_free_RawCommandTokens select_request_def
        RawCommandToRequest_def entry_request_def comp_def)
qed

definition fork_Db :: "Db \<Rightarrow> bool" where
  "fork_Db db \<longleftrightarrow> Db_wf db \<and> 0 \<le> sint (db_number db) \<and> list_all fork_entry (key_value_map db)"

lemma copied_abs:
  assumes "um_wf m"
  shows "map_of (map copied m) d = map_option (\<lambda>kv. (Object_reload (kv_value kv), None)) (um_find (Str_ctor d) m)"
  using assms by (induction m) (auto simp: copied_def um_wf_def Str_eq_def)

lemma fork_replayed:
  assumes "fork_Db db" and "client_lock cli (server W) = Some c" and "find_db (db_number db) W = Some h"
    and "map_of (databases W) h = Some target" and "Db_wf target" and "db_abs target = Map.empty"
  shows "\<exists>W' db'. exec_requests cf i cli (fst (ExportMessages_loop (concat (fork_requests cf' pw db)))) W = Inr W' \<and>
    uses_db W' cli h db' \<and> Db_wf db' \<and>
    (\<forall>d. db_abs db' d = map_option (\<lambda>(ob, e). (Object_reload ob, None)) (db_abs db d))"
proof -
  let ?W = "on_server (client_put cli (ClientInfo_SetDB (Some h) c)) W"
  from assms(1) have db: "Db_wf db" "0 \<le> sint (db_number db)" "list_all fork_entry (key_value_map db)"
    by (simp_all add: fork_Db_def)
  then have wf: "um_wf (key_value_map db)" by (simp add: Db_wf_def)
  have "uses_db ?W cli h target"
    using assms(2,4) by (simp add: uses_db_def on_server_def client_lock_put ClientInfo_SetDB_def)
  moreover have "distinct (map (str_data \<circ> fst) (key_value_map db))" using wf by (simp add: um_wf_def)
  ultimately obtain W' db' where W': "exec_requests cf i cli (map entry_request (key_value_map db)) ?W = Inr W'"
      "uses_db W' cli h db'" "Db_wf db'" "db_abs db' = db_abs target ++ map_of (map copied (key_value_map db))"
    using exec_entries [of "key_value_map db" target ?W cli h cf i] db(3) assms(5,6) by auto
  moreover have "db_abs db' d = map_option (\<lambda>(ob, e). (Object_reload ob, None)) (db_abs db d)" for d
    unfolding W'(4) assms(6) by (simp add: copied_abs [OF wf] db_abs_def option.map_comp comp_def)
  ultimately show ?thesis
    using exec_select [OF db(2) assms(2-4), of cf i pw] by (intro exI [of _ W'] exI [of _ db']) (simp add: fork_stream)
qed

section \<open>The sending side\<close>

text \<open>
  However the kernel splits the writes and whenever it asks to try again: when \<open>FORK\<close> answers \<open>OK\<close>,
  the whole stream has been sent, and a prefix of it otherwise.
\<close>

lemma write_all_sent: "write_all ws s = (ok, sent, ws') \<Longrightarrow> (ok \<longrightarrow> sent = s) \<and> (\<exists>rest. s = sent @ rest)"
proof (induction ws s arbitrary: ok sent ws' rule: write_all.induct)
  case (3 n ws c s)
  let ?s = "c # s"
  obtain ok1 sent1 ws1 where rec: "write_all ws (drop n ?s) = (ok1, sent1, ws1)"
    by (cases "write_all ws (drop n ?s)") auto
  with 3(2) have sent: "ok = ok1" "sent = take n ?s @ sent1" by simp_all
  from 3(1) [OF rec] have "ok1 \<longrightarrow> sent1 = drop n ?s" "\<exists>rest. drop n ?s = sent1 @ rest" by blast+
  then show ?case unfolding sent by (metis append.assoc append_take_drop_id)
qed (auto split: if_splits)

lemma write_reqs_sent:
  "write_reqs ws reqs = (ok, sent) \<Longrightarrow> (ok \<longrightarrow> sent = concat reqs) \<and> (\<exists>rest. concat reqs = sent @ rest)"
proof (induction reqs arbitrary: ws ok sent)
  case (Cons req reqs)
  obtain ok1 sent1 ws1 where w: "write_all ws req = (ok1, sent1, ws1)" by (cases "write_all ws req") auto
  note w' = write_all_sent [OF w]
  show ?case
  proof (cases ok1)
    case True
    obtain ok2 sent2 where r: "write_reqs ws1 reqs = (ok2, sent2)" by (cases "write_reqs ws1 reqs")
    from Cons.IH [OF r] Cons.prems w' True show ?thesis by (auto simp: w r)
  next
    case False
    then have "ok = ok1" "sent = sent1" using Cons.prems by (simp_all add: w)
    with False w' show ?thesis by auto
  qed
qed simp

lemma FORK_sent:
  assumes "command cmd = ''FORK''" and "ServerCommand_Exec cf io cmd cli W = Inr (Some (reply ''OK''), W')"
  shows "\<exists>c h db. client_lock cli (server W) = Some c \<and> client_db c W = Inr (h, db) \<and>
    fork_sent W' = fork_sent W @ concat (fork_requests cf (password W) db)"
proof -
  from assms obtain c where lock: "client_lock cli (server W) = Some c"
    by (cases "client_lock cli (server W)") (auto simp: ServerCommand_Exec_def)
  obtain prt where prt: "port cmd = Some prt"
    using assms lock by (auto simp: ServerCommand_Exec_def split: option.splits)
  have io: "socket_ok io" "connect_ok io"
    using assms lock prt by (auto simp: ServerCommand_Exec_def reply_def split: if_splits)
  with assms lock prt obtain h db where db: "client_db c W = Inr (h, db)"
    by (cases "client_db c W") (auto simp: ServerCommand_Exec_def)
  obtain ok sent where w: "write_reqs (write_answers io) (fork_requests cf (password W) db) = (ok, sent)"
    by (cases "write_reqs (write_answers io) (fork_requests cf (password W) db)")
  with assms lock io db prt have "(if \<not> ok then reply ''Write Error'' else reply ''OK'') = reply ''OK''"
      and W': "W' = W\<lparr>fork_sent := fork_sent W @ sent\<rparr>"
    by (simp_all add: ServerCommand_Exec_def)
  then have ok by (cases ok) (simp_all add: reply_def)
  with write_reqs_sent [OF w] lock db W' show ?thesis by auto
qed

section \<open>The append-only file\<close>

definition printed :: "env \<Rightarrow> string list list \<Rightarrow> string" where
  "printed cf reqs = concat (map (\<lambda>ss. dump (printf_double cf) (JArray (map JString ss))) reqs)"

lemma printed_Nil_iff: "printed cf reqs = [] \<longleftrightarrow> reqs = []"
  by (cases reqs) (simp_all add: printed_def)

text \<open>What a flush adds to the file for one database, and the requests it holds.\<close>

lemma ExportAOF_printed:
  assumes "aof_cache db = printed cf reqs"
  shows "fst (Db_ExportAOF cf pw db) =
    printed cf (if reqs = [] then [] else RawCommandTokens (''SELECT '' @ to_string (db_number db) @ '' '' @ pw) # reqs)"
  using assms printed_Nil_iff [of cf reqs]
  by (simp add: Db_ExportAOF_def select_request_def RawCommandToRequest_def printed_def del: dump.simps)

lemma ExportAOF_cache: "aof_cache (snd (Db_ExportAOF cf pw db)) = []"
  by (simp add: Db_ExportAOF_def)

lemma AOFSave_files: "fls f = Some old \<Longrightarrow> AOFSave srcs f fls = fls(f \<mapsto> old @ concat srcs)"
proof (induction srcs arbitrary: fls old)
  case (Cons s srcs)
  then have w: "FileManager_Write f s fls = fls(f \<mapsto> old @ s)" by (simp add: FileManager_Write_def)
  have "AOFSave srcs f (fls(f \<mapsto> old @ s)) = (fls(f \<mapsto> old @ s))(f \<mapsto> (old @ s) @ concat srcs)"
    by (rule Cons.IH) simp
  then show ?case by (simp only: AOFSave_def fold.simps comp_apply w fun_upd_upd concat.simps append_assoc)
qed (auto simp: AOFSave_def)

lemma printed_concat: "concat (map (\<lambda>x. printed cf (g x)) xs) = printed cf (concat (map g xs))"
  by (induction xs) (simp_all add: printed_def)

lemma AofTimer_flush:
  assumes "files W (conf_file_name (conf W)) = Some old"
    and "\<forall>(h, db) \<in> set (databases W). aof_cache db = printed cf (reqs h) \<and> list_all (list_all bracket_free) (reqs h)"
  shows "\<exists>W' added. Timer_Exec cf now_us (AofTimer t p again) W = Inr W' \<and>
    files W' (conf_file_name (conf W)) = Some (old @ added) \<and>
    ExportMessages_loop added =
      (concat (map (\<lambda>(h, db). if reqs h = [] then [] else select_request (password W) (db_number db) # map (map JString) (reqs h))
         (databases W)), []) \<and>
    (\<forall>(h, db) \<in> set (databases W'). aof_cache db = []) \<and> map fst (databases W') = map fst (databases W)"
proof -
  let ?sel = "\<lambda>db. RawCommandTokens (''SELECT '' @ to_string (db_number db) @ '' '' @ password W)"
  let ?g = "\<lambda>x. case x of (h, db) \<Rightarrow> if reqs h = [] then [] else ?sel db # reqs h"
  let ?all = "concat (map ?g (databases W))"
  have "map (\<lambda>(h, db). fst (Db_ExportAOF cf (password W) db)) (databases W) = map (\<lambda>x. printed cf (?g x)) (databases W)"
    using assms(2) by (auto simp: ExportAOF_printed)
  then have add: "concat (map (\<lambda>(h, db). fst (Db_ExportAOF cf (password W) db)) (databases W)) = printed cf ?all"
    by (simp only: printed_concat)
  have "list_all (list_all bracket_free) ?all"
    using assms(2) bracket_free_RawCommandTokens by (fastforce simp: list_all_iff split: if_splits)
  from ExportMessages_requests [OF this, of "printf_double cf" "[]"]
  have msgs: "ExportMessages_loop (printed cf ?all) = (map (map JString) ?all, [])"
    by (simp add: printed_def ExportMessages_loop.simps [of "[]"] del: dump.simps)
  have out: "map (map JString) ?all =
      concat (map (\<lambda>(h, db). if reqs h = [] then [] else select_request (password W) (db_number db) # map (map JString) (reqs h))
         (databases W))"
    by (auto simp: map_concat select_request_def RawCommandToRequest_def comp_def intro!: arg_cong [of _ _ concat])
  let ?W1 = "snd (MainLoop_DatabaseAppend cf W)"
  have W1: "files ?W1 = files W" "conf ?W1 = conf W" "\<forall>(h, db) \<in> set (databases ?W1). aof_cache db = []"
      "map fst (databases ?W1) = map fst (databases W)"
    by (auto simp: MainLoop_DatabaseAppend_def ExportAOF_cache)
  have srcs: "fst (MainLoop_DatabaseAppend cf W) = map (\<lambda>(h, db). fst (Db_ExportAOF cf (password W) db)) (databases W)"
    by (simp add: MainLoop_DatabaseAppend_def)
  let ?W2 = "?W1\<lparr>files := AOFSave (fst (MainLoop_DatabaseAppend cf W)) (conf_file_name (conf W)) (files ?W1)\<rparr>"
  have "Timer_Exec cf now_us (AofTimer t p again) W =
      Inr (if again then MainLoop_EncounterTimer (AofTimer (now_us + p) p again) ?W2 else ?W2)"
    by (simp add: Let_def case_prod_beta)
  moreover have "files ?W2 (conf_file_name (conf W)) = Some (old @ printed cf ?all)"
    using AOFSave_files [of "files W" "conf_file_name (conf W)", OF assms(1)] by (simp add: W1(1) srcs add)
  ultimately show ?thesis
    using W1(3,4) msgs unfolding out
    by (intro exI [of _ "if again then MainLoop_EncounterTimer (AofTimer (now_us + p) p again) ?W2 else ?W2"]
        exI [of _ "printed cf ?all"]) (auto simp: MainLoop_EncounterTimer_def)
qed

end
