(* ===== verification/Answers.thy ===== *)
theory Answers
  imports Invariant
begin

text \<open>
  What cannot go wrong in a consistent server: a command never reads an argument that is missing, the
  commands that do no arithmetic always answer, and a turn of the main loop always ends.
\<close>

section \<open>Missing arguments\<close>

lemma safe_client_db:
  assumes "World_ok W" and "served W cli" and "client_lock cli (server W) = Some c"
  shows "safe (client_db c W)"
  using client_db_ok [OF assms] by auto

lemma safe_on_database:
  assumes "World_ok W" and "served W cli" and "\<And>h db. valid cmd \<Longrightarrow> safe (f h db)"
  shows "safe (on_database cmd cli f W)"
  unfolding on_database_def
  by (intro safe_intros safe_client_db [OF assms(1,2)]) (use assms(3) in auto)

lemma safe_object_Exec: "safe (f db) \<Longrightarrow> safe (object_Exec f W h db)"
  unfolding object_Exec_def by (intro safe_intros)

lemma safe_RedisStrToSize [safe_intros]: "safe (RedisStrToSize raw)"
  by (auto simp: RedisStrToSize_def stoull_digits_def safe_def rbind_def)

lemma safe_GetAOFTimer [safe_intros]: "safe (MainLoop_GetAOFTimer W)"
  by (simp add: MainLoop_GetAOFTimer_def safe_def split: option.split)

lemma safe_DbCommand_run:
  "DbCommand_ok cmd \<Longrightarrow> valid cmd \<Longrightarrow> safe (DbCommand_run cf now_us cmd W h db)"
  unfolding DbCommand_run_def by (intro safe_intros) (auto simp: DbCommand_ok_def)

lemma safe_next_number [safe_intros]: "safe (next_number hash n)"
proof (induction hash n rule: next_number.induct)
  case (1 hash n)
  then show ?case by (subst next_number.simps) (auto simp: safe_def int_add_def split: sum.splits if_splits)
qed

lemma safe_loop_dbs [safe_intros]: "safe (db_deref h W)" "safe (first_db W)" "safe (Db_ctor ns)" "safe (Db_ctor_number n ns)"
  unfolding db_deref_def first_db_def Db_ctor_def Db_ctor_number_def
  by (auto simp: safe_def split: option.split list.split) (use safe_next_number in \<open>auto simp: safe_def rbind_def split: sum.splits\<close>)

lemma safe_CliCommand_Exec:
  assumes "World_ok W" and "served W cli"
  shows "safe (CliCommand_Exec cmd cli W)"
  unfolding CliCommand_Exec_def MainLoop_SuGetDB_def MainLoop_GetDB_def MainLoop_CreateDB_def
  by (intro safe_intros safe_client_db [OF assms]) auto

lemma safe_ServerCommand_Exec:
  assumes "World_ok W" and "served W cli"
  shows "safe (ServerCommand_Exec cf io cmd cli W)"
  unfolding ServerCommand_Exec_def by (intro safe_intros safe_client_db [OF assms]) auto

lemma Command_Exec_safe:
  assumes "World_ok W" and "served W cli" and "Command_ok cmd"
  shows "safe (Command_Exec cf i cmd cli W)"
proof (cases cmd)
  case (Cmd_Db x)
  with assms(3) show ?thesis
    by (simp add: DbCommand_Exec_def) (intro safe_on_database [OF assms(1,2)] safe_DbCommand_run)
qed (use assms(3) in \<open>simp_all add: safe_CliCommand_Exec [OF assms(1,2)] safe_ServerCommand_Exec [OF assms(1,2)]
    safe_on_database [OF assms(1,2)] safe_object_Exec safe_object_commands\<close>)

section \<open>Commands that always answer\<close>

definition total :: "'a result \<Rightarrow> bool" where
  "total r \<longleftrightarrow> (\<exists>x. r = Inr x)"

lemma total_Inr [simp]: "total (Inr x)" and total_Inl [simp]: "\<not> total (Inl e)"
  by (simp_all add: total_def)

lemma total_rbind: "total m \<Longrightarrow> (\<And>x. m = Inr x \<Longrightarrow> total (f x)) \<Longrightarrow> total (rbind m f)"
  by (auto simp: total_def)

fun total_command :: "Command \<Rightarrow> bool" where
  "total_command (Cmd_Str cmd) = (command cmd \<in> {''SET'', ''GET'', ''LEN''})"
| "total_command (Cmd_List cmd) = (command cmd \<in> {''LPUSHF'', ''LPUSHB'', ''LPOPF'', ''LPOPB'', ''LLEN''})"
| "total_command (Cmd_Hash cmd) =
     (command cmd \<in> {''HSET'', ''HGET'', ''HEXIST'', ''HDEL'', ''HLEN'', ''HGETALL''})"
| "total_command (Cmd_Set cmd) =
     (command cmd \<in> {''SCARD'', ''SISMEMBER'', ''SMEMBERS'', ''SRANDMEMBER'', ''SINTER'', ''SDIFF''})"
| "total_command (Cmd_ZSet cmd) =
     (command cmd \<in> {''ZCARD'', ''ZLEXCOUNT'', ''ZRANGEBYLEX'', ''ZRANK'', ''ZSCORE''})"
| "total_command (Cmd_Db cmd) = (command cmd \<in> {''DEL'', ''WHEN'', ''REWRITE''})"
| "total_command (Cmd_Cli cmd) = (command cmd = ''SHOW'')"
| "total_command (Cmd_Server cmd) = False"

lemma total_StrCommand_run:
  "StrCommand_ok cmd \<Longrightarrow> valid cmd \<Longrightarrow> total_command (Cmd_Str cmd) \<Longrightarrow> total (StrCommand_run cmd s)"
  by (auto simp: StrCommand_run_def StrCommand_ok_def opt_value_def Let_def)

lemma total_ListCommand_run: "total_command (Cmd_List cmd) \<Longrightarrow> total (ListCommand_run cmd l)"
  by (auto simp: ListCommand_run_def Let_def split: prod.split)

lemma total_HSET_loop: "even (length vs) \<Longrightarrow> total (HSET_loop vs h)"
  by (induction vs h rule: HSET_loop.induct) auto

lemma total_HashCommand_run:
  "HashCommand_ok cmd \<Longrightarrow> valid cmd \<Longrightarrow> total_command (Cmd_Hash cmd) \<Longrightarrow> total (HashCommand_run cmd h)"
  by (auto simp: HashCommand_run_def HashCommand_ok_def Let_def intro!: total_rbind total_HSET_loop)

lemma total_SetCommand_run:
  "SetCommand_ok cmd \<Longrightarrow> valid cmd \<Longrightarrow> total_command (Cmd_Set cmd) \<Longrightarrow> total (SetCommand_run r cmd db s)"
  by (auto simp: SetCommand_run_def SetCommand_ok_def Let_def another_set_def vec_at_def
      intro!: total_rbind split: option.split)

lemma total_ZSetCommand_run:
  assumes "ZSet_inv z" and "ZSetCommand_ok cmd" and "valid cmd" and "total_command (Cmd_ZSet cmd)"
  shows "total (ZSetCommand_run cmd z)"
proof -
  obtain rows where "ZSet_RangeByLex lo hi z = Inr (rows lo hi)" for lo hi
    using ZSet_RangeByLex_abs [OF assms(1)] by metis
  with assms(2-4) show ?thesis
    by (auto simp: ZSetCommand_run_def ZSetCommand_ok_def Let_def vec_at_def ZSet_Rank_abs [OF assms(1)]
        ZSet_Score_abs [OF assms(1)])
qed

text \<open>A command fails on a database only if it fails on an object.\<close>

context object_command
begin

lemma exec_total:
  assumes "Db_wf db"
    and "\<And>db ob. Object_wf ob \<Longrightarrow> Object_GetObjectType ob = Object_GetObjectType fresh \<Longrightarrow> total (run db ob)"
  shows "total (with_object creating new fresh run cmd db)"
proof (cases "with_object creating new fresh run cmd db")
  case (Inl e)
  from exec_error [OF assms(1) Inl] assms(2) show ?thesis by (metis total_Inl)
qed simp

end

lemma total_on_class:
  assumes "Object_wf ob"
  shows "Object_GetObjectType ob = Object_GetObjectType (Obj_Str t1) \<Longrightarrow> (\<And>s. total (f s)) \<Longrightarrow> total (on_Str f ob)"
    and "Object_GetObjectType ob = Object_GetObjectType (Obj_List t2) \<Longrightarrow> (\<And>l. total (g l)) \<Longrightarrow> total (on_List g ob)"
    and "Object_GetObjectType ob = Object_GetObjectType (Obj_Hash t3) \<Longrightarrow> (\<And>h. total (k h)) \<Longrightarrow> total (on_Hash k ob)"
    and "Object_GetObjectType ob = Object_GetObjectType (Obj_Set t4) \<Longrightarrow> (\<And>t. total (m t)) \<Longrightarrow> total (on_Set m ob)"
    and "Object_GetObjectType ob = Object_GetObjectType (Obj_ZSet t5) \<Longrightarrow> (\<And>z. ZSet_inv z \<Longrightarrow> total (n z)) \<Longrightarrow>
      total (on_ZSet n ob)"
  using assms by (auto simp: Object_class_cases simp del: Object_GetObjectType.simps intro!: total_rbind)

lemma total_object_commands:
  assumes "Db_wf db"
  shows "StrCommand_ok c1 \<Longrightarrow> valid c1 \<Longrightarrow> total_command (Cmd_Str c1) \<Longrightarrow> total (StrCommand_Exec c1 db)"
    and "total_command (Cmd_List c2) \<Longrightarrow> total (ListCommand_Exec c2 db)"
    and "HashCommand_ok c3 \<Longrightarrow> valid c3 \<Longrightarrow> total_command (Cmd_Hash c3) \<Longrightarrow> total (HashCommand_Exec c3 db)"
    and "SetCommand_ok c4 \<Longrightarrow> valid c4 \<Longrightarrow> total_command (Cmd_Set c4) \<Longrightarrow> total (SetCommand_Exec r c4 db)"
    and "ZSetCommand_ok c5 \<Longrightarrow> valid c5 \<Longrightarrow> total_command (Cmd_ZSet c5) \<Longrightarrow> total (ZSetCommand_Exec c5 db)"
  unfolding StrCommand_Exec_def ListCommand_Exec_def HashCommand_Exec_def SetCommand_Exec_def ZSetCommand_Exec_def
  by (rule str_command.exec_total list_command.exec_total hash_command.exec_total set_command.exec_total
      zset_command.exec_total, rule assms, erule (1) total_on_class,
      simp only: total_StrCommand_run total_ListCommand_run total_HashCommand_run total_SetCommand_run
      total_ZSetCommand_run)+

lemma on_database_total:
  assumes "World_ok W" and "served W cli" and lock: "client_lock cli (server W) = Some c"
    and "\<And>h db. valid cmd \<Longrightarrow> Db_wf db \<Longrightarrow> \<exists>r W'. f h db = Inr (r, W') \<and> server W' = server W \<and> cmd_que W' = cmd_que W"
  shows "\<exists>r W'. on_database cmd cli f W = Inr (Some r, W') \<and> server W' = server W \<and> cmd_que W' = cmd_que W"
proof (cases "valid cmd")
  case True
  obtain h db where db: "client_db c W = Inr (h, db)" "Db_wf db" using client_db_ok [OF assms(1-3)] by blast
  from assms(4) [OF True db(2), of h] show ?thesis by (auto simp: on_database_def True lock db(1))
qed (simp add: on_database_def)

lemma object_Exec_total:
  "total (f db) \<Longrightarrow> \<exists>r W'. object_Exec f W h db = Inr (r, W') \<and> server W' = server W \<and> cmd_que W' = cmd_que W"
  by (auto simp: total_def object_Exec_def)

lemma DbCommand_run_total:
  assumes "World_ok W" and "total_command (Cmd_Db cmd)"
  shows "\<exists>r W'. DbCommand_run cf now_us cmd W h db = Inr (r, W') \<and> server W' = server W \<and> cmd_que W' = cmd_que W"
proof -
  have "\<exists>t. aof_timer W = Some t" if "conf_enable_aof (conf W)"
    using World_ok_parts(3) [OF assms(1)] that by (auto simp: timers_ok_def)
  with assms(2) show ?thesis
    by (auto simp: DbCommand_run_def Let_def MainLoop_GetAOFTimer_def MainLoop_EncounterTimer_def split: prod.split)
qed

lemma Command_Exec_total:
  assumes W: "World_ok W" "served W cli" "client_lock cli (server W) = Some c"
    and cmd: "Command_ok cmd" "total_command cmd"
  shows "\<exists>r W'. Command_Exec cf i cmd cli W = Inr (Some r, W') \<and> server W' = server W \<and> cmd_que W' = cmd_que W"
proof (cases cmd)
  case (Cmd_Cli x)
  obtain h db where "client_db c W = Inr (h, db)" using client_db_ok [OF W] by blast
  with Cmd_Cli cmd W(3) show ?thesis by (cases "valid x") (simp_all add: CliCommand_Exec_def)
next
  case (Cmd_Db x)
  with cmd show ?thesis
    unfolding Cmd_Db Command_Exec.simps DbCommand_Exec_def
    by (intro on_database_total [OF W] DbCommand_run_total [OF W(1)]) simp
qed (use cmd in \<open>simp_all only: Command_Exec.simps Command_ok.simps total_command.simps(8)\<close>,
    (intro on_database_total [OF W] object_Exec_total total_object_commands; simp)+)

text \<open>The reply is in the buffer of the client, and the client is polled for sending.\<close>

lemma Handler_ExecCommand_answers:
  assumes W: "World_ok W" and que: "cmd_que W = (cli, cmd) # que" and lock: "client_lock cli (server W) = Some c"
    and "total_command cmd" and "interest (server W) (cli_fd c) \<noteq> None"
  shows "\<exists>r W' c'. Handler_ExecCommand cf i W = Inr W' \<and> cmd_que W' = que \<and> client_lock cli (server W') = Some c' \<and>
    send_buffer c' = send_buffer c @ dump (printf_double cf) (JArray r) \<and>
    interest (server W') (cli_fd c) = Some EPOLLOUT"
proof -
  let ?W = "W\<lparr>cmd_que := que\<rparr>"
  have q: "served W cli" "Command_ok cmd" using World_ok_parts(4) [OF W] que by (auto simp: queues_ok_def)
  have W1: "World_ok ?W" by (rule World_ok_cmd_que [OF W]) (use World_ok_parts(4) [OF W] que in \<open>auto simp: queues_ok_def\<close>)
  have "served ?W cli" "client_lock cli (server ?W) = Some c" using q(1) lock by (simp_all add: served_def)
  from Command_Exec_total [OF W1 this q(2) assms(4), of cf i] obtain r W' where
    W': "Command_Exec cf i cmd cli ?W = Inr (Some r, W')" "server W' = server W" "cmd_que W' = que" by auto
  let ?c = "ClientInfo_Append (printf_double cf) r c"
  let ?W' = "on_server (\<lambda>srv. Server_EnableSend ?c (client_put cli ?c srv)) W'"
  have "Handler_ExecCommand cf i W = Inr ?W'"
    by (simp add: Handler_ExecCommand_def CommandQue_BlockPop_def que W'(1,2) lock Handler_respond_def Let_def)
  moreover have "client_lock cli (server ?W') = Some ?c"
    using client_lock_put [of cli "server W" cli ?c] lock
    by (simp add: W'(2) Server_EnableSend_def epoll_mod_def client_lock_def split: option.split)
  moreover have "interest (server ?W') (cli_fd c) = Some EPOLLOUT"
    using assms(5)
    by (auto simp: W'(2) Server_EnableSend_def epoll_mod_def ClientInfo_Append_def client_put_def ClientInfo_GetFD_def)
  moreover have "send_buffer ?c = send_buffer c @ dump (printf_double cf) (JArray r)" "cmd_que ?W' = que"
    by (simp_all add: ClientInfo_Append_def W'(3) del: dump.simps)
  ultimately show ?thesis by blast
qed

section \<open>The main loop\<close>

lemma MainLoop_dispatch_total: "databases_ok W \<Longrightarrow> total (MainLoop_dispatch evs W)"
proof (induction evs W rule: MainLoop_dispatch.induct)
  case (2 cli flag evs W)
  obtain h where h: "first_db W = Inr h" using first_db_ok [OF 2(2)] by blast
  have ok: "databases_ok (on_server f W\<lparr>cli_que := q\<rparr>)" "databases_ok (W\<lparr>cli_que := q\<rparr>)" for f q
    using 2(2) by (simp_all add: databases_ok_def db_handles_def on_server_def)
  show ?case
    using 2(1) ok by (auto simp: h intro!: total_rbind split: option.split if_splits)
qed simp

lemma MainLoop_Run_total: "World_ok W \<Longrightarrow> total (MainLoop_Run kevs W)"
proof -
  assume "World_ok W"
  then have "databases_ok (W\<lparr>server := srv\<rparr>)" for srv
    using World_ok_parts(1) [of W] by (simp add: databases_ok_def db_handles_def)
  then show ?thesis by (auto simp: MainLoop_Run_def intro: MainLoop_dispatch_total split: prod.split)
qed

section \<open>The order of requests\<close>

text \<open>The commands of the requests of a client are queued in the order of the requests.\<close>

lemma AppendAOF_cmd_que:
  assumes "(if conf_enable_aof (conf W) then
      (case client_lock cli (server W) of
         None \<Rightarrow> Inr W
       | Some c \<Rightarrow>
           rbind (client_db c W) (\<lambda>(h, db).
             (let W1 = db_update h (Db_AppendAOF cf req db) W in
              if conf_aof_mode (conf W) = ''no''
              then rbind (MainLoop_GetAOFTimer W1) (\<lambda>atmr. Inr (MainLoop_EncounterTimer atmr W1))
              else Inr W1)))
      else Inr W) = Inr W1"
  shows "cmd_que W1 = cmd_que W"
  using assms by (auto simp: rbind_eq_Inr_iff Let_def split: if_splits option.splits)

lemma ioClient_requests_queue:
  "ioClient_requests cf cli reqs W = Inr W' \<Longrightarrow>
     \<exists>cmds. map (RequestToCommandExec cli) reqs = map Inr cmds \<and>
       cmd_que W' = cmd_que W @ concat (map (\<lambda>c. case c of None \<Rightarrow> [] | Some cc \<Rightarrow> [cc]) cmds)"
proof (induction reqs arbitrary: W)
  case (Cons req reqs)
  from Cons.prems obtain W1 cmd where aof: "cmd_que W1 = cmd_que W" and cmd: "RequestToCommandExec cli req = Inr cmd"
    and rest: "ioClient_requests cf cli reqs
      (case cmd of None \<Rightarrow> W1 | Some cc \<Rightarrow> W1\<lparr>cmd_que := CommandQue_Push cc (cmd_que W1)\<rparr>) = Inr W'"
    unfolding ioClient_requests.simps rbind_eq_Inr_iff using AppendAOF_cmd_que by blast
  from Cons.IH [OF rest] obtain cmds where "map (RequestToCommandExec cli) reqs = map Inr cmds"
      "cmd_que W' = cmd_que (case cmd of None \<Rightarrow> W1 | Some cc \<Rightarrow> W1\<lparr>cmd_que := CommandQue_Push cc (cmd_que W1)\<rparr>) @
        concat (map (\<lambda>c. case c of None \<Rightarrow> [] | Some cc \<Rightarrow> [cc]) cmds)" by blast
  then show ?case
    by (intro exI [of _ "cmd # cmds"]) (auto simp: cmd aof CommandQue_Push_def split: option.splits)
qed simp

section \<open>Writing and reading a string\<close>

lemma SET_GET:
  assumes "Db_wf db" and "case db_abs db key of None \<Rightarrow> True | Some (ob, e) \<Rightarrow> \<exists>s. ob = Obj_Str s" and "v \<noteq> []"
  shows "\<exists>db1 db2.
    StrCommand_Exec \<lparr>valid = True, command = ''SET'', obj_name = key, str_value = Some v\<rparr> db = Inr (reply ''OK'', db1) \<and>
    StrCommand_Exec \<lparr>valid = True, command = ''GET'', obj_name = key, str_value = w\<rparr> db1 = Inr (reply (quoted v), db2) \<and>
    db_abs db2 = db_abs db1 \<and> (\<forall>d. d \<noteq> key \<longrightarrow> db_abs db2 d = db_abs db d)"
proof -
  let ?set = "\<lparr>valid = True, command = ''SET'', obj_name = key, str_value = Some v\<rparr>"
  let ?get = "\<lparr>valid = True, command = ''GET'', obj_name = key, str_value = w\<rparr>"
  have sv: "Str_Set v s = Str_ctor v" for s by (simp add: Str_Set_def Str_ctor_def)
  have "total (StrCommand_Exec ?set db)" by (rule total_object_commands [OF assms(1)]) (simp_all add: StrCommand_ok_def)
  then obtain r db1 where set: "StrCommand_Exec ?set db = Inr (r, db1)" by (auto simp: total_def)
  have ok: "r = reply ''OK''" and abs1: "\<exists>e. db_abs db1 = (db_abs db)(key \<mapsto> (Obj_Str (Str_ctor v), e))"
    using str_command.exec_abs [OF assms(1), of ?set ?set r db1] set assms(2)
    by (auto simp: StrCommand_Exec_def StrCommand_run_def opt_value_def sv Str_GetObjectType_def split: option.splits if_splits)
  have wf: "Db_wf db1" using object_steps(1) assms(1) set by (auto simp: object_step_def)
  let ?db2 = "Db_put (Str_ctor key) (Obj_Str (Str_ctor v)) db1"
  have "StrCommand_Exec ?get db1 = Inr (reply (quoted v), ?db2)"
    using abs1 assms(3)
    by (auto simp: StrCommand_Exec_def with_object_def Let_def Db_Get_abs StrCommand_run_def Str_GetRaw_def Str_GetObjectType_def)
  moreover have "db_abs ?db2 = db_abs db1"
    using Db_put_abs [OF wf, of "Str_ctor key" "Obj_Str (Str_ctor v)"] abs1 by auto
  ultimately show ?thesis using set ok abs1 by auto
qed

end
