(* ===== verification/Client.thy ===== *)
theory Client
  imports Server Config
begin

text \<open>
  The command line client \<open>redis-cli.cc\<close>: a line that is typed becomes tokens, then a request, then
  bytes for the server.  Its tokenizer also accepts \<open>-\<close>, \<open>.\<close> and \<open>:\<close>, and the argument of \<open>expire\<close> is
  turned from a period in seconds into a point in time.
\<close>

section \<open>From a line to a request\<close>

definition cli_isTokenMember :: "char \<Rightarrow> bool" where
  "cli_isTokenMember c \<longleftrightarrow>
     (c \<ge> CHR ''0'' \<and> c \<le> CHR ''9'') \<or> (c \<ge> CHR ''a'' \<and> c \<le> CHR ''z'') \<or>
     (c \<ge> CHR ''A'' \<and> c \<le> CHR ''Z'') \<or> c = CHR ''-'' \<or> c = CHR ''.'' \<or> c = CHR '':''"

definition cli_nextToken :: "string \<Rightarrow> string \<times> string" where
  "cli_nextToken s =
     (let s' = dropWhile (\<lambda>c. \<not> cli_isTokenMember c) s
      in (takeWhile cli_isTokenMember s', dropWhile cli_isTokenMember s'))"

function cli_RawCommandTokens :: "string \<Rightarrow> string list" where
  "cli_RawCommandTokens s =
     (let (token, s') = cli_nextToken s in if token = [] then [] else token # cli_RawCommandTokens s')"
  by pat_completeness auto
termination
proof (relation "measure length")
  fix s x token s'
  assume *: "x = cli_nextToken s" "(token, s') = x" "token \<noteq> []"
  define t where "t = dropWhile (\<lambda>c. \<not> cli_isTokenMember c) s"
  from * have "t = token @ s'" by (simp add: cli_nextToken_def t_def Let_def)
  then have "length s' < length t" using *(3) by simp
  also have "length t \<le> length s" unfolding t_def by (rule length_dropWhile_le)
  finally show "(s', s) \<in> measure length" by simp
qed simp

declare cli_RawCommandTokens.simps [simp del]

definition cli_RawCommandToRequest :: "string \<Rightarrow> json_array" where
  "cli_RawCommandToRequest raw = map JString (cli_RawCommandTokens raw)"

text \<open>\<open>std::stoul\<close>: a sign negates modulo the width.\<close>

definition stoul :: "string \<Rightarrow> size_t result" where
  "stoul s =
     (case split_sign (dropWhile is_space s) of (neg, t) \<Rightarrow>
        (let ds = takeWhile is_digit t; n = digits_val ds in
         if ds = [] then Inl Invalid_Argument
         else if n \<ge> 2 ^ 64 then Inl Out_Of_Range
         else Inr (if neg then - word_of_nat n else word_of_nat n)))"

text \<open>
  What is sent for one line.  \<open>cmd_arr[0]\<close> of a line without a token is read past the end of an empty
  vector.
\<close>

definition ClientEnd_send :: "(string \<Rightarrow> string) \<Rightarrow> size_t \<Rightarrow> size_t \<Rightarrow> string \<Rightarrow> string result" where
  "ClientEnd_send fmt tv_sec tv_usec input =
     (case cli_RawCommandToRequest input of
        [] \<Rightarrow> Inl Undefined
      | cmd0 # args \<Rightarrow>
          rbind
            (if string_value cmd0 = ''expire'' \<and> length (cmd0 # args) > 2 then
               rbind (stoul (string_value ((cmd0 # args) ! 2))) (\<lambda>period.
                 (let expire_point = UsTime tv_sec tv_usec + period * 1000000 in
                  Inr ((cmd0 # args)[2 := JString (nat_to_string (unat expire_point))])))
             else Inr (cmd0 # args)) (\<lambda>cmd_arr.
          Inr (dump fmt (JArray cmd_arr))))"

section \<open>What the server receives\<close>

lemma cli_tokens_members: "t \<in> set (cli_RawCommandTokens s) \<Longrightarrow> t \<noteq> [] \<and> list_all cli_isTokenMember t"
proof (induction s rule: cli_RawCommandTokens.induct)
  case (1 s)
  obtain token s' where n: "cli_nextToken s = (token, s')" by (cases "cli_nextToken s")
  then have "list_all cli_isTokenMember token"
    by (auto simp: cli_nextToken_def Let_def list_all_iff dest: set_takeWhileD)
  with 1 n show ?case by (auto simp: cli_RawCommandTokens.simps [of s] split: if_splits)
qed

lemma cli_token_bracket_free: "list_all cli_isTokenMember t \<Longrightarrow> bracket_free t"
  by (auto simp: bracket_free_def list_all_iff cli_isTokenMember_def less_eq_char_def)

lemma cli_tokens_bracket_free: "list_all bracket_free (cli_RawCommandTokens s)"
  using cli_tokens_members [of _ s] by (auto simp: list_all_iff intro: cli_token_bracket_free)

lemma bracket_free_nat_to_string: "bracket_free (nat_to_string n)"
  using nat_to_string_digits [of n] by (auto simp: bracket_free_def list_all_iff is_digit_def less_char_def)

lemma ClientEnd_send_received:
  assumes "cli_RawCommandTokens input \<noteq> []" and "hd (cli_RawCommandTokens input) \<noteq> ''expire''"
  shows "\<exists>bytes. ClientEnd_send fmt tv_sec tv_usec input = Inr bytes \<and>
    (\<forall>rest. ExportMessages_loop (bytes @ rest) =
      (case ExportMessages_loop rest of (ms, r) \<Rightarrow> (map JString (cli_RawCommandTokens input) # ms, r)))"
proof -
  obtain t ts where ts: "cli_RawCommandTokens input = t # ts" using assms(1) by (cases "cli_RawCommandTokens input") auto
  then have "ClientEnd_send fmt tv_sec tv_usec input = Inr (dump fmt (JArray (map JString (cli_RawCommandTokens input))))"
    using assms(2) by (simp add: ClientEnd_send_def cli_RawCommandToRequest_def del: dump.simps)
  then show ?thesis using ExportMessages_request [OF cli_tokens_bracket_free] by blast
qed

lemma ClientEnd_expire_received:
  assumes "cli_RawCommandTokens input = ''expire'' # key # period # ws" and "list_all is_digit period"
    and "digits_val period < 2 ^ 64"
  shows "\<exists>bytes. ClientEnd_send fmt tv_sec tv_usec input = Inr bytes \<and>
    (\<forall>rest. ExportMessages_loop (bytes @ rest) =
      (case ExportMessages_loop rest of (ms, r) \<Rightarrow>
         (map JString (''expire'' # key #
            nat_to_string (unat (UsTime tv_sec tv_usec + word_of_nat (digits_val period) * 1000000)) # ws) # ms, r)))"
proof -
  let ?n = "nat_to_string (unat (UsTime tv_sec tv_usec + word_of_nat (digits_val period) * 1000000))"
  have "period \<in> set (cli_RawCommandTokens input)" by (simp add: assms(1))
  then have p: "period \<noteq> []" using cli_tokens_members by blast
  have tw: "takeWhile is_digit period = period" using assms(2) by (simp add: takeWhile_eq_all_conv list_all_iff)
  have "hd period \<in> set period" using p by simp
  with assms(2) have hd: "is_digit (hd period)" by (simp add: list_all_iff)
  then have "hd period \<noteq> CHR ''-''" "hd period \<noteq> CHR ''+''" "\<not> is_space (hd period)"
    by (auto simp: is_digit_def is_space_def less_char_def)
  with p have "split_sign (dropWhile is_space period) = (False, period)"
    by (cases period) (auto simp: split_sign_def)
  then have "stoul period = Inr (word_of_nat (digits_val period))"
    using p assms(3) by (simp add: stoul_def tw)
  then have send: "ClientEnd_send fmt tv_sec tv_usec input =
      Inr (dump fmt (JArray (map JString (''expire'' # key # ?n # ws))))"
    by (simp add: ClientEnd_send_def cli_RawCommandToRequest_def assms(1) del: dump.simps)
  have "list_all bracket_free (''expire'' # key # ?n # ws)"
    using cli_tokens_bracket_free [of input] by (simp add: assms(1) bracket_free_nat_to_string)
  from ExportMessages_request [OF this] send show ?thesis by blast
qed

text \<open>A line of words separated by blanks gives these words.\<close>

lemma cli_RawCommandTokens_word:
  assumes "t \<noteq> []" and "list_all cli_isTokenMember t" and "s = [] \<or> \<not> cli_isTokenMember (hd s)"
  shows "cli_RawCommandTokens (t @ s) = t # cli_RawCommandTokens s"
proof -
  have "dropWhile (\<lambda>c. \<not> cli_isTokenMember c) (t @ s) = t @ s" using assms(1,2) by (cases t) auto
  moreover have "takeWhile cli_isTokenMember (t @ s) = t" "dropWhile cli_isTokenMember (t @ s) = s"
    using assms(2,3) by (cases s; simp add: takeWhile_append dropWhile_append list_all_iff)+
  ultimately have "cli_nextToken (t @ s) = (t, s)" by (simp add: cli_nextToken_def Let_def)
  then show ?thesis by (subst cli_RawCommandTokens.simps) (simp add: assms(1))
qed

text \<open>
  The words of a line: a line is a sequence of separators and words, the words over these characters and
  the separators over all others; only the first separator may be empty.
\<close>

definition word_chars :: string where
  "word_chars = ''abcdefghijklmnopqrstuvwxyzABCDEFGHIJKLMNOPQRSTUVWXYZ0123456789-.:''"

definition separated :: "(string \<times> string) list \<Rightarrow> string \<Rightarrow> bool" where
  "separated ps end_sep \<longleftrightarrow>
     (\<forall>(sep, w) \<in> set ps. w \<noteq> [] \<and> set w \<subseteq> set word_chars \<and> set sep \<inter> set word_chars = {}) \<and>
     (\<forall>(sep, w) \<in> set (tl ps). sep \<noteq> []) \<and> set end_sep \<inter> set word_chars = {}"

definition typed_line :: "(string \<times> string) list \<Rightarrow> string \<Rightarrow> string" where
  "typed_line ps end_sep = concat (map (\<lambda>(sep, w). sep @ w) ps) @ end_sep"

lemma cli_isTokenMember_iff: "cli_isTokenMember c \<longleftrightarrow> c \<in> set word_chars"
proof -
  have "\<forall>c. cli_isTokenMember c = (c \<in> set word_chars)" by code_simp
  then show ?thesis ..
qed

lemma cli_RawCommandTokens_skip:
  "set sep \<inter> set word_chars = {} \<Longrightarrow> cli_RawCommandTokens (sep @ s) = cli_RawCommandTokens s"
proof -
  assume "set sep \<inter> set word_chars = {}"
  then have "dropWhile (\<lambda>c. \<not> cli_isTokenMember c) (sep @ s) = dropWhile (\<lambda>c. \<not> cli_isTokenMember c) s"
    by (intro dropWhile_append2) (auto simp: cli_isTokenMember_iff)
  then show ?thesis
    by (simp add: cli_RawCommandTokens.simps [of "sep @ s"] cli_RawCommandTokens.simps [of s] cli_nextToken_def)
qed

lemma cli_RawCommandTokens_line: "separated ps end_sep \<Longrightarrow> cli_RawCommandTokens (typed_line ps end_sep) = map snd ps"
proof (induction ps)
  case Nil
  then have "cli_RawCommandTokens (end_sep @ []) = cli_RawCommandTokens []"
    by (intro cli_RawCommandTokens_skip) (simp add: separated_def)
  then show ?case by (simp add: typed_line_def cli_RawCommandTokens.simps [of "[]"] cli_nextToken_def)
next
  case (Cons p ps)
  obtain sep w where p: "p = (sep, w)" by (cases p)
  have sw: "w \<noteq> []" "list_all cli_isTokenMember w" "set sep \<inter> set word_chars = {}"
    using Cons.prems by (auto simp: separated_def p list_all_iff cli_isTokenMember_iff)
  have ps: "separated ps end_sep" "\<forall>(sep, w) \<in> set ps. sep \<noteq> []"
    using Cons.prems by (cases ps; auto simp: separated_def)+
  have "typed_line ps end_sep = [] \<or> \<not> cli_isTokenMember (hd (typed_line ps end_sep))"
  proof (cases ps)
    case Nil
    then show ?thesis using ps(1) by (cases end_sep) (simp_all add: typed_line_def separated_def cli_isTokenMember_iff)
  next
    case (Cons q qs)
    obtain sep' w' where q: "q = (sep', w')" by (cases q)
    have "sep' \<noteq> []" "set sep' \<inter> set word_chars = {}" using ps Cons q by (simp_all add: separated_def)
    moreover from this(1) have "hd (typed_line ps end_sep) = hd sep'" by (simp add: typed_line_def Cons q)
    ultimately show ?thesis by (metis cli_isTokenMember_iff disjoint_iff hd_in_set)
  qed
  then have "cli_RawCommandTokens (w @ typed_line ps end_sep) = w # cli_RawCommandTokens (typed_line ps end_sep)"
    by (rule cli_RawCommandTokens_word [OF sw(1,2)])
  then show ?case using cli_RawCommandTokens_skip [OF sw(3)] Cons.IH [OF ps(1)] by (simp add: typed_line_def p)
qed

end
