(* ===== verification/LRU.thy ===== *)
theory LRU
  imports Config
begin

text \<open>
  \<open>class LRU\<close> of \<open>src/database/lru.cc\<close>, which no other part of the server uses.  \<open>rank_\<close> is a list of
  nodes, a node with its address, and \<open>map_\<close> gives the address of the node of a key.  \<open>Access\<close> locks
  the mutex of \<open>it->second\<close> before it compares \<open>it\<close> with \<open>end()\<close>, so a key that is not there
  dereferences the end iterator; the branch behind the comparison, which would enter the key, enters the
  empty string into \<open>map_\<close>.

  The lemmas show that on a consistent structure the operations are those of a list of keys and sizes in
  the order of their last use, and that from the constructor only the empty list is reachable.
\<close>

record LRU =
  mem_limit_bytes :: size_t
  lru_size :: "32 word"
  rank :: "(nat \<times> string \<times> size_t) list"
  node_map :: "(string \<times> nat) list"
  node_source :: nat

definition LRU_ctor :: "32 word \<Rightarrow> RedisConf \<Rightarrow> LRU" where
  "LRU_ctor size0 c =
     (let limit = (if conf_mem_size_mbytes c > 4096 then conf_mem_size_mbytes c else 4096);
          limit' = (if limit < 1024 * 8 then limit else 1024 * 8)
      in \<lparr>mem_limit_bytes = limit', lru_size = size0, rank = [], node_map = [], node_source = 0\<rparr>)"

definition rank_node :: "nat \<Rightarrow> LRU \<Rightarrow> (string \<times> size_t) result" where
  "rank_node n l = (case map_of (rank l) n of None \<Rightarrow> Inl Undefined | Some x \<Rightarrow> Inr x)"

definition LRU_Access :: "string \<Rightarrow> size_t \<Rightarrow> LRU \<Rightarrow> (size_t \<times> LRU) result" where
  "LRU_Access key sz l =
     (let it = map_of (node_map l) key in
      rbind (if it = None then Inl Undefined else Inr ()) (\<lambda>lg.
      (case it of
         Some n \<Rightarrow>
           rbind (rank_node n l) (\<lambda>(val, old).
             (let size' = lru_size l - ucast old + ucast sz;
                  l' = l\<lparr>lru_size := size',
                         rank := (node_source l, val, sz) # filter (\<lambda>(n', _). n' \<noteq> n) (rank l),
                         node_map := map (\<lambda>(k, n'). (k, if k = key then node_source l else n')) (node_map l),
                         node_source := Suc (node_source l)\<rparr>
              in Inr (ucast size', l')))
       | None \<Rightarrow>
           (let size' = lru_size l + ucast sz;
                l' = l\<lparr>lru_size := size',
                       rank := (node_source l, key, sz) # rank l,
                       node_map := (if map_of (node_map l) [] = None then ([], node_source l) # node_map l else node_map l),
                       node_source := Suc (node_source l)\<rparr>
            in Inr (ucast size', l')))))"

definition LRU_Remove :: "string \<Rightarrow> LRU \<Rightarrow> LRU result" where
  "LRU_Remove key l =
     (case map_of (node_map l) key of
        None \<Rightarrow> Inr l
      | Some n \<Rightarrow>
          rbind (rank_node n l) (\<lambda>(val, old).
            Inr (l\<lparr>lru_size := lru_size l - ucast old,
                   rank := filter (\<lambda>(n', _). n' \<noteq> n) (rank l),
                   node_map := filter (\<lambda>(k, _). k \<noteq> key) (node_map l)\<rparr>)))"

text \<open>\<open>Evict\<close> does not lower \<open>size_\<close>.\<close>

definition LRU_Evict :: "LRU \<Rightarrow> (string \<times> LRU) result" where
  "LRU_Evict l =
     (if rank l = [] then Inl Undefined
      else
        (case last (rank l) of
           (n, key, sz) \<Rightarrow>
             Inr (key, l\<lparr>rank := butlast (rank l), node_map := filter (\<lambda>(k, _). k \<noteq> key) (node_map l)\<rparr>)))"

definition LRU_IsFull :: "LRU \<Rightarrow> bool" where
  "LRU_IsFull l \<longleftrightarrow> ucast (lru_size l) \<ge> mem_limit_bytes l"

inductive LRU_reachable :: "LRU \<Rightarrow> bool" where
  Ctor: "LRU_reachable (LRU_ctor size0 c)"
| Access: "LRU_reachable l \<Longrightarrow> LRU_Access key sz l = Inr (r, l') \<Longrightarrow> LRU_reachable l'"
| Remove: "LRU_reachable l \<Longrightarrow> LRU_Remove key l = Inr l' \<Longrightarrow> LRU_reachable l'"
| Evict: "LRU_reachable l \<Longrightarrow> LRU_Evict l = Inr (key, l') \<Longrightarrow> LRU_reachable l'"

section \<open>A list in the order of use\<close>

text \<open>Every node has its own address and key, and the map leads from the key to the node.\<close>

definition LRU_wf :: "LRU \<Rightarrow> bool" where
  "LRU_wf l \<longleftrightarrow>
     distinct (map fst (rank l)) \<and> distinct (map (fst \<circ> snd) (rank l)) \<and> (\<forall>n \<in> set (map fst (rank l)). n < node_source l) \<and>
     distinct (map fst (node_map l)) \<and> set (node_map l) = (\<lambda>(n, k, sz). (k, n)) ` set (rank l)"

definition lru_abs :: "LRU \<Rightarrow> (string \<times> size_t) list" where
  "lru_abs l = map snd (rank l)"

lemma LRU_wf_ctor: "LRU_wf (LRU_ctor size0 c) \<and> lru_abs (LRU_ctor size0 c) = []"
  by (simp add: LRU_wf_def LRU_ctor_def Let_def lru_abs_def)

lemma LRU_absent:
  assumes "LRU_wf l" and "key \<notin> fst ` set (lru_abs l)"
  shows "map_of (node_map l) key = None"
proof -
  have "(key, n) \<notin> set (node_map l)" for n using assms by (force simp: LRU_wf_def lru_abs_def)
  then show ?thesis by (auto simp: map_of_eq_None_iff)
qed

lemma LRU_present:
  assumes "LRU_wf l" and "(key, old) \<in> set (lru_abs l)"
  obtains n where "map_of (node_map l) key = Some n" and "rank_node n l = Inr (key, old)" and "(n, key, old) \<in> set (rank l)"
proof -
  obtain n where n: "(n, key, old) \<in> set (rank l)" using assms(2) by (auto simp: lru_abs_def)
  then have "(key, n) \<in> set (node_map l)" using assms(1) by (force simp: LRU_wf_def)
  then have "map_of (node_map l) key = Some n" using assms(1) by (simp add: LRU_wf_def)
  moreover have "rank_node n l = Inr (key, old)" using n assms(1) by (simp add: rank_node_def LRU_wf_def)
  ultimately show ?thesis using n that by blast
qed

text \<open>The node of a key is the one with its address, so both ways to leave it out agree.\<close>

lemma LRU_same_node:
  assumes "LRU_wf l" and "(n, key, old) \<in> set (rank l)" and "(n', k, sz) \<in> set (rank l)"
  shows "n' = n \<longleftrightarrow> k = key"
proof -
  have inj: "inj_on fst (set (rank l))" "inj_on (fst \<circ> snd) (set (rank l))"
    using assms(1) by (simp_all add: LRU_wf_def distinct_map)
  show ?thesis using inj_onD [OF inj(1) _ assms(3,2)] inj_onD [OF inj(2) _ assms(3,2)] by auto
qed

lemma LRU_filter_node:
  assumes "LRU_wf l" and "(n, key, old) \<in> set (rank l)"
  shows "filter (\<lambda>(n', _). n' \<noteq> n) (rank l) = filter (\<lambda>(n', k, sz). k \<noteq> key) (rank l)"
  using LRU_same_node [OF assms] by (intro filter_cong) auto

lemma map_snd_filter_key: "map snd (filter (\<lambda>(n', k, sz). k \<noteq> key) xs) = filter (\<lambda>(k, sz). k \<noteq> key) (map snd xs)"
  by (induction xs) auto

lemma LRU_Access_present:
  assumes wf: "LRU_wf l" and k: "(key, old) \<in> set (lru_abs l)"
  shows "\<exists>l'. LRU_Access key sz l = Inr (ucast (lru_size l'), l') \<and> LRU_wf l' \<and>
    lru_abs l' = (key, sz) # filter (\<lambda>(k, _). k \<noteq> key) (lru_abs l) \<and> lru_size l' = lru_size l - ucast old + ucast sz"
proof -
  obtain n where n: "map_of (node_map l) key = Some n" "rank_node n l = Inr (key, old)" "(n, key, old) \<in> set (rank l)"
    using LRU_present [OF wf k] by blast
  let ?r = "filter (\<lambda>(n', k, sz). k \<noteq> key) (rank l)"
  define l' where "l' = l\<lparr>lru_size := lru_size l - ucast old + ucast sz, rank := (node_source l, key, sz) # ?r,
      node_map := map (\<lambda>(k, n'). (k, if k = key then node_source l else n')) (node_map l),
      node_source := Suc (node_source l)\<rparr>"
  have "LRU_Access key sz l = Inr (ucast (lru_size l'), l')"
    using n LRU_filter_node [OF wf n(3)] by (simp add: LRU_Access_def Let_def l'_def)
  moreover have "lru_abs l' = (key, sz) # filter (\<lambda>(k, _). k \<noteq> key) (lru_abs l)"
    by (simp add: l'_def lru_abs_def map_snd_filter_key)
  moreover have "LRU_wf l'"
  proof -
    have fresh: "node_source l \<notin> fst ` set ?r" using wf by (force simp: LRU_wf_def)
    have d: "distinct (map fst ?r)" "distinct (map (fst \<circ> snd) ?r)" using wf by (simp_all add: LRU_wf_def distinct_map_filter)
    have less: "\<forall>m \<in> fst ` set ?r. m < Suc (node_source l)" using wf by (force simp: LRU_wf_def)
    have keys: "map fst (node_map l') = map fst (node_map l)" by (simp add: l'_def comp_def case_prod_beta)
    have nm: "set (node_map l) = (\<lambda>(n, k, sz). (k, n)) ` set (rank l)" using wf by (simp add: LRU_wf_def)
    have "set (node_map l') = (\<lambda>(k, n'). (k, if k = key then node_source l else n')) ` (\<lambda>(n, k, sz). (k, n)) ` set (rank l)"
      by (simp add: l'_def nm)
    also have "\<dots> = insert (key, node_source l) ((\<lambda>(n, k, sz). (k, n)) ` set ?r)"
      using n(3) by (force simp: image_iff)
    finally have "set (node_map l') = (\<lambda>(n, k, sz). (k, n)) ` set (rank l')" by (simp add: l'_def)
    moreover have "distinct (map fst (node_map l'))" using wf by (simp add: keys LRU_wf_def)
    moreover have "rank l' = (node_source l, key, sz) # ?r" "node_source l' = Suc (node_source l)" by (simp_all add: l'_def)
    ultimately show ?thesis using fresh d less by (auto simp: LRU_wf_def)
  qed
  ultimately show ?thesis by (intro exI [of _ l']) (simp add: l'_def)
qed

lemma LRU_wf_drop:
  assumes wf: "LRU_wf l" and r: "r = filter (\<lambda>(n', k, sz). k \<noteq> key) (rank l)"
  shows "LRU_wf (l\<lparr>rank := r, node_map := filter (\<lambda>(k, _). k \<noteq> key) (node_map l), lru_size := s\<rparr>)"
proof -
  have nm: "set (node_map l) = (\<lambda>(n, k, sz). (k, n)) ` set (rank l)" using wf by (simp add: LRU_wf_def)
  have "set (filter (\<lambda>(k, _). k \<noteq> key) (node_map l)) = (\<lambda>(n, k, sz). (k, n)) ` set r" by (force simp: nm r)
  moreover have "distinct (map fst r)" "distinct (map (fst \<circ> snd) r)" "distinct (map fst (filter (\<lambda>(k, _). k \<noteq> key) (node_map l)))"
      "\<forall>m \<in> set (map fst r). m < node_source l"
    using wf by (auto simp: LRU_wf_def r distinct_map_filter)
  ultimately show ?thesis by (simp add: LRU_wf_def)
qed

lemma LRU_Remove_present:
  assumes wf: "LRU_wf l" and k: "(key, old) \<in> set (lru_abs l)"
  shows "\<exists>l'. LRU_Remove key l = Inr l' \<and> LRU_wf l' \<and> lru_abs l' = filter (\<lambda>(k, _). k \<noteq> key) (lru_abs l) \<and>
    lru_size l' = lru_size l - ucast old"
proof -
  obtain n where n: "map_of (node_map l) key = Some n" "rank_node n l = Inr (key, old)" "(n, key, old) \<in> set (rank l)"
    using LRU_present [OF wf k] by blast
  let ?r = "filter (\<lambda>(n', k, sz). k \<noteq> key) (rank l)"
  let ?l = "l\<lparr>rank := ?r, node_map := filter (\<lambda>(k, _). k \<noteq> key) (node_map l), lru_size := lru_size l - ucast old\<rparr>"
  have "LRU_Remove key l = Inr ?l" using n LRU_filter_node [OF wf n(3)] by (simp add: LRU_Remove_def)
  moreover have "lru_abs ?l = filter (\<lambda>(k, _). k \<noteq> key) (lru_abs l)" by (simp add: lru_abs_def map_snd_filter_key)
  ultimately show ?thesis using LRU_wf_drop [OF wf refl] by (intro exI [of _ ?l]) simp
qed

lemma LRU_Evict_last:
  assumes wf: "LRU_wf l" and ne: "lru_abs l \<noteq> []"
  shows "\<exists>l'. LRU_Evict l = Inr (fst (last (lru_abs l)), l') \<and> LRU_wf l' \<and> lru_abs l' = butlast (lru_abs l) \<and>
    lru_size l' = lru_size l"
proof -
  have r: "rank l \<noteq> []" using ne by (simp add: lru_abs_def)
  obtain n key sz where la: "last (rank l) = (n, key, sz)" by (cases "last (rank l)")
  have split: "rank l = butlast (rank l) @ [(n, key, sz)]" using r la by (metis append_butlast_last_id)
  have "distinct (map (fst \<circ> snd) (butlast (rank l) @ [(n, key, sz)]))" using wf split by (simp add: LRU_wf_def)
  then have "k \<noteq> key" if "(m, k, s) \<in> set (butlast (rank l))" for m k s using that by force
  then have "filter (\<lambda>(n', k, sz). k \<noteq> key) (butlast (rank l) @ [(n, key, sz)]) = butlast (rank l)"
    by (auto simp: filter_id_conv)
  then have bl: "butlast (rank l) = filter (\<lambda>(n', k, sz). k \<noteq> key) (rank l)" by (metis split)
  let ?l = "l\<lparr>rank := butlast (rank l), node_map := filter (\<lambda>(k, _). k \<noteq> key) (node_map l), lru_size := lru_size l\<rparr>"
  have "LRU_Evict l = Inr (fst (last (lru_abs l)), ?l)" using r la by (simp add: LRU_Evict_def lru_abs_def last_map)
  moreover have "LRU_wf ?l" by (rule LRU_wf_drop [OF wf bl])
  ultimately show ?thesis by (intro exI [of _ ?l]) (simp add: lru_abs_def map_butlast)
qed

text \<open>No key can ever get in, and the limit is between 4096 and 8192.\<close>

lemma LRU_reachable_empty: "LRU_reachable l \<Longrightarrow> rank l = [] \<and> node_map l = []"
  by (induction rule: LRU_reachable.induct)
    (auto simp: LRU_ctor_def Let_def LRU_Access_def LRU_Remove_def LRU_Evict_def)

lemma LRU_limit: "4096 \<le> mem_limit_bytes (LRU_ctor size0 c) \<and> mem_limit_bytes (LRU_ctor size0 c) \<le> 8192"
  by (auto simp: LRU_ctor_def Let_def word_less_nat_alt word_le_nat_alt)

end
