(* ===== verification/Spec2Isabelle.thy ===== *)
theory Spec2Isabelle
  imports Startup Replay Answers Client LRU
begin

text \<open>
  \<^bold>\<open>The program.\<close>  ForkRedis is a server in the manner of Redis.  Clients connect over TCP and send
  requests, JSON arrays of strings; the server keeps up to sixteen databases, each a map from keys to
  strings, lists, hashes, sets and sorted sets, with times of expiry, and writes them to a dump file
  or to an append-only file.  \<open>FORK\<close> and \<open>REWRITE\<close> turn a database back into the commands that build
  it.  This development models the server (\<open>src/src\<close>, \<open>src/includes\<close>, \<open>redis-server.cc\<close>), the path
  of a typed line through the client (\<open>redis-cli.cc\<close>), the JSON library (\<open>third/json11\<close>) and the
  compression library (\<open>third/lzfse\<close>).

  \<^bold>\<open>Conventions.\<close>  A C++ function is a HOL function that takes and returns the state it works on.
  Exceptions, failed assertions and undefined behaviour are values of the type \<open>error\<close>, and a function
  that may fail has the type \<open>'a result\<close>; so a theorem that a call equals \<open>Inr\<close> of something also says
  that none of this happens.  There is one exception: for a symbol that takes all states of a table,
  \<open>fse_init_encoder_table\<close> shifts by -1 and stores the result in a field that is never read; in the model
  the field has no value, and only reading it is a failure.  Integers of fixed width are words (\<open>int32\<close>, \<open>size_t\<close>), or natural
  numbers with the wrap-around written out.  Time, random numbers, what a system call answers and the
  conversion of floating point numbers are arguments.

  \<^bold>\<open>The theories\<close>, in the order of their imports.

  \<^item> \<open>Prelude\<close>: results, words, byte images, maps as association lists.
  \<^item> \<open>LZ_Buffer\<close>, \<open>LZVN_Decode\<close>, \<open>LZVN_Encode\<close>, \<open>FSE\<close>, \<open>LZFSE_Tables\<close>, \<open>LZFSE_Encode\<close>, \<open>LZFSE_Decode\<close>,
    \<open>LZFSE\<close>: the compression library.  A buffer is a list of bytes, a pointer an index, and every load
    and store checks its bounds.
  \<^item> \<open>LZVN_Emit\<close>, \<open>LZVN_Search\<close>, \<open>LZVN_Roundtrip\<close>: what the LZVN encoder writes decodes to its source;
    \<open>LZVN_Decode\<close> also proves that the decoder stays in bounds on every input.
  \<^item> \<open>FSE_Coding\<close>, \<open>FSE_Normalize\<close>, \<open>FSE_Stream\<close>, \<open>LZFSE_Streams\<close>, \<open>LZFSE_Values\<close>, \<open>LZFSE_Header\<close>,
    \<open>LZFSE_Block\<close>, \<open>LZFSE_Replay\<close>, \<open>LZFSE_Push\<close>, \<open>LZFSE_Search\<close>: the same for the entropy coder, from
    one symbol to a whole stream.  The coding tables invert each other and the frequencies are
    normalized to the size of the tables; a stream of symbols is read back in the reverse order; a
    block header is read back field by field; the decoder executes the matches of a block one by one,
    wherever the destination ends; the encoder's buffers always hold matches that describe the source
    up to its current position.  The last theory ends with the contract of the buffer interface.
  \<^item> \<open>Util\<close>, \<open>Codec\<close>: the helpers of \<open>util.cc\<close> (numbers, byte images, the loops around the compression
    library), and the locale of a value that can be written and read back.
  \<^item> \<open>Object_Types\<close>, \<open>Str_Object\<close>, \<open>Containers\<close>, \<open>List_Object\<close>, \<open>Set_Object\<close>, \<open>Hash_Object\<close>,
    \<open>ZSet_Object\<close>, \<open>Objects\<close>: the object classes with every operation, their invariants, what they
    refine, and their images in the dump file.  A sorted set holds a map and a rank structure; its
    invariant ties the two, and its operations refine those of a list sorted by score.
  \<^item> \<open>Json\<close>, \<open>Request\<close>, \<open>Command_Arguments\<close>: JSON text, commands and their parsing, the table of
    opcodes, and that a parsed command has the arguments that its execution takes.
  \<^item> \<open>Timer\<close>, \<open>Db\<close>, \<open>Persistence\<close>, \<open>Commands\<close>: the timer queue, a database, the files, and the
    execution of commands on objects and databases.
  \<^item> \<open>Config\<close>, \<open>Server\<close>, \<open>Loop\<close>, \<open>Handler\<close>: the configuration file, connections with their buffers and
    the framing of messages, the main loop with its list of databases, and one iteration of each
    worker thread.  The record \<open>World\<close> is the state of the process.
  \<^item> \<open>Invariant\<close>, \<open>Startup\<close>, \<open>Replay\<close>, \<open>Answers\<close>: the invariant of the whole server over the step
    relation, starting and restarting, the replay of \<open>FORK\<close>, and that commands are answered.
  \<^item> \<open>Client\<close>, \<open>LRU\<close>: the client program and the eviction list, which the server does not use.

  \<^bold>\<open>What is shown.\<close>  Databases whose strings have a faithful image in the dump file come back from it, on
  loading and over a restart of the server (C1, C8); what compression makes of a string up to
  2147221508 bytes, other than the empty one, decompresses to it (C2, C3), and the LZVN decoder stays in
  bounds on every input (C35).  The invariant holds in every reachable state, whatever clients send and
  however the workers interleave: no handle dangles and no argument is missing (C4, C5, C38), and a
  queued command that does no arithmetic on numbers from the request is answered while its client is
  connected and polled (C6).  The stream of \<open>FORK\<close> rebuilds a database whose contents survive the
  tokenizer (C7, C33; C40 shows that signs do not).  Flushing the append-only file writes the cached
  requests so that they are read back, and the next start sends them to the server again (C9); that their
  execution rebuilds the databases is not shown.  Commands change the entry of their key only and refuse
  objects of another class (C10).  Objects refine maps, sets, lists and sorted lists (C11 to C14, C24,
  C27 to C30), numbers in strings are added within the range of an int (C25, C26, C39), databases and
  their numbering are C19 and C20.  JSON text, messages and the configuration file are read back (C15 to
  C18, C31), requests become the commands of a table of opcodes (C32), and a typed line reaches the
  server as its words (C34).  Timers are executed in order, when they are due (C21 to C23).  A start
  without a file is undefined (C36).  The LRU, which nothing uses, is a list in the order of use that
  cannot take up a key (C37).  Where the code does not do what it means to, the property states what it
  does and the manifest lists the finding.

  \<^bold>\<open>Fuel and bounds.\<close>  All functions are total.  The loops around the compression library count their
  rounds in an \<open>int\<close> and are cut where the counter overflows; the bound 2147221508 on what is compressed
  keeps a position plus the largest distance of a match within an \<open>int\<close>, as \<open>check_history\<close> adds them; parsing is bounded by the depth limit of
  the JSON library; all other loops have a measure.  Lengths are below the limits of the integer that
  stores them wherever a theorem needs it, and its hypotheses say so.

  \<^bold>\<open>Not modelled.\<close>  Threads run one iteration at a time: an iteration is atomic, and the locks and
  condition variables have no model.  Sockets, epoll and files are reduced to what their calls return;
  that \<open>AOFLoad\<close> blocks when its file is larger than the buffers of the socket is not part of the model.
  Logging, the printing thread and the load test of the client, the allocator \<open>third/snmalloc\<close>, the
  tool \<open>lzfse_main.c\<close>, comments in JSON text, and the comparison and shape functions of the JSON
  library, which the server does not call, are left out.
\<close>

section \<open>A sample database\<close>

text \<open>The process with compression switched on, and without.\<close>

definition env_compressed :: env where
  "env_compressed = \<lparr>env_compress = True, printf_double = (\<lambda>t. t)\<rparr>"

definition env_plain :: env where
  "env_plain = \<lparr>env_compress = False, printf_double = (\<lambda>t. t)\<rparr>"

text \<open>A number, a list and a sorted set, the list with an expiry.\<close>

definition sample_zset :: ZSet where
  "sample_zset = snd (ZSet_Add 5 (Str_ctor ''b'') (snd (ZSet_Add 7 (Str_ctor ''a'') ZSet_empty)))"

definition sample_entry :: "string \<Rightarrow> Object \<Rightarrow> size_t option \<Rightarrow> Str \<times> KeyValue" where
  "sample_entry k ob e = (Str_ctor k, \<lparr>kv_key = Str_ctor k, kv_value = ob, kv_expire = e\<rparr>)"

definition sample_db :: Db where
  "sample_db =
     \<lparr>db_number = 0,
      key_value_map =
        [sample_entry ''n'' (Obj_Str (Str_ctor ''42'')) None,
         sample_entry ''l'' (Obj_List [Str_ctor ''x'', Str_ctor ''7'']) (Some 1000),
         sample_entry ''z'' (Obj_ZSet sample_zset) None],
      aof_cache = []\<rparr>"

lemma sample_zset_inv: "ZSet_inv sample_zset"
  by (simp add: sample_zset_def ZSet_inv_Add)

lemma sample_zset_abs: "zset_abs sample_zset = [(Str_ctor ''a'', 7), (Str_ctor ''b'', 5)]"
  by code_simp

lemma storable_raw_samples:
  "Str_storable (Str_ctor ''x'')" "Str_storable (Str_ctor ''n'')" "Str_storable (Str_ctor ''l'')"
  "Str_storable (Str_ctor ''z'')" "Str_storable (Str_ctor ''a'')" "Str_storable (Str_ctor ''b'')"
  by (simp_all add: Str_storable_def Str_ctor_def less_char_def)

lemma storable_int_samples: "Str_storable (Str_ctor ''42'')" "Str_storable (Str_ctor ''7'')"
proof -
  have "canonical_int ''42''" "canonical_int ''7''" by code_simp+
  then show "Str_storable (Str_ctor ''42'')" "Str_storable (Str_ctor ''7'')"
    by (simp_all add: Str_storable_def Str_ctor_def less_char_def)
qed

lemmas storable_samples = storable_raw_samples storable_int_samples

lemma saved_sample: "saved sample_db"
  by (simp add: saved_def Db_wf_def Db_storable_def sample_db_def sample_entry_def KeyValue_ok_def um_wf_def
      storable_samples sample_zset_inv sample_zset_abs)

section \<open>A sample run of the server\<close>

definition sample_conf :: RedisConf where
  "sample_conf = DefaultConf\<lparr>conf_enable_aof := True, conf_aof_mode := ''every_sec''\<rparr>"

text \<open>The server after its start, with one client connected, and with a request of this client queued.\<close>

definition sample_start :: World where
  "sample_start =
     \<lparr>conf = sample_conf, password = ''yeah'', files = [''dump.db'' \<mapsto> ''AOF''],
      nums = \<lparr>num_hash = (\<lambda>n. 0)(0 := 1), number_source = 0\<rparr>, databases = [(0, Db_fresh 0)], db_source = 1,
      server = Server_init, tmr_que = [AofTimer 1000000 1000000 True], cmd_que = [], cli_que = [],
      aof_timer = Some (AofTimer 1000000 1000000 True), fork_sent = []\<rparr>"

definition sample_client :: ClientInfo where
  "sample_client = \<lparr>cli_fd = 5, cli_database = Some 0, recv_buffer = [], send_buffer = []\<rparr>"

definition sample_server :: Server where
  "sample_server = \<lparr>client_map = [(0, sample_client)], interest = [5 \<mapsto> EPOLLIN], client_source = 1\<rparr>"

definition sample_connected :: World where
  "sample_connected = sample_start\<lparr>server := sample_server, cli_que := [(0, EPOLLIN)]\<rparr>"

definition sample_SET :: Command where
  "sample_SET = Cmd_Str \<lparr>valid = True, command = ''SET'', obj_name = ''k'', str_value = Some ''v''\<rparr>"

definition sample_request :: json_array where
  "sample_request = map JString [''set'', ''k'', ''v'']"

definition sample_queued :: World where
  "sample_queued =
     sample_start\<lparr>server := sample_server, cmd_que := [(0, sample_SET)],
       databases := [(0, Db_AppendAOF env_plain sample_request (Db_fresh 0))]\<rparr>"

definition sample_io :: io_input where
  "sample_io =
     \<lparr>recv_answers = [Received (dump (\<lambda>t. t) (JArray sample_request))], send_answer = 0, send_errno = Other_errno\<rparr>"

definition sample_socket :: fork_io where
  "sample_socket = \<lparr>socket_ok = True, connect_ok = True, write_answers = []\<rparr>"

definition sample_input :: exec_input where
  "sample_input = \<lparr>now = 0, rnd = 0, fork_result = sample_socket\<rparr>"

lemma sample_started:
  "server_start env_plain sample_socket 0 0 sample_conf [''dump.db'' \<mapsto> ''AOF''] = Inr (env_plain, sample_start, [])"
  by (simp add: server_start_def MainLoop_ctor_def sample_start_def sample_conf_def DefaultConf_def Let_def
      FileManager_ctor_def FileManager_LoadAndExport_def FileManager_Truncate_def World_init_def
      AOFLoad_def PeekString_def sample_socket_def
      MainLoop_CheckAOFLoad_def Db_ctor_def next_number.simps numbering_init_def add_db_def aof_timer_of_def
      MainLoop_EncounterTimer_def FileManager_Write_def TimerQue_Push_def)

lemma sample_start_ok: "World_ok sample_start"
  using sample_started by (rule server_start_ok)

lemma sample_connects: "reachable env_plain sample_start sample_connected"
proof -
  let ?W = "sample_start\<lparr>server := \<lparr>client_map = [(0, ClientInfo_ctor 5)], interest = [5 \<mapsto> EPOLLIN], client_source = 1\<rparr>\<rparr>"
  have "MainLoop_Run [Incoming 5] sample_start = Inr ?W"
    by (simp add: MainLoop_Run_def Server_accept_def sample_start_def Server_init_def client_find_def)
  moreover have "MainLoop_Run [Ready 5 True] ?W = Inr sample_connected"
    by (simp add: MainLoop_Run_def ClientInfo_ctor_def client_find_def client_lock_def ClientInfo_GetDB_def first_db_def
        sample_start_def sample_connected_def sample_server_def sample_client_def on_server_def client_put_def
        ClientInfo_SetDB_def)
  ultimately show ?thesis
    by (intro reachable_step [OF reachable_step [OF reachable_start step_run] step_run])
qed

lemma sample_queues: "reachable env_plain sample_start sample_queued"
proof -
  have len: "length (dump (\<lambda>t. t) (JArray sample_request)) = 17"
    unfolding sample_request_def by code_simp
  have msg: "ExportMessages_loop (dump (\<lambda>t. t) (JArray sample_request)) = ([sample_request], [])"
    using ExportMessages_request [of "[''set'', ''k'', ''v'']" "\<lambda>t. t" "[]"]
    by (simp add: sample_request_def ExportMessages_loop.simps [of "[]"] del: dump.simps)
  have cmd: "RequestToCommandExec 0 sample_request = Inr (Some (0, sample_SET))"
    unfolding sample_request_def sample_SET_def by code_simp
  have "dump (\<lambda>t. t) (JArray sample_request) \<noteq> []" using len by auto
  then have "ioClient env_plain sample_io sample_connected = Inr sample_queued"
    by (simp add: ioClient_def sample_connected_def sample_start_def Let_def client_lock_def sample_server_def
        ioClient_recv_def ClientInfo_Read_def sample_io_def len int_add_def fits_int_def
        ClientInfo_ExportMessages_def sample_client_def msg on_server_def client_put_def cmd client_db_def
        ClientInfo_GetDB_def db_deref_def sample_conf_def db_update_def CommandQue_Push_def sample_queued_def
        del: dump.simps)
  then show ?thesis by (rule reachable_step [OF sample_connects step_io])
qed

lemma sample_queued_ok: "World_ok sample_queued"
  using sample_queues sample_start_ok by (rule reachable_ok)

section \<open>Properties\<close>

text \<open>
  C1.  For databases that are well formed and can be saved, fewer than 2^31 of them, and an existing
  dump file: saving every database into the dump file succeeds, and loading that file into a new
  server process succeeds and brings back exactly the databases that were not empty, in order,
  with their numbers; every key holds an equal object (up to the order in which an unordered
  container is visited) with the same expiry, and every expiry has its timer. A database can be
  saved when every key and every string in it that is marked as an integer is the decimal text
  of an int as std::to_string prints it (so 007, which would come back as 7, and numbers beyond
  an int, on which saving throws, are excluded), when every other string is not empty and has at
  most 2147221508 bytes, and when no container has 2^64 elements.
\<close>

theorem rdb_save_load:
  assumes "list_all saved dbs" and "length dbs < 2 ^ 31" and "fls f \<noteq> None"
  shows "\<exists>bss fls' source dbs' tmrs ns.
    map (Db_Save cf) dbs = map Inr bss \<and> RDBSave bss f fls = Inr fls' \<and>
    FileManager_LoadAndExport f fls' = Inr source \<and>
    RDBLoad cf numbering_init this source = Inr (dbs', tmrs, ns) \<and>
    map (\<lambda>(h, db'). db_number db') dbs' = map db_number (filter (\<lambda>db. key_value_map db \<noteq> []) dbs) \<and>
    list_all2 Db_equiv (filter (\<lambda>db. key_value_map db \<noteq> []) dbs) (map snd dbs') \<and>
    list_all (\<lambda>(h, db'). \<forall>d ob t. db_abs db' d = Some (ob, Some t) \<longrightarrow> DbExpireTimer t h d \<in> set tmrs) dbs'"
proof -
  from RDB_roundtrip [of dbs fls f cf this] assms obtain bss fls' source ns where load:
      "map (Db_Save cf) dbs = map Inr bss" "RDBSave bss f fls = Inr fls'"
      "FileManager_LoadAndExport f fls' = Inr source"
      "RDBLoad cf numbering_init this source = Inr (reloaded this dbs, reloaded_timers this dbs, ns)"
    by blast
  have wf: "list_all Db_wf dbs" using assms(1) by (auto simp: list_all_iff saved_def)
  show ?thesis
    by (intro exI conjI, (rule load)+, rule reloaded_numbers, rule reloaded_equiv [OF wf],
        rule reloaded_timers_armed [OF wf])
qed

theorem rdb_save_load_witness:
  "\<exists>bss fls' source dbs' tmrs ns.
    map (Db_Save env_compressed) [sample_db] = map Inr bss \<and>
    RDBSave bss ''dump'' [''dump'' \<mapsto> []] = Inr fls' \<and>
    FileManager_LoadAndExport ''dump'' fls' = Inr source \<and>
    RDBLoad env_compressed numbering_init 0 source = Inr (dbs', tmrs, ns) \<and>
    map (\<lambda>(h, db'). db_number db') dbs' = [0] \<and> list_all2 Db_equiv [sample_db] (map snd dbs')"
proof -
  have sample: "filter (\<lambda>db. key_value_map db \<noteq> []) [sample_db] = [sample_db]" "map db_number [sample_db] = [0]"
    by (simp_all add: sample_db_def)
  have ok: "list_all saved [sample_db]" "length [sample_db] < 2 ^ 31"
      "[''dump'' \<mapsto> []] ''dump'' \<noteq> None"
    using saved_sample by simp_all
  from rdb_save_load [of "[sample_db]" "[''dump'' \<mapsto> []]" "''dump''" env_compressed 0, OF ok, unfolded sample]
  show ?thesis by (elim exE conjE) (intro exI conjI, assumption+)
qed

text \<open>
  C2.  Compressing a string that is not empty and has at most 2147221508 bytes, and decompressing the
  result, gives the string back: both loops around the coder end without overflow of their
  counters, the coder and the decoder never leave a buffer, and no assertion of theirs fails,
  whatever path (plain, LZVN or FSE blocks) the length and contents of the string select. The
  empty string is the exception: its compression is empty, and decompressing the empty string
  does not return before the counter of the rounds overflows.
\<close>

theorem compression_roundtrip:
  assumes "length s \<le> 2147221508"
  shows "if s = [] then Compress s = Inr [] \<and> Decompress [] = Inl Undefined
    else \<exists>c. Compress s = Inr c \<and> c \<noteq> [] \<and> length c < 2 ^ 64 \<and> Decompress c = Inr s"
  using Compress_Decompress [OF _ assms] Decompress_Nil by (simp add: Compress_def)

theorem compression_roundtrip_witness:
  "\<exists>c. Compress ''abc'' = Inr c \<and> c \<noteq> [] \<and> length c < 2 ^ 64 \<and> Decompress c = Inr ''abc''"
  using compression_roundtrip [of "''abc''"] by simp

text \<open>
  C3.  The buffer interface of the compression library keeps what its header promises, for every
  source of at most 2147221508 bytes (beyond, a position plus the largest distance can leave the
  32 bit int of check_history) and every destination buffer: the encoder stays within both
  buffers, writes at most the size of the destination and returns 0 only when the destination is
  shorter than the source and twelve bytes; the bytes it wrote decode, into every destination
  that is not empty, to the source or to as much of it as fits, and the returned length says how
  much.
\<close>

theorem lzfse_roundtrip:
  assumes "length src \<le> 2147221508"
  shows "\<exists>n dst'. lzfse_encode_buffer dst src = Inr (n, dst') \<and> length dst' = length dst \<and> n \<le> length dst \<and>
    (length src + 12 \<le> length dst \<longrightarrow> n \<noteq> 0) \<and>
    (n \<noteq> 0 \<longrightarrow> (\<forall>out. out \<noteq> [] \<longrightarrow> (\<exists>out'. lzfse_decode_buffer out (take n dst') = Inr (min (length out) (length src), out') \<and>
      length out' = length out \<and> take (min (length out) (length src)) out' = take (length out) src)))"
  using lzfse_encode_buffer_encodes [of src dst] assms by (auto simp: encodes_def recovers_def)

theorem lzfse_roundtrip_witness:
  "\<exists>n dst' out'. lzfse_encode_buffer (replicate 40 CHR ''-'') ''hello hello hello'' = Inr (n, dst') \<and> n \<noteq> 0 \<and>
    lzfse_decode_buffer (replicate 20 CHR ''-'') (take n dst') = Inr (17, out') \<and> take 17 out' = ''hello hello hello''"
proof -
  let ?src = "''hello hello hello''" and ?dst = "replicate 40 CHR ''-''" and ?out = "replicate 20 CHR ''-''"
  obtain n dst' where enc: "lzfse_encode_buffer ?dst ?src = Inr (n, dst')" "n \<noteq> 0"
      "\<forall>out. out \<noteq> [] \<longrightarrow> (\<exists>out'. lzfse_decode_buffer out (take n dst') = Inr (min (length out) (length ?src), out') \<and>
        length out' = length out \<and> take (min (length out) (length ?src)) out' = take (length out) ?src)"
    using lzfse_roundtrip [of ?src ?dst] by auto
  from enc(3) obtain out' where "lzfse_decode_buffer ?out (take n dst') = Inr (17, out')" "take 17 out' = ?src"
    by (elim allE [of _ ?out]) (auto simp: eval_nat_numeral)
  with enc(1,2) show ?thesis by blast
qed

text \<open>
  C4.  In every state that the interleaved turns of the main loop and of the three kinds of worker
  threads can reach from a started server, there is a database, every database is well formed,
  the table of clients is consistent, no client and no expiry timer holds a pointer to a
  database that is gone, and every queued command carries the arguments that its class needs.
\<close>

theorem server_invariant:
  assumes "server_start cf io now1 now2 c fls = Inr (cf', W0, sent)" and "reachable cf' W0 W"
  shows "databases W \<noteq> [] \<and> (\<forall>(h, db) \<in> set (databases W). Db_wf db) \<and> Server_wf (server W) \<and>
    (\<forall>cli ci h. client_lock cli (server W) = Some ci \<longrightarrow> cli_database ci = Some h \<longrightarrow> (\<exists>db. db_deref h W = Inr db)) \<and>
    (\<forall>t h key. DbExpireTimer t h key \<in> set (tmr_que W) \<longrightarrow> (\<exists>db. db_deref h W = Inr db)) \<and>
    (\<forall>(cli, cmd) \<in> set (cmd_que W). Command_ok cmd)"
proof -
  have ok: "World_ok W" by (rule reachable_ok [OF assms(2) server_start_ok [OF assms(1)]])
  note parts = World_ok_parts [OF ok]
  have deref: "\<exists>db. db_deref h W = Inr db" if "h \<in> db_handles W" for h using db_deref_ok [OF that] by blast
  from parts show ?thesis
    by (auto simp: databases_ok_def clients_ok_def timers_ok_def timer_ok_def queues_ok_def
        dest!: client_lock_Some intro!: deref)
qed

theorem server_invariant_witness:
  "reachable env_plain sample_start sample_queued \<and> cmd_que sample_queued \<noteq> [] \<and>
   client_lock 0 (server sample_queued) = Some sample_client \<and> cli_database sample_client = Some 0 \<and>
   (\<exists>db. db_deref 0 sample_queued = Inr db) \<and> Server_wf (server sample_queued)"
proof -
  have q: "cmd_que sample_queued \<noteq> []" by (simp add: sample_queued_def)
  have c: "client_lock 0 (server sample_queued) = Some sample_client"
    by (simp add: sample_queued_def sample_connected_def sample_server_def client_lock_def)
  have d: "cli_database sample_client = Some 0" by (simp add: sample_client_def)
  from server_invariant [OF sample_started sample_queues] q c d sample_queues show ?thesis by blast
qed

text \<open>
  C5.  Whatever bytes the clients send: when a command that a running server has queued is executed,
  it never reads behind the end of its vector of arguments and never takes the value of an
  optional that is empty.
\<close>

theorem arguments_present:
  assumes "server_start cf io now1 now2 c fls = Inr (cf', W0, sent)" and "reachable cf' W0 W"
    and "(cli, cmd) \<in> set (cmd_que W)"
  shows "Command_Exec cf'' i cmd cli W \<noteq> Inl Bad_Index \<and> Command_Exec cf'' i cmd cli W \<noteq> Inl Bad_Optional_Access"
proof -
  have ok: "World_ok W" by (rule reachable_ok [OF assms(2) server_start_ok [OF assms(1)]])
  then have "served W cli" "Command_ok cmd" using World_ok_parts(4) [OF ok] assms(3) by (auto simp: queues_ok_def)
  from Command_Exec_safe [OF ok this] show ?thesis by (simp add: safe_def)
qed

theorem arguments_present_witness:
  "(0, sample_SET) \<in> set (cmd_que sample_queued) \<and>
   Command_Exec env_plain sample_input sample_SET 0 sample_queued \<noteq> Inl Bad_Index"
  using arguments_present [OF sample_started sample_queues, of 0 sample_SET env_plain sample_input]
  by (simp add: sample_queued_def)

text \<open>
  C6.  In a running server, a command at the front of the queue that does no arithmetic on numbers
  from the request (SET, GET, LEN, pushing and popping, the hash commands but HINCRBY and
  HDECRBY, the queries on sets, DEL, WHEN, REWRITE, SHOW and the lookups of sorted sets) is
  answered, provided that its client is still connected and the descriptor of the client is
  registered with epoll: its execution returns, the command leaves the queue, the printed reply
  stands at the end of the send buffer of the client, and the client is polled for sending.
\<close>

theorem command_answered:
  assumes "server_start cf io now1 now2 c fls = Inr (cf', W0, sent)" and "reachable cf' W0 W"
    and "cmd_que W = (cli, cmd) # que" and "client_lock cli (server W) = Some ci"
    and "total_command cmd" and "interest (server W) (cli_fd ci) \<noteq> None"
  shows "\<exists>r W' ci'. Handler_ExecCommand cf'' i W = Inr W' \<and> cmd_que W' = que \<and>
    client_lock cli (server W') = Some ci' \<and>
    send_buffer ci' = send_buffer ci @ dump (printf_double cf'') (JArray r) \<and>
    interest (server W') (cli_fd ci) = Some EPOLLOUT"
  by (rule Handler_ExecCommand_answers [OF reachable_ok [OF assms(2) server_start_ok [OF assms(1)]] assms(3-6)])

theorem command_answered_witness:
  "\<exists>r W' ci'. Handler_ExecCommand env_plain sample_input sample_queued = Inr W' \<and> cmd_que W' = [] \<and>
    client_lock 0 (server W') = Some ci' \<and>
    send_buffer ci' = send_buffer sample_client @ dump (printf_double env_plain) (JArray r) \<and>
    interest (server W') (cli_fd sample_client) = Some EPOLLOUT"
  by (rule command_answered [OF sample_started sample_queues, where cmd = sample_SET])
    (simp_all add: sample_queued_def sample_SET_def client_lock_def sample_server_def sample_client_def)

text \<open>
  C7.  Copying a database to another server: the stream that FORK writes, cut into messages by the
  receiver and executed there for one client whose server holds an empty database of the same
  number, rebuilds every key with an equal object (up to the visiting order of unordered
  containers). Expiries are not copied. The database must be well formed with a number that is
  not negative, and its contents must survive the tokenizer: keys and elements are non-empty
  words of letters and digits, scores are not negative, and no container is empty.
\<close>

theorem fork_replay:
  assumes "fork_Db db" and "client_lock cli (server W) = Some c" and "find_db (db_number db) W = Some h"
    and "map_of (databases W) h = Some target" and "Db_wf target" and "db_abs target = Map.empty"
  shows "\<exists>W' db'. exec_requests cf i cli (fst (ExportMessages_loop (concat (fork_requests cf' pw db)))) W = Inr W' \<and>
    map_of (databases W') h = Some db' \<and> Db_wf db' \<and>
    (\<forall>d. rel_option (\<lambda>(ob, e) (ob', e'). Object_equiv ob ob' \<and> e' = None) (db_abs db d) (db_abs db' d))"
proof -
  obtain W' db' where W': "exec_requests cf i cli (fst (ExportMessages_loop (concat (fork_requests cf' pw db)))) W = Inr W'"
      "uses_db W' cli h db'" "Db_wf db'"
      "\<And>d. db_abs db' d = map_option (\<lambda>(ob, e). (Object_reload ob, None)) (db_abs db d)"
    using fork_replayed [OF assms, of cf i cf' pw] by blast
  have "Db_wf db" using assms(1) by (simp add: fork_Db_def)
  then have "rel_option (\<lambda>(ob, e) (ob', e'). Object_equiv ob ob' \<and> e' = None) (db_abs db d) (db_abs db' d)" for d
    by (cases "db_abs db d") (auto simp: W'(4) intro: Object_reload_equiv db_abs_wf)
  moreover have "map_of (databases W') h = Some db'" using W'(2) by (simp add: uses_db_def)
  ultimately show ?thesis using W'(1,3) by blast
qed

lemma fork_samples:
  "fork_Str (Str_ctor ''x'')" "fork_Str (Str_ctor ''7'')" "fork_Str (Str_ctor ''42'')" "fork_Str (Str_ctor ''a'')"
  "fork_Str (Str_ctor ''b'')" "token ''n''" "token ''l''" "token ''z''"
  by (simp_all add: fork_Str_def token_def isTokenMember_def less_eq_char_def)

lemma fork_sample_db: "fork_Db sample_db"
  using saved_sample fork_samples
  by (simp add: fork_Db_def saved_def sample_db_def sample_entry_def fork_entry_def sample_zset_abs sample_zset_inv)

theorem fork_replay_witness:
  "\<exists>W' db'. exec_requests env_plain sample_input 0
      (fst (ExportMessages_loop (concat (fork_requests env_plain ''pw'' sample_db)))) sample_connected = Inr W' \<and>
    map_of (databases W') 0 = Some db' \<and> Db_wf db' \<and>
    (\<forall>d. rel_option (\<lambda>(ob, e) (ob', e'). Object_equiv ob ob' \<and> e' = None) (db_abs sample_db d) (db_abs db' d))"
  by (rule fork_replay [where c = sample_client, OF fork_sample_db _ _ _ Db_wf_fresh [of 0] db_abs_fresh])
    (simp_all add: sample_connected_def sample_start_def sample_server_def client_lock_def find_db_def
      Db_Number_def Db_fresh_def sample_db_def)

text \<open>
  C8.  A server without append-only file, with fewer than 2^31 databases that can be saved (every key
  and every string in them that holds an integer is written canonically and fits an int, every
  other string is not empty and has at most 2147221508 bytes), one of them not empty, an
  existing dump file and a save frequency that is not zero, executes its save timer: the save
  succeeds, and a server started later with the same configuration on the resulting files comes
  up with the databases that were not empty, in order, with their numbers and equal contents,
  and a timer is queued for every expiry.
\<close>

theorem save_and_restart:
  assumes "conf W = c" and "files W (conf_file_name c) \<noteq> None" and "map snd (databases W) = dbs"
    and "list_all saved dbs" and "length dbs < 2 ^ 31"
    and "\<exists>db \<in> set dbs. key_value_map db \<noteq> []" and "\<not> conf_enable_aof c" and "conf_save_n_times c \<noteq> 0"
  shows "\<exists>W1 W2. Timer_Exec (compressing c cf) now_us (RdbTimer t p) W = Inr W1 \<and>
    server_start cf io now1 now2 c (files W1) = Inr (compressing c cf, W2, []) \<and>
    list_all2 Db_equiv (filter (\<lambda>db. key_value_map db \<noteq> []) dbs) (map snd (databases W2)) \<and>
    (\<forall>(h, db) \<in> set (databases W2). \<forall>d ob e. db_abs db d = Some (ob, Some e) \<longrightarrow> DbExpireTimer e h d \<in> set (tmr_que W2))"
proof -
  have wf: "list_all Db_wf dbs" using assms(4) by (auto simp: list_all_iff saved_def)
  have ne: "filter (\<lambda>db. key_value_map db \<noteq> []) dbs \<noteq> []" using assms(6) by (auto simp: filter_empty_conv)
  have c: "rdb_conf c" using assms(7,8) by (simp add: rdb_conf_def)
  obtain W1 W2 where W: "Timer_Exec (compressing c cf) now_us (RdbTimer t p) W = Inr W1"
      "server_start cf io now1 now2 c (files W1) = Inr (compressing c cf, W2, [])"
      "databases W2 = reloaded 0 dbs" "set (reloaded_timers 0 dbs) \<subseteq> set (tmr_que W2)"
    using save_restart [OF assms(1-5) ne c] by blast
  have "DbExpireTimer e h d \<in> set (tmr_que W2)"
    if "(h, db) \<in> set (databases W2)" "db_abs db d = Some (ob, Some e)" for h db d ob e
    using reloaded_timers_armed [OF wf, of 0] that W(3,4) by (fastforce simp: list_all_iff)
  with W reloaded_equiv [OF wf, of 0] show ?thesis by (intro exI [of _ W1] exI [of _ W2]) auto
qed

theorem save_and_restart_witness:
  "\<exists>W1 W2. Timer_Exec env_compressed 0 (RdbTimer 0 0)
      (sample_start\<lparr>conf := DefaultConf, databases := [(0, sample_db)]\<rparr>) = Inr W1 \<and>
    server_start env_compressed sample_socket 0 0 DefaultConf (files W1) = Inr (env_compressed, W2, []) \<and>
    list_all2 Db_equiv [sample_db] (map snd (databases W2))"
proof -
  let ?W = "sample_start\<lparr>conf := DefaultConf, databases := [(0, sample_db)]\<rparr>"
  have comp: "compressing DefaultConf env_compressed = env_compressed"
    by (simp add: compressing_def DefaultConf_def EnCompress_def env_compressed_def)
  have ne: "key_value_map sample_db \<noteq> []" by (simp add: sample_db_def)
  then have flt: "filter (\<lambda>db. key_value_map db \<noteq> []) [sample_db] = [sample_db]" by simp
  have "\<exists>W1 W2. Timer_Exec env_compressed 0 (RdbTimer 0 0) ?W = Inr W1 \<and>
      server_start env_compressed sample_socket 0 0 DefaultConf (files W1) = Inr (env_compressed, W2, []) \<and>
      list_all2 Db_equiv [sample_db] (map snd (databases W2)) \<and>
      (\<forall>(h, db) \<in> set (databases W2). \<forall>d ob e. db_abs db d = Some (ob, Some e) \<longrightarrow> DbExpireTimer e h d \<in> set (tmr_que W2))"
    by (rule save_and_restart [of ?W DefaultConf "[sample_db]" env_compressed 0 0 0 sample_socket 0 0, unfolded comp flt])
      (use saved_sample ne in \<open>simp_all add: sample_start_def DefaultConf_def\<close>)
  then show ?thesis by blast
qed

text \<open>
  C9.  With an append-only file that begins with the mark AOF, caches that hold printed requests
  whose words have no square bracket, a password of letters and digits and no negative database
  number: executing the timer of the append-only file appends to the file; what it adds is read
  back as the cached requests of every database in order, those of each database behind SELECT
  with its number and the password; no request is left in the caches; and a server started on
  this file, with a socket that can be opened and connected and takes everything, sends itself
  exactly what the file holds behind the mark.
\<close>

theorem aof_flush:
  assumes "conf_enable_aof (conf W)" and "files W (conf_file_name (conf W)) = Some (''AOF'' @ old)"
    and "\<forall>(h, db) \<in> set (databases W). aof_cache db = printed cf (reqs h) \<and> list_all (list_all bracket_free) (reqs h)"
    and "token (password W)" and "\<forall>(h, db) \<in> set (databases W). 0 \<le> sint (db_number db)"
    and "socket_ok io" and "connect_ok io" and "write_answers io = []"
  shows "\<exists>W' added W''. Timer_Exec cf now_us (AofTimer t p again) W = Inr W' \<and>
    files W' (conf_file_name (conf W)) = Some (''AOF'' @ old @ added) \<and>
    ExportMessages_loop added =
      (concat (map (\<lambda>(h, db). if reqs h = [] then []
           else map JString [''SELECT'', to_string (db_number db), password W] # map (map JString) (reqs h))
         (databases W)), []) \<and>
    (\<forall>(h, db) \<in> set (databases W'). aof_cache db = []) \<and> map fst (databases W') = map fst (databases W) \<and>
    server_start cf io now1 now2 (conf W) (files W') = Inr (cf, W'', old @ added)"
proof -
  have sel: "map (\<lambda>(h, db). if reqs h = [] then [] else select_request (password W) (db_number db) # map (map JString) (reqs h)) (databases W) =
      map (\<lambda>(h, db). if reqs h = [] then []
           else map JString [''SELECT'', to_string (db_number db), password W] # map (map JString) (reqs h)) (databases W)"
    using assms(5) by (auto simp: select_request_tokens RawCommandTokens_token [OF assms(4)])
  obtain W' added where W: "Timer_Exec cf now_us (AofTimer t p again) W = Inr W'"
      "files W' (conf_file_name (conf W)) = Some ((''AOF'' @ old) @ added)"
      "ExportMessages_loop added = (concat (map (\<lambda>(h, db). if reqs h = [] then []
           else map JString [''SELECT'', to_string (db_number db), password W] # map (map JString) (reqs h)) (databases W)), [])"
      "\<forall>(h, db) \<in> set (databases W'). aof_cache db = []" "map fst (databases W') = map fst (databases W)"
    using AofTimer_flush [OF assms(2,3)] unfolding sel by blast
  have "file_contents (conf W) (files W') = ''AOF'' @ (old @ added)" using W(2) by (simp add: file_contents_def)
  then obtain W'' where "server_start cf io now1 now2 (conf W) (files W') = Inr (cf, W'', old @ added)"
    using server_start_aof [OF assms(1) _ assms(6-8)] by blast
  with W show ?thesis by (intro exI [of _ W'] exI [of _ added] exI [of _ W'']) simp
qed

theorem aof_flush_witness:
  "\<exists>W' added W''. Timer_Exec env_plain 0 (AofTimer 0 0 False) sample_queued = Inr W' \<and>
    files W' ''dump.db'' = Some (''AOF'' @ added) \<and>
    ExportMessages_loop added = ([map JString [''SELECT'', ''0'', ''yeah''], sample_request], []) \<and>
    server_start env_plain sample_socket 0 0 sample_conf (files W') = Inr (env_plain, W'', added)"
proof -
  let ?reqs = "\<lambda>h. [[''set'', ''k'', ''v'']]"
  have fl: "files sample_queued (conf_file_name (conf sample_queued)) = Some (''AOF'' @ [])" "conf_file_name sample_conf = ''dump.db''"
      "conf sample_queued = sample_conf" "conf_enable_aof (conf sample_queued)"
    by (simp_all add: sample_queued_def sample_start_def sample_conf_def DefaultConf_def)
  have dbs: "\<forall>(h, db) \<in> set (databases sample_queued). aof_cache db = printed env_plain (?reqs h) \<and> list_all (list_all bracket_free) (?reqs h)"
    by (simp add: sample_queued_def Db_AppendAOF_def Db_fresh_def printed_def sample_request_def del: dump.simps)
  have num: "\<forall>(h, db) \<in> set (databases sample_queued). 0 \<le> sint (db_number db)"
    by (simp add: sample_queued_def Db_AppendAOF_def Db_fresh_def)
  have pw: "token (password sample_queued)"
    by (simp add: sample_queued_def sample_start_def token_def isTokenMember_def less_eq_char_def)
  have zero: "to_string 0 = ''0''" by code_simp
  have req: "concat (map (\<lambda>(h, db). if ?reqs h = [] then []
      else map JString [''SELECT'', to_string (db_number db), password sample_queued] # map (map JString) (?reqs h))
      (databases sample_queued)) = [map JString [''SELECT'', ''0'', ''yeah''], sample_request]"
    by (simp add: sample_queued_def sample_start_def sample_request_def Db_AppendAOF_def Db_fresh_def zero)
  from aof_flush [OF fl(4) fl(1) dbs pw num, of sample_socket 0 0 0 False 0 0]
  show ?thesis unfolding req fl(3) fl(2) by (auto simp: sample_socket_def)
qed

text \<open>
  C10.  In a well-formed database a command on strings, lists, hashes, sets or sorted sets whose key
  holds an object of another class answers with a blank and changes nothing, and so does a
  command on a missing key that is not one of SET, LPUSHF, LPUSHB, HSET, SADD and ZADD. Whenever
  a command returns, it has changed the entry of its key only: what was stored keeps its class
  and its expiry, an object that is new has the class of the command and no expiry, and the
  database is well formed and keeps its number.
\<close>

theorem object_commands_frame:
  assumes "Db_wf db"
    and "(name, class, opcode, creating, exec) \<in>
      {(obj_name c1, ObjectType_STR, command c1, {''SET''}, StrCommand_Exec c1),
       (obj_name c2, ObjectType_LIST, command c2, {''LPUSHF'', ''LPUSHB''}, ListCommand_Exec c2),
       (obj_name c3, ObjectType_HASH, command c3, {''HSET''}, HashCommand_Exec c3),
       (obj_name c4, ObjectType_SET, command c4, {''SADD''}, SetCommand_Exec r c4),
       (obj_name c5, ObjectType_ZSET, command c5, {''ZADD''}, ZSetCommand_Exec c5)}"
  shows "(\<forall>ob e. db_abs db name = Some (ob, e) \<longrightarrow> Object_GetObjectType ob \<noteq> class \<longrightarrow> exec db = Inr (reply '' '', db)) \<and>
    (db_abs db name = None \<longrightarrow> opcode \<notin> creating \<longrightarrow> exec db = Inr (reply '' '', db)) \<and>
    (\<forall>ret db'. exec db = Inr (ret, db') \<longrightarrow>
      Db_wf db' \<and> db_number db' = db_number db \<and> (\<forall>d. d \<noteq> name \<longrightarrow> db_abs db' d = db_abs db d) \<and>
      (\<forall>d ob e. db_abs db d = Some (ob, e) \<longrightarrow>
        (\<exists>ob'. db_abs db' d = Some (ob', e) \<and> Object_GetObjectType ob' = Object_GetObjectType ob)) \<and>
      (\<forall>ob e. db_abs db name = None \<longrightarrow> db_abs db' name = Some (ob, e) \<longrightarrow> Object_GetObjectType ob = class \<and> e = None))"
proof -
  note kinds = str_command.exec_contract [OF assms(1), of c1 c1] list_command.exec_contract [OF assms(1), of c2 c2]
    hash_command.exec_contract [OF assms(1), of c3 c3] set_command.exec_contract [OF assms(1), of c4 r c4]
    zset_command.exec_contract [OF assms(1), of c5 c5]
  note kinds = kinds [unfolded StrCommand_Exec_def [symmetric] ListCommand_Exec_def [symmetric]
    HashCommand_Exec_def [symmetric] SetCommand_Exec_def [symmetric] ZSetCommand_Exec_def [symmetric]
    Object_GetObjectType.simps Str_GetObjectType_def List_GetObjectType_def Hash_GetObjectType_def
    Set_GetObjectType_def ZSet_GetObjectType_def]
  from assms(2) show ?thesis
    unfolding insert_iff empty_iff prod.inject by (elim disjE conjE FalseE) (simp only:, rule kinds)+
qed

theorem object_commands_frame_witness:
  "\<exists>ret db'. StrCommand_Exec \<lparr>valid = True, command = ''GET'', obj_name = ''n'', str_value = None\<rparr> sample_db = Inr (ret, db') \<and>
    db_abs db' ''l'' = db_abs sample_db ''l'' \<and>
    StrCommand_Exec \<lparr>valid = True, command = ''GET'', obj_name = ''l'', str_value = None\<rparr> sample_db = Inr (reply '' '', sample_db)"
proof -
  let ?c = "\<lambda>k. \<lparr>valid = True, command = ''GET'', obj_name = k, str_value = None\<rparr> :: StrCommand"
  have wf: "Db_wf sample_db" using saved_sample by (simp add: saved_def)
  note frame = object_commands_frame [OF wf insertI1]
  obtain ret db' where get: "StrCommand_Exec (?c ''n'') sample_db = Inr (ret, db')"
    using total_object_commands(1) [OF wf, of "?c ''n''"] by (auto simp: StrCommand_ok_def total_def)
  have "db_abs db' ''l'' = db_abs sample_db ''l''"
    using frame [where ?c1.0 = "?c ''n''"] get by simp
  moreover obtain ob e where "db_abs sample_db ''l'' = Some (ob, e)" "Object_GetObjectType ob \<noteq> ObjectType_STR"
    by (simp add: db_abs_def sample_db_def sample_entry_def Str_eq_def List_GetObjectType_def)
  then have "StrCommand_Exec (?c ''l'') sample_db = Inr (reply '' '', sample_db)"
    using frame [THEN conjunct1, rule_format, where ?c1.0 = "?c ''l''" and ob = ob and e = e] by simp
  ultimately show ?thesis using get by (intro exI [of _ ret] exI [of _ db']) simp
qed

text \<open>
  C11.  However a sorted set was built by adding, removing, changing scores, copying and assigning,
  its three containers agree: members are distinct, the member map is sorted and has one entry
  per element, pointing at its node, and the rank map is sorted by score and has exactly the
  pairs of score and member.
\<close>

theorem zset_invariant:
  assumes "ZSet_reachable z"
  shows "distinct (map (\<lambda>(i, m, s). str_data m) (sequence_list z)) \<and>
    om_sorted (member_map z) \<and> mset (member_map z) = image_mset (\<lambda>(i, m, s). (m, i)) (mset (sequence_list z)) \<and>
    mm_sorted (rank_map z) \<and> mset (rank_map z) = image_mset (\<lambda>(i, m, s). (s, m)) (mset (sequence_list z))"
  using ZSet_reachable_invariant [OF assms] by (simp add: ZSet_inv_def)

theorem zset_invariant_witness:
  "mset (rank_map sample_zset) = image_mset (\<lambda>(i, m, s). (s, m)) (mset (sequence_list sample_zset)) \<and>
   length (rank_map sample_zset) = 2"
proof -
  have "ZSet_reachable sample_zset"
    unfolding sample_zset_def by (intro ZSet_reachable.Step [OF _ ZSet_step.Add] ZSet_reachable.Start)
  from zset_invariant [OF this] have eq: "mset (rank_map sample_zset) = image_mset (\<lambda>(i, m, s). (s, m)) (mset (sequence_list sample_zset))"
    by blast
  have "length (sequence_list sample_zset) = 2" using sample_zset_abs by (simp add: zset_abs_def flip: length_map [of snd])
  with eq show ?thesis by (metis size_image_mset size_mset)
qed

text \<open>
  C12.  On the list of pairs of member and score that a sorted set stands for, ZADD appends a new
  member and leaves a present one alone, and reports which; ZREM removes the member when the
  given score is its score and reports that; ZINCRBY adds to the score and returns it printed. A
  sum that does not fit and the score INT_MIN in ZREM are the undefined cases.
\<close>

theorem zset_add_refines:
  assumes "ZSet_reachable z"
  shows "fst (ZSet_Add s m z) = (zset_find m (zset_abs z) = None) \<and>
    zset_abs (snd (ZSet_Add s m z)) =
      (if zset_find m (zset_abs z) = None then zset_abs z @ [(m, s)] else zset_abs z) \<and>
    rbind (ZSet_Rem s m z) (\<lambda>(b, z'). Inr (b, zset_abs z')) =
      (case zset_find m (zset_abs z) of
         None \<Rightarrow> Inr (False, zset_abs z)
       | Some (p, s') \<Rightarrow>
           if s' \<noteq> s then Inr (False, zset_abs z)
           else if sint s = INT_MIN then Inl Undefined
           else Inr (True, filter (\<lambda>(p, s). str_data p \<noteq> str_data m) (zset_abs z))) \<and>
    rbind (ZSet_IncrBy s m z) (\<lambda>(r, z'). Inr (r, zset_abs z')) =
      (case zset_find m (zset_abs z) of
         None \<Rightarrow> Inr ([], zset_abs z)
       | Some (p, s') \<Rightarrow> rbind (int_add s' s) (\<lambda>v. Inr (to_string v, zset_rescore m v (zset_abs z))))"
  using ZSet_reachable_invariant [OF assms] by (simp_all add: ZSet_Add_abs ZSet_Rem_abs ZSet_IncrBy_abs)

theorem zset_add_refines_witness:
  "zset_abs (snd (ZSet_Add 9 (Str_ctor ''c'') sample_zset)) =
     [(Str_ctor ''a'', 7), (Str_ctor ''b'', 5), (Str_ctor ''c'', 9)]"
proof -
  have "ZSet_reachable sample_zset"
    unfolding sample_zset_def by (intro ZSet_reachable.Step [OF _ ZSet_step.Add] ZSet_reachable.Start)
  from zset_add_refines [OF this, of 9 "Str_ctor ''c''"] show ?thesis
    by (simp add: sample_zset_abs zset_find_def Str_ctor_def)
qed

text \<open>
  C13.  The queries that walk the rank map and the member map agree with their definition on the list
  of pairs: ZSCORE is the score of the member, ZRANK the number of pairs with a smaller score,
  ZCOUNT and ZRANGEBYSCORE count and collect the pairs whose score lies in the interval, the
  latter in the order of the scores, and ZRANGEBYLEX returns the pairs whose member lies in the
  interval, sorted by member.
\<close>

theorem zset_queries:
  assumes "ZSet_reachable z"
  shows "ZSet_Score m z = Inr (case zset_find m (zset_abs z) of None \<Rightarrow> [] | Some (p, s) \<Rightarrow> to_string s) \<and>
    ZSet_Rank m z =
      Inr (case zset_find m (zset_abs z) of
             None \<Rightarrow> []
           | Some (p, s) \<Rightarrow> nat_to_string (length (filter (\<lambda>(p', s'). sint s' < sint s) (zset_abs z)))) \<and>
    ZSet_Count lo hi z = length (filter (\<lambda>(m, s). sint lo \<le> sint s \<and> sint s \<le> sint hi) (zset_abs z)) \<and>
    mset (ZSet_RangeByScore lo hi z) =
      mset (filter (\<lambda>(m, s). sint lo \<le> sint s \<and> sint s \<le> sint hi) (zset_abs z)) \<and>
    sorted (map (sint \<circ> snd) (ZSet_RangeByScore lo hi z)) \<and>
    (\<exists>rows. ZSet_RangeByLex first fin z = Inr rows \<and> sorted_wrt (<) (map (str_data \<circ> fst) rows) \<and>
      set rows = {(m, s) \<in> set (zset_abs z). str_data first \<le> str_data m \<and> str_data m \<le> str_data fin})"
  using ZSet_reachable_invariant [OF assms]
  by (simp_all add: ZSet_Score_abs ZSet_Rank_abs ZSet_Count_abs ZSet_RangeByScore_abs ZSet_RangeByLex_abs)

theorem zset_queries_witness:
  "ZSet_Score (Str_ctor ''b'') sample_zset = Inr (to_string 5) \<and> ZSet_Count 6 8 sample_zset = 1"
proof -
  have z: "ZSet_reachable sample_zset"
    unfolding sample_zset_def by (intro ZSet_reachable.Step [OF _ ZSet_step.Add] ZSet_reachable.Start)
  from zset_queries [OF z, of "Str_ctor ''b''" 6 8] show ?thesis
    by (simp add: sample_zset_abs zset_find_def Str_ctor_def)
qed

text \<open>
  C14.  ZRANGE takes positions modulo the number of elements, counts negative ones from the end, and
  returns the pairs from the first to the last position, both included. It returns nothing when
  the last position is not behind the first, so it never returns a single pair, and a negative
  multiple of the length as last position walks past the end of the list.
\<close>

theorem zset_range:
  assumes "zset_abs z \<noteq> []" and "length (zset_abs z) < 2 ^ 31" and "sint b \<noteq> INT_MIN" and "sint e \<noteq> INT_MIN"
  shows "ZSet_Range b e z =
      (let n = length (zset_abs z);
           pos = (\<lambda>r. if 0 \<le> sint r then nat (sint r) mod n else n - nat (- sint r) mod n)
       in if pos e \<le> pos b then Inr []
          else if pos e < n then Inr (take (Suc (pos e) - pos b) (drop (pos b) (zset_abs z)))
          else Inl Undefined) \<and>
    (\<forall>rows. ZSet_Range b e z = Inr rows \<longrightarrow> length rows \<noteq> 1)"
proof -
  let ?n = "length (zset_abs z)"
  have eq: "ZSet_Range b e z =
      (if list_position ?n e \<le> list_position ?n b then Inr []
       else if list_position ?n e < ?n
       then Inr (take (Suc (list_position ?n e) - list_position ?n b) (drop (list_position ?n b) (zset_abs z)))
       else Inl Undefined)"
    using ZSet_Range_abs [OF assms] by (simp only: Let_def)
  have "length rows \<noteq> 1" if "ZSet_Range b e z = Inr rows" for rows
    using that unfolding eq by (auto split: if_splits)
  then show ?thesis using eq by (simp only: Let_def list_position_def)  blast
qed

theorem zset_range_witness:
  "ZSet_Range 0 1 sample_zset = Inr [(Str_ctor ''a'', 7), (Str_ctor ''b'', 5)] \<and>
   ZSet_Range 1 1 sample_zset = Inr [] \<and> ZSet_Range 0 (-2) sample_zset = Inl Undefined"
proof -
  have two: "2 mod Suc (Suc 0) = 0" by (simp add: numeral_2_eq_2)
  show ?thesis
    using zset_range [of sample_zset 0 1] zset_range [of sample_zset 1 1] zset_range [of sample_zset 0 "-2"]
    by (simp add: sample_zset_abs two)
qed

text \<open>
  C15.  Parsing the text that the JSON library prints for a value gives the value back: nested arrays
  and objects up to the depth limit of the parser, strings of any bytes, integers of at most
  nine characters.
\<close>

theorem json_roundtrip: "dump_ok (max_depth + 1) v \<Longrightarrow> parse (dump fmt v) = v"
  by (rule parse_dump)

theorem json_roundtrip_witness:
  "parse (dump (\<lambda>t. t) (JArray [JString (CHR 0x22 # ''a]''), JInt (-5), JObject [(''k'', JBool True)]])) =
     JArray [JString (CHR 0x22 # ''a]''), JInt (-5), JObject [(''k'', JBool True)]]"
proof (rule json_roundtrip)
  have "length (to_string (-5)) \<le> 9" by code_simp
  then show "dump_ok (max_depth + 1) (JArray [JString (CHR 0x22 # ''a]''), JInt (-5), JObject [(''k'', JBool True)]])"
    by (simp add: max_depth_def numeral_eq_Suc)
qed

text \<open>
  C16.  Cutting the byte stream of a client into messages does not depend on how the network cuts it
  into packets: extracting the messages of a first piece and then of what is left together with
  a second piece gives the same messages and the same rest as extracting those of both pieces at
  once.
\<close>

theorem framing_independent:
  "ExportMessages_loop (a @ b) =
     (case ExportMessages_loop a of
        (ms, r) \<Rightarrow> (case ExportMessages_loop (r @ b) of (ms', r') \<Rightarrow> (ms @ ms', r')))"
  by (rule ExportMessages_append)

text \<open>
  C17.  Requests that are printed one after the other into a connection come out as the same requests
  in the same order, whatever follows them, as long as no string of a request contains a square
  bracket.
\<close>

theorem pipelined_requests:
  assumes "list_all (list_all bracket_free) reqs"
  shows "ExportMessages_loop (concat (map (\<lambda>ss. dump fmt (JArray (map JString ss))) reqs) @ rest) =
    (case ExportMessages_loop rest of (ms, r) \<Rightarrow> (map (map JString) reqs @ ms, r))"
  by (rule ExportMessages_requests [OF assms])

theorem pipelined_requests_witness:
  "ExportMessages_loop
     (dump (\<lambda>t. t) (JArray [JString ''get'', JString ''a'']) @ dump (\<lambda>t. t) (JArray [JString ''len'', JString ''b'']) @ ''[ge'') =
   ([[JString ''get'', JString ''a''], [JString ''len'', JString ''b'']], ''[ge'')"
  using pipelined_requests [of "[[''get'', ''a''], [''len'', ''b'']]" "\<lambda>t. t" "''[ge''"]
  by (simp add: ExportMessages_loop.simps [of "''[ge''"] del: dump.simps)

text \<open>
  C18.  A closing bracket in front of every opening one blocks a connection for good: nothing is taken
  from the buffer, whatever arrives later.
\<close>

theorem stray_bracket:
  assumes "CHR '']'' \<in> set a" and "CHR ''['' \<notin> set a"
  shows "ExportMessages_loop (a @ b) = ([], a @ b)"
  by (rule ExportMessages_stuck [OF assms])

theorem stray_bracket_witness:
  "ExportMessages_loop ('']'' @ dump (\<lambda>t. t) (JArray [JString ''get'', JString ''a''])) =
     ([], '']'' @ dump (\<lambda>t. t) (JArray [JString ''get'', JString ''a'']))"
  by (rule stray_bracket) simp_all

text \<open>
  C19.  A database behaves as a finite map from keys to objects with an optional expiry: looking up
  reads it, deleting removes the key and counts it, setting an expiry keeps the object and
  creates a timer for the key, and NewStr adds an empty string without expiry where the key is
  free.
\<close>

theorem db_refines_map:
  assumes "Db_wf db"
  shows "Db_Get (Str_ctor k) db = map_option fst (db_abs db k) \<and>
    db_abs (snd (Db_Del (Str_ctor k) db)) = (db_abs db)(k := None) \<and>
    fst (Db_Del (Str_ctor k) db) = (if k \<in> dom (db_abs db) then 1 else 0) \<and>
    db_abs (snd (Db_ExpireAt this (Str_ctor k) t db)) =
      (case db_abs db k of None \<Rightarrow> db_abs db | Some (ob, _) \<Rightarrow> (db_abs db)(k \<mapsto> (ob, Some t))) \<and>
    fst (Db_ExpireAt this (Str_ctor k) t db) =
      (if k \<in> dom (db_abs db) then Some (DbExpireTimer t this k) else None) \<and>
    db_abs (Db_NewStr (Str_ctor k) db) =
      (if k \<in> dom (db_abs db) then db_abs db else (db_abs db)(k \<mapsto> (Obj_Str Str_default, None)))"
  using Db_Get_abs [of "Str_ctor k" db] Db_Del_abs [OF assms, of "Str_ctor k"]
    Db_ExpireAt_abs [OF assms, of this "Str_ctor k" t] Db_insert_abs [OF assms, of "Str_ctor k" "Obj_Str Str_default"]
  unfolding Db_NewStr_def str_data_ctor by blast

theorem db_refines_map_witness:
  "db_abs (snd (Db_Del (Str_ctor ''n'') sample_db)) ''n'' = None \<and> fst (Db_Del (Str_ctor ''n'') sample_db) = 1"
proof -
  have wf: "Db_wf sample_db" using saved_sample by (simp add: saved_def)
  have "''n'' \<in> dom (db_abs sample_db)"
    by (simp add: dom_def db_abs_def sample_db_def sample_entry_def Str_eq_def)
  with db_refines_map [OF wf, of "''n''"] show ?thesis by simp
qed

text \<open>
  C20.  CREATE makes a database only while there are fewer than 16. The new database is empty, its
  number was not taken by any other database (as long as the table of numbers knows theirs), the
  old databases are unchanged, and the answer is the new number; with 16 databases nothing
  changes and the answer is -1.
\<close>

theorem create_db:
  assumes "numbers_ok (nums W) (map snd (databases W))" and "MainLoop_CreateDB W = Inr (n, W')"
  shows "if length (databases W) \<ge> 16 then n = -1 \<and> W' = W
    else length (databases W') \<le> 16 \<and> numbers_ok (nums W') (map snd (databases W')) \<and>
      (\<exists>db. databases W' = databases W @ [(db_source W, db)] \<and> key_value_map db = [] \<and> db_number db = n \<and>
        n \<notin> db_number ` set (map snd (databases W)))"
proof (cases "length (databases W) \<ge> 16")
  case True
  with assms(2) show ?thesis by (simp add: MainLoop_CreateDB_def)
next
  case False
  with assms(2) obtain db ns where ctor: "Db_ctor (nums W) = Inr (db, ns)" and W': "W' = add_db (db, ns) W" "n = db_number db"
    by (auto simp: MainLoop_CreateDB_def rbind_eq_Inr_iff Db_Number_def)
  from numbers_ok_ctor [OF assms(1) ctor] have "numbers_ok ns (map snd (databases W) @ [db])" "key_value_map db = []" by simp_all
  with False W' show ?thesis by (auto simp: add_db_def numbers_ok_def)
qed

theorem create_db_witness:
  "\<exists>W'. MainLoop_CreateDB sample_start = Inr (1, W') \<and> map (db_number \<circ> snd) (databases W') = [0, 1] \<and>
    numbers_ok (nums W') (map snd (databases W'))"
proof -
  have ok: "numbers_ok (nums sample_start) (map snd (databases sample_start))"
    by (simp add: numbers_ok_def sample_start_def Db_fresh_def)
  have new: "next_number ((\<lambda>n. 0)(0 := 1)) 0 = Inr 1"
    by (simp add: next_number.simps [of _ 0] next_number.simps [of _ 1] int_add_def fits_int_def)
  have "\<exists>W'. MainLoop_CreateDB sample_start = Inr (1, W') \<and> map (db_number \<circ> snd) (databases W') = [0, 1]"
    by (simp add: MainLoop_CreateDB_def Db_ctor_def sample_start_def new add_db_def Db_fresh_def Db_Number_def)
  then obtain W' where W': "MainLoop_CreateDB sample_start = Inr (1, W')" "map (db_number \<circ> snd) (databases W') = [0, 1]"
    by (elim exE conjE)
  have "length (databases sample_start) = 1" by (simp add: sample_start_def)
  with create_db [OF ok W'(1)] have "numbers_ok (nums W') (map snd (databases W'))" by simp
  with W' show ?thesis by (intro exI conjI)
qed

text \<open>
  C21.  The timer thread never executes a timer before its time and never loses one: a popped timer
  was due when the thread looked at the clock, no timer left in the queue is due earlier, and
  the queue then holds exactly what it held and what arrived while the thread waited, without
  that timer.
\<close>

theorem timer_due:
  assumes "que_wf que" and "TimerQue_BlockPop es que = Some (t, que', es')"
  shows "\<exists>before now_us. es = before @ Wake now_us # es' \<and> expire_time_us t \<le> now_us \<and>
    (\<forall>u \<in> set que'. expire_time_us t \<le> expire_time_us u) \<and> que_wf que' \<and>
    mset que' + {#t#} = mset que + mset (arrivals before)"
  by (rule TimerQue_BlockPop_due [OF assms])

theorem timer_due_witness:
  "\<exists>before now_us. [Wake 5, Arrive (RdbTimer 3 1), Wake 8, Wake 9] = before @ Wake now_us # [Wake 9] \<and>
    expire_time_us (RdbTimer 3 1) \<le> now_us"
proof -
  have pop: "TimerQue_BlockPop [Wake 5, Arrive (RdbTimer 3 1), Wake 8, Wake 9] [DbExpireTimer 7 0 ''k''] =
      Some (RdbTimer 3 1, [DbExpireTimer 7 0 ''k''], [Wake 9])"
    by (simp add: TimerQue_Push_def TimerGreater_def)
  have wf: "que_wf [DbExpireTimer 7 0 ''k'']" by (simp add: que_wf_def)
  from timer_due [OF wf pop] show ?thesis by blast
qed

text \<open>
  C22.  The wait for a timer ends: if some timer of the queue is due at one of the wake-ups, the timer
  thread returns a timer.
\<close>

theorem timer_fires:
  assumes "que_wf que" and "u \<in> set que" and "Wake now_us \<in> set es" and "expire_time_us u \<le> now_us"
  shows "\<exists>r. TimerQue_BlockPop es que = Some r"
  by (rule TimerQue_BlockPop_returns [OF assms])

theorem timer_fires_witness:
  "\<exists>r. TimerQue_BlockPop [Wake 5, Wake 8] [DbExpireTimer 7 0 ''k''] = Some r"
  by (rule timer_fires [of _ "DbExpireTimer 7 0 ''k''" 8]) (simp_all add: que_wf_def)

text \<open>
  C23.  The commands of a batch of requests are appended to the command queue in the order of the
  requests; a request whose name is no command adds nothing.
\<close>

theorem requests_in_order:
  assumes "ioClient_requests cf cli reqs W = Inr W'"
  shows "\<exists>cmds. map (RequestToCommandExec cli) reqs = map Inr cmds \<and>
    cmd_que W' = cmd_que W @ concat (map (\<lambda>c. case c of None \<Rightarrow> [] | Some cc \<Rightarrow> [cc]) cmds)"
  by (rule ioClient_requests_queue [OF assms])

theorem requests_in_order_witness:
  "\<exists>W'. ioClient_requests env_plain 0 [[JString ''get'', JString ''a''], [JString ''nothing''], [JString ''len'', JString ''b'']]
      (sample_start\<lparr>conf := DefaultConf\<rparr>) = Inr W' \<and> length (cmd_que W') = 2"
proof -
  let ?W = "sample_start\<lparr>conf := DefaultConf\<rparr>"
  let ?reqs = "[[JString ''get'', JString ''a''], [JString ''nothing''], [JString ''len'', JString ''b'']]"
  let ?get = "Cmd_Str \<lparr>valid = True, command = ''GET'', obj_name = ''a'', str_value = None\<rparr>"
  let ?len = "Cmd_Str \<lparr>valid = True, command = ''LEN'', obj_name = ''b'', str_value = None\<rparr>"
  have parsed: "RequestToCommandExec 0 [JString ''get'', JString ''a''] = Inr (Some (0, ?get))"
      "RequestToCommandExec 0 [JString ''nothing''] = Inr None"
      "RequestToCommandExec 0 [JString ''len'', JString ''b''] = Inr (Some (0, ?len))" by code_simp+
  have "\<exists>W'. ioClient_requests env_plain 0 ?reqs ?W = Inr W'"
    by (simp add: parsed DefaultConf_def)
  then obtain W' where W': "ioClient_requests env_plain 0 ?reqs ?W = Inr W'" by blast
  from requests_in_order [OF this] obtain cmds where cmds: "map (RequestToCommandExec 0) ?reqs = map Inr cmds"
      "cmd_que W' = cmd_que ?W @ concat (map (\<lambda>c. case c of None \<Rightarrow> [] | Some cc \<Rightarrow> [cc]) cmds)" by blast
  from cmds(1) have "cmds = [Some (0, ?get), None, Some (0, ?len)]"
    by (auto simp: parsed map_eq_Cons_conv)
  with cmds(2) W' show ?thesis by (intro exI [of _ W']) (simp add: sample_start_def)
qed

text \<open>
  C24.  SET of a value that is not empty, on a key that is free or holds a string, answers OK; a GET
  of the key that follows answers the quoted value, and neither touches another key.
\<close>

theorem set_then_get:
  assumes "Db_wf db" and "case db_abs db key of None \<Rightarrow> True | Some (ob, e) \<Rightarrow> \<exists>s. ob = Obj_Str s" and "v \<noteq> []"
  shows "\<exists>db1 db2.
    StrCommand_Exec \<lparr>valid = True, command = ''SET'', obj_name = key, str_value = Some v\<rparr> db = Inr (reply ''OK'', db1) \<and>
    StrCommand_Exec \<lparr>valid = True, command = ''GET'', obj_name = key, str_value = w\<rparr> db1 = Inr (reply (quoted v), db2) \<and>
    db_abs db2 = db_abs db1 \<and> (\<forall>d. d \<noteq> key \<longrightarrow> db_abs db2 d = db_abs db d)"
  by (rule SET_GET [OF assms])

theorem set_then_get_witness:
  "\<exists>db1 db2.
    StrCommand_Exec \<lparr>valid = True, command = ''SET'', obj_name = ''k'', str_value = Some ''v''\<rparr> (Db_fresh 0) = Inr (reply ''OK'', db1) \<and>
    StrCommand_Exec \<lparr>valid = True, command = ''GET'', obj_name = ''k'', str_value = None\<rparr> db1 = Inr (reply (quoted ''v''), db2)"
  using set_then_get [OF Db_wf_fresh, of 0 "''k''" "''v''" None] by auto

text \<open>
  C25.  The reader of numbers in commands gives no value for a text that is not an optional minus sign
  followed by digits, the value for a literal of magnitude at most INT_MAX, and throws for every
  other literal, INT_MIN included.
\<close>

theorem redis_str_to_int:
  "RedisStrToInt raw =
     (if \<not> int_literal raw then Inr None
      else if \<bar>literal_val raw\<bar> \<le> INT_MAX then Inr (Some (word_of_int (literal_val raw)))
      else Inl Out_Of_Range)"
  by (rule RedisStrToInt_eq)

text \<open>
  C26.  An INCRBY or DECRBY of a stored string by a literal of more than INT_MAX throws out of the
  executing thread, which nothing catches: one request ends the server.
\<close>

theorem increment_out_of_range:
  assumes "client_lock cli (server W) = Some c" and "client_db c W = Inr (h, db)"
    and "Db_Get (Str_ctor key) db = Some (Obj_Str s)" and "int_literal v" and "INT_MAX < \<bar>literal_val v\<bar>"
    and "name \<in> {''INCRBY'', ''DECRBY''}"
  shows "Command_Exec cf i (Cmd_Str \<lparr>valid = True, command = name, obj_name = key, str_value = Some v\<rparr>) cli W =
    Inl Out_Of_Range"
proof -
  have "RedisStrToInt v = Inl Out_Of_Range" using assms(4,5) by (simp add: RedisStrToInt_eq)
  with assms(1-3,6) show ?thesis
    by (auto simp: on_database_def object_Exec_def StrCommand_Exec_def with_object_def Let_def StrCommand_run_def
        opt_value_def Str_GetObjectType_def)
qed

theorem increment_out_of_range_witness:
  "Command_Exec env_plain sample_input
     (Cmd_Str \<lparr>valid = True, command = ''INCRBY'', obj_name = ''n'', str_value = Some ''2147483648''\<rparr>) 0
     (sample_connected\<lparr>databases := [(0, sample_db)]\<rparr>) = Inl Out_Of_Range"
proof (rule increment_out_of_range)
  show "client_lock 0 (server (sample_connected\<lparr>databases := [(0, sample_db)]\<rparr>)) = Some sample_client"
    by (simp add: sample_connected_def sample_server_def client_lock_def)
  show "client_db sample_client (sample_connected\<lparr>databases := [(0, sample_db)]\<rparr>) = Inr (0, sample_db)"
    by (simp add: client_db_def ClientInfo_GetDB_def sample_client_def db_deref_def)
  show "Db_Get (Str_ctor ''n'') sample_db = Some (Obj_Str (Str_ctor ''42''))"
    by (simp add: Db_Get_def sample_db_def sample_entry_def Str_eq_def KeyValue_GetValue_def)
  show "int_literal ''2147483648''" by code_simp
  show "INT_MAX < \<bar>literal_val ''2147483648''\<bar>"
    by (simp add: literal_val_def digits_val_def digit_val_def)
qed simp

text \<open>
  C27.  LINDEX, LSET and LTRIM work on a list that is not empty with positions modulo its length,
  counted from the end when negative; LTRIM removes the range between its positions, both
  included. A negative multiple of the length is the one position that lands behind the last
  element, which dereferences the end of the list.
\<close>

theorem list_positions:
  assumes "l \<noteq> []" and "length l < 2 ^ 31" and "sint i \<noteq> INT_MIN" and "sint j \<noteq> INT_MIN"
  shows "List_Index i l =
      (if 0 \<le> sint i \<or> \<not> int (length l) dvd sint i then Inr (l ! list_position (length l) i) else Inl Undefined) \<and>
    List_Set i v l =
      (if 0 \<le> sint i \<or> \<not> int (length l) dvd sint i then Inr (True, l[list_position (length l) i := v])
       else Inl Undefined) \<and>
    List_Trim i j l =
      (if list_position (length l) j < list_position (length l) i then Inr (False, l)
       else if list_position (length l) j < length l
       then Inr (True, take (list_position (length l) i) l @ drop (Suc (list_position (length l) j)) l)
       else Inl Undefined)"
  using List_Index_eq [OF assms(1-3)] List_Set_eq [OF assms(1-3)] List_Trim_eq [OF assms] by (simp add: Let_def)

theorem list_positions_witness:
  "List_Index (-1) [Str_ctor ''a'', Str_ctor ''b'', Str_ctor ''c''] = Inr (Str_ctor ''c'') \<and>
   List_Index (-3) [Str_ctor ''a'', Str_ctor ''b'', Str_ctor ''c''] = Inl Undefined"
proof -
  let ?l = "[Str_ctor ''a'', Str_ctor ''b'', Str_ctor ''c'']"
  have s: "sint (-1 :: int32) = -1" "sint (-3 :: int32) = -3" by simp_all
  have pos: "list_position 3 (-1) = 2" "length ?l = 3" by (simp_all add: list_position_def)
  note idx = list_positions [of ?l _ 0, THEN conjunct1]
  have "List_Index (-1) ?l = (if 0 \<le> sint (-1 :: int32) \<or> \<not> int (length ?l) dvd sint (-1 :: int32)
      then Inr (?l ! list_position (length ?l) (-1)) else Inl Undefined)"
    by (rule idx) simp_all
  moreover have "List_Index (-3) ?l = (if 0 \<le> sint (-3 :: int32) \<or> \<not> int (length ?l) dvd sint (-3 :: int32)
      then Inr (?l ! list_position (length ?l) (-3)) else Inl Undefined)"
    by (rule idx) simp_all
  ultimately show ?thesis unfolding s pos by simp
qed

text \<open>
  C28.  LREM never removes anything: its guard negates the number of matches before comparing it with
  zero, so the list is unchanged and the answer is 0 for every count, value and list, except
  that the absolute value of the count INT_MIN is undefined on a list that is not empty.
\<close>

theorem list_rem_does_nothing:
  "List_Rem cnt v l = (if sint cnt = INT_MIN \<and> l \<noteq> [] then Inl Undefined else Inr (0, l))"
  by (rule List_Rem_noop)

text \<open>
  C29.  A hash behaves as a finite map from strings to values under setting, reading, deleting,
  testing and counting, and each operation keeps its keys distinct.
\<close>

theorem hash_refines_map:
  assumes "um_wf h"
  shows "um_wf (Hash_Set k v h) \<and> hash_abs (Hash_Set k v h) = (hash_abs h)(str_data k \<mapsto> v) \<and>
    um_wf (Hash_Del k h) \<and> hash_abs (Hash_Del k h) = (hash_abs h)(str_data k := None) \<and>
    Hash_Get k h = (case hash_abs h (str_data k) of None \<Rightarrow> Str_default | Some v \<Rightarrow> v) \<and>
    (Hash_Exist k h \<longleftrightarrow> str_data k \<in> dom (hash_abs h)) \<and> Hash_Len h = card (dom (hash_abs h))"
  using assms by (simp add: Hash_Set_wf Hash_Set_abs Hash_Del_wf Hash_Del_abs Hash_Get_abs Hash_Exist_abs Hash_Len_abs)

theorem hash_refines_map_witness:
  "hash_abs (Hash_Del (Str_ctor ''a'') [(Str_ctor ''a'', Str_ctor ''1'')]) = Map.empty"
  using hash_refines_map [of "[(Str_ctor ''a'', Str_ctor ''1'')]" "Str_ctor ''a''"]
  by (simp add: um_wf_def hash_abs_def)

text \<open>
  C30.  A set behaves as a finite set of strings under adding, removing, testing, counting, difference
  and intersection with another set. Popping is the exception: it returns an element that stays
  in the set and removes another one, and on a set of one element it dereferences the end
  iterator.
\<close>

theorem set_refines_set:
  assumes "us_wf s" and "us_wf t"
  shows "set_abs (snd (Set_Add d s)) = insert (str_data d) (set_abs s) \<and>
    (fst (Set_Add d s) \<longleftrightarrow> str_data d \<notin> set_abs s) \<and>
    set_abs (snd (Set_Rem d s)) = set_abs s - {str_data d} \<and> (fst (Set_Rem d s) \<longleftrightarrow> str_data d \<in> set_abs s) \<and>
    (Set_IsMember d s \<longleftrightarrow> str_data d \<in> set_abs s) \<and> Set_Card s = card (set_abs s) \<and>
    str_data ` set (Set_Diff False s t) = set_abs s - set_abs t \<and>
    str_data ` set (Set_Inter False s t) = set_abs s \<inter> set_abs t \<and>
    Set_Pop s =
      (if s = [] then Inr (Str_default, []) else if length s = 1 then Inl Undefined else Inr (s ! 1, tl s))"
  using assms
  by (simp add: Set_Add_abs Set_Add_new Set_Rem_abs Set_Rem_present Set_IsMember_abs Set_Card_abs
      Set_Diff_abs Set_Inter_abs Set_Pop_cases)

theorem set_refines_set_witness:
  "str_data ` set (Set_Inter False [Str_ctor ''a'', Str_ctor ''b''] [Str_ctor ''b'']) = {''b''}"
  using set_refines_set [of "[Str_ctor ''a'', Str_ctor ''b'']" "[Str_ctor ''b'']"]
  by (simp add: us_wf_def set_abs_def)

text \<open>
  C31.  A configuration written as a JSON object with its eleven fields is read back unchanged, for
  numbers below 100000000.
\<close>

theorem conf_roundtrip:
  assumes "conf_small c"
  shows "LoadConf trunc (Some (dump fmt (conf_json c))) = c"
  by (rule LoadConf_conf_json [OF assms])

theorem conf_roundtrip_witness: "LoadConf (\<lambda>t. 0) (Some (dump (\<lambda>t. t) (conf_json DefaultConf))) = DefaultConf"
  by (rule conf_roundtrip) (simp add: conf_small_def DefaultConf_def)

text \<open>
  C32.  The conversion of a request against a table that gives for every opcode (in any case of
  letters) but FORK its class, the least number of its arguments and whether those behind the
  key come in pairs. The conversion returns a command of this class for the client that sent the
  request; the command is valid exactly if there are that many arguments, they pair up where
  they must, and (except for SELECT, CREATE, SHOW, REWRITE and ENDFORKING) none is empty; and a
  valid command has the opcode, the first argument as its key if the opcode needs one, and the
  operands of its class. FORK with arguments that are not empty is valid exactly if the first
  one has a colon and what follows it is a number for std::stoi, which throws otherwise. Any
  other opcode and the empty request give no command.
\<close>

theorem request_typed:
  assumes "c = map toupper (string_value r0)"
  shows "(\<forall>cls least paired. (c, cls, least, paired) \<in> set command_table \<longrightarrow>
      (\<exists>cmd ok. RequestToCommandExec client (r0 # args) = Inr (Some (client, cmd)) \<and> Command_class cmd = cls \<and>
        fst (Command_base cmd) = ok \<and>
        (ok \<longleftrightarrow> least \<le> length args \<and> (paired \<longrightarrow> odd (length args)) \<and>
           (cls = Class_Cli \<or> least = 0 \<or> (\<forall>a \<in> set args. string_value a \<noteq> []))) \<and>
        (ok \<longrightarrow> Command_base cmd = (True, c, if least = 0 then [] else string_value (args ! 0)) \<and>
           Command_operands cmd = operands_taken cls least (map string_value args)))) \<and>
    (\<forall>addr rest. c = ''FORK'' \<longrightarrow> args = JString addr # rest \<longrightarrow> addr \<noteq> [] \<longrightarrow> (\<forall>a \<in> set rest. string_value a \<noteq> []) \<longrightarrow>
      (CHR '':'' \<notin> set addr \<longrightarrow> RequestToCommandExec client (r0 # args) =
        Inr (Some (client, Cmd_Server \<lparr>valid = False, command = ''FORK'', obj_name = addr, ip = [], port = None\<rparr>))) \<and>
      (\<forall>host prt. addr = host @ CHR '':'' # prt \<longrightarrow> CHR '':'' \<notin> set host \<longrightarrow> RequestToCommandExec client (r0 # args) =
        rbind (stoi prt) (\<lambda>p. Inr (Some (client,
          Cmd_Server \<lparr>valid = True, command = ''FORK'', obj_name = addr, ip = host, port = Some (ucast p)\<rparr>))))) \<and>
    (c \<notin> insert ''FORK'' (fst ` set command_table) \<longrightarrow> RequestToCommandExec client (r0 # args) = Inr None) \<and>
    RequestToCommandExec client [] = Inr None"
proof (intro conjI allI impI)
  fix cls least paired
  assume "(c, cls, least, paired) \<in> set command_table"
  from RequestToCommandExec_converts [OF this assms [symmetric], of client args]
  obtain cmd where cmd: "RequestToCommandExec client (r0 # args) = Inr (Some (client, cmd))" "converts c cls least paired args cmd"
    by blast
  have e: "[] \<notin> set (map string_value args) \<longleftrightarrow> (\<forall>a \<in> set args. string_value a \<noteq> [])" by force
  from cmd(2) cmd(1) show "\<exists>cmd ok. RequestToCommandExec client (r0 # args) = Inr (Some (client, cmd)) \<and> Command_class cmd = cls \<and>
        fst (Command_base cmd) = ok \<and>
        (ok \<longleftrightarrow> least \<le> length args \<and> (paired \<longrightarrow> odd (length args)) \<and>
           (cls = Class_Cli \<or> least = 0 \<or> (\<forall>a \<in> set args. string_value a \<noteq> []))) \<and>
        (ok \<longrightarrow> Command_base cmd = (True, c, if least = 0 then [] else string_value (args ! 0)) \<and>
           Command_operands cmd = operands_taken cls least (map string_value args))"
    unfolding converts_def enough_operands_def e length_map by blast
next
  fix addr rest
  assume fork: "c = ''FORK''" "args = JString addr # rest" "addr \<noteq> []" "\<forall>a \<in> set rest. string_value a \<noteq> []"
  have e: "[] \<notin> set (map string_value rest)" using fork(4) by force
  have r: "RequestToCommandExec client (r0 # args) =
      rbind (JsonToServerCommand (JString ''FORK'' # JString addr # rest)) (\<lambda>cmd. Inr (Some (client, Cmd_Server cmd)))"
    using RequestToCommandExec_FORK assms fork(1,2) by metis
  note addr = JsonToServerCommand_FORK [OF fork(3) e]
  show "RequestToCommandExec client (r0 # args) =
        Inr (Some (client, Cmd_Server \<lparr>valid = False, command = ''FORK'', obj_name = addr, ip = [], port = None\<rparr>))"
    if "CHR '':'' \<notin> set addr" using addr(1) [OF that] by (simp add: r)
  show "RequestToCommandExec client (r0 # args) =
        rbind (stoi prt) (\<lambda>p. Inr (Some (client,
          Cmd_Server \<lparr>valid = True, command = ''FORK'', obj_name = addr, ip = host, port = Some (ucast p)\<rparr>)))"
    if "addr = host @ CHR '':'' # prt" "CHR '':'' \<notin> set host" for host prt
    using addr(2) [OF that] by (cases "stoi prt") (simp_all add: r)
next
  assume "c \<notin> insert ''FORK'' (fst ` set command_table)"
  then show "RequestToCommandExec client (r0 # args) = Inr None"
    unfolding assms by (rule RequestToCommandExec_unknown)
qed (simp add: RequestToCommandExec_def)

theorem request_typed_witness:
  "\<exists>cmd cmd'. RequestToCommandExec 0 sample_request = Inr (Some (0, cmd)) \<and> Command_class cmd = Class_Str \<and>
    Command_base cmd = (True, ''SET'', ''k'') \<and> Command_operands cmd = [''v''] \<and>
    RequestToCommandExec 0 [JString ''lpushf'', JString ''k''] = Inr (Some (0, cmd')) \<and> \<not> fst (Command_base cmd')"
proof -
  have up: "''SET'' = map toupper (string_value (JString ''set''))" "''LPUSHF'' = map toupper (string_value (JString ''lpushf''))"
    by code_simp+
  have tab: "(''SET'', Class_Str, 2, False) \<in> set command_table" "(''LPUSHF'', Class_List, 2, False) \<in> set command_table"
    by (simp_all add: command_table_def)
  from request_typed [OF up(1), of 0 "map JString [''k'', ''v'']"] tab(1) obtain cmd where
    "RequestToCommandExec 0 sample_request = Inr (Some (0, cmd))" "Command_class cmd = Class_Str"
    "Command_base cmd = (True, ''SET'', ''k'')" "Command_operands cmd = [''v'']"
    by (force simp: sample_request_def)
  moreover from request_typed [OF up(2), of 0 "[JString ''k'']"] tab(2) obtain cmd' where
    "RequestToCommandExec 0 [JString ''lpushf'', JString ''k''] = Inr (Some (0, cmd'))" "\<not> fst (Command_base cmd')"
    by force
  ultimately show ?thesis by blast
qed

text \<open>
  C33.  However the kernel splits the writes and however often it asks to try again: when FORK answers
  OK, exactly the stream that rebuilds the database of the client has been sent.
\<close>

theorem fork_sends_all:
  assumes "command cmd = ''FORK''" and "ServerCommand_Exec cf io cmd cli W = Inr (Some (reply ''OK''), W')"
  shows "\<exists>c h db. client_lock cli (server W) = Some c \<and> client_db c W = Inr (h, db) \<and>
    fork_sent W' = fork_sent W @ concat (fork_requests cf (password W) db)"
  by (rule FORK_sent [OF assms])

theorem fork_sends_all_witness:
  "\<exists>W' h db. ServerCommand_Exec env_plain
      \<lparr>socket_ok = True, connect_ok = True, write_answers = [Write_Error EAGAIN, Wrote 3, Wrote 2]\<rparr>
      \<lparr>valid = True, command = ''FORK'', obj_name = ''h'', ip = ''127.0.0.1'', port = Some 8080\<rparr> 0 sample_connected =
        Inr (Some (reply ''OK''), W') \<and>
    client_db sample_client sample_connected = Inr (h, db) \<and>
    fork_sent W' = concat (fork_requests env_plain ''yeah'' db)"
proof -
  let ?io = "\<lparr>socket_ok = True, connect_ok = True, write_answers = [Write_Error EAGAIN, Wrote 3, Wrote 2]\<rparr>"
  let ?cmd = "\<lparr>valid = True, command = ''FORK'', obj_name = ''h'', ip = ''127.0.0.1'', port = Some 8080\<rparr> :: ServerCommand"
  have cl: "client_lock 0 (server sample_connected) = Some sample_client" "password sample_connected = ''yeah''"
      "fork_sent sample_connected = []" "client_db sample_client sample_connected = Inr (0, Db_fresh 0)"
    by (simp_all add: sample_connected_def sample_server_def sample_start_def client_lock_def client_db_def
        ClientInfo_GetDB_def sample_client_def db_deref_def)
  have reqs: "fork_requests env_plain ''yeah'' (Db_fresh 0) =
      [dump (\<lambda>t. t) (JArray (select_request ''yeah'' 0)), ''ENDFORKING'']"
    by (simp add: fork_requests_def Db_Fork_def Db_fresh_def env_plain_def del: dump.simps)
  obtain a b c d e f rest where d: "dump (\<lambda>t. t) (JArray (select_request ''yeah'' 0)) = a # b # c # d # e # f # rest"
  proof -
    have "6 \<le> length (dump (\<lambda>t. t) (JArray (select_request ''yeah'' 0)))" by code_simp
    then show ?thesis
      by (auto simp: numeral_eq_Suc Suc_le_length_iff simp del: dump.simps intro: that)
  qed
  have "\<exists>W'. ServerCommand_Exec env_plain ?io ?cmd 0 sample_connected = Inr (Some (reply ''OK''), W')"
    by (simp add: ServerCommand_Exec_def cl reqs d del: dump.simps)
  then obtain W' where W': "ServerCommand_Exec env_plain ?io ?cmd 0 sample_connected = Inr (Some (reply ''OK''), W')" by blast
  from fork_sends_all [OF _ W'] cl show ?thesis by (intro exI [of _ W']) (auto simp: W')
qed

text \<open>
  C34.  A line typed into the client that consists of words over the letters, the digits, the minus
  sign, the dot and the colon, with separators between them made of any other characters (so an
  underscore separates two words), and whose first word exists and is not expire, is sent as
  bytes that the server, at the next message boundary, takes as one request made of exactly
  these words, leaving what follows untouched.
\<close>

theorem client_line_received:
  assumes "separated ps end_sep" and "ps \<noteq> []" and "snd (hd ps) \<noteq> ''expire''"
  shows "\<exists>bytes. ClientEnd_send fmt tv_sec tv_usec (typed_line ps end_sep) = Inr bytes \<and>
    (\<forall>rest. ExportMessages_loop (bytes @ rest) =
      (case ExportMessages_loop rest of (ms, r) \<Rightarrow> (map JString (map snd ps) # ms, r)))"
  using ClientEnd_send_received [of "typed_line ps end_sep", unfolded cli_RawCommandTokens_line [OF assms(1)]] assms(2,3)
  by (simp add: hd_map)

theorem client_line_received_witness:
  "\<exists>bytes. ClientEnd_send (\<lambda>t. t) 0 0 ''zadd z -5 a'' = Inr bytes \<and>
    (\<forall>rest. ExportMessages_loop (bytes @ rest) =
      (case ExportMessages_loop rest of (ms, r) \<Rightarrow> (map JString [''zadd'', ''z'', ''-5'', ''a''] # ms, r)))"
proof -
  let ?ps = "[([], ''zadd''), ('' '', ''z''), ('' '', ''-5''), ('' '', ''a'')]"
  have line: "typed_line ?ps [] = ''zadd z -5 a''" "map snd ?ps = [''zadd'', ''z'', ''-5'', ''a'']"
    by (simp_all add: typed_line_def)
  have sep: "separated ?ps []" by (simp add: separated_def word_chars_def)
  show ?thesis by (rule client_line_received [OF sep, unfolded line]) simp_all
qed

text \<open>
  C35.  The LZVN decoder is memory safe on every input: started on a source and a destination window
  with a previous distance that lies inside the destination, it returns without an access
  outside the two buffers, whatever bytes the source holds, and its pointers end inside the
  windows.
\<close>

theorem lzvn_decode_in_bounds:
  assumes "vd_sp st \<le> vd_src_end st" and "vd_src_end st \<le> length (vd_src st)" and "vd_L st = 0" and "vd_M st = 0"
    and "vd_dp st \<le> vd_dst_end st" and "vd_dst_end st \<le> length (vd_dst st)" and "vd_dst_begin st + vd_d_prev st \<le> vd_dp st"
  shows "\<exists>st'. lzvn_decode st = Inr st' \<and> vd_src st' = vd_src st \<and> length (vd_dst st') = length (vd_dst st) \<and>
    vd_sp st \<le> vd_sp st' \<and> vd_sp st' \<le> vd_src_end st \<and> vd_dp st' \<le> vd_dst_end st"
  using lzvn_decode_safe [OF assms] lzvn_decode_from [of st] assms(3,4) by (auto simp: lzvn_safe_def)

theorem lzvn_decode_in_bounds_witness:
  "\<exists>st'. lzvn_decode \<lparr>vd_src = ''abc'', vd_sp = 0, vd_src_end = 3, vd_dst = ''xxxx'', vd_dp = 0, vd_dst_begin = 0, vd_dst_end = 4,
     vd_L = 0, vd_M = 0, vd_D = 0, vd_d_prev = 0, vd_end_of_stream = False\<rparr> = Inr st' \<and> vd_sp st' \<le> 3 \<and> vd_dp st' \<le> 4"
  using lzvn_decode_in_bounds [of "\<lparr>vd_src = ''abc'', vd_sp = 0, vd_src_end = 3, vd_dst = ''xxxx'', vd_dp = 0, vd_dst_begin = 0,
     vd_dst_end = 4, vd_L = 0, vd_M = 0, vd_D = 0, vd_d_prev = 0, vd_end_of_stream = False\<rparr>"] by auto

text \<open>
  C36.  A server that starts without its file, or with an empty one, reads three bytes from an empty
  deque, which is undefined: with the append-only file in AOFLoad, whatever the sockets do, and
  without it, for a save frequency that is not zero, in RDBLoad.
\<close>

theorem first_start_fails:
  assumes "conf_enable_aof c \<or> conf_save_n_times c \<noteq> 0" and "fls (conf_file_name c) \<in> {None, Some []}"
  shows "server_start cf io now1 now2 c fls = Inl Undefined"
  by (rule first_start) (use assms in \<open>auto simp: file_contents_def\<close>)

theorem first_start_fails_witness:
  "server_start env_plain sample_socket 0 0 DefaultConf Map.empty = Inl Undefined \<and>
   server_start env_plain sample_socket 0 0 sample_conf Map.empty = Inl Undefined"
  using first_start_fails [of DefaultConf Map.empty] first_start_fails [of sample_conf Map.empty]
  by (simp add: DefaultConf_def sample_conf_def)



text \<open>
  C38.  A turn of the main loop of a running server never fails, whatever events the kernel reports:
  there is always a first database to give to a new client.
\<close>

theorem main_loop_runs:
  assumes "server_start cf io now1 now2 c fls = Inr (cf', W0, sent)" and "reachable cf' W0 W"
  shows "\<exists>W'. MainLoop_Run kevs W = Inr W'"
  using MainLoop_Run_total [OF reachable_ok [OF assms(2) server_start_ok [OF assms(1)]], of kevs] by (simp add: total_def)

theorem main_loop_runs_witness: "\<exists>W'. MainLoop_Run [Incoming 7, Ready 5 False, Ready 9 True] sample_queued = Inr W'"
  by (rule main_loop_runs [OF sample_started sample_queues])

text \<open>
  C39.  Adding to a well-formed string that is marked as an integer and not empty: when the stored
  number is beyond INT_MAX in absolute value (which includes the text of INT_MIN) the conversion
  throws out_of_range; otherwise the sum is stored and returned in decimal when it fits into an
  int, and is the undefined signed overflow when it does not.
\<close>

theorem str_increment:
  assumes "Str_wf s" and "str_enc s = EncodingType_INT" and "str_data s \<noteq> []"
  shows "Str_IncrBy delta s =
    (let v = literal_val (str_data s) + sint delta in
     if \<bar>literal_val (str_data s)\<bar> > INT_MAX then Inl Out_Of_Range
     else if fits_int v then Inr (to_string_int v, s\<lparr>str_data := to_string_int v\<rparr>) else Inl Undefined)"
  by (rule Str_IncrBy_eq [OF assms])

theorem str_increment_witness:
  "Str_IncrBy (-50) (Str_ctor ''42'') = Inr (to_string_int (-8), (Str_ctor ''42'')\<lparr>str_data := to_string_int (-8)\<rparr>) \<and>
   Str_IncrBy 1 (Str_ctor ''-2147483648'') = Inl Out_Of_Range"
proof -
  have lit: "int_literal ''42''" "int_literal ''-2147483648''" by code_simp+
  then have s: "Str_wf (Str_ctor ''42'')" "str_enc (Str_ctor ''42'') = EncodingType_INT"
    by (simp_all add: Str_wf_def Str_ctor_def less_char_def)
  have t: "Str_wf (Str_ctor ''-2147483648'')" "str_enc (Str_ctor ''-2147483648'') = EncodingType_INT"
    by (simp, code_simp)
  have v: "literal_val ''42'' = 42" "literal_val ''-2147483648'' = -2147483648"
    by (simp_all add: literal_val_def digits_val_def digit_val_def)
  show ?thesis using str_increment [OF s, of "-50"] str_increment [OF t, of 1] by (simp add: v fits_int_def)
qed

text \<open>
  C40.  The request that FORK and the rewriting of the append-only file write for an entry whose key
  is a non-empty word of letters and digits and whose value is a string that holds a negative
  number sets the positive number instead: the tokenizer drops the minus sign.
\<close>

theorem fork_drops_signs:
  assumes "kv_key kv = Str_ctor key" and "kv_value kv = Obj_Str (Str_ctor (CHR ''-'' # ds))"
    and "token key" and "ds \<noteq> []" and "list_all is_digit ds"
  shows "RawCommandToRequest (KeyValue_Fork kv) = map JString [''SET'', key, ds]"
proof -
  have t: "token ds" by (rule token_digits [OF assms(5,4)])
  have "KeyValue_Fork kv = concat (map (\<lambda>t. t @ '' '') [''SET'', key]) @ CHR ''-'' # ds"
    by (simp add: KeyValue_Fork_def assms(1,2) Str_Fork_def)
  moreover have "RawCommandTokens (CHR ''-'' # ds) = [ds]"
    using RawCommandTokens_Cons [of "[CHR ''-'']" ds "[]"] t
    by (simp add: token_def RawCommandTokens_Nil isTokenMember_def less_eq_char_def)
  ultimately show ?thesis
    using RawCommandTokens_spaced [of "[''SET'', key]" "CHR ''-'' # ds"] assms(3)
    by (simp add: RawCommandToRequest_def)
qed

theorem fork_drops_signs_witness:
  "RawCommandToRequest (KeyValue_Fork (snd (sample_entry ''k'' (Obj_Str (Str_ctor ''-5'')) None))) = map JString [''SET'', ''k'', ''5'']"
  by (rule fork_drops_signs)
    (simp_all add: sample_entry_def token_def isTokenMember_def is_digit_def less_eq_char_def less_char_def)

end
